(* ===== verification/Prelude.thy ===== *)
theory Prelude
  imports Main "HOL-Library.Word" "HOL-Library.State_Monad"
begin

text \<open>
  What every component shares: the machine types of the code (the camera HAL is built
  32-bit only, \<open>LOCAL_32_BIT_ONLY\<close> in \<open>camera/QCamera2/Android.mk\<close>), the collections of
  simplification rules, the evaluation rules of the state monad, and the contract of an
  event-driven machine: a locale in which an invariant kept by each event is shown to
  hold after every sequence of events.
\<close>

type_synonym int32 = "32 word"
type_synonym u8 = "8 word"
type_synonym u16 = "16 word"
type_synonym u32 = "32 word"
type_synonym ptr = "32 word"

text \<open>The rule that the NAT cache hands to the NAT driver (\<open>ipa_nat_ipv4_rule\<close>, \<open>ipa_nat_drv.h\<close>).\<close>

record ipa_nat_ipv4_rule =
  r_target_ip :: u32
  r_private_ip :: u32
  r_target_port :: u16
  r_private_port :: u16
  r_public_port :: u16
  r_protocol :: u8

abbreviation NULL :: ptr where
  "NULL \<equiv> 0"

text \<open>
  \<open>run_simps\<close> evaluates the primitive operations of a component in the state monad,
  \<open>trace_simps\<close> reads what a trace of calls and signals contains.
\<close>

named_theorems run_simps
named_theorems trace_simps

abbreviation ret :: "'a \<Rightarrow> ('s, 'a) state" where
  "ret \<equiv> State_Monad.return"

text \<open>Reading and updating a component of the state.\<close>

definition gets :: "('s \<Rightarrow> 'a) \<Rightarrow> ('s, 'a) state" where
  "gets f = State (\<lambda>s. (f s, s))"

definition modify :: "('s \<Rightarrow> 's) \<Rightarrow> ('s, unit) state" where
  "modify f = State (\<lambda>s. ((), f s))"

definition skip :: "('s, unit) state" where
  "skip = State_Monad.return ()"

definition whenM :: "bool \<Rightarrow> ('s, unit) state \<Rightarrow> ('s, unit) state" where
  "whenM b m = (if b then m else skip)"

lemma run_state_gets [run_simps, simp]: "run_state (gets f) s = (f s, s)"
  by (simp add: gets_def)

lemma run_state_modify [run_simps, simp]: "run_state (modify f) s = ((), f s)"
  by (simp add: modify_def)

lemma run_state_skip [run_simps, simp]: "run_state skip s = ((), s)"
  by (simp add: skip_def)

lemma run_state_whenM [run_simps, simp]:
  "run_state (whenM b m) s = (if b then run_state m s else ((), s))"
  by (simp add: whenM_def)

lemma run_state_if [run_simps, simp]:
  "run_state (if b then x else y) s = (if b then run_state x s else run_state y s)"
  by simp

section \<open>The contract of an event machine\<close>

text \<open>
  \<open>step s e\<close> is the state after the machine has handled event \<open>e\<close>; \<open>inv\<close> holds after
  the constructor and is kept by every event.
\<close>

locale event_machine =
  fixes step :: "'s \<Rightarrow> 'e \<Rightarrow> 's"
    and inv :: "'s \<Rightarrow> bool"
  assumes step_inv: "inv s \<Longrightarrow> inv (step s e)"
begin

lemma run_inv: "inv s \<Longrightarrow> inv (foldl step s es)"
  by (induction es arbitrary: s) (auto intro: step_inv)

end

section \<open>The contract of a work queue\<close>

text \<open>
  \<open>drain deq n q\<close> takes \<open>n\<close> elements out of a queue, fewer if it runs empty.
\<close>

primrec drain :: "('q \<Rightarrow> ('a \<times> 'q) option) \<Rightarrow> nat \<Rightarrow> 'q \<Rightarrow> 'a list \<times> 'q" where
  "drain deq 0 q = ([], q)"
| "drain deq (Suc n) q =
    (case deq q of
       None \<Rightarrow> ([], q)
     | Some (x, q) \<Rightarrow> case drain deq n q of (xs, q) \<Rightarrow> (x # xs, q))"

text \<open>
  \<open>rep q xs\<close>: the queue \<open>q\<close> holds \<open>xs\<close>, first to last. An element is enqueued as what
  the provider needs for it (a node and its data, say), and dequeued as its value.
\<close>

locale work_queue =
  fixes rep :: "'q \<Rightarrow> 'a list \<Rightarrow> bool"
    and enq :: "'x \<Rightarrow> 'q \<Rightarrow> 'q"
    and deq :: "'q \<Rightarrow> ('a \<times> 'q) option"
    and val :: "'x \<Rightarrow> 'a"
    and ok :: "'x \<Rightarrow> 'q \<Rightarrow> bool"
  assumes rep_enq: "rep q xs \<Longrightarrow> ok x q \<Longrightarrow> rep (enq x q) (xs @ [val x])"
    and rep_deq: "rep q (y # ys) \<Longrightarrow> \<exists>q'. deq q = Some (y, q') \<and> rep q' ys"
    and rep_deq_empty: "rep q [] \<Longrightarrow> deq q = None"
begin

lemma drain_prefix:
  "rep q (xs @ ys) \<Longrightarrow> \<exists>q'. drain deq (length xs) q = (xs, q') \<and> rep q' ys"
proof (induction xs arbitrary: q)
  case (Cons x xs)
  then obtain q' where "deq q = Some (x, q')" "rep q' (xs @ ys)"
    using rep_deq by fastforce
  then show ?case using Cons.IH [of q'] by auto
qed auto

lemma drain_all: "rep q xs \<Longrightarrow> \<exists>q'. drain deq (length xs) q = (xs, q') \<and> rep q' []"
  using drain_prefix [of q xs "[]"] by simp

end

section \<open>Lists\<close>

lemma filter_remove1_other [simp]:
  "\<not> P x \<Longrightarrow> filter P (remove1 x xs) = filter P xs"
  by (induction xs) auto

lemma length_filter_remove1:
  "x \<in> set xs \<Longrightarrow> P x \<Longrightarrow> Suc (length (filter P (remove1 x xs))) = length (filter P xs)"
  by (induction xs) auto

end
