(* ===== verification/SmTypes.thy ===== *)
theory SmTypes
  imports Prelude
begin

text \<open>
  The data of the camera state machine (\<open>QCameraStateMachine.h\<close>): its events, states,
  API results and payloads, the machine's own fields, and its interface to
  \<open>QCamera2HardwareInterface\<close> (\<open>m_parent\<close>).

  The parent is a parameter of the model: \<open>hw E\<close> answers a call with its return value
  and its out-parameter and moves the parent to its next state, which is of an arbitrary
  type \<open>'h\<close>. A reply may depend on the machine's state, because the parent reads it back
  through \<open>isPreviewRunning\<close> and its kin. Every theorem therefore holds for every way
  the parent, the camera daemon and the hardware behind it may answer. What the machine
  asks of the parent, and the results it signals, are recorded in order in \<open>trace\<close>.
\<close>

datatype qcamera_sm_evt =
    QCAMERA_SM_EVT_SET_PREVIEW_WINDOW
  | QCAMERA_SM_EVT_SET_CALLBACKS
  | QCAMERA_SM_EVT_ENABLE_MSG_TYPE
  | QCAMERA_SM_EVT_DISABLE_MSG_TYPE
  | QCAMERA_SM_EVT_MSG_TYPE_ENABLED
  | QCAMERA_SM_EVT_SET_PARAMS
  | QCAMERA_SM_EVT_GET_PARAMS
  | QCAMERA_SM_EVT_PUT_PARAMS
  | QCAMERA_SM_EVT_START_PREVIEW
  | QCAMERA_SM_EVT_START_NODISPLAY_PREVIEW
  | QCAMERA_SM_EVT_STOP_PREVIEW
  | QCAMERA_SM_EVT_PREVIEW_ENABLED
  | QCAMERA_SM_EVT_STORE_METADATA_IN_BUFS
  | QCAMERA_SM_EVT_START_RECORDING
  | QCAMERA_SM_EVT_STOP_RECORDING
  | QCAMERA_SM_EVT_RECORDING_ENABLED
  | QCAMERA_SM_EVT_RELEASE_RECORIDNG_FRAME
  | QCAMERA_SM_EVT_PREPARE_SNAPSHOT
  | QCAMERA_SM_EVT_TAKE_PICTURE
  | QCAMERA_SM_EVT_CANCEL_PICTURE
  | QCAMERA_SM_EVT_START_AUTO_FOCUS
  | QCAMERA_SM_EVT_STOP_AUTO_FOCUS
  | QCAMERA_SM_EVT_SEND_COMMAND
  | QCAMERA_SM_EVT_RELEASE
  | QCAMERA_SM_EVT_DUMP
  | QCAMERA_SM_EVT_REG_FACE_IMAGE
  | QCAMERA_SM_EVT_EVT_INTERNAL
  | QCAMERA_SM_EVT_EVT_NOTIFY
  | QCAMERA_SM_EVT_JPEG_EVT_NOTIFY
  | QCAMERA_SM_EVT_SNAPSHOT_DONE
  | QCAMERA_SM_EVT_THERMAL_NOTIFY
  | QCAMERA_SM_EVT_STOP_CAPTURE_CHANNEL
  | QCAMERA_SM_EVT_RESTART_PERVIEW
  | QCAMERA_SM_EVT_MAX

text \<open>
  The enumerator's number (the first is 1): \<open>procEvtPreviewingState\<close> compares the
  number of \<open>QCAMERA_SM_EVT_RESTART_PERVIEW\<close> with a command argument.
\<close>

fun evt_code :: "qcamera_sm_evt \<Rightarrow> int32" where
  "evt_code QCAMERA_SM_EVT_SET_PREVIEW_WINDOW = 1"
| "evt_code QCAMERA_SM_EVT_SET_CALLBACKS = 2"
| "evt_code QCAMERA_SM_EVT_ENABLE_MSG_TYPE = 3"
| "evt_code QCAMERA_SM_EVT_DISABLE_MSG_TYPE = 4"
| "evt_code QCAMERA_SM_EVT_MSG_TYPE_ENABLED = 5"
| "evt_code QCAMERA_SM_EVT_SET_PARAMS = 6"
| "evt_code QCAMERA_SM_EVT_GET_PARAMS = 7"
| "evt_code QCAMERA_SM_EVT_PUT_PARAMS = 8"
| "evt_code QCAMERA_SM_EVT_START_PREVIEW = 9"
| "evt_code QCAMERA_SM_EVT_START_NODISPLAY_PREVIEW = 10"
| "evt_code QCAMERA_SM_EVT_STOP_PREVIEW = 11"
| "evt_code QCAMERA_SM_EVT_PREVIEW_ENABLED = 12"
| "evt_code QCAMERA_SM_EVT_STORE_METADATA_IN_BUFS = 13"
| "evt_code QCAMERA_SM_EVT_START_RECORDING = 14"
| "evt_code QCAMERA_SM_EVT_STOP_RECORDING = 15"
| "evt_code QCAMERA_SM_EVT_RECORDING_ENABLED = 16"
| "evt_code QCAMERA_SM_EVT_RELEASE_RECORIDNG_FRAME = 17"
| "evt_code QCAMERA_SM_EVT_PREPARE_SNAPSHOT = 18"
| "evt_code QCAMERA_SM_EVT_TAKE_PICTURE = 19"
| "evt_code QCAMERA_SM_EVT_CANCEL_PICTURE = 20"
| "evt_code QCAMERA_SM_EVT_START_AUTO_FOCUS = 21"
| "evt_code QCAMERA_SM_EVT_STOP_AUTO_FOCUS = 22"
| "evt_code QCAMERA_SM_EVT_SEND_COMMAND = 23"
| "evt_code QCAMERA_SM_EVT_RELEASE = 24"
| "evt_code QCAMERA_SM_EVT_DUMP = 25"
| "evt_code QCAMERA_SM_EVT_REG_FACE_IMAGE = 26"
| "evt_code QCAMERA_SM_EVT_EVT_INTERNAL = 27"
| "evt_code QCAMERA_SM_EVT_EVT_NOTIFY = 28"
| "evt_code QCAMERA_SM_EVT_JPEG_EVT_NOTIFY = 29"
| "evt_code QCAMERA_SM_EVT_SNAPSHOT_DONE = 30"
| "evt_code QCAMERA_SM_EVT_THERMAL_NOTIFY = 31"
| "evt_code QCAMERA_SM_EVT_STOP_CAPTURE_CHANNEL = 32"
| "evt_code QCAMERA_SM_EVT_RESTART_PERVIEW = 33"
| "evt_code QCAMERA_SM_EVT_MAX = 34"

text \<open>The events the header lists between \<open>BEGIN OF: API EVT\<close> and \<open>END OF: API EVT\<close>.\<close>

definition is_api_evt :: "qcamera_sm_evt \<Rightarrow> bool" where
  "is_api_evt evt \<longleftrightarrow> evt_code evt \<le> 26"

datatype qcamera_state =
    QCAMERA_SM_STATE_PREVIEW_STOPPED
  | QCAMERA_SM_STATE_PREVIEW_READY
  | QCAMERA_SM_STATE_PREVIEWING
  | QCAMERA_SM_STATE_PREPARE_SNAPSHOT
  | QCAMERA_SM_STATE_PIC_TAKING
  | QCAMERA_SM_STATE_RECORDING
  | QCAMERA_SM_STATE_VIDEO_PIC_TAKING
  | QCAMERA_SM_STATE_PREVIEW_PIC_TAKING

datatype qcamera_internal_evt_type =
    QCAMERA_INTERNAL_EVT_FOCUS_UPDATE
  | QCAMERA_INTERNAL_EVT_PREP_SNAPSHOT_DONE
  | QCAMERA_INTERNAL_EVT_FACE_DETECT_RESULT
  | QCAMERA_INTERNAL_EVT_HISTOGRAM_STATS
  | QCAMERA_INTERNAL_EVT_CROP_INFO
  | QCAMERA_INTERNAL_EVT_ASD_UPDATE
  | QCAMERA_INTERNAL_EVT_READY_FOR_SNAPSHOT
  | QCAMERA_INTERNAL_EVT_LED_MODE_OVERRIDE
  | QCAMERA_INTERNAL_EVT_AWB_UPDATE
  | QCAMERA_INTERNAL_EVT_AE_UPDATE
  | QCAMERA_INTERNAL_EVT_FOCUS_POS_UPDATE
  | QCAMERA_INTERNAL_EVT_HDR_UPDATE
  | QCAMERA_INTERNAL_EVT_RETRO_AEC_UNLOCK
  | QCAMERA_INTERNAL_EVT_ZSL_CAPTURE_DONE
  | QCAMERA_INTERNAL_EVT_MAX

text \<open>
  \<open>qcamera_api_result_t\<close>: the type tag and the union member it selects are one value.
\<close>

datatype api_result_value =
    RESULT_TYPE_DEF
  | RESULT_TYPE_ENABLE_FLAG int32
  | RESULT_TYPE_PARAMS ptr
  | RESULT_TYPE_HANDLE int32

record qcamera_api_result =
  status :: int32
  request_api :: qcamera_sm_evt
  result_value :: api_result_value

text \<open>
  A payload is a \<open>void*\<close> that each event's code reads as its own type. The record holds
  the pointer and what it reads as under each cast of the machine.
\<close>

record setcb_payload =
  notify_cb :: ptr
  data_cb :: ptr
  data_cb_timestamp :: ptr
  get_memory :: ptr
  user :: ptr

record payload =
  pl_ptr :: ptr
  pl_int32 :: int32
  pl_setcbs :: setcb_payload
  pl_cmd :: int32
  pl_arg1 :: int32
  pl_arg2 :: int32
  pl_img_ptr :: ptr
  pl_config :: ptr
  pl_server_event_type :: int32
  pl_evt_type :: qcamera_internal_evt_type
  pl_evt_data :: ptr

text \<open>\<open>CAM_EVENT_TYPE_DAEMON_DIED = (1<<3)\<close> of \<open>cam_event_type_t\<close> in \<open>cam_types.h\<close>.\<close>

definition CAM_EVENT_TYPE_DAEMON_DIED :: int32 where
  "CAM_EVENT_TYPE_DAEMON_DIED = push_bit 3 1"

datatype qcamera_ch_type =
    QCAMERA_CH_TYPE_ZSL
  | QCAMERA_CH_TYPE_CAPTURE
  | QCAMERA_CH_TYPE_PREVIEW
  | QCAMERA_CH_TYPE_VIDEO
  | QCAMERA_CH_TYPE_SNAPSHOT
  | QCAMERA_CH_TYPE_RAW
  | QCAMERA_CH_TYPE_METADATA
  | QCAMERA_CH_TYPE_ANALYSIS
  | QCAMERA_CH_TYPE_MAX

text \<open>
  What the machine asks of \<open>m_parent\<close>: its methods, the fields it reads or writes
  (\<open>get_\<close> and \<open>set_\<close>), and what it reaches through it (\<open>m_memoryPool\<close>,
  \<open>mParameters\<close>, the operation table of \<open>mCameraHandle\<close>, the static
  \<open>QCameraVideoMemory::closeNativeHandle\<close>).
\<close>

datatype (plugins only: size) hwi_call =
    HWI_setPreviewWindow ptr
  | HWI_setCallBacks setcb_payload
  | HWI_enableMsgType int32
  | HWI_disableMsgType int32
  | HWI_msgTypeEnabled int32
  | HWI_updateParameters ptr
  | HWI_memoryPool_clear
  | HWI_commitParameterChanges
  | HWI_getParameters
  | HWI_putParameters ptr
  | HWI_get_mPreviewWindow
  | HWI_preparePreview
  | HWI_startPreview
  | HWI_stopPreview
  | HWI_unpreparePreview
  | HWI_release
  | HWI_storeMetaDataInBuffers int32
  | HWI_dump int32
  | HWI_sendCommand int32 int32 int32
  | HWI_closeNativeHandle ptr
  | HWI_autoFocus
  | HWI_cancelAutoFocus
  | HWI_registerFaceImage ptr ptr
  | HWI_updateThermalLevel ptr
  | HWI_get_mCameraHandle_ops
  | HWI_error_close_camera
  | HWI_sendEvtNotify int32 int32 int32
  | HWI_updateFlashMode ptr
  | HWI_startRecording
  | HWI_stopRecording
  | HWI_releaseRecordingFrame ptr
  | HWI_prepareHardwareForSnapshot bool
  | HWI_getRecordingHintValue
  | HWI_isZSLMode
  | HWI_isLongshotEnabled
  | HWI_isRetroPicture
  | HWI_isPreviewRestartEnabled
  | HWI_takePicture
  | HWI_takeLiveSnapshot
  | HWI_longShot
  | HWI_cancelPicture
  | HWI_cancelLiveSnapshot
  | HWI_stopChannel qcamera_ch_type
  | HWI_stopCaptureChannel bool
  | HWI_set_m_bPreviewStarted bool
  | HWI_processAutoFocusEvent ptr
  | HWI_processPrepSnapshotDoneEvent ptr
  | HWI_processFaceDetectionResult ptr
  | HWI_processHistogramStats ptr
  | HWI_processZoomEvent ptr
  | HWI_processASDUpdate ptr
  | HWI_transAwbMetaToParams ptr
  | HWI_processAEInfo ptr
  | HWI_processFocusPositionInfo ptr
  | HWI_processHDRData ptr
  | HWI_processRetroAECUnlock
  | HWI_processZSLCaptureDone
  | HWI_processJpegNotify ptr

text \<open>One entry of the trace: a call with its return value, or a signalled result.\<close>

datatype action =
    Call hwi_call int32
  | SigAPI qcamera_api_result
  | SigEvt qcamera_api_result

text \<open>
  The environment the machine is built in: the parent, the build flag \<open>VANILLA_HAL\<close>
  (set by \<open>Android.mk\<close> from \<open>TARGET_USES_AOSP\<close>) and the constants of the platform's
  headers (\<open>utils/Errors.h\<close>, \<open>system/camera.h\<close>), which are not part of this
  repository. \<open>NO_ERROR\<close> is zero: the code writes \<open>rc = 0\<close> for it.
\<close>

record 'h env =
  hw :: "qcamera_state \<Rightarrow> hwi_call \<Rightarrow> 'h \<Rightarrow> (int32 \<times> int32) \<times> 'h"
  VANILLA_HAL :: bool
  INVALID_OPERATION :: int32
  BAD_VALUE :: int32
  CAMERA_MSG_PREVIEW_FRAME :: int32
  CAMERA_MSG_ERROR :: int32
  CAMERA_ERROR_SERVER_DIED :: int32
  CAMERA_CMD_LONGSHOT_ON :: int32
  CAMERA_CMD_LONGSHOT_OFF :: int32

definition NO_ERROR :: int32 where
  "NO_ERROR = 0"

text \<open>The machine: its three state fields, the parent's state, and the trace.\<close>

record 'h sm =
  m_state :: qcamera_state
  m_bDelayPreviewMsgs :: bool
  m_DelayedMsgs :: int32
  parent :: 'h
  trace :: "action list"

type_synonym 'h handler = "('h sm, int32) state"

text \<open>The constructor: preview stopped, nothing delayed.\<close>

definition init_sm :: "'h \<Rightarrow> 'h sm" where
  "init_sm h =
    \<lparr>m_state = QCAMERA_SM_STATE_PREVIEW_STOPPED,
     m_bDelayPreviewMsgs = False, m_DelayedMsgs = 0,
     parent = h, trace = []\<rparr>"

section \<open>Primitive operations\<close>

definition call2 :: "'h env \<Rightarrow> hwi_call \<Rightarrow> ('h sm, int32 \<times> int32) state" where
  "call2 E c = State (\<lambda>s.
     let r = hw E (m_state s) c (parent s)
     in (fst r, s\<lparr>parent := snd r, trace := trace s @ [Call c (fst (fst r))]\<rparr>))"

definition call :: "'h env \<Rightarrow> hwi_call \<Rightarrow> ('h sm, int32) state" where
  "call E c = do { r \<leftarrow> call2 E c; ret (fst r) }"

text \<open>A call whose result is discarded, and one whose result is a \<open>bool\<close> or a pointer test.\<close>

definition exec :: "'h env \<Rightarrow> hwi_call \<Rightarrow> ('h sm, unit) state" where
  "exec E c = do { _ \<leftarrow> call2 E c; skip }"

definition ask :: "'h env \<Rightarrow> hwi_call \<Rightarrow> ('h sm, bool) state" where
  "ask E c = do { r \<leftarrow> call2 E c; ret (fst r \<noteq> 0) }"

definition goto_state :: "qcamera_state \<Rightarrow> ('h sm, unit) state" where
  "goto_state st = modify (\<lambda>s. s\<lparr>m_state := st\<rparr>)"

definition signalAPIResult :: "qcamera_api_result \<Rightarrow> ('h sm, unit) state" where
  "signalAPIResult r = modify (\<lambda>s. s\<lparr>trace := trace s @ [SigAPI r]\<rparr>)"

definition signalEvtResult :: "qcamera_api_result \<Rightarrow> ('h sm, unit) state" where
  "signalEvtResult r = modify (\<lambda>s. s\<lparr>trace := trace s @ [SigEvt r]\<rparr>)"

lemmas prim_defs = call_def exec_def ask_def goto_state_def
  signalAPIResult_def signalEvtResult_def

lemma run_state_call2 [run_simps, simp]:
  "run_state (call2 E c) s =
    (fst (hw E (m_state s) c (parent s)),
     s\<lparr>parent := snd (hw E (m_state s) c (parent s)),
       trace := trace s @ [Call c (fst (fst (hw E (m_state s) c (parent s))))]\<rparr>)"
  by (simp add: call2_def Let_def)

lemma run_state_call [run_simps, simp]:
  "run_state (call E c) s =
    (fst (fst (hw E (m_state s) c (parent s))),
     s\<lparr>parent := snd (hw E (m_state s) c (parent s)),
       trace := trace s @ [Call c (fst (fst (hw E (m_state s) c (parent s))))]\<rparr>)"
  by (simp add: call_def)

lemma run_state_exec [run_simps, simp]:
  "run_state (exec E c) s =
    ((), s\<lparr>parent := snd (hw E (m_state s) c (parent s)),
       trace := trace s @ [Call c (fst (fst (hw E (m_state s) c (parent s))))]\<rparr>)"
  by (simp add: exec_def)

lemma run_state_ask [run_simps, simp]:
  "run_state (ask E c) s =
    (fst (fst (hw E (m_state s) c (parent s))) \<noteq> 0,
     s\<lparr>parent := snd (hw E (m_state s) c (parent s)),
       trace := trace s @ [Call c (fst (fst (hw E (m_state s) c (parent s))))]\<rparr>)"
  by (simp add: ask_def)

lemma run_state_goto [run_simps, simp]:
  "run_state (goto_state st) s = ((), s\<lparr>m_state := st\<rparr>)"
  by (simp add: goto_state_def)

lemma run_state_signalAPI [run_simps, simp]:
  "run_state (signalAPIResult r) s = ((), s\<lparr>trace := trace s @ [SigAPI r]\<rparr>)"
  by (simp add: signalAPIResult_def)

lemma run_state_signalEvt [run_simps, simp]:
  "run_state (signalEvtResult r) s = ((), s\<lparr>trace := trace s @ [SigEvt r]\<rparr>)"
  by (simp add: signalEvtResult_def)

section \<open>Reading the trace\<close>

fun api_signals :: "action list \<Rightarrow> qcamera_api_result list" where
  "api_signals [] = []"
| "api_signals (SigAPI r # as) = r # api_signals as"
| "api_signals (_ # as) = api_signals as"

fun hwi_calls :: "action list \<Rightarrow> hwi_call list" where
  "hwi_calls [] = []"
| "hwi_calls (Call c r # as) = c # hwi_calls as"
| "hwi_calls (_ # as) = hwi_calls as"

lemma api_signals_append [trace_simps, simp]:
  "api_signals (xs @ ys) = api_signals xs @ api_signals ys"
  by (induction xs rule: api_signals.induct) auto

lemma hwi_calls_append [trace_simps, simp]:
  "hwi_calls (xs @ ys) = hwi_calls xs @ hwi_calls ys"
  by (induction xs rule: hwi_calls.induct) auto

end
