(* ===== verification/SmCommon.thy ===== *)
theory SmCommon
  imports SmTypes
begin

text \<open>
  The case bodies that the eight \<open>procEvt...State\<close> functions of
  \<open>QCameraStateMachine.cpp\<close> share word for word, each defined once under the name of the
  parent's method it forwards to, and \<open>applyDelayedMsgs\<close>. A body of the form ``fill in
  \<open>result\<close>, call \<open>signalAPIResult\<close>, break'' is \<open>reply_api\<close>.
\<close>

definition reply_api :: "qcamera_sm_evt \<Rightarrow> int32 \<Rightarrow> api_result_value \<Rightarrow> 'h handler" where
  "reply_api evt rc v = do {
     signalAPIResult \<lparr>status = rc, request_api = evt, result_value = v\<rparr>;
     ret rc
   }"

definition reply_evt :: "qcamera_sm_evt \<Rightarrow> int32 \<Rightarrow> 'h handler" where
  "reply_evt evt rc = do {
     signalEvtResult \<lparr>status = rc, request_api = evt, result_value = RESULT_TYPE_DEF\<rparr>;
     ret rc
   }"

text \<open>``cannot handle evt in state''.\<close>

definition ev_reject :: "'h env \<Rightarrow> qcamera_sm_evt \<Rightarrow> 'h handler" where
  "ev_reject E evt = reply_api evt (INVALID_OPERATION E) RESULT_TYPE_DEF"

definition ev_noop :: "qcamera_sm_evt \<Rightarrow> 'h handler" where
  "ev_noop evt = reply_api evt NO_ERROR RESULT_TYPE_DEF"

definition ev_flag :: "qcamera_sm_evt \<Rightarrow> int32 \<Rightarrow> 'h handler" where
  "ev_flag evt enabled = reply_api evt NO_ERROR (RESULT_TYPE_ENABLE_FLAG enabled)"

definition ev_forward :: "'h env \<Rightarrow> qcamera_sm_evt \<Rightarrow> hwi_call \<Rightarrow> 'h handler" where
  "ev_forward E evt c = do {
     rc \<leftarrow> call E c;
     reply_api evt rc RESULT_TYPE_DEF
   }"

definition ev_set_callbacks :: "'h env \<Rightarrow> payload \<Rightarrow> 'h handler" where
  "ev_set_callbacks E p =
     ev_forward E QCAMERA_SM_EVT_SET_CALLBACKS (HWI_setCallBacks (pl_setcbs p))"

definition ev_enable_msg_type :: "'h env \<Rightarrow> payload \<Rightarrow> 'h handler" where
  "ev_enable_msg_type E p =
     ev_forward E QCAMERA_SM_EVT_ENABLE_MSG_TYPE (HWI_enableMsgType (pl_int32 p))"

definition ev_disable_msg_type :: "'h env \<Rightarrow> payload \<Rightarrow> 'h handler" where
  "ev_disable_msg_type E p =
     ev_forward E QCAMERA_SM_EVT_DISABLE_MSG_TYPE (HWI_disableMsgType (pl_int32 p))"

definition ev_msg_type_enabled :: "'h env \<Rightarrow> payload \<Rightarrow> 'h handler" where
  "ev_msg_type_enabled E p = do {
     enabled \<leftarrow> call E (HWI_msgTypeEnabled (pl_int32 p));
     ev_flag QCAMERA_SM_EVT_MSG_TYPE_ENABLED enabled
   }"

definition ev_get_params :: "'h env \<Rightarrow> 'h handler" where
  "ev_get_params E = do {
     params \<leftarrow> call E HWI_getParameters;
     reply_api QCAMERA_SM_EVT_GET_PARAMS NO_ERROR (RESULT_TYPE_PARAMS params)
   }"

definition ev_put_params :: "'h env \<Rightarrow> payload \<Rightarrow> 'h handler" where
  "ev_put_params E p =
     ev_forward E QCAMERA_SM_EVT_PUT_PARAMS (HWI_putParameters (pl_ptr p))"

definition ev_store_metadata :: "'h env \<Rightarrow> payload \<Rightarrow> 'h handler" where
  "ev_store_metadata E p =
     ev_forward E QCAMERA_SM_EVT_STORE_METADATA_IN_BUFS
       (HWI_storeMetaDataInBuffers (pl_int32 p))"

definition ev_dump :: "'h env \<Rightarrow> payload \<Rightarrow> 'h handler" where
  "ev_dump E p = ev_forward E QCAMERA_SM_EVT_DUMP (HWI_dump (pl_int32 p))"

definition ev_send_command :: "'h env \<Rightarrow> payload \<Rightarrow> 'h handler" where
  "ev_send_command E p =
     ev_forward E QCAMERA_SM_EVT_SEND_COMMAND
       (HWI_sendCommand (pl_cmd p) (pl_arg1 p) (pl_arg2 p))"

definition ev_start_auto_focus :: "'h env \<Rightarrow> 'h handler" where
  "ev_start_auto_focus E = ev_forward E QCAMERA_SM_EVT_START_AUTO_FOCUS HWI_autoFocus"

definition ev_stop_auto_focus :: "'h env \<Rightarrow> 'h handler" where
  "ev_stop_auto_focus E = ev_forward E QCAMERA_SM_EVT_STOP_AUTO_FOCUS HWI_cancelAutoFocus"

definition ev_reg_face_image :: "'h env \<Rightarrow> payload \<Rightarrow> 'h handler" where
  "ev_reg_face_image E p = do {
     (rc, faceID) \<leftarrow> call2 E (HWI_registerFaceImage (pl_img_ptr p) (pl_config p));
     reply_api QCAMERA_SM_EVT_REG_FACE_IMAGE rc (RESULT_TYPE_HANDLE faceID)
   }"

text \<open>
  \<open>RELEASE_RECORIDNG_FRAME\<close> outside a recording closes the native handle and then falls
  through to the rejecting case.
\<close>

definition ev_close_handle_reject :: "'h env \<Rightarrow> payload \<Rightarrow> 'h handler" where
  "ev_close_handle_reject E p = do {
     exec E (HWI_closeNativeHandle (pl_ptr p));
     ev_reject E QCAMERA_SM_EVT_RELEASE_RECORIDNG_FRAME
   }"

definition ev_release_recording_frame :: "'h env \<Rightarrow> payload \<Rightarrow> 'h handler" where
  "ev_release_recording_frame E p =
     ev_forward E QCAMERA_SM_EVT_RELEASE_RECORIDNG_FRAME
       (HWI_releaseRecordingFrame (pl_ptr p))"

definition ev_thermal_notify :: "'h env \<Rightarrow> payload \<Rightarrow> 'h handler" where
  "ev_thermal_notify E p = call E (HWI_updateThermalLevel (pl_ptr p))"

definition ev_jpeg_notify :: "'h env \<Rightarrow> payload \<Rightarrow> 'h handler" where
  "ev_jpeg_notify E p = call E (HWI_processJpegNotify (pl_ptr p))"

text \<open>The camera daemon died: close the backend if there is one, tell the application.\<close>

definition daemon_died :: "'h env \<Rightarrow> ('h sm, unit) state" where
  "daemon_died E = do {
     valid \<leftarrow> ask E HWI_get_mCameraHandle_ops;
     whenM valid (exec E HWI_error_close_camera);
     exec E (HWI_sendEvtNotify (CAMERA_MSG_ERROR E) (CAMERA_ERROR_SERVER_DIED E) 0)
   }"

definition ev_notify :: "'h env \<Rightarrow> payload \<Rightarrow> 'h handler" where
  "ev_notify E p =
     (if pl_server_event_type p = CAM_EVENT_TYPE_DAEMON_DIED
      then do { daemon_died E; ret NO_ERROR }
      else ret NO_ERROR)"

text \<open>An event the state does not know: logged, nothing else.\<close>

definition ev_ignore :: "'h handler" where
  "ev_ignore = ret NO_ERROR"

text \<open>\<open>applyDelayedMsgs\<close>; the machine discards its status everywhere.\<close>

definition applyDelayedMsgs :: "'h env \<Rightarrow> 'h handler" where
  "applyDelayedMsgs E = do {
     b \<leftarrow> gets m_bDelayPreviewMsgs;
     d \<leftarrow> gets m_DelayedMsgs;
     if b \<and> d \<noteq> 0 then do {
       rc \<leftarrow> call E (HWI_enableMsgType d);
       modify (\<lambda>s. s\<lparr>m_bDelayPreviewMsgs := False, m_DelayedMsgs := 0\<rparr>);
       ret rc
     } else if b then do {
       modify (\<lambda>s. s\<lparr>m_bDelayPreviewMsgs := False\<rparr>);
       ret NO_ERROR
     } else ret NO_ERROR
   }"

definition apply_delayed :: "'h env \<Rightarrow> ('h sm, unit) state" where
  "apply_delayed E = do { _ \<leftarrow> applyDelayedMsgs E; skip }"

text \<open>
  ``start preview'': apply the delayed messages and start; a prepared preview that cannot
  be started is unprepared. Used wherever the code writes these five lines.
\<close>

definition start_prepared_preview :: "'h env \<Rightarrow> 'h handler" where
  "start_prepared_preview E = do {
     apply_delayed E;
     rc \<leftarrow> call E HWI_startPreview;
     whenM (rc \<noteq> NO_ERROR) (exec E HWI_unpreparePreview);
     ret rc
   }"

definition prepare_and_start_preview :: "'h env \<Rightarrow> 'h handler" where
  "prepare_and_start_preview E = do {
     rc \<leftarrow> call E HWI_preparePreview;
     if rc = NO_ERROR then start_prepared_preview E else ret rc
   }"

text \<open>
  \<open>SET_PARAMS\<close> while the preview runs: a change that needs a restart stops the preview,
  clears the memory pool, commits, and prepares and starts it again; if that fails the
  machine goes to \<open>fallback\<close> (\<open>PREVIEW_STOPPED\<close>, or \<open>PIC_TAKING\<close> during a picture).
\<close>

definition set_params_restart :: "'h env \<Rightarrow> qcamera_state \<Rightarrow> payload \<Rightarrow> 'h handler" where
  "set_params_restart E fallback p = do {
     (rc, needRestart) \<leftarrow> call2 E (HWI_updateParameters (pl_ptr p));
     rc \<leftarrow>
       (if rc = NO_ERROR then
          if needRestart \<noteq> 0 then do {
            exec E HWI_stopPreview;
            exec E HWI_memoryPool_clear;
            exec E HWI_commitParameterChanges;
            rc \<leftarrow> prepare_and_start_preview E;
            whenM (rc \<noteq> NO_ERROR) (goto_state fallback);
            ret rc
          } else call E HWI_commitParameterChanges
        else ret rc);
     reply_api QCAMERA_SM_EVT_SET_PARAMS rc RESULT_TYPE_DEF
   }"

text \<open>\<open>SET_PARAMS\<close> during a recording: a change that needs a restart is refused.\<close>

definition set_params_recording :: "'h env \<Rightarrow> payload \<Rightarrow> 'h handler" where
  "set_params_recording E p = do {
     (rc, needRestart) \<leftarrow> call2 E (HWI_updateParameters (pl_ptr p));
     rc \<leftarrow>
       (if rc = NO_ERROR then
          if needRestart \<noteq> 0 then ret (BAD_VALUE E)
          else call E HWI_commitParameterChanges
        else ret rc);
     reply_api QCAMERA_SM_EVT_SET_PARAMS rc RESULT_TYPE_DEF
   }"

text \<open>
  \<open>sm_defs\<close>: the case bodies, for proofs that evaluate a handler to its calls and
  signals.
\<close>

lemmas ev_defs =
  reply_api_def reply_evt_def ev_reject_def ev_noop_def ev_flag_def ev_forward_def
  ev_set_callbacks_def ev_enable_msg_type_def ev_disable_msg_type_def
  ev_msg_type_enabled_def ev_get_params_def ev_put_params_def ev_store_metadata_def
  ev_dump_def ev_send_command_def ev_start_auto_focus_def ev_stop_auto_focus_def
  ev_reg_face_image_def ev_close_handle_reject_def ev_release_recording_frame_def
  ev_thermal_notify_def ev_jpeg_notify_def ev_notify_def ev_ignore_def

lemmas preview_defs =
  prepare_and_start_preview_def start_prepared_preview_def
  set_params_restart_def set_params_recording_def

end
