(* ===== verification/SmSpec.thy ===== *)
theory SmSpec
  imports SmCommon
begin

text \<open>
  What the camera state machine promises, stated without its code: the automaton of its
  state changes, the API events whose answer it postpones, and the invariant of the
  delayed preview messages. The theories of the eight states prove their handler against
  these; \<open>CamStateMachine\<close> puts the handlers together.
\<close>

section \<open>The automaton\<close>

text \<open>The states an event may lead to, other than the state it finds.\<close>

fun sm_edges :: "qcamera_state \<Rightarrow> qcamera_sm_evt \<Rightarrow> qcamera_state list" where
  "sm_edges QCAMERA_SM_STATE_PREVIEW_STOPPED evt =
    (case evt of
       QCAMERA_SM_EVT_START_PREVIEW \<Rightarrow>
         [QCAMERA_SM_STATE_PREVIEW_READY, QCAMERA_SM_STATE_PREVIEWING]
     | QCAMERA_SM_EVT_START_NODISPLAY_PREVIEW \<Rightarrow> [QCAMERA_SM_STATE_PREVIEWING]
     | _ \<Rightarrow> [])"
| "sm_edges QCAMERA_SM_STATE_PREVIEW_READY evt =
    (case evt of
       QCAMERA_SM_EVT_SET_PREVIEW_WINDOW \<Rightarrow>
         [QCAMERA_SM_STATE_PREVIEW_STOPPED, QCAMERA_SM_STATE_PREVIEWING]
     | QCAMERA_SM_EVT_SET_PARAMS \<Rightarrow> [QCAMERA_SM_STATE_PREVIEW_STOPPED]
     | QCAMERA_SM_EVT_STOP_PREVIEW \<Rightarrow> [QCAMERA_SM_STATE_PREVIEW_STOPPED]
     | _ \<Rightarrow> [])"
| "sm_edges QCAMERA_SM_STATE_PREVIEWING evt =
    (case evt of
       QCAMERA_SM_EVT_SET_PARAMS \<Rightarrow> [QCAMERA_SM_STATE_PREVIEW_STOPPED]
     | QCAMERA_SM_EVT_STOP_PREVIEW \<Rightarrow> [QCAMERA_SM_STATE_PREVIEW_STOPPED]
     | QCAMERA_SM_EVT_START_RECORDING \<Rightarrow> [QCAMERA_SM_STATE_RECORDING]
     | QCAMERA_SM_EVT_PREPARE_SNAPSHOT \<Rightarrow> [QCAMERA_SM_STATE_PREPARE_SNAPSHOT]
     | QCAMERA_SM_EVT_TAKE_PICTURE \<Rightarrow>
         [QCAMERA_SM_STATE_PREVIEW_PIC_TAKING, QCAMERA_SM_STATE_PIC_TAKING,
          QCAMERA_SM_STATE_PREVIEW_STOPPED]
     | _ \<Rightarrow> [])"
| "sm_edges QCAMERA_SM_STATE_PREPARE_SNAPSHOT evt =
    (case evt of
       QCAMERA_SM_EVT_EVT_INTERNAL \<Rightarrow> [QCAMERA_SM_STATE_PREVIEWING]
     | _ \<Rightarrow> [])"
| "sm_edges QCAMERA_SM_STATE_PIC_TAKING evt =
    (case evt of
       QCAMERA_SM_EVT_STOP_PREVIEW \<Rightarrow> [QCAMERA_SM_STATE_PREVIEW_STOPPED]
     | QCAMERA_SM_EVT_SEND_COMMAND \<Rightarrow> [QCAMERA_SM_STATE_PREVIEWING]
     | QCAMERA_SM_EVT_CANCEL_PICTURE \<Rightarrow> [QCAMERA_SM_STATE_PREVIEW_STOPPED]
     | QCAMERA_SM_EVT_SNAPSHOT_DONE \<Rightarrow>
         [QCAMERA_SM_STATE_PREVIEWING, QCAMERA_SM_STATE_PREVIEW_STOPPED]
     | _ \<Rightarrow> [])"
| "sm_edges QCAMERA_SM_STATE_RECORDING evt =
    (case evt of
       QCAMERA_SM_EVT_TAKE_PICTURE \<Rightarrow> [QCAMERA_SM_STATE_VIDEO_PIC_TAKING]
     | QCAMERA_SM_EVT_STOP_RECORDING \<Rightarrow> [QCAMERA_SM_STATE_PREVIEWING]
     | QCAMERA_SM_EVT_STOP_PREVIEW \<Rightarrow> [QCAMERA_SM_STATE_PREVIEW_STOPPED]
     | _ \<Rightarrow> [])"
| "sm_edges QCAMERA_SM_STATE_VIDEO_PIC_TAKING evt =
    (case evt of
       QCAMERA_SM_EVT_STOP_RECORDING \<Rightarrow> [QCAMERA_SM_STATE_PREVIEWING]
     | QCAMERA_SM_EVT_CANCEL_PICTURE \<Rightarrow> [QCAMERA_SM_STATE_RECORDING]
     | QCAMERA_SM_EVT_STOP_PREVIEW \<Rightarrow> [QCAMERA_SM_STATE_PREVIEW_STOPPED]
     | QCAMERA_SM_EVT_SNAPSHOT_DONE \<Rightarrow> [QCAMERA_SM_STATE_RECORDING]
     | _ \<Rightarrow> [])"
| "sm_edges QCAMERA_SM_STATE_PREVIEW_PIC_TAKING evt =
    (case evt of
       QCAMERA_SM_EVT_SET_PARAMS \<Rightarrow> [QCAMERA_SM_STATE_PIC_TAKING]
     | QCAMERA_SM_EVT_SEND_COMMAND \<Rightarrow> [QCAMERA_SM_STATE_PREVIEWING]
     | QCAMERA_SM_EVT_CANCEL_PICTURE \<Rightarrow> [QCAMERA_SM_STATE_PREVIEWING]
     | QCAMERA_SM_EVT_STOP_PREVIEW \<Rightarrow> [QCAMERA_SM_STATE_PREVIEW_STOPPED]
     | QCAMERA_SM_EVT_START_RECORDING \<Rightarrow> [QCAMERA_SM_STATE_VIDEO_PIC_TAKING]
     | QCAMERA_SM_EVT_SNAPSHOT_DONE \<Rightarrow> [QCAMERA_SM_STATE_PREVIEWING]
     | _ \<Rightarrow> [])"

section \<open>Answers\<close>

text \<open>
  The API events that may be left without an answer, and in which state: a snapshot being
  prepared or a retro-active picture being taken is answered by a later event; a face
  image registered while a snapshot is prepared is never answered.
\<close>

definition postponed :: "qcamera_state \<Rightarrow> qcamera_sm_evt \<Rightarrow> bool" where
  "postponed st evt \<longleftrightarrow>
     (st = QCAMERA_SM_STATE_PREVIEWING \<and> evt = QCAMERA_SM_EVT_PREPARE_SNAPSHOT) \<or>
     (st = QCAMERA_SM_STATE_PREVIEWING \<and> evt = QCAMERA_SM_EVT_TAKE_PICTURE) \<or>
     (st = QCAMERA_SM_STATE_PREVIEW_PIC_TAKING \<and> evt = QCAMERA_SM_EVT_PREPARE_SNAPSHOT) \<or>
     (st = QCAMERA_SM_STATE_PREPARE_SNAPSHOT \<and> evt = QCAMERA_SM_EVT_REG_FACE_IMAGE)"

text \<open>
  \<open>answers s evt rc s'\<close>: from \<open>s\<close> to \<open>s'\<close> one API result was signalled, for \<open>evt\<close> and with
  the status \<open>rc\<close> the handler returned.
\<close>

definition answers :: "'h sm \<Rightarrow> qcamera_sm_evt \<Rightarrow> int32 \<Rightarrow> 'h sm \<Rightarrow> bool" where
  "answers s evt rc s' \<longleftrightarrow>
     (\<exists>v. api_signals (trace s') =
        api_signals (trace s) @ [\<lparr>status = rc, request_api = evt, result_value = v\<rparr>])"

definition silent :: "'h sm \<Rightarrow> 'h sm \<Rightarrow> bool" where
  "silent s s' \<longleftrightarrow> api_signals (trace s') = api_signals (trace s)"

section \<open>The delayed preview messages\<close>

text \<open>
  Only the preview-frame message is ever delayed, and only while the machine delays
  preview messages.
\<close>

definition delay_inv :: "'h env \<Rightarrow> 'h sm \<Rightarrow> bool" where
  "delay_inv E s \<longleftrightarrow>
     (m_DelayedMsgs s = 0 \<or> m_bDelayPreviewMsgs s) \<and>
     and (m_DelayedMsgs s) (not (CAMERA_MSG_PREVIEW_FRAME E)) = 0"

section \<open>Recording and picture calls\<close>

text \<open>The states in which a recording runs (\<open>QCameraStateMachine::isRecording\<close>).\<close>

definition recording_state :: "qcamera_state \<Rightarrow> bool" where
  "recording_state st \<longleftrightarrow>
     st = QCAMERA_SM_STATE_RECORDING \<or> st = QCAMERA_SM_STATE_VIDEO_PIC_TAKING"

text \<open>
  Recordings started with success minus recordings stopped, over a trace.
\<close>

fun rec_delta :: "action \<Rightarrow> int" where
  "rec_delta (Call c rc) =
     (if c = HWI_startRecording \<and> rc = NO_ERROR then 1
      else if c = HWI_stopRecording then -1 else 0)"
| "rec_delta _ = 0"

definition rec_balance :: "action list \<Rightarrow> int" where
  "rec_balance as = sum_list (map rec_delta as)"

lemma rec_balance_simps [simp]:
  "rec_balance [] = 0"
  "rec_balance (a # as) = rec_delta a + rec_balance as"
  "rec_balance (as @ bs) = rec_balance as + rec_balance bs"
  by (simp_all add: rec_balance_def)

text \<open>
  The calls that start or stop a recording or a picture, or release the camera, and the
  states and events in which each may be made.
\<close>

definition is_critical :: "hwi_call \<Rightarrow> bool" where
  "is_critical c \<longleftrightarrow>
     c = HWI_release \<or> c = HWI_startRecording \<or> c = HWI_stopRecording \<or>
     c = HWI_takePicture \<or> c = HWI_takeLiveSnapshot \<or> c = HWI_longShot \<or>
     c = HWI_cancelPicture \<or> c = HWI_cancelLiveSnapshot \<or> c = HWI_stopPreview"

definition may_call :: "qcamera_state \<Rightarrow> qcamera_sm_evt \<Rightarrow> hwi_call \<Rightarrow> bool" where
  "may_call st evt c \<longleftrightarrow>
     (c = HWI_release \<longrightarrow>
        st = QCAMERA_SM_STATE_PREVIEW_STOPPED \<and> evt = QCAMERA_SM_EVT_RELEASE) \<and>
     (c = HWI_startRecording \<longrightarrow>
        (st = QCAMERA_SM_STATE_PREVIEWING \<or> st = QCAMERA_SM_STATE_PREVIEW_PIC_TAKING) \<and>
        evt = QCAMERA_SM_EVT_START_RECORDING) \<and>
     (c = HWI_stopRecording \<longrightarrow>
        recording_state st \<and>
        (evt = QCAMERA_SM_EVT_STOP_RECORDING \<or> evt = QCAMERA_SM_EVT_STOP_PREVIEW)) \<and>
     (c = HWI_takePicture \<longrightarrow>
        st = QCAMERA_SM_STATE_PREVIEWING \<and> evt = QCAMERA_SM_EVT_TAKE_PICTURE) \<and>
     (c = HWI_takeLiveSnapshot \<longrightarrow>
        (st = QCAMERA_SM_STATE_PREVIEWING \<or> st = QCAMERA_SM_STATE_RECORDING) \<and>
        evt = QCAMERA_SM_EVT_TAKE_PICTURE) \<and>
     (c = HWI_longShot \<longrightarrow>
        (st = QCAMERA_SM_STATE_PIC_TAKING \<or> st = QCAMERA_SM_STATE_PREVIEW_PIC_TAKING) \<and>
        evt = QCAMERA_SM_EVT_TAKE_PICTURE) \<and>
     (c = HWI_cancelPicture \<longrightarrow>
        st = QCAMERA_SM_STATE_PIC_TAKING \<or> st = QCAMERA_SM_STATE_PREVIEW_PIC_TAKING) \<and>
     (c = HWI_cancelLiveSnapshot \<longrightarrow>
        st = QCAMERA_SM_STATE_VIDEO_PIC_TAKING \<or> st = QCAMERA_SM_STATE_PREVIEW_PIC_TAKING) \<and>
     (c = HWI_stopPreview \<longrightarrow>
        st = QCAMERA_SM_STATE_PREVIEWING \<or> st = QCAMERA_SM_STATE_PREVIEW_PIC_TAKING \<or>
        recording_state st)"

definition crit_calls :: "action list \<Rightarrow> hwi_call list" where
  "crit_calls as = filter is_critical (hwi_calls as)"

lemma crit_calls_simps [simp]:
  "crit_calls [] = []"
  "crit_calls (Call c r # as) = (if is_critical c then c # crit_calls as else crit_calls as)"
  "crit_calls (SigAPI res # as) = crit_calls as"
  "crit_calls (SigEvt res # as) = crit_calls as"
  "crit_calls (as @ bs) = crit_calls as @ crit_calls bs"
  by (simp_all add: crit_calls_def)

text \<open>\<open>guarded st evt s s'\<close>: the critical calls made between \<open>s\<close> and \<open>s'\<close> are allowed.\<close>

definition guarded ::
  "qcamera_state \<Rightarrow> qcamera_sm_evt \<Rightarrow> 'h sm \<Rightarrow> 'h sm \<Rightarrow> bool" where
  "guarded st evt s s' \<longleftrightarrow>
     (\<exists>cs. crit_calls (trace s') = crit_calls (trace s) @ cs \<and> list_all (may_call st evt) cs)"

lemmas spec_defs = answers_def silent_def postponed_def

lemma delay_inv_cong [simp]:
  "delay_inv E (s\<lparr>m_state := st\<rparr>) = delay_inv E s"
  "delay_inv E (s\<lparr>parent := h\<rparr>) = delay_inv E s"
  "delay_inv E (s\<lparr>trace := t\<rparr>) = delay_inv E s"
  by (simp_all add: delay_inv_def)

lemma delay_inv_start_delaying [simp]:
  "delay_inv E s \<Longrightarrow> delay_inv E (s\<lparr>m_bDelayPreviewMsgs := True\<rparr>)"
  by (simp add: delay_inv_def)

lemma delay_inv_delay_frame [simp]:
  "m_bDelayPreviewMsgs s \<Longrightarrow> delay_inv E (s\<lparr>m_DelayedMsgs := CAMERA_MSG_PREVIEW_FRAME E\<rparr>)"
  by (simp add: delay_inv_def)

lemma delay_inv_drop [simp]:
  "delay_inv E s \<Longrightarrow>
   delay_inv E (s\<lparr>m_DelayedMsgs := and (m_DelayedMsgs s) (not msgs)\<rparr>)"
  "and (m_DelayedMsgs s) (not msgs) = 0 \<Longrightarrow>
   delay_inv E (s\<lparr>m_bDelayPreviewMsgs := b, m_DelayedMsgs := 0\<rparr>)"
  by (auto simp: delay_inv_def and.assoc and.commute and.left_commute)

lemma delay_inv_none [simp]:
  "m_DelayedMsgs s = 0 \<Longrightarrow> delay_inv E (s\<lparr>m_bDelayPreviewMsgs := b\<rparr>)"
  "delay_inv E (s\<lparr>m_bDelayPreviewMsgs := b, m_DelayedMsgs := 0\<rparr>)"
  by (simp_all add: delay_inv_def)

text \<open>
  Applying the delayed messages and starting a preview: neither moves the machine to
  another state or signals a result, and both keep the invariant.
\<close>

lemma apply_delayed_frame [simp]:
  "m_state (snd (run_state (apply_delayed E) s)) = m_state s"
  "crit_calls (trace (snd (run_state (apply_delayed E) s))) = crit_calls (trace s)"
  "rec_balance (trace (snd (run_state (apply_delayed E) s))) = rec_balance (trace s)"
  "api_signals (trace (snd (run_state (apply_delayed E) s))) = api_signals (trace s)"
  "delay_inv E s \<Longrightarrow> delay_inv E (snd (run_state (apply_delayed E) s))"
  by (simp_all add: apply_delayed_def applyDelayedMsgs_def is_critical_def)

lemma start_prepared_preview_frame [simp]:
  "m_state (snd (run_state (start_prepared_preview E) s)) = m_state s"
  "crit_calls (trace (snd (run_state (start_prepared_preview E) s))) = crit_calls (trace s)"
  "rec_balance (trace (snd (run_state (start_prepared_preview E) s))) = rec_balance (trace s)"
  "api_signals (trace (snd (run_state (start_prepared_preview E) s))) =
     api_signals (trace s)"
  "delay_inv E s \<Longrightarrow> delay_inv E (snd (run_state (start_prepared_preview E) s))"
  by (simp_all add: start_prepared_preview_def split_beta is_critical_def)

lemma prepare_and_start_preview_frame [simp]:
  "m_state (snd (run_state (prepare_and_start_preview E) s)) = m_state s"
  "crit_calls (trace (snd (run_state (prepare_and_start_preview E) s))) = crit_calls (trace s)"
  "rec_balance (trace (snd (run_state (prepare_and_start_preview E) s))) = rec_balance (trace s)"
  "api_signals (trace (snd (run_state (prepare_and_start_preview E) s))) =
     api_signals (trace s)"
  "delay_inv E s \<Longrightarrow> delay_inv E (snd (run_state (prepare_and_start_preview E) s))"
  by (simp_all add: prepare_and_start_preview_def is_critical_def)

lemma daemon_died_frame [simp]:
  "m_state (snd (run_state (daemon_died E) s)) = m_state s"
  "crit_calls (trace (snd (run_state (daemon_died E) s))) = crit_calls (trace s)"
  "rec_balance (trace (snd (run_state (daemon_died E) s))) = rec_balance (trace s)"
  "api_signals (trace (snd (run_state (daemon_died E) s))) = api_signals (trace s)"
  "delay_inv E s \<Longrightarrow> delay_inv E (snd (run_state (daemon_died E) s))"
  by (simp_all add: daemon_died_def is_critical_def)

text \<open>
  A handler that goes from \<open>s\<close> (in state \<open>st\<close>) to \<open>s'\<close> with status \<open>rc\<close> satisfies the
  specification: it follows the automaton, answers an API event or postpones it without
  an error, keeps the invariant, makes its critical calls only where they are allowed, and
  starts and stops recordings as its state says.
\<close>

definition handler_ok ::
  "'h env \<Rightarrow> qcamera_state \<Rightarrow> qcamera_sm_evt \<Rightarrow> 'h sm \<Rightarrow> int32 \<times> 'h sm \<Rightarrow> bool" where
  "handler_ok E st evt s r \<longleftrightarrow>
     m_state (snd r) \<in> set (st # sm_edges st evt) \<and>
     (is_api_evt evt \<longrightarrow>
        answers s evt (fst r) (snd r) \<or>
        silent s (snd r) \<and> postponed st evt \<and> fst r = NO_ERROR) \<and>
     (delay_inv E s \<longrightarrow> delay_inv E (snd r)) \<and>
     guarded st evt s (snd r) \<and>
     rec_balance (trace (snd r)) + of_bool (recording_state st) =
       rec_balance (trace s) + of_bool (recording_state (m_state (snd r)))"

text \<open>Questions to the parent before a handler starts do not matter.\<close>

lemma handler_ok_after:
  assumes "handler_ok E st evt s' r"
    and "api_signals (trace s') = api_signals (trace s)"
    and "delay_inv E s' = delay_inv E s"
    and "crit_calls (trace s') = crit_calls (trace s)"
    and "rec_balance (trace s') = rec_balance (trace s)"
  shows "handler_ok E st evt s r"
  using assms by (simp add: handler_ok_def spec_defs guarded_def)

text \<open>A handler is evaluated with the first collection, then judged with the second.\<close>

lemmas handler_simps = ev_defs set_params_restart_def set_params_recording_def split_beta

lemmas handler_ok_simps = handler_ok_def spec_defs is_api_evt_def guarded_def
  is_critical_def may_call_def recording_state_def

end
