(* ===== verification/SmStopped.thy ===== *)
theory SmStopped
  imports SmSpec
begin

text \<open>
  \<open>procEvtPreviewStoppedState\<close>: the preview is stopped. The switch is split in three in
  the order of its cases; each part hands the events it does not list to the next.
\<close>

fun stopped_internal ::
  "'h env \<Rightarrow> qcamera_internal_evt_type \<Rightarrow> ptr \<Rightarrow> 'h handler" where
  "stopped_internal E QCAMERA_INTERNAL_EVT_LED_MODE_OVERRIDE d = call E (HWI_updateFlashMode d)"
| "stopped_internal E evt d = ev_ignore"

fun procEvtPreviewStoppedState_c ::
  "'h env \<Rightarrow> qcamera_sm_evt \<Rightarrow> payload \<Rightarrow> 'h handler" where
  "procEvtPreviewStoppedState_c E QCAMERA_SM_EVT_THERMAL_NOTIFY p = ev_thermal_notify E p"
| "procEvtPreviewStoppedState_c E QCAMERA_SM_EVT_EVT_NOTIFY p = ev_notify E p"
| "procEvtPreviewStoppedState_c E QCAMERA_SM_EVT_SNAPSHOT_DONE p =
     reply_evt QCAMERA_SM_EVT_SNAPSHOT_DONE NO_ERROR"
| "procEvtPreviewStoppedState_c E QCAMERA_SM_EVT_EVT_INTERNAL p =
     stopped_internal E (pl_evt_type p) (pl_evt_data p)"
| "procEvtPreviewStoppedState_c E evt p = ev_ignore"

fun procEvtPreviewStoppedState_b ::
  "'h env \<Rightarrow> qcamera_sm_evt \<Rightarrow> payload \<Rightarrow> 'h handler" where
  "procEvtPreviewStoppedState_b E QCAMERA_SM_EVT_PREVIEW_ENABLED p =
     ev_flag QCAMERA_SM_EVT_PREVIEW_ENABLED 0"
| "procEvtPreviewStoppedState_b E QCAMERA_SM_EVT_RECORDING_ENABLED p =
     ev_flag QCAMERA_SM_EVT_RECORDING_ENABLED 0"
| "procEvtPreviewStoppedState_b E QCAMERA_SM_EVT_RELEASE p =
     ev_forward E QCAMERA_SM_EVT_RELEASE HWI_release"
| "procEvtPreviewStoppedState_b E QCAMERA_SM_EVT_STORE_METADATA_IN_BUFS p =
     ev_store_metadata E p"
| "procEvtPreviewStoppedState_b E QCAMERA_SM_EVT_DUMP p = ev_dump E p"
| "procEvtPreviewStoppedState_b E QCAMERA_SM_EVT_SEND_COMMAND p = ev_send_command E p"
| "procEvtPreviewStoppedState_b E QCAMERA_SM_EVT_RELEASE_RECORIDNG_FRAME p =
     ev_close_handle_reject E p"
| "procEvtPreviewStoppedState_b E QCAMERA_SM_EVT_START_RECORDING p =
     ev_reject E QCAMERA_SM_EVT_START_RECORDING"
| "procEvtPreviewStoppedState_b E QCAMERA_SM_EVT_STOP_RECORDING p =
     ev_reject E QCAMERA_SM_EVT_STOP_RECORDING"
| "procEvtPreviewStoppedState_b E QCAMERA_SM_EVT_PREPARE_SNAPSHOT p =
     ev_reject E QCAMERA_SM_EVT_PREPARE_SNAPSHOT"
| "procEvtPreviewStoppedState_b E QCAMERA_SM_EVT_TAKE_PICTURE p =
     ev_reject E QCAMERA_SM_EVT_TAKE_PICTURE"
| "procEvtPreviewStoppedState_b E QCAMERA_SM_EVT_START_AUTO_FOCUS p =
     ev_noop QCAMERA_SM_EVT_START_AUTO_FOCUS"
| "procEvtPreviewStoppedState_b E QCAMERA_SM_EVT_CANCEL_PICTURE p =
     ev_noop QCAMERA_SM_EVT_CANCEL_PICTURE"
| "procEvtPreviewStoppedState_b E QCAMERA_SM_EVT_STOP_AUTO_FOCUS p = ev_stop_auto_focus E"
| "procEvtPreviewStoppedState_b E QCAMERA_SM_EVT_REG_FACE_IMAGE p = ev_reg_face_image E p"
| "procEvtPreviewStoppedState_b E evt p = procEvtPreviewStoppedState_c E evt p"

fun procEvtPreviewStoppedState ::
  "'h env \<Rightarrow> qcamera_sm_evt \<Rightarrow> payload \<Rightarrow> 'h handler" where
  "procEvtPreviewStoppedState E QCAMERA_SM_EVT_SET_PREVIEW_WINDOW p =
     ev_forward E QCAMERA_SM_EVT_SET_PREVIEW_WINDOW (HWI_setPreviewWindow (pl_ptr p))"
| "procEvtPreviewStoppedState E QCAMERA_SM_EVT_SET_CALLBACKS p = ev_set_callbacks E p"
| "procEvtPreviewStoppedState E QCAMERA_SM_EVT_ENABLE_MSG_TYPE p = ev_enable_msg_type E p"
| "procEvtPreviewStoppedState E QCAMERA_SM_EVT_DISABLE_MSG_TYPE p = ev_disable_msg_type E p"
| "procEvtPreviewStoppedState E QCAMERA_SM_EVT_MSG_TYPE_ENABLED p = ev_msg_type_enabled E p"
| "procEvtPreviewStoppedState E QCAMERA_SM_EVT_SET_PARAMS p = do {
     (rc, needRestart) \<leftarrow> call2 E (HWI_updateParameters (pl_ptr p));
     whenM (needRestart \<noteq> 0) (exec E HWI_memoryPool_clear);
     rc \<leftarrow> (if rc = NO_ERROR then call E HWI_commitParameterChanges else ret rc);
     reply_api QCAMERA_SM_EVT_SET_PARAMS rc RESULT_TYPE_DEF
   }"
| "procEvtPreviewStoppedState E QCAMERA_SM_EVT_GET_PARAMS p = ev_get_params E"
| "procEvtPreviewStoppedState E QCAMERA_SM_EVT_PUT_PARAMS p = ev_put_params E p"
| "procEvtPreviewStoppedState E QCAMERA_SM_EVT_START_PREVIEW p = do {
     window \<leftarrow> ask E HWI_get_mPreviewWindow;
     rc \<leftarrow>
       (if \<not> window then do {
          rc \<leftarrow> call E HWI_preparePreview;
          whenM (rc = NO_ERROR) (goto_state QCAMERA_SM_STATE_PREVIEW_READY);
          ret rc
        } else do {
          rc \<leftarrow> prepare_and_start_preview E;
          whenM (rc = NO_ERROR) (goto_state QCAMERA_SM_STATE_PREVIEWING);
          ret rc
        });
     reply_api QCAMERA_SM_EVT_START_PREVIEW rc RESULT_TYPE_DEF
   }"
| "procEvtPreviewStoppedState E QCAMERA_SM_EVT_START_NODISPLAY_PREVIEW p = do {
     rc \<leftarrow> prepare_and_start_preview E;
     whenM (rc = NO_ERROR) (goto_state QCAMERA_SM_STATE_PREVIEWING);
     reply_api QCAMERA_SM_EVT_START_NODISPLAY_PREVIEW rc RESULT_TYPE_DEF
   }"
| "procEvtPreviewStoppedState E QCAMERA_SM_EVT_STOP_PREVIEW p =
     ev_noop QCAMERA_SM_EVT_STOP_PREVIEW"
| "procEvtPreviewStoppedState E evt p = procEvtPreviewStoppedState_b E evt p"

lemma stopped_internal_ok:
  assumes "m_state s = QCAMERA_SM_STATE_PREVIEW_STOPPED"
  shows "handler_ok E QCAMERA_SM_STATE_PREVIEW_STOPPED QCAMERA_SM_EVT_EVT_INTERNAL s
    (run_state (stopped_internal E i d) s)"
  using assms
  by (cases i) (simp_all add: handler_simps, simp_all add: handler_ok_simps)

lemma stopped_handler_ok:
  assumes "m_state s = QCAMERA_SM_STATE_PREVIEW_STOPPED"
  shows "handler_ok E QCAMERA_SM_STATE_PREVIEW_STOPPED evt s
    (run_state (procEvtPreviewStoppedState E evt p) s)"
proof (cases evt)
  case QCAMERA_SM_EVT_EVT_INTERNAL
  then show ?thesis using stopped_internal_ok [OF assms] by simp
qed (use assms in \<open>simp_all add: handler_simps\<close>,
  simp_all add: handler_ok_simps)

end
