(* ===== verification/SmReady.thy ===== *)
theory SmReady
  imports SmSpec
begin

text \<open>
  \<open>procEvtPreviewReadyState\<close>: the preview is prepared and waits for its window. The
  switch is split in three in the order of its cases.
\<close>

fun ready_internal ::
  "'h env \<Rightarrow> qcamera_internal_evt_type \<Rightarrow> ptr \<Rightarrow> 'h handler" where
  "ready_internal E QCAMERA_INTERNAL_EVT_LED_MODE_OVERRIDE d = call E (HWI_updateFlashMode d)"
| "ready_internal E evt d = ev_ignore"

fun procEvtPreviewReadyState_c ::
  "'h env \<Rightarrow> qcamera_sm_evt \<Rightarrow> payload \<Rightarrow> 'h handler" where
  "procEvtPreviewReadyState_c E QCAMERA_SM_EVT_EVT_NOTIFY p = ev_notify E p"
| "procEvtPreviewReadyState_c E QCAMERA_SM_EVT_SNAPSHOT_DONE p =
     reply_evt QCAMERA_SM_EVT_SNAPSHOT_DONE NO_ERROR"
| "procEvtPreviewReadyState_c E QCAMERA_SM_EVT_EVT_INTERNAL p =
     ready_internal E (pl_evt_type p) (pl_evt_data p)"
| "procEvtPreviewReadyState_c E evt p = ev_ignore"

fun procEvtPreviewReadyState_b ::
  "'h env \<Rightarrow> qcamera_sm_evt \<Rightarrow> payload \<Rightarrow> 'h handler" where
  "procEvtPreviewReadyState_b E QCAMERA_SM_EVT_RECORDING_ENABLED p =
     ev_flag QCAMERA_SM_EVT_RECORDING_ENABLED 0"
| "procEvtPreviewReadyState_b E QCAMERA_SM_EVT_STORE_METADATA_IN_BUFS p =
     ev_store_metadata E p"
| "procEvtPreviewReadyState_b E QCAMERA_SM_EVT_DUMP p = ev_dump E p"
| "procEvtPreviewReadyState_b E QCAMERA_SM_EVT_START_AUTO_FOCUS p = ev_start_auto_focus E"
| "procEvtPreviewReadyState_b E QCAMERA_SM_EVT_STOP_AUTO_FOCUS p = ev_stop_auto_focus E"
| "procEvtPreviewReadyState_b E QCAMERA_SM_EVT_SEND_COMMAND p = ev_send_command E p"
| "procEvtPreviewReadyState_b E QCAMERA_SM_EVT_REG_FACE_IMAGE p = ev_reg_face_image E p"
| "procEvtPreviewReadyState_b E QCAMERA_SM_EVT_RELEASE_RECORIDNG_FRAME p =
     ev_close_handle_reject E p"
| "procEvtPreviewReadyState_b E QCAMERA_SM_EVT_START_NODISPLAY_PREVIEW p =
     ev_reject E QCAMERA_SM_EVT_START_NODISPLAY_PREVIEW"
| "procEvtPreviewReadyState_b E QCAMERA_SM_EVT_START_RECORDING p =
     ev_reject E QCAMERA_SM_EVT_START_RECORDING"
| "procEvtPreviewReadyState_b E QCAMERA_SM_EVT_STOP_RECORDING p =
     ev_reject E QCAMERA_SM_EVT_STOP_RECORDING"
| "procEvtPreviewReadyState_b E QCAMERA_SM_EVT_PREPARE_SNAPSHOT p =
     ev_reject E QCAMERA_SM_EVT_PREPARE_SNAPSHOT"
| "procEvtPreviewReadyState_b E QCAMERA_SM_EVT_TAKE_PICTURE p =
     ev_reject E QCAMERA_SM_EVT_TAKE_PICTURE"
| "procEvtPreviewReadyState_b E QCAMERA_SM_EVT_CANCEL_PICTURE p =
     ev_reject E QCAMERA_SM_EVT_CANCEL_PICTURE"
| "procEvtPreviewReadyState_b E QCAMERA_SM_EVT_RELEASE p =
     ev_reject E QCAMERA_SM_EVT_RELEASE"
| "procEvtPreviewReadyState_b E evt p = procEvtPreviewReadyState_c E evt p"

fun procEvtPreviewReadyState ::
  "'h env \<Rightarrow> qcamera_sm_evt \<Rightarrow> payload \<Rightarrow> 'h handler" where
  "procEvtPreviewReadyState E QCAMERA_SM_EVT_SET_PREVIEW_WINDOW p = do {
     exec E (HWI_setPreviewWindow (pl_ptr p));
     window \<leftarrow> ask E HWI_get_mPreviewWindow;
     rc \<leftarrow>
       (if window then do {
          rc \<leftarrow> start_prepared_preview E;
          (if rc \<noteq> NO_ERROR then goto_state QCAMERA_SM_STATE_PREVIEW_STOPPED
           else goto_state QCAMERA_SM_STATE_PREVIEWING);
          ret rc
        } else ret NO_ERROR);
     reply_api QCAMERA_SM_EVT_SET_PREVIEW_WINDOW rc RESULT_TYPE_DEF
   }"
| "procEvtPreviewReadyState E QCAMERA_SM_EVT_SET_CALLBACKS p = ev_set_callbacks E p"
| "procEvtPreviewReadyState E QCAMERA_SM_EVT_ENABLE_MSG_TYPE p = ev_enable_msg_type E p"
| "procEvtPreviewReadyState E QCAMERA_SM_EVT_DISABLE_MSG_TYPE p = ev_disable_msg_type E p"
| "procEvtPreviewReadyState E QCAMERA_SM_EVT_MSG_TYPE_ENABLED p = ev_msg_type_enabled E p"
| "procEvtPreviewReadyState E QCAMERA_SM_EVT_SET_PARAMS p = do {
     (rc, needRestart) \<leftarrow> call2 E (HWI_updateParameters (pl_ptr p));
     rc \<leftarrow>
       (if rc = NO_ERROR then
          if needRestart \<noteq> 0 then do {
            exec E HWI_unpreparePreview;
            exec E HWI_memoryPool_clear;
            exec E HWI_commitParameterChanges;
            rc \<leftarrow> call E HWI_preparePreview;
            whenM (rc \<noteq> NO_ERROR) (goto_state QCAMERA_SM_STATE_PREVIEW_STOPPED);
            ret rc
          } else call E HWI_commitParameterChanges
        else ret rc);
     reply_api QCAMERA_SM_EVT_SET_PARAMS rc RESULT_TYPE_DEF
   }"
| "procEvtPreviewReadyState E QCAMERA_SM_EVT_GET_PARAMS p = ev_get_params E"
| "procEvtPreviewReadyState E QCAMERA_SM_EVT_PUT_PARAMS p = ev_put_params E p"
| "procEvtPreviewReadyState E QCAMERA_SM_EVT_START_PREVIEW p =
     ev_noop QCAMERA_SM_EVT_START_PREVIEW"
| "procEvtPreviewReadyState E QCAMERA_SM_EVT_STOP_PREVIEW p = do {
     exec E HWI_unpreparePreview;
     goto_state QCAMERA_SM_STATE_PREVIEW_STOPPED;
     ev_noop QCAMERA_SM_EVT_STOP_PREVIEW
   }"
| "procEvtPreviewReadyState E QCAMERA_SM_EVT_PREVIEW_ENABLED p =
     ev_flag QCAMERA_SM_EVT_PREVIEW_ENABLED 1"
| "procEvtPreviewReadyState E evt p = procEvtPreviewReadyState_b E evt p"

lemma ready_internal_ok:
  assumes "m_state s = QCAMERA_SM_STATE_PREVIEW_READY"
  shows "handler_ok E QCAMERA_SM_STATE_PREVIEW_READY QCAMERA_SM_EVT_EVT_INTERNAL s
    (run_state (ready_internal E i d) s)"
  using assms
  by (cases i) (simp_all add: handler_simps, simp_all add: handler_ok_simps)

lemma ready_handler_ok:
  assumes "m_state s = QCAMERA_SM_STATE_PREVIEW_READY"
  shows "handler_ok E QCAMERA_SM_STATE_PREVIEW_READY evt s
    (run_state (procEvtPreviewReadyState E evt p) s)"
proof (cases evt)
  case QCAMERA_SM_EVT_EVT_INTERNAL
  then show ?thesis using ready_internal_ok [OF assms] by simp
qed (use assms in \<open>simp_all add: handler_simps\<close>,
  simp_all add: handler_ok_simps)

end
