(* ===== verification/SmPreviewing.thy ===== *)
theory SmPreviewing
  imports SmSpec
begin

text \<open>
  \<open>procEvtPreviewingState\<close>: the preview runs. The switch is split in three in the order
  of its cases; the internal events and \<open>TAKE_PICTURE\<close> are functions of their own.
\<close>

text \<open>\<open>TAKE_PICTURE\<close>: a ZSL or longshot picture, a regular capture, or a live snapshot.\<close>

definition previewing_zsl_picture :: "'h env \<Rightarrow> 'h handler" where
  "previewing_zsl_picture E = do {
     goto_state QCAMERA_SM_STATE_PREVIEW_PIC_TAKING;
     modify (\<lambda>s. s\<lparr>m_bDelayPreviewMsgs := True\<rparr>);
     rc \<leftarrow> call E HWI_takePicture;
     whenM (rc \<noteq> NO_ERROR) (goto_state QCAMERA_SM_STATE_PREVIEWING);
     retro \<leftarrow> ask E HWI_isRetroPicture;
     if \<not> retro \<or> rc \<noteq> NO_ERROR
     then reply_api QCAMERA_SM_EVT_TAKE_PICTURE rc RESULT_TYPE_DEF
     else ret rc
   }"

definition previewing_capture :: "'h env \<Rightarrow> 'h handler" where
  "previewing_capture E = do {
     goto_state QCAMERA_SM_STATE_PIC_TAKING;
     rc \<leftarrow> call E HWI_takePicture;
     whenM (rc \<noteq> NO_ERROR) (goto_state QCAMERA_SM_STATE_PREVIEW_STOPPED);
     reply_api QCAMERA_SM_EVT_TAKE_PICTURE rc RESULT_TYPE_DEF
   }"

definition previewing_live_snapshot :: "'h env \<Rightarrow> 'h handler" where
  "previewing_live_snapshot E = do {
     goto_state QCAMERA_SM_STATE_PREVIEW_PIC_TAKING;
     rc \<leftarrow> call E HWI_takeLiveSnapshot;
     whenM (rc \<noteq> NO_ERROR) (goto_state QCAMERA_SM_STATE_PREVIEWING);
     reply_api QCAMERA_SM_EVT_TAKE_PICTURE rc RESULT_TYPE_DEF
   }"

definition previewing_take_picture :: "'h env \<Rightarrow> 'h handler" where
  "previewing_take_picture E = do {
     hint \<leftarrow> ask E HWI_getRecordingHintValue;
     if \<not> hint then do {
       zsl \<leftarrow> ask E HWI_isZSLMode;
       zsl_or_longshot \<leftarrow> (if zsl then ret True else ask E HWI_isLongshotEnabled);
       if zsl_or_longshot then previewing_zsl_picture E
       else previewing_capture E
     } else previewing_live_snapshot E
   }"

definition previewing_send_command :: "'h env \<Rightarrow> payload \<Rightarrow> 'h handler" where
  "previewing_send_command E p = do {
     rc \<leftarrow> call E (HWI_sendCommand (pl_cmd p) (pl_arg1 p) (pl_arg2 p));
     rc \<leftarrow>
       (if \<not> VANILLA_HAL E \<and> CAMERA_CMD_LONGSHOT_ON E = pl_cmd p \<and>
           evt_code QCAMERA_SM_EVT_RESTART_PERVIEW = pl_arg1 p
        then do {
          exec E HWI_stopPreview;
          exec E HWI_memoryPool_clear;
          prepare_and_start_preview E
        } else ret rc);
     reply_api QCAMERA_SM_EVT_SEND_COMMAND rc RESULT_TYPE_DEF
   }"

fun previewing_internal ::
  "'h env \<Rightarrow> qcamera_internal_evt_type \<Rightarrow> ptr \<Rightarrow> 'h handler" where
  "previewing_internal E QCAMERA_INTERNAL_EVT_FOCUS_UPDATE d =
     call E (HWI_processAutoFocusEvent d)"
| "previewing_internal E QCAMERA_INTERNAL_EVT_PREP_SNAPSHOT_DONE d = ev_ignore"
| "previewing_internal E QCAMERA_INTERNAL_EVT_FACE_DETECT_RESULT d =
     call E (HWI_processFaceDetectionResult d)"
| "previewing_internal E QCAMERA_INTERNAL_EVT_HISTOGRAM_STATS d =
     call E (HWI_processHistogramStats d)"
| "previewing_internal E QCAMERA_INTERNAL_EVT_CROP_INFO d = call E (HWI_processZoomEvent d)"
| "previewing_internal E QCAMERA_INTERNAL_EVT_ASD_UPDATE d =
     call E (HWI_processASDUpdate d)"
| "previewing_internal E QCAMERA_INTERNAL_EVT_LED_MODE_OVERRIDE d =
     call E (HWI_updateFlashMode d)"
| "previewing_internal E QCAMERA_INTERNAL_EVT_AWB_UPDATE d =
     call E (HWI_transAwbMetaToParams d)"
| "previewing_internal E QCAMERA_INTERNAL_EVT_AE_UPDATE d = call E (HWI_processAEInfo d)"
| "previewing_internal E QCAMERA_INTERNAL_EVT_FOCUS_POS_UPDATE d =
     call E (HWI_processFocusPositionInfo d)"
| "previewing_internal E QCAMERA_INTERNAL_EVT_HDR_UPDATE d = call E (HWI_processHDRData d)"
| "previewing_internal E QCAMERA_INTERNAL_EVT_RETRO_AEC_UNLOCK d =
     call E HWI_processRetroAECUnlock"
| "previewing_internal E QCAMERA_INTERNAL_EVT_ZSL_CAPTURE_DONE d =
     call E HWI_processZSLCaptureDone"
| "previewing_internal E evt d = ev_ignore"

fun procEvtPreviewingState_c ::
  "'h env \<Rightarrow> qcamera_sm_evt \<Rightarrow> payload \<Rightarrow> 'h handler" where
  "procEvtPreviewingState_c E QCAMERA_SM_EVT_SEND_COMMAND p = previewing_send_command E p"
| "procEvtPreviewingState_c E QCAMERA_SM_EVT_REG_FACE_IMAGE p = ev_reg_face_image E p"
| "procEvtPreviewingState_c E QCAMERA_SM_EVT_RELEASE_RECORIDNG_FRAME p =
     ev_close_handle_reject E p"
| "procEvtPreviewingState_c E QCAMERA_SM_EVT_CANCEL_PICTURE p =
     ev_reject E QCAMERA_SM_EVT_CANCEL_PICTURE"
| "procEvtPreviewingState_c E QCAMERA_SM_EVT_STOP_RECORDING p =
     ev_reject E QCAMERA_SM_EVT_STOP_RECORDING"
| "procEvtPreviewingState_c E QCAMERA_SM_EVT_RELEASE p = ev_reject E QCAMERA_SM_EVT_RELEASE"
| "procEvtPreviewingState_c E QCAMERA_SM_EVT_EVT_INTERNAL p =
     previewing_internal E (pl_evt_type p) (pl_evt_data p)"
| "procEvtPreviewingState_c E QCAMERA_SM_EVT_EVT_NOTIFY p = ev_notify E p"
| "procEvtPreviewingState_c E QCAMERA_SM_EVT_THERMAL_NOTIFY p = ev_thermal_notify E p"
| "procEvtPreviewingState_c E QCAMERA_SM_EVT_SNAPSHOT_DONE p =
     reply_evt QCAMERA_SM_EVT_SNAPSHOT_DONE NO_ERROR"
| "procEvtPreviewingState_c E evt p = ev_ignore"

fun procEvtPreviewingState_b ::
  "'h env \<Rightarrow> qcamera_sm_evt \<Rightarrow> payload \<Rightarrow> 'h handler" where
  "procEvtPreviewingState_b E QCAMERA_SM_EVT_PREVIEW_ENABLED p = do {
     apply_delayed E;
     ev_flag QCAMERA_SM_EVT_PREVIEW_ENABLED 1
   }"
| "procEvtPreviewingState_b E QCAMERA_SM_EVT_RECORDING_ENABLED p =
     ev_flag QCAMERA_SM_EVT_RECORDING_ENABLED 0"
| "procEvtPreviewingState_b E QCAMERA_SM_EVT_STORE_METADATA_IN_BUFS p =
     ev_store_metadata E p"
| "procEvtPreviewingState_b E QCAMERA_SM_EVT_DUMP p = ev_dump E p"
| "procEvtPreviewingState_b E QCAMERA_SM_EVT_START_AUTO_FOCUS p = ev_start_auto_focus E"
| "procEvtPreviewingState_b E QCAMERA_SM_EVT_STOP_AUTO_FOCUS p = ev_stop_auto_focus E"
| "procEvtPreviewingState_b E QCAMERA_SM_EVT_START_RECORDING p = do {
     rc \<leftarrow> call E HWI_startRecording;
     whenM (rc = NO_ERROR) (do {
       goto_state QCAMERA_SM_STATE_RECORDING;
       apply_delayed E
     });
     reply_api QCAMERA_SM_EVT_START_RECORDING rc RESULT_TYPE_DEF
   }"
| "procEvtPreviewingState_b E QCAMERA_SM_EVT_PREPARE_SNAPSHOT p = do {
     rc \<leftarrow> call E (HWI_prepareHardwareForSnapshot False);
     if rc = NO_ERROR then do {
       goto_state QCAMERA_SM_STATE_PREPARE_SNAPSHOT;
       apply_delayed E;
       ret rc
     } else reply_api QCAMERA_SM_EVT_PREPARE_SNAPSHOT rc RESULT_TYPE_DEF
   }"
| "procEvtPreviewingState_b E QCAMERA_SM_EVT_TAKE_PICTURE p = previewing_take_picture E"
| "procEvtPreviewingState_b E evt p = procEvtPreviewingState_c E evt p"

fun procEvtPreviewingState ::
  "'h env \<Rightarrow> qcamera_sm_evt \<Rightarrow> payload \<Rightarrow> 'h handler" where
  "procEvtPreviewingState E QCAMERA_SM_EVT_SET_PREVIEW_WINDOW p =
     ev_reject E QCAMERA_SM_EVT_SET_PREVIEW_WINDOW"
| "procEvtPreviewingState E QCAMERA_SM_EVT_SET_CALLBACKS p = ev_set_callbacks E p"
| "procEvtPreviewingState E QCAMERA_SM_EVT_ENABLE_MSG_TYPE p = do {
     delay \<leftarrow> gets m_bDelayPreviewMsgs;
     enable_msgs \<leftarrow>
       (if delay \<and> and (pl_int32 p) (CAMERA_MSG_PREVIEW_FRAME E) \<noteq> 0 then do {
          modify (\<lambda>s. s\<lparr>m_DelayedMsgs := CAMERA_MSG_PREVIEW_FRAME E\<rparr>);
          ret (and (pl_int32 p) (not (CAMERA_MSG_PREVIEW_FRAME E)))
        } else ret (pl_int32 p));
     ev_forward E QCAMERA_SM_EVT_ENABLE_MSG_TYPE (HWI_enableMsgType enable_msgs)
   }"
| "procEvtPreviewingState E QCAMERA_SM_EVT_DISABLE_MSG_TYPE p = do {
     delay \<leftarrow> gets m_bDelayPreviewMsgs;
     delayed \<leftarrow> gets m_DelayedMsgs;
     whenM (delay \<and> delayed \<noteq> 0) (do {
       modify (\<lambda>s. s\<lparr>m_DelayedMsgs := and (m_DelayedMsgs s) (not (pl_int32 p))\<rparr>);
       left \<leftarrow> gets m_DelayedMsgs;
       whenM (left = 0) (modify (\<lambda>s. s\<lparr>m_bDelayPreviewMsgs := False\<rparr>))
     });
     ev_forward E QCAMERA_SM_EVT_DISABLE_MSG_TYPE (HWI_disableMsgType (pl_int32 p))
   }"
| "procEvtPreviewingState E QCAMERA_SM_EVT_MSG_TYPE_ENABLED p = do {
     enabled \<leftarrow> call E (HWI_msgTypeEnabled (pl_int32 p));
     delay \<leftarrow> gets m_bDelayPreviewMsgs;
     delayed \<leftarrow> gets m_DelayedMsgs;
     ev_flag QCAMERA_SM_EVT_MSG_TYPE_ENABLED
       (if delay \<and> delayed \<noteq> 0 then or enabled (and (pl_int32 p) delayed) else enabled)
   }"
| "procEvtPreviewingState E QCAMERA_SM_EVT_SET_PARAMS p =
     set_params_restart E QCAMERA_SM_STATE_PREVIEW_STOPPED p"
| "procEvtPreviewingState E QCAMERA_SM_EVT_GET_PARAMS p = ev_get_params E"
| "procEvtPreviewingState E QCAMERA_SM_EVT_PUT_PARAMS p = ev_put_params E p"
| "procEvtPreviewingState E QCAMERA_SM_EVT_START_PREVIEW p = do {
     apply_delayed E;
     ev_noop QCAMERA_SM_EVT_START_PREVIEW
   }"
| "procEvtPreviewingState E QCAMERA_SM_EVT_START_NODISPLAY_PREVIEW p = do {
     apply_delayed E;
     ev_noop QCAMERA_SM_EVT_START_NODISPLAY_PREVIEW
   }"
| "procEvtPreviewingState E QCAMERA_SM_EVT_STOP_PREVIEW p = do {
     rc \<leftarrow> call E HWI_stopPreview;
     apply_delayed E;
     goto_state QCAMERA_SM_STATE_PREVIEW_STOPPED;
     reply_api QCAMERA_SM_EVT_STOP_PREVIEW rc RESULT_TYPE_DEF
   }"
| "procEvtPreviewingState E evt p = procEvtPreviewingState_b E evt p"

lemma previewing_internal_ok:
  assumes "m_state s = QCAMERA_SM_STATE_PREVIEWING"
  shows "handler_ok E QCAMERA_SM_STATE_PREVIEWING QCAMERA_SM_EVT_EVT_INTERNAL s
    (run_state (previewing_internal E i d) s)"
  using assms
  by (cases i) (simp_all add: handler_simps, simp_all add: handler_ok_simps)

lemma previewing_picture_ok:
  assumes "m_state s = QCAMERA_SM_STATE_PREVIEWING"
  shows
    "handler_ok E QCAMERA_SM_STATE_PREVIEWING QCAMERA_SM_EVT_TAKE_PICTURE s
      (run_state (previewing_zsl_picture E) s)"
    "handler_ok E QCAMERA_SM_STATE_PREVIEWING QCAMERA_SM_EVT_TAKE_PICTURE s
      (run_state (previewing_capture E) s)"
    "handler_ok E QCAMERA_SM_STATE_PREVIEWING QCAMERA_SM_EVT_TAKE_PICTURE s
      (run_state (previewing_live_snapshot E) s)"
  using assms
  by (simp_all add: previewing_zsl_picture_def previewing_capture_def
      previewing_live_snapshot_def handler_simps, simp_all add: handler_ok_simps)

lemma previewing_take_picture_ok:
  assumes "m_state s = QCAMERA_SM_STATE_PREVIEWING"
  shows "handler_ok E QCAMERA_SM_STATE_PREVIEWING QCAMERA_SM_EVT_TAKE_PICTURE s
    (run_state (previewing_take_picture E) s)"
  using assms
  by (simp add: previewing_take_picture_def)
    (auto intro!: handler_ok_after [OF previewing_picture_ok(1)]
      handler_ok_after [OF previewing_picture_ok(2)]
      handler_ok_after [OF previewing_picture_ok(3)] simp: is_critical_def)

lemma previewing_handler_ok:
  assumes "m_state s = QCAMERA_SM_STATE_PREVIEWING"
  shows "handler_ok E QCAMERA_SM_STATE_PREVIEWING evt s
    (run_state (procEvtPreviewingState E evt p) s)"
proof (cases evt)
  case QCAMERA_SM_EVT_EVT_INTERNAL
  then show ?thesis using previewing_internal_ok [OF assms] by simp
next
  case QCAMERA_SM_EVT_TAKE_PICTURE
  then show ?thesis using previewing_take_picture_ok [OF assms] by simp
qed (use assms in \<open>simp_all add: handler_simps previewing_send_command_def\<close>,
  simp_all add: handler_ok_simps)

end
