(* ===== verification/SmPrepare.thy ===== *)
theory SmPrepare
  imports SmSpec
begin

text \<open>
  \<open>procEvtPrepareSnapshotState\<close>: a snapshot is being prepared (the exposure estimation
  for the flash runs). The switch is split in two; the internal events are a function of
  their own.
\<close>

fun prepare_internal ::
  "'h env \<Rightarrow> qcamera_internal_evt_type \<Rightarrow> ptr \<Rightarrow> 'h handler" where
  "prepare_internal E QCAMERA_INTERNAL_EVT_FOCUS_UPDATE d =
     call E (HWI_processAutoFocusEvent d)"
| "prepare_internal E QCAMERA_INTERNAL_EVT_PREP_SNAPSHOT_DONE d = do {
     exec E (HWI_processPrepSnapshotDoneEvent d);
     goto_state QCAMERA_SM_STATE_PREVIEWING;
     ev_noop QCAMERA_SM_EVT_PREPARE_SNAPSHOT
   }"
| "prepare_internal E QCAMERA_INTERNAL_EVT_FACE_DETECT_RESULT d =
     call E (HWI_processFaceDetectionResult d)"
| "prepare_internal E QCAMERA_INTERNAL_EVT_HISTOGRAM_STATS d =
     call E (HWI_processHistogramStats d)"
| "prepare_internal E QCAMERA_INTERNAL_EVT_CROP_INFO d = call E (HWI_processZoomEvent d)"
| "prepare_internal E QCAMERA_INTERNAL_EVT_ASD_UPDATE d = call E (HWI_processASDUpdate d)"
| "prepare_internal E QCAMERA_INTERNAL_EVT_LED_MODE_OVERRIDE d = ev_ignore"
| "prepare_internal E QCAMERA_INTERNAL_EVT_AWB_UPDATE d =
     call E (HWI_transAwbMetaToParams d)"
| "prepare_internal E QCAMERA_INTERNAL_EVT_AE_UPDATE d = call E (HWI_processAEInfo d)"
| "prepare_internal E QCAMERA_INTERNAL_EVT_FOCUS_POS_UPDATE d =
     call E (HWI_processFocusPositionInfo d)"
| "prepare_internal E QCAMERA_INTERNAL_EVT_HDR_UPDATE d = call E (HWI_processHDRData d)"
| "prepare_internal E QCAMERA_INTERNAL_EVT_RETRO_AEC_UNLOCK d =
     call E HWI_processRetroAECUnlock"
| "prepare_internal E QCAMERA_INTERNAL_EVT_ZSL_CAPTURE_DONE d =
     call E HWI_processZSLCaptureDone"
| "prepare_internal E evt d = ev_ignore"

fun procEvtPrepareSnapshotState_b ::
  "'h env \<Rightarrow> qcamera_sm_evt \<Rightarrow> payload \<Rightarrow> 'h handler" where
  "procEvtPrepareSnapshotState_b E QCAMERA_SM_EVT_EVT_INTERNAL p =
     prepare_internal E (pl_evt_type p) (pl_evt_data p)"
| "procEvtPrepareSnapshotState_b E QCAMERA_SM_EVT_EVT_NOTIFY p = ev_notify E p"
| "procEvtPrepareSnapshotState_b E QCAMERA_SM_EVT_SNAPSHOT_DONE p =
     reply_evt QCAMERA_SM_EVT_SNAPSHOT_DONE NO_ERROR"
| "procEvtPrepareSnapshotState_b E QCAMERA_SM_EVT_THERMAL_NOTIFY p = ev_thermal_notify E p"
| "procEvtPrepareSnapshotState_b E evt p = ev_ignore"

fun procEvtPrepareSnapshotState ::
  "'h env \<Rightarrow> qcamera_sm_evt \<Rightarrow> payload \<Rightarrow> 'h handler" where
  "procEvtPrepareSnapshotState E QCAMERA_SM_EVT_SET_PREVIEW_WINDOW p =
     ev_reject E QCAMERA_SM_EVT_SET_PREVIEW_WINDOW"
| "procEvtPrepareSnapshotState E QCAMERA_SM_EVT_SET_CALLBACKS p =
     ev_reject E QCAMERA_SM_EVT_SET_CALLBACKS"
| "procEvtPrepareSnapshotState E QCAMERA_SM_EVT_ENABLE_MSG_TYPE p =
     ev_reject E QCAMERA_SM_EVT_ENABLE_MSG_TYPE"
| "procEvtPrepareSnapshotState E QCAMERA_SM_EVT_DISABLE_MSG_TYPE p =
     ev_reject E QCAMERA_SM_EVT_DISABLE_MSG_TYPE"
| "procEvtPrepareSnapshotState E QCAMERA_SM_EVT_MSG_TYPE_ENABLED p =
     ev_reject E QCAMERA_SM_EVT_MSG_TYPE_ENABLED"
| "procEvtPrepareSnapshotState E QCAMERA_SM_EVT_SET_PARAMS p =
     ev_reject E QCAMERA_SM_EVT_SET_PARAMS"
| "procEvtPrepareSnapshotState E QCAMERA_SM_EVT_GET_PARAMS p =
     ev_reject E QCAMERA_SM_EVT_GET_PARAMS"
| "procEvtPrepareSnapshotState E QCAMERA_SM_EVT_PUT_PARAMS p =
     ev_reject E QCAMERA_SM_EVT_PUT_PARAMS"
| "procEvtPrepareSnapshotState E QCAMERA_SM_EVT_START_PREVIEW p =
     ev_reject E QCAMERA_SM_EVT_START_PREVIEW"
| "procEvtPrepareSnapshotState E QCAMERA_SM_EVT_START_NODISPLAY_PREVIEW p =
     ev_reject E QCAMERA_SM_EVT_START_NODISPLAY_PREVIEW"
| "procEvtPrepareSnapshotState E QCAMERA_SM_EVT_STOP_PREVIEW p =
     ev_reject E QCAMERA_SM_EVT_STOP_PREVIEW"
| "procEvtPrepareSnapshotState E QCAMERA_SM_EVT_PREVIEW_ENABLED p =
     ev_reject E QCAMERA_SM_EVT_PREVIEW_ENABLED"
| "procEvtPrepareSnapshotState E QCAMERA_SM_EVT_RECORDING_ENABLED p =
     ev_reject E QCAMERA_SM_EVT_RECORDING_ENABLED"
| "procEvtPrepareSnapshotState E QCAMERA_SM_EVT_STORE_METADATA_IN_BUFS p =
     ev_reject E QCAMERA_SM_EVT_STORE_METADATA_IN_BUFS"
| "procEvtPrepareSnapshotState E QCAMERA_SM_EVT_DUMP p = ev_reject E QCAMERA_SM_EVT_DUMP"
| "procEvtPrepareSnapshotState E QCAMERA_SM_EVT_START_AUTO_FOCUS p =
     ev_reject E QCAMERA_SM_EVT_START_AUTO_FOCUS"
| "procEvtPrepareSnapshotState E QCAMERA_SM_EVT_STOP_AUTO_FOCUS p =
     ev_reject E QCAMERA_SM_EVT_STOP_AUTO_FOCUS"
| "procEvtPrepareSnapshotState E QCAMERA_SM_EVT_START_RECORDING p =
     ev_reject E QCAMERA_SM_EVT_START_RECORDING"
| "procEvtPrepareSnapshotState E QCAMERA_SM_EVT_TAKE_PICTURE p =
     ev_reject E QCAMERA_SM_EVT_TAKE_PICTURE"
| "procEvtPrepareSnapshotState E QCAMERA_SM_EVT_PREPARE_SNAPSHOT p =
     ev_reject E QCAMERA_SM_EVT_PREPARE_SNAPSHOT"
| "procEvtPrepareSnapshotState E QCAMERA_SM_EVT_SEND_COMMAND p =
     ev_reject E QCAMERA_SM_EVT_SEND_COMMAND"
| "procEvtPrepareSnapshotState E QCAMERA_SM_EVT_CANCEL_PICTURE p =
     ev_reject E QCAMERA_SM_EVT_CANCEL_PICTURE"
| "procEvtPrepareSnapshotState E QCAMERA_SM_EVT_STOP_RECORDING p =
     ev_reject E QCAMERA_SM_EVT_STOP_RECORDING"
| "procEvtPrepareSnapshotState E QCAMERA_SM_EVT_RELEASE_RECORIDNG_FRAME p =
     ev_reject E QCAMERA_SM_EVT_RELEASE_RECORIDNG_FRAME"
| "procEvtPrepareSnapshotState E QCAMERA_SM_EVT_RELEASE p =
     ev_reject E QCAMERA_SM_EVT_RELEASE"
| "procEvtPrepareSnapshotState E evt p = procEvtPrepareSnapshotState_b E evt p"

lemma prepare_internal_ok:
  assumes "m_state s = QCAMERA_SM_STATE_PREPARE_SNAPSHOT"
  shows "handler_ok E QCAMERA_SM_STATE_PREPARE_SNAPSHOT QCAMERA_SM_EVT_EVT_INTERNAL s
    (run_state (prepare_internal E i d) s)"
  using assms
  by (cases i) (simp_all add: handler_simps, simp_all add: handler_ok_simps)

lemma prepare_handler_ok:
  assumes "m_state s = QCAMERA_SM_STATE_PREPARE_SNAPSHOT"
  shows "handler_ok E QCAMERA_SM_STATE_PREPARE_SNAPSHOT evt s
    (run_state (procEvtPrepareSnapshotState E evt p) s)"
proof (cases evt)
  case QCAMERA_SM_EVT_EVT_INTERNAL
  then show ?thesis using prepare_internal_ok [OF assms] by simp
qed (use assms in \<open>simp_all add: handler_simps\<close>,
  simp_all add: handler_ok_simps)

end
