(* ===== verification/SmPicTaking.thy ===== *)
theory SmPicTaking
  imports SmSpec
begin

text \<open>
  \<open>procEvtPicTakingState\<close>: a picture is taken with the preview stopped. The switch is
  split in three in the order of its cases; the internal events are a function of their
  own. When the daemon dies here, results for \<open>PREPARE_SNAPSHOT\<close> and \<open>TAKE_PICTURE\<close> are
  signalled first, to release whoever waits for them.
\<close>

definition pic_taking_notify :: "'h env \<Rightarrow> payload \<Rightarrow> 'h handler" where
  "pic_taking_notify E p =
     (if pl_server_event_type p = CAM_EVENT_TYPE_DAEMON_DIED then do {
        _ \<leftarrow> ev_noop QCAMERA_SM_EVT_PREPARE_SNAPSHOT;
        _ \<leftarrow> ev_noop QCAMERA_SM_EVT_TAKE_PICTURE;
        daemon_died E;
        ret NO_ERROR
      } else ret NO_ERROR)"

definition pic_taking_stop_capture_channel :: "'h env \<Rightarrow> 'h handler" where
  "pic_taking_stop_capture_channel E = do {
     restartPreview \<leftarrow> ask E HWI_isPreviewRestartEnabled;
     rc \<leftarrow> call E (HWI_stopCaptureChannel restartPreview);
     rc \<leftarrow>
       (if restartPreview \<and> rc = NO_ERROR then do {
          rc \<leftarrow> call E HWI_preparePreview;
          if rc = NO_ERROR then do {
            exec E (HWI_set_m_bPreviewStarted True);
            apply_delayed E;
            call E HWI_startPreview
          } else ret rc
        } else ret rc);
     reply_api QCAMERA_SM_EVT_STOP_CAPTURE_CHANNEL rc RESULT_TYPE_DEF
   }"

definition pic_taking_snapshot_done :: "'h env \<Rightarrow> 'h handler" where
  "pic_taking_snapshot_done E = do {
     rc \<leftarrow> call E HWI_cancelPicture;
     restartPreview \<leftarrow> ask E HWI_isPreviewRestartEnabled;
     (if restartPreview then goto_state QCAMERA_SM_STATE_PREVIEWING
      else goto_state QCAMERA_SM_STATE_PREVIEW_STOPPED);
     reply_evt QCAMERA_SM_EVT_SNAPSHOT_DONE rc
   }"

fun pic_taking_internal ::
  "'h env \<Rightarrow> qcamera_internal_evt_type \<Rightarrow> ptr \<Rightarrow> 'h handler" where
  "pic_taking_internal E QCAMERA_INTERNAL_EVT_FOCUS_UPDATE d =
     call E (HWI_processAutoFocusEvent d)"
| "pic_taking_internal E QCAMERA_INTERNAL_EVT_PREP_SNAPSHOT_DONE d = ev_ignore"
| "pic_taking_internal E QCAMERA_INTERNAL_EVT_FACE_DETECT_RESULT d = ev_ignore"
| "pic_taking_internal E QCAMERA_INTERNAL_EVT_HISTOGRAM_STATS d = ev_ignore"
| "pic_taking_internal E QCAMERA_INTERNAL_EVT_CROP_INFO d = call E (HWI_processZoomEvent d)"
| "pic_taking_internal E QCAMERA_INTERNAL_EVT_ASD_UPDATE d =
     call E (HWI_processASDUpdate d)"
| "pic_taking_internal E QCAMERA_INTERNAL_EVT_LED_MODE_OVERRIDE d = ev_ignore"
| "pic_taking_internal E QCAMERA_INTERNAL_EVT_AWB_UPDATE d =
     call E (HWI_transAwbMetaToParams d)"
| "pic_taking_internal E QCAMERA_INTERNAL_EVT_AE_UPDATE d = call E (HWI_processAEInfo d)"
| "pic_taking_internal E QCAMERA_INTERNAL_EVT_FOCUS_POS_UPDATE d =
     call E (HWI_processFocusPositionInfo d)"
| "pic_taking_internal E QCAMERA_INTERNAL_EVT_HDR_UPDATE d = call E (HWI_processHDRData d)"
| "pic_taking_internal E QCAMERA_INTERNAL_EVT_RETRO_AEC_UNLOCK d =
     call E HWI_processRetroAECUnlock"
| "pic_taking_internal E QCAMERA_INTERNAL_EVT_ZSL_CAPTURE_DONE d =
     call E HWI_processZSLCaptureDone"
| "pic_taking_internal E evt d = ev_ignore"

fun procEvtPicTakingState_c ::
  "'h env \<Rightarrow> qcamera_sm_evt \<Rightarrow> payload \<Rightarrow> 'h handler" where
  "procEvtPicTakingState_c E QCAMERA_SM_EVT_EVT_NOTIFY p = pic_taking_notify E p"
| "procEvtPicTakingState_c E QCAMERA_SM_EVT_JPEG_EVT_NOTIFY p = ev_jpeg_notify E p"
| "procEvtPicTakingState_c E QCAMERA_SM_EVT_STOP_CAPTURE_CHANNEL p =
     pic_taking_stop_capture_channel E"
| "procEvtPicTakingState_c E QCAMERA_SM_EVT_SNAPSHOT_DONE p = pic_taking_snapshot_done E"
| "procEvtPicTakingState_c E QCAMERA_SM_EVT_THERMAL_NOTIFY p = ev_thermal_notify E p"
| "procEvtPicTakingState_c E evt p = ev_ignore"

fun procEvtPicTakingState_b ::
  "'h env \<Rightarrow> qcamera_sm_evt \<Rightarrow> payload \<Rightarrow> 'h handler" where
  "procEvtPicTakingState_b E QCAMERA_SM_EVT_START_AUTO_FOCUS p = ev_start_auto_focus E"
| "procEvtPicTakingState_b E QCAMERA_SM_EVT_STOP_AUTO_FOCUS p = ev_stop_auto_focus E"
| "procEvtPicTakingState_b E QCAMERA_SM_EVT_SEND_COMMAND p = do {
     rc \<leftarrow> call E (HWI_sendCommand (pl_cmd p) (pl_arg1 p) (pl_arg2 p));
     whenM (\<not> VANILLA_HAL E \<and> CAMERA_CMD_LONGSHOT_OFF E = pl_cmd p)
       (goto_state QCAMERA_SM_STATE_PREVIEWING);
     reply_api QCAMERA_SM_EVT_SEND_COMMAND rc RESULT_TYPE_DEF
   }"
| "procEvtPicTakingState_b E QCAMERA_SM_EVT_CANCEL_PICTURE p = do {
     rc \<leftarrow> call E HWI_cancelPicture;
     goto_state QCAMERA_SM_STATE_PREVIEW_STOPPED;
     reply_api QCAMERA_SM_EVT_CANCEL_PICTURE rc RESULT_TYPE_DEF
   }"
| "procEvtPicTakingState_b E QCAMERA_SM_EVT_REG_FACE_IMAGE p = ev_reg_face_image E p"
| "procEvtPicTakingState_b E QCAMERA_SM_EVT_TAKE_PICTURE p = do {
     longshot \<leftarrow> ask E HWI_isLongshotEnabled;
     rc \<leftarrow> (if longshot then call E HWI_longShot else ret (INVALID_OPERATION E));
     reply_api QCAMERA_SM_EVT_TAKE_PICTURE rc RESULT_TYPE_DEF
   }"
| "procEvtPicTakingState_b E QCAMERA_SM_EVT_PREPARE_SNAPSHOT p =
     ev_reject E QCAMERA_SM_EVT_PREPARE_SNAPSHOT"
| "procEvtPicTakingState_b E QCAMERA_SM_EVT_START_RECORDING p =
     ev_reject E QCAMERA_SM_EVT_START_RECORDING"
| "procEvtPicTakingState_b E QCAMERA_SM_EVT_STOP_RECORDING p =
     ev_reject E QCAMERA_SM_EVT_STOP_RECORDING"
| "procEvtPicTakingState_b E QCAMERA_SM_EVT_RELEASE_RECORIDNG_FRAME p =
     ev_reject E QCAMERA_SM_EVT_RELEASE_RECORIDNG_FRAME"
| "procEvtPicTakingState_b E QCAMERA_SM_EVT_START_PREVIEW p =
     ev_reject E QCAMERA_SM_EVT_START_PREVIEW"
| "procEvtPicTakingState_b E QCAMERA_SM_EVT_START_NODISPLAY_PREVIEW p =
     ev_reject E QCAMERA_SM_EVT_START_NODISPLAY_PREVIEW"
| "procEvtPicTakingState_b E QCAMERA_SM_EVT_RELEASE p = ev_reject E QCAMERA_SM_EVT_RELEASE"
| "procEvtPicTakingState_b E QCAMERA_SM_EVT_EVT_INTERNAL p =
     pic_taking_internal E (pl_evt_type p) (pl_evt_data p)"
| "procEvtPicTakingState_b E evt p = procEvtPicTakingState_c E evt p"

fun procEvtPicTakingState ::
  "'h env \<Rightarrow> qcamera_sm_evt \<Rightarrow> payload \<Rightarrow> 'h handler" where
  "procEvtPicTakingState E QCAMERA_SM_EVT_SET_PREVIEW_WINDOW p =
     ev_reject E QCAMERA_SM_EVT_SET_PREVIEW_WINDOW"
| "procEvtPicTakingState E QCAMERA_SM_EVT_SET_CALLBACKS p = ev_set_callbacks E p"
| "procEvtPicTakingState E QCAMERA_SM_EVT_ENABLE_MSG_TYPE p = ev_enable_msg_type E p"
| "procEvtPicTakingState E QCAMERA_SM_EVT_DISABLE_MSG_TYPE p = ev_disable_msg_type E p"
| "procEvtPicTakingState E QCAMERA_SM_EVT_MSG_TYPE_ENABLED p = ev_msg_type_enabled E p"
| "procEvtPicTakingState E QCAMERA_SM_EVT_SET_PARAMS p = do {
     (rc, needRestart) \<leftarrow> call2 E (HWI_updateParameters (pl_ptr p));
     rc \<leftarrow> (if rc = NO_ERROR then call E HWI_commitParameterChanges else ret rc);
     reply_api QCAMERA_SM_EVT_SET_PARAMS rc RESULT_TYPE_DEF
   }"
| "procEvtPicTakingState E QCAMERA_SM_EVT_GET_PARAMS p = ev_get_params E"
| "procEvtPicTakingState E QCAMERA_SM_EVT_PUT_PARAMS p = ev_put_params E p"
| "procEvtPicTakingState E QCAMERA_SM_EVT_STOP_PREVIEW p = do {
     rc \<leftarrow> call E HWI_cancelPicture;
     goto_state QCAMERA_SM_STATE_PREVIEW_STOPPED;
     reply_api QCAMERA_SM_EVT_STOP_PREVIEW rc RESULT_TYPE_DEF
   }"
| "procEvtPicTakingState E QCAMERA_SM_EVT_PREVIEW_ENABLED p =
     ev_flag QCAMERA_SM_EVT_PREVIEW_ENABLED 0"
| "procEvtPicTakingState E QCAMERA_SM_EVT_RECORDING_ENABLED p =
     ev_flag QCAMERA_SM_EVT_RECORDING_ENABLED 0"
| "procEvtPicTakingState E QCAMERA_SM_EVT_STORE_METADATA_IN_BUFS p = ev_store_metadata E p"
| "procEvtPicTakingState E QCAMERA_SM_EVT_DUMP p = ev_dump E p"
| "procEvtPicTakingState E evt p = procEvtPicTakingState_b E evt p"

lemma pic_taking_internal_ok:
  assumes "m_state s = QCAMERA_SM_STATE_PIC_TAKING"
  shows "handler_ok E QCAMERA_SM_STATE_PIC_TAKING QCAMERA_SM_EVT_EVT_INTERNAL s
    (run_state (pic_taking_internal E i d) s)"
  using assms
  by (cases i) (simp_all add: handler_simps, simp_all add: handler_ok_simps)

lemma pic_taking_handler_ok:
  assumes "m_state s = QCAMERA_SM_STATE_PIC_TAKING"
  shows "handler_ok E QCAMERA_SM_STATE_PIC_TAKING evt s
    (run_state (procEvtPicTakingState E evt p) s)"
proof (cases evt)
  case QCAMERA_SM_EVT_EVT_INTERNAL
  then show ?thesis using pic_taking_internal_ok [OF assms] by simp
qed (use assms in \<open>simp_all add: handler_simps pic_taking_notify_def
      pic_taking_stop_capture_channel_def pic_taking_snapshot_done_def\<close>,
  simp_all add: handler_ok_simps)

end
