(* ===== verification/SmRecording.thy ===== *)
theory SmRecording
  imports SmSpec
begin

text \<open>
  \<open>procEvtRecordingState\<close>: a video is recorded. The switch is split in three in the order
  of its cases; the internal events are a function of their own.
\<close>

fun recording_internal ::
  "'h env \<Rightarrow> qcamera_internal_evt_type \<Rightarrow> ptr \<Rightarrow> 'h handler" where
  "recording_internal E QCAMERA_INTERNAL_EVT_FOCUS_UPDATE d =
     call E (HWI_processAutoFocusEvent d)"
| "recording_internal E QCAMERA_INTERNAL_EVT_PREP_SNAPSHOT_DONE d = ev_ignore"
| "recording_internal E QCAMERA_INTERNAL_EVT_FACE_DETECT_RESULT d =
     call E (HWI_processFaceDetectionResult d)"
| "recording_internal E QCAMERA_INTERNAL_EVT_HISTOGRAM_STATS d =
     call E (HWI_processHistogramStats d)"
| "recording_internal E QCAMERA_INTERNAL_EVT_CROP_INFO d = call E (HWI_processZoomEvent d)"
| "recording_internal E QCAMERA_INTERNAL_EVT_ASD_UPDATE d = call E (HWI_processASDUpdate d)"
| "recording_internal E QCAMERA_INTERNAL_EVT_LED_MODE_OVERRIDE d = ev_ignore"
| "recording_internal E QCAMERA_INTERNAL_EVT_AWB_UPDATE d =
     call E (HWI_transAwbMetaToParams d)"
| "recording_internal E QCAMERA_INTERNAL_EVT_AE_UPDATE d = call E (HWI_processAEInfo d)"
| "recording_internal E QCAMERA_INTERNAL_EVT_FOCUS_POS_UPDATE d =
     call E (HWI_processFocusPositionInfo d)"
| "recording_internal E QCAMERA_INTERNAL_EVT_HDR_UPDATE d = call E (HWI_processHDRData d)"
| "recording_internal E QCAMERA_INTERNAL_EVT_RETRO_AEC_UNLOCK d =
     call E HWI_processRetroAECUnlock"
| "recording_internal E QCAMERA_INTERNAL_EVT_ZSL_CAPTURE_DONE d =
     call E HWI_processZSLCaptureDone"
| "recording_internal E evt d = ev_ignore"

fun procEvtRecordingState_c ::
  "'h env \<Rightarrow> qcamera_sm_evt \<Rightarrow> payload \<Rightarrow> 'h handler" where
  "procEvtRecordingState_c E QCAMERA_SM_EVT_EVT_INTERNAL p =
     recording_internal E (pl_evt_type p) (pl_evt_data p)"
| "procEvtRecordingState_c E QCAMERA_SM_EVT_EVT_NOTIFY p = ev_notify E p"
| "procEvtRecordingState_c E QCAMERA_SM_EVT_THERMAL_NOTIFY p = ev_thermal_notify E p"
| "procEvtRecordingState_c E QCAMERA_SM_EVT_SNAPSHOT_DONE p =
     reply_evt QCAMERA_SM_EVT_SNAPSHOT_DONE NO_ERROR"
| "procEvtRecordingState_c E evt p = ev_ignore"

fun procEvtRecordingState_b ::
  "'h env \<Rightarrow> qcamera_sm_evt \<Rightarrow> payload \<Rightarrow> 'h handler" where
  "procEvtRecordingState_b E QCAMERA_SM_EVT_START_AUTO_FOCUS p = ev_start_auto_focus E"
| "procEvtRecordingState_b E QCAMERA_SM_EVT_STOP_AUTO_FOCUS p = ev_stop_auto_focus E"
| "procEvtRecordingState_b E QCAMERA_SM_EVT_SEND_COMMAND p = ev_send_command E p"
| "procEvtRecordingState_b E QCAMERA_SM_EVT_TAKE_PICTURE p = do {
     goto_state QCAMERA_SM_STATE_VIDEO_PIC_TAKING;
     rc \<leftarrow> call E HWI_takeLiveSnapshot;
     whenM (rc \<noteq> NO_ERROR) (goto_state QCAMERA_SM_STATE_RECORDING);
     reply_api QCAMERA_SM_EVT_TAKE_PICTURE rc RESULT_TYPE_DEF
   }"
| "procEvtRecordingState_b E QCAMERA_SM_EVT_START_RECORDING p =
     ev_noop QCAMERA_SM_EVT_START_RECORDING"
| "procEvtRecordingState_b E QCAMERA_SM_EVT_STOP_RECORDING p = do {
     rc \<leftarrow> call E HWI_stopRecording;
     goto_state QCAMERA_SM_STATE_PREVIEWING;
     reply_api QCAMERA_SM_EVT_STOP_RECORDING rc RESULT_TYPE_DEF
   }"
| "procEvtRecordingState_b E QCAMERA_SM_EVT_STOP_PREVIEW p = do {
     _ \<leftarrow> call E HWI_stopRecording;
     goto_state QCAMERA_SM_STATE_PREVIEWING;
     rc \<leftarrow> call E HWI_stopPreview;
     goto_state QCAMERA_SM_STATE_PREVIEW_STOPPED;
     reply_api QCAMERA_SM_EVT_STOP_PREVIEW rc RESULT_TYPE_DEF
   }"
| "procEvtRecordingState_b E QCAMERA_SM_EVT_RELEASE_RECORIDNG_FRAME p =
     ev_release_recording_frame E p"
| "procEvtRecordingState_b E QCAMERA_SM_EVT_REG_FACE_IMAGE p = ev_reg_face_image E p"
| "procEvtRecordingState_b E QCAMERA_SM_EVT_PREPARE_SNAPSHOT p =
     ev_noop QCAMERA_SM_EVT_PREPARE_SNAPSHOT"
| "procEvtRecordingState_b E QCAMERA_SM_EVT_CANCEL_PICTURE p =
     ev_reject E QCAMERA_SM_EVT_CANCEL_PICTURE"
| "procEvtRecordingState_b E QCAMERA_SM_EVT_START_NODISPLAY_PREVIEW p =
     ev_reject E QCAMERA_SM_EVT_START_NODISPLAY_PREVIEW"
| "procEvtRecordingState_b E QCAMERA_SM_EVT_RELEASE p = ev_reject E QCAMERA_SM_EVT_RELEASE"
| "procEvtRecordingState_b E evt p = procEvtRecordingState_c E evt p"

fun procEvtRecordingState ::
  "'h env \<Rightarrow> qcamera_sm_evt \<Rightarrow> payload \<Rightarrow> 'h handler" where
  "procEvtRecordingState E QCAMERA_SM_EVT_START_PREVIEW p =
     ev_noop QCAMERA_SM_EVT_START_PREVIEW"
| "procEvtRecordingState E QCAMERA_SM_EVT_SET_PREVIEW_WINDOW p =
     ev_noop QCAMERA_SM_EVT_SET_PREVIEW_WINDOW"
| "procEvtRecordingState E QCAMERA_SM_EVT_SET_CALLBACKS p = ev_set_callbacks E p"
| "procEvtRecordingState E QCAMERA_SM_EVT_ENABLE_MSG_TYPE p = ev_enable_msg_type E p"
| "procEvtRecordingState E QCAMERA_SM_EVT_DISABLE_MSG_TYPE p = ev_disable_msg_type E p"
| "procEvtRecordingState E QCAMERA_SM_EVT_MSG_TYPE_ENABLED p = ev_msg_type_enabled E p"
| "procEvtRecordingState E QCAMERA_SM_EVT_SET_PARAMS p = set_params_recording E p"
| "procEvtRecordingState E QCAMERA_SM_EVT_GET_PARAMS p = ev_get_params E"
| "procEvtRecordingState E QCAMERA_SM_EVT_PUT_PARAMS p = ev_put_params E p"
| "procEvtRecordingState E QCAMERA_SM_EVT_PREVIEW_ENABLED p =
     ev_flag QCAMERA_SM_EVT_PREVIEW_ENABLED 0"
| "procEvtRecordingState E QCAMERA_SM_EVT_RECORDING_ENABLED p =
     ev_flag QCAMERA_SM_EVT_RECORDING_ENABLED 1"
| "procEvtRecordingState E QCAMERA_SM_EVT_STORE_METADATA_IN_BUFS p = ev_store_metadata E p"
| "procEvtRecordingState E QCAMERA_SM_EVT_DUMP p = ev_dump E p"
| "procEvtRecordingState E evt p = procEvtRecordingState_b E evt p"

lemma recording_internal_ok:
  assumes "m_state s = QCAMERA_SM_STATE_RECORDING"
  shows "handler_ok E QCAMERA_SM_STATE_RECORDING QCAMERA_SM_EVT_EVT_INTERNAL s
    (run_state (recording_internal E i d) s)"
  using assms
  by (cases i) (simp_all add: handler_simps, simp_all add: handler_ok_simps)

lemma recording_handler_ok:
  assumes "m_state s = QCAMERA_SM_STATE_RECORDING"
  shows "handler_ok E QCAMERA_SM_STATE_RECORDING evt s
    (run_state (procEvtRecordingState E evt p) s)"
proof (cases evt)
  case QCAMERA_SM_EVT_EVT_INTERNAL
  then show ?thesis using recording_internal_ok [OF assms] by simp
qed (use assms in \<open>simp_all add: handler_simps\<close>,
  simp_all add: handler_ok_simps)

end
