(* ===== verification/SmVideoPic.thy ===== *)
theory SmVideoPic
  imports SmSpec
begin

text \<open>
  \<open>procEvtVideoPicTakingState\<close>: a live snapshot is taken during a recording. The switch is
  split in three in the order of its cases; the internal events are a function of their
  own.
\<close>

fun video_pic_internal ::
  "'h env \<Rightarrow> qcamera_internal_evt_type \<Rightarrow> ptr \<Rightarrow> 'h handler" where
  "video_pic_internal E QCAMERA_INTERNAL_EVT_FOCUS_UPDATE d =
     call E (HWI_processAutoFocusEvent d)"
| "video_pic_internal E QCAMERA_INTERNAL_EVT_PREP_SNAPSHOT_DONE d = ev_ignore"
| "video_pic_internal E QCAMERA_INTERNAL_EVT_FACE_DETECT_RESULT d =
     call E (HWI_processFaceDetectionResult d)"
| "video_pic_internal E QCAMERA_INTERNAL_EVT_HISTOGRAM_STATS d =
     call E (HWI_processHistogramStats d)"
| "video_pic_internal E QCAMERA_INTERNAL_EVT_CROP_INFO d = call E (HWI_processZoomEvent d)"
| "video_pic_internal E QCAMERA_INTERNAL_EVT_ASD_UPDATE d = call E (HWI_processASDUpdate d)"
| "video_pic_internal E QCAMERA_INTERNAL_EVT_LED_MODE_OVERRIDE d = ev_ignore"
| "video_pic_internal E QCAMERA_INTERNAL_EVT_AWB_UPDATE d =
     call E (HWI_transAwbMetaToParams d)"
| "video_pic_internal E QCAMERA_INTERNAL_EVT_AE_UPDATE d = call E (HWI_processAEInfo d)"
| "video_pic_internal E QCAMERA_INTERNAL_EVT_FOCUS_POS_UPDATE d =
     call E (HWI_processFocusPositionInfo d)"
| "video_pic_internal E QCAMERA_INTERNAL_EVT_HDR_UPDATE d = call E (HWI_processHDRData d)"
| "video_pic_internal E QCAMERA_INTERNAL_EVT_RETRO_AEC_UNLOCK d =
     call E HWI_processRetroAECUnlock"
| "video_pic_internal E QCAMERA_INTERNAL_EVT_ZSL_CAPTURE_DONE d =
     call E HWI_processZSLCaptureDone"
| "video_pic_internal E evt d = ev_ignore"

fun procEvtVideoPicTakingState_c ::
  "'h env \<Rightarrow> qcamera_sm_evt \<Rightarrow> payload \<Rightarrow> 'h handler" where
  "procEvtVideoPicTakingState_c E QCAMERA_SM_EVT_EVT_INTERNAL p =
     video_pic_internal E (pl_evt_type p) (pl_evt_data p)"
| "procEvtVideoPicTakingState_c E QCAMERA_SM_EVT_EVT_NOTIFY p = ev_notify E p"
| "procEvtVideoPicTakingState_c E QCAMERA_SM_EVT_JPEG_EVT_NOTIFY p = ev_jpeg_notify E p"
| "procEvtVideoPicTakingState_c E QCAMERA_SM_EVT_SNAPSHOT_DONE p = do {
     rc \<leftarrow> call E HWI_cancelLiveSnapshot;
     goto_state QCAMERA_SM_STATE_RECORDING;
     reply_evt QCAMERA_SM_EVT_SNAPSHOT_DONE rc
   }"
| "procEvtVideoPicTakingState_c E QCAMERA_SM_EVT_THERMAL_NOTIFY p = ev_thermal_notify E p"
| "procEvtVideoPicTakingState_c E evt p = ev_ignore"

fun procEvtVideoPicTakingState_b ::
  "'h env \<Rightarrow> qcamera_sm_evt \<Rightarrow> payload \<Rightarrow> 'h handler" where
  "procEvtVideoPicTakingState_b E QCAMERA_SM_EVT_STOP_AUTO_FOCUS p = ev_stop_auto_focus E"
| "procEvtVideoPicTakingState_b E QCAMERA_SM_EVT_SEND_COMMAND p = ev_send_command E p"
| "procEvtVideoPicTakingState_b E QCAMERA_SM_EVT_STOP_RECORDING p = do {
     _ \<leftarrow> call E HWI_cancelLiveSnapshot;
     goto_state QCAMERA_SM_STATE_RECORDING;
     rc \<leftarrow> call E HWI_stopRecording;
     goto_state QCAMERA_SM_STATE_PREVIEWING;
     reply_api QCAMERA_SM_EVT_STOP_RECORDING rc RESULT_TYPE_DEF
   }"
| "procEvtVideoPicTakingState_b E QCAMERA_SM_EVT_RELEASE_RECORIDNG_FRAME p =
     ev_release_recording_frame E p"
| "procEvtVideoPicTakingState_b E QCAMERA_SM_EVT_CANCEL_PICTURE p = do {
     rc \<leftarrow> call E HWI_cancelLiveSnapshot;
     goto_state QCAMERA_SM_STATE_RECORDING;
     reply_api QCAMERA_SM_EVT_CANCEL_PICTURE rc RESULT_TYPE_DEF
   }"
| "procEvtVideoPicTakingState_b E QCAMERA_SM_EVT_REG_FACE_IMAGE p = ev_reg_face_image E p"
| "procEvtVideoPicTakingState_b E QCAMERA_SM_EVT_STOP_PREVIEW p = do {
     _ \<leftarrow> call E HWI_cancelLiveSnapshot;
     goto_state QCAMERA_SM_STATE_RECORDING;
     _ \<leftarrow> call E HWI_stopRecording;
     goto_state QCAMERA_SM_STATE_PREVIEWING;
     rc \<leftarrow> call E HWI_stopPreview;
     goto_state QCAMERA_SM_STATE_PREVIEW_STOPPED;
     reply_api QCAMERA_SM_EVT_STOP_PREVIEW rc RESULT_TYPE_DEF
   }"
| "procEvtVideoPicTakingState_b E QCAMERA_SM_EVT_START_RECORDING p =
     ev_reject E QCAMERA_SM_EVT_START_RECORDING"
| "procEvtVideoPicTakingState_b E QCAMERA_SM_EVT_START_PREVIEW p =
     ev_reject E QCAMERA_SM_EVT_START_PREVIEW"
| "procEvtVideoPicTakingState_b E QCAMERA_SM_EVT_START_NODISPLAY_PREVIEW p =
     ev_reject E QCAMERA_SM_EVT_START_NODISPLAY_PREVIEW"
| "procEvtVideoPicTakingState_b E QCAMERA_SM_EVT_PREPARE_SNAPSHOT p =
     ev_reject E QCAMERA_SM_EVT_PREPARE_SNAPSHOT"
| "procEvtVideoPicTakingState_b E QCAMERA_SM_EVT_TAKE_PICTURE p =
     ev_reject E QCAMERA_SM_EVT_TAKE_PICTURE"
| "procEvtVideoPicTakingState_b E QCAMERA_SM_EVT_RELEASE p =
     ev_reject E QCAMERA_SM_EVT_RELEASE"
| "procEvtVideoPicTakingState_b E evt p = procEvtVideoPicTakingState_c E evt p"

fun procEvtVideoPicTakingState ::
  "'h env \<Rightarrow> qcamera_sm_evt \<Rightarrow> payload \<Rightarrow> 'h handler" where
  "procEvtVideoPicTakingState E QCAMERA_SM_EVT_SET_PREVIEW_WINDOW p =
     ev_reject E QCAMERA_SM_EVT_SET_PREVIEW_WINDOW"
| "procEvtVideoPicTakingState E QCAMERA_SM_EVT_SET_CALLBACKS p = ev_set_callbacks E p"
| "procEvtVideoPicTakingState E QCAMERA_SM_EVT_ENABLE_MSG_TYPE p = ev_enable_msg_type E p"
| "procEvtVideoPicTakingState E QCAMERA_SM_EVT_DISABLE_MSG_TYPE p = ev_disable_msg_type E p"
| "procEvtVideoPicTakingState E QCAMERA_SM_EVT_MSG_TYPE_ENABLED p = ev_msg_type_enabled E p"
| "procEvtVideoPicTakingState E QCAMERA_SM_EVT_SET_PARAMS p = set_params_recording E p"
| "procEvtVideoPicTakingState E QCAMERA_SM_EVT_GET_PARAMS p = ev_get_params E"
| "procEvtVideoPicTakingState E QCAMERA_SM_EVT_PUT_PARAMS p = ev_put_params E p"
| "procEvtVideoPicTakingState E QCAMERA_SM_EVT_PREVIEW_ENABLED p =
     ev_flag QCAMERA_SM_EVT_PREVIEW_ENABLED 1"
| "procEvtVideoPicTakingState E QCAMERA_SM_EVT_RECORDING_ENABLED p =
     ev_flag QCAMERA_SM_EVT_RECORDING_ENABLED 1"
| "procEvtVideoPicTakingState E QCAMERA_SM_EVT_STORE_METADATA_IN_BUFS p =
     ev_store_metadata E p"
| "procEvtVideoPicTakingState E QCAMERA_SM_EVT_DUMP p = ev_dump E p"
| "procEvtVideoPicTakingState E QCAMERA_SM_EVT_START_AUTO_FOCUS p = ev_start_auto_focus E"
| "procEvtVideoPicTakingState E evt p = procEvtVideoPicTakingState_b E evt p"

lemma video_pic_internal_ok:
  assumes "m_state s = QCAMERA_SM_STATE_VIDEO_PIC_TAKING"
  shows "handler_ok E QCAMERA_SM_STATE_VIDEO_PIC_TAKING QCAMERA_SM_EVT_EVT_INTERNAL s
    (run_state (video_pic_internal E i d) s)"
  using assms
  by (cases i) (simp_all add: handler_simps, simp_all add: handler_ok_simps)

lemma video_pic_handler_ok:
  assumes "m_state s = QCAMERA_SM_STATE_VIDEO_PIC_TAKING"
  shows "handler_ok E QCAMERA_SM_STATE_VIDEO_PIC_TAKING evt s
    (run_state (procEvtVideoPicTakingState E evt p) s)"
proof (cases evt)
  case QCAMERA_SM_EVT_EVT_INTERNAL
  then show ?thesis using video_pic_internal_ok [OF assms] by simp
qed (use assms in \<open>simp_all add: handler_simps\<close>,
  simp_all add: handler_ok_simps)

end
