(* ===== verification/SmPreviewPic.thy ===== *)
theory SmPreviewPic
  imports SmSpec
begin

text \<open>
  \<open>procEvtPreviewPicTakingState\<close>: a ZSL or live snapshot is taken while the preview runs.
  The switch is split in three in the order of its cases; the internal events, \<open>STOP_PREVIEW\<close>,
  \<open>START_RECORDING\<close> and \<open>SNAPSHOT_DONE\<close> are functions of their own.
\<close>

definition preview_pic_stop_preview :: "'h env \<Rightarrow> 'h handler" where
  "preview_pic_stop_preview E = do {
     zsl \<leftarrow> ask E HWI_isZSLMode;
     rc \<leftarrow>
       (if zsl then do {
          rc \<leftarrow> call E HWI_cancelPicture;
          exec E (HWI_stopChannel QCAMERA_CH_TYPE_ZSL);
          ret rc
        } else do {
          longshot \<leftarrow> ask E HWI_isLongshotEnabled;
          if longshot then call E HWI_cancelPicture
          else do {
            rc \<leftarrow> call E HWI_cancelLiveSnapshot;
            exec E (HWI_stopChannel QCAMERA_CH_TYPE_PREVIEW);
            ret rc
          }
        });
     exec E HWI_unpreparePreview;
     goto_state QCAMERA_SM_STATE_PREVIEW_STOPPED;
     reply_api QCAMERA_SM_EVT_STOP_PREVIEW rc RESULT_TYPE_DEF
   }"

definition preview_pic_start_recording :: "'h env \<Rightarrow> 'h handler" where
  "preview_pic_start_recording E = do {
     zsl \<leftarrow> ask E HWI_isZSLMode;
     rc \<leftarrow>
       (if zsl then ret (INVALID_OPERATION E)
        else do {
          longshot \<leftarrow> ask E HWI_isLongshotEnabled;
          if longshot then ret (INVALID_OPERATION E)
          else do {
            rc \<leftarrow> call E HWI_startRecording;
            whenM (rc = NO_ERROR) (goto_state QCAMERA_SM_STATE_VIDEO_PIC_TAKING);
            ret rc
          }
        });
     reply_api QCAMERA_SM_EVT_START_RECORDING rc RESULT_TYPE_DEF
   }"

definition preview_pic_snapshot_done :: "'h env \<Rightarrow> 'h handler" where
  "preview_pic_snapshot_done E = do {
     zsl \<leftarrow> ask E HWI_isZSLMode;
     zsl_or_longshot \<leftarrow> (if zsl then ret True else ask E HWI_isLongshotEnabled);
     rc \<leftarrow> (if zsl_or_longshot then call E HWI_cancelPicture else call E HWI_cancelLiveSnapshot);
     goto_state QCAMERA_SM_STATE_PREVIEWING;
     retro \<leftarrow> ask E HWI_isRetroPicture;
     whenM retro (signalAPIResult
       \<lparr>status = rc, request_api = QCAMERA_SM_EVT_SNAPSHOT_DONE,
         result_value = RESULT_TYPE_DEF\<rparr>);
     reply_evt QCAMERA_SM_EVT_SNAPSHOT_DONE rc
   }"

fun preview_pic_internal ::
  "'h env \<Rightarrow> qcamera_internal_evt_type \<Rightarrow> ptr \<Rightarrow> 'h handler" where
  "preview_pic_internal E QCAMERA_INTERNAL_EVT_FOCUS_UPDATE d =
     call E (HWI_processAutoFocusEvent d)"
| "preview_pic_internal E QCAMERA_INTERNAL_EVT_PREP_SNAPSHOT_DONE d = do {
     retro \<leftarrow> ask E HWI_isRetroPicture;
     if retro then do {
       exec E (HWI_processPrepSnapshotDoneEvent d);
       _ \<leftarrow> ev_noop QCAMERA_SM_EVT_PREPARE_SNAPSHOT;
       ret NO_ERROR
     } else ret NO_ERROR
   }"
| "preview_pic_internal E QCAMERA_INTERNAL_EVT_FACE_DETECT_RESULT d =
     call E (HWI_processFaceDetectionResult d)"
| "preview_pic_internal E QCAMERA_INTERNAL_EVT_READY_FOR_SNAPSHOT d = do {
     retro \<leftarrow> ask E HWI_isRetroPicture;
     if retro then do {
       _ \<leftarrow> ev_noop QCAMERA_SM_EVT_TAKE_PICTURE;
       ret NO_ERROR
     } else ret NO_ERROR
   }"
| "preview_pic_internal E QCAMERA_INTERNAL_EVT_HISTOGRAM_STATS d =
     call E (HWI_processHistogramStats d)"
| "preview_pic_internal E QCAMERA_INTERNAL_EVT_CROP_INFO d =
     call E (HWI_processZoomEvent d)"
| "preview_pic_internal E QCAMERA_INTERNAL_EVT_ASD_UPDATE d =
     call E (HWI_processASDUpdate d)"
| "preview_pic_internal E QCAMERA_INTERNAL_EVT_LED_MODE_OVERRIDE d = ev_ignore"
| "preview_pic_internal E QCAMERA_INTERNAL_EVT_AWB_UPDATE d =
     call E (HWI_transAwbMetaToParams d)"
| "preview_pic_internal E QCAMERA_INTERNAL_EVT_AE_UPDATE d = call E (HWI_processAEInfo d)"
| "preview_pic_internal E QCAMERA_INTERNAL_EVT_FOCUS_POS_UPDATE d =
     call E (HWI_processFocusPositionInfo d)"
| "preview_pic_internal E QCAMERA_INTERNAL_EVT_HDR_UPDATE d = call E (HWI_processHDRData d)"
| "preview_pic_internal E QCAMERA_INTERNAL_EVT_RETRO_AEC_UNLOCK d =
     call E HWI_processRetroAECUnlock"
| "preview_pic_internal E QCAMERA_INTERNAL_EVT_ZSL_CAPTURE_DONE d =
     call E HWI_processZSLCaptureDone"
| "preview_pic_internal E evt d = ev_ignore"

fun procEvtPreviewPicTakingState_c ::
  "'h env \<Rightarrow> qcamera_sm_evt \<Rightarrow> payload \<Rightarrow> 'h handler" where
  "procEvtPreviewPicTakingState_c E QCAMERA_SM_EVT_PREPARE_SNAPSHOT p = do {
     retro \<leftarrow> ask E HWI_isRetroPicture;
     if retro then do {
       rc \<leftarrow> call E (HWI_prepareHardwareForSnapshot False);
       if rc \<noteq> NO_ERROR then reply_api QCAMERA_SM_EVT_PREPARE_SNAPSHOT rc RESULT_TYPE_DEF
       else ret rc
     } else ev_reject E QCAMERA_SM_EVT_PREPARE_SNAPSHOT
   }"
| "procEvtPreviewPicTakingState_c E QCAMERA_SM_EVT_STOP_RECORDING p =
     ev_reject E QCAMERA_SM_EVT_STOP_RECORDING"
| "procEvtPreviewPicTakingState_c E QCAMERA_SM_EVT_START_PREVIEW p =
     ev_reject E QCAMERA_SM_EVT_START_PREVIEW"
| "procEvtPreviewPicTakingState_c E QCAMERA_SM_EVT_START_NODISPLAY_PREVIEW p =
     ev_reject E QCAMERA_SM_EVT_START_NODISPLAY_PREVIEW"
| "procEvtPreviewPicTakingState_c E QCAMERA_SM_EVT_SET_PREVIEW_WINDOW p =
     ev_reject E QCAMERA_SM_EVT_SET_PREVIEW_WINDOW"
| "procEvtPreviewPicTakingState_c E QCAMERA_SM_EVT_RELEASE p =
     ev_reject E QCAMERA_SM_EVT_RELEASE"
| "procEvtPreviewPicTakingState_c E QCAMERA_SM_EVT_EVT_INTERNAL p =
     preview_pic_internal E (pl_evt_type p) (pl_evt_data p)"
| "procEvtPreviewPicTakingState_c E QCAMERA_SM_EVT_EVT_NOTIFY p = ev_notify E p"
| "procEvtPreviewPicTakingState_c E QCAMERA_SM_EVT_JPEG_EVT_NOTIFY p = ev_jpeg_notify E p"
| "procEvtPreviewPicTakingState_c E QCAMERA_SM_EVT_SNAPSHOT_DONE p =
     preview_pic_snapshot_done E"
| "procEvtPreviewPicTakingState_c E QCAMERA_SM_EVT_THERMAL_NOTIFY p = ev_thermal_notify E p"
| "procEvtPreviewPicTakingState_c E evt p = ev_ignore"

fun procEvtPreviewPicTakingState_b ::
  "'h env \<Rightarrow> qcamera_sm_evt \<Rightarrow> payload \<Rightarrow> 'h handler" where
  "procEvtPreviewPicTakingState_b E QCAMERA_SM_EVT_START_AUTO_FOCUS p =
     ev_start_auto_focus E"
| "procEvtPreviewPicTakingState_b E QCAMERA_SM_EVT_STOP_AUTO_FOCUS p = ev_stop_auto_focus E"
| "procEvtPreviewPicTakingState_b E QCAMERA_SM_EVT_SEND_COMMAND p = do {
     rc \<leftarrow> call E (HWI_sendCommand (pl_cmd p) (pl_arg1 p) (pl_arg2 p));
     whenM (\<not> VANILLA_HAL E \<and> CAMERA_CMD_LONGSHOT_OFF E = pl_cmd p)
       (goto_state QCAMERA_SM_STATE_PREVIEWING);
     reply_api QCAMERA_SM_EVT_SEND_COMMAND rc RESULT_TYPE_DEF
   }"
| "procEvtPreviewPicTakingState_b E QCAMERA_SM_EVT_RELEASE_RECORIDNG_FRAME p =
     ev_release_recording_frame E p"
| "procEvtPreviewPicTakingState_b E QCAMERA_SM_EVT_CANCEL_PICTURE p = do {
     zsl \<leftarrow> ask E HWI_isZSLMode;
     zsl_or_longshot \<leftarrow> (if zsl then ret True else ask E HWI_isLongshotEnabled);
     rc \<leftarrow> (if zsl_or_longshot then call E HWI_cancelPicture else call E HWI_cancelLiveSnapshot);
     goto_state QCAMERA_SM_STATE_PREVIEWING;
     reply_api QCAMERA_SM_EVT_CANCEL_PICTURE rc RESULT_TYPE_DEF
   }"
| "procEvtPreviewPicTakingState_b E QCAMERA_SM_EVT_STOP_PREVIEW p =
     preview_pic_stop_preview E"
| "procEvtPreviewPicTakingState_b E QCAMERA_SM_EVT_START_RECORDING p =
     preview_pic_start_recording E"
| "procEvtPreviewPicTakingState_b E QCAMERA_SM_EVT_REG_FACE_IMAGE p = ev_reg_face_image E p"
| "procEvtPreviewPicTakingState_b E QCAMERA_SM_EVT_TAKE_PICTURE p = do {
     longshot \<leftarrow> ask E HWI_isLongshotEnabled;
     rc \<leftarrow> (if longshot then call E HWI_longShot else ret (INVALID_OPERATION E));
     reply_api QCAMERA_SM_EVT_TAKE_PICTURE rc RESULT_TYPE_DEF
   }"
| "procEvtPreviewPicTakingState_b E evt p = procEvtPreviewPicTakingState_c E evt p"

fun procEvtPreviewPicTakingState ::
  "'h env \<Rightarrow> qcamera_sm_evt \<Rightarrow> payload \<Rightarrow> 'h handler" where
  "procEvtPreviewPicTakingState E QCAMERA_SM_EVT_SET_CALLBACKS p = ev_set_callbacks E p"
| "procEvtPreviewPicTakingState E QCAMERA_SM_EVT_ENABLE_MSG_TYPE p = ev_enable_msg_type E p"
| "procEvtPreviewPicTakingState E QCAMERA_SM_EVT_DISABLE_MSG_TYPE p =
     ev_disable_msg_type E p"
| "procEvtPreviewPicTakingState E QCAMERA_SM_EVT_MSG_TYPE_ENABLED p =
     ev_msg_type_enabled E p"
| "procEvtPreviewPicTakingState E QCAMERA_SM_EVT_SET_PARAMS p =
     set_params_restart E QCAMERA_SM_STATE_PIC_TAKING p"
| "procEvtPreviewPicTakingState E QCAMERA_SM_EVT_GET_PARAMS p = ev_get_params E"
| "procEvtPreviewPicTakingState E QCAMERA_SM_EVT_PUT_PARAMS p = ev_put_params E p"
| "procEvtPreviewPicTakingState E QCAMERA_SM_EVT_PREVIEW_ENABLED p =
     ev_flag QCAMERA_SM_EVT_PREVIEW_ENABLED 1"
| "procEvtPreviewPicTakingState E QCAMERA_SM_EVT_RECORDING_ENABLED p =
     ev_flag QCAMERA_SM_EVT_RECORDING_ENABLED 0"
| "procEvtPreviewPicTakingState E QCAMERA_SM_EVT_STORE_METADATA_IN_BUFS p =
     ev_store_metadata E p"
| "procEvtPreviewPicTakingState E QCAMERA_SM_EVT_DUMP p = ev_dump E p"
| "procEvtPreviewPicTakingState E evt p = procEvtPreviewPicTakingState_b E evt p"

lemma preview_pic_internal_ok:
  assumes "m_state s = QCAMERA_SM_STATE_PREVIEW_PIC_TAKING"
  shows "handler_ok E QCAMERA_SM_STATE_PREVIEW_PIC_TAKING QCAMERA_SM_EVT_EVT_INTERNAL s
    (run_state (preview_pic_internal E i d) s)"
  using assms
  by (cases i) (simp_all add: handler_simps, simp_all add: handler_ok_simps)

lemma preview_pic_handler_ok:
  assumes "m_state s = QCAMERA_SM_STATE_PREVIEW_PIC_TAKING"
  shows "handler_ok E QCAMERA_SM_STATE_PREVIEW_PIC_TAKING evt s
    (run_state (procEvtPreviewPicTakingState E evt p) s)"
proof (cases evt)
  case QCAMERA_SM_EVT_EVT_INTERNAL
  then show ?thesis using preview_pic_internal_ok [OF assms] by simp
qed (use assms in \<open>simp_all add: handler_simps preview_pic_stop_preview_def preview_pic_start_recording_def
      preview_pic_snapshot_done_def\<close>,
  simp_all add: handler_ok_simps)

end
