(* ===== verification/CamStateMachine.thy ===== *)
theory CamStateMachine
  imports SmStopped SmReady SmPreviewing SmPrepare SmPicTaking SmRecording SmVideoPic
    SmPreviewPic
begin

text \<open>
  The camera state machine put together: the dispatcher \<open>stateMachine\<close> of
  \<open>QCameraStateMachine.cpp\<close>, the queries on its state and its dump, and what it promises
  of single events and of whole runs.
\<close>

section \<open>The dispatcher and the queries\<close>

definition stateMachine :: "'h env \<Rightarrow> qcamera_sm_evt \<Rightarrow> payload \<Rightarrow> 'h handler" where
  "stateMachine E evt p = do {
     st \<leftarrow> gets m_state;
     (case st of
        QCAMERA_SM_STATE_PREVIEW_STOPPED \<Rightarrow> procEvtPreviewStoppedState E evt p
      | QCAMERA_SM_STATE_PREVIEW_READY \<Rightarrow> procEvtPreviewReadyState E evt p
      | QCAMERA_SM_STATE_PREVIEWING \<Rightarrow> procEvtPreviewingState E evt p
      | QCAMERA_SM_STATE_PREPARE_SNAPSHOT \<Rightarrow> procEvtPrepareSnapshotState E evt p
      | QCAMERA_SM_STATE_PIC_TAKING \<Rightarrow> procEvtPicTakingState E evt p
      | QCAMERA_SM_STATE_RECORDING \<Rightarrow> procEvtRecordingState E evt p
      | QCAMERA_SM_STATE_VIDEO_PIC_TAKING \<Rightarrow> procEvtVideoPicTakingState E evt p
      | QCAMERA_SM_STATE_PREVIEW_PIC_TAKING \<Rightarrow> procEvtPreviewPicTakingState E evt p)
   }"

fun isRecording :: "qcamera_state \<Rightarrow> bool" where
  "isRecording QCAMERA_SM_STATE_RECORDING = True"
| "isRecording QCAMERA_SM_STATE_VIDEO_PIC_TAKING = True"
| "isRecording _ = False"

fun isPreviewRunning :: "qcamera_state \<Rightarrow> bool" where
  "isPreviewRunning QCAMERA_SM_STATE_PREVIEWING = True"
| "isPreviewRunning QCAMERA_SM_STATE_RECORDING = True"
| "isPreviewRunning QCAMERA_SM_STATE_VIDEO_PIC_TAKING = True"
| "isPreviewRunning QCAMERA_SM_STATE_PREVIEW_PIC_TAKING = True"
| "isPreviewRunning QCAMERA_SM_STATE_PREPARE_SNAPSHOT = True"
| "isPreviewRunning QCAMERA_SM_STATE_PREVIEW_READY = True"
| "isPreviewRunning _ = False"

fun isPreviewReady :: "qcamera_state \<Rightarrow> bool" where
  "isPreviewReady QCAMERA_SM_STATE_PREVIEW_READY = True"
| "isPreviewReady _ = False"

fun isCaptureRunning :: "qcamera_state \<Rightarrow> bool" where
  "isCaptureRunning QCAMERA_SM_STATE_PIC_TAKING = True"
| "isCaptureRunning QCAMERA_SM_STATE_VIDEO_PIC_TAKING = True"
| "isCaptureRunning QCAMERA_SM_STATE_PREVIEW_PIC_TAKING = True"
| "isCaptureRunning _ = False"

fun isNonZSLCaptureRunning :: "qcamera_state \<Rightarrow> bool" where
  "isNonZSLCaptureRunning QCAMERA_SM_STATE_PIC_TAKING = True"
| "isNonZSLCaptureRunning _ = False"

text \<open>The number and the line \<open>dump\<close> prints for a state, and the whole text.\<close>

fun state_digit :: "qcamera_state \<Rightarrow> string" where
  "state_digit QCAMERA_SM_STATE_PREVIEW_STOPPED = ''0''"
| "state_digit QCAMERA_SM_STATE_PREVIEW_READY = ''1''"
| "state_digit QCAMERA_SM_STATE_PREVIEWING = ''2''"
| "state_digit QCAMERA_SM_STATE_PREPARE_SNAPSHOT = ''3''"
| "state_digit QCAMERA_SM_STATE_PIC_TAKING = ''4''"
| "state_digit QCAMERA_SM_STATE_RECORDING = ''5''"
| "state_digit QCAMERA_SM_STATE_VIDEO_PIC_TAKING = ''6''"
| "state_digit QCAMERA_SM_STATE_PREVIEW_PIC_TAKING = ''7''"

fun state_line :: "qcamera_state \<Rightarrow> string" where
  "state_line QCAMERA_SM_STATE_PREVIEW_STOPPED = '' QCAMERA_SM_STATE_PREVIEW_STOPPED ''"
| "state_line QCAMERA_SM_STATE_PREVIEW_READY = '' QCAMERA_SM_STATE_PREVIEW_READY ''"
| "state_line QCAMERA_SM_STATE_PREVIEWING = '' QCAMERA_SM_STATE_PREVIEWING ''"
| "state_line QCAMERA_SM_STATE_PREPARE_SNAPSHOT = '' QCAMERA_SM_STATE_PREPARE_SNAPSHOT ''"
| "state_line QCAMERA_SM_STATE_PIC_TAKING = '' QCAMERA_SM_STATE_PIC_TAKING ''"
| "state_line QCAMERA_SM_STATE_RECORDING = '' QCAMERA_SM_STATE_RECORDING ''"
| "state_line QCAMERA_SM_STATE_VIDEO_PIC_TAKING = '' QCAMERA_SM_STATE_VIDEO_PIC_TAKING ''"
| "state_line QCAMERA_SM_STATE_PREVIEW_PIC_TAKING =
     '' QCAMERA_SM_STATE_PREVIEW_PIC_TAKING ''"

definition bool_digit :: "bool \<Rightarrow> string" where
  "bool_digit b = (if b then ''1'' else ''0'')"

definition newline :: string where
  "newline = [CHR 0x0A]"

definition sm_dump :: "qcamera_state \<Rightarrow> string" where
  "sm_dump st = newline @
     ''Is Preview Running: '' @ bool_digit (isPreviewRunning st) @ newline @
     ''Is Capture Running: '' @ bool_digit (isCaptureRunning st) @ newline @
     ''Is Non ZSL Capture Running: '' @ bool_digit (isNonZSLCaptureRunning st) @ newline @
     ''Current State: '' @ state_digit st @ '' '' @ newline @
     state_line st @ newline"

text \<open>The machine as a step function on events with their payload, and its runs.\<close>

definition sm_step :: "'h env \<Rightarrow> 'h sm \<Rightarrow> qcamera_sm_evt \<times> payload \<Rightarrow> 'h sm" where
  "sm_step E s e = snd (run_state (stateMachine E (fst e) (snd e)) s)"

definition sm_run :: "'h env \<Rightarrow> 'h sm \<Rightarrow> (qcamera_sm_evt \<times> payload) list \<Rightarrow> 'h sm" where
  "sm_run E = foldl (sm_step E)"

lemma run_state_stateMachine [simp]:
  "run_state (stateMachine E evt p) s =
    run_state (case m_state s of
        QCAMERA_SM_STATE_PREVIEW_STOPPED \<Rightarrow> procEvtPreviewStoppedState E evt p
      | QCAMERA_SM_STATE_PREVIEW_READY \<Rightarrow> procEvtPreviewReadyState E evt p
      | QCAMERA_SM_STATE_PREVIEWING \<Rightarrow> procEvtPreviewingState E evt p
      | QCAMERA_SM_STATE_PREPARE_SNAPSHOT \<Rightarrow> procEvtPrepareSnapshotState E evt p
      | QCAMERA_SM_STATE_PIC_TAKING \<Rightarrow> procEvtPicTakingState E evt p
      | QCAMERA_SM_STATE_RECORDING \<Rightarrow> procEvtRecordingState E evt p
      | QCAMERA_SM_STATE_VIDEO_PIC_TAKING \<Rightarrow> procEvtVideoPicTakingState E evt p
      | QCAMERA_SM_STATE_PREVIEW_PIC_TAKING \<Rightarrow> procEvtPreviewPicTakingState E evt p) s"
  by (simp add: stateMachine_def)

text \<open>The eight handlers together.\<close>

lemma stateMachine_ok:
  "handler_ok E (m_state s) evt s (run_state (stateMachine E evt p) s)"
  by (cases "m_state s")
    (simp_all add: stopped_handler_ok ready_handler_ok previewing_handler_ok
      prepare_handler_ok pic_taking_handler_ok recording_handler_ok video_pic_handler_ok
      preview_pic_handler_ok)

lemma recording_state_iff: "recording_state st = isRecording st"
  by (cases st) (simp_all add: recording_state_def)

lemma sm_step_facts:
  shows sm_step_edge: "m_state (sm_step E s (evt, p)) \<in> set (m_state s # sm_edges (m_state s) evt)"
    and sm_step_delay: "delay_inv E s \<Longrightarrow> delay_inv E (sm_step E s (evt, p))"
    and sm_step_guarded: "guarded (m_state s) evt s (sm_step E s (evt, p))"
    and sm_step_rec: "rec_balance (trace (sm_step E s (evt, p))) + of_bool (isRecording (m_state s)) =
      rec_balance (trace s) + of_bool (isRecording (m_state (sm_step E s (evt, p))))"
  using stateMachine_ok [of E s evt p]
  by (simp_all add: handler_ok_def sm_step_def recording_state_iff del: run_state_stateMachine)

section \<open>Invariants of runs\<close>

definition rec_inv :: "'h sm \<Rightarrow> bool" where
  "rec_inv s \<longleftrightarrow> rec_balance (trace s) = of_bool (isRecording (m_state s))"

interpretation cam: event_machine "sm_step E" "\<lambda>s. delay_inv E s \<and> rec_inv s"
  for E :: "'h env"
proof unfold_locales
  fix s and e :: "qcamera_sm_evt \<times> payload"
  assume "delay_inv E s \<and> rec_inv s"
  then show "delay_inv E (sm_step E s e) \<and> rec_inv (sm_step E s e)"
    using sm_step_delay [of E s "fst e" "snd e"] sm_step_rec [of E s "fst e" "snd e"]
    by (simp add: rec_inv_def)
qed

lemma init_inv: "delay_inv E (init_sm h) \<and> rec_inv (init_sm h)"
  by (simp add: delay_inv_def rec_inv_def init_sm_def)

lemma sm_run_inv:
  "delay_inv E (sm_run E (init_sm h) es) \<and> rec_inv (sm_run E (init_sm h) es)"
  unfolding sm_run_def by (rule cam.run_inv [OF init_inv])

section \<open>A scripted parent\<close>

text \<open>
  A parent that answers from a list, and zero (\<open>NO_ERROR\<close>, \<open>false\<close>) when the list is
  used up: the parameter at which the witnesses evaluate the machine. The error codes are
  those of the platform (\<open>-ENOSYS\<close>, \<open>-EINVAL\<close>); the other constants only have to differ.
\<close>

fun script_hw ::
  "qcamera_state \<Rightarrow> hwi_call \<Rightarrow> (int32 \<times> int32) list \<Rightarrow> (int32 \<times> int32) \<times> (int32 \<times> int32) list" where
  "script_hw st c [] = ((0, 0), [])"
| "script_hw st c (r # rs) = (r, rs)"

definition script_env :: "(int32 \<times> int32) list env" where
  "script_env =
    \<lparr>hw = script_hw, VANILLA_HAL = False, INVALID_OPERATION = - 38, BAD_VALUE = - 22,
     CAMERA_MSG_PREVIEW_FRAME = 16, CAMERA_MSG_ERROR = 1, CAMERA_ERROR_SERVER_DIED = 100,
     CAMERA_CMD_LONGSHOT_ON = 22, CAMERA_CMD_LONGSHOT_OFF = 23\<rparr>"

definition script_sm :: "qcamera_state \<Rightarrow> (int32 \<times> int32) list \<Rightarrow> (int32 \<times> int32) list sm" where
  "script_sm st rs =
    \<lparr>m_state = st, m_bDelayPreviewMsgs = False, m_DelayedMsgs = 0, parent = rs, trace = []\<rparr>"

definition test_payload :: payload where
  "test_payload =
    \<lparr>pl_ptr = 64, pl_int32 = 16,
     pl_setcbs = \<lparr>notify_cb = 1, data_cb = 2, data_cb_timestamp = 3, get_memory = 4, user = 5\<rparr>,
     pl_cmd = 23, pl_arg1 = 0, pl_arg2 = 0, pl_img_ptr = 6, pl_config = 7,
     pl_server_event_type = 8, pl_evt_type = QCAMERA_INTERNAL_EVT_PREP_SNAPSHOT_DONE,
     pl_evt_data = 9\<rparr>"

lemmas script_simps = script_env_def script_sm_def test_payload_def sm_step_def
  handler_simps preview_defs apply_delayed_def applyDelayedMsgs_def daemon_died_def
  NO_ERROR_def

end
