(* ===== verification/CamProtocol.thy ===== *)
theory CamProtocol
  imports CamStateMachine
begin

text \<open>
  Protocols that span several events of the camera state machine: the requests each state
  refuses, the preparation of a preview before it is started, the snapshot that is answered
  by a later event, and the preview messages that are enabled late. Everything is defined
  on the trace of calls and results, not on the handlers.
\<close>

lemmas take_picture_defs = previewing_take_picture_def previewing_zsl_picture_def
  previewing_capture_def previewing_live_snapshot_def

lemmas handler_parts = previewing_send_command_def
  pic_taking_snapshot_done_def pic_taking_stop_capture_channel_def pic_taking_notify_def
  preview_pic_stop_preview_def preview_pic_start_recording_def preview_pic_snapshot_done_def

section \<open>A reply for every edge of the automaton\<close>

definition edge_script ::
  "qcamera_state \<Rightarrow> qcamera_sm_evt \<Rightarrow> qcamera_state \<Rightarrow> (int32 \<times> int32) list" where
  "edge_script st evt st' =
    (if evt = QCAMERA_SM_EVT_SET_PARAMS then [(0, 1), (0, 0), (0, 0), (0, 0), (1, 0)]
     else if evt = QCAMERA_SM_EVT_START_PREVIEW then
       (if st' = QCAMERA_SM_STATE_PREVIEWING then [(1, 0)] else [])
     else if evt = QCAMERA_SM_EVT_SET_PREVIEW_WINDOW then
       (if st' = QCAMERA_SM_STATE_PREVIEWING then [(0, 0), (1, 0)] else [(0, 0), (1, 0), (1, 0)])
     else if evt = QCAMERA_SM_EVT_TAKE_PICTURE then
       (if st' = QCAMERA_SM_STATE_PREVIEW_PIC_TAKING then [(1, 0)]
        else if st' = QCAMERA_SM_STATE_PREVIEW_STOPPED then [(0, 0), (0, 0), (0, 0), (1, 0)]
        else [])
     else if evt = QCAMERA_SM_EVT_SNAPSHOT_DONE \<and> st = QCAMERA_SM_STATE_PIC_TAKING \<and>
       st' = QCAMERA_SM_STATE_PREVIEWING then [(0, 0), (1, 0)]
     else [])"

lemma edge_taken:
  "st' \<in> set (sm_edges st evt) \<Longrightarrow>
   m_state (sm_step script_env (script_sm st (edge_script st evt st')) (evt, test_payload)) = st'"
  by (cases st; cases evt)
    (auto simp: script_simps edge_script_def take_picture_defs handler_parts)

lemma edges_irrefl: "st \<notin> set (sm_edges st evt)"
  by (cases st; cases evt) simp_all

section \<open>Postponed answers\<close>

lemma zsl_picture_silent:
  "api_signals (trace (snd (run_state (previewing_zsl_picture E) s))) = api_signals (trace s) \<Longrightarrow>
   m_state (snd (run_state (previewing_zsl_picture E) s)) = QCAMERA_SM_STATE_PREVIEW_PIC_TAKING"
  by (simp add: previewing_zsl_picture_def handler_simps split: if_splits)

lemma capture_not_silent:
  assumes "api_signals (trace s) = xs"
  shows "api_signals (trace (snd (run_state (previewing_capture E) s))) \<noteq> xs"
    "api_signals (trace (snd (run_state (previewing_live_snapshot E) s))) \<noteq> xs"
    "api_signals (trace (snd (run_state (previewing_zsl_picture E) s))) = xs \<Longrightarrow>
     m_state (snd (run_state (previewing_zsl_picture E) s)) = QCAMERA_SM_STATE_PREVIEW_PIC_TAKING"
  using assms zsl_picture_silent [of E s]
  by (auto simp: previewing_capture_def previewing_live_snapshot_def handler_simps)

lemma take_picture_silent:
  assumes "api_signals (trace (snd (run_state (previewing_take_picture E) s))) =
    api_signals (trace s)"
  shows "m_state (snd (run_state (previewing_take_picture E) s)) =
    QCAMERA_SM_STATE_PREVIEW_PIC_TAKING"
  using assms
  by (simp add: previewing_take_picture_def capture_not_silent split: if_splits)

lemma postponed_silent:
  assumes "postponed (m_state s) evt"
    and "api_signals (trace (sm_step E s (evt, p))) = api_signals (trace s)"
  shows
    "(m_state s = QCAMERA_SM_STATE_PREVIEWING \<and> evt = QCAMERA_SM_EVT_PREPARE_SNAPSHOT \<and>
        m_state (sm_step E s (evt, p)) = QCAMERA_SM_STATE_PREPARE_SNAPSHOT) \<or>
     (m_state s = QCAMERA_SM_STATE_PREVIEWING \<and> evt = QCAMERA_SM_EVT_TAKE_PICTURE \<and>
        m_state (sm_step E s (evt, p)) = QCAMERA_SM_STATE_PREVIEW_PIC_TAKING) \<or>
     (m_state s = QCAMERA_SM_STATE_PREVIEW_PIC_TAKING \<and>
        evt = QCAMERA_SM_EVT_PREPARE_SNAPSHOT \<and>
        m_state (sm_step E s (evt, p)) = QCAMERA_SM_STATE_PREVIEW_PIC_TAKING) \<or>
     (m_state s = QCAMERA_SM_STATE_PREPARE_SNAPSHOT \<and> evt = QCAMERA_SM_EVT_REG_FACE_IMAGE \<and>
        sm_step E s (evt, p) = s)"
proof -
  consider
      "m_state s = QCAMERA_SM_STATE_PREVIEWING" "evt = QCAMERA_SM_EVT_TAKE_PICTURE"
    | "m_state s = QCAMERA_SM_STATE_PREVIEWING" "evt = QCAMERA_SM_EVT_PREPARE_SNAPSHOT"
    | "m_state s = QCAMERA_SM_STATE_PREVIEW_PIC_TAKING" "evt = QCAMERA_SM_EVT_PREPARE_SNAPSHOT"
    | "m_state s = QCAMERA_SM_STATE_PREPARE_SNAPSHOT" "evt = QCAMERA_SM_EVT_REG_FACE_IMAGE"
    using assms(1) unfolding postponed_def by blast
  then show ?thesis
    using assms(2) take_picture_silent
    by cases (simp_all add: sm_step_def handler_simps split: if_splits)
qed

section \<open>Refused requests\<close>

text \<open>
  The requests a state refuses without looking at anything but the state, and what a
  refusal does: it signals \<open>INVALID_OPERATION\<close> and changes nothing else.
\<close>

fun sm_rejects :: "qcamera_state \<Rightarrow> qcamera_sm_evt list" where
  "sm_rejects QCAMERA_SM_STATE_PREVIEW_STOPPED =
    [QCAMERA_SM_EVT_START_RECORDING, QCAMERA_SM_EVT_STOP_RECORDING,
     QCAMERA_SM_EVT_PREPARE_SNAPSHOT, QCAMERA_SM_EVT_TAKE_PICTURE]"
| "sm_rejects QCAMERA_SM_STATE_PREVIEW_READY =
    [QCAMERA_SM_EVT_START_NODISPLAY_PREVIEW, QCAMERA_SM_EVT_START_RECORDING,
     QCAMERA_SM_EVT_STOP_RECORDING, QCAMERA_SM_EVT_PREPARE_SNAPSHOT,
     QCAMERA_SM_EVT_TAKE_PICTURE, QCAMERA_SM_EVT_CANCEL_PICTURE, QCAMERA_SM_EVT_RELEASE]"
| "sm_rejects QCAMERA_SM_STATE_PREVIEWING =
    [QCAMERA_SM_EVT_SET_PREVIEW_WINDOW, QCAMERA_SM_EVT_CANCEL_PICTURE,
     QCAMERA_SM_EVT_STOP_RECORDING, QCAMERA_SM_EVT_RELEASE]"
| "sm_rejects QCAMERA_SM_STATE_PREPARE_SNAPSHOT =
    [QCAMERA_SM_EVT_SET_PREVIEW_WINDOW, QCAMERA_SM_EVT_SET_CALLBACKS,
     QCAMERA_SM_EVT_ENABLE_MSG_TYPE, QCAMERA_SM_EVT_DISABLE_MSG_TYPE,
     QCAMERA_SM_EVT_MSG_TYPE_ENABLED, QCAMERA_SM_EVT_SET_PARAMS, QCAMERA_SM_EVT_GET_PARAMS,
     QCAMERA_SM_EVT_PUT_PARAMS, QCAMERA_SM_EVT_START_PREVIEW,
     QCAMERA_SM_EVT_START_NODISPLAY_PREVIEW, QCAMERA_SM_EVT_STOP_PREVIEW,
     QCAMERA_SM_EVT_PREVIEW_ENABLED, QCAMERA_SM_EVT_STORE_METADATA_IN_BUFS,
     QCAMERA_SM_EVT_START_RECORDING, QCAMERA_SM_EVT_STOP_RECORDING,
     QCAMERA_SM_EVT_RECORDING_ENABLED, QCAMERA_SM_EVT_RELEASE_RECORIDNG_FRAME,
     QCAMERA_SM_EVT_PREPARE_SNAPSHOT, QCAMERA_SM_EVT_TAKE_PICTURE,
     QCAMERA_SM_EVT_CANCEL_PICTURE, QCAMERA_SM_EVT_START_AUTO_FOCUS,
     QCAMERA_SM_EVT_STOP_AUTO_FOCUS, QCAMERA_SM_EVT_SEND_COMMAND, QCAMERA_SM_EVT_RELEASE,
     QCAMERA_SM_EVT_DUMP]"
| "sm_rejects QCAMERA_SM_STATE_PIC_TAKING =
    [QCAMERA_SM_EVT_SET_PREVIEW_WINDOW, QCAMERA_SM_EVT_START_PREVIEW,
     QCAMERA_SM_EVT_START_NODISPLAY_PREVIEW, QCAMERA_SM_EVT_START_RECORDING,
     QCAMERA_SM_EVT_STOP_RECORDING, QCAMERA_SM_EVT_RELEASE_RECORIDNG_FRAME,
     QCAMERA_SM_EVT_PREPARE_SNAPSHOT, QCAMERA_SM_EVT_RELEASE]"
| "sm_rejects QCAMERA_SM_STATE_RECORDING =
    [QCAMERA_SM_EVT_START_NODISPLAY_PREVIEW, QCAMERA_SM_EVT_CANCEL_PICTURE,
     QCAMERA_SM_EVT_RELEASE]"
| "sm_rejects QCAMERA_SM_STATE_VIDEO_PIC_TAKING =
    [QCAMERA_SM_EVT_SET_PREVIEW_WINDOW, QCAMERA_SM_EVT_START_PREVIEW,
     QCAMERA_SM_EVT_START_NODISPLAY_PREVIEW, QCAMERA_SM_EVT_START_RECORDING,
     QCAMERA_SM_EVT_PREPARE_SNAPSHOT, QCAMERA_SM_EVT_TAKE_PICTURE, QCAMERA_SM_EVT_RELEASE]"
| "sm_rejects QCAMERA_SM_STATE_PREVIEW_PIC_TAKING =
    [QCAMERA_SM_EVT_SET_PREVIEW_WINDOW, QCAMERA_SM_EVT_START_PREVIEW,
     QCAMERA_SM_EVT_START_NODISPLAY_PREVIEW, QCAMERA_SM_EVT_STOP_RECORDING,
     QCAMERA_SM_EVT_RELEASE]"

definition rejected :: "'h env \<Rightarrow> qcamera_sm_evt \<Rightarrow> 'h sm \<Rightarrow> 'h sm" where
  "rejected E evt s = s\<lparr>trace := trace s @
     [SigAPI \<lparr>status = INVALID_OPERATION E, request_api = evt,
        result_value = RESULT_TYPE_DEF\<rparr>]\<rparr>"

lemma sm_rejects_step:
  "evt \<in> set (sm_rejects (m_state s)) \<Longrightarrow> sm_step E s (evt, p) = rejected E evt s"
  by (cases "m_state s") (auto simp: sm_step_def handler_simps rejected_def)

lemma sm_rejects_only:
  "evt \<notin> set (sm_rejects st) \<Longrightarrow>
   trace (sm_step script_env (script_sm st []) (evt, test_payload)) \<noteq>
   [SigAPI \<lparr>status = - 38, request_api = evt, result_value = RESULT_TYPE_DEF\<rparr>]"
  by (cases st; cases evt)
    (simp_all add: script_simps take_picture_defs handler_parts)

section \<open>Preparing a preview\<close>

text \<open>
  A scan of the trace: whether a preview is prepared after it, and \<open>None\<close> once a preview was
  started that had not been prepared.
\<close>

definition prep_scan :: "bool option \<Rightarrow> action \<Rightarrow> bool option" where
  "prep_scan b a = (case (b, a) of
       (Some prepared, Call c rc) \<Rightarrow>
         if c = HWI_preparePreview then Some (rc = NO_ERROR)
         else if c = HWI_unpreparePreview \<or> c = HWI_stopPreview then Some False
         else if c = HWI_startPreview then (if prepared then Some True else None)
         else Some prepared
     | _ \<Rightarrow> b)"

definition prep_status :: "action list \<Rightarrow> bool option" where
  "prep_status = foldl prep_scan (Some False)"

lemma prep_status_simps [simp]:
  "prep_status (as @ bs) = foldl prep_scan (prep_status as) bs"
  "prep_status [] = Some False"
  "prep_scan (Some b) (Call c rc) = 
     (if c = HWI_preparePreview then Some (rc = NO_ERROR)
         else if c = HWI_unpreparePreview \<or> c = HWI_stopPreview then Some False
         else if c = HWI_startPreview then (if b then Some True else None)
         else Some b)"
  "c \<noteq> HWI_preparePreview \<and> c \<noteq> HWI_unpreparePreview \<and> c \<noteq> HWI_stopPreview \<and>
   c \<noteq> HWI_startPreview \<Longrightarrow> prep_scan ob (Call c rc) = ob"
  "prep_scan ob (SigAPI r) = ob"
  "prep_scan ob (SigEvt r) = ob"
  by (auto simp: prep_status_def prep_scan_def split: option.splits)

definition prep_inv :: "'h sm \<Rightarrow> bool" where
  "prep_inv s \<longleftrightarrow> (case prep_status (trace s) of None \<Rightarrow> False
      | Some b \<Rightarrow> m_state s = QCAMERA_SM_STATE_PREVIEW_READY \<longrightarrow> b)"

lemma prep_frames [simp]:
  "prep_status (trace (snd (run_state (apply_delayed E) s))) = prep_status (trace s)"
  "prep_status (trace (snd (run_state (daemon_died E) s))) = prep_status (trace s)"
  by (simp_all add: apply_delayed_def applyDelayedMsgs_def daemon_died_def)

lemma prep_start [simp]:
  "prep_status (trace (snd (run_state (start_prepared_preview E) s))) =
     Some (fst (run_state (start_prepared_preview E) s) = NO_ERROR)"
  if "prep_status (trace s) = Some True"
  using that
  by (simp add: start_prepared_preview_def split_beta)

lemma prep_prepare [simp]:
  "prep_status (trace (snd (run_state (prepare_and_start_preview E) s))) =
     Some (fst (run_state (prepare_and_start_preview E) s) = NO_ERROR)"
  if "prep_status (trace s) \<noteq> None"
  using that
  by (auto simp: prepare_and_start_preview_def)

lemma prep_picture [simp]:
  assumes "prep_status (trace s) = Some b"
  shows "prep_inv (snd (run_state (previewing_zsl_picture E) s))"
    "prep_inv (snd (run_state (previewing_capture E) s))"
    "prep_inv (snd (run_state (previewing_live_snapshot E) s))"
  using assms
  by (simp_all add: previewing_zsl_picture_def previewing_capture_def
      previewing_live_snapshot_def handler_simps prep_inv_def)

lemma prep_take_picture [simp]:
  "prep_inv (snd (run_state (previewing_take_picture E) s))"
  if "prep_status (trace s) = Some b"
  using that by (auto simp: previewing_take_picture_def intro!: prep_picture [of _ b])

lemma prep_inv_internal:
  assumes "prep_inv s"
  shows "prep_inv (sm_step E s (QCAMERA_SM_EVT_EVT_INTERNAL, p))"
proof -
  obtain b where "prep_status (trace s) = Some b"
    "m_state s = QCAMERA_SM_STATE_PREVIEW_READY \<Longrightarrow> b"
    using assms by (auto simp: prep_inv_def split: option.splits)
  then show ?thesis
    by (cases "m_state s"; cases "pl_evt_type p")
      (simp_all add: sm_step_def handler_simps prep_inv_def)
qed

lemma prep_inv_step:
  assumes "prep_inv s"
  shows "prep_inv (sm_step E s (evt, p))"
proof -
  obtain b where b: "prep_status (trace s) = Some b"
    "m_state s = QCAMERA_SM_STATE_PREVIEW_READY \<Longrightarrow> b"
    using assms by (auto simp: prep_inv_def split: option.splits)
  consider "evt = QCAMERA_SM_EVT_EVT_INTERNAL"
    | "m_state s = QCAMERA_SM_STATE_PREVIEWING" "evt = QCAMERA_SM_EVT_TAKE_PICTURE"
    | "evt \<noteq> QCAMERA_SM_EVT_EVT_INTERNAL"
      "m_state s \<noteq> QCAMERA_SM_STATE_PREVIEWING \<or> evt \<noteq> QCAMERA_SM_EVT_TAKE_PICTURE"
    by blast
  then show ?thesis
  proof cases
    case 1
    then show ?thesis using prep_inv_internal [OF assms] by simp
  next
    case 2
    then show ?thesis using b by (simp add: sm_step_def)
  next
    case 3
    then show ?thesis using b
      by (cases "m_state s"; cases evt)
        (simp_all add: sm_step_def handler_simps prep_inv_def handler_parts)
  qed
qed

interpretation prep: event_machine "sm_step E" prep_inv for E :: "'h env"
  by unfold_locales (metis prep_inv_step surj_pair)

lemma prep_run: "prep_inv (sm_run E (init_sm h) es)"
  using prep.run_inv [of "init_sm h" E es] by (simp add: sm_run_def prep_inv_def init_sm_def)

lemma prep_scan_None [simp]: "foldl prep_scan None as = None"
  by (induction as) (simp_all add: prep_scan_def)

lemma prep_status_start:
  assumes "prep_status (pre @ Call HWI_startPreview rc # post) \<noteq> None"
  shows "prep_status pre = Some True"
  using assms by (cases "prep_status pre") (auto simp: prep_scan_def split: if_splits)

lemma prep_status_True:
  assumes "prep_status pre = Some True"
  shows "\<exists>as bs. pre = as @ Call HWI_preparePreview NO_ERROR # bs \<and>
    (\<forall>rc. Call HWI_unpreparePreview rc \<notin> set bs \<and> Call HWI_stopPreview rc \<notin> set bs)"
  using assms
proof (induction pre rule: rev_induct)
  case (snoc a pre)
  show ?case
  proof (cases "prep_status pre = Some True \<and>
      (\<forall>rc. a \<noteq> Call HWI_unpreparePreview rc \<and> a \<noteq> Call HWI_stopPreview rc)")
    case True
    then obtain as bs where "pre = as @ Call HWI_preparePreview NO_ERROR # bs"
      "\<forall>rc. Call HWI_unpreparePreview rc \<notin> set bs \<and> Call HWI_stopPreview rc \<notin> set bs"
      using snoc.IH by blast
    then show ?thesis using True
      by (intro exI [of _ as] exI [of _ "bs @ [a]"]) auto
  next
    case False
    then have "a = Call HWI_preparePreview NO_ERROR"
      using snoc.prems
      by (auto simp: prep_scan_def split: option.splits action.splits if_splits)
    then show ?thesis by (intro exI [of _ pre] exI [of _ "[]"]) simp
  qed
qed simp

section \<open>Preparing a snapshot\<close>

text \<open>The event that ends the preparation, and the results that report its success.\<close>

definition is_prep_done :: "qcamera_sm_evt \<times> payload \<Rightarrow> bool" where
  "is_prep_done e \<longleftrightarrow> fst e = QCAMERA_SM_EVT_EVT_INTERNAL \<and>
     pl_evt_type (snd e) = QCAMERA_INTERNAL_EVT_PREP_SNAPSHOT_DONE"

definition is_prepared_result :: "qcamera_api_result \<Rightarrow> bool" where
  "is_prepared_result r \<longleftrightarrow> request_api r = QCAMERA_SM_EVT_PREPARE_SNAPSHOT \<and> status r = NO_ERROR"

definition prepared_results :: "'h sm \<Rightarrow> qcamera_api_result list" where
  "prepared_results s = filter is_prepared_result (api_signals (trace s))"

lemma prepare_waits_step:
  assumes "m_state s = QCAMERA_SM_STATE_PREPARE_SNAPSHOT" "\<not> is_prep_done e"
    and "INVALID_OPERATION E \<noteq> NO_ERROR"
  shows "m_state (sm_step E s e) = QCAMERA_SM_STATE_PREPARE_SNAPSHOT \<and>
     prepared_results (sm_step E s e) = prepared_results s"
proof -
  obtain evt p where e: "e = (evt, p)" by fastforce
  show ?thesis
  proof (cases "evt = QCAMERA_SM_EVT_EVT_INTERNAL")
    case True
    then show ?thesis using assms e
      by (cases "pl_evt_type p") 
        (simp_all add: is_prep_done_def sm_step_def handler_simps prepared_results_def)
  next
    case False
    then show ?thesis using assms e
      by (cases evt) (simp_all add: is_prep_done_def sm_step_def handler_simps
        prepared_results_def is_prepared_result_def)
  qed
qed

lemma prepare_waits:
  assumes "m_state s = QCAMERA_SM_STATE_PREPARE_SNAPSHOT" "list_all (\<lambda>e. \<not> is_prep_done e) es"
    and "INVALID_OPERATION E \<noteq> NO_ERROR"
  shows "m_state (sm_run E s es) = QCAMERA_SM_STATE_PREPARE_SNAPSHOT \<and>
     prepared_results (sm_run E s es) = prepared_results s"
  using assms(1,2)
  by (induction es arbitrary: s) (simp_all add: sm_run_def prepare_waits_step [OF _ _ assms(3)])

section \<open>Further specifications\<close>

text \<open>What an internal event answers while a retro-active picture may be taken.\<close>

definition retro_results :: "int32 \<Rightarrow> qcamera_internal_evt_type \<Rightarrow> qcamera_api_result list" where
  "retro_results retro t =
    (if retro = 0 then []
     else if t = QCAMERA_INTERNAL_EVT_READY_FOR_SNAPSHOT then
       [\<lparr>status = NO_ERROR, request_api = QCAMERA_SM_EVT_TAKE_PICTURE,
         result_value = RESULT_TYPE_DEF\<rparr>]
     else if t = QCAMERA_INTERNAL_EVT_PREP_SNAPSHOT_DONE then
       [\<lparr>status = NO_ERROR, request_api = QCAMERA_SM_EVT_PREPARE_SNAPSHOT,
         result_value = RESULT_TYPE_DEF\<rparr>]
     else [])"

text \<open>What the machine asks of the parent when the camera daemon died.\<close>

definition daemon_death_calls :: "'h env \<Rightarrow> int32 \<Rightarrow> hwi_call list" where
  "daemon_death_calls E handle = HWI_get_mCameraHandle_ops #
     (if handle \<noteq> 0 then [HWI_error_close_camera] else []) @
     [HWI_sendEvtNotify (CAMERA_MSG_ERROR E) (CAMERA_ERROR_SERVER_DIED E) 0]"

text \<open>The flag the two state queries report.\<close>

definition flag_of :: "qcamera_state \<Rightarrow> qcamera_sm_evt \<Rightarrow> int32" where
  "flag_of st evt = of_bool (if evt = QCAMERA_SM_EVT_RECORDING_ENABLED then isRecording st
     else isPreviewRunning st \<and> st \<noteq> QCAMERA_SM_STATE_RECORDING)"

text \<open>
  The preview-frame message among those to enable; the parent's reply to
  \<open>updateParameters\<close> (status, restart needed).
\<close>

definition frame_msgs :: "'h env \<Rightarrow> payload \<Rightarrow> int32" where
  "frame_msgs E p = and (pl_int32 p) (CAMERA_MSG_PREVIEW_FRAME E)"

lemma enable_delayed_step:
  assumes "m_state s = QCAMERA_SM_STATE_PREVIEWING" "m_bDelayPreviewMsgs s"
    and "frame_msgs E p \<noteq> 0"
  shows "m_state (sm_step E s (QCAMERA_SM_EVT_ENABLE_MSG_TYPE, p)) = QCAMERA_SM_STATE_PREVIEWING"
    "m_bDelayPreviewMsgs (sm_step E s (QCAMERA_SM_EVT_ENABLE_MSG_TYPE, p))"
    "m_DelayedMsgs (sm_step E s (QCAMERA_SM_EVT_ENABLE_MSG_TYPE, p)) = CAMERA_MSG_PREVIEW_FRAME E"
    "hwi_calls (trace (sm_step E s (QCAMERA_SM_EVT_ENABLE_MSG_TYPE, p))) =
      hwi_calls (trace s) @
      [HWI_enableMsgType (and (pl_int32 p) (not (CAMERA_MSG_PREVIEW_FRAME E)))]"
  using assms by (simp_all add: sm_step_def handler_simps frame_msgs_def)

lemma frame_nonzero: "frame_msgs E p \<noteq> 0 \<Longrightarrow> CAMERA_MSG_PREVIEW_FRAME E \<noteq> 0"
  by (auto simp: frame_msgs_def)

definition update_reply :: "'h env \<Rightarrow> 'h sm \<Rightarrow> payload \<Rightarrow> int32 \<times> int32" where
  "update_reply E s p = fst (hw E (m_state s) (HWI_updateParameters (pl_ptr p)) (parent s))"

lemma prepare_and_start_calls:
  "\<exists>cs. hwi_calls (trace (snd (run_state (prepare_and_start_preview E) s))) =
    hwi_calls (trace s) @ HWI_preparePreview # cs"
  by (simp add: prepare_and_start_preview_def start_prepared_preview_def apply_delayed_def
    applyDelayedMsgs_def split_beta)

lemma prepare_and_start_calls_after:
  assumes "hwi_calls (trace s') = cs @ ds"
  shows "\<exists>es. hwi_calls (trace (snd (run_state (prepare_and_start_preview E) s'))) =
    cs @ ds @ HWI_preparePreview # es"
  using prepare_and_start_calls [of E s'] assms by auto

end
