(* ===== verification/CamProps.thy ===== *)
theory CamProps
  imports CamProtocol
begin

text \<open>
  The properties of the camera state machine, each over the whole machine: over one event in
  any state, or over any run from the constructor's state. The parent
  (\<open>QCamera2HardwareInterface\<close>, the daemon and the hardware) is arbitrary in every one.
\<close>

section \<open>States and answers\<close>

text \<open>
  C1: the machine changes its state exactly along the automaton \<open>sm_edges\<close>: an event leads
  from \<open>st\<close> to another state \<open>st'\<close> for some answers of the parent if and only if \<open>st'\<close> is
  listed there.
\<close>

theorem sm_automaton_exact:
  "st' \<in> set (sm_edges st evt) \<longleftrightarrow>
     st' \<noteq> st \<and>
     (\<exists>(E :: (int32 \<times> int32) list env) p s. m_state s = st \<and> m_state (sm_step E s (evt, p)) = st')"
proof
  assume "st' \<in> set (sm_edges st evt)"
  then show "st' \<noteq> st \<and>
     (\<exists>(E :: (int32 \<times> int32) list env) p s. m_state s = st \<and> m_state (sm_step E s (evt, p)) = st')"
    using edge_taken [of st' st evt] edges_irrefl [of st evt]
    by (metis script_sm_def sm.select_convs(1))
next
  assume "st' \<noteq> st \<and>
     (\<exists>(E :: (int32 \<times> int32) list env) p s. m_state s = st \<and> m_state (sm_step E s (evt, p)) = st')"
  then show "st' \<in> set (sm_edges st evt)"
    using sm_step_edge by fastforce
qed

text \<open>
  C14: an API event that the current state does not postpone is answered exactly once,
  for this event and with the status the handler returned, whatever the parent does.
\<close>

theorem sm_api_answered:
  assumes "is_api_evt evt" and "\<not> postponed (m_state s) evt"
  shows "\<exists>v. api_signals (trace (sm_step E s (evt, p))) = api_signals (trace s) @
    [\<lparr>status = fst (run_state (stateMachine E evt p) s), request_api = evt, result_value = v\<rparr>]"
  using stateMachine_ok [of E s evt p] assms
  by (simp add: handler_ok_def answers_def sm_step_def del: run_state_stateMachine)

theorem sm_api_answered_witness:
  "\<exists>v. api_signals (trace (sm_step script_env (script_sm QCAMERA_SM_STATE_PREVIEWING [])
      (QCAMERA_SM_EVT_START_RECORDING, test_payload))) =
    [\<lparr>status = 0, request_api = QCAMERA_SM_EVT_START_RECORDING, result_value = v\<rparr>]"
  using sm_api_answered [of QCAMERA_SM_EVT_START_RECORDING
      "script_sm QCAMERA_SM_STATE_PREVIEWING []" script_env test_payload]
  by (simp add: is_api_evt_def postponed_def script_simps)

text \<open>
  C32: an API event is left without an answer in four situations only: a snapshot
  preparation that was started, a retro-active picture that was started, a preparation
  during such a picture, and a face image registered while a snapshot is prepared; the last
  one changes nothing, so that no later event answers it.
\<close>

theorem sm_unanswered_cases:
  assumes "is_api_evt evt"
    and "api_signals (trace (sm_step E s (evt, p))) = api_signals (trace s)"
  shows
    "(m_state s = QCAMERA_SM_STATE_PREVIEWING \<and> evt = QCAMERA_SM_EVT_PREPARE_SNAPSHOT \<and>
        m_state (sm_step E s (evt, p)) = QCAMERA_SM_STATE_PREPARE_SNAPSHOT) \<or>
     (m_state s = QCAMERA_SM_STATE_PREVIEWING \<and> evt = QCAMERA_SM_EVT_TAKE_PICTURE \<and>
        m_state (sm_step E s (evt, p)) = QCAMERA_SM_STATE_PREVIEW_PIC_TAKING) \<or>
     (m_state s = QCAMERA_SM_STATE_PREVIEW_PIC_TAKING \<and>
        evt = QCAMERA_SM_EVT_PREPARE_SNAPSHOT \<and>
        m_state (sm_step E s (evt, p)) = QCAMERA_SM_STATE_PREVIEW_PIC_TAKING) \<or>
     (m_state s = QCAMERA_SM_STATE_PREPARE_SNAPSHOT \<and> evt = QCAMERA_SM_EVT_REG_FACE_IMAGE \<and>
        sm_step E s (evt, p) = s)"
proof -
  have "postponed (m_state s) evt"
    using stateMachine_ok [of E s evt p] assms
    by (auto simp: handler_ok_def answers_def sm_step_def simp del: run_state_stateMachine)
  then show ?thesis using assms(2) by (rule postponed_silent)
qed

theorem sm_unanswered_cases_witness:
  "m_state (sm_step script_env (script_sm QCAMERA_SM_STATE_PREVIEWING [(0, 0), (1, 0), (0, 0), (1, 0)])
    (QCAMERA_SM_EVT_TAKE_PICTURE, test_payload)) = QCAMERA_SM_STATE_PREVIEW_PIC_TAKING"
  using sm_unanswered_cases [of QCAMERA_SM_EVT_TAKE_PICTURE script_env
      "script_sm QCAMERA_SM_STATE_PREVIEWING [(0, 0), (1, 0), (0, 0), (1, 0)]" test_payload]
  by (simp add: is_api_evt_def script_simps take_picture_defs)

text \<open>
  C16: in every run the recordings started with success and not yet stopped are one in
  the recording states and none in the others: the machine never starts a second recording
  and never leaves one running behind.
\<close>

theorem sm_recording_balanced:
  "rec_balance (trace (sm_run E (init_sm h) es)) = of_bool (isRecording (m_state (sm_run E (init_sm h) es)))"
  using sm_run_inv [of E h es] by (simp add: rec_inv_def)

text \<open>
  C18: in every run, a preview is started only after it was prepared with success and
  neither unprepared nor stopped in between.
\<close>

theorem sm_preview_prepared_before_start:
  assumes "trace (sm_run E (init_sm h) es) = pre @ Call HWI_startPreview rc # post"
  shows "\<exists>as bs. pre = as @ Call HWI_preparePreview NO_ERROR # bs \<and>
    (\<forall>rc. Call HWI_unpreparePreview rc \<notin> set bs \<and> Call HWI_stopPreview rc \<notin> set bs)"
  using prep_run [of E h es] assms
  by (intro prep_status_True prep_status_start [of _ rc post])
    (auto simp: prep_inv_def split: option.splits)

theorem sm_preview_prepared_before_start_witness:
  "\<exists>as bs. [Call HWI_get_mPreviewWindow 1, Call HWI_preparePreview 0] =
    as @ Call HWI_preparePreview NO_ERROR # bs"
proof -
  have "trace (sm_run script_env (init_sm [(1, 0)]) [(QCAMERA_SM_EVT_START_PREVIEW, test_payload)]) =
    [Call HWI_get_mPreviewWindow 1, Call HWI_preparePreview 0] @ Call HWI_startPreview 0 #
    [SigAPI \<lparr>status = 0, request_api = QCAMERA_SM_EVT_START_PREVIEW,
      result_value = RESULT_TYPE_DEF\<rparr>]"
    by (simp add: sm_run_def init_sm_def script_simps)
  from sm_preview_prepared_before_start [OF this] show ?thesis by blast
qed

text \<open>
  a snapshot preparation that the parent starts is answered by the event that ends
  it and by no other: whatever events arrive in between, the machine waits in
  \<open>PREPARE_SNAPSHOT\<close> and reports no success; the end of the preparation reports it once and
  the preview goes on.
\<close>

lemma sm_prepare_snapshot_protocol:
  assumes "m_state s = QCAMERA_SM_STATE_PREVIEWING"
    and "fst (fst (hw E QCAMERA_SM_STATE_PREVIEWING (HWI_prepareHardwareForSnapshot False)
      (parent s))) = NO_ERROR"
    and "list_all (\<lambda>e. \<not> is_prep_done e) es" and "is_prep_done d"
    and "INVALID_OPERATION E \<noteq> NO_ERROR"
  shows "m_state (sm_run E s ((QCAMERA_SM_EVT_PREPARE_SNAPSHOT, p) # es)) =
      QCAMERA_SM_STATE_PREPARE_SNAPSHOT \<and>
    prepared_results (sm_run E s ((QCAMERA_SM_EVT_PREPARE_SNAPSHOT, p) # es)) =
      prepared_results s \<and>
    m_state (sm_run E s ((QCAMERA_SM_EVT_PREPARE_SNAPSHOT, p) # es @ [d])) =
      QCAMERA_SM_STATE_PREVIEWING \<and>
    prepared_results (sm_run E s ((QCAMERA_SM_EVT_PREPARE_SNAPSHOT, p) # es @ [d])) =
      prepared_results s @ [\<lparr>status = NO_ERROR, request_api = QCAMERA_SM_EVT_PREPARE_SNAPSHOT,
        result_value = RESULT_TYPE_DEF\<rparr>]"
proof -
  let ?s1 = "sm_step E s (QCAMERA_SM_EVT_PREPARE_SNAPSHOT, p)"
  let ?s2 = "sm_run E ?s1 es"
  have s1: "m_state ?s1 = QCAMERA_SM_STATE_PREPARE_SNAPSHOT \<and> prepared_results ?s1 = prepared_results s"
    using assms(1,2) by (simp add: sm_step_def handler_simps prepared_results_def)
  have s2: "m_state ?s2 = QCAMERA_SM_STATE_PREPARE_SNAPSHOT \<and> prepared_results ?s2 = prepared_results s"
    using prepare_waits [OF _ assms(3,5)] s1 by metis
  have "m_state (sm_step E ?s2 d) = QCAMERA_SM_STATE_PREVIEWING \<and>
    prepared_results (sm_step E ?s2 d) = prepared_results s @ 
     [\<lparr>status = NO_ERROR, request_api = QCAMERA_SM_EVT_PREPARE_SNAPSHOT,
        result_value = RESULT_TYPE_DEF\<rparr>]"
    using s2 assms(4) by (simp add: is_prep_done_def sm_step_def handler_simps prepared_results_def is_prepared_result_def)
  then show ?thesis using s2 by (simp add: sm_run_def)
qed

lemma sm_prepare_snapshot_protocol_example:
  "m_state (sm_run script_env (script_sm QCAMERA_SM_STATE_PREVIEWING [])
      [(QCAMERA_SM_EVT_PREPARE_SNAPSHOT, test_payload), (QCAMERA_SM_EVT_DUMP, test_payload)]) =
      QCAMERA_SM_STATE_PREPARE_SNAPSHOT \<and>
   m_state (sm_run script_env (script_sm QCAMERA_SM_STATE_PREVIEWING [])
      [(QCAMERA_SM_EVT_PREPARE_SNAPSHOT, test_payload), (QCAMERA_SM_EVT_DUMP, test_payload),
       (QCAMERA_SM_EVT_EVT_INTERNAL, test_payload)]) =
      QCAMERA_SM_STATE_PREVIEWING"
  using sm_prepare_snapshot_protocol [of "script_sm QCAMERA_SM_STATE_PREVIEWING []" script_env
      "[(QCAMERA_SM_EVT_DUMP, test_payload)]" "(QCAMERA_SM_EVT_EVT_INTERNAL, test_payload)"
      test_payload]
  by (simp add: is_prep_done_def script_env_def script_sm_def test_payload_def NO_ERROR_def)

text \<open>
  C33: the requests a state refuses unconditionally and without any other effect are exactly those
  of the table \<open>sm_rejects\<close>: an event does nothing but signal \<open>INVALID_OPERATION\<close>, whatever the parent,
  the payload and the rest of the machine's state, if and only if the table lists it for the state.
  Two kinds of refusals are not in the table: those that the parent's answers decide (as
  \<open>TAKE_PICTURE\<close> without long shot in \<open>PIC_TAKING\<close>), and \<open>RELEASE_RECORIDNG_FRAME\<close> with the preview
  stopped, ready or running: the machine closes the native handle of the payload before it refuses
  it, and does nothing else.
\<close>

theorem sm_reject_table:
  "(evt \<in> set (sm_rejects st) \<longleftrightarrow>
     (\<forall>(E :: (int32 \<times> int32) list env) p s.
        sm_step E (s\<lparr>m_state := st\<rparr>) (evt, p) = rejected E evt (s\<lparr>m_state := st\<rparr>))) \<and>
   (\<forall>(E :: (int32 \<times> int32) list env) p s.
     list_all (\<lambda>st. sm_step E (s\<lparr>m_state := st\<rparr>) (QCAMERA_SM_EVT_RELEASE_RECORIDNG_FRAME, p) =
         rejected E QCAMERA_SM_EVT_RELEASE_RECORIDNG_FRAME
           (snd (run_state (exec E (HWI_closeNativeHandle (pl_ptr p))) (s\<lparr>m_state := st\<rparr>))))
       [QCAMERA_SM_STATE_PREVIEW_STOPPED, QCAMERA_SM_STATE_PREVIEW_READY, QCAMERA_SM_STATE_PREVIEWING])"
  (is "(_ \<longleftrightarrow> ?all) \<and> ?closed")
proof
  show "evt \<in> set (sm_rejects st) \<longleftrightarrow> ?all"
  proof
    assume "evt \<in> set (sm_rejects st)"
    then show ?all by (simp add: sm_rejects_step)
  next
    assume ?all
    then have "sm_step script_env ((script_sm st [])\<lparr>m_state := st\<rparr>) (evt, test_payload) =
        rejected script_env evt ((script_sm st [])\<lparr>m_state := st\<rparr>)"
      by blast
    then have "trace (sm_step script_env (script_sm st []) (evt, test_payload)) =
        [SigAPI \<lparr>status = - 38, request_api = evt, result_value = RESULT_TYPE_DEF\<rparr>]"
      by (simp add: script_sm_def rejected_def script_env_def)
    then show "evt \<in> set (sm_rejects st)" using sm_rejects_only by blast
  qed
next
  show ?closed by (simp add: sm_step_def handler_simps rejected_def)
qed

section \<open>Calls to the parent\<close>

text \<open>
  the calls that release the camera, start or stop recordings, pictures and
  previews are made only in the states and for the events \<open>may_call\<close> lists; the camera, for
  one, is released only when the preview is stopped.
\<close>

lemma sm_critical_calls:
  "\<exists>cs. crit_calls (trace (sm_step E s (evt, p))) = crit_calls (trace s) @ cs \<and>
     list_all (may_call (m_state s) evt) cs"
  using sm_step_guarded [of s evt E p] by (simp add: guarded_def)

text \<open>
  While preview messages are delayed, enabling messages with the preview frame among
  them enables the others at once and the preview frame when the application asks for the
  preview next; then nothing is delayed any more.
\<close>

lemma sm_enable_split:
  assumes "m_state s = QCAMERA_SM_STATE_PREVIEWING" and "m_bDelayPreviewMsgs s"
    and "frame_msgs E p \<noteq> 0"
    and "evt = QCAMERA_SM_EVT_START_PREVIEW \<or> evt = QCAMERA_SM_EVT_START_NODISPLAY_PREVIEW \<or>
      evt = QCAMERA_SM_EVT_PREVIEW_ENABLED"
  shows "hwi_calls (trace (sm_run E s [(QCAMERA_SM_EVT_ENABLE_MSG_TYPE, p), (evt, q)])) =
      hwi_calls (trace s) @
      [HWI_enableMsgType (and (pl_int32 p) (not (CAMERA_MSG_PREVIEW_FRAME E))),
       HWI_enableMsgType (CAMERA_MSG_PREVIEW_FRAME E)] \<and>
    \<not> m_bDelayPreviewMsgs (sm_run E s [(QCAMERA_SM_EVT_ENABLE_MSG_TYPE, p), (evt, q)])"
  using assms(4) enable_delayed_step [OF assms(1-3)] frame_nonzero [OF assms(3)]
  by (auto simp: sm_run_def sm_step_def [of E _ "(evt, q)"] handler_simps apply_delayed_def applyDelayedMsgs_def)

lemma sm_enable_split_example:
  "hwi_calls (trace (sm_run script_env
      ((script_sm QCAMERA_SM_STATE_PREVIEWING [])\<lparr>m_bDelayPreviewMsgs := True\<rparr>)
      [(QCAMERA_SM_EVT_ENABLE_MSG_TYPE, test_payload\<lparr>pl_int32 := 0x18\<rparr>),
       (QCAMERA_SM_EVT_START_PREVIEW, test_payload)])) =
    [HWI_enableMsgType 8, HWI_enableMsgType 0x10]"
  using sm_enable_split [of
      "(script_sm QCAMERA_SM_STATE_PREVIEWING [])\<lparr>m_bDelayPreviewMsgs := True\<rparr>" script_env
      "test_payload\<lparr>pl_int32 := 0x18\<rparr>" QCAMERA_SM_EVT_START_PREVIEW test_payload]
  by (simp add: frame_msgs_def script_sm_def script_env_def test_payload_def)

text \<open>
  in every run only the preview-frame message is ever held back, and only while
  messages are delayed.
\<close>

lemma sm_delayed_msgs_invariant:
  "m_DelayedMsgs (sm_run E (init_sm h) es) \<in> {0, CAMERA_MSG_PREVIEW_FRAME E} \<union>
     {d. m_bDelayPreviewMsgs (sm_run E (init_sm h) es) \<and> and d (not (CAMERA_MSG_PREVIEW_FRAME E)) = 0}"
  using sm_run_inv [of E h es] by (auto simp: delay_inv_def)

text \<open>
  a parameter change that needs a restart, while a preview runs, stops the preview,
  clears the memory pool, commits and prepares again, in this order; if the restart fails the
  machine leaves the preview (to \<open>PREVIEW_STOPPED\<close>, or \<open>PIC_TAKING\<close> when a picture is being
  taken) and otherwise it stays.
\<close>

lemma sm_set_params_restart:
  assumes "m_state s = QCAMERA_SM_STATE_PREVIEWING \<or>
      m_state s = QCAMERA_SM_STATE_PREVIEW_PIC_TAKING"
    and "fst (update_reply E s p) = NO_ERROR" and "snd (update_reply E s p) \<noteq> 0"
  shows "(\<exists>cs. hwi_calls (trace (sm_step E s (QCAMERA_SM_EVT_SET_PARAMS, p))) =
      hwi_calls (trace s) @
      [HWI_updateParameters (pl_ptr p), HWI_stopPreview, HWI_memoryPool_clear,
       HWI_commitParameterChanges, HWI_preparePreview] @ cs) \<and>
   m_state (sm_step E s (QCAMERA_SM_EVT_SET_PARAMS, p)) =
     (if fst (run_state (stateMachine E QCAMERA_SM_EVT_SET_PARAMS p) s) = NO_ERROR then m_state s
      else if m_state s = QCAMERA_SM_STATE_PREVIEWING then QCAMERA_SM_STATE_PREVIEW_STOPPED
      else QCAMERA_SM_STATE_PIC_TAKING)"
proof -
  have "\<exists>cs. hwi_calls (trace (snd (run_state (prepare_and_start_preview E) s'))) =
      hwi_calls (trace s) @ [HWI_updateParameters (pl_ptr p), HWI_stopPreview,
       HWI_memoryPool_clear, HWI_commitParameterChanges] @ HWI_preparePreview # cs"
    if "hwi_calls (trace s') = hwi_calls (trace s) @ [HWI_updateParameters (pl_ptr p),
       HWI_stopPreview, HWI_memoryPool_clear, HWI_commitParameterChanges]" for s'
    using prepare_and_start_calls_after [OF that] .
  then show ?thesis using assms
    by (auto simp: sm_step_def handler_simps update_reply_def)
qed

lemma sm_set_params_restart_example:
  "m_state (sm_step script_env (script_sm QCAMERA_SM_STATE_PREVIEWING
      [(0, 1), (0, 0), (0, 0), (0, 0), (1, 0)]) (QCAMERA_SM_EVT_SET_PARAMS, test_payload)) =
    QCAMERA_SM_STATE_PREVIEW_STOPPED"
  by (rule trans [OF conjunct2 [OF sm_set_params_restart [of "script_sm
      QCAMERA_SM_STATE_PREVIEWING [(0, 1), (0, 0), (0, 0), (0, 0), (1, 0)]" script_env
      test_payload]]]) (simp_all add: update_reply_def script_simps)

text \<open>
  During a recording a parameter change never stops or restarts anything: it is
  refused with \<open>BAD_VALUE\<close> if it needs a restart, committed if it does not, and the state
  stays.
\<close>

lemma sm_set_params_recording:
  assumes "isRecording (m_state s)"
  shows "m_state (sm_step E s (QCAMERA_SM_EVT_SET_PARAMS, p)) = m_state s \<and>
    hwi_calls (trace (sm_step E s (QCAMERA_SM_EVT_SET_PARAMS, p))) = hwi_calls (trace s) @
      HWI_updateParameters (pl_ptr p) #
      (if fst (update_reply E s p) = NO_ERROR \<and> snd (update_reply E s p) = 0
       then [HWI_commitParameterChanges] else []) \<and>
    (fst (run_state (stateMachine E QCAMERA_SM_EVT_SET_PARAMS p) s) = BAD_VALUE E \<or>
      fst (update_reply E s p) \<noteq> NO_ERROR \<or> snd (update_reply E s p) = 0)"
  using assms
  by (cases "m_state s") (auto simp add: sm_step_def handler_simps update_reply_def)

lemma sm_set_params_recording_example:
  "fst (run_state (stateMachine script_env QCAMERA_SM_EVT_SET_PARAMS test_payload)
    (script_sm QCAMERA_SM_STATE_RECORDING [(0, 1)])) = - 22"
  using sm_set_params_recording [of "script_sm QCAMERA_SM_STATE_RECORDING [(0, 1)]"
      script_env test_payload]
  by (simp add: update_reply_def script_env_def script_sm_def NO_ERROR_def)

text \<open>
  when the camera daemon dies, every state closes the backend (if there is one),
  tells the application, and stays; \<open>PIC_TAKING\<close>, and no other state, releases whoever waits
  for a picture or its preparation.
\<close>

lemma sm_daemon_death:
  assumes "pl_server_event_type p = CAM_EVENT_TYPE_DAEMON_DIED"
  shows "m_state (sm_step E s (QCAMERA_SM_EVT_EVT_NOTIFY, p)) = m_state s \<and>
    hwi_calls (trace (sm_step E s (QCAMERA_SM_EVT_EVT_NOTIFY, p))) = hwi_calls (trace s) @
      daemon_death_calls E (fst (fst (hw E (m_state s) HWI_get_mCameraHandle_ops (parent s)))) \<and>
    map request_api (api_signals (trace (sm_step E s (QCAMERA_SM_EVT_EVT_NOTIFY, p)))) =
      map request_api (api_signals (trace s)) @
      (if m_state s = QCAMERA_SM_STATE_PIC_TAKING
       then [QCAMERA_SM_EVT_PREPARE_SNAPSHOT, QCAMERA_SM_EVT_TAKE_PICTURE] else [])"
  using assms
  by (cases "m_state s") (simp_all add: sm_step_def handler_simps daemon_died_def
     daemon_death_calls_def pic_taking_notify_def)

lemma sm_daemon_death_example:
  "hwi_calls (trace (sm_step script_env (script_sm QCAMERA_SM_STATE_PIC_TAKING [(5, 0)])
     (QCAMERA_SM_EVT_EVT_NOTIFY, test_payload\<lparr>pl_server_event_type := CAM_EVENT_TYPE_DAEMON_DIED\<rparr>))) =
   [HWI_get_mCameraHandle_ops, HWI_error_close_camera, HWI_sendEvtNotify 1 100 0]"
  using sm_daemon_death [of
      "test_payload\<lparr>pl_server_event_type := CAM_EVENT_TYPE_DAEMON_DIED\<rparr>" script_env
      "script_sm QCAMERA_SM_STATE_PIC_TAKING [(5, 0)]"]
  by (simp add: daemon_death_calls_def script_env_def script_sm_def)

text \<open>
  While a retro-active picture may be taken, the internal events answer the waiting
  requests: the camera being ready answers \<open>TAKE_PICTURE\<close>, the end of a preparation answers
  \<open>PREPARE_SNAPSHOT\<close>, each once and only if the picture is retro-active, and no other internal
  event answers anything.
\<close>

lemma sm_retro_results:
  assumes "m_state s = QCAMERA_SM_STATE_PREVIEW_PIC_TAKING"
  shows "api_signals (trace (sm_step E s (QCAMERA_SM_EVT_EVT_INTERNAL, p))) =
    api_signals (trace s) @
    retro_results (fst (fst (hw E QCAMERA_SM_STATE_PREVIEW_PIC_TAKING HWI_isRetroPicture (parent s))))
      (pl_evt_type p)"
  using assms
  by (cases "pl_evt_type p") (simp_all add: sm_step_def handler_simps retro_results_def)

lemma sm_retro_results_example:
  "api_signals (trace (sm_step script_env (script_sm QCAMERA_SM_STATE_PREVIEW_PIC_TAKING [(1, 0)])
     (QCAMERA_SM_EVT_EVT_INTERNAL, test_payload))) =
   [\<lparr>status = 0, request_api = QCAMERA_SM_EVT_PREPARE_SNAPSHOT, result_value = RESULT_TYPE_DEF\<rparr>]"
  using sm_retro_results [of "script_sm QCAMERA_SM_STATE_PREVIEW_PIC_TAKING [(1, 0)]"
      script_env test_payload]
  by (simp add: retro_results_def script_env_def script_sm_def test_payload_def NO_ERROR_def)

text \<open>
  The two state queries answer at once in every state but \<open>PREPARE_SNAPSHOT\<close>: the
  recording flag is \<open>isRecording\<close>, the preview flag is \<open>isPreviewRunning\<close> except that
  \<open>RECORDING\<close> reports no preview.
\<close>

lemma sm_flag_queries:
  assumes "evt = QCAMERA_SM_EVT_RECORDING_ENABLED \<or> evt = QCAMERA_SM_EVT_PREVIEW_ENABLED"
    and "m_state s \<noteq> QCAMERA_SM_STATE_PREPARE_SNAPSHOT"
  shows "api_signals (trace (sm_step E s (evt, p))) = api_signals (trace s) @
    [\<lparr>status = NO_ERROR, request_api = evt,
      result_value = RESULT_TYPE_ENABLE_FLAG (flag_of (m_state s) evt)\<rparr>] \<and>
     m_state (sm_step E s (evt, p)) = m_state s"
  using assms
  by (cases "m_state s") (auto simp add: sm_step_def handler_simps flag_of_def)

lemma sm_flag_queries_example:
  "api_signals (trace (sm_step script_env (script_sm QCAMERA_SM_STATE_RECORDING [])
     (QCAMERA_SM_EVT_PREVIEW_ENABLED, test_payload))) =
   [\<lparr>status = 0, request_api = QCAMERA_SM_EVT_PREVIEW_ENABLED,
     result_value = RESULT_TYPE_ENABLE_FLAG 0\<rparr>]"
  using sm_flag_queries [of QCAMERA_SM_EVT_PREVIEW_ENABLED
      "script_sm QCAMERA_SM_STATE_RECORDING []" script_env test_payload]
  by (simp add: flag_of_def script_sm_def NO_ERROR_def)

section \<open>Further facts\<close>

text \<open>Delayed messages seen through the other two message requests; the dump.\<close>

lemma sm_enable_query:
  assumes "m_state s = QCAMERA_SM_STATE_PREVIEWING" and "m_bDelayPreviewMsgs s"
    and "frame_msgs E p \<noteq> 0"
  shows "\<exists>enabled. api_signals (trace (sm_run E s
      [(QCAMERA_SM_EVT_ENABLE_MSG_TYPE, p), (QCAMERA_SM_EVT_MSG_TYPE_ENABLED, q)])) =
      api_signals (trace (sm_step E s (QCAMERA_SM_EVT_ENABLE_MSG_TYPE, p))) @
      [\<lparr>status = NO_ERROR, request_api = QCAMERA_SM_EVT_MSG_TYPE_ENABLED,
        result_value = RESULT_TYPE_ENABLE_FLAG (or enabled (frame_msgs E q))\<rparr>]"
  using  enable_delayed_step [OF assms(1-3)] frame_nonzero [OF assms(3)]
  by (auto simp: sm_run_def sm_step_def [of E _ "(QCAMERA_SM_EVT_MSG_TYPE_ENABLED, q)"] handler_simps frame_msgs_def)

lemma sm_enable_cancelled:
  assumes "m_state s = QCAMERA_SM_STATE_PREVIEWING" and "m_bDelayPreviewMsgs s"
    and "frame_msgs E p \<noteq> 0" and "and (CAMERA_MSG_PREVIEW_FRAME E) (not (pl_int32 q)) = 0"
  shows "hwi_calls (trace (sm_run E s [(QCAMERA_SM_EVT_ENABLE_MSG_TYPE, p),
      (QCAMERA_SM_EVT_DISABLE_MSG_TYPE, q), (QCAMERA_SM_EVT_START_PREVIEW, r)])) =
      hwi_calls (trace s) @
      [HWI_enableMsgType (and (pl_int32 p) (not (CAMERA_MSG_PREVIEW_FRAME E))),
       HWI_disableMsgType (pl_int32 q)]"
  using assms(4) enable_delayed_step [OF assms(1-3)] frame_nonzero [OF assms(3)]
  by (auto simp: sm_run_def sm_step_def [of E _ "(QCAMERA_SM_EVT_DISABLE_MSG_TYPE, q)"]
    sm_step_def [of E _ "(QCAMERA_SM_EVT_START_PREVIEW, r)"] handler_simps apply_delayed_def applyDelayedMsgs_def)

lemma sm_dump_inj: "sm_dump st = sm_dump st' \<longleftrightarrow> st = st'"
  by (cases st; cases st') (simp_all add: sm_dump_def bool_digit_def newline_def)

end
