(* ===== verification/CamList.thy ===== *)
theory CamList
  imports Prelude
begin

text \<open>
  The doubly linked ring of \<open>camera/QCamera2/stack/common/cam_list.h\<close>, on an explicit heap of
  \<open>next\<close> and \<open>prev\<close> fields: each C function is the sequence of its assignments, so that
  aliasing between the nodes counts. \<open>is_ring\<close> says which list of nodes a ring holds;
  the lemmas give the ring after each function.
\<close>

section \<open>The functions of the header\<close>

record list_heap =
  lnext :: "ptr \<Rightarrow> ptr"
  lprev :: "ptr \<Rightarrow> ptr"

definition set_next :: "ptr \<Rightarrow> ptr \<Rightarrow> list_heap \<Rightarrow> list_heap" where
  "set_next p v h = h\<lparr>lnext := (lnext h)(p := v)\<rparr>"

definition set_prev :: "ptr \<Rightarrow> ptr \<Rightarrow> list_heap \<Rightarrow> list_heap" where
  "set_prev p v h = h\<lparr>lprev := (lprev h)(p := v)\<rparr>"

definition cam_list_init :: "ptr \<Rightarrow> list_heap \<Rightarrow> list_heap" where
  "cam_list_init p h =
    (let h = set_next p p h;
         h = set_prev p p h
     in h)"

definition cam_list_add_tail_node :: "ptr \<Rightarrow> ptr \<Rightarrow> list_heap \<Rightarrow> list_heap" where
  "cam_list_add_tail_node item head h =
    (let prev = lprev h head;
         h = set_prev head item h;
         h = set_next item head h;
         h = set_prev item prev h;
         h = set_next prev item h
     in h)"

definition cam_list_insert_before_node :: "ptr \<Rightarrow> ptr \<Rightarrow> list_heap \<Rightarrow> list_heap" where
  "cam_list_insert_before_node item node h =
    (let h = set_next item node h;
         h = set_prev item (lprev h node) h;
         h = set_next (lprev h item) item h;
         h = set_prev node item h
     in h)"

definition cam_list_del_node :: "ptr \<Rightarrow> list_heap \<Rightarrow> list_heap" where
  "cam_list_del_node p h =
    (let prev = lprev h p;
         next = lnext h p;
         h = set_prev next (lprev h p) h;
         h = set_next prev (lnext h p) h;
         h = set_next p p h;
         h = set_prev p p h
     in h)"

section \<open>Rings\<close>

text \<open>\<open>linked h xs\<close>: each node of \<open>xs\<close> is joined to its successor in both directions.\<close>

fun linked :: "list_heap \<Rightarrow> ptr list \<Rightarrow> bool" where
  "linked h (a # b # xs) \<longleftrightarrow> lnext h a = b \<and> lprev h b = a \<and> linked h (b # xs)"
| "linked h _ \<longleftrightarrow> True"

text \<open>\<open>is_ring h head xs\<close>: the ring with the dummy node \<open>head\<close> holds the nodes \<open>xs\<close>.\<close>

definition is_ring :: "list_heap \<Rightarrow> ptr \<Rightarrow> ptr list \<Rightarrow> bool" where
  "is_ring h head xs \<longleftrightarrow> distinct (head # xs) \<and> linked h (head # xs @ [head])"

lemma field_simps_heap [simp]:
  "lnext (set_next p v h) = (lnext h)(p := v)"
  "lprev (set_next p v h) = lprev h"
  "lnext (set_prev p v h) = lnext h"
  "lprev (set_prev p v h) = (lprev h)(p := v)"
  by (simp_all add: set_next_def set_prev_def)

lemma linked_append:
  "linked h (xs @ a # ys) \<longleftrightarrow> linked h (xs @ [a]) \<and> linked h (a # ys)"
proof (induction xs)
  case (Cons x xs)
  then show ?case by (cases xs) auto
qed simp

lemma linked_cong:
  assumes "linked h xs"
    and "\<And>x. x \<in> set (butlast xs) \<Longrightarrow> lnext h' x = lnext h x"
    and "\<And>x. x \<in> set (tl xs) \<Longrightarrow> lprev h' x = lprev h x"
  shows "linked h' xs"
  using assms
proof (induction h xs rule: linked.induct)
  case (1 h a b xs)
  then show ?case by (cases xs) auto
qed simp_all

lemma ring_next: "is_ring h head xs \<Longrightarrow> lnext h head = hd (xs @ [head])"
  by (cases xs) (auto simp: is_ring_def)

lemma ring_prev: "is_ring h head xs \<Longrightarrow> lprev h head = last (head # xs)"
  using linked_append [of h "head # butlast xs" "last xs" "[head]"]
  by (cases xs rule: rev_cases) (auto simp: is_ring_def)

lemma ring_empty [simp]: "is_ring (cam_list_init head h) head []"
  by (simp add: is_ring_def cam_list_init_def Let_def)

lemma ring_cong:
  assumes "is_ring h head xs"
    and "\<And>x. x \<in> set (head # xs) \<Longrightarrow> lnext h' x = lnext h x \<and> lprev h' x = lprev h x"
  shows "is_ring h' head xs"
  using assms unfolding is_ring_def
  by (auto intro!: linked_cong [of h] simp: butlast_append)

text \<open>A node is put between two neighbours, or taken out from between them.\<close>

text \<open>
  What both need: the ring cut into a part that ends in \<open>a\<close> and one that starts with \<open>b\<close>.
\<close>

lemma ring_parts:
  assumes "linked h (us @ [a])" and "linked h (b # vs)"
    and "distinct (us @ [a])" and "distinct (b # vs)"
    and "item \<notin> set us" "item \<notin> set vs" "b \<notin> set (tl (us @ [a]))" "item \<noteq> a" "item \<noteq> b"
    and "a \<notin> set (butlast (b # vs))"
    and "\<And>p. p \<noteq> a \<Longrightarrow> p \<noteq> item \<Longrightarrow> lnext h' p = lnext h p"
    and "\<And>p. p \<noteq> b \<Longrightarrow> p \<noteq> item \<Longrightarrow> lprev h' p = lprev h p"
  shows "linked h' (us @ [a])" "linked h' (b # vs)"
proof -
  show "linked h' (us @ [a])"
  proof (rule linked_cong [OF assms(1)])
    show "lnext h' x = lnext h x" if "x \<in> set (butlast (us @ [a]))" for x
      using that assms(3,5) by (intro assms(11)) auto
    show "lprev h' x = lprev h x" if "x \<in> set (tl (us @ [a]))" for x
    proof -
      have "x \<in> set (us @ [a])" using that by (metis Nil_is_append_conv list.set_sel(2) not_Cons_self2)
      then show ?thesis using that assms(5,7,8) by (intro assms(12)) auto
    qed
  qed
  show "linked h' (b # vs)"
  proof (rule linked_cong [OF assms(2)])
    show "lnext h' x = lnext h x" if "x \<in> set (butlast (b # vs))" for x
      using that assms(6,9,10) in_set_butlastD [OF that] by (intro assms(11)) auto
    show "lprev h' x = lprev h x" if "x \<in> set (tl (b # vs))" for x
      using that assms(4,6) by (intro assms(12)) auto
  qed
qed

text \<open>The two neighbours of a place in the ring.\<close>

lemma ring_cut:
  assumes "distinct (head # xs @ ys)"
  obtains us vs where "head # xs = us @ [last (head # xs)]" "ys @ [head] = hd (ys @ [head]) # vs"
    "last (head # xs) \<notin> set (butlast (ys @ [head]))" "hd (ys @ [head]) \<notin> set xs"
    "tl (us @ [last (head # xs)]) = xs" "set us \<subseteq> set (head # xs)" "set vs \<subseteq> set (head # ys)"
proof -
  have us: "head # xs = butlast (head # xs) @ [last (head # xs)]" by simp
  moreover have "ys @ [head] = hd (ys @ [head]) # tl (ys @ [head])" by simp
  moreover have "last (head # xs) \<notin> set (butlast (ys @ [head]))"
    using assms last_in_set [of xs] by (auto simp: disjoint_iff)
  moreover have "hd (ys @ [head]) \<notin> set xs" using assms by (cases ys) auto
  moreover have "tl (butlast (head # xs) @ [last (head # xs)]) = xs"
    using arg_cong [OF us, of tl] by simp
  moreover have "set (butlast (head # xs)) \<subseteq> set (head # xs)"
    by (meson in_set_butlastD subsetI)
  moreover have "set (tl (ys @ [head])) \<subseteq> set (head # ys)"
    by (cases ys) auto
  ultimately show thesis using that by blast
qed

lemma linked_insert:
  assumes ring: "is_ring h head (xs @ ys)" and new: "item \<notin> set (head # xs @ ys)"
    and before: "a = last (head # xs)" and after: "b = hd (ys @ [head])"
    and "lnext h' a = item" "lnext h' item = b" "lprev h' item = a" "lprev h' b = item"
    and "\<And>p. p \<noteq> a \<Longrightarrow> p \<noteq> item \<Longrightarrow> lnext h' p = lnext h p"
    and "\<And>p. p \<noteq> b \<Longrightarrow> p \<noteq> item \<Longrightarrow> lprev h' p = lprev h p"
  shows "is_ring h' head (xs @ item # ys)"
proof -
  have dist: "distinct (head # xs @ ys)" and old: "linked h ((head # xs) @ ys @ [head])"
    using ring by (simp_all add: is_ring_def)
  obtain us vs where us: "head # xs = us @ [a]" and vs: "ys @ [head] = b # vs"
    and cut: "a \<notin> set (butlast (b # vs))" "b \<notin> set (tl (us @ [a]))"
      "set us \<subseteq> set (head # xs)" "set vs \<subseteq> set (head # ys)"
    using ring_cut [OF dist] before after by metis
  have old: "linked h (us @ a # b # vs)" using old unfolding us vs by simp
  have dd: "distinct (us @ [a])" "distinct (b # vs)"
    using dist unfolding us [symmetric] vs [symmetric] by auto
  have new': "item \<notin> set us" "item \<notin> set vs" "item \<noteq> a" "item \<noteq> b"
    using new cut(3,4) last_in_set [of "head # xs"] hd_in_set [of "ys @ [head]"] before after
    by (auto simp del: last.simps)
  have "linked h (us @ [a])" "linked h (b # vs)"
    using old linked_append [of h us a "b # vs"] by simp_all
  then have "linked h' (us @ [a])" "linked h' (b # vs)"
    using ring_parts [OF _ _ dd new'(1,2) cut(2) new'(3,4) cut(1) assms(9,10)] by simp_all
  then have "linked h' (us @ a # item # b # vs)"
    using assms(5-8) linked_append [of h' us a "item # b # vs"] by simp
  also have "us @ a # item # b # vs = head # xs @ item # ys @ [head]"
    using us vs by (metis append.assoc append_Cons append_Nil)
  finally show ?thesis using dist new by (auto simp: is_ring_def)
qed

lemma linked_remove:
  assumes ring: "is_ring h head (xs @ item # ys)"
    and before: "a = last (head # xs)" and after: "b = hd (ys @ [head])"
    and "lnext h' a = b" "lprev h' b = a"
    and "\<And>p. p \<noteq> a \<Longrightarrow> p \<noteq> item \<Longrightarrow> lnext h' p = lnext h p"
    and "\<And>p. p \<noteq> b \<Longrightarrow> p \<noteq> item \<Longrightarrow> lprev h' p = lprev h p"
  shows "is_ring h' head (xs @ ys)"
proof -
  have dist: "distinct (head # xs @ ys)" "item \<notin> set (head # xs @ ys)"
    and old: "linked h ((head # xs) @ item # ys @ [head])"
    using ring by (auto simp: is_ring_def)
  obtain us vs where us: "head # xs = us @ [a]" and vs: "ys @ [head] = b # vs"
    and cut: "a \<notin> set (butlast (b # vs))" "b \<notin> set (tl (us @ [a]))"
      "set us \<subseteq> set (head # xs)" "set vs \<subseteq> set (head # ys)"
    using ring_cut [OF dist(1)] before after by metis
  have old: "linked h (us @ a # item # b # vs)" using old unfolding us vs by simp
  have dd: "distinct (us @ [a])" "distinct (b # vs)"
    using dist unfolding us [symmetric] vs [symmetric] by auto
  have new': "item \<notin> set us" "item \<notin> set vs" "item \<noteq> a" "item \<noteq> b"
    using dist(2) cut(3,4) last_in_set [of "head # xs"] hd_in_set [of "ys @ [head]"] before after
    by (auto simp del: last.simps)
  have "linked h (us @ [a])" "linked h (b # vs)"
    using old linked_append [of h us a "item # b # vs"] by simp_all
  then have "linked h' (us @ [a])" "linked h' (b # vs)"
    using ring_parts [OF _ _ dd new'(1,2) cut(2) new'(3,4) cut(1) assms(6,7)] by simp_all
  then have "linked h' (us @ a # b # vs)"
    using assms(4,5) linked_append [of h' us a "b # vs"] by simp
  also have "us @ a # b # vs = head # xs @ ys @ [head]"
    using us vs by (metis append.assoc append_Cons append_Nil)
  finally show ?thesis using dist by (auto simp: is_ring_def)
qed

text \<open>The functions of the header, and the insertion at the front that the queue writes out.\<close>

lemma ring_add_tail:
  assumes "is_ring h head xs" "item \<notin> set (head # xs)"
  shows "is_ring (cam_list_add_tail_node item head h) head (xs @ [item])"
proof -
  have "last (head # xs) \<noteq> item"
    using assms(2) last_in_set [of "head # xs"] by (metis list.discI)
  then show ?thesis using assms ring_prev [OF assms(1)]
    by (intro linked_insert [of h head xs "[]"])
      (auto simp: cam_list_add_tail_node_def Let_def simp del: last.simps)
qed

lemma ring_insert_before:
  assumes "is_ring h head (xs @ node # ys)" "item \<notin> set (head # xs @ node # ys)"
  shows "is_ring (cam_list_insert_before_node item node h) head (xs @ item # node # ys)"
proof -
  have "lprev h node = last (head # xs)"
    using assms(1) linked_append [of h "head # butlast xs" "last xs" "node # ys @ [head]"]
    by (cases xs rule: rev_cases) (auto simp: is_ring_def)
  moreover have "last (head # xs) \<noteq> item \<and> last (head # xs) \<noteq> node"
    using assms last_in_set [of xs] by (auto simp: is_ring_def)
  ultimately show ?thesis using assms
    by (intro linked_insert [of h head xs "node # ys"])
      (auto simp: cam_list_insert_before_node_def Let_def)
qed

lemma ring_neighbours:
  assumes "is_ring h head (xs @ item # ys)"
  shows "lprev h item = last (head # xs)" "lnext h item = hd (ys @ [head])"
proof -
  show "lprev h item = last (head # xs)"
    using assms linked_append [of h "head # butlast xs" "last xs" "item # ys @ [head]"]
    by (cases xs rule: rev_cases) (auto simp: is_ring_def)
  show "lnext h item = hd (ys @ [head])"
    using assms linked_append [of h "head # xs" item "ys @ [head]"]
    by (cases ys) (auto simp: is_ring_def)
qed

lemma ring_del:
  assumes "is_ring h head (xs @ item # ys)"
  shows "is_ring (cam_list_del_node item h) head (xs @ ys)"
    and "lnext (cam_list_del_node item h) item = item"
    and "lprev (cam_list_del_node item h) item = item"
proof -
  have "item \<noteq> last (head # xs)" "item \<noteq> hd (ys @ [head])"
    using assms last_in_set [of xs] by (cases ys; auto simp: is_ring_def split: if_splits)+
  then show "is_ring (cam_list_del_node item h) head (xs @ ys)"
    using ring_neighbours [OF assms]
    by (intro linked_remove [OF assms]) (auto simp: cam_list_del_node_def Let_def)
qed (simp_all add: cam_list_del_node_def Let_def)

end
