(* ===== verification/CamQueue.thy ===== *)
theory CamQueue
  imports CamList "HOL-Library.Multiset"
begin

text \<open>
  \<open>QCameraQueue\<close> (\<open>camera/QCamera2/util/QCameraQueue.cpp\<close>), the work queue of every thread of
  the camera HAL, on the pointers of its ring. Each method is modelled between the lock and
  the unlock of \<open>m_lock\<close>, as one step. The result of \<open>malloc\<close> is an argument (\<open>NULL\<close> when it
  fails); what is handed to the release function and to \<open>free\<close> is logged in order. The
  release function itself is not part of the class: all the model needs of it is that it
  leaves the queue alone.

  The second half states the queue as a list of nodes with their data, and shows that the
  ring refines it, for single operations and for every sequence of operations in which
  \<open>malloc\<close> returns addresses that are not in use.
\<close>

section \<open>The class\<close>

datatype qaction = DataFn ptr | FreeData ptr | FreeNode ptr

record camq =
  q_heap :: list_heap
  q_data :: "ptr \<Rightarrow> ptr"
  m_head :: ptr
  m_size :: int32
  m_active :: bool
  m_dataFn :: bool
  q_log :: "qaction list"

definition QCameraQueue :: "ptr \<Rightarrow> bool \<Rightarrow> list_heap \<Rightarrow> camq" where
  "QCameraQueue head data_rel_fn h =
    \<lparr>q_heap = cam_list_init head h, q_data = (\<lambda>_. NULL), m_head = head, m_size = 0,
     m_active = True, m_dataFn = data_rel_fn, q_log = []\<rparr>"

definition log_action :: "qaction \<Rightarrow> camq \<Rightarrow> camq" where
  "log_action a q = q\<lparr>q_log := q_log q @ [a]\<rparr>"

definition q_init :: "camq \<Rightarrow> camq" where
  "q_init q = q\<lparr>m_active := True\<rparr>"

definition isEmpty :: "camq \<Rightarrow> bool" where
  "isEmpty q = (if 0 <s m_size q then False else True)"

definition enqueue :: "ptr \<Rightarrow> ptr \<Rightarrow> camq \<Rightarrow> bool \<times> camq" where
  "enqueue node d q =
    (if node = NULL then (False, q)
     else
       let q = q\<lparr>q_data := (q_data q)(node := d)\<rparr>
       in if m_active q then
            (True, q\<lparr>q_heap := cam_list_add_tail_node node (m_head q) (q_heap q),
                     m_size := m_size q + 1\<rparr>)
          else (False, log_action (FreeNode node) q))"

definition enqueueWithPriority :: "ptr \<Rightarrow> ptr \<Rightarrow> camq \<Rightarrow> bool \<times> camq" where
  "enqueueWithPriority node d q =
    (if node = NULL then (False, q)
     else
       let q = q\<lparr>q_data := (q_data q)(node := d)\<rparr>
       in if m_active q then
            let h = q_heap q;
                p_next = lnext h (m_head q);
                h = set_next (m_head q) node h;
                h = set_prev p_next node h;
                h = set_next node p_next h;
                h = set_prev node (m_head q) h
            in (True, q\<lparr>q_heap := h, m_size := m_size q + 1\<rparr>)
          else (False, log_action (FreeNode node) q))"

definition peek :: "camq \<Rightarrow> ptr" where
  "peek q =
    (if m_active q then
       let pos = lnext (q_heap q) (m_head q)
       in if pos \<noteq> m_head q then q_data q pos else NULL
     else NULL)"

definition dequeue :: "bool \<Rightarrow> camq \<Rightarrow> ptr \<times> camq" where
  "dequeue bFromHead q =
    (if m_active q then
       let pos = (if bFromHead then lnext (q_heap q) (m_head q)
                  else lprev (q_heap q) (m_head q))
       in if pos \<noteq> m_head q then
            let q' = q\<lparr>q_heap := cam_list_del_node pos (q_heap q), m_size := m_size q - 1\<rparr>
            in (q_data q' pos, log_action (FreeNode pos) q')
          else (NULL, q)
     else (NULL, q))"

text \<open>The body the two flushing loops share: unlink the node, release its data, free it.\<close>

definition flush_node :: "ptr \<Rightarrow> camq \<Rightarrow> camq" where
  "flush_node node q =
    (let q = q\<lparr>q_heap := cam_list_del_node node (q_heap q), m_size := m_size q - 1\<rparr>;
         d = q_data q node;
         q = (if d \<noteq> NULL then
                log_action (FreeData d) (if m_dataFn q then log_action (DataFn d) q else q)
              else q)
     in log_action (FreeNode node) q)"

partial_function (option) flush_loop :: "ptr \<Rightarrow> camq \<Rightarrow> camq option" where
  "flush_loop pos q =
    (if pos = m_head q then Some q
     else flush_loop (lnext (q_heap q) pos) (flush_node pos q))"

definition flush :: "camq \<Rightarrow> camq option" where
  "flush q =
    (if m_active q then
       (case flush_loop (lnext (q_heap q) (m_head q)) q of
          None \<Rightarrow> None
        | Some q \<Rightarrow> Some (q\<lparr>m_size := 0, m_active := False\<rparr>))
     else Some q)"

partial_function (option) flushNodes_loop ::
  "(ptr \<Rightarrow> bool) \<Rightarrow> ptr \<Rightarrow> camq \<Rightarrow> camq option" where
  "flushNodes_loop match pos q =
    (if pos = m_head q then Some q
     else
       flushNodes_loop match (lnext (q_heap q) pos)
         (if match (q_data q pos) then flush_node pos q else q))"

text \<open>
  The two overloads; \<open>match\<close> is \<open>None\<close> for a \<open>NULL\<close> function pointer, and its argument
  \<open>m_userData\<close>, which never changes, is part of the function.
\<close>

definition flushNodes :: "(ptr \<Rightarrow> bool) option \<Rightarrow> camq \<Rightarrow> camq option" where
  "flushNodes match q =
    (case match of
       None \<Rightarrow> Some q
     | Some m \<Rightarrow>
         if m_active q then flushNodes_loop m (lnext (q_heap q) (m_head q)) q else Some q)"

definition flushNodes_data :: "(ptr \<Rightarrow> ptr \<Rightarrow> bool) option \<Rightarrow> ptr \<Rightarrow> camq \<Rightarrow> camq option" where
  "flushNodes_data match match_data q =
    (case match of
       None \<Rightarrow> Some q
     | Some m \<Rightarrow>
         if m_active q
         then flushNodes_loop (\<lambda>d. m d match_data) (lnext (q_heap q) (m_head q)) q
         else Some q)"

section \<open>The queue as a list\<close>

text \<open>The nodes in the queue, each with its data, and what has been released.\<close>

record aqueue =
  aq_items :: "(ptr \<times> ptr) list"
  aq_active :: bool
  aq_log :: "qaction list"

definition release_item :: "bool \<Rightarrow> ptr \<times> ptr \<Rightarrow> qaction list" where
  "release_item has_fn it =
    (if snd it \<noteq> NULL then (if has_fn then [DataFn (snd it)] else []) @ [FreeData (snd it)]
     else []) @ [FreeNode (fst it)]"

datatype qop =
    Init
  | Enqueue ptr ptr
  | EnqueueWithPriority ptr ptr
  | Peek
  | Dequeue bool
  | Flush
  | FlushNodes "(ptr \<Rightarrow> bool) option"

datatype qresult = Done | Success bool | Data ptr

fun aq_insert :: "bool \<Rightarrow> ptr \<Rightarrow> ptr \<Rightarrow> aqueue \<Rightarrow> qresult \<times> aqueue" where
  "aq_insert front node d a =
    (if node = NULL then (Success False, a)
     else if aq_active a then
       (Success True, a\<lparr>aq_items := (if front then (node, d) # aq_items a
                                    else aq_items a @ [(node, d)])\<rparr>)
     else (Success False, a\<lparr>aq_log := aq_log a @ [FreeNode node]\<rparr>))"

fun aq_step :: "bool \<Rightarrow> qop \<Rightarrow> aqueue \<Rightarrow> qresult \<times> aqueue" where
  "aq_step fn Init a = (Done, a\<lparr>aq_active := True\<rparr>)"
| "aq_step fn (Enqueue node d) a = aq_insert False node d a"
| "aq_step fn (EnqueueWithPriority node d) a = aq_insert True node d a"
| "aq_step fn Peek a =
    (Data (if aq_active a \<and> aq_items a \<noteq> [] then snd (hd (aq_items a)) else NULL), a)"
| "aq_step fn (Dequeue from_head) a =
    (if aq_active a \<and> aq_items a \<noteq> [] then
       let it = (if from_head then hd (aq_items a) else last (aq_items a))
       in (Data (snd it),
           a\<lparr>aq_items := (if from_head then tl (aq_items a) else butlast (aq_items a)),
             aq_log := aq_log a @ [FreeNode (fst it)]\<rparr>)
     else (Data NULL, a))"
| "aq_step fn Flush a =
    (Done,
     if aq_active a then
       a\<lparr>aq_items := [], aq_active := False,
         aq_log := aq_log a @ concat (map (release_item fn) (aq_items a))\<rparr>
     else a)"
| "aq_step fn (FlushNodes match) a =
    (Done,
     case match of
       None \<Rightarrow> a
     | Some m \<Rightarrow>
         if aq_active a then
           a\<lparr>aq_items := filter (\<lambda>it. \<not> m (snd it)) (aq_items a),
             aq_log := aq_log a @
               concat (map (release_item fn) (filter (\<lambda>it. m (snd it)) (aq_items a)))\<rparr>
         else a)"

text \<open>The class driven by the same operations.\<close>

definition finished :: "camq option \<Rightarrow> (qresult \<times> camq) option" where
  "finished r = (case r of None \<Rightarrow> None | Some q \<Rightarrow> Some (Done, q))"

fun camq_step :: "qop \<Rightarrow> camq \<Rightarrow> (qresult \<times> camq) option" where
  "camq_step Init q = Some (Done, q_init q)"
| "camq_step (Enqueue node d) q = (case enqueue node d q of (rc, q) \<Rightarrow> Some (Success rc, q))"
| "camq_step (EnqueueWithPriority node d) q =
    (case enqueueWithPriority node d q of (rc, q) \<Rightarrow> Some (Success rc, q))"
| "camq_step Peek q = Some (Data (peek q), q)"
| "camq_step (Dequeue from_head) q =
    (case dequeue from_head q of (d, q) \<Rightarrow> Some (Data d, q))"
| "camq_step Flush q = finished (flush q)"
| "camq_step (FlushNodes match) q = finished (flushNodes match q)"

section \<open>Refinement\<close>

definition queue_rep :: "camq \<Rightarrow> aqueue \<Rightarrow> bool" where
  "queue_rep q a \<longleftrightarrow>
     is_ring (q_heap q) (m_head q) (map fst (aq_items a)) \<and>
     m_head q \<noteq> NULL \<and> NULL \<notin> fst ` set (aq_items a) \<and>
     (\<forall>it \<in> set (aq_items a). q_data q (fst it) = snd it) \<and>
     m_size q = of_nat (length (aq_items a)) \<and>
     m_active q = aq_active a \<and> q_log q = aq_log a"

text \<open>What \<open>malloc\<close> promises: an address that no node of the queue has.\<close>

fun fresh_op :: "ptr \<Rightarrow> qop \<Rightarrow> aqueue \<Rightarrow> bool" where
  "fresh_op head (Enqueue node d) a \<longleftrightarrow> node \<noteq> head \<and> node \<notin> fst ` set (aq_items a)"
| "fresh_op head (EnqueueWithPriority node d) a \<longleftrightarrow>
     node \<noteq> head \<and> node \<notin> fst ` set (aq_items a)"
| "fresh_op head _ a \<longleftrightarrow> True"


text \<open>The flushing loops return, and what they leave behind.\<close>

lemma flush_node_fields [simp]:
  "q_heap (flush_node p q) = cam_list_del_node p (q_heap q)"
  "q_data (flush_node p q) = q_data q"
  "m_head (flush_node p q) = m_head q"
  "m_size (flush_node p q) = m_size q - 1"
  "m_active (flush_node p q) = m_active q"
  "m_dataFn (flush_node p q) = m_dataFn q"
  "q_log (flush_node p q) = q_log q @ release_item (m_dataFn q) (p, q_data q p)"
  by (simp_all add: flush_node_def log_action_def release_item_def Let_def)

text \<open>
  \<open>flushNodes_loop\<close> at the first of the nodes \<open>ys\<close>, the nodes \<open>xs\<close> before it having been
  kept: it returns, keeps of \<open>ys\<close> what does not match and releases the others in order.
\<close>

lemma flushNodes_loop_ring:
  assumes "is_ring (q_heap q) (m_head q) (xs @ ys)"
  shows "\<exists>q'. flushNodes_loop match (hd (ys @ [m_head q])) q = Some q' \<and>
    is_ring (q_heap q') (m_head q) (xs @ filter (\<lambda>p. \<not> match (q_data q p)) ys) \<and>
    q_data q' = q_data q \<and> m_head q' = m_head q \<and> m_active q' = m_active q \<and>
    m_dataFn q' = m_dataFn q \<and>
    m_size q' = m_size q - of_nat (length (filter (\<lambda>p. match (q_data q p)) ys)) \<and>
    q_log q' = q_log q @ concat (map (\<lambda>p. release_item (m_dataFn q) (p, q_data q p))
      (filter (\<lambda>p. match (q_data q p)) ys))"
  using assms
proof (induction ys arbitrary: xs q)
  case Nil
  then show ?case by (simp add: flushNodes_loop.simps)
next
  case (Cons y ys)
  have "y \<noteq> m_head q" using Cons.prems by (auto simp: is_ring_def)
  moreover have "lnext (q_heap q) y = hd (ys @ [m_head q])"
    using ring_neighbours(2) [OF Cons.prems] .
  ultimately have step: "flushNodes_loop match (hd ((y # ys) @ [m_head q])) q =
      flushNodes_loop match (hd (ys @ [m_head q]))
        (if match (q_data q y) then flush_node y q else q)"
    by (simp add: flushNodes_loop.simps [of match y])
  show ?case
  proof (cases "match (q_data q y)")
    case True
    have "is_ring (q_heap (flush_node y q)) (m_head (flush_node y q)) (xs @ ys)"
      using ring_del(1) [OF Cons.prems] by simp
    from Cons.IH [OF this] True step show ?thesis by (auto simp: algebra_simps)
  next
    case False
    have "is_ring (q_heap q) (m_head q) ((xs @ [y]) @ ys)" using Cons.prems by simp
    from Cons.IH [OF this] False step show ?thesis by auto
  qed
qed

text \<open>\<open>flush_loop\<close> is the same loop for a function that matches everything.\<close>

lemma flush_loop_ring:
  assumes "is_ring (q_heap q) (m_head q) ys"
  shows "flush_loop (hd (ys @ [m_head q])) q = flushNodes_loop (\<lambda>_. True) (hd (ys @ [m_head q])) q"
  using assms
proof (induction ys arbitrary: q)
  case Nil
  then show ?case by (simp add: flushNodes_loop.simps flush_loop.simps)
next
  case (Cons y ys)
  have "y \<noteq> m_head q" using Cons.prems by (auto simp: is_ring_def)
  moreover have "lnext (q_heap q) y = hd (ys @ [m_head q])"
    using ring_neighbours(2) [of _ _ "[]"] Cons.prems by simp
  moreover have "is_ring (q_heap (flush_node y q)) (m_head (flush_node y q)) ys"
    using ring_del(1) [of _ _ "[]"] Cons.prems by simp
  ultimately show ?case
    using Cons.IH [of "flush_node y q"]
    by (simp add: flushNodes_loop.simps [of _ y] flush_loop.simps [of y])
qed


lemma queue_repD:
  assumes "queue_rep q a"
  shows "is_ring (q_heap q) (m_head q) (map fst (aq_items a))"
    and "m_head q \<noteq> NULL" and "NULL \<notin> fst ` set (aq_items a)"
    and "it \<in> set (aq_items a) \<Longrightarrow> q_data q (fst it) = snd it"
    and "m_size q = of_nat (length (aq_items a))"
    and "m_active q = aq_active a" and "q_log q = aq_log a"
  using assms by (auto simp: queue_rep_def)

lemma queue_rep_fields:
  assumes "queue_rep q a"
  shows "lnext (q_heap q) (m_head q) = hd (map fst (aq_items a) @ [m_head q])"
    and "lprev (q_heap q) (m_head q) = last (m_head q # map fst (aq_items a))"
    and "m_head q \<notin> fst ` set (aq_items a)" and "distinct (map fst (aq_items a))"
  using queue_repD(1) [OF assms] ring_next [OF queue_repD(1) [OF assms]]
    ring_prev [OF queue_repD(1) [OF assms]]
  by (simp_all add: is_ring_def)

lemma new_queue_rep:
  "head \<noteq> NULL \<Longrightarrow>
   queue_rep (QCameraQueue head fn h) \<lparr>aq_items = [], aq_active = True, aq_log = []\<rparr>"
  by (simp add: queue_rep_def QCameraQueue_def)

lemma enqueue_refines:
  assumes "queue_rep q a" "fresh_op (m_head q) (Enqueue node d) a"
  shows "case enqueue node d q of (rc, q') \<Rightarrow> case aq_insert False node d a of (r, a') \<Rightarrow>
    r = Success rc \<and> queue_rep q' a'"
  using assms ring_add_tail [OF queue_repD(1) [OF assms(1)], of node]
  by (auto simp: enqueue_def Let_def queue_rep_def log_action_def)

lemma enqueueWithPriority_refines:
  assumes "queue_rep q a" "fresh_op (m_head q) (EnqueueWithPriority node d) a"
  shows "case enqueueWithPriority node d q of (rc, q') \<Rightarrow> case aq_insert True node d a of (r, a') \<Rightarrow>
    r = Success rc \<and> queue_rep q' a'"
proof -
  let ?h = "set_prev node (m_head q) (set_next node (lnext (q_heap q) (m_head q))
    (set_prev (lnext (q_heap q) (m_head q)) node (set_next (m_head q) node (q_heap q))))"
  have "is_ring ?h (m_head q) ([] @ node # map fst (aq_items a))"
    if "node \<notin> set (m_head q # [] @ map fst (aq_items a))"
    using assms(1) queue_repD(1) [OF assms(1)] that queue_rep_fields(1) [OF assms(1)]
      hd_in_set [of "map fst (aq_items a) @ [m_head q]"]
    by (intro linked_insert [of "q_heap q"]) auto
  then show ?thesis using assms
    by (auto simp: enqueueWithPriority_def Let_def queue_rep_def log_action_def)
qed

lemma peek_refines:
  assumes "queue_rep q a"
  shows "fst (aq_step fn Peek a) = Data (peek q)"
  using assms queue_rep_fields [OF assms]
  by (cases "aq_items a") (auto simp: peek_def queue_rep_def)

lemma dequeue_refines:
  assumes "queue_rep q a"
  shows "case dequeue front q of (d, q') \<Rightarrow> case aq_step fn (Dequeue front) a of (r, a') \<Rightarrow>
    r = Data d \<and> queue_rep q' a'"
proof (cases "aq_active a \<and> aq_items a \<noteq> []")
  case True
  define xs where "xs = (if front then [] else butlast (aq_items a))"
  define ys where "ys = (if front then tl (aq_items a) else [])"
  define it where "it = (if front then hd (aq_items a) else last (aq_items a))"
  have items: "aq_items a = xs @ it # ys" using True by (simp add: xs_def ys_def it_def)
  have pos: "(if front then lnext (q_heap q) (m_head q) else lprev (q_heap q) (m_head q)) = fst it"
    using queue_rep_fields(1,2) [OF assms] True
    by (auto simp: it_def last_map hd_map hd_append)
  have "is_ring (cam_list_del_node (fst it) (q_heap q)) (m_head q) (map fst (xs @ ys))"
    using ring_del(1) [of "q_heap q" "m_head q" "map fst xs" "fst it" "map fst ys"]
      queue_repD(1) [OF assms] items by simp
  moreover have "(if front then tl (aq_items a) else butlast (aq_items a)) = xs @ ys"
    using True by (simp add: xs_def ys_def)
  moreover have "fst it \<noteq> m_head q" using items queue_rep_fields(3) [OF assms] by force
  ultimately show ?thesis
    using True assms pos items
    by (auto simp: dequeue_def queue_rep_def log_action_def Let_def it_def [symmetric])
next
  case False
  then show ?thesis using assms queue_rep_fields [OF assms]
    by (auto simp: dequeue_def queue_rep_def)
qed


lemma flush_items_refines:
  assumes "queue_rep q a"
  shows "\<exists>q'. flushNodes_loop match (lnext (q_heap q) (m_head q)) q = Some q' \<and>
    m_head q' = m_head q \<and> m_dataFn q' = m_dataFn q \<and>
    queue_rep q' (a\<lparr>aq_items := filter (\<lambda>it. \<not> match (snd it)) (aq_items a),
      aq_log := aq_log a @ concat (map (release_item (m_dataFn q))
        (filter (\<lambda>it. match (snd it)) (aq_items a)))\<rparr>)"
proof -
  let ?ns = "map fst (aq_items a)"
  have data: "it \<in> set (aq_items a) \<Longrightarrow> q_data q (fst it) = snd it" for it
    using queue_repD(4) [OF assms] .
  have keep: "filter (\<lambda>p. \<not> match (q_data q p)) ?ns =
      map fst (filter (\<lambda>it. \<not> match (snd it)) (aq_items a))"
    using data by (auto simp: filter_map o_def intro!: arg_cong [where f = "map fst"] filter_cong)
  have drop: "filter (\<lambda>p. match (q_data q p)) ?ns =
      map fst (filter (\<lambda>it. match (snd it)) (aq_items a))"
    using data by (auto simp: filter_map o_def intro!: arg_cong [where f = "map fst"] filter_cong)
  have log: "map (\<lambda>p. release_item (m_dataFn q) (p, q_data q p))
      (map fst (filter (\<lambda>it. match (snd it)) (aq_items a))) =
      map (release_item (m_dataFn q)) (filter (\<lambda>it. match (snd it)) (aq_items a))"
    using data by auto
  have size: "of_nat (length (filter (\<lambda>it. \<not> match (snd it)) (aq_items a))) =
      (of_nat (length (aq_items a)) - of_nat (length (filter (\<lambda>it. match (snd it)) (aq_items a)))
       :: int32)"
  proof -
    have "length (aq_items a) = length (filter (\<lambda>it. match (snd it)) (aq_items a)) +
        length (filter (\<lambda>it. \<not> match (snd it)) (aq_items a))"
      by (simp add: sum_length_filter_compl)
    then show ?thesis by simp
  qed
  have "is_ring (q_heap q) (m_head q) ([] @ ?ns)" using queue_repD(1) [OF assms] by simp
  from flushNodes_loop_ring [OF this, of match] obtain q' where
    "flushNodes_loop match (hd (?ns @ [m_head q])) q = Some q'"
    "is_ring (q_heap q') (m_head q) (filter (\<lambda>p. \<not> match (q_data q p)) ?ns)"
    "q_data q' = q_data q" "m_head q' = m_head q" "m_active q' = m_active q"
    "m_dataFn q' = m_dataFn q"
    "m_size q' = m_size q - of_nat (length (filter (\<lambda>p. match (q_data q p)) ?ns))"
    "q_log q' = q_log q @ concat (map (\<lambda>p. release_item (m_dataFn q) (p, q_data q p))
      (filter (\<lambda>p. match (q_data q p)) ?ns))"
    by auto
  then show ?thesis
    using assms queue_rep_fields(1) [OF assms]
    unfolding keep drop log
    by (auto simp: queue_rep_def size)
qed

lemma flush_refines:
  assumes "queue_rep q a"
  shows "\<exists>q'. flush q = Some q' \<and> m_head q' = m_head q \<and> m_dataFn q' = m_dataFn q \<and>
    queue_rep q' (snd (aq_step (m_dataFn q) Flush a))"
proof (cases "m_active q")
  case True
  from flush_items_refines [OF assms, of "\<lambda>_. True"] obtain q' where q':
    "flushNodes_loop (\<lambda>_. True) (lnext (q_heap q) (m_head q)) q = Some q'"
    "m_head q' = m_head q" "m_dataFn q' = m_dataFn q"
    "queue_rep q' (a\<lparr>aq_items := [],
       aq_log := aq_log a @ concat (map (release_item (m_dataFn q)) (aq_items a))\<rparr>)"
    by auto
  have "flush_loop (lnext (q_heap q) (m_head q)) q = Some q'"
    using flush_loop_ring [OF queue_repD(1) [OF assms]] queue_rep_fields(1) [OF assms] q'(1)
    by simp
  then show ?thesis using True q' assms by (auto simp: flush_def queue_rep_def)
next
  case False
  then show ?thesis using assms by (auto simp: flush_def queue_rep_def)
qed

text \<open>
  Every operation: it returns, with the result the list gives, and leaves a ring that
  represents the new list.
\<close>

lemma camq_step_refines:
  assumes "queue_rep q a" "fresh_op (m_head q) op a" "m_dataFn q = fn"
  shows "\<exists>q'. camq_step op q = Some (fst (aq_step fn op a), q') \<and>
    queue_rep q' (snd (aq_step fn op a)) \<and> m_head q' = m_head q \<and> m_dataFn q' = fn"
proof (cases op)
  case Init
  then show ?thesis using assms by (auto simp: q_init_def queue_rep_def)
next
  case (Enqueue node d)
  then show ?thesis using enqueue_refines [of q a node d] assms
    by (auto simp: enqueue_def Let_def log_action_def split: prod.splits if_splits)
next
  case (EnqueueWithPriority node d)
  then show ?thesis using enqueueWithPriority_refines [of q a node d] assms
    by (auto simp: enqueueWithPriority_def Let_def log_action_def split: prod.splits if_splits)
next
  case Peek
  then show ?thesis using peek_refines [OF assms(1)] assms by simp
next
  case (Dequeue front)
  have "m_head (snd (dequeue front q)) = m_head q \<and> m_dataFn (snd (dequeue front q)) = m_dataFn q"
    by (simp add: dequeue_def log_action_def Let_def)
  then show ?thesis using Dequeue dequeue_refines [OF assms(1), of fn front] assms(3)
    by (cases "dequeue front q"; cases "aq_step fn (Dequeue front) a")
      (simp del: aq_step.simps)
next
  case Flush
  then show ?thesis using flush_refines [OF assms(1)] assms(3) by (auto simp: finished_def)
next
  case (FlushNodes match)
  then show ?thesis
  proof (cases match)
    case (Some m)
    then show ?thesis using FlushNodes flush_items_refines [OF assms(1), of m] assms
      by (auto simp: finished_def flushNodes_def queue_repD(6) [OF assms(1)])
  qed (use assms in \<open>simp add: finished_def flushNodes_def\<close>)
qed


section \<open>Sequences of operations\<close>

fun camq_run :: "qop list \<Rightarrow> camq \<Rightarrow> (qresult list \<times> camq) option" where
  "camq_run [] q = Some ([], q)"
| "camq_run (op # ops) q =
    (case camq_step op q of
       None \<Rightarrow> None
     | Some (r, q) \<Rightarrow>
         (case camq_run ops q of None \<Rightarrow> None | Some (rs, q) \<Rightarrow> Some (r # rs, q)))"

fun aq_run :: "bool \<Rightarrow> qop list \<Rightarrow> aqueue \<Rightarrow> qresult list \<times> aqueue" where
  "aq_run fn [] a = ([], a)"
| "aq_run fn (op # ops) a =
    (case aq_step fn op a of (r, a) \<Rightarrow> case aq_run fn ops a of (rs, a) \<Rightarrow> (r # rs, a))"

fun fresh_ops :: "ptr \<Rightarrow> bool \<Rightarrow> qop list \<Rightarrow> aqueue \<Rightarrow> bool" where
  "fresh_ops head fn [] a \<longleftrightarrow> True"
| "fresh_ops head fn (op # ops) a \<longleftrightarrow>
     fresh_op head op a \<and> fresh_ops head fn ops (snd (aq_step fn op a))"

definition empty_aqueue :: aqueue where
  "empty_aqueue = \<lparr>aq_items = [], aq_active = True, aq_log = []\<rparr>"

lemma camq_run_refines:
  assumes "queue_rep q a" "fresh_ops (m_head q) fn ops a" "m_dataFn q = fn"
  shows "\<exists>q'. camq_run ops q = Some (fst (aq_run fn ops a), q') \<and>
    queue_rep q' (snd (aq_run fn ops a)) \<and> m_head q' = m_head q"
  using assms
proof (induction ops arbitrary: q a)
  case (Cons op ops)
  obtain q1 where q1: "camq_step op q = Some (fst (aq_step fn op a), q1)"
    "queue_rep q1 (snd (aq_step fn op a))" "m_head q1 = m_head q" "m_dataFn q1 = fn"
    using camq_step_refines [OF Cons.prems(1) _ Cons.prems(3), of op] Cons.prems(2) by auto
  from Cons.IH [OF q1(2) _ q1(4)] Cons.prems(2) q1
  show ?case by (auto split: prod.splits simp del: aq_step.simps)
qed simp

text \<open>The nodes \<open>malloc\<close> gave to a sequence of operations, and those given to \<open>free\<close>.\<close>

fun given :: "qop list \<Rightarrow> ptr list" where
  "given [] = []"
| "given (Enqueue node d # ops) = (if node = NULL then given ops else node # given ops)"
| "given (EnqueueWithPriority node d # ops) =
    (if node = NULL then given ops else node # given ops)"
| "given (_ # ops) = given ops"

fun freed :: "qaction list \<Rightarrow> ptr list" where
  "freed [] = []"
| "freed (FreeNode p # as) = p # freed as"
| "freed (_ # as) = freed as"

lemma freed_append [simp]: "freed (as @ bs) = freed as @ freed bs"
  by (induction as rule: freed.induct) simp_all

lemma freed_release [simp]: "freed (concat (map (release_item fn) its)) = map fst its"
  by (induction its) (auto simp: release_item_def)

lemma aq_step_nodes:
  "mset (map fst (aq_items (snd (aq_step fn op a)))) + mset (freed (aq_log (snd (aq_step fn op a)))) =
   mset (map fst (aq_items a)) + mset (freed (aq_log a)) + mset (given [op])"
proof (cases op)
  case (Dequeue front)
  show ?thesis
  proof (cases "aq_items a" rule: rev_cases)
    case (snoc its it)
    then show ?thesis using Dequeue by (cases its) auto
  qed (use Dequeue in simp)
next
  case (FlushNodes match)
  show ?thesis
  proof (cases match)
    case (Some m)
    have "mset (map fst (filter (\<lambda>it. \<not> m (snd it)) its)) +
        mset (map fst (filter (\<lambda>it. m (snd it)) its)) = mset (map fst its)"
      for its :: "(ptr \<times> ptr) list"
      by (induction its) auto
    then show ?thesis using FlushNodes Some by (simp add: add.commute add.left_commute) 
  qed (use FlushNodes in simp)
qed auto

lemma aq_run_nodes:
  "mset (map fst (aq_items (snd (aq_run fn ops a)))) + mset (freed (aq_log (snd (aq_run fn ops a)))) =
   mset (map fst (aq_items a)) + mset (freed (aq_log a)) + mset (given ops)"
proof (induction ops arbitrary: a)
  case (Cons op ops)
  have "given (op # ops) = given [op] @ given ops"
    by (cases op) simp_all
  then show ?case
    using Cons.IH [of "snd (aq_step fn op a)"] aq_step_nodes [of fn op a]
    by (simp add: ac_simps split_beta del: aq_step.simps given.simps)
qed simp


section \<open>The contract of a work queue\<close>

definition queue_holds :: "camq \<Rightarrow> ptr list \<Rightarrow> bool" where
  "queue_holds q ds \<longleftrightarrow>
     NULL \<notin> set ds \<and> (\<exists>a. queue_rep q a \<and> aq_active a \<and> map snd (aq_items a) = ds)"

definition enqueue_node :: "ptr \<times> ptr \<Rightarrow> camq \<Rightarrow> camq" where
  "enqueue_node x q = snd (enqueue (fst x) (snd x) q)"

definition enqueue_ok :: "ptr \<times> ptr \<Rightarrow> camq \<Rightarrow> bool" where
  "enqueue_ok x q \<longleftrightarrow> fst x \<noteq> NULL \<and> snd x \<noteq> NULL \<and>
     (\<forall>a. queue_rep q a \<longrightarrow> fresh_op (m_head q) (Enqueue (fst x) (snd x)) a)"

definition dequeue_data :: "camq \<Rightarrow> (ptr \<times> camq) option" where
  "dequeue_data q =
    (case dequeue True q of (d, q) \<Rightarrow> if d = NULL then None else Some (d, q))"

interpretation cq: work_queue queue_holds enqueue_node dequeue_data snd enqueue_ok
proof unfold_locales
  fix q ds and x :: "ptr \<times> ptr"
  assume "queue_holds q ds" "enqueue_ok x q"
  then obtain a where a: "queue_rep q a" "aq_active a" "map snd (aq_items a) = ds" "NULL \<notin> set ds"
    "fst x \<noteq> NULL" "snd x \<noteq> NULL" "fresh_op (m_head q) (Enqueue (fst x) (snd x)) a"
    by (auto simp: queue_holds_def enqueue_ok_def)
  then show "queue_holds (enqueue_node x q) (ds @ [snd x])"
    using enqueue_refines [OF a(1,7)]
    by (auto simp: queue_holds_def enqueue_node_def split: prod.splits)
next
  fix q d ds
  assume "queue_holds q (d # ds)"
  then obtain a where "queue_rep q a" "aq_active a" "map snd (aq_items a) = d # ds"
    "NULL \<notin> set (d # ds)"
    by (auto simp: queue_holds_def)
  then show "\<exists>q'. dequeue_data q = Some (d, q') \<and> queue_holds q' ds"
    using dequeue_refines [of q a True True]
    by (auto simp: queue_holds_def dequeue_data_def map_eq_Cons_conv Let_def split: prod.splits)
next
  fix q
  assume "queue_holds q []"
  then obtain a where "queue_rep q a" "aq_items a = []" by (auto simp: queue_holds_def)
  then show "dequeue_data q = None"
    using dequeue_refines [of q a True True] by (auto simp: dequeue_data_def split: prod.splits)
qed

section \<open>Properties\<close>

text \<open>
  C7: from the constructor, every sequence of operations on the ring of pointers returns (the
  flushing loops end) and gives the results the list queue gives, with the ring representing
  the list, provided that \<open>malloc\<close> returns addresses that are not in use.
\<close>

theorem queue_runs_refine:
  assumes "head \<noteq> NULL" "fresh_ops head fn ops empty_aqueue"
  shows "\<exists>q. camq_run ops (QCameraQueue head fn h) = Some (fst (aq_run fn ops empty_aqueue), q) \<and>
    queue_rep q (snd (aq_run fn ops empty_aqueue))"
  using assms camq_run_refines [OF new_queue_rep [OF assms(1)], of fn h fn ops]
  by (auto simp: empty_aqueue_def QCameraQueue_def)

definition test_ops :: "qop list" where
  "test_ops = [Enqueue 16 100, EnqueueWithPriority 24 200, Enqueue 32 300, Dequeue True,
     FlushNodes (Some (\<lambda>d. d = 300)), Enqueue 24 400, Flush, Enqueue 40 500]"

definition test_heap :: list_heap where
  "test_heap = \<lparr>lnext = (\<lambda>_. NULL), lprev = (\<lambda>_. NULL)\<rparr>"

theorem queue_runs_refine_witness:
  "\<exists>q. camq_run test_ops (QCameraQueue 8 True test_heap) =
     Some ([Success True, Success True, Success True, Data 200, Done, Success True, Done,
            Success False], q) \<and>
     q_log q = [FreeNode 24, DataFn 300, FreeData 300, FreeNode 32, DataFn 100, FreeData 100,
       FreeNode 16, DataFn 400, FreeData 400, FreeNode 24, FreeNode 40]"
  using queue_runs_refine [of 8 True test_ops test_heap]
  by (auto simp: test_ops_def empty_aqueue_def release_item_def queue_rep_def Let_def)

text \<open>
  no node is lost and none is freed twice: after any sequence of operations from the
  constructor, the nodes \<open>malloc\<close> gave are those still in the queue and those freed, each as
  often as it was given.
\<close>

lemma queue_no_leak:
  assumes "head \<noteq> NULL" "fresh_ops head fn ops empty_aqueue"
  shows "\<exists>rs q ns. camq_run ops (QCameraQueue head fn h) = Some (rs, q) \<and>
    is_ring (q_heap q) head ns \<and>
    mset (given ops) = mset ns + mset (freed (q_log q))"
proof -
  let ?a = "snd (aq_run fn ops empty_aqueue)"
  obtain rs q where q: "camq_run ops (QCameraQueue head fn h) = Some (rs, q)" "queue_rep q ?a"
    "m_head q = head"
    using assms camq_run_refines [OF new_queue_rep [OF assms(1)], of fn h fn ops]
    by (auto simp: empty_aqueue_def QCameraQueue_def)
  have "mset (given ops) = mset (map fst (aq_items ?a)) + mset (freed (q_log q))"
    using aq_run_nodes [of fn ops empty_aqueue] queue_repD(7) [OF q(2)]
    by (simp add: empty_aqueue_def)
  then show ?thesis using q queue_repD(1) [OF q(2)] by metis
qed

lemma queue_no_leak_example:
  "\<exists>rs q ns. camq_run test_ops (QCameraQueue 8 True test_heap) = Some (rs, q) \<and>
    is_ring (q_heap q) 8 ns \<and>
    mset [16, 24, 32, 24, 40] = mset ns + mset (freed (q_log q))"
  using queue_no_leak [of 8 True test_ops test_heap]
  by (simp add: test_ops_def empty_aqueue_def Let_def)

text \<open>
  the queue is first in, first out: dequeued until it is empty, it gives the data in the
  order they were enqueued, and then \<open>NULL\<close>.
\<close>

lemma queue_drains_in_order:
  assumes "queue_holds q ds"
  shows "\<exists>q'. drain dequeue_data (length ds) q = (ds, q') \<and> dequeue_data q' = None"
  using cq.drain_all [OF assms] cq.rep_deq_empty by blast

definition test_queue :: camq where
  "test_queue = enqueue_node (24, 200) (enqueue_node (16, 100) (QCameraQueue 8 True test_heap))"

lemma queue_drains_in_order_example:
  "\<exists>q. drain dequeue_data 2 test_queue = ([100, 200], q) \<and> dequeue_data q = None"
proof -
  have "queue_rep test_queue
      \<lparr>aq_items = [(16, 100), (24, 200)], aq_active = True, aq_log = []\<rparr>"
    by (simp add: test_queue_def enqueue_node_def enqueue_def QCameraQueue_def queue_rep_def
        is_ring_def cam_list_add_tail_node_def cam_list_init_def Let_def)
  then have "queue_holds test_queue [100, 200]" by (force simp: queue_holds_def)
  from queue_drains_in_order [OF this] show ?thesis by (simp add: numeral_2_eq_2)
qed

end
