(* ===== verification/SmThread.thy ===== *)
theory SmThread
  imports CamStateMachine
begin

text \<open>
  The thread of the camera state machine: the two command queues, the semaphore and the
  loop \<open>smEvtProcRoutine\<close> of \<open>QCameraStateMachine.cpp\<close>, interleaved in any order with the
  callers of \<open>procAPI\<close>, \<open>procEvt\<close> and \<open>releaseThread\<close>, which enqueue a command and post the
  semaphore in two separate steps.

  The queues are lists here (\<open>CamQueue\<close> shows that the ring of pointers behaves like one);
  they are active from the constructor on. \<open>pthread_cond_wait\<close> is assumed not to fail, so
  that \<open>cam_sem_wait\<close> returns zero once it has taken a token.
\<close>

section \<open>Commands and the thread's state\<close>

datatype qcamera_sm_cmd_type =
    QCAMERA_SM_CMD_TYPE_API
  | QCAMERA_SM_CMD_TYPE_EVT
  | QCAMERA_SM_CMD_TYPE_EXIT

record qcamera_sm_cmd =
  cmd :: qcamera_sm_cmd_type
  evt :: qcamera_sm_evt
  evt_payload :: payload

text \<open>Where the loop is: at its wait, after the wait, after an empty API queue, with a node.\<close>

datatype thread_pc = Waiting | Woken | NoApiCmd | Got qcamera_sm_cmd | Exited

record 'h thr =
  machine :: "'h sm"
  api_queue :: "qcamera_sm_cmd list"
  api_active :: bool
  evt_queue :: "qcamera_sm_cmd list"
  evt_active :: bool
  cmd_sem :: nat
  thread_pc :: thread_pc

text \<open>Ghost fields: enqueued but not yet posted; all commands ever enqueued; all executed.\<close>

record 'h gthr = "'h thr" +
  unposted :: nat
  api_in :: "qcamera_sm_cmd list"
  evt_in :: "qcamera_sm_cmd list"
  executed :: "qcamera_sm_cmd list"

definition init_thr :: "'h \<Rightarrow> 'h gthr" where
  "init_thr h =
    \<lparr>machine = init_sm h, api_queue = [], api_active = True, evt_queue = [], evt_active = True,
     cmd_sem = 0, thread_pc = Waiting, unposted = 0, api_in = [], evt_in = [], executed = []\<rparr>"

section \<open>The callers\<close>

datatype proc_status = PROC_NO_ERROR | PROC_NO_MEMORY | PROC_UNKNOWN_ERROR

text \<open>
  \<open>procAPI\<close> and \<open>procEvt\<close> up to their \<open>cam_sem_post\<close>; the first two arguments say whether
  \<open>malloc\<close> succeeds, for the command and for the node that \<open>enqueue\<close> puts it in.
\<close>

definition procAPI ::
  "bool \<Rightarrow> bool \<Rightarrow> qcamera_sm_evt \<Rightarrow> payload \<Rightarrow> 'h gthr \<Rightarrow> proc_status \<times> 'h gthr" where
  "procAPI mem qmem ev p t =
    (if \<not> mem then (PROC_NO_MEMORY, t)
     else
       let node = \<lparr>cmd = QCAMERA_SM_CMD_TYPE_API, evt = ev, evt_payload = p\<rparr>
       in if qmem \<and> api_active t then
            (PROC_NO_ERROR, t\<lparr>api_queue := api_queue t @ [node], unposted := unposted t + 1,
                             api_in := api_in t @ [node]\<rparr>)
          else (PROC_UNKNOWN_ERROR, t))"

definition procEvt ::
  "bool \<Rightarrow> bool \<Rightarrow> qcamera_sm_evt \<Rightarrow> payload \<Rightarrow> 'h gthr \<Rightarrow> proc_status \<times> 'h gthr" where
  "procEvt mem qmem ev p t =
    (if \<not> mem then (PROC_NO_MEMORY, t)
     else
       let node = \<lparr>cmd = QCAMERA_SM_CMD_TYPE_EVT, evt = ev, evt_payload = p\<rparr>
       in if qmem \<and> evt_active t then
            (PROC_NO_ERROR, t\<lparr>evt_queue := evt_queue t @ [node], unposted := unposted t + 1,
                             evt_in := evt_in t @ [node]\<rparr>)
          else (PROC_UNKNOWN_ERROR, t))"

text \<open>
  \<open>releaseThread\<close> up to the post: the node is zeroed but for its type, so its event and
  payload, which nobody reads, are arbitrary.
\<close>

definition releaseThread ::
  "bool \<Rightarrow> bool \<Rightarrow> qcamera_sm_evt \<Rightarrow> payload \<Rightarrow> 'h gthr \<Rightarrow> 'h gthr" where
  "releaseThread mem qmem ev p t =
    (if \<not> mem then t
     else
       let node = \<lparr>cmd = QCAMERA_SM_CMD_TYPE_EXIT, evt = ev, evt_payload = p\<rparr>
       in if qmem \<and> api_active t then
            t\<lparr>api_queue := api_queue t @ [node], unposted := unposted t + 1,
              api_in := api_in t @ [node]\<rparr>
          else t)"

definition cam_sem_post :: "'h gthr \<Rightarrow> 'h gthr" where
  "cam_sem_post t = t\<lparr>cmd_sem := cmd_sem t + 1, unposted := unposted t - 1\<rparr>"

section \<open>The loop\<close>

text \<open>\<open>cam_sem_wait\<close> blocks while the value is zero.\<close>

definition cam_sem_wait :: "'h gthr \<Rightarrow> 'h gthr option" where
  "cam_sem_wait t =
    (if cmd_sem t = 0 then None
     else Some (t\<lparr>cmd_sem := cmd_sem t - 1, thread_pc := Woken\<rparr>))"

definition dequeue_api :: "'h gthr \<Rightarrow> 'h gthr" where
  "dequeue_api t =
    (case api_queue t of
       c # cs \<Rightarrow> if api_active t then t\<lparr>api_queue := cs, thread_pc := Got c\<rparr>
                 else t\<lparr>thread_pc := NoApiCmd\<rparr>
     | [] \<Rightarrow> t\<lparr>thread_pc := NoApiCmd\<rparr>)"

definition dequeue_evt :: "'h gthr \<Rightarrow> 'h gthr" where
  "dequeue_evt t =
    (case evt_queue t of
       c # cs \<Rightarrow> if evt_active t then t\<lparr>evt_queue := cs, thread_pc := Got c\<rparr>
                 else t\<lparr>thread_pc := Waiting\<rparr>
     | [] \<Rightarrow> t\<lparr>thread_pc := Waiting\<rparr>)"

definition execute_cmd :: "'h env \<Rightarrow> qcamera_sm_cmd \<Rightarrow> 'h gthr \<Rightarrow> 'h gthr" where
  "execute_cmd E c t =
    (case cmd c of
       QCAMERA_SM_CMD_TYPE_API \<Rightarrow>
         t\<lparr>machine := sm_step E (machine t) (evt c, evt_payload c), thread_pc := Waiting,
           executed := executed t @ [c]\<rparr>
     | QCAMERA_SM_CMD_TYPE_EVT \<Rightarrow>
         t\<lparr>machine := sm_step E (machine t) (evt c, evt_payload c), thread_pc := Waiting,
           executed := executed t @ [c]\<rparr>
     | QCAMERA_SM_CMD_TYPE_EXIT \<Rightarrow>
         t\<lparr>thread_pc := Exited, executed := executed t @ [c]\<rparr>)"

text \<open>One step of the thread; \<open>None\<close> when it blocks or has ended.\<close>

definition thread_step :: "'h env \<Rightarrow> 'h gthr \<Rightarrow> 'h gthr option" where
  "thread_step E t =
    (case thread_pc t of
       Waiting \<Rightarrow> cam_sem_wait t
     | Woken \<Rightarrow> Some (dequeue_api t)
     | NoApiCmd \<Rightarrow> Some (dequeue_evt t)
     | Got c \<Rightarrow> Some (execute_cmd E c t)
     | Exited \<Rightarrow> None)"

inductive thr_step :: "'h env \<Rightarrow> 'h gthr \<Rightarrow> 'h gthr \<Rightarrow> bool" for E where
  call_api: "procAPI mem qmem ev p t = (rc, t') \<Longrightarrow> thr_step E t t'"
| call_evt: "procEvt mem qmem ev p t = (rc, t') \<Longrightarrow> thr_step E t t'"
| call_release: "thr_step E t (releaseThread mem qmem ev p t)"
| post: "unposted t > 0 \<Longrightarrow> thr_step E t (cam_sem_post t)"
| run: "thread_step E t = Some t' \<Longrightarrow> thr_step E t t'"

definition thr_reachable :: "'h env \<Rightarrow> 'h \<Rightarrow> 'h gthr \<Rightarrow> bool" where
  "thr_reachable E h = (thr_step E)\<^sup>*\<^sup>* (init_thr h)"

inductive_cases thr_stepE: "thr_step E t t'"

section \<open>The invariant\<close>

text \<open>The commands the thread has taken out of the queues.\<close>

definition taken :: "'h gthr \<Rightarrow> qcamera_sm_cmd list" where
  "taken t = executed t @ (case thread_pc t of Got c \<Rightarrow> [c] | _ \<Rightarrow> [])"

definition from_evt :: "qcamera_sm_cmd \<Rightarrow> bool" where
  "from_evt c \<longleftrightarrow> cmd c = QCAMERA_SM_CMD_TYPE_EVT"

definition is_exit :: "qcamera_sm_cmd \<Rightarrow> bool" where
  "is_exit c \<longleftrightarrow> cmd c = QCAMERA_SM_CMD_TYPE_EXIT"

definition tokens :: "'h gthr \<Rightarrow> nat" where
  "tokens t = cmd_sem t + unposted t +
     (case thread_pc t of Woken \<Rightarrow> 1 | NoApiCmd \<Rightarrow> 1 | _ \<Rightarrow> 0)"

definition machine_events :: "qcamera_sm_cmd list \<Rightarrow> (qcamera_sm_evt \<times> payload) list" where
  "machine_events cs = map (\<lambda>c. (evt c, evt_payload c)) (filter (\<lambda>c. \<not> is_exit c) cs)"

definition thr_inv :: "'h env \<Rightarrow> 'h \<Rightarrow> 'h gthr \<Rightarrow> bool" where
  "thr_inv E h t \<longleftrightarrow>
     api_active t \<and> evt_active t \<and>
     tokens t = length (api_queue t) + length (evt_queue t) \<and>
     (thread_pc t = NoApiCmd \<longrightarrow> evt_queue t \<noteq> []) \<and>
     api_in t = filter (\<lambda>c. \<not> from_evt c) (taken t) @ api_queue t \<and>
     evt_in t = filter from_evt (taken t) @ evt_queue t \<and>
     list_all (\<lambda>c. \<not> from_evt c) (api_queue t) \<and> list_all from_evt (evt_queue t) \<and>
     machine t = sm_run E (init_sm h) (machine_events (executed t)) \<and>
     filter is_exit (executed t) = (if thread_pc t = Exited then [last (executed t)] else [])"

lemma machine_events_snoc [simp]:
  "machine_events (cs @ [c]) = machine_events cs @ (if is_exit c then [] else [(evt c, evt_payload c)])"
  by (simp add: machine_events_def)

lemma sm_run_snoc [simp]: "sm_run E s (es @ [e]) = sm_step E (sm_run E s es) e"
  by (simp add: sm_run_def)

lemma init_thr_inv: "thr_inv E h (init_thr h)"
  by (simp add: thr_inv_def init_thr_def tokens_def taken_def machine_events_def sm_run_def)

lemmas thr_inv_simps = thr_inv_def tokens_def taken_def from_evt_def is_exit_def

lemma callers_inv:
  assumes "thr_inv E h t"
  shows "thr_inv E h (snd (procAPI mem qmem ev p t))" "thr_inv E h (snd (procEvt mem qmem ev p t))"
    "thr_inv E h (releaseThread mem qmem ev p t)"
    "unposted t > 0 \<Longrightarrow> thr_inv E h (cam_sem_post t)"
  using assms
  by (auto simp: procAPI_def procEvt_def releaseThread_def cam_sem_post_def Let_def thr_inv_simps
      split: thread_pc.splits)

lemma thread_step_inv:
  assumes "thr_inv E h t" "thread_step E t = Some t'"
  shows "thr_inv E h t'"
proof (cases "thread_pc t")
  case Waiting
  then show ?thesis using assms
    by (auto simp: thread_step_def cam_sem_wait_def thr_inv_simps split: if_splits)
next
  case Woken
  then show ?thesis using assms
    by (cases "api_queue t") (simp_all add: thread_step_def dequeue_api_def thr_inv_def tokens_def taken_def, auto)
next
  case NoApiCmd
  then show ?thesis using assms
    by (cases "evt_queue t") (simp_all add: thread_step_def dequeue_evt_def thr_inv_def tokens_def taken_def, auto)
next
  case (Got c)
  have "from_evt c \<longleftrightarrow> cmd c = QCAMERA_SM_CMD_TYPE_EVT"
    "is_exit c \<longleftrightarrow> cmd c = QCAMERA_SM_CMD_TYPE_EXIT"
    by (simp_all add: from_evt_def is_exit_def)
  then show ?thesis using Got assms
    by (cases "cmd c")
      (auto simp add: thread_step_def execute_cmd_def thr_inv_def tokens_def taken_def)
next
  case Exited
  then show ?thesis using assms by (simp add: thread_step_def)
qed

lemma thr_step_inv:
  assumes "thr_step E t t'" "thr_inv E h t"
  shows "thr_inv E h t'"
  using assms(1)
proof cases
  case (call_api mem qmem ev p rc)
  then show ?thesis using callers_inv(1) [OF assms(2), of mem qmem ev p] by simp
next
  case (call_evt mem qmem ev p rc)
  then show ?thesis using callers_inv(2) [OF assms(2), of mem qmem ev p] by simp
next
  case (call_release mem qmem ev p)
  then show ?thesis using callers_inv(3) [OF assms(2)] by simp
next
  case post
  then show ?thesis using callers_inv(4) [OF assms(2)] by simp
next
  case run
  then show ?thesis using thread_step_inv [OF assms(2)] by simp
qed

lemma reachable_inv: "thr_reachable E h t \<Longrightarrow> thr_inv E h t"
  unfolding thr_reachable_def
  by (induction rule: rtranclp_induct) (auto intro: init_thr_inv thr_step_inv)

section \<open>The thread left alone\<close>

fun thread_run :: "'h env \<Rightarrow> nat \<Rightarrow> 'h gthr \<Rightarrow> 'h gthr" where
  "thread_run E 0 t = t"
| "thread_run E (Suc n) t =
    (case thread_step E t of None \<Rightarrow> t | Some t' \<Rightarrow> thread_run E n t')"

lemma thread_run_add: "thread_run E (m + n) t = thread_run E n (thread_run E m t)"
proof (induction m arbitrary: t)
  case (Suc m)
  show ?case
  proof (cases "thread_step E t")
    case None
    then show ?thesis by (cases n) simp_all
  qed (simp add: Suc.IH)
qed simp

lemmas thread_step_defs = thread_step_def cam_sem_wait_def dequeue_api_def dequeue_evt_def
  execute_cmd_def is_exit_def

text \<open>The state after a command \<open>c\<close> was taken and executed.\<close>

definition after_cmd :: "'h env \<Rightarrow> qcamera_sm_cmd \<Rightarrow> 'h gthr \<Rightarrow> 'h gthr" where
  "after_cmd E c t = t\<lparr>machine := sm_step E (machine t) (evt c, evt_payload c),
     cmd_sem := cmd_sem t - 1, executed := executed t @ [c]\<rparr>"

lemma after_cmd_queues:
  "(after_cmd E c t)\<lparr>api_queue := q\<rparr> = after_cmd E c (t\<lparr>api_queue := q\<rparr>)"
  "(after_cmd E c t)\<lparr>evt_queue := q\<rparr> = after_cmd E c (t\<lparr>evt_queue := q\<rparr>)"
  by (simp_all add: after_cmd_def gthr.equality)

lemma run_api_cmd:
  assumes "thread_pc t = Waiting" "cmd_sem t > 0" "api_active t" "api_queue t = c # cs"
  shows "\<not> is_exit c \<Longrightarrow> thread_run E 3 t = after_cmd E c (t\<lparr>api_queue := cs\<rparr>)"
    and "is_exit c \<Longrightarrow> thread_run E 3 t = t\<lparr>api_queue := cs, cmd_sem := cmd_sem t - 1,
      thread_pc := Exited, executed := executed t @ [c]\<rparr>"
  using assms
  by (cases "cmd c"; simp add: numeral_3_eq_3 thread_step_defs after_cmd_def)+

lemma run_evt_cmd:
  assumes "thread_pc t = Waiting" "cmd_sem t > 0" "evt_active t" "api_queue t = []"
    "evt_queue t = c # cs" "from_evt c"
  shows "thread_run E 4 t = after_cmd E c (t\<lparr>evt_queue := cs\<rparr>)"
  using assms
  by (simp add: eval_nat_numeral thread_step_defs after_cmd_def from_evt_def)

definition after_cmds :: "'h env \<Rightarrow> qcamera_sm_cmd list \<Rightarrow> 'h gthr \<Rightarrow> 'h gthr" where
  "after_cmds E cs t = foldl (\<lambda>t c. after_cmd E c t) t cs"

lemma after_cmds_fields [simp]:
  "api_queue (after_cmds E cs t) = api_queue t" "evt_queue (after_cmds E cs t) = evt_queue t"
  "api_active (after_cmds E cs t) = api_active t" "evt_active (after_cmds E cs t) = evt_active t"
  "thread_pc (after_cmds E cs t) = thread_pc t" "unposted (after_cmds E cs t) = unposted t"
  "cmd_sem (after_cmds E cs t) = cmd_sem t - length cs"
  "executed (after_cmds E cs t) = executed t @ cs"
  "machine (after_cmds E cs t) = sm_run E (machine t) (map (\<lambda>c. (evt c, evt_payload c)) cs)"
  by (induction cs arbitrary: t) (simp_all add: after_cmds_def after_cmd_def sm_run_def)

lemma after_cmds_queues:
  "(after_cmds E cs t)\<lparr>evt_queue := q\<rparr> = after_cmds E cs (t\<lparr>evt_queue := q\<rparr>)"
  by (induction cs arbitrary: t) (simp_all add: after_cmds_def after_cmd_queues)

lemma run_api_cmds:
  assumes "thread_pc t = Waiting" "cmd_sem t \<ge> length cs" "api_active t"
    "api_queue t = cs @ ds" "list_all (\<lambda>c. \<not> is_exit c) cs"
  shows "thread_run E (3 * length cs) t = after_cmds E cs (t\<lparr>api_queue := ds\<rparr>)"
  using assms
proof (induction cs arbitrary: t)
  case Nil
  then show ?case by (simp add: after_cmds_def)
next
  case (Cons c cs)
  let ?t = "after_cmd E c (t\<lparr>api_queue := cs @ ds\<rparr>)"
  have "thread_run E (3 * length (c # cs)) t = thread_run E (3 * length cs) ?t"
    using run_api_cmd(1) [of t c "cs @ ds" E] Cons.prems
      thread_run_add [of E 3 "3 * length cs" t] by simp
  also have "\<dots> = after_cmds E cs (?t\<lparr>api_queue := ds\<rparr>)"
    using Cons.prems by (intro Cons.IH) (simp_all add: after_cmd_def)
  finally show ?case by (simp add: after_cmds_def after_cmd_queues)
qed

lemma run_evt_cmds:
  assumes "thread_pc t = Waiting" "cmd_sem t \<ge> length cs" "evt_active t"
    "api_queue t = []" "evt_queue t = cs" "list_all from_evt cs"
  shows "thread_run E (4 * length cs) t = after_cmds E cs (t\<lparr>evt_queue := []\<rparr>)"
  using assms
proof (induction cs arbitrary: t)
  case Nil
  then show ?case by (simp add: after_cmds_def)
next
  case (Cons c cs)
  let ?t = "after_cmd E c (t\<lparr>evt_queue := cs\<rparr>)"
  have "thread_run E (4 * length (c # cs)) t = thread_run E (4 * length cs) ?t"
    using run_evt_cmd [of t c cs E] Cons.prems
      thread_run_add [of E 4 "4 * length cs" t] by simp
  also have "\<dots> = after_cmds E cs (?t\<lparr>evt_queue := []\<rparr>)"
    using Cons.prems by (intro Cons.IH) (simp_all add: after_cmd_def)
  finally show ?case by (simp add: after_cmds_def after_cmd_queues)
qed

lemma run_all_cmds:
  assumes "thr_inv E h t" "thread_pc t = Waiting" "unposted t = 0"
    "list_all (\<lambda>c. \<not> is_exit c) (api_queue t)"
  shows "thread_run E (3 * length (api_queue t) + 4 * length (evt_queue t)) t =
    after_cmds E (api_queue t @ evt_queue t) (t\<lparr>api_queue := [], evt_queue := []\<rparr>)"
proof -
  let ?t = "after_cmds E (api_queue t) (t\<lparr>api_queue := []\<rparr>)"
  have sem: "cmd_sem t = length (api_queue t) + length (evt_queue t)"
    using assms(1-3) by (simp add: thr_inv_def tokens_def)
  have "thread_run E (3 * length (api_queue t)) t = ?t"
    using assms sem by (intro run_api_cmds) (simp_all add: thr_inv_def)
  moreover have "thread_run E (4 * length (evt_queue t)) ?t =
      after_cmds E (evt_queue t) (?t\<lparr>evt_queue := []\<rparr>)"
    using assms sem run_evt_cmds [of ?t "evt_queue t" E] by (simp add: thr_inv_def)
  ultimately show ?thesis
    by (simp add: thread_run_add after_cmds_queues) (simp add: after_cmds_def)
qed

section \<open>Properties\<close>

text \<open>
  C6: no wake-up is lost and none is wasted: whatever the interleaving with the callers, the
  tokens (posted, about to be posted, or taken by the thread) are as many as the commands
  waiting; so the thread blocks only if no posted command waits, and when it finds the API
  queue empty there is an event to process.
\<close>

theorem thread_tokens:
  assumes "thr_reachable E h t"
  shows "tokens t = length (api_queue t) + length (evt_queue t) \<and>
    (thread_step E t \<noteq> None \<or> thread_pc t = Exited \<or>
      length (api_queue t) + length (evt_queue t) = unposted t) \<and>
    (thread_pc t \<noteq> NoApiCmd \<or> evt_queue t \<noteq> [])"
  using reachable_inv [OF assms]
  by (cases "thread_pc t") (auto simp: thr_inv_def tokens_def thread_step_def cam_sem_wait_def)

text \<open>
  C22: commands are processed in the order they were enqueued, separately for API commands and
  events, none twice and none dropped, whatever the interleaving; and the camera state machine
  is in the state its specification reaches by the processed commands in that order.
\<close>

theorem thread_order:
  assumes "thr_reachable E h t"
  shows "api_in t = filter (\<lambda>c. \<not> from_evt c) (taken t) @ api_queue t \<and>
    evt_in t = filter from_evt (taken t) @ evt_queue t \<and>
    machine t = sm_run E (init_sm h) (machine_events (executed t))"
  using reachable_inv [OF assms] by (simp add: thr_inv_def)

text \<open>
  C23: left alone, the thread processes every command that waits and then blocks again: all API
  commands first, in their order, then all events in theirs, in at most three steps for a
  command and four for an event.
\<close>

theorem thread_drains:
  assumes "thr_reachable E h t" and "thread_pc t = Waiting" and "unposted t = 0"
    and "list_all (\<lambda>c. \<not> is_exit c) (api_queue t)"
  shows "\<exists>t'. thread_run E (3 * length (api_queue t) + 4 * length (evt_queue t)) t = t' \<and>
    executed t' = executed t @ api_queue t @ evt_queue t \<and>
    api_queue t' = [] \<and> evt_queue t' = [] \<and> cmd_sem t' = 0 \<and> thread_step E t' = None"
  using run_all_cmds [OF reachable_inv [OF assms(1)] assms(2-4)] reachable_inv [OF assms(1)] assms
  by (simp add: thr_inv_def tokens_def thread_step_def cam_sem_wait_def)

text \<open>
  releasing the thread ends it in order: the API commands enqueued before the exit command
  are processed, the exit command is the last one, and nothing is processed after it.
\<close>

lemma thread_exits:
  assumes "thr_reachable E h t" and "thread_pc t = Waiting" and "unposted t = 0"
    and "api_queue t = cs @ c # ds" and "list_all (\<lambda>c. \<not> is_exit c) cs" and "is_exit c"
  shows "\<exists>t'. thread_run E (3 * length cs + 3) t = t' \<and> thread_pc t' = Exited \<and>
    executed t' = executed t @ cs @ [c] \<and> api_queue t' = ds \<and> evt_queue t' = evt_queue t \<and>
    (\<forall>n. thread_run E n t' = t')"
proof -
  let ?t = "after_cmds E cs (t\<lparr>api_queue := c # ds\<rparr>)"
  have inv: "thr_inv E h t" by (rule reachable_inv [OF assms(1)])
  have sem: "cmd_sem t = Suc (length cs + length ds + length (evt_queue t))"
    using inv assms(2-4) by (simp add: thr_inv_def tokens_def)
  have "thread_run E (3 * length cs) t = ?t"
    using assms inv sem by (intro run_api_cmds) (simp_all add: thr_inv_def)
  moreover have "thread_run E 3 ?t = ?t\<lparr>api_queue := ds, cmd_sem := cmd_sem ?t - 1,
      thread_pc := Exited, executed := executed ?t @ [c]\<rparr>"
    using assms inv sem by (intro run_api_cmd(2)) (simp_all add: thr_inv_def)
  moreover have "thread_run E n t' = t'" if "thread_pc t' = Exited" for n and t' :: "'a gthr"
    using that by (cases n) (simp_all add: thread_step_def)
  ultimately show ?thesis using assms by (simp add: thread_run_add)
qed

text \<open>A thread with one command and one event enqueued and posted, and an exit behind them.\<close>

definition test_thr :: "(int32 \<times> int32) list gthr" where
  "test_thr = cam_sem_post (cam_sem_post
     (snd (procEvt True True QCAMERA_SM_EVT_SNAPSHOT_DONE test_payload
       (snd (procAPI True True QCAMERA_SM_EVT_STOP_PREVIEW test_payload (init_thr []))))))"

definition test_exit_thr :: "(int32 \<times> int32) list gthr" where
  "test_exit_thr =
     cam_sem_post (releaseThread True True QCAMERA_SM_EVT_MAX test_payload test_thr)"

lemma reachable_step: "thr_reachable E h t \<Longrightarrow> thr_step E t t' \<Longrightarrow> thr_reachable E h t'"
  by (simp add: thr_reachable_def)

lemma test_reachable:
  "thr_reachable script_env [] test_thr" "thr_reachable script_env [] test_exit_thr"
proof -
  let ?t1 = "snd (procAPI True True QCAMERA_SM_EVT_STOP_PREVIEW test_payload
    (init_thr ([] :: (int32 \<times> int32) list)))"
  let ?t2 = "snd (procEvt True True QCAMERA_SM_EVT_SNAPSHOT_DONE test_payload ?t1)"
  have "thr_reachable script_env [] (init_thr [])" by (simp add: thr_reachable_def)
  then have "thr_reachable script_env [] ?t1"
    by (rule reachable_step) (rule call_api, rule prod.collapse [symmetric])
  then have r2: "thr_reachable script_env [] ?t2"
    by (rule reachable_step) (rule call_evt, rule prod.collapse [symmetric])
  have u: "unposted ?t2 = 2"
    by (simp add: procAPI_def procEvt_def init_thr_def Let_def)
  then have "thr_reachable script_env [] (cam_sem_post ?t2)"
    by (intro reachable_step [OF r2] post) linarith
  then show r: "thr_reachable script_env [] test_thr"
    unfolding test_thr_def
    by (rule reachable_step) (intro post, use u in \<open>simp add: cam_sem_post_def\<close>)
  have "thr_reachable script_env [] (releaseThread True True QCAMERA_SM_EVT_MAX test_payload test_thr)"
    using r by (rule reachable_step) (rule call_release)
  then show "thr_reachable script_env [] test_exit_thr"
    unfolding test_exit_thr_def
    by (rule reachable_step)
      (intro post, simp add: releaseThread_def test_thr_def cam_sem_post_def procAPI_def
        procEvt_def init_thr_def Let_def)
qed

lemmas test_thr_simps = test_thr_def test_exit_thr_def cam_sem_post_def procAPI_def procEvt_def
  releaseThread_def init_thr_def Let_def

theorem thread_tokens_witness: "tokens test_thr = 2"
  using conjunct1 [OF thread_tokens [OF test_reachable(1)]] by (simp add: test_thr_simps)

theorem thread_order_witness:
  "map evt (api_in test_thr) = [QCAMERA_SM_EVT_STOP_PREVIEW]"
  using conjunct1 [OF thread_order [OF test_reachable(1)]]
  by (simp add: test_thr_simps taken_def)

theorem thread_drains_witness:
  "map evt (executed (thread_run script_env 7 test_thr)) =
     [QCAMERA_SM_EVT_STOP_PREVIEW, QCAMERA_SM_EVT_SNAPSHOT_DONE]"
  using thread_drains [OF test_reachable(1)] by (simp add: test_thr_simps is_exit_def)

lemma thread_exits_example:
  "thread_pc (thread_run script_env 6 test_exit_thr) = Exited"
  using thread_exits [OF test_reachable(2), of
      "[\<lparr>cmd = QCAMERA_SM_CMD_TYPE_API, evt = QCAMERA_SM_EVT_STOP_PREVIEW,
         evt_payload = test_payload\<rparr>]"
      "\<lparr>cmd = QCAMERA_SM_CMD_TYPE_EXIT, evt = QCAMERA_SM_EVT_MAX, evt_payload = test_payload\<rparr>"
      "[]"]
  by (simp add: test_thr_simps is_exit_def)

end
