(* ===== verification/CamApi.thy ===== *)
theory CamApi
  imports CamStateMachine "HOL-Library.Monad_Syntax"
begin

text \<open>
  The operations of the camera device (\<open>QCamera2HWI.cpp\<close>): each hands an event to the state
  machine's thread and blocks in \<open>waitAPIResult\<close> until the list of API results holds one for
  it. The caller owns \<open>m_lock\<close> from \<open>lockAPI\<close> to \<open>unlockAPI\<close> except while it waits, so the
  thread's \<open>signalAPIResult\<close> finds it waiting: handing over an event runs the state machine
  on it, and the results it signals arrive at the wait.

  While a caller waits, the thread processes the events that arrive from the camera daemon:
  the list \<open>pending\<close> of those to come is part of the state. A call that waits when no more
  events come blocks for ever; it is then \<open>None\<close>.

  Three allocations can fail on the way: the command and the node of the queue in \<open>procAPI\<close>, and the
  element of the list of results in \<open>signalAPIResult\<close>. Which do is a parameter, \<open>hal_malloc\<close>.
\<close>

section \<open>Results and events\<close>

text \<open>
  What the operations ask of the rest of the interface object (parameters, flags, the
  performance lock, the video memory), with a reply that is a parameter of the model.
\<close>

datatype hal_call =
    Hal_isNoDisplayMode
  | Hal_getNumOfRetroSnapshots
  | Hal_isZSLMode
  | Hal_isHDRMode
  | Hal_isLongshotEnabled
  | Hal_setRetroPicture bool
  | Hal_isAFRunning
  | Hal_isChromaFlashEnabled
  | Hal_get_mFlashNeeded
  | Hal_get_mLongshotEnabled
  | Hal_perf_lock_acq
  | Hal_perf_lock_rel
  | Hal_getLogLevel
  | Hal_get_mVideoMem
  | Hal_closeNativeHandle ptr

record 'h hal_env =
  sm_env :: "'h env"
  hal_hw :: "hal_call \<Rightarrow> 'h \<Rightarrow> int32 \<times> 'h"
  DEAD_OBJECT :: int32
  NO_MEMORY :: int32
  UNKNOWN_ERROR :: int32
  hal_malloc :: "nat \<Rightarrow> bool"
  USE_MEDIA_EXTENSIONS :: bool

text \<open>
  The object: the state machine, the list of API results, whether a result was signalled
  since the caller's wait last looked, the events to come, the fields the operations set,
  the calls of \<open>hal_call\<close> in order, and the number of allocations made.
\<close>

record 'h hal =
  m_stateMachine :: "'h sm"
  m_apiResultList :: "qcamera_api_result list"
  signalled :: bool
  pending :: "(qcamera_sm_evt \<times> payload) list"
  m_smThreadActive :: bool
  m_bPreviewStarted :: bool
  m_bRecordStarted :: bool
  m_bLedAfAecLock :: bool
  mPrepSnapRun :: bool
  hal_log :: "hal_call list"
  hal_mallocs :: nat

definition hal_alloc :: "'h hal_env \<Rightarrow> 'h hal \<Rightarrow> bool \<times> 'h hal" where
  "hal_alloc H h = (hal_malloc H (hal_mallocs h), h\<lparr>hal_mallocs := hal_mallocs h + 1\<rparr>)"

text \<open>
  \<open>signalAPIResult\<close>: the result goes to the end of the list, and the waiters are woken. Without
  memory they are woken too, but the result is lost.
\<close>

definition hwi_signalAPIResult :: "'h hal_env \<Rightarrow> qcamera_api_result \<Rightarrow> 'h hal \<Rightarrow> 'h hal" where
  "hwi_signalAPIResult H r h =
    (case hal_alloc H h of
       (ok, h) \<Rightarrow> (if ok then h\<lparr>m_apiResultList := m_apiResultList h @ [r]\<rparr> else h)\<lparr>signalled := True\<rparr>)"

text \<open>The state machine processes an event; its results are signalled one by one.\<close>

definition new_results :: "'h sm \<Rightarrow> 'h sm \<Rightarrow> qcamera_api_result list" where
  "new_results s s' = drop (length (api_signals (trace s))) (api_signals (trace s'))"

definition deliver :: "'h hal_env \<Rightarrow> qcamera_sm_evt \<times> payload \<Rightarrow> 'h hal \<Rightarrow> 'h hal" where
  "deliver H e h =
    (let s = m_stateMachine h;
         s' = sm_step (sm_env H) s e
     in fold (hwi_signalAPIResult H) (new_results s s') (h\<lparr>m_stateMachine := s'\<rparr>))"

text \<open>
  \<open>procAPI\<close> of the state machine: two allocations, then the command is in the queue, which is active
  (\<open>SmThread\<close>), and the thread takes it.
\<close>

definition hal_procAPI ::
  "'h hal_env \<Rightarrow> qcamera_sm_evt \<Rightarrow> payload \<Rightarrow> 'h hal \<Rightarrow> int32 \<times> 'h hal" where
  "hal_procAPI H api p h =
    (case hal_alloc H h of
       (node, h) \<Rightarrow>
         if \<not> node then (NO_MEMORY H, h)
         else
           (case hal_alloc H h of
              (enqueued, h) \<Rightarrow>
                if \<not> enqueued then (UNKNOWN_ERROR H, h)
                else (NO_ERROR, deliver H (api, p) (h\<lparr>signalled := False\<rparr>))))"

definition processAPI ::
  "'h hal_env \<Rightarrow> qcamera_sm_evt \<Rightarrow> payload \<Rightarrow> 'h hal \<Rightarrow> int32 \<times> 'h hal" where
  "processAPI H api p h =
    (if m_smThreadActive h then hal_procAPI H api p h else (DEAD_OBJECT H, h))"

text \<open>
  The scan of \<open>waitAPIResult\<close>: the first result for the event is unlinked from the list.
\<close>

fun take_result ::
  "qcamera_sm_evt \<Rightarrow> qcamera_api_result list \<Rightarrow>
   (qcamera_api_result \<times> qcamera_api_result list) option" where
  "take_result api [] = None"
| "take_result api (r # rs) =
    (if request_api r = api then Some (r, rs)
     else (case take_result api rs of None \<Rightarrow> None | Some (r', rs') \<Rightarrow> Some (r', r # rs')))"

text \<open>The loop of \<open>waitAPIResult\<close>: look if woken, wait for the next event otherwise.\<close>

fun wait_loop ::
  "'h hal_env \<Rightarrow> qcamera_sm_evt \<Rightarrow> (qcamera_sm_evt \<times> payload) list \<Rightarrow> 'h hal \<Rightarrow>
   (qcamera_api_result \<times> 'h hal) option" where
  "wait_loop H api es h =
    (case (if signalled h then take_result api (m_apiResultList h) else None) of
       Some (r, rs) \<Rightarrow> Some (r, h\<lparr>m_apiResultList := rs, pending := es\<rparr>)
     | None \<Rightarrow>
         (case es of
            [] \<Rightarrow> None
          | e # es' \<Rightarrow> wait_loop H api es' (deliver H e (h\<lparr>signalled := False\<rparr>))))"

declare wait_loop.simps [simp del]

definition waitAPIResult ::
  "'h hal_env \<Rightarrow> qcamera_sm_evt \<Rightarrow> 'h hal \<Rightarrow> (qcamera_api_result \<times> 'h hal) option" where
  "waitAPIResult H api h = wait_loop H api (pending h) h"

text \<open>
  The union of the result as the callers read it: its three members share their storage,
  and a result of type \<open>DEF\<close> was zeroed.
\<close>

fun result_word :: "api_result_value \<Rightarrow> 32 word" where
  "result_word RESULT_TYPE_DEF = 0"
| "result_word (RESULT_TYPE_ENABLE_FLAG n) = n"
| "result_word (RESULT_TYPE_PARAMS p) = p"
| "result_word (RESULT_TYPE_HANDLE n) = n"

section \<open>The operations\<close>

definition hal_ask :: "'h hal_env \<Rightarrow> hal_call \<Rightarrow> 'h hal \<Rightarrow> int32 \<times> 'h hal" where
  "hal_ask H c h =
    (case hal_hw H c (parent (m_stateMachine h)) of
       (rc, p) \<Rightarrow> (rc, h\<lparr>m_stateMachine := m_stateMachine h\<lparr>parent := p\<rparr>,
                        hal_log := hal_log h @ [c]\<rparr>))"

definition hal_do :: "'h hal_env \<Rightarrow> hal_call \<Rightarrow> 'h hal \<Rightarrow> 'h hal" where
  "hal_do H c h = snd (hal_ask H c h)"

definition null_payload :: payload where
  "null_payload =
    \<lparr>pl_ptr = NULL, pl_int32 = 0,
     pl_setcbs = \<lparr>notify_cb = NULL, data_cb = NULL, data_cb_timestamp = NULL,
       get_memory = NULL, user = NULL\<rparr>,
     pl_cmd = 0, pl_arg1 = 0, pl_arg2 = 0, pl_img_ptr = NULL, pl_config = NULL,
     pl_server_event_type = 0, pl_evt_type = QCAMERA_INTERNAL_EVT_FOCUS_UPDATE,
     pl_evt_data = NULL\<rparr>"

definition ptr_payload :: "ptr \<Rightarrow> payload" where
  "ptr_payload p = null_payload\<lparr>pl_ptr := p\<rparr>"

definition int_payload :: "int32 \<Rightarrow> payload" where
  "int_payload n = null_payload\<lparr>pl_int32 := n\<rparr>"

text \<open>
  The body every operation has between \<open>lockAPI\<close> and \<open>unlockAPI\<close>: the status of
  \<open>processAPI\<close>, or, if it accepted the event, what \<open>view\<close> reads of the result.
\<close>

definition api_call ::
  "'h hal_env \<Rightarrow> qcamera_sm_evt \<Rightarrow> payload \<Rightarrow> (qcamera_api_result \<Rightarrow> int32) \<Rightarrow> 'h hal \<Rightarrow>
   (int32 \<times> 'h hal) option" where
  "api_call H api p view h =
    (case processAPI H api p h of
       (rc, h) \<Rightarrow>
         if rc = NO_ERROR then do { (r, h) \<leftarrow> waitAPIResult H api h; Some (view r, h) }
         else Some (rc, h))"

abbreviation flag_view :: "qcamera_api_result \<Rightarrow> int32" where
  "flag_view r \<equiv> result_word (result_value r)"

text \<open>The operations. \<open>priv\<close> is \<open>False\<close> when the device has no interface object.\<close>

definition set_preview_window ::
  "'h hal_env \<Rightarrow> bool \<Rightarrow> ptr \<Rightarrow> 'h hal \<Rightarrow> (int32 \<times> 'h hal) option" where
  "set_preview_window H priv window h =
    (if \<not> priv then Some (BAD_VALUE (sm_env H), h)
     else api_call H QCAMERA_SM_EVT_SET_PREVIEW_WINDOW (ptr_payload window) status h)"

definition set_CallBacks ::
  "'h hal_env \<Rightarrow> bool \<Rightarrow> setcb_payload \<Rightarrow> 'h hal \<Rightarrow> 'h hal option" where
  "set_CallBacks H priv cbs h =
    (if \<not> priv then Some h
     else map_option snd (api_call H QCAMERA_SM_EVT_SET_CALLBACKS
       (null_payload\<lparr>pl_setcbs := cbs\<rparr>) status h))"

definition enable_msg_type :: "'h hal_env \<Rightarrow> bool \<Rightarrow> int32 \<Rightarrow> 'h hal \<Rightarrow> 'h hal option" where
  "enable_msg_type H priv msg_type h =
    (if \<not> priv then Some h
     else map_option snd
       (api_call H QCAMERA_SM_EVT_ENABLE_MSG_TYPE (int_payload msg_type) status h))"

definition disable_msg_type :: "'h hal_env \<Rightarrow> bool \<Rightarrow> int32 \<Rightarrow> 'h hal \<Rightarrow> 'h hal option" where
  "disable_msg_type H priv msg_type h =
    (if \<not> priv then Some h
     else map_option snd
       (api_call H QCAMERA_SM_EVT_DISABLE_MSG_TYPE (int_payload msg_type) status h))"

definition msg_type_enabled ::
  "'h hal_env \<Rightarrow> bool \<Rightarrow> int32 \<Rightarrow> 'h hal \<Rightarrow> (int32 \<times> 'h hal) option" where
  "msg_type_enabled H priv msg_type h =
    (if \<not> priv then Some (BAD_VALUE (sm_env H), h)
     else api_call H QCAMERA_SM_EVT_MSG_TYPE_ENABLED (int_payload msg_type) flag_view h)"

definition start_preview :: "'h hal_env \<Rightarrow> bool \<Rightarrow> 'h hal \<Rightarrow> (int32 \<times> 'h hal) option" where
  "start_preview H priv h =
    (if \<not> priv then Some (BAD_VALUE (sm_env H), h)
     else
       let h = hal_do H Hal_perf_lock_acq h
       in (case hal_ask H Hal_isNoDisplayMode h of
             (nodisplay, h) \<Rightarrow>
               let evt = (if nodisplay \<noteq> 0 then QCAMERA_SM_EVT_START_NODISPLAY_PREVIEW
                          else QCAMERA_SM_EVT_START_PREVIEW)
               in do {
                 (ret, h) \<leftarrow> api_call H evt null_payload status h;
                 let h = h\<lparr>m_bPreviewStarted := True\<rparr>;
                 Some (ret, hal_do H Hal_perf_lock_rel h)
               }))"

definition stop_preview :: "'h hal_env \<Rightarrow> bool \<Rightarrow> 'h hal \<Rightarrow> 'h hal option" where
  "stop_preview H priv h =
    (if \<not> priv then Some h
     else
       let h = hal_do H Hal_perf_lock_acq h
       in do {
         (_, h) \<leftarrow> api_call H QCAMERA_SM_EVT_STOP_PREVIEW null_payload status h;
         Some (hal_do H Hal_perf_lock_rel h)
       })"

definition preview_enabled :: "'h hal_env \<Rightarrow> bool \<Rightarrow> 'h hal \<Rightarrow> (int32 \<times> 'h hal) option" where
  "preview_enabled H priv h =
    (if \<not> priv then Some (BAD_VALUE (sm_env H), h)
     else api_call H QCAMERA_SM_EVT_PREVIEW_ENABLED null_payload flag_view h)"

definition store_meta_data_in_buffers ::
  "'h hal_env \<Rightarrow> bool \<Rightarrow> int32 \<Rightarrow> 'h hal \<Rightarrow> (int32 \<times> 'h hal) option" where
  "store_meta_data_in_buffers H priv enable h =
    (if \<not> priv then Some (BAD_VALUE (sm_env H), h)
     else api_call H QCAMERA_SM_EVT_STORE_METADATA_IN_BUFS (int_payload enable) status h)"

definition start_recording :: "'h hal_env \<Rightarrow> bool \<Rightarrow> 'h hal \<Rightarrow> (int32 \<times> 'h hal) option" where
  "start_recording H priv h =
    (if \<not> priv then Some (BAD_VALUE (sm_env H), h)
     else do {
       (ret, h) \<leftarrow> api_call H QCAMERA_SM_EVT_START_RECORDING null_payload status h;
       Some (ret, h\<lparr>m_bRecordStarted := True\<rparr>)
     })"

definition stop_recording :: "'h hal_env \<Rightarrow> bool \<Rightarrow> 'h hal \<Rightarrow> 'h hal option" where
  "stop_recording H priv h =
    (if \<not> priv then Some h
     else map_option snd (api_call H QCAMERA_SM_EVT_STOP_RECORDING null_payload status h))"

definition recording_enabled :: "'h hal_env \<Rightarrow> bool \<Rightarrow> 'h hal \<Rightarrow> (int32 \<times> 'h hal) option" where
  "recording_enabled H priv h =
    (if \<not> priv then Some (BAD_VALUE (sm_env H), h)
     else api_call H QCAMERA_SM_EVT_RECORDING_ENABLED null_payload flag_view h)"

definition release_recording_frame ::
  "'h hal_env \<Rightarrow> bool \<Rightarrow> ptr \<Rightarrow> 'h hal \<Rightarrow> 'h hal option" where
  "release_recording_frame H priv opaque h =
    (if \<not> priv then Some h
     else if opaque = NULL then Some h
     else
       let (bad, h) =
         (if USE_MEDIA_EXTENSIONS H then
            case hal_ask H Hal_get_mVideoMem h of
              (mem, h) \<Rightarrow>
                if mem \<noteq> NULL then
                  case hal_ask H (Hal_closeNativeHandle opaque) h of (rc, h) \<Rightarrow> (rc \<noteq> NO_ERROR, h)
                else (False, h)
          else (False, h))
       in if bad then Some h
          else map_option snd
            (api_call H QCAMERA_SM_EVT_RELEASE_RECORIDNG_FRAME (ptr_payload opaque) status h))"

definition auto_focus :: "'h hal_env \<Rightarrow> bool \<Rightarrow> 'h hal \<Rightarrow> (int32 \<times> 'h hal) option" where
  "auto_focus H priv h =
    (if \<not> priv then Some (BAD_VALUE (sm_env H), h)
     else
       case hal_ask H Hal_isAFRunning h of
         (running, h) \<Rightarrow>
           if running \<noteq> 0 then Some (NO_ERROR, h)
           else api_call H QCAMERA_SM_EVT_START_AUTO_FOCUS null_payload status h)"

definition cancel_auto_focus :: "'h hal_env \<Rightarrow> bool \<Rightarrow> 'h hal \<Rightarrow> (int32 \<times> 'h hal) option" where
  "cancel_auto_focus H priv h =
    (if \<not> priv then Some (BAD_VALUE (sm_env H), h)
     else api_call H QCAMERA_SM_EVT_STOP_AUTO_FOCUS null_payload status h)"

text \<open>
  \<open>take_picture\<close>: a retro-active picture is taken before the snapshot is prepared; any other
  is taken after, and a preparation is made only if the flash is needed.
\<close>

definition use_retro :: "'h hal_env \<Rightarrow> 'h hal \<Rightarrow> bool \<times> 'h hal" where
  "use_retro H h =
    (case hal_ask H Hal_getNumOfRetroSnapshots h of
       (n, h) \<Rightarrow>
         if \<not> (0 <s n) \<or> isRecording (m_state (m_stateMachine h)) then (False, h)
         else
           (case hal_ask H Hal_isZSLMode h of
              (zsl, h) \<Rightarrow>
                if zsl = 0 then (False, h)
                else
                  (case hal_ask H Hal_isHDRMode h of
                     (hdr, h) \<Rightarrow>
                       if hdr \<noteq> 0 then (False, h)
                       else
                         (case hal_ask H Hal_isLongshotEnabled h of
                            (longshot, h) \<Rightarrow> (longshot = 0, h)))))"

definition flash_needed :: "'h hal_env \<Rightarrow> 'h hal \<Rightarrow> bool \<times> 'h hal" where
  "flash_needed H h =
    (case hal_ask H Hal_get_mFlashNeeded h of
       (flash, h) \<Rightarrow>
         if flash = 1 then (True, h)
         else case hal_ask H Hal_isChromaFlashEnabled h of (chroma, h) \<Rightarrow> (chroma \<noteq> 0, h))"

definition take_retro_picture :: "'h hal_env \<Rightarrow> 'h hal \<Rightarrow> (int32 \<times> 'h hal) option" where
  "take_retro_picture H h =
    (let h = (hal_do H (Hal_setRetroPicture True) h)\<lparr>m_bLedAfAecLock := False\<rparr>
     in do {
       (_, h) \<leftarrow> api_call H QCAMERA_SM_EVT_TAKE_PICTURE null_payload status h;
       (ret, h) \<leftarrow> api_call H QCAMERA_SM_EVT_PREPARE_SNAPSHOT null_payload status h;
       Some (ret, h\<lparr>mPrepSnapRun := True\<rparr>)
     })"

definition take_normal_picture :: "'h hal_env \<Rightarrow> 'h hal \<Rightarrow> (int32 \<times> 'h hal) option" where
  "take_normal_picture H h =
    (case flash_needed H (hal_do H (Hal_setRetroPicture False) h) of
       (flash, h) \<Rightarrow> do {
         h \<leftarrow> (if flash then do {
                  (_, h) \<leftarrow> api_call H QCAMERA_SM_EVT_PREPARE_SNAPSHOT null_payload status h;
                  Some (h\<lparr>mPrepSnapRun := True\<rparr>)
                } else Some h);
         api_call H QCAMERA_SM_EVT_TAKE_PICTURE null_payload status h
       })"

definition take_picture :: "'h hal_env \<Rightarrow> bool \<Rightarrow> 'h hal \<Rightarrow> (int32 \<times> 'h hal) option" where
  "take_picture H priv h =
    (if \<not> priv then Some (BAD_VALUE (sm_env H), h)
     else
       case hal_ask H Hal_get_mLongshotEnabled h of
         (longshot, h) \<Rightarrow>
           let h = (if longshot = 0 then hal_do H Hal_perf_lock_acq h else h)
           in (case use_retro H h of
                 (retro, h) \<Rightarrow> do {
                   (ret, h) \<leftarrow> (if retro then take_retro_picture H h else take_normal_picture H h);
                   Some (ret, if ret \<noteq> NO_ERROR then hal_do H Hal_perf_lock_rel h else h)
                 }))"

definition cancel_picture :: "'h hal_env \<Rightarrow> bool \<Rightarrow> 'h hal \<Rightarrow> (int32 \<times> 'h hal) option" where
  "cancel_picture H priv h =
    (if \<not> priv then Some (BAD_VALUE (sm_env H), h)
     else api_call H QCAMERA_SM_EVT_CANCEL_PICTURE null_payload status h)"

definition set_parameters ::
  "'h hal_env \<Rightarrow> bool \<Rightarrow> ptr \<Rightarrow> 'h hal \<Rightarrow> (int32 \<times> 'h hal) option" where
  "set_parameters H priv parms h =
    (if \<not> priv then Some (BAD_VALUE (sm_env H), h)
     else api_call H QCAMERA_SM_EVT_SET_PARAMS (ptr_payload parms) status h)"

text \<open>The status of a refused call is an integer, so \<open>get_parameters\<close> returns \<open>NULL\<close> then.\<close>

definition get_parameters :: "'h hal_env \<Rightarrow> bool \<Rightarrow> 'h hal \<Rightarrow> (ptr \<times> 'h hal) option" where
  "get_parameters H priv h =
    (if \<not> priv then Some (NULL, h)
     else
       case processAPI H QCAMERA_SM_EVT_GET_PARAMS null_payload h of
         (rc, h) \<Rightarrow>
           if rc = NO_ERROR then do {
             (r, h) \<leftarrow> waitAPIResult H QCAMERA_SM_EVT_GET_PARAMS h;
             Some (result_word (result_value r), h)
           } else Some (NULL, h))"

definition put_parameters :: "'h hal_env \<Rightarrow> bool \<Rightarrow> ptr \<Rightarrow> 'h hal \<Rightarrow> 'h hal option" where
  "put_parameters H priv parm h =
    (if \<not> priv then Some h
     else map_option snd (api_call H QCAMERA_SM_EVT_PUT_PARAMS (ptr_payload parm) status h))"

definition send_command ::
  "'h hal_env \<Rightarrow> bool \<Rightarrow> int32 \<Rightarrow> int32 \<Rightarrow> int32 \<Rightarrow> 'h hal \<Rightarrow> (int32 \<times> 'h hal) option" where
  "send_command H priv cmd arg1 arg2 h =
    (if \<not> priv then Some (BAD_VALUE (sm_env H), h)
     else api_call H QCAMERA_SM_EVT_SEND_COMMAND
       (null_payload\<lparr>pl_cmd := cmd, pl_arg1 := arg1, pl_arg2 := arg2\<rparr>) status h)"

definition release :: "'h hal_env \<Rightarrow> bool \<Rightarrow> 'h hal \<Rightarrow> 'h hal option" where
  "release H priv h =
    (if \<not> priv then Some h
     else map_option snd (api_call H QCAMERA_SM_EVT_RELEASE null_payload status h))"

definition dump :: "'h hal_env \<Rightarrow> bool \<Rightarrow> int32 \<Rightarrow> 'h hal \<Rightarrow> (int32 \<times> 'h hal) option" where
  "dump H priv fd h =
    (let h = hal_do H Hal_getLogLevel h
     in if \<not> priv then Some (BAD_VALUE (sm_env H), h)
        else api_call H QCAMERA_SM_EVT_DUMP (int_payload fd) status h)"

definition register_face_image ::
  "'h hal_env \<Rightarrow> bool \<Rightarrow> ptr \<Rightarrow> ptr \<Rightarrow> 'h hal \<Rightarrow> (int32 \<times> 'h hal) option" where
  "register_face_image H priv img_ptr config h =
    (if \<not> priv then Some (BAD_VALUE (sm_env H), h)
     else api_call H QCAMERA_SM_EVT_REG_FACE_IMAGE
       (null_payload\<lparr>pl_img_ptr := img_ptr, pl_config := config\<rparr>) flag_view h)"

end
