(* ===== verification/CamApiProps.thy ===== *)
theory CamApiProps
  imports CamApi CamProtocol
begin

text \<open>
  What the device operations promise: an operation returns its own result; one whose event
  the state machine answers at once does not wait; and which ones block.
\<close>

section \<open>The list of results\<close>

lemma take_result_SomeD:
  "take_result api rs = Some (r, rs') \<Longrightarrow>
   request_api r = api \<and>
   (\<exists>as bs. rs = as @ r # bs \<and> rs' = as @ bs \<and> (\<forall>x \<in> set as. request_api x \<noteq> api))"
proof (induction rs arbitrary: rs')
  case (Cons x rs)
  show ?case
  proof (cases "request_api x = api")
    case True
    then have "x = r" "rs' = rs" using Cons.prems by auto
    then show ?thesis using True by (metis append_Nil empty_iff empty_set)
  next
    case False
    then obtain rs1 where rs1: "take_result api rs = Some (r, rs1)" "rs' = x # rs1"
      using Cons.prems by (auto split: option.splits)
    then obtain as bs where "request_api r = api" "rs = as @ r # bs" "rs1 = as @ bs"
      "\<forall>y \<in> set as. request_api y \<noteq> api"
      using Cons.IH by blast
    then show ?thesis using rs1 False by (intro conjI exI [of _ "x # as"] exI [of _ bs]) auto
  qed
qed simp

lemma take_result_None: "take_result api rs = None \<longleftrightarrow> (\<forall>r \<in> set rs. request_api r \<noteq> api)"
  by (induction rs) (auto split: option.splits)

lemma take_result_append:
  "\<forall>r \<in> set rs. request_api r \<noteq> api \<Longrightarrow>
   take_result api (rs @ rs') =
     (case take_result api rs' of None \<Rightarrow> None | Some (r, bs) \<Rightarrow> Some (r, rs @ bs))"
  by (induction rs) (auto split: option.splits)

text \<open>The results for which there was memory; \<open>n\<close> is the number of allocations made before.\<close>

fun kept_results :: "(nat \<Rightarrow> bool) \<Rightarrow> nat \<Rightarrow> 'a list \<Rightarrow> 'a list" where
  "kept_results M n [] = []"
| "kept_results M n (r # rs) = (if M n then [r] else []) @ kept_results M (Suc n) rs"

lemma kept_results_subset: "set (kept_results M n rs) \<subseteq> set rs"
  by (induction rs arbitrary: n) auto

lemma signal_fold [simp]:
  "m_apiResultList (fold (hwi_signalAPIResult H) rs h) =
     m_apiResultList h @ kept_results (hal_malloc H) (hal_mallocs h) rs"
  "signalled (fold (hwi_signalAPIResult H) rs h) = (signalled h \<or> rs \<noteq> [])"
  "m_stateMachine (fold (hwi_signalAPIResult H) rs h) = m_stateMachine h"
  "pending (fold (hwi_signalAPIResult H) rs h) = pending h"
  "m_smThreadActive (fold (hwi_signalAPIResult H) rs h) = m_smThreadActive h"
  "hal_log (fold (hwi_signalAPIResult H) rs h) = hal_log h"
  by (induction rs arbitrary: h) (simp_all add: hwi_signalAPIResult_def hal_alloc_def)

lemma deliver_simps [simp]:
  "m_stateMachine (deliver H e h) = sm_step (sm_env H) (m_stateMachine h) e"
  "m_apiResultList (deliver H e h) = m_apiResultList h @ kept_results (hal_malloc H) (hal_mallocs h)
     (new_results (m_stateMachine h) (sm_step (sm_env H) (m_stateMachine h) e))"
  "signalled (deliver H e h) = (signalled h \<or>
     new_results (m_stateMachine h) (sm_step (sm_env H) (m_stateMachine h) e) \<noteq> [])"
  "pending (deliver H e h) = pending h"
  "m_smThreadActive (deliver H e h) = m_smThreadActive h"
  "hal_log (deliver H e h) = hal_log h"
  by (simp_all add: deliver_def Let_def)

lemma wait_loop_own: "wait_loop H api es h = Some (r, h') \<Longrightarrow> request_api r = api"
proof (induction H api es h rule: wait_loop.induct)
  case (1 H api es h)
  then show ?case
    by (subst (asm) wait_loop.simps)
      (auto dest: take_result_SomeD split: option.splits list.splits if_splits)
qed

section \<open>Events of the daemon and face images\<close>

definition face_results :: "'h sm \<Rightarrow> qcamera_api_result list" where
  "face_results s =
    filter (\<lambda>r. request_api r = QCAMERA_SM_EVT_REG_FACE_IMAGE) (api_signals (trace s))"

lemma face_results_internal:
  "face_results (sm_step E s (QCAMERA_SM_EVT_EVT_INTERNAL, p)) = face_results s"
  by (cases "m_state s"; cases "pl_evt_type p")
    (simp_all add: sm_step_def handler_simps face_results_def)

lemma face_results_event:
  assumes "\<not> is_api_evt evt"
  shows "face_results (sm_step E s (evt, p)) = face_results s"
proof (cases "evt = QCAMERA_SM_EVT_EVT_INTERNAL")
  case False
  then show ?thesis using assms
    by (cases "m_state s"; cases evt)
      (simp_all add: is_api_evt_def sm_step_def handler_simps face_results_def handler_parts)
qed (simp add: face_results_internal)

lemma extends_internal:
  "\<exists>rs. api_signals (trace (sm_step E s (QCAMERA_SM_EVT_EVT_INTERNAL, p))) =
    api_signals (trace s) @ rs"
  by (cases "m_state s"; cases "pl_evt_type p")
    (simp_all add: sm_step_def handler_simps)

lemma sm_step_extends:
  "\<exists>rs. api_signals (trace (sm_step E s (evt, p))) = api_signals (trace s) @ rs"
proof (cases "is_api_evt evt")
  case True
  then show ?thesis using stateMachine_ok [of E s evt p]
    by (auto simp: handler_ok_def answers_def silent_def sm_step_def simp del: run_state_stateMachine)
next
  case False
  show ?thesis
  proof (cases "evt = QCAMERA_SM_EVT_EVT_INTERNAL")
    case False
    then show ?thesis using \<open>\<not> is_api_evt evt\<close>
      by (cases "m_state s"; cases evt)
        (simp_all add: is_api_evt_def sm_step_def handler_simps handler_parts)
  qed (simp add: extends_internal)
qed


lemma new_results_face:
  assumes "\<not> is_api_evt (fst e)"
  shows "\<forall>r \<in> set (new_results s (sm_step E s e)). request_api r \<noteq> QCAMERA_SM_EVT_REG_FACE_IMAGE"
proof -
  obtain rs where rs: "api_signals (trace (sm_step E s e)) = api_signals (trace s) @ rs"
    using sm_step_extends [of E s "fst e" "snd e"] by auto
  then have "filter (\<lambda>r. request_api r = QCAMERA_SM_EVT_REG_FACE_IMAGE) rs = []"
    using face_results_event [OF assms, of E s "snd e"] by (simp add: face_results_def)
  then show ?thesis using rs by (simp add: new_results_def filter_empty_conv)
qed

lemma wait_face_blocks:
  assumes "\<forall>r \<in> set (m_apiResultList h). request_api r \<noteq> QCAMERA_SM_EVT_REG_FACE_IMAGE"
    and "list_all (\<lambda>e. \<not> is_api_evt (fst e)) es"
  shows "wait_loop H QCAMERA_SM_EVT_REG_FACE_IMAGE es h = None"
  using assms
proof (induction es arbitrary: h)
  case Nil
  then show ?case
    by (subst wait_loop.simps) (simp add: take_result_None [THEN iffD2])
next
  case (Cons e es)
  have "wait_loop H QCAMERA_SM_EVT_REG_FACE_IMAGE es (deliver H e (h\<lparr>signalled := False\<rparr>)) = None"
    using Cons.prems new_results_face [of e "m_stateMachine h" "sm_env H"]
    by (intro Cons.IH) (auto dest: subsetD [OF kept_results_subset])
  then show ?case using Cons.prems(1)
    by (subst wait_loop.simps) (simp add: take_result_None [THEN iffD2])
qed

section \<open>A call that is answered at once\<close>

text \<open>The command is handed over with two allocations made.\<close>

abbreviation handed :: "'h hal \<Rightarrow> 'h hal" where
  "handed h \<equiv> h\<lparr>hal_mallocs := hal_mallocs h + 2, signalled := False\<rparr>"

lemma handed_over:
  assumes "m_smThreadActive h" "hal_malloc H (hal_mallocs h)" "hal_malloc H (Suc (hal_mallocs h))"
  shows "processAPI H api p h = (NO_ERROR, deliver H (api, p) (handed h))"
  using assms by (simp add: processAPI_def hal_procAPI_def hal_alloc_def)

lemma one_result:
  assumes "is_api_evt api" "\<not> postponed (m_state s) api"
  shows "\<exists>v. new_results s (sm_step E s (api, p)) =
    [\<lparr>status = fst (run_state (stateMachine E api p) s), request_api = api, result_value = v\<rparr>]"
  using stateMachine_ok [of E s api p] assms
  by (auto simp: handler_ok_def answers_def sm_step_def new_results_def simp del: run_state_stateMachine)

lemma api_call_answers:
  assumes "m_smThreadActive h" "is_api_evt api" "\<not> postponed (m_state (m_stateMachine h)) api"
    and "\<forall>r \<in> set (m_apiResultList h). request_api r \<noteq> api"
    and "hal_malloc H (hal_mallocs h)" "hal_malloc H (Suc (hal_mallocs h))"
  shows "\<exists>v. api_call H api p view h =
    (if hal_malloc H (hal_mallocs h + 2) then Some
      (view \<lparr>status = fst (run_state (stateMachine (sm_env H) api p) (m_stateMachine h)),
         request_api = api, result_value = v\<rparr>,
       (deliver H (api, p) (handed h))\<lparr>m_apiResultList := m_apiResultList h\<rparr>)
     else if pending h = [] then None else api_call H api p view h)"
proof -
  obtain v where new: "new_results (m_stateMachine h) (sm_step (sm_env H) (m_stateMachine h) (api, p)) =
      [\<lparr>status = fst (run_state (stateMachine (sm_env H) api p) (m_stateMachine h)),
         request_api = api, result_value = v\<rparr>]"
    using one_result [OF assms(2,3)] by blast
  have upd: "(deliver H (api, p) h')\<lparr>m_apiResultList := rs, pending := pending h'\<rparr> =
      (deliver H (api, p) h')\<lparr>m_apiResultList := rs\<rparr>" for rs and h' :: "'a hal"
    by (rule hal.equality) simp_all
  have none: "take_result api (m_apiResultList h) = None" using assms(4) by (simp add: take_result_None)
  have call: "api_call H api p view h =
      Option.bind (wait_loop H api (pending h) (deliver H (api, p) (handed h))) (\<lambda>(r, h). Some (view r, h))"
    by (simp add: api_call_def handed_over [OF assms(1,5,6)] waitAPIResult_def)
  let ?n = "hal_mallocs h + 2"
  show ?thesis
  proof (cases "hal_malloc H ?n")
    case True
    have "wait_loop H api (pending h) (deliver H (api, p) (handed h)) =
        Some (\<lparr>status = fst (run_state (stateMachine (sm_env H) api p) (m_stateMachine h)),
           request_api = api, result_value = v\<rparr>, (deliver H (api, p) (handed h))\<lparr>m_apiResultList := m_apiResultList h\<rparr>)"
      using True upd [of "handed h"] take_result_append [OF assms(4)]
      by (subst wait_loop.simps) (simp add: new del: run_state_stateMachine)
    then show ?thesis using True by (simp add: call del: run_state_stateMachine) blast
  next
    case False
    have "wait_loop H api [] (deliver H (api, p) (handed h)) = None"
      using False none by (subst wait_loop.simps) (simp add: new del: run_state_stateMachine)
    then show ?thesis using False call by simp
  qed
qed

section \<open>Properties\<close>

text \<open>
  C24: an API call whose event the state does not postpone. When the command cannot be handed to the
  state machine for want of memory, the call returns an error and the state machine is as before.
  Otherwise the call returns without waiting for further events, with what it reads from the
  result of its own event, whose status is the one the state machine returned; the list of results
  and the events to come are as before. That is so if there is memory for the result. If not, the
  result is lost: the call goes on waiting, for ever when no more events come.
\<close>

theorem api_call_returns:
  assumes "m_smThreadActive h" and "is_api_evt api"
    and "\<not> postponed (m_state (m_stateMachine h)) api"
    and "\<forall>r \<in> set (m_apiResultList h). request_api r \<noteq> api"
    and "NO_MEMORY H \<noteq> NO_ERROR" "UNKNOWN_ERROR H \<noteq> NO_ERROR"
  shows "if \<not> hal_malloc H (hal_mallocs h) then
      api_call H api p view h = Some (NO_MEMORY H, h\<lparr>hal_mallocs := hal_mallocs h + 1\<rparr>)
    else if \<not> hal_malloc H (hal_mallocs h + 1) then
      api_call H api p view h = Some (UNKNOWN_ERROR H, h\<lparr>hal_mallocs := hal_mallocs h + 2\<rparr>)
    else if hal_malloc H (hal_mallocs h + 2) then
      (\<exists>v h'. api_call H api p view h = Some
         (view \<lparr>status = fst (run_state (stateMachine (sm_env H) api p) (m_stateMachine h)),
            request_api = api, result_value = v\<rparr>, h') \<and>
       m_stateMachine h' = sm_step (sm_env H) (m_stateMachine h) (api, p) \<and>
       m_apiResultList h' = m_apiResultList h \<and> pending h' = pending h)
    else pending h \<noteq> [] \<or> api_call H api p view h = None"
proof (cases "hal_malloc H (hal_mallocs h) \<and> hal_malloc H (Suc (hal_mallocs h))")
  case True
  then obtain v where "api_call H api p view h =
    (if hal_malloc H (hal_mallocs h + 2) then Some
      (view \<lparr>status = fst (run_state (stateMachine (sm_env H) api p) (m_stateMachine h)),
         request_api = api, result_value = v\<rparr>,
       (deliver H (api, p) (handed h))\<lparr>m_apiResultList := m_apiResultList h\<rparr>)
     else if pending h = [] then None else api_call H api p view h)"
    using api_call_answers [OF assms(1-4), of H p view] by blast
  then show ?thesis using True by (auto simp del: run_state_stateMachine split: if_splits)
next
  case False
  then show ?thesis using assms(1,5,6)
    by (auto simp: api_call_def processAPI_def hal_procAPI_def hal_alloc_def)
qed

definition test_hal_env :: "(int32 \<times> int32) list hal_env" where
  "test_hal_env =
    \<lparr>sm_env = script_env,
     hal_hw = (\<lambda>c p. (if c = Hal_getNumOfRetroSnapshots \<or> c = Hal_isZSLMode then 1 else 0, p)),
     DEAD_OBJECT = - 32, NO_MEMORY = - 12, UNKNOWN_ERROR = 0x80000000, hal_malloc = (\<lambda>_. True), USE_MEDIA_EXTENSIONS = False\<rparr>"

definition test_hal ::
  "qcamera_state \<Rightarrow> (int32 \<times> int32) list \<Rightarrow> (qcamera_sm_evt \<times> payload) list \<Rightarrow>
   (int32 \<times> int32) list hal" where
  "test_hal st rs es =
    \<lparr>m_stateMachine = script_sm st rs, m_apiResultList = [], signalled = False, pending = es,
     m_smThreadActive = True, m_bPreviewStarted = False, m_bRecordStarted = False,
     m_bLedAfAecLock = True, mPrepSnapRun = False, hal_log = [], hal_mallocs = 0\<rparr>"

theorem api_call_returns_witness:
  "\<exists>h'. api_call test_hal_env QCAMERA_SM_EVT_START_RECORDING null_payload status
      (test_hal QCAMERA_SM_STATE_PREVIEWING [] []) = Some (0, h')"
  using api_call_returns [of "test_hal QCAMERA_SM_STATE_PREVIEWING [] []"
      QCAMERA_SM_EVT_START_RECORDING test_hal_env null_payload status]
  by (auto simp: test_hal_def test_hal_env_def is_api_evt_def postponed_def script_simps)

text \<open>
  C34: registering a face image while a snapshot is prepared blocks for ever, whatever the
  camera daemon reports meanwhile, once the state machine has been handed the command (the
  allocations of \<open>procAPI\<close> succeed; if one fails, the call returns an error).
\<close>

theorem register_face_image_blocks:
  assumes "m_state (m_stateMachine h) = QCAMERA_SM_STATE_PREPARE_SNAPSHOT"
    and "m_smThreadActive h" and "list_all (\<lambda>e. \<not> is_api_evt (fst e)) (pending h)"
    and "\<forall>r \<in> set (m_apiResultList h). request_api r \<noteq> QCAMERA_SM_EVT_REG_FACE_IMAGE"
    and "hal_malloc H (hal_mallocs h)" "hal_malloc H (Suc (hal_mallocs h))"
  shows "register_face_image H True img_ptr config h = None"
proof -
  let ?p = "null_payload\<lparr>pl_img_ptr := img_ptr, pl_config := config\<rparr>"
  have same: "sm_step (sm_env H) (m_stateMachine h) (QCAMERA_SM_EVT_REG_FACE_IMAGE, ?p) =
      m_stateMachine h"
    using assms(1) by (simp add: sm_step_def handler_simps)
  then have "wait_loop H QCAMERA_SM_EVT_REG_FACE_IMAGE (pending h)
      (deliver H (QCAMERA_SM_EVT_REG_FACE_IMAGE, ?p) (handed h)) = None"
    using assms(3,4) by (intro wait_face_blocks) (auto simp: new_results_def)
  then show ?thesis
    using handed_over [OF assms(2,5,6)]
    by (simp add: register_face_image_def api_call_def waitAPIResult_def)
qed

theorem register_face_image_blocks_witness:
  "register_face_image test_hal_env True 4 8
     (test_hal QCAMERA_SM_STATE_PREPARE_SNAPSHOT []
       [(QCAMERA_SM_EVT_EVT_INTERNAL, test_payload), (QCAMERA_SM_EVT_SNAPSHOT_DONE, test_payload)])
   = None"
  by (rule register_face_image_blocks)
    (simp_all add: test_hal_def test_hal_env_def script_sm_def is_api_evt_def)

text \<open>
  a retro-active picture that the camera refuses is reported as taken: the status of
  \<open>TAKE_PICTURE\<close> is overwritten by the one of the preparation that follows it regardless, so
  that \<open>take_picture\<close> returns \<open>NO_ERROR\<close> although \<open>takePicture\<close> failed, and the state machine
  is back in its preview.
\<close>

lemma retro_failure_masked:
  "\<exists>h'. take_picture test_hal_env True
      (test_hal QCAMERA_SM_STATE_PREVIEWING [(0, 0), (1, 0), (- 1, 0), (1, 0), (0, 0)]
        [(QCAMERA_SM_EVT_EVT_INTERNAL, test_payload)]) = Some (NO_ERROR, h') \<and>
    Call HWI_takePicture (- 1) \<in> set (trace (m_stateMachine h')) \<and>
    m_state (m_stateMachine h') = QCAMERA_SM_STATE_PREVIEWING \<and>
    m_apiResultList h' = [] \<and> mPrepSnapRun h'"
  by (simp add: take_picture_def use_retro_def take_retro_picture_def hal_ask_def hal_do_def
      api_call_def processAPI_def hal_procAPI_def hal_alloc_def waitAPIResult_def wait_loop.simps deliver_def new_results_def
      hwi_signalAPIResult_def test_hal_def test_hal_env_def script_simps take_picture_defs
      Let_def null_payload_def word_sless_alt)

end
