(* ===== verification/SuperBuf.thy ===== *)
theory SuperBuf
  imports Prelude
begin

text \<open>
  The super buffers of a camera channel: \<open>stack/mm-camera-interface/src/mm_camera_channel.c\<close> and
  \<open>inc/mm_camera.h\<close>. The streams of a channel deliver frames; a queue collects the frames of the
  same number, one of each stream, and hands complete sets to the client. This theory has the data
  and the functions on the queue; \<open>SuperBufCmd\<close> the thread that executes the channel's commands.

  The queue is a list of nodes (the ring under it is the one of theory \<open>CamList\<close>); a position of the
  code is an index. None is a step to a freed node or through a NULL pointer, or a loop that does not
  end. The capture setting is a pointer into a command that is freed when it has been executed: what
  the channel reads through it is unknown, and its write there (\<open>num_frames\<close>) is left out.
\<close>

section \<open>Data\<close>

datatype cam_stream_type =
    CAM_STREAM_TYPE_DEFAULT
  | CAM_STREAM_TYPE_PREVIEW
  | CAM_STREAM_TYPE_POSTVIEW
  | CAM_STREAM_TYPE_SNAPSHOT
  | CAM_STREAM_TYPE_VIDEO
  | CAM_STREAM_TYPE_CALLBACK
  | CAM_STREAM_TYPE_IMPL_DEFINED
  | CAM_STREAM_TYPE_METADATA
  | CAM_STREAM_TYPE_RAW
  | CAM_STREAM_TYPE_OFFLINE_PROC
  | CAM_STREAM_TYPE_PARM
  | CAM_STREAM_TYPE_ANALYSIS

record cam_frame_idx_range =
  min_frame_idx :: u32
  max_frame_idx :: u32
  num_led_on_frames :: u32
  frame_skip_count :: u32
  config_batch_idx :: u32

text \<open>
  The entries of a metadata buffer that the channel reads, None where absent; a crop is the stream,
  left and top.
\<close>

record metadata_buffer =
  meta_prep_snapshot_done :: "int option"
  meta_good_frame_idx_range :: "cam_frame_idx_range option"
  meta_crop_data :: "(u32 \<times> int \<times> int) list option"
  meta_buf_divert :: "u32 option"

definition NEED_FUTURE_FRAME :: int where
  "NEED_FUTURE_FRAME = 1"

text \<open>A buffer: \<open>def_metadata\<close> is what \<open>buffer\<close> points to in a metadata stream.\<close>

record mm_camera_buf_def =
  def_stream_id :: u32
  def_buf_idx :: u32
  def_frame_idx :: u32
  def_stream_type :: cam_stream_type
  def_metadata :: "metadata_buffer option"

record mm_camera_buf_info =
  stream_id :: u32
  frame_idx :: u32
  info_buf :: mm_camera_buf_def

text \<open>
  A super buffer: the entries of its streams, None where the code has zeros. There are
  \<open>num_of_bufs\<close> of them.
\<close>

record queue_node =
  super_buf :: "mm_camera_buf_info option list"
  matched :: bool
  expected :: bool
  node_frame_idx :: u32

datatype notify_mode = MM_CAMERA_SUPER_BUF_NOTIFY_BURST | MM_CAMERA_SUPER_BUF_NOTIFY_CONTINUOUS

datatype super_buf_priority =
    MM_CAMERA_SUPER_BUF_PRIORITY_NORMAL
  | MM_CAMERA_SUPER_BUF_PRIORITY_FOCUS
  | MM_CAMERA_SUPER_BUF_PRIORITY_EXPOSURE_BRACKETING
  | MM_CAMERA_SUPER_BUF_PRIORITY_LOW

record mm_camera_channel_attr =
  attr_notify_mode :: notify_mode
  water_mark :: u8
  look_back :: u8
  post_frame_skip :: u8
  max_unmatched_frames :: u8
  priority :: super_buf_priority

record mm_channel_queue =
  que :: "queue_node list"
  que_size :: u32
  bundled_streams :: "u32 list"
  attr :: mm_camera_channel_attr
  expected_frame_id :: u32
  match_cnt :: u32
  expected_frame_id_without_led :: u32
  led_on_start_frame_id :: u32
  led_off_start_frame_id :: u32
  led_on_num_frames :: u32
  led_once :: bool
  led_frame_skip_count :: u32
  nomatch_frame_id :: u32

datatype bracketing_state =
    MM_CHANNEL_BRACKETING_STATE_OFF
  | MM_CHANNEL_BRACKETING_STATE_WAIT_GOOD_FRAME_IDX
  | MM_CHANNEL_BRACKETING_STATE_ACTIVE

text \<open>
  What the matching reads of a stream of the channel: its handle, whether its state is not NOTUSED,
  its type (None for a NULL \<open>stream_info\<close>), the server's id, and whether it is the channel's own, not
  linked from another.
\<close>

record ch_stream =
  str_hdl :: u32
  str_used :: bool
  str_type :: "cam_stream_type option"
  str_server_id :: u32
  str_own :: bool

text \<open>
  What the channel does, in order: it gives a buffer back to its stream (\<open>mm_channel_qbuf\<close>), starts
  and stops the snapshot, sends a super buffer with its two flags to the client's thread, or loses it
  because \<open>cam_queue_enq\<close> had no memory, whose result nobody looks at; it reads the link of a node it
  has freed; and the results of \<open>malloc\<close>.
\<close>

datatype ch_call =
    Ch_Qbuf mm_camera_buf_def
  | Ch_Start_Zsl
  | Ch_Stop_Zsl
  | Ch_Superbuf "mm_camera_buf_def option list" bool bool
  | Ch_Lost "mm_camera_buf_def option list" bool bool
  | Ch_Read_Freed
  | Ch_Malloc bool

record mm_channel =
  superbuf_queue :: mm_channel_queue
  super_buf_notify_cb :: bool
  ch_streams :: "ch_stream list"
  pending_cnt :: u32
  pending_retro_cnt :: u32
  bWaitForPrepSnapshotDone :: bool
  unLockAEC :: bool
  stopZslSnapshot :: bool
  manualZSLSnapshot :: bool
  startZSlSnapshotCalled :: bool
  needLEDFlash :: bool
  bracketingState :: bracketing_state
  isFlashBracketingEnabled :: bool
  isZoom1xFrameRequested :: bool
  burstSnapNum :: u32
  diverted_frame_id :: u8
  cur_capture_idx :: u8
  frame_config :: bool
  ch_calls :: "ch_call list"

text \<open>
  What the channel cannot know: whether the next \<open>malloc\<close> succeeds, and the \<open>num_batch\<close> it reads
  through \<open>frame_config\<close>, which points into a command that has been freed.
\<close>

record ch_env =
  malloc_ok :: "ch_call list \<Rightarrow> bool"
  freed_num_batch :: "ch_call list \<Rightarrow> u32"

definition ch_emit :: "ch_call \<Rightarrow> mm_channel \<Rightarrow> mm_channel" where
  "ch_emit c ch = ch\<lparr>ch_calls := ch_calls ch @ [c]\<rparr>"

definition upd_queue :: "(mm_channel_queue \<Rightarrow> mm_channel_queue) \<Rightarrow> mm_channel \<Rightarrow> mm_channel" where
  "upd_queue f ch = ch\<lparr>superbuf_queue := f (superbuf_queue ch)\<rparr>"

definition qbuf :: "mm_camera_buf_info \<Rightarrow> mm_channel \<Rightarrow> mm_channel" where
  "qbuf b ch = ch_emit (Ch_Qbuf (info_buf b)) ch"

text \<open>Giving back all the buffers of a super buffer; the entries of the code with a zero are None.\<close>

fun qbufs :: "mm_camera_buf_info option list \<Rightarrow> mm_channel \<Rightarrow> mm_channel" where
  "qbufs [] ch = ch"
| "qbufs (None # bs) ch = qbufs bs ch"
| "qbufs (Some b # bs) ch = qbufs bs (qbuf b ch)"

definition qbufs_nodes :: "queue_node list \<Rightarrow> mm_channel \<Rightarrow> mm_channel" where
  "qbufs_nodes ns ch = fold (\<lambda>n. qbufs (super_buf n)) ns ch"

section \<open>Taking super buffers out\<close>

definition superbuf_dequeue_internal :: "bool \<Rightarrow> mm_channel_queue \<Rightarrow> queue_node option \<times> mm_channel_queue" where
  "superbuf_dequeue_internal matched_only q =
    (case que q of
       [] \<Rightarrow> (None, q)
     | n # ns \<Rightarrow>
         if matched_only \<and> \<not> matched n then (None, q)
         else (Some n, q\<lparr>que := ns, que_size := que_size q - 1,
                         match_cnt := (if matched n then match_cnt q - 1 else match_cnt q)\<rparr>))"

text \<open>
  The loop of \<open>mm_channel_superbuf_bufdone_overflow\<close> and \<open>mm_channel_superbuf_skip\<close>: it goes on, with
  the queue locked, until the count is low enough.
\<close>

partial_function (option) trim_loop :: "u32 \<Rightarrow> mm_channel \<Rightarrow> mm_channel option" where
  "trim_loop n ch =
    (if match_cnt (superbuf_queue ch) > n then
       (case superbuf_dequeue_internal True (superbuf_queue ch) of
          (None, q) \<Rightarrow> trim_loop n (ch\<lparr>superbuf_queue := q\<rparr>)
        | (Some sb, q) \<Rightarrow> trim_loop n (qbufs (super_buf sb) (ch\<lparr>superbuf_queue := q\<rparr>)))
     else Some ch)"

declare trim_loop.simps [code]

definition superbuf_bufdone_overflow :: "mm_channel \<Rightarrow> mm_channel option" where
  "superbuf_bufdone_overflow ch =
    (let a = attr (superbuf_queue ch)
     in if attr_notify_mode a = MM_CAMERA_SUPER_BUF_NOTIFY_CONTINUOUS then Some ch
        else trim_loop (ucast (water_mark a)) ch)"

definition superbuf_skip :: "mm_channel \<Rightarrow> mm_channel option" where
  "superbuf_skip ch =
    (let a = attr (superbuf_queue ch)
     in if attr_notify_mode a = MM_CAMERA_SUPER_BUF_NOTIFY_CONTINUOUS then Some ch
        else trim_loop (ucast (look_back a)) ch)"

lemma dequeue_shrinks:
  "superbuf_dequeue_internal m q = (Some n, q') \<Longrightarrow> length (que q') < length (que q)"
  by (auto simp: superbuf_dequeue_internal_def split: list.splits if_splits)

lemma qbufs_queue [simp]: "superbuf_queue (qbufs bs ch) = superbuf_queue ch"
  by (induction bs ch rule: qbufs.induct) (simp_all add: qbuf_def ch_emit_def)

text \<open>The loop of \<open>mm_channel_superbuf_flush\<close>: all nodes go, but only buffers of the type given back.\<close>

definition of_type :: "cam_stream_type \<Rightarrow> mm_camera_buf_info option \<Rightarrow> bool" where
  "of_type cam_type e =
    (case e of None \<Rightarrow> False
     | Some b \<Rightarrow> cam_type = CAM_STREAM_TYPE_DEFAULT \<or> cam_type = def_stream_type (info_buf b))"

function superbuf_flush :: "cam_stream_type \<Rightarrow> mm_channel \<Rightarrow> mm_channel" where
  "superbuf_flush cam_type ch =
    (case superbuf_dequeue_internal False (superbuf_queue ch) of
       (None, q) \<Rightarrow> ch\<lparr>superbuf_queue := q\<rparr>
     | (Some sb, q) \<Rightarrow>
         superbuf_flush cam_type (qbufs (filter (of_type cam_type) (super_buf sb)) (ch\<lparr>superbuf_queue := q\<rparr>)))"
  by pat_completeness auto
termination
  by (relation "measure (\<lambda>(_, ch). length (que (superbuf_queue ch)))")
    (auto intro: dequeue_shrinks [OF sym])

function superbuf_flush_matched :: "mm_channel \<Rightarrow> mm_channel" where
  "superbuf_flush_matched ch =
    (case superbuf_dequeue_internal True (superbuf_queue ch) of
       (None, q) \<Rightarrow> ch\<lparr>superbuf_queue := q\<rparr>
     | (Some sb, q) \<Rightarrow> superbuf_flush_matched (qbufs (super_buf sb) (ch\<lparr>superbuf_queue := q\<rparr>)))"
  by pat_completeness auto
termination
  by (relation "measure (\<lambda>ch. length (que (superbuf_queue ch)))")
    (auto intro: dequeue_shrinks [OF sym])

declare superbuf_flush.simps [simp del] superbuf_flush_matched.simps [simp del]

section \<open>What the metadata says\<close>

fun stream_by_handler :: "u32 \<Rightarrow> ch_stream list \<Rightarrow> ch_stream option" where
  "stream_by_handler h [] = None"
| "stream_by_handler h (s # ss) =
    (if str_used s \<and> h = str_hdl s then Some s else stream_by_handler h ss)"

text \<open>The server's id of the snapshot stream, 0 without one; the outer None is a NULL \<open>stream_info\<close>.\<close>

fun snapshot_stream_id :: "ch_stream list \<Rightarrow> u32 option" where
  "snapshot_stream_id [] = Some 0"
| "snapshot_stream_id (s # ss) =
    (if \<not> str_used s then snapshot_stream_id ss
     else case str_type s of
       None \<Rightarrow> None
     | Some t \<Rightarrow> if t = CAM_STREAM_TYPE_SNAPSHOT then Some (str_server_id s) else snapshot_stream_id ss)"

definition crop_1x_found :: "metadata_buffer \<Rightarrow> ch_stream list \<Rightarrow> bool option" where
  "crop_1x_found m ss =
    (case meta_crop_data m of
       None \<Rightarrow> Some False
     | Some crops \<Rightarrow>
         (case snapshot_stream_id ss of
            None \<Rightarrow> None
          | Some i \<Rightarrow> Some (\<exists>(j, left, top) \<in> set crops. j = i \<and> left = 0 \<and> top = 0)))"

definition max_future_frame_offset :: u32 where
  "max_future_frame_offset = 100"

definition set_expected :: "u32 \<Rightarrow> mm_channel \<Rightarrow> mm_channel" where
  "set_expected f ch = upd_queue (\<lambda>q. q\<lparr>expected_frame_id := f\<rparr>) ch"

definition add_expected :: "mm_channel \<Rightarrow> mm_channel" where
  "add_expected ch = set_expected (expected_frame_id (superbuf_queue ch) + max_future_frame_offset) ch"

text \<open>The steps of \<open>mm_channel_handle_metadata\<close>, in its order.\<close>

definition meta_divert :: "metadata_buffer \<Rightarrow> mm_camera_buf_info \<Rightarrow> mm_channel \<Rightarrow> mm_channel" where
  "meta_divert m b ch =
    (case meta_buf_divert m of
       None \<Rightarrow> ch
     | Some f \<Rightarrow> ch\<lparr>diverted_frame_id := (if f \<ge> frame_idx b then ucast f else 0)\<rparr>)"

definition meta_prep :: "metadata_buffer \<Rightarrow> mm_channel \<Rightarrow> mm_channel" where
  "meta_prep m ch =
    (case meta_prep_snapshot_done m of
       None \<Rightarrow> ch
     | Some st \<Rightarrow>
         let ch = ch\<lparr>bWaitForPrepSnapshotDone := False\<rparr>
         in if st = NEED_FUTURE_FRAME
            then (superbuf_flush CAM_STREAM_TYPE_DEFAULT (add_expected ch))\<lparr>needLEDFlash := True\<rparr>
            else ch\<lparr>needLEDFlash := False\<rparr>)"

definition meta_good_range :: "metadata_buffer \<Rightarrow> mm_channel \<Rightarrow> mm_channel" where
  "meta_good_range m ch =
    (case meta_good_frame_idx_range m of
       Some r \<Rightarrow>
         let ch = set_expected (min_frame_idx r) ch
         in if needLEDFlash ch \<and> burstSnapNum ch > 1
            then upd_queue (\<lambda>q. q\<lparr>led_on_start_frame_id := min_frame_idx r,
                   led_off_start_frame_id := max_frame_idx r, led_once := False,
                   led_on_num_frames := num_led_on_frames r,
                   led_frame_skip_count := frame_skip_count r\<rparr>) ch
            else ch
     | None \<Rightarrow>
         if bracketingState ch = MM_CHANNEL_BRACKETING_STATE_WAIT_GOOD_FRAME_IDX \<and>
            meta_prep_snapshot_done m = None
         then add_expected (superbuf_flush_matched ch)
         else ch)"

definition meta_bracketing :: "metadata_buffer \<Rightarrow> mm_channel \<Rightarrow> mm_channel" where
  "meta_bracketing m ch =
    (case meta_good_frame_idx_range m of
       None \<Rightarrow> ch
     | Some r \<Rightarrow>
         let ch = set_expected (min_frame_idx r) ch
         in if isFlashBracketingEnabled ch
            then upd_queue (\<lambda>q. q\<lparr>expected_frame_id_without_led := max_frame_idx r\<rparr>) ch
            else ch\<lparr>bracketingState := MM_CHANNEL_BRACKETING_STATE_ACTIVE\<rparr>)"

definition meta_config :: "ch_env \<Rightarrow> metadata_buffer \<Rightarrow> mm_channel \<Rightarrow> mm_channel" where
  "meta_config E m ch =
    (case meta_good_frame_idx_range m of
       None \<Rightarrow> ch
     | Some r \<Rightarrow>
         if frame_config ch \<and> config_batch_idx r < freed_num_batch E (ch_calls ch)
         then (set_expected (min_frame_idx r) ch)\<lparr>cur_capture_idx := ucast (config_batch_idx r)\<rparr>
         else ch)"

definition meta_led_off :: "mm_camera_buf_info \<Rightarrow> mm_channel \<Rightarrow> mm_channel" where
  "meta_led_off b ch =
    (let q = superbuf_queue ch
     in if burstSnapNum ch > 1 \<and> needLEDFlash ch \<and> \<not> isFlashBracketingEnabled ch \<and>
           bracketingState ch = MM_CHANNEL_BRACKETING_STATE_OFF \<and> \<not> frame_config ch \<and>
           frame_idx b \<ge> led_off_start_frame_id q \<and> \<not> led_once q
        then (upd_queue (\<lambda>q. q\<lparr>expected_frame_id := led_off_start_frame_id q + led_frame_skip_count q,
                             led_once := True\<rparr>) ch)
               \<lparr>stopZslSnapshot := True, needLEDFlash := False\<rparr>
        else ch)"

definition handle_metadata ::
  "ch_env \<Rightarrow> mm_camera_buf_info \<Rightarrow> mm_channel \<Rightarrow> (int \<times> mm_channel) option" where
  "handle_metadata E b ch =
    (case stream_by_handler (stream_id b) (ch_streams ch) of
       None \<Rightarrow> Some (- 1, ch)
     | Some s \<Rightarrow>
         (case str_type s of
            None \<Rightarrow> Some (- 1, ch)
          | Some t \<Rightarrow>
              if t = CAM_STREAM_TYPE_METADATA \<and> str_own s then
                (case def_metadata (info_buf b) of
                   None \<Rightarrow> Some (- 1, ch)
                 | Some m \<Rightarrow>
                     (case crop_1x_found m (ch_streams ch) of
                        None \<Rightarrow> None
                      | Some crop_1x \<Rightarrow>
                          let ch = meta_divert m b ch
                          in if isZoom1xFrameRequested ch then
                               Some (0, if crop_1x
                                 then set_expected (frame_idx b + 1) (ch\<lparr>isZoom1xFrameRequested := False\<rparr>)
                                 else superbuf_flush_matched (add_expected ch))
                             else
                               Some (0, meta_led_off b (meta_config E m (meta_bracketing m
                                 (meta_good_range m (meta_prep m ch)))))))
              else Some (0, ch)))"

section \<open>Matching an incoming frame\<close>

definition entry_frame :: "mm_camera_buf_info option \<Rightarrow> u32" where
  "entry_frame e = (case e of None \<Rightarrow> 0 | Some b \<Rightarrow> frame_idx b)"

definition is_meta :: "mm_camera_buf_info \<Rightarrow> bool" where
  "is_meta b \<longleftrightarrow> def_stream_type (info_buf b) = CAM_STREAM_TYPE_METADATA"

text \<open>Whether the frame, of stream number \<open>k\<close>, belongs to an unmatched super buffer.\<close>

definition belongs :: "mm_channel_queue \<Rightarrow> nat \<Rightarrow> mm_camera_buf_info \<Rightarrow> queue_node \<Rightarrow> bool" where
  "belongs q k b n \<longleftrightarrow>
    frame_idx b = node_frame_idx n \<or>
    (nomatch_frame_id q \<noteq> 0 \<and> nomatch_frame_id q \<le> frame_idx b \<and>
     entry_frame (super_buf n ! k) = 0 \<and> is_meta b) \<or>
    (priority (attr q) = MM_CAMERA_SUPER_BUF_PRIORITY_LOW \<and> \<not> is_meta b \<and>
     entry_frame (super_buf n ! k) = 0 \<and> node_frame_idx n > frame_idx b)"

text \<open>
  The walk: where the frame belongs, the number of unmatched super buffers passed, the first of them
  that is older (\<open>last_buf\<close>), the first that is newer (\<open>insert_before_buf\<close>). \<open>i\<close> is the position.
\<close>

fun scan :: "mm_channel_queue \<Rightarrow> nat \<Rightarrow> mm_camera_buf_info \<Rightarrow> queue_node list \<Rightarrow> nat \<Rightarrow>
    u8 \<Rightarrow> nat option \<Rightarrow> nat option \<Rightarrow> nat option \<times> u8 \<times> nat option \<times> nat option" where
  "scan q k b [] i u lst ins = (None, u, lst, ins)"
| "scan q k b (n # ns) i u lst ins =
    (if matched n then scan q k b ns (Suc i) u lst ins
     else if belongs q k b n then (Some i, u, lst, ins)
     else scan q k b ns (Suc i) (u + 1)
       (if lst = None \<and> node_frame_idx n < frame_idx b then Some i else lst)
       (if ins = None \<and> node_frame_idx n > frame_idx b then Some i else ins))"

text \<open>
  The frame belongs to the super buffer at \<open>i\<close>. When that is complete, all from \<open>last_buf\<close> up to it
  are given back.
\<close>

definition fill_node :: "nat \<Rightarrow> mm_camera_buf_info \<Rightarrow> queue_node \<Rightarrow> queue_node" where
  "fill_node k b n =
    (let bs = (super_buf n)[k := Some b]
     in n\<lparr>super_buf := bs, matched := (\<forall>e \<in> set bs. entry_frame e \<noteq> 0)\<rparr>)"

definition match_frame ::
  "nat \<Rightarrow> mm_camera_buf_info \<Rightarrow> nat \<Rightarrow> nat option \<Rightarrow> mm_channel \<Rightarrow> mm_channel" where
  "match_frame k b i lst ch =
    (let q = superbuf_queue ch;
         n = que q ! i
     in if entry_frame (super_buf n ! k) \<noteq> 0 then qbuf b ch
        else
          let n = fill_node k b n
          in if matched n then
               let (e, flash) = (if isFlashBracketingEnabled ch
                     then (expected_frame_id_without_led q, frame_idx b < expected_frame_id_without_led q)
                     else (frame_idx b + ucast (post_frame_skip (attr q)), False));
                   j = (case lst of None \<Rightarrow> i | Some j \<Rightarrow> j);
                   old = drop j (take i (que q))
               in qbufs_nodes old
                    (ch\<lparr>isFlashBracketingEnabled := flash,
                        superbuf_queue := q\<lparr>
                          que := take j (que q) @ n\<lparr>expected := False\<rparr> # drop (Suc i) (que q),
                          que_size := que_size q - of_nat (length old),
                          match_cnt := match_cnt q + 1, expected_frame_id := e\<rparr>\<rparr>)
             else
               let dvt = (ucast (diverted_frame_id ch) = frame_idx b)
               in ch\<lparr>diverted_frame_id := (if dvt then 0 else diverted_frame_id ch),
                     superbuf_queue := q\<lparr>que := (que q)[i := n\<lparr>expected := (dvt \<or> expected n)\<rparr>]\<rparr>\<rparr>)"

text \<open>
  The frame belongs nowhere. The loop over the nodes from \<open>last_buf\<close> frees the first that is not
  expected, while there are too many; it then reads the next pointer of the node it has freed
  (\<open>Ch_Read_Freed\<close>, which C leaves undefined), and if there are still too many follows it (None).
\<close>

fun drop_loop :: "u8 \<Rightarrow> nat option \<Rightarrow> queue_node list \<Rightarrow> nat \<Rightarrow> u8 \<Rightarrow> (nat option \<times> u8) option" where
  "drop_loop mx ins [] j u = Some (None, u)"
| "drop_loop mx ins (n # ns) j u =
    (if mx < u then
       (if \<not> expected n \<and> ins \<noteq> Some j then (if mx < u - 1 then None else Some (Some j, u - 1))
        else drop_loop mx ins ns (Suc j) u)
     else Some (None, u))"

definition remove_node :: "nat \<Rightarrow> mm_channel \<Rightarrow> mm_channel" where
  "remove_node j ch =
    (let q = superbuf_queue ch
     in qbufs (super_buf (que q ! j))
          (ch\<lparr>superbuf_queue := q\<lparr>que := take j (que q) @ drop (Suc j) (que q), que_size := que_size q - 1\<rparr>\<rparr>))"

text \<open>\<open>freed\<close> says that it is the loop that removes the node, and so goes on to its link.\<close>

definition drop_node :: "bool \<Rightarrow> nat \<Rightarrow> mm_channel \<Rightarrow> mm_channel" where
  "drop_node freed j ch =
    (let ch = remove_node j ch in if freed then ch_emit Ch_Read_Freed ch else ch)"

text \<open>\<open>pos\<close> is where the new node goes, None for the end; \<open>dvt\<close> says that its frame was diverted.\<close>

definition new_sb_node :: "nat \<Rightarrow> nat \<Rightarrow> mm_camera_buf_info \<Rightarrow> bool \<Rightarrow> queue_node" where
  "new_sb_node num_streams k b dvt =
    \<lparr>super_buf = (replicate num_streams None)[k := Some b], matched = (num_streams = 1),
     expected = (dvt \<and> num_streams \<noteq> 1), node_frame_idx = frame_idx b\<rparr>"

definition place_node :: "nat \<Rightarrow> mm_camera_buf_info \<Rightarrow> nat option \<Rightarrow> mm_channel \<Rightarrow> mm_channel" where
  "place_node k b pos ch =
    (let q = superbuf_queue ch;
         p = (case pos of None \<Rightarrow> length (que q) | Some p \<Rightarrow> p);
         dvt = (ucast (diverted_frame_id ch) = frame_idx b);
         one = (length (bundled_streams q) = 1)
     in ch\<lparr>diverted_frame_id := (if dvt then 0 else diverted_frame_id ch),
           superbuf_queue := q\<lparr>
             que := take p (que q) @ new_sb_node (length (bundled_streams q)) k b dvt # drop p (que q),
             que_size := que_size q + 1,
             expected_frame_id := (if one then frame_idx b + ucast (post_frame_skip (attr q))
                                   else expected_frame_id q),
             match_cnt := (if one then match_cnt q + 1 else match_cnt q),
             nomatch_frame_id := (if priority (attr q) = MM_CAMERA_SUPER_BUF_PRIORITY_LOW \<and> \<not> is_meta b
                                  then frame_idx b else nomatch_frame_id q)\<rparr>\<rparr>)"

definition insert_node :: "ch_env \<Rightarrow> nat \<Rightarrow> mm_camera_buf_info \<Rightarrow> nat option \<Rightarrow> mm_channel \<Rightarrow> mm_channel" where
  "insert_node E k b pos ch =
    (let ok1 = malloc_ok E (ch_calls ch);
         ch = ch_emit (Ch_Malloc ok1) ch;
         ok2 = malloc_ok E (ch_calls ch);
         ch = ch_emit (Ch_Malloc ok2) ch
     in if \<not> (ok1 \<and> ok2) then qbuf b ch else place_node k b pos ch)"

definition new_frame ::
  "ch_env \<Rightarrow> nat \<Rightarrow> mm_camera_buf_info \<Rightarrow> u8 \<Rightarrow> nat option \<Rightarrow> nat option \<Rightarrow> mm_channel \<Rightarrow> mm_channel option" where
  "new_frame E k b u lst ins ch =
    (let q = superbuf_queue ch;
         mx = max_unmatched_frames (attr q)
     in if mx < u \<and> lst = None then Some (qbuf b ch)
        else
          (case drop_loop mx ins (case lst of None \<Rightarrow> [] | Some j \<Rightarrow> drop j (que q))
                  (case lst of None \<Rightarrow> 0 | Some j \<Rightarrow> j) u of
             None \<Rightarrow> None
           | Some (r, u) \<Rightarrow>
               let r = (if mx < u then lst else r);
                   ch = (case r of None \<Rightarrow> ch | Some j \<Rightarrow> drop_node (\<not> mx < u) j ch);
                   pos = (case (ins, r) of
                       (Some i, Some j) \<Rightarrow> Some (if j < i then i - 1 else i)
                     | (p, _) \<Rightarrow> p)
               in Some (insert_node E k b pos ch)))"

fun index_of :: "'a \<Rightarrow> 'a list \<Rightarrow> nat" where
  "index_of x [] = 0"
| "index_of x (y # ys) = (if x = y then 0 else Suc (index_of x ys))"

definition superbuf_comp_and_enqueue :: "ch_env \<Rightarrow> mm_camera_buf_info \<Rightarrow> mm_channel \<Rightarrow> mm_channel option" where
  "superbuf_comp_and_enqueue E b ch =
    (let q = superbuf_queue ch;
         k = index_of (stream_id b) (bundled_streams q)
     in if k = length (bundled_streams q) then Some ch
        else if frame_idx b = 0 then Some (qbuf b ch)
        else
          (case handle_metadata E b ch of
             None \<Rightarrow> None
           | Some (rc, ch) \<Rightarrow>
               if rc < 0 then Some (qbuf b ch)
               else
                 let q = superbuf_queue ch
                 in if frame_idx b < expected_frame_id q then Some (qbuf b ch)
                    else if nomatch_frame_id q \<noteq> 0 \<and> nomatch_frame_id q > frame_idx b \<and> is_meta b
                    then Some (qbuf b ch)
                    else
                      (case scan q k b (que q) 0 0 None None of
                         (Some i, _, lst, _) \<Rightarrow>
                           Some (match_frame k b i lst (upd_queue (\<lambda>q. q\<lparr>nomatch_frame_id := 0\<rparr>) ch))
                       | (None, u, lst, ins) \<Rightarrow> new_frame E k b u lst ins ch)))"

end
