(* ===== verification/SuperBufCmd.thy ===== *)
theory SuperBufCmd
  imports SuperBuf
begin

text \<open>
  The thread of a channel: \<open>mm_channel_process_stream_buf\<close>, which executes one command, be it a frame
  of a stream or a request of the client, and then sends the client what it can have.
\<close>

datatype ch_cmd =
    Cmd_Data_Cb mm_camera_buf_info
  | Cmd_Req_Data_Cb u32 u32
  | Cmd_Start_Zsl
  | Cmd_Stop_Zsl
  | Cmd_Config_Notify notify_mode
  | Cmd_Flush_Queue u32
  | Cmd_Ae_Af_Bracketing bool
  | Cmd_Flash_Bracketing bool
  | Cmd_Zoom_1x bool
  | Cmd_Capture_Setting bool

definition req_data :: "u32 \<Rightarrow> u32 \<Rightarrow> mm_channel \<Rightarrow> mm_channel option" where
  "req_data num retro ch =
    (let retro = (if num = 0 \<or> retro > num then num else retro);
         ch = ch\<lparr>pending_cnt := num, pending_retro_cnt := retro, bWaitForPrepSnapshotDone := False,
                 needLEDFlash := (if retro > 0 then False else needLEDFlash ch),
                 stopZslSnapshot := False, unLockAEC := False\<rparr>
     in superbuf_skip ch)"

definition flush_all :: "mm_channel \<Rightarrow> mm_channel" where
  "flush_all ch = superbuf_flush CAM_STREAM_TYPE_DEFAULT ch"

text \<open>The command itself; the flush of the queue returns at once.\<close>

fun exec_cmd :: "ch_env \<Rightarrow> ch_cmd \<Rightarrow> mm_channel \<Rightarrow> mm_channel option" where
  "exec_cmd E (Cmd_Data_Cb b) ch = superbuf_comp_and_enqueue E b ch"
| "exec_cmd E (Cmd_Req_Data_Cb num retro) ch = req_data num retro ch"
| "exec_cmd E Cmd_Start_Zsl ch = Some (ch_emit Ch_Start_Zsl (ch\<lparr>manualZSLSnapshot := True\<rparr>))"
| "exec_cmd E Cmd_Stop_Zsl ch = Some (ch_emit Ch_Stop_Zsl (ch\<lparr>manualZSLSnapshot := False\<rparr>))"
| "exec_cmd E (Cmd_Config_Notify m) ch =
    Some (upd_queue (\<lambda>q. q\<lparr>attr := (attr q)\<lparr>attr_notify_mode := m\<rparr>\<rparr>) ch)"
| "exec_cmd E (Cmd_Flush_Queue f) ch = Some (flush_all (set_expected f ch))"
| "exec_cmd E (Cmd_Ae_Af_Bracketing start) ch =
    Some ((flush_all ch)\<lparr>bracketingState :=
      (if start then MM_CHANNEL_BRACKETING_STATE_WAIT_GOOD_FRAME_IDX else MM_CHANNEL_BRACKETING_STATE_OFF)\<rparr>)"
| "exec_cmd E (Cmd_Flash_Bracketing start) ch = Some ((flush_all ch)\<lparr>isFlashBracketingEnabled := start\<rparr>)"
| "exec_cmd E (Cmd_Zoom_1x start) ch = Some ((flush_all ch)\<lparr>isZoom1xFrameRequested := start\<rparr>)"
| "exec_cmd E (Cmd_Capture_Setting start) ch =
    Some ((flush_all ch)\<lparr>frame_config := start, cur_capture_idx := 0\<rparr>)"

definition zsl_control :: "mm_channel \<Rightarrow> mm_channel" where
  "zsl_control ch =
    (if pending_cnt ch > 0 \<and> (needLEDFlash ch \<or> bracketingState ch \<noteq> MM_CHANNEL_BRACKETING_STATE_OFF) \<and>
        \<not> manualZSLSnapshot ch \<and> \<not> startZSlSnapshotCalled ch
     then (ch_emit Ch_Start_Zsl ch)\<lparr>startZSlSnapshotCalled := True, burstSnapNum := pending_cnt ch,
            bWaitForPrepSnapshotDone := False\<rparr>
     else if (pending_cnt ch = 0 \<or> stopZslSnapshot ch) \<and> \<not> manualZSLSnapshot ch \<and> startZSlSnapshotCalled ch
     then (ch_emit Ch_Stop_Zsl ch)\<lparr>startZSlSnapshotCalled := False, needLEDFlash := False,
            burstSnapNum := 0, stopZslSnapshot := False, bWaitForPrepSnapshotDone := False,
            unLockAEC := True, bracketingState := MM_CHANNEL_BRACKETING_STATE_OFF\<rparr>
     else ch)"

text \<open>Counting a super buffer that is sent in burst mode; the first result is \<open>bReady\<close>.\<close>

definition count_down :: "mm_channel \<Rightarrow> bool \<times> mm_channel" where
  "count_down ch =
    (let ready = (pending_retro_cnt ch = 1);
         ch = ch\<lparr>pending_cnt := pending_cnt ch - 1,
                 bWaitForPrepSnapshotDone := (ready \<or> bWaitForPrepSnapshotDone ch),
                 pending_retro_cnt := (if pending_retro_cnt ch > 0 then pending_retro_cnt ch - 1
                                       else pending_retro_cnt ch)\<rparr>
     in (ready,
       if (pending_cnt ch = 0 \<or> stopZslSnapshot ch) \<and> \<not> manualZSLSnapshot ch \<and> startZSlSnapshotCalled ch
       then (ch_emit Ch_Stop_Zsl ch)\<lparr>startZSlSnapshotCalled := False, burstSnapNum := 0,
              stopZslSnapshot := False, unLockAEC := True, needLEDFlash := False,
              bracketingState := MM_CHANNEL_BRACKETING_STATE_OFF\<rparr>
       else ch))"

text \<open>
  Handing a super buffer to the client's thread: a first allocation for the message, then one in
  \<open>cam_queue_enq\<close>. When that fails, the buffers are neither sent nor given back.
\<close>

definition send_superbuf :: "ch_env \<Rightarrow> bool \<Rightarrow> queue_node \<Rightarrow> mm_channel \<Rightarrow> mm_channel" where
  "send_superbuf E ready n ch =
    (if super_buf_notify_cb ch then
       (let ok = malloc_ok E (ch_calls ch);
            ch = ch_emit (Ch_Malloc ok) ch
        in if ok then
             (let enq = malloc_ok E (ch_calls ch);
                  bs = map (map_option info_buf) (super_buf n);
                  ch = ch_emit (Ch_Malloc enq) ch
              in (ch_emit ((if enq then Ch_Superbuf else Ch_Lost) bs ready (unLockAEC ch)) ch)\<lparr>unLockAEC := False\<rparr>)
           else qbufs (super_buf n) ch)
     else qbufs (super_buf n) ch)"

definition dispatch_one :: "ch_env \<Rightarrow> notify_mode \<Rightarrow> queue_node \<Rightarrow> mm_channel \<Rightarrow> mm_channel" where
  "dispatch_one E mode n ch =
    (case (if mode = MM_CAMERA_SUPER_BUF_NOTIFY_BURST then count_down ch else (False, ch)) of
       (ready, ch) \<Rightarrow> send_superbuf E ready n ch)"

lemma dispatch_one_queue [simp]: "superbuf_queue (dispatch_one E mode n ch) = superbuf_queue ch"
  by (simp add: dispatch_one_def count_down_def send_superbuf_def ch_emit_def Let_def)

function dispatch_loop :: "ch_env \<Rightarrow> notify_mode \<Rightarrow> mm_channel \<Rightarrow> mm_channel" where
  "dispatch_loop E mode ch =
    (if (pending_cnt ch > 0 \<or> mode = MM_CAMERA_SUPER_BUF_NOTIFY_CONTINUOUS) \<and> \<not> bWaitForPrepSnapshotDone ch
     then (case superbuf_dequeue_internal True (superbuf_queue ch) of
             (None, q) \<Rightarrow> ch\<lparr>superbuf_queue := q\<rparr>
           | (Some n, q) \<Rightarrow> dispatch_loop E mode (dispatch_one E mode n (ch\<lparr>superbuf_queue := q\<rparr>)))
     else ch)"
  by pat_completeness auto
termination
  by (relation "measure (\<lambda>(_, _, ch). length (que (superbuf_queue ch)))")
    (auto intro: dequeue_shrinks [OF sym])

declare dispatch_loop.simps [simp del]

definition process_stream_buf :: "ch_env \<Rightarrow> ch_cmd \<Rightarrow> mm_channel \<Rightarrow> mm_channel option" where
  "process_stream_buf E cmd ch =
    (case exec_cmd E cmd ch of
       None \<Rightarrow> None
     | Some ch \<Rightarrow>
         (case cmd of
            Cmd_Flush_Queue _ \<Rightarrow> Some ch
          | _ \<Rightarrow>
              (case superbuf_bufdone_overflow (zsl_control ch) of
                 None \<Rightarrow> None
               | Some c \<Rightarrow> Some (dispatch_loop E (attr_notify_mode (attr (superbuf_queue ch))) c))))"

fun ch_run :: "ch_env \<Rightarrow> ch_cmd list \<Rightarrow> mm_channel \<Rightarrow> mm_channel option" where
  "ch_run E [] ch = Some ch"
| "ch_run E (c # cs) ch = (case process_stream_buf E c ch of None \<Rightarrow> None | Some ch \<Rightarrow> ch_run E cs ch)"

text \<open>
  The queue as \<open>mm_channel_start\<close> leaves it, for streams with the given handles; the attributes are
  those of \<open>mm_channel_init\<close>.
\<close>

definition new_queue :: "u32 list \<Rightarrow> mm_channel_queue \<Rightarrow> mm_channel_queue" where
  "new_queue hdls q =
    q\<lparr>que := [], que_size := 0, bundled_streams := hdls, expected_frame_id := 0,
      expected_frame_id_without_led := 0, led_off_start_frame_id := 0, led_on_start_frame_id := 0,
      led_on_num_frames := 0\<rparr>"

end
