(* ===== verification/SuperBufScan.thy ===== *)
theory SuperBufScan
  imports SuperBufCmd
begin

text \<open>
  The walk along the queue in closed form, for a queue that consists of complete super buffers and
  then incomplete ones with ascending numbers; and the bounds of what it finds in any queue.
\<close>

lemma scan_bounds:
  assumes "scan q k b ns i u lst ins = (fd, u', lst', ins')"
    and "\<And>j. lst = Some j \<Longrightarrow> j < i"
  shows "fd = Some p \<Longrightarrow> i \<le> p \<and> p < i + length ns"
    and "fd = Some p \<Longrightarrow> lst' = Some j \<Longrightarrow> j < p"
    and "lst' = Some j \<Longrightarrow> j < i + length ns"
  using assms
proof (induction ns arbitrary: i u lst ins)
  case (Cons n ns)
  { case 1
    then show ?case using Cons.IH(1) [of "Suc i"]
      by (fastforce split: if_splits)
  next
    case 2
    then show ?case using Cons.IH(2) [of "Suc i"]
      by (fastforce split: if_splits)
  next
    case 3
    then show ?case using Cons.IH(3) [of "Suc i"]
      by (fastforce split: if_splits)
  }
qed (auto dest: meta_spec)

lemma scan_matched:
  "\<forall>n \<in> set ms. matched n \<Longrightarrow> scan q k b (ms @ us) i u lst ins = scan q k b us (i + length ms) u lst ins"
  by (induction ms arbitrary: i) auto

definition by_number :: "mm_channel_queue \<Rightarrow> bool" where
  "by_number q \<longleftrightarrow> priority (attr q) \<noteq> MM_CAMERA_SUPER_BUF_PRIORITY_LOW \<and> nomatch_frame_id q = 0"

lemma belongs_by_number: "by_number q \<Longrightarrow> belongs q k b n \<longleftrightarrow> frame_idx b = node_frame_idx n"
  by (auto simp: by_number_def belongs_def)

abbreviation older :: "mm_camera_buf_info \<Rightarrow> queue_node \<Rightarrow> bool" where
  "older b n \<equiv> node_frame_idx n < frame_idx b"

lemma scan_newer:
  assumes "by_number q" "\<forall>n \<in> set us. \<not> matched n \<and> frame_idx b < node_frame_idx n"
  shows "scan q k b us i u lst ins =
    (None, u + of_nat (length us), lst, if ins = None \<and> us \<noteq> [] then Some i else ins)"
  using assms(2)
  by (induction us arbitrary: i u ins) (auto simp: belongs_by_number [OF assms(1)] algebra_simps)

lemma scan_older:
  assumes "by_number q" "\<forall>n \<in> set us. \<not> matched n \<and> older b n"
  shows "scan q k b (us @ vs) i u lst ins =
    scan q k b vs (i + length us) (u + of_nat (length us)) (if lst = None \<and> us \<noteq> [] then Some i else lst) ins"
  using assms(2)
proof (induction us arbitrary: i u lst)
  case (Cons n us)
  have "node_frame_idx n \<noteq> frame_idx b" "\<not> node_frame_idx n > frame_idx b" using Cons.prems by auto
  then show ?case using Cons by (simp add: belongs_by_number [OF assms(1)] add.assoc)
qed simp

text \<open>An incomplete part splits at the number of the frame.\<close>

lemma split_at_frame:
  assumes "sorted_wrt (\<lambda>m n. node_frame_idx m < node_frame_idx n) us"
  obtains as bs where "us = as @ bs" "\<forall>n \<in> set as. older b n" "\<forall>n \<in> set bs. \<not> older b n"
    "\<And>n ns. bs = n # ns \<Longrightarrow> \<forall>m \<in> set ns. frame_idx b < node_frame_idx m"
proof
  let ?as = "takeWhile (older b) us" and ?bs = "dropWhile (older b) us"
  show us: "us = ?as @ ?bs" by simp
  show "\<forall>n \<in> set ?as. older b n" using set_takeWhileD by fastforce
  have srt: "sorted_wrt (\<lambda>m n. node_frame_idx m < node_frame_idx n) ?bs"
    using assms us by (metis sorted_wrt_append)
  show later: "\<forall>m \<in> set ns. frame_idx b < node_frame_idx m" if "?bs = n # ns" for n ns
  proof -
    have "\<not> older b n" using that by (simp add: dropWhile_eq_Cons_conv)
    moreover have "\<forall>m \<in> set ns. node_frame_idx n < node_frame_idx m" using srt that by simp
    ultimately show ?thesis by fastforce
  qed
  show "\<forall>n \<in> set ?bs. \<not> older b n"
  proof (cases ?bs)
    case (Cons n ns)
    have "\<not> older b n" using Cons by (simp add: dropWhile_eq_Cons_conv)
    then show ?thesis using later [OF Cons] Cons by fastforce
  next
    case Nil
    show ?thesis unfolding Nil by simp
  qed
qed

text \<open>The whole walk.\<close>

lemma scan_found:
  assumes "by_number q" "\<forall>n \<in> set ms. matched n" "\<forall>n \<in> set (as @ n # bs). \<not> matched n"
    and "\<forall>n \<in> set as. older b n" "node_frame_idx n = frame_idx b"
  shows "\<exists>u. scan q k b (ms @ as @ n # bs) 0 0 None None =
    (Some (length ms + length as), u, if as = [] then None else Some (length ms), None)"
  using assms scan_matched [of ms q k b "as @ n # bs" 0 0 None None]
    scan_older [of q as b k "n # bs" "length ms" 0 None None]
  by (simp add: belongs_by_number)

lemma scan_not_found:
  assumes "by_number q" "\<forall>n \<in> set ms. matched n" "\<forall>n \<in> set (as @ bs). \<not> matched n"
    and "\<forall>n \<in> set as. older b n" "\<forall>n \<in> set bs. frame_idx b < node_frame_idx n"
  shows "scan q k b (ms @ as @ bs) 0 0 None None =
    (None, of_nat (length as + length bs), if as = [] then None else Some (length ms),
     if bs = [] then None else Some (length ms + length as))"
  using assms scan_matched [of ms q k b "as @ bs" 0 0 None None]
    scan_older [of q as b k bs "length ms" 0 None None]
    scan_newer [of q bs b k "length ms + length as" "of_nat (length as)"]
  by simp

end
