(* ===== verification/SuperBufKeep.thy ===== *)
theory SuperBufKeep
  imports SuperBufScan "HOL-Library.Multiset"
begin

text \<open>
  Where the buffers are: whatever the priority, each buffer that came with a frame is in the queue,
  has been given back, has been sent to the client, or was lost for want of memory.
\<close>

section \<open>Counting buffers\<close>

fun entry_bufs :: "mm_camera_buf_info option list \<Rightarrow> mm_camera_buf_def list" where
  "entry_bufs [] = []"
| "entry_bufs (None # es) = entry_bufs es"
| "entry_bufs (Some b # es) = info_buf b # entry_bufs es"

fun call_bufs :: "ch_call \<Rightarrow> mm_camera_buf_def list" where
  "call_bufs (Ch_Qbuf b) = [b]"
| "call_bufs (Ch_Superbuf bs _ _) = map the (filter (\<lambda>b. b \<noteq> None) bs)"
| "call_bufs (Ch_Lost bs _ _) = map the (filter (\<lambda>b. b \<noteq> None) bs)"
| "call_bufs _ = []"

definition node_bufs :: "queue_node list \<Rightarrow> mm_camera_buf_def multiset" where
  "node_bufs ns = mset (concat (map (\<lambda>n. entry_bufs (super_buf n)) ns))"

definition gone_bufs :: "ch_call list \<Rightarrow> mm_camera_buf_def multiset" where
  "gone_bufs cs = mset (concat (map call_bufs cs))"

text \<open>Given back, sent and lost, apart.\<close>

fun is_qbuf :: "ch_call \<Rightarrow> bool" where
  "is_qbuf (Ch_Qbuf _) = True"
| "is_qbuf _ = False"

fun is_sent :: "ch_call \<Rightarrow> bool" where
  "is_sent (Ch_Superbuf _ _ _) = True"
| "is_sent _ = False"

fun is_lost :: "ch_call \<Rightarrow> bool" where
  "is_lost (Ch_Lost _ _ _) = True"
| "is_lost _ = False"

lemma gone_bufs_parts:
  "gone_bufs cs = gone_bufs (filter is_qbuf cs) + gone_bufs (filter is_sent cs) + gone_bufs (filter is_lost cs)"
proof (induction cs)
  case (Cons c cs)
  then show ?case by (cases c) (simp_all add: gone_bufs_def)
qed (simp add: gone_bufs_def)

text \<open>A super buffer is lost only when an allocation has failed.\<close>

definition lost_ok :: "ch_call list \<Rightarrow> bool" where
  "lost_ok cs \<longleftrightarrow> Ch_Malloc False \<in> set cs \<or> filter is_lost cs = []"

lemma lost_ok_simps [simp]:
  "lost_ok []"
  "lost_ok cs \<Longrightarrow> \<not> is_lost c \<Longrightarrow> lost_ok (cs @ [c])"
  "lost_ok cs \<Longrightarrow> \<not> is_lost c \<Longrightarrow> \<not> is_lost d \<Longrightarrow> lost_ok (cs @ [c, d])"
  "lost_ok cs \<Longrightarrow> lost_ok (cs @ map Ch_Qbuf bs)"
  "lost_ok (cs @ Ch_Malloc False # ds)"
  by (auto simp: lost_ok_def filter_empty_conv)

definition all_bufs :: "mm_channel \<Rightarrow> mm_camera_buf_def multiset" where
  "all_bufs ch = node_bufs (que (superbuf_queue ch)) + gone_bufs (ch_calls ch)"

lemma node_bufs_simps [simp]:
  "node_bufs [] = {#}"
  "node_bufs (n # ns) = mset (entry_bufs (super_buf n)) + node_bufs ns"
  "node_bufs (ms @ ns) = node_bufs ms + node_bufs ns"
  by (simp_all add: node_bufs_def)

lemma gone_bufs_simps [simp]:
  "gone_bufs [] = {#}" "gone_bufs (c # cs) = mset (call_bufs c) + gone_bufs cs"
  "gone_bufs (cs @ ds) = gone_bufs cs + gone_bufs ds"
  by (simp_all add: gone_bufs_def)

lemma gone_map_qbuf [simp]: "gone_bufs (map Ch_Qbuf bs) = mset bs"
  by (induction bs) simp_all

lemma entry_bufs_append [simp]: "entry_bufs (es @ fs) = entry_bufs es @ entry_bufs fs"
  by (induction es rule: entry_bufs.induct) simp_all

lemma entry_bufs_replicate [simp]: "entry_bufs (replicate n None) = []"
  by (induction n) simp_all

lemma entry_bufs_set:
  "k < length es \<Longrightarrow> es ! k = None \<Longrightarrow> mset (entry_bufs (es[k := Some b])) = add_mset (info_buf b) (mset (entry_bufs es))"
proof (induction es arbitrary: k rule: entry_bufs.induct)
  case (2 es)
  then show ?case by (cases k) auto
next
  case (3 b es)
  then show ?case by (cases k) auto
qed simp

lemma entry_bufs_sent: "map the (filter (\<lambda>b. b \<noteq> None) (map (map_option info_buf) es)) = entry_bufs es"
  by (induction es rule: entry_bufs.induct) simp_all

lemma qbufs_eq: "qbufs es ch = ch\<lparr>ch_calls := ch_calls ch @ map Ch_Qbuf (entry_bufs es)\<rparr>"
  by (induction es ch rule: qbufs.induct) (simp_all add: qbuf_def ch_emit_def)

lemma qbufs_nodes_eq:
  "qbufs_nodes ns ch = ch\<lparr>ch_calls := ch_calls ch @ map Ch_Qbuf (concat (map (\<lambda>n. entry_bufs (super_buf n)) ns))\<rparr>"
  unfolding qbufs_nodes_def by (induction ns arbitrary: ch) (simp_all add: qbufs_eq)

section \<open>Well-formed super buffers\<close>

definition node_ok :: "nat \<Rightarrow> queue_node \<Rightarrow> bool" where
  "node_ok k n \<longleftrightarrow> length (super_buf n) = k \<and> (\<forall>b. Some b \<in> set (super_buf n) \<longrightarrow> frame_idx b \<noteq> 0) \<and>
    (matched n \<longleftrightarrow> None \<notin> set (super_buf n)) \<and> (\<exists>b. Some b \<in> set (super_buf n))"

definition queue_ok :: "mm_channel_queue \<Rightarrow> bool" where
  "queue_ok q \<longleftrightarrow> (\<forall>n \<in> set (que q). node_ok (length (bundled_streams q)) n)"

text \<open>What every step keeps.\<close>

definition moves :: "mm_channel \<Rightarrow> mm_channel \<Rightarrow> bool" where
  "moves ch ch' \<longleftrightarrow> all_bufs ch' = all_bufs ch \<and> (lost_ok (ch_calls ch) \<longrightarrow> lost_ok (ch_calls ch')) \<and>
    bundled_streams (superbuf_queue ch') = bundled_streams (superbuf_queue ch) \<and>
    ch_streams ch' = ch_streams ch \<and> super_buf_notify_cb ch' = super_buf_notify_cb ch \<and>
    (queue_ok (superbuf_queue ch) \<longrightarrow> queue_ok (superbuf_queue ch'))"

lemma moves_refl [simp]: "moves ch ch"
  by (simp add: moves_def)

lemma moves_trans [trans]: "moves a b \<Longrightarrow> moves b c \<Longrightarrow> moves a c"
  by (simp add: moves_def)

text \<open>Steps that touch neither the nodes nor the calls, or add calls that carry no buffer.\<close>

lemma moves_same:
  assumes "que (superbuf_queue ch') = que (superbuf_queue ch)" "gone_bufs (ch_calls ch') = gone_bufs (ch_calls ch)"
    "bundled_streams (superbuf_queue ch') = bundled_streams (superbuf_queue ch)"
    "ch_streams ch' = ch_streams ch" "super_buf_notify_cb ch' = super_buf_notify_cb ch"
    "lost_ok (ch_calls ch) \<Longrightarrow> lost_ok (ch_calls ch')"
  shows "moves ch ch'"
  using assms by (simp add: moves_def all_bufs_def queue_ok_def)

lemma set_expected_moves [simp]: "moves ch (set_expected f ch)"
  by (rule moves_same) (simp_all add: set_expected_def upd_queue_def)

lemma add_expected_moves [simp]: "moves ch (add_expected ch)"
  by (simp add: add_expected_def)

lemma dequeued:
  assumes "superbuf_dequeue_internal m (superbuf_queue ch) = (Some n, q)"
  shows "que (superbuf_queue ch) = n # que q" "bundled_streams q = bundled_streams (superbuf_queue ch)"
  using assms by (auto simp: superbuf_dequeue_internal_def split: list.splits if_splits)

lemma not_dequeued:
  "superbuf_dequeue_internal m (superbuf_queue ch) = (None, q) \<Longrightarrow> q = superbuf_queue ch"
  by (auto simp: superbuf_dequeue_internal_def split: list.splits if_splits)

lemma same_queue [simp]: "ch\<lparr>superbuf_queue := superbuf_queue ch\<rparr> = ch"
  by simp

lemma dequeue_qbufs_moves:
  assumes "superbuf_dequeue_internal m (superbuf_queue ch) = (Some n, q)"
  shows "moves ch (qbufs (super_buf n) (ch\<lparr>superbuf_queue := q\<rparr>))"
  using dequeued [OF assms] by (simp add: moves_def all_bufs_def qbufs_eq queue_ok_def)

lemma of_type_default: "filter (of_type CAM_STREAM_TYPE_DEFAULT) es = filter (\<lambda>e. e \<noteq> None) es"
  by (rule filter_cong) (auto simp: of_type_def split: option.splits)

lemma entry_bufs_filter [simp]: "entry_bufs (filter (\<lambda>e. \<exists>b. e = Some b) es) = entry_bufs es"
  by (induction es rule: entry_bufs.induct) simp_all

lemma flush_all_moves: "moves ch (superbuf_flush CAM_STREAM_TYPE_DEFAULT ch)"
proof (induction "CAM_STREAM_TYPE_DEFAULT" ch rule: superbuf_flush.induct)
  case (1 ch)
  show ?case
  proof (cases "superbuf_dequeue_internal False (superbuf_queue ch)")
    case (Pair r q)
    show ?thesis
    proof (cases r)
      case None
      then show ?thesis using Pair not_dequeued [of False ch q] by (subst superbuf_flush.simps) simp
    next
      case (Some n)
      let ?ch = "qbufs (filter (of_type CAM_STREAM_TYPE_DEFAULT) (super_buf n)) (ch\<lparr>superbuf_queue := q\<rparr>)"
      have "?ch = qbufs (super_buf n) (ch\<lparr>superbuf_queue := q\<rparr>)" by (simp add: qbufs_eq of_type_default)
      then have "moves ch ?ch" using dequeue_qbufs_moves Pair Some by simp
      moreover have "moves ?ch (superbuf_flush CAM_STREAM_TYPE_DEFAULT ?ch)" using 1 Pair Some by simp
      moreover have "superbuf_flush CAM_STREAM_TYPE_DEFAULT ch = superbuf_flush CAM_STREAM_TYPE_DEFAULT ?ch"
        by (subst superbuf_flush.simps) (simp add: Pair Some)
      ultimately show ?thesis using moves_trans by metis
    qed
  qed
qed

lemma flush_matched_moves: "moves ch (superbuf_flush_matched ch)"
proof (induction ch rule: superbuf_flush_matched.induct)
  case (1 ch)
  show ?case
  proof (cases "superbuf_dequeue_internal True (superbuf_queue ch)")
    case (Pair r q)
    show ?thesis
    proof (cases r)
      case None
      then show ?thesis using Pair not_dequeued [of True ch q] by (subst superbuf_flush_matched.simps) simp
    next
      case (Some n)
      have "superbuf_flush_matched ch = superbuf_flush_matched (qbufs (super_buf n) (ch\<lparr>superbuf_queue := q\<rparr>))"
        by (subst superbuf_flush_matched.simps) (simp add: Pair Some)
      then show ?thesis using 1 Pair Some dequeue_qbufs_moves moves_trans by metis
    qed
  qed
qed

lemma trim_loop_moves:
  assumes "trim_loop n ch = Some ch'"
  shows "moves ch ch'"
proof (rule trim_loop.raw_induct [where P = "\<lambda>n ch ch'. moves ch ch'", OF _ assms])
  fix f n ch ch'
  assume IH: "\<And>n ch ch'. f n ch = Some ch' \<Longrightarrow> moves ch ch'"
    and body: "(if n < match_cnt (superbuf_queue ch) then
      case superbuf_dequeue_internal True (superbuf_queue ch) of
        (None, q) \<Rightarrow> f n (ch\<lparr>superbuf_queue := q\<rparr>)
      | (Some sb, q) \<Rightarrow> f n (qbufs (super_buf sb) (ch\<lparr>superbuf_queue := q\<rparr>))
      else Some ch) = Some ch'"
  show "moves ch ch'"
  proof (cases "superbuf_dequeue_internal True (superbuf_queue ch)")
    case (Pair r q)
    show ?thesis
    proof (cases r)
      case None
      then show ?thesis using body IH [of n ch ch'] Pair not_dequeued [of True ch q]
        by (auto split: if_splits)
    next
      case (Some sb)
      show ?thesis
      proof (cases "n < match_cnt (superbuf_queue ch)")
        case True
        then show ?thesis
          using body IH Pair Some dequeue_qbufs_moves [of True ch sb q] moves_trans by simp
      next
        case False
        then show ?thesis using body by simp
      qed
    qed
  qed
qed


section \<open>Frames\<close>

lemma meta_steps_move:
  "moves ch (meta_divert m b ch)" "moves ch (meta_prep m ch)" "moves ch (meta_good_range m ch)"
  "moves ch (meta_bracketing m ch)" "moves ch (meta_config E m ch)" "moves ch (meta_led_off b ch)"
proof -
  show "moves ch (meta_divert m b ch)" "moves ch (meta_led_off b ch)" "moves ch (meta_config E m ch)"
    "moves ch (meta_bracketing m ch)"
    by (auto simp: meta_divert_def meta_led_off_def meta_config_def meta_bracketing_def set_expected_def
        upd_queue_def Let_def intro!: moves_same split: option.splits)
  let ?ch = "add_expected (ch\<lparr>bWaitForPrepSnapshotDone := False\<rparr>)"
  have 1: "moves ch ?ch" by (rule moves_same) (simp_all add: add_expected_def set_expected_def upd_queue_def)
  have 2: "moves ?ch (superbuf_flush CAM_STREAM_TYPE_DEFAULT ?ch)" by (rule flush_all_moves)
  have "moves (superbuf_flush CAM_STREAM_TYPE_DEFAULT ?ch)
      ((superbuf_flush CAM_STREAM_TYPE_DEFAULT ?ch)\<lparr>needLEDFlash := True\<rparr>)"
    by (rule moves_same) simp_all
  with 1 2 have "moves ch ((superbuf_flush CAM_STREAM_TYPE_DEFAULT ?ch)\<lparr>needLEDFlash := True\<rparr>)"
    using moves_trans by blast
  moreover have "moves ch (ch\<lparr>bWaitForPrepSnapshotDone := False, needLEDFlash := False\<rparr>)"
    by (rule moves_same) simp_all
  ultimately show "moves ch (meta_prep m ch)"
    by (auto simp: meta_prep_def Let_def split: option.splits)
  have "moves ch (add_expected (superbuf_flush_matched ch))"
    using flush_matched_moves add_expected_moves moves_trans by blast
  moreover have "moves ch (upd_queue f (set_expected x ch))"
    if "\<And>q. que (f q) = que q" "\<And>q. bundled_streams (f q) = bundled_streams q" for f x
    using that by (auto simp: upd_queue_def set_expected_def intro: moves_same)
  ultimately show "moves ch (meta_good_range m ch)"
    by (simp add: meta_good_range_def Let_def split: option.splits)
qed

lemma handle_metadata_moves:
  assumes "handle_metadata E b ch = Some (rc, ch')"
  shows "moves ch ch'"
proof -
  have zoom: "moves ch (set_expected x (ch\<lparr>isZoom1xFrameRequested := False\<rparr>))" for ch x
    by (rule moves_same) (simp_all add: set_expected_def upd_queue_def)
  have flush: "moves ch (superbuf_flush_matched (add_expected ch))" for ch
    using flush_matched_moves add_expected_moves moves_trans by blast
  have steps: "moves ch (meta_led_off b (meta_config E m (meta_bracketing m (meta_good_range m (meta_prep m ch)))))"
    for ch m
    by (intro moves_trans [OF _ meta_steps_move(6)] moves_trans [OF _ meta_steps_move(5)]
        moves_trans [OF _ meta_steps_move(4)] moves_trans [OF _ meta_steps_move(3)] meta_steps_move(2))
  let ?d = "\<lambda>m. meta_divert m b ch"
  consider "ch' = ch" | m x where "ch' = set_expected x ((?d m)\<lparr>isZoom1xFrameRequested := False\<rparr>)"
    | m where "ch' = superbuf_flush_matched (add_expected (?d m))"
    | m where "ch' = meta_led_off b (meta_config E m (meta_bracketing m (meta_good_range m (meta_prep m (?d m)))))"
    using assms unfolding handle_metadata_def
    by (auto simp: Let_def split: option.splits if_splits)
  then show ?thesis
  proof cases
    case (2 m x) show ?thesis unfolding 2 by (rule moves_trans [OF meta_steps_move(1) zoom])
  next
    case (3 m) show ?thesis unfolding 3 by (rule moves_trans [OF meta_steps_move(1) flush])
  next
    case (4 m) show ?thesis unfolding 4 by (rule moves_trans [OF meta_steps_move(1) steps])
  qed simp
qed

text \<open>The frame itself comes in.\<close>

definition takes_in :: "mm_camera_buf_def multiset \<Rightarrow> mm_channel \<Rightarrow> mm_channel \<Rightarrow> bool" where
  "takes_in B ch ch' \<longleftrightarrow> all_bufs ch' = all_bufs ch + B \<and> (lost_ok (ch_calls ch) \<longrightarrow> lost_ok (ch_calls ch')) \<and>
    bundled_streams (superbuf_queue ch') = bundled_streams (superbuf_queue ch) \<and>
    ch_streams ch' = ch_streams ch \<and> super_buf_notify_cb ch' = super_buf_notify_cb ch \<and>
    (queue_ok (superbuf_queue ch) \<longrightarrow> queue_ok (superbuf_queue ch'))"

lemma takes_in_empty: "takes_in {#} = moves"
  by (intro ext) (simp add: takes_in_def moves_def)

lemma takes_in_after: "moves a b \<Longrightarrow> takes_in B b c \<Longrightarrow> takes_in B a c"
  by (auto simp: moves_def takes_in_def)

lemma takes_in_before: "takes_in B a b \<Longrightarrow> moves b c \<Longrightarrow> takes_in B a c"
  by (auto simp: moves_def takes_in_def)

lemma qbuf_takes_in: "takes_in {#info_buf b#} ch (qbuf b ch)"
  by (simp add: takes_in_def qbuf_def ch_emit_def all_bufs_def)

lemma split_at:
  assumes "j \<le> i" "i < length ns"
  shows "ns = take j ns @ drop j (take i ns) @ ns ! i # drop (Suc i) ns"
proof -
  have "ns = take i ns @ ns ! i # drop (Suc i) ns" using assms(2) by (rule id_take_nth_drop)
  moreover have "take i ns = take j ns @ drop j (take i ns)" using assms(1)
    by (metis append_take_drop_id min.absorb1 take_take)
  ultimately show ?thesis by (metis append.assoc)
qed

lemma entry_frame_zero:
  "node_ok k n \<Longrightarrow> e \<in> set (super_buf n) \<Longrightarrow> entry_frame e = 0 \<longleftrightarrow> e = None"
  by (cases e) (auto simp: node_ok_def entry_frame_def)

lemma fill_node_ok:
  assumes "node_ok k n" "j < k" "frame_idx b \<noteq> 0"
  shows "node_ok k (fill_node j b n)"
proof -
  have len: "length (super_buf n) = k" using assms(1) by (simp add: node_ok_def)
  have sub: "set ((super_buf n)[j := Some b]) \<subseteq> insert (Some b) (set (super_buf n))"
    by (rule set_update_subset_insert)
  have fr: "entry_frame e \<noteq> 0 \<longleftrightarrow> e \<noteq> None" if "e \<in> set ((super_buf n)[j := Some b])" for e
    using sub that assms(3) entry_frame_zero [OF assms(1), of e] by (auto simp: entry_frame_def)
  have "Some b \<in> set ((super_buf n)[j := Some b])" using assms(2) len by (simp add: set_update_memI)
  moreover have "frame_idx c \<noteq> 0" if "Some c \<in> set ((super_buf n)[j := Some b])" for c
    using fr [OF that] by (simp add: entry_frame_def)
  moreover have "(\<forall>e \<in> set ((super_buf n)[j := Some b]). entry_frame e \<noteq> 0) \<longleftrightarrow>
      None \<notin> set ((super_buf n)[j := Some b])" using fr by metis
  ultimately show ?thesis using len by (auto simp: fill_node_def node_ok_def Let_def)
qed

lemma match_frame_takes_in:
  assumes ok: "queue_ok (superbuf_queue ch)" and i: "i < length (que (superbuf_queue ch))"
    and lst: "\<And>j. lst = Some j \<Longrightarrow> j < i" and k: "k < length (bundled_streams (superbuf_queue ch))"
    and b: "frame_idx b \<noteq> 0"
  shows "takes_in {#info_buf b#} ch (match_frame k b i lst ch)"
proof -
  let ?q = "superbuf_queue ch" and ?n = "que (superbuf_queue ch) ! i"
  define j where "j = (case lst of None \<Rightarrow> i | Some j \<Rightarrow> j)"
  have j: "j \<le> i" using lst by (auto simp: j_def split: option.splits intro: less_imp_le)
  have n: "node_ok (length (bundled_streams ?q)) ?n" using ok i by (simp add: queue_ok_def)
  have sp: "que ?q = take j (que ?q) @ drop j (take i (que ?q)) @ ?n # drop (Suc i) (que ?q)"
    using split_at [OF j i] .
  have set: "set (que ?q) = set (take j (que ?q)) \<union> set (drop j (take i (que ?q))) \<union> {?n} \<union> set (drop (Suc i) (que ?q))"
    using arg_cong [OF sp, of set] by auto
  have nb: "node_bufs (que ?q) = node_bufs (take j (que ?q)) + node_bufs (drop j (take i (que ?q))) +
      mset (entry_bufs (super_buf ?n)) + node_bufs (drop (Suc i) (que ?q))"
    using arg_cong [OF sp, of node_bufs] by simp
  have up: "(que ?q)[i := m] = take j (que ?q) @ drop j (take i (que ?q)) @ m # drop (Suc i) (que ?q)" for m
  proof -
    have "(que ?q)[i := m] = take i (que ?q) @ m # drop (Suc i) (que ?q)" using i by (rule upd_conv_take_nth_drop)
    moreover have "take i (que ?q) = take j (que ?q) @ drop j (take i (que ?q))" using j
      by (metis append_take_drop_id min.absorb1 take_take)
    ultimately show ?thesis by (metis append.assoc)
  qed
  show ?thesis
  proof (cases "entry_frame (super_buf ?n ! k) = 0")
    case False
    then show ?thesis using qbuf_takes_in [of b ch] by (simp add: match_frame_def Let_def)
  next
    case True
    have "length (super_buf ?n) = length (bundled_streams ?q)" using n by (simp add: node_ok_def)
    with k True have none: "super_buf ?n ! k = None" "k < length (super_buf ?n)"
      using entry_frame_zero [OF n, of "super_buf ?n ! k"] by auto
    have fb: "mset (entry_bufs (super_buf (fill_node k b ?n))) = add_mset (info_buf b) (mset (entry_bufs (super_buf ?n)))"
      using entry_bufs_set [OF none(2,1), of b] by (simp add: fill_node_def Let_def)
    have fok: "node_ok (length (bundled_streams ?q)) (fill_node k b ?n)" by (rule fill_node_ok [OF n k b])
    have eok: "node_ok l (m\<lparr>expected := x\<rparr>) = node_ok l m" for l m x by (simp add: node_ok_def)
    show ?thesis
    proof (cases "matched (fill_node k b ?n)")
      case True
      have "all_bufs (match_frame k b i lst ch) = all_bufs ch + {#info_buf b#}"
        using True \<open>entry_frame _ = 0\<close> fb nb
        by (simp add: match_frame_def Let_def qbufs_nodes_eq all_bufs_def j_def [symmetric] node_bufs_def [symmetric]
            split: prod.splits)
      moreover have "queue_ok (superbuf_queue (match_frame k b i lst ch))"
        using True \<open>entry_frame _ = 0\<close> fok ok set
        by (auto simp: match_frame_def Let_def qbufs_nodes_eq queue_ok_def eok j_def [symmetric] split: prod.splits)
      ultimately show ?thesis using True \<open>entry_frame _ = 0\<close>
        by (simp add: takes_in_def match_frame_def Let_def qbufs_nodes_eq split: prod.splits)
    next
      case False
      have "all_bufs (match_frame k b i lst ch) = all_bufs ch + {#info_buf b#}"
        using False \<open>entry_frame _ = 0\<close> fb nb up
        by (simp add: match_frame_def Let_def all_bufs_def)
      moreover have "queue_ok (superbuf_queue (match_frame k b i lst ch))"
        using False \<open>entry_frame _ = 0\<close> fok ok set up
        by (auto simp: match_frame_def Let_def queue_ok_def eok)
      ultimately show ?thesis using False \<open>entry_frame _ = 0\<close>
        by (simp add: takes_in_def match_frame_def Let_def)
    qed
  qed
qed


lemma remove_node_moves:
  assumes "j < length (que (superbuf_queue ch))"
  shows "moves ch (remove_node j ch)"
proof -
  let ?q = "superbuf_queue ch"
  have sp: "que ?q = take j (que ?q) @ que ?q ! j # drop (Suc j) (que ?q)"
    using assms by (rule id_take_nth_drop)
  have "node_bufs (que ?q) = node_bufs (take j (que ?q)) + mset (entry_bufs (super_buf (que ?q ! j))) +
      node_bufs (drop (Suc j) (que ?q))"
    using arg_cong [OF sp, of node_bufs] by simp
  then show ?thesis
    by (auto simp: moves_def remove_node_def Let_def qbufs_eq all_bufs_def queue_ok_def
        dest: in_set_takeD in_set_dropD)
qed

lemma drop_node_moves: "j < length (que (superbuf_queue ch)) \<Longrightarrow> moves ch (drop_node freed j ch)"
  unfolding drop_node_def Let_def
  by (rule moves_trans [OF remove_node_moves]) (auto simp: ch_emit_def intro: moves_same)

lemma new_sb_node_entries:
  assumes "k < l"
  shows "e \<in> set ((replicate l None)[k := Some b]) \<longleftrightarrow> e = Some b \<or> e = None \<and> l \<noteq> 1"
proof (cases "l = 1")
  case True
  then show ?thesis using assms by (cases l) auto
next
  case False
  define i where "i = (if k = 0 then 1 else 0 :: nat)"
  have "i < l" "i \<noteq> k" using assms False by (auto simp: i_def)
  then have "None \<in> set ((replicate l None)[k := Some b])"
    by (metis length_list_update length_replicate nth_list_update_neq nth_mem nth_replicate)
  moreover have "Some b \<in> set ((replicate l None)[k := Some b])" using assms by (simp add: set_update_memI)
  moreover have "set ((replicate l None)[k := Some b]) \<subseteq> {None, Some b}"
    using set_update_subset_insert [of "replicate l None" k "Some b"] by (auto simp: set_replicate_conv_if split: if_splits)
  ultimately show ?thesis using False by auto
qed

lemma new_sb_node_ok: "k < l \<Longrightarrow> frame_idx b \<noteq> 0 \<Longrightarrow> node_ok l (new_sb_node l k b x)"
  by (auto simp: node_ok_def new_sb_node_def new_sb_node_entries)

lemma new_sb_node_bufs: "k < l \<Longrightarrow> mset (entry_bufs (super_buf (new_sb_node l k b x))) = {#info_buf b#}"
  using entry_bufs_set [of k "replicate l None" b] by (simp add: new_sb_node_def)

lemma place_node_takes_in:
  assumes "k < length (bundled_streams (superbuf_queue ch))" "frame_idx b \<noteq> 0"
  shows "takes_in {#info_buf b#} ch (place_node k b pos ch)"
proof -
  let ?q = "superbuf_queue ch"
  define p where "p = (case pos of None \<Rightarrow> length (que ?q) | Some p \<Rightarrow> p)"
  have sp: "node_bufs (que ?q) = node_bufs (take p (que ?q)) + node_bufs (drop p (que ?q))"
    by (metis append_take_drop_id node_bufs_simps(3))
  show ?thesis
    using sp new_sb_node_bufs [OF assms(1), of b] new_sb_node_ok [OF assms]
    by (auto simp: takes_in_def place_node_def Let_def p_def [symmetric] all_bufs_def queue_ok_def
        dest: in_set_takeD in_set_dropD)
qed

lemma insert_node_takes_in:
  assumes "k < length (bundled_streams (superbuf_queue ch))" "frame_idx b \<noteq> 0"
  shows "takes_in {#info_buf b#} ch (insert_node E k b pos ch)"
proof -
  have em: "moves ch (ch_emit (Ch_Malloc x) (ch_emit (Ch_Malloc y) ch))" for x y
    by (rule moves_same) (simp_all add: ch_emit_def)
  have "takes_in {#info_buf b#} ch (place_node k b pos (ch_emit (Ch_Malloc x) (ch_emit (Ch_Malloc y) ch)))" for x y
    by (rule takes_in_after [OF em [of x y]], rule place_node_takes_in) (simp_all add: assms ch_emit_def)
  then show ?thesis using takes_in_after [OF em qbuf_takes_in] by (simp add: insert_node_def Let_def)
qed

lemma drop_loop_bounds:
  "drop_loop mx ins ns j u = Some (Some r, u') \<Longrightarrow> r < j + length ns"
  by (induction ns arbitrary: j) (fastforce split: if_splits)+

lemma new_frame_takes_in:
  assumes "new_frame E k b u lst ins ch = Some ch'"
    and k: "k < length (bundled_streams (superbuf_queue ch))" and b: "frame_idx b \<noteq> 0"
    and lst: "\<And>j. lst = Some j \<Longrightarrow> j < length (que (superbuf_queue ch))"
  shows "takes_in {#info_buf b#} ch ch'"
proof -
  have rem: "takes_in {#info_buf b#} ch (insert_node E k b pos (drop_node freed j ch))"
    if "j < length (que (superbuf_queue ch))" for freed j pos
  proof (rule takes_in_after)
    show mv: "moves ch (drop_node freed j ch)" by (rule drop_node_moves [OF that])
    show "takes_in {#info_buf b#} (drop_node freed j ch) (insert_node E k b pos (drop_node freed j ch))"
      using mv k b by (intro insert_node_takes_in) (simp_all add: moves_def)
  qed
  have bound: "r < length (que (superbuf_queue ch))"
    if "drop_loop mx ins (case lst of None \<Rightarrow> [] | Some j \<Rightarrow> drop j (que (superbuf_queue ch)))
        (case lst of None \<Rightarrow> 0 | Some j \<Rightarrow> j) u = Some (Some r, u')" for mx r u'
    using drop_loop_bounds [OF that] lst by (cases lst) (auto simp: less_imp_le)
  show ?thesis using assms(1) qbuf_takes_in rem bound lst insert_node_takes_in [OF k b]
    unfolding new_frame_def by (auto simp: Let_def split: if_splits option.splits)
qed

lemma index_of_bound: "index_of x xs \<noteq> length xs \<Longrightarrow> index_of x xs < length xs"
  by (induction xs) auto

lemma index_of_found: "index_of x xs = length xs \<longleftrightarrow> x \<notin> set xs"
  by (induction xs) auto

definition brought :: "u32 list \<Rightarrow> mm_camera_buf_info \<Rightarrow> mm_camera_buf_def multiset" where
  "brought hdls b = (if stream_id b \<in> set hdls then {#info_buf b#} else {#})"

lemma comp_and_enqueue_takes_in:
  assumes "superbuf_comp_and_enqueue E b ch = Some ch'" "queue_ok (superbuf_queue ch)"
  shows "takes_in (brought (bundled_streams (superbuf_queue ch)) b) ch ch'"
proof (cases "stream_id b \<in> set (bundled_streams (superbuf_queue ch))")
  case False
  then show ?thesis using assms index_of_found [of "stream_id b"]
    by (simp add: superbuf_comp_and_enqueue_def brought_def takes_in_def)
next
  case True
  let ?k = "index_of (stream_id b) (bundled_streams (superbuf_queue ch))"
  have k: "?k < length (bundled_streams (superbuf_queue ch))"
    using True index_of_found index_of_bound by metis
  show ?thesis
  proof (cases "frame_idx b = 0")
    case z: True
    then show ?thesis using assms k True qbuf_takes_in [of b ch]
      by (simp add: superbuf_comp_and_enqueue_def brought_def)
  next
    case z: False
    obtain rc c where m: "handle_metadata E b ch = Some (rc, c)"
      using assms(1) k z by (auto simp: superbuf_comp_and_enqueue_def Let_def split: option.splits)
    have mv: "moves ch c" by (rule handle_metadata_moves [OF m])
    let ?c = "upd_queue (\<lambda>q. q\<lparr>nomatch_frame_id := 0\<rparr>) c"
    have mv': "moves ch ?c"
      by (rule moves_trans [OF mv]) (rule moves_same; simp add: upd_queue_def)
    have ok: "queue_ok (superbuf_queue ?c)" "?k < length (bundled_streams (superbuf_queue ?c))"
      "?k < length (bundled_streams (superbuf_queue c))"
      using mv mv' assms(2) k by (simp_all add: moves_def)
    obtain fd u lst ins where sc: "scan (superbuf_queue c) ?k b (que (superbuf_queue c)) 0 0 None None = (fd, u, lst, ins)"
      by (metis prod_cases4)
    note bd = scan_bounds [OF sc]
    have "takes_in {#info_buf b#} ?c (match_frame ?k b i lst ?c)" if "fd = Some i" for i
      using that bd(1) bd(2) ok z by (intro match_frame_takes_in) (auto simp: upd_queue_def)
    then have 1: "takes_in {#info_buf b#} ch (match_frame ?k b i lst ?c)" if "fd = Some i" for i
      using that takes_in_after [OF mv'] by blast
    have "takes_in {#info_buf b#} c ch'" if "new_frame E ?k b u lst ins c = Some ch'"
      using bd(3) ok z by (intro new_frame_takes_in [OF that]) auto
    then have 2: "takes_in {#info_buf b#} ch ch'" if "new_frame E ?k b u lst ins c = Some ch'"
      using that takes_in_after [OF mv] by blast
    show ?thesis
      using assms(1) k z True m sc 1 2 takes_in_after [OF mv qbuf_takes_in]
      by (auto simp: superbuf_comp_and_enqueue_def brought_def Let_def split: option.splits if_splits)
  qed
qed

section \<open>The thread\<close>

lemma zsl_control_moves: "moves ch (zsl_control ch)"
  by (auto simp: zsl_control_def ch_emit_def intro: moves_same)

lemma overflow_moves: "superbuf_bufdone_overflow ch = Some ch' \<Longrightarrow> moves ch ch'"
  by (auto simp: superbuf_bufdone_overflow_def Let_def dest: trim_loop_moves split: if_splits)

lemma dispatch_one_moves:
  assumes "superbuf_dequeue_internal True (superbuf_queue ch) = (Some n, q)"
  shows "moves ch (dispatch_one E mode n (ch\<lparr>superbuf_queue := q\<rparr>))"
proof -
  have sent: "all_bufs (send_superbuf E r n ch) = all_bufs ch + mset (entry_bufs (super_buf n))"
    "superbuf_queue (send_superbuf E r n ch) = superbuf_queue ch" "ch_streams (send_superbuf E r n ch) = ch_streams ch"
    "super_buf_notify_cb (send_superbuf E r n ch) = super_buf_notify_cb ch" for r ch
    by (simp_all add: send_superbuf_def Let_def ch_emit_def qbufs_eq all_bufs_def entry_bufs_sent [simplified])
  have lost: "lost_ok (ch_calls (send_superbuf E r n ch))" if "lost_ok (ch_calls ch)" for r ch
    using that by (simp add: send_superbuf_def Let_def ch_emit_def qbufs_eq) (auto simp: lost_ok_def)
  have "moves ch (snd (count_down ch))" for ch
    by (auto simp: count_down_def ch_emit_def Let_def intro: moves_same)
  then have cd: "moves ch c" if "count_down ch = (r, c)" for ch r c using that by (metis snd_conv)
  have q: "all_bufs (ch\<lparr>superbuf_queue := q\<rparr>) + mset (entry_bufs (super_buf n)) = all_bufs ch"
    using dequeued [OF assms] by (simp add: all_bufs_def)
  have ok: "queue_ok q" if "queue_ok (superbuf_queue ch)" using dequeued [OF assms] that by (simp add: queue_ok_def)
  show ?thesis
    using cd [of "ch\<lparr>superbuf_queue := q\<rparr>"] q ok dequeued(2) [OF assms]
    by (auto simp: dispatch_one_def moves_def sent lost split: prod.splits)
qed

lemma dispatch_loop_moves: "moves ch (dispatch_loop E mode ch)"
proof (induction E mode ch rule: dispatch_loop.induct)
  case (1 E mode ch)
  show ?case
  proof (cases "superbuf_dequeue_internal True (superbuf_queue ch)")
    case (Pair r q)
    then show ?thesis
      using 1 not_dequeued [of True ch q] dispatch_one_moves [of ch _ q E mode] moves_trans
      by (subst dispatch_loop.simps) (auto split: option.splits)
  qed
qed

fun cmd_brings :: "u32 list \<Rightarrow> ch_cmd \<Rightarrow> mm_camera_buf_def multiset" where
  "cmd_brings hdls (Cmd_Data_Cb b) = brought hdls b"
| "cmd_brings hdls _ = {#}"

lemma exec_cmd_takes_in:
  assumes "exec_cmd E cmd ch = Some ch'" "queue_ok (superbuf_queue ch)"
  shows "takes_in (cmd_brings (bundled_streams (superbuf_queue ch)) cmd) ch ch'"
proof -
  have fl: "moves ch ((flush_all ch)\<lparr>bracketingState := x\<rparr>)" "moves ch ((flush_all ch)\<lparr>isFlashBracketingEnabled := y\<rparr>)"
    "moves ch ((flush_all ch)\<lparr>isZoom1xFrameRequested := y\<rparr>)" "moves ch ((flush_all ch)\<lparr>frame_config := y, cur_capture_idx := z\<rparr>)"
    for x y z
    unfolding flush_all_def by (rule moves_trans [OF flush_all_moves], rule moves_same, simp_all)+
  have "moves ch (flush_all (set_expected f ch))" for f
    unfolding flush_all_def by (rule moves_trans [OF set_expected_moves flush_all_moves])
  moreover have "moves ch ch'" if "req_data a c ch = Some ch'" for a c
    using that unfolding req_data_def Let_def superbuf_skip_def
    by (auto split: if_splits dest!: trim_loop_moves intro: moves_same elim!: moves_trans [rotated])
  ultimately show ?thesis
    using assms comp_and_enqueue_takes_in [OF _ assms(2)] fl
    by (cases cmd) (auto simp: takes_in_empty ch_emit_def upd_queue_def intro: moves_same)
qed

lemma process_takes_in:
  assumes "process_stream_buf E cmd ch = Some ch'" "queue_ok (superbuf_queue ch)"
  shows "takes_in (cmd_brings (bundled_streams (superbuf_queue ch)) cmd) ch ch'"
proof -
  obtain c where c: "exec_cmd E cmd ch = Some c" using assms(1)
    by (auto simp: process_stream_buf_def split: option.splits)
  note t = exec_cmd_takes_in [OF c assms(2)]
  have "moves c (dispatch_loop E m d)" if "superbuf_bufdone_overflow (zsl_control c) = Some d" for m d
    using zsl_control_moves overflow_moves [OF that] dispatch_loop_moves moves_trans by blast
  then have "moves c ch'"
    using assms(1) c by (auto simp: process_stream_buf_def split: option.splits ch_cmd.splits)
  then show ?thesis using t takes_in_before by blast
qed

end
