(* ===== verification/SuperBufInv.thy ===== *)
theory SuperBufInv
  imports SuperBufKeep
begin

text \<open>
  The queue of a channel that matches by frame number (any priority but LOW): the complete super
  buffers come first, the incomplete ones follow in ascending order, there are at most
  \<open>max_unmatched_frames + 1\<close> of them, and the counters are right. So no loop of the queue runs for
  ever, and none follows a node that it has freed.
\<close>

section \<open>The invariant\<close>

abbreviation ascending :: "queue_node list \<Rightarrow> bool" where
  "ascending \<equiv> sorted_wrt (\<lambda>m n. node_frame_idx m < node_frame_idx n)"

definition parts :: "mm_channel_queue \<Rightarrow> queue_node list \<Rightarrow> queue_node list \<Rightarrow> bool" where
  "parts q ms us \<longleftrightarrow> que q = ms @ us \<and> (\<forall>n \<in> set ms. matched n) \<and> (\<forall>n \<in> set us. \<not> matched n) \<and>
    ascending us \<and> length us \<le> Suc (unat (max_unmatched_frames (attr q))) \<and>
    match_cnt q = of_nat (length ms)"

text \<open>All buffers of a super buffer have its number, and each is of the stream of its place.\<close>

definition same_frame :: "u32 list \<Rightarrow> queue_node \<Rightarrow> bool" where
  "same_frame hdls n \<longleftrightarrow> (\<forall>i < length (super_buf n). \<forall>b. super_buf n ! i = Some b \<longrightarrow>
    def_frame_idx (info_buf b) = node_frame_idx n \<and> def_stream_id (info_buf b) = hdls ! i)"

definition queue_inv :: "mm_channel_queue \<Rightarrow> bool" where
  "queue_inv q \<longleftrightarrow> queue_ok q \<and> by_number q \<and> max_unmatched_frames (attr q) < 255 \<and> bundled_streams q \<noteq> [] \<and>
    (\<forall>n \<in> set (que q). same_frame (bundled_streams q) n) \<and> que_size q = of_nat (length (que q)) \<and>
    (\<exists>ms us. parts q ms us)"

definition sent_ok :: "u32 list \<Rightarrow> ch_call \<Rightarrow> bool" where
  "sent_ok hdls c \<longleftrightarrow> (\<forall>bs r l. c = Ch_Superbuf bs r l \<longrightarrow> length bs = length hdls \<and>
    (\<exists>f. \<forall>i < length hdls. \<exists>d. bs ! i = Some d \<and> def_frame_idx d = f \<and> def_stream_id d = hdls ! i))"

definition chan_inv :: "mm_channel \<Rightarrow> bool" where
  "chan_inv ch \<longleftrightarrow> queue_inv (superbuf_queue ch) \<and>
    (\<forall>c \<in> set (ch_calls ch). sent_ok (bundled_streams (superbuf_queue ch)) c) \<and>
    (\<forall>s \<in> set (ch_streams ch). str_used s \<longrightarrow> str_type s \<noteq> None)"

lemma queue_inv_cong:
  assumes "queue_inv q" "que q' = que q" "que_size q' = que_size q" "bundled_streams q' = bundled_streams q"
    "match_cnt q' = match_cnt q" "nomatch_frame_id q' = nomatch_frame_id q"
    "max_unmatched_frames (attr q') = max_unmatched_frames (attr q)" "priority (attr q') = priority (attr q)"
  shows "queue_inv q'"
  using assms by (simp add: queue_inv_def queue_ok_def by_number_def parts_def)

text \<open>Steps that leave queue, calls and streams alone.\<close>

lemma chan_inv_same:
  assumes "chan_inv ch" "queue_inv (superbuf_queue ch) \<Longrightarrow> queue_inv (superbuf_queue ch')"
    "bundled_streams (superbuf_queue ch') = bundled_streams (superbuf_queue ch)"
    "ch_streams ch' = ch_streams ch"
    "\<And>c. c \<in> set (ch_calls ch') \<Longrightarrow> c \<in> set (ch_calls ch) \<or> (\<forall>bs r l. c \<noteq> Ch_Superbuf bs r l)"
  shows "chan_inv ch'"
proof -
  have "sent_ok hdls c" if "\<forall>bs r l. c \<noteq> Ch_Superbuf bs r l" for hdls c using that by (simp add: sent_ok_def)
  then show ?thesis using assms unfolding chan_inv_def by metis
qed

lemma set_expected_inv [simp]: "chan_inv ch \<Longrightarrow> chan_inv (set_expected f ch)"
  by (erule chan_inv_same) (auto simp: set_expected_def upd_queue_def elim: queue_inv_cong)

lemma add_expected_inv [simp]: "chan_inv ch \<Longrightarrow> chan_inv (add_expected ch)"
  by (simp add: add_expected_def)

lemma qbufs_inv [simp]: "chan_inv ch \<Longrightarrow> chan_inv (qbufs es ch)"
  by (erule chan_inv_same) (auto simp: qbufs_eq)

lemma qbuf_inv [simp]: "chan_inv ch \<Longrightarrow> chan_inv (qbuf b ch)"
  by (erule chan_inv_same) (auto simp: qbuf_def ch_emit_def)

lemma ch_emit_inv: "chan_inv ch \<Longrightarrow> sent_ok (bundled_streams (superbuf_queue ch)) c \<Longrightarrow> chan_inv (ch_emit c ch)"
  by (auto simp: chan_inv_def ch_emit_def)

lemma chan_inv_updates [simp]:
  "chan_inv (ch\<lparr>unLockAEC := x\<rparr>) = chan_inv ch" "chan_inv (ch\<lparr>bracketingState := y\<rparr>) = chan_inv ch"
  "chan_inv (ch\<lparr>isFlashBracketingEnabled := x\<rparr>) = chan_inv ch"
  "chan_inv (ch\<lparr>isZoom1xFrameRequested := x\<rparr>) = chan_inv ch" "chan_inv (ch\<lparr>cur_capture_idx := z\<rparr>) = chan_inv ch"
  "chan_inv (ch\<lparr>frame_config := x\<rparr>) = chan_inv ch" "chan_inv (ch\<lparr>manualZSLSnapshot := x\<rparr>) = chan_inv ch"
  by (simp_all add: chan_inv_def)

section \<open>Taking out\<close>

lemma dequeue_inv:
  assumes "superbuf_dequeue_internal m q = (Some n, q')" "queue_inv q"
  shows "queue_inv q'"
proof -
  obtain ns where ns: "que q = n # ns" "m \<longrightarrow> matched n" "q' = q\<lparr>que := ns, que_size := que_size q - 1,
      match_cnt := (if matched n then match_cnt q - 1 else match_cnt q)\<rparr>"
    using assms(1) by (auto simp: superbuf_dequeue_internal_def split: list.splits if_splits)
  obtain ms us where p: "parts q ms us" using assms(2) by (auto simp: queue_inv_def)
  have "\<exists>ms us. parts q' ms us"
  proof (cases ms)
    case Nil
    then have us: "us = n # ns" using p ns by (simp add: parts_def)
    then have "\<not> matched n" using p by (simp add: parts_def)
    then have "parts q' [] ns" using p ns Nil us by (simp add: parts_def)
    then show ?thesis by blast
  next
    case (Cons m ms')
    then have m: "m = n" "ns = ms' @ us" "matched n" using p ns by (auto simp: parts_def)
    then have "parts q' ms' us" using p ns Cons by (simp add: parts_def)
    then show ?thesis by blast
  qed
  moreover have "que_size q' = of_nat (length (que q'))" using assms(2) ns by (simp add: queue_inv_def)
  ultimately show ?thesis using assms(2) ns
    by (simp add: queue_inv_def queue_ok_def by_number_def)
qed

lemma dequeued_inv:
  assumes "superbuf_dequeue_internal m (superbuf_queue ch) = (Some n, q)" "chan_inv ch"
  shows "chan_inv (ch\<lparr>superbuf_queue := q\<rparr>)"
  using assms dequeue_inv [OF assms(1)] dequeued(2) [OF assms(1)] by (auto simp: chan_inv_def)

lemma flush_inv [simp]: "chan_inv ch \<Longrightarrow> chan_inv (superbuf_flush t ch)"
proof (induction t ch rule: superbuf_flush.induct)
  case (1 t ch)
  show ?case
  proof (cases "superbuf_dequeue_internal False (superbuf_queue ch)")
    case (Pair r q)
    then show ?thesis using 1 not_dequeued [of False ch q] dequeued_inv [of False ch _ q]
      by (subst superbuf_flush.simps) (auto split: option.splits)
  qed
qed

lemma flush_matched_inv [simp]: "chan_inv ch \<Longrightarrow> chan_inv (superbuf_flush_matched ch)"
proof (induction ch rule: superbuf_flush_matched.induct)
  case (1 ch)
  show ?case
  proof (cases "superbuf_dequeue_internal True (superbuf_queue ch)")
    case (Pair r q)
    then show ?thesis using 1 not_dequeued [of True ch q] dequeued_inv [of True ch _ q]
      by (subst superbuf_flush_matched.simps) (auto split: option.splits)
  qed
qed

text \<open>While the count is positive, the first super buffer is complete: the trimming loop ends.\<close>

lemma count_positive:
  assumes "queue_inv q" "match_cnt q > n"
  obtains m q' where "superbuf_dequeue_internal True q = (Some m, q')"
proof -
  obtain ms us where p: "parts q ms us" using assms(1) by (auto simp: queue_inv_def)
  have "match_cnt q \<noteq> 0" using assms(2) by (metis word_not_simps(1))
  then obtain m ms' where "ms = m # ms'" using p by (cases ms) (auto simp: parts_def)
  then show ?thesis using p that by (auto simp: parts_def superbuf_dequeue_internal_def)
qed

lemma trim_loop_inv:
  assumes "chan_inv ch"
  shows "\<exists>ch'. trim_loop n ch = Some ch' \<and> chan_inv ch'"
  using assms
proof (induction "length (que (superbuf_queue ch))" arbitrary: ch rule: less_induct)
  case less
  show ?case
  proof (cases "match_cnt (superbuf_queue ch) > n")
    case True
    have "queue_inv (superbuf_queue ch)" using less.prems by (simp add: chan_inv_def)
    then obtain m q where d: "superbuf_dequeue_internal True (superbuf_queue ch) = (Some m, q)"
      using count_positive True by blast
    have "trim_loop n ch = trim_loop n (qbufs (super_buf m) (ch\<lparr>superbuf_queue := q\<rparr>))"
      using True d by (subst trim_loop.simps) simp
    moreover have "chan_inv (qbufs (super_buf m) (ch\<lparr>superbuf_queue := q\<rparr>))"
      using dequeued_inv [OF d less.prems] by simp
    ultimately show ?thesis using less.hyps dequeue_shrinks [OF d] by simp
  next
    case False
    then show ?thesis using less.prems by (subst trim_loop.simps) simp
  qed
qed

lemma overflow_inv: "chan_inv ch \<Longrightarrow> \<exists>ch'. superbuf_bufdone_overflow ch = Some ch' \<and> chan_inv ch'"
  using trim_loop_inv by (auto simp: superbuf_bufdone_overflow_def Let_def)

lemma skip_inv: "chan_inv ch \<Longrightarrow> \<exists>ch'. superbuf_skip ch = Some ch' \<and> chan_inv ch'"
  using trim_loop_inv by (auto simp: superbuf_skip_def Let_def)

section \<open>Metadata\<close>

lemma meta_steps_inv:
  assumes "chan_inv ch"
  shows "chan_inv (meta_divert m b ch)" "chan_inv (meta_prep m ch)" "chan_inv (meta_good_range m ch)"
    "chan_inv (meta_bracketing m ch)" "chan_inv (meta_config E m ch)" "chan_inv (meta_led_off b ch)"
proof -
  have upd: "chan_inv c \<Longrightarrow> (\<And>q. queue_inv q \<Longrightarrow> queue_inv (f q)) \<Longrightarrow>
      (\<And>q. bundled_streams (f q) = bundled_streams q) \<Longrightarrow> chan_inv (upd_queue f c)" for c f
    by (auto simp: chan_inv_def upd_queue_def)
  have led: "queue_inv q \<Longrightarrow> queue_inv (q\<lparr>led_on_start_frame_id := a, led_off_start_frame_id := b,
      led_once := c, led_on_num_frames := d, led_frame_skip_count := e\<rparr>)"
    "queue_inv q \<Longrightarrow> queue_inv (q\<lparr>expected_frame_id_without_led := a\<rparr>)"
    "queue_inv q \<Longrightarrow> queue_inv (q\<lparr>expected_frame_id := a, led_once := c\<rparr>)" for q a b c d e
    by (erule queue_inv_cong; simp)+
  note same = chan_inv_same [OF assms]
  show "chan_inv (meta_divert m b ch)"
    using assms by (auto simp: meta_divert_def intro!: same split: option.splits)
  have w: "chan_inv (ch\<lparr>bWaitForPrepSnapshotDone := x\<rparr>)" for x by (rule same) auto
  have n: "chan_inv c \<Longrightarrow> chan_inv (c\<lparr>needLEDFlash := x\<rparr>)" for c x by (erule chan_inv_same) auto
  show "chan_inv (meta_prep m ch)"
    using assms w n by (auto simp: meta_prep_def Let_def split: option.splits)
  show "chan_inv (meta_good_range m ch)"
    using assms upd led by (auto simp: meta_good_range_def Let_def split: option.splits)
  have br: "chan_inv c \<Longrightarrow> chan_inv (c\<lparr>bracketingState := x\<rparr>)" for c x by (erule chan_inv_same) auto
  show "chan_inv (meta_bracketing m ch)"
    using assms upd led br by (auto simp: meta_bracketing_def Let_def split: option.splits)
  have cu: "chan_inv c \<Longrightarrow> chan_inv (c\<lparr>cur_capture_idx := x\<rparr>)" for c x by (erule chan_inv_same) auto
  show "chan_inv (meta_config E m ch)"
    using assms cu by (auto simp: meta_config_def split: option.splits)
  have st: "chan_inv c \<Longrightarrow> chan_inv (c\<lparr>stopZslSnapshot := x, needLEDFlash := y\<rparr>)" for c x y
    by (erule chan_inv_same) auto
  show "chan_inv (meta_led_off b ch)"
    using assms st upd led by (auto simp: meta_led_off_def Let_def)
qed

lemma snapshot_stream_total:
  "\<forall>s \<in> set ss. str_used s \<longrightarrow> str_type s \<noteq> None \<Longrightarrow> snapshot_stream_id ss \<noteq> None"
  by (induction ss) auto

lemma handle_metadata_inv:
  assumes "chan_inv ch"
  shows "\<exists>rc ch'. handle_metadata E b ch = Some (rc, ch') \<and> chan_inv ch'"
proof -
  have ss: "snapshot_stream_id (ch_streams ch) \<noteq> None"
    using assms by (intro snapshot_stream_total) (simp add: chan_inv_def)
  have zoom: "chan_inv c \<Longrightarrow> chan_inv (set_expected x (c\<lparr>isZoom1xFrameRequested := False\<rparr>))" for c x
    by (rule set_expected_inv) (erule chan_inv_same; simp)
  show ?thesis using assms ss zoom
    by (auto simp: handle_metadata_def crop_1x_found_def Let_def meta_steps_inv split: option.splits)
qed


section \<open>Frames\<close>

text \<open>A frame as the streams deliver it: the buffer has the number and the stream of the frame.\<close>

definition frame_ok :: "mm_camera_buf_info \<Rightarrow> bool" where
  "frame_ok b \<longleftrightarrow> def_frame_idx (info_buf b) = frame_idx b \<and> def_stream_id (info_buf b) = stream_id b"

lemma index_of_nth: "index_of x xs < length xs \<Longrightarrow> xs ! index_of x xs = x"
  by (induction xs) auto

lemma same_frame_fill:
  assumes "same_frame hdls n" "frame_ok b" "node_frame_idx n = frame_idx b" "hdls ! k = stream_id b"
  shows "same_frame hdls (fill_node k b n)"
proof -
  have "(super_buf n)[k := Some b] ! i = (if i = k then Some b else super_buf n ! i)" if "i < length (super_buf n)" for i
    using that by (auto simp: nth_list_update)
  then show ?thesis using assms by (auto simp: same_frame_def fill_node_def frame_ok_def Let_def split: if_splits)
qed

lemma same_frame_new:
  assumes "frame_ok b" "hdls ! k = stream_id b" "k < l"
  shows "same_frame hdls (new_sb_node l k b x)"
  using assms by (auto simp: same_frame_def new_sb_node_def frame_ok_def nth_list_update split: if_splits)

lemma same_frame_expected [simp]: "same_frame hdls (n\<lparr>expected := x\<rparr>) = same_frame hdls n"
  by (simp add: same_frame_def)

lemma fill_number [simp]: "node_frame_idx (fill_node k b n) = node_frame_idx n"
  by (simp add: fill_node_def Let_def)

lemma ascending_change:
  "ascending (as @ n # bs) \<Longrightarrow> node_frame_idx m = node_frame_idx n \<Longrightarrow> ascending (as @ m # bs)"
  by (simp add: sorted_wrt_append)

text \<open>A frame whose super buffer is at the end of \<open>as\<close>: the older ones go when it is complete.\<close>

lemma match_frame_parts:
  assumes p: "parts q ms (as @ n # bs)" and q: "q = superbuf_queue ch"
    and n: "node_frame_idx n = frame_idx b"
  shows "\<exists>ms' us'. parts (superbuf_queue (match_frame k b (length ms + length as)
      (if as = [] then None else Some (length ms)) ch)) ms' us'"
proof -
  let ?i = "length ms + length as" and ?lst = "if as = [] then None else Some (length ms)"
  have que: "que q = ms @ as @ n # bs" and le: "length (as @ n # bs) \<le> Suc (unat (max_unmatched_frames (attr q)))"
    and asc: "ascending (as @ n # bs)" using p by (simp_all add: parts_def)
  have nth: "que q ! ?i = n" unfolding que by (simp add: nth_append)
  have j: "(case ?lst of None \<Rightarrow> ?i | Some j \<Rightarrow> j) = length ms" by simp
  have drop: "drop (Suc ?i) (que q) = bs" "take (length ms) (que q) = ms"
    unfolding que by simp_all
  consider "entry_frame (super_buf n ! k) \<noteq> 0" | "entry_frame (super_buf n ! k) = 0" "matched (fill_node k b n)"
    | "entry_frame (super_buf n ! k) = 0" "\<not> matched (fill_node k b n)" by blast
  then show ?thesis
  proof cases
    case 1
    then have "superbuf_queue (match_frame k b ?i ?lst ch) = q"
      using nth q by (simp add: match_frame_def qbuf_def ch_emit_def Let_def)
    then show ?thesis using p by metis
  next
    case 2
    have bs: "ascending bs" "length bs \<le> Suc (unat (max_unmatched_frames (attr q)))"
      using asc le by (simp_all add: sorted_wrt_append)
    have "parts (superbuf_queue (match_frame k b ?i ?lst ch)) (ms @ [(fill_node k b n)\<lparr>expected := False\<rparr>]) bs"
      using 2 nth q p bs unfolding match_frame_def Let_def j q [symmetric]
      by (simp add: parts_def drop qbufs_nodes_eq split: prod.splits)
    then show ?thesis by blast
  next
    case 3
    define m where "m = (fill_node k b n)\<lparr>expected := ucast (diverted_frame_id ch) = frame_idx b \<or> expected (fill_node k b n)\<rparr>"
    have "ascending (as @ m # bs)" by (rule ascending_change [OF asc]) (simp add: m_def)
    then have "parts (superbuf_queue (match_frame k b ?i ?lst ch)) ms (as @ m # bs)"
      using 3 nth q p unfolding match_frame_def Let_def j q [symmetric]
      by (simp add: parts_def list_update_append m_def)
    then show ?thesis by blast
  qed
qed

lemma match_frame_fields:
  "bundled_streams (superbuf_queue (match_frame k b i lst ch)) = bundled_streams (superbuf_queue ch)"
  "attr (superbuf_queue (match_frame k b i lst ch)) = attr (superbuf_queue ch)"
  "nomatch_frame_id (superbuf_queue (match_frame k b i lst ch)) = nomatch_frame_id (superbuf_queue ch)"
  "ch_streams (match_frame k b i lst ch) = ch_streams ch"
  by (auto simp: match_frame_def qbuf_def ch_emit_def qbufs_nodes_eq Let_def split: prod.splits)

lemma match_frame_calls:
  "c \<in> set (ch_calls (match_frame k b i lst ch)) \<Longrightarrow>
    c \<in> set (ch_calls ch) \<or> (\<forall>bs r l. c \<noteq> Ch_Superbuf bs r l)"
  by (auto simp: match_frame_def qbuf_def ch_emit_def qbufs_nodes_eq Let_def split: prod.splits if_splits)

lemma match_frame_size:
  assumes "que_size q = of_nat (length (que q))" "q = superbuf_queue ch" "i < length (que q)"
    "\<And>j. lst = Some j \<Longrightarrow> j < i"
  shows "que_size (superbuf_queue (match_frame k b i lst ch)) =
    of_nat (length (que (superbuf_queue (match_frame k b i lst ch))))"
proof -
  define j where "j = (case lst of None \<Rightarrow> i | Some j \<Rightarrow> j)"
  have j: "j \<le> i" using assms(4) by (auto simp: j_def split: option.splits intro: less_imp_le)
  have "of_nat (length (que q)) - of_nat (i - j) = (of_nat (j + Suc (length (que q) - Suc i)) :: u32)"
  proof -
    have "length (que q) = (j + Suc (length (que q) - Suc i)) + (i - j)" using j assms(3) by simp
    then have "of_nat (length (que q)) = (of_nat (j + Suc (length (que q) - Suc i)) + of_nat (i - j) :: u32)"
      by (metis of_nat_add)
    then show ?thesis by simp
  qed
  then show ?thesis using assms(1,3) j
    unfolding match_frame_def Let_def assms(2) [symmetric] j_def [symmetric]
    by (auto simp: qbuf_def ch_emit_def assms(2) qbufs_nodes_eq split: prod.splits)
qed

lemma match_frame_same:
  assumes "\<forall>n \<in> set (que q). same_frame hdls n" "q = superbuf_queue ch" "i < length (que q)"
    and "node_frame_idx (que q ! i) = frame_idx b" "frame_ok b" "hdls ! k = stream_id b"
  shows "\<forall>n \<in> set (que (superbuf_queue (match_frame k b i lst ch))). same_frame hdls n"
proof -
  have "same_frame hdls (fill_node k b (que q ! i))"
    using assms by (intro same_frame_fill) auto
  moreover have upd: "x = m \<or> x \<in> set (que (superbuf_queue ch))" if "x \<in> set ((que (superbuf_queue ch))[i := m])" for m x
    using set_update_subset_insert [of "que (superbuf_queue ch)" i m] that by blast
  ultimately show ?thesis using assms(1)
    unfolding match_frame_def Let_def assms(2) [symmetric]
    by (auto simp: qbuf_def ch_emit_def assms(2) qbufs_nodes_eq split: prod.splits
        dest: in_set_takeD in_set_dropD dest!: upd)
qed


text \<open>
  A frame that belongs nowhere, among \<open>as\<close> (older) and \<open>bs\<close> (newer): at most one super buffer is
  dropped, not the one before which the frame goes, and the frame goes between what is left of both.
\<close>

lemma drop_loop_finds:
  assumes "drop_loop mx ins ns j u = Some (Some r, u')"
  shows "j \<le> r \<and> r < j + length ns \<and> ins \<noteq> Some r \<and> u' = u - 1 \<and> \<not> mx < u'"
  using assms by (induction ns arbitrary: j) (fastforce split: if_splits)+

lemma drop_loop_keeps: "drop_loop mx ins ns j u = Some (None, u') \<Longrightarrow> u' = u"
  by (induction ns arbitrary: j) (auto split: if_splits)

lemma drop_loop_total: "(mx < u \<Longrightarrow> \<not> mx < u - 1) \<Longrightarrow> \<exists>r u'. drop_loop mx ins ns j u = Some (r, u')"
  by (induction ns arbitrary: j) auto

definition dropped :: "nat option \<Rightarrow> queue_node list \<Rightarrow> queue_node list" where
  "dropped r ns = (case r of None \<Rightarrow> ns | Some j \<Rightarrow> take j ns @ drop (Suc j) ns)"

definition drop_pos :: "nat option \<Rightarrow> nat option \<Rightarrow> nat option" where
  "drop_pos ins r = (case (ins, r) of (Some i, Some j) \<Rightarrow> Some (if j < i then i - 1 else i) | (p, _) \<Rightarrow> p)"

lemma ascending_drop: "ascending ns \<Longrightarrow> ascending (take i ns @ drop (Suc i) ns)"
proof (induction ns arbitrary: i)
  case (Cons n ns)
  then show ?case by (cases i) (auto dest: in_set_takeD in_set_dropD)
qed simp

text \<open>Where the new node goes after the drop.\<close>

lemma dropped_split:
  assumes "r = None \<or> (\<exists>j. r = Some j \<and> length ms \<le> j \<and> j < length (ms @ as @ bs) \<and>
      (bs \<noteq> [] \<longrightarrow> j \<noteq> length ms + length as))"
  shows "\<exists>as' bs'. dropped r (ms @ as @ bs) = ms @ as' @ bs' \<and>
    set as' \<subseteq> set as \<and> set bs' \<subseteq> set bs \<and> (ascending (as @ bs) \<longrightarrow> ascending (as' @ bs')) \<and>
    length as' + length bs' = length as + length bs - (if r = None then 0 else 1) \<and>
    (case drop_pos (if bs = [] then None else Some (length ms + length as)) r of
       None \<Rightarrow> length (dropped r (ms @ as @ bs)) | Some p \<Rightarrow> p) = length ms + length as'"
proof (cases r)
  case None
  then show ?thesis by (intro exI [of _ as] exI [of _ bs]) (simp add: dropped_def drop_pos_def)
next
  case (Some j)
  then have j: "length ms \<le> j" "j < length (ms @ as @ bs)" "bs \<noteq> [] \<longrightarrow> j \<noteq> length ms + length as"
    using assms by auto
  define i where "i = j - length ms"
  have i: "j = length ms + i" using j(1) by (simp add: i_def)
  show ?thesis
  proof (cases "i < length as")
    case True
    let ?as = "take i as @ drop (Suc i) as"
    have "dropped r (ms @ as @ bs) = ms @ ?as @ bs" using Some True by (simp add: dropped_def i)
    moreover have "ascending (as @ bs) \<longrightarrow> ascending (?as @ bs)"
      using ascending_drop [of "as @ bs" i] True by simp
    moreover have "set ?as \<subseteq> set as" by (auto dest: in_set_takeD in_set_dropD)
    ultimately show ?thesis using Some True
      by (intro exI [of _ ?as] exI [of _ bs]) (auto simp: drop_pos_def i)
  next
    case False
    then obtain i' where i': "i = length as + i'" by (metis le_add_diff_inverse not_less)
    have b: "i' < length bs" "i' \<noteq> 0" using j i i' by auto
    then obtain x bs1 where bs: "bs = x # bs1" by (cases bs) auto
    obtain i2 where i2: "i' = Suc i2" using b(2) by (cases i') auto
    let ?bs = "x # take i2 bs1 @ drop (Suc i2) bs1"
    have "dropped r (ms @ as @ bs) = ms @ as @ ?bs" using Some by (simp add: dropped_def i i' i2 bs)
    moreover have "ascending (as @ bs) \<longrightarrow> ascending (as @ ?bs)"
      using ascending_drop [of "as @ bs" i] by (simp add: i' i2 bs)
    moreover have "set ?bs \<subseteq> set bs" unfolding bs by (auto dest: in_set_takeD in_set_dropD)
    ultimately show ?thesis using Some b
      by (intro exI [of _ as] exI [of _ ?bs]) (auto simp: drop_pos_def i i' i2 bs)
  qed
qed


lemma single_matched:
  assumes "node_ok 1 n"
  shows "matched n"
proof -
  obtain e where "super_buf n = [e]" using assms by (auto simp: node_ok_def length_Suc_conv)
  then show ?thesis using assms by (auto simp: node_ok_def)
qed

lemma remove_node_queue:
  "superbuf_queue (remove_node j ch) = (superbuf_queue ch)\<lparr>que := dropped (Some j) (que (superbuf_queue ch)),
    que_size := que_size (superbuf_queue ch) - 1\<rparr>"
  "ch_streams (remove_node j ch) = ch_streams ch" "diverted_frame_id (remove_node j ch) = diverted_frame_id ch"
  by (simp_all add: remove_node_def dropped_def qbufs_eq Let_def)

lemma place_node_inv:
  assumes inv: "chan_inv ch" and q: "q = superbuf_queue ch"
    and p: "parts q ms (as @ bs)" "length as + length bs \<le> unat (max_unmatched_frames (attr q))"
    and o: "\<forall>n \<in> set as. older b n" "\<forall>n \<in> set bs. frame_idx b < node_frame_idx n"
    and pos: "(case pos of None \<Rightarrow> length (que q) | Some p \<Rightarrow> p) = length ms + length as"
    and k: "k < length (bundled_streams q)" "bundled_streams q ! k = stream_id b" and b: "frame_idx b \<noteq> 0" "frame_ok b"
  shows "chan_inv (place_node k b pos ch)"
proof -
  let ?l = "length (bundled_streams q)" and ?q = "superbuf_queue (place_node k b pos ch)"
  define n where "n = new_sb_node ?l k b (ucast (diverted_frame_id ch) = frame_idx b)"
  have que: "que q = ms @ as @ bs" using p(1) by (simp add: parts_def)
  have que': "que ?q = ms @ as @ n # bs"
    unfolding place_node_def Let_def q [symmetric] pos by (simp add: que n_def)
  have fields: "bundled_streams ?q = bundled_streams q" "attr ?q = attr q" "que_size ?q = que_size q + 1"
    "match_cnt ?q = (if ?l = 1 then match_cnt q + 1 else match_cnt q)"
    by (simp_all add: place_node_def Let_def q)
  have qi: "queue_inv q" using inv q by (simp add: chan_inv_def)
  have by': "by_number ?q" using qi by (auto simp: queue_inv_def by_number_def place_node_def Let_def q)
  have n: "node_ok ?l n" "same_frame (bundled_streams q) n" "matched n = (?l = 1)" "node_frame_idx n = frame_idx b"
    using new_sb_node_ok [OF k(1) b(1)] same_frame_new [OF b(2) k(2,1)] by (simp_all add: n_def new_sb_node_def)
  have asc: "ascending (as @ n # bs)"
    using p(1) o n(4) by (auto simp: parts_def sorted_wrt_append)
  have "\<exists>ms us. parts ?q ms us"
  proof (cases "?l = 1")
    case True
    have "as @ bs = []"
    proof (rule ccontr)
      assume "as @ bs \<noteq> []"
      then obtain m where m: "m \<in> set (as @ bs)" by (meson last_in_set)
      then have "node_ok 1 m" using qi True que by (auto simp: queue_inv_def queue_ok_def)
      then show False using single_matched m p(1) by (auto simp: parts_def)
    qed
    then have "parts ?q (ms @ [n]) []" using p(1) que' fields True n(3) by (simp add: parts_def)
    then show ?thesis by blast
  next
    case False
    then have "parts ?q ms (as @ n # bs)" using p que' fields n(3) asc by (auto simp: parts_def)
    then show ?thesis by blast
  qed
  moreover have "queue_ok ?q" "\<forall>n \<in> set (que ?q). same_frame (bundled_streams ?q) n"
    "que_size ?q = of_nat (length (que ?q))"
    using qi que que' n fields by (auto simp: queue_inv_def queue_ok_def)
  ultimately have "queue_inv ?q" using qi by' fields by (simp add: queue_inv_def)
  then show ?thesis using inv fields q
    by (auto simp: chan_inv_def place_node_def Let_def)
qed

lemma insert_node_inv:
  assumes inv: "chan_inv ch" and q: "q = superbuf_queue ch"
    and p: "parts q ms (as @ bs)" "length as + length bs \<le> unat (max_unmatched_frames (attr q))"
    and o: "\<forall>n \<in> set as. older b n" "\<forall>n \<in> set bs. frame_idx b < node_frame_idx n"
    and pos: "(case pos of None \<Rightarrow> length (que q) | Some p \<Rightarrow> p) = length ms + length as"
    and k: "k < length (bundled_streams q)" "bundled_streams q ! k = stream_id b" and b: "frame_idx b \<noteq> 0" "frame_ok b"
  shows "chan_inv (insert_node E k b pos ch)"
proof -
  have em: "chan_inv (ch_emit (Ch_Malloc x) (ch_emit (Ch_Malloc y) ch))" for x y
    by (rule chan_inv_same [OF inv]) (auto simp: ch_emit_def)
  have "q = superbuf_queue (ch_emit (Ch_Malloc x) (ch_emit (Ch_Malloc y) ch))" for x y
    by (simp add: ch_emit_def q)
  then have "chan_inv (place_node k b pos (ch_emit (Ch_Malloc x) (ch_emit (Ch_Malloc y) ch)))" for x y
    using place_node_inv [OF em _ p o pos k b] by blast
  then show ?thesis using em by (simp add: insert_node_def Let_def)
qed

lemma remove_node_inv:
  assumes "chan_inv ch" "j < length (que (superbuf_queue ch))" "\<exists>ms us. parts (superbuf_queue (remove_node j ch)) ms us"
  shows "chan_inv (remove_node j ch)"
proof -
  let ?q = "superbuf_queue ch"
  have "queue_ok (superbuf_queue (remove_node j ch))"
    using remove_node_moves [OF assms(2)] assms(1) by (simp add: moves_def chan_inv_def queue_inv_def)
  moreover have "(of_nat (length (que ?q)) - 1 :: u32) = of_nat (length (dropped (Some j) (que ?q)))"
  proof -
    have "length (que ?q) = Suc (length (dropped (Some j) (que ?q)))" using assms(2) by (simp add: dropped_def)
    then show ?thesis by (metis add_diff_cancel_left' of_nat_Suc)
  qed
  ultimately have "queue_inv (superbuf_queue (remove_node j ch))"
    using assms(1,3)
    by (auto simp: chan_inv_def queue_inv_def remove_node_queue by_number_def dropped_def
        dest: in_set_takeD in_set_dropD)
  then show ?thesis
    using assms(1) by (auto simp: chan_inv_def remove_node_queue)
      (auto simp: remove_node_def qbufs_eq Let_def sent_ok_def)
qed

lemma drop_node_queue: "superbuf_queue (drop_node freed j ch) = superbuf_queue (remove_node j ch)"
  by (simp add: drop_node_def Let_def ch_emit_def)

lemma drop_node_inv:
  assumes "chan_inv ch" "j < length (que (superbuf_queue ch))" "\<exists>ms us. parts (superbuf_queue (drop_node freed j ch)) ms us"
  shows "chan_inv (drop_node freed j ch)"
  using remove_node_inv [OF assms(1,2)] assms(3) unfolding drop_node_queue
  by (simp add: drop_node_def Let_def ch_emit_inv sent_ok_def)

lemma new_frame_inv:
  assumes inv: "chan_inv ch" and q: "q = superbuf_queue ch" and p: "parts q ms (as @ bs)"
    and o: "\<forall>n \<in> set as. older b n" "\<forall>n \<in> set bs. frame_idx b < node_frame_idx n"
    and k: "k < length (bundled_streams q)" "bundled_streams q ! k = stream_id b" and b: "frame_idx b \<noteq> 0" "frame_ok b"
  shows "\<exists>ch'. new_frame E k b (of_nat (length as + length bs)) (if as = [] then None else Some (length ms))
    (if bs = [] then None else Some (length ms + length as)) ch = Some ch' \<and> chan_inv ch'"
proof -
  define mx where "mx = max_unmatched_frames (attr q)"
  define u :: u8 where "u = of_nat (length as + length bs)"
  define lst where "lst = (if as = [] then None else Some (length ms))"
  define ins where "ins = (if bs = [] then None else Some (length ms + length as))"
  have mx: "unat mx < 255" using inv q by (simp add: chan_inv_def queue_inv_def mx_def word_less_nat_alt)
  have le: "length as + length bs \<le> Suc (unat mx)" using p by (simp add: parts_def mx_def)
  have u: "unat u = length as + length bs" using le mx by (simp add: u_def unat_of_nat del: of_nat_add)
  have less: "mx < u \<longleftrightarrow> length as + length bs = Suc (unat mx)" using u le by (auto simp: word_less_nat_alt)
  have que: "que q = ms @ as @ bs" using p by (simp add: parts_def)
  have stop: "\<not> mx < u - 1" if "mx < u"
  proof -
    have "u \<noteq> 0" using that by auto
    then have "unat (u - 1) = unat u - 1" by (metis unat_minus_one)
    then show ?thesis using u le by (simp add: word_less_nat_alt)
  qed
  show ?thesis
  proof (cases "mx < u \<and> lst = None")
    case True
    then have "new_frame E k b u lst ins ch = Some (qbuf b ch)"
      unfolding new_frame_def Let_def q [symmetric] mx_def [symmetric] by simp
    then show ?thesis using inv by (simp add: u_def lst_def ins_def)
  next
    case False
    let ?ns = "case lst of None \<Rightarrow> [] | Some j \<Rightarrow> drop j (que q)" and ?j = "case lst of None \<Rightarrow> 0 | Some j \<Rightarrow> j"
    obtain r u' where d: "drop_loop mx ins ?ns ?j u = Some (r, u')"
      using drop_loop_total [of mx u ins ?ns ?j, OF stop] by blast
    define r' where "r' = (if mx < u' then lst else r)"
    have r': "r' = None \<and> \<not> mx < u \<or>
        (\<exists>j. r' = Some j \<and> length ms \<le> j \<and> j < length (ms @ as @ bs) \<and> (bs \<noteq> [] \<longrightarrow> j \<noteq> length ms + length as))"
    proof (cases r)
      case None
      then have "u' = u" using d drop_loop_keeps by blast
      then show ?thesis using None False by (auto simp: r'_def lst_def)
    next
      case (Some j)
      note f = drop_loop_finds [OF d [unfolded Some]]
      have "lst \<noteq> None" using f by (cases lst) auto
      then show ?thesis using f Some by (auto simp: r'_def lst_def ins_def que)
    qed
    then have place: "r' = None \<or> (\<exists>j. r' = Some j \<and> length ms \<le> j \<and> j < length (ms @ as @ bs) \<and>
        (bs \<noteq> [] \<longrightarrow> j \<noteq> length ms + length as))" by blast
    obtain as' bs' where split: "dropped r' (ms @ as @ bs) = ms @ as' @ bs'" "set as' \<subseteq> set as" "set bs' \<subseteq> set bs"
      "ascending (as @ bs) \<longrightarrow> ascending (as' @ bs')"
      "length as' + length bs' = length as + length bs - (if r' = None then 0 else 1)"
      "(case drop_pos (if bs = [] then None else Some (length ms + length as)) r' of
         None \<Rightarrow> length (dropped r' (ms @ as @ bs)) | Some p \<Rightarrow> p) = length ms + length as'"
      using dropped_split [OF place] by blast
    have asc: "ascending (as @ bs)" using p by (simp add: parts_def)
    note ab = split(1) [folded que] split(2,3) split(4) [rule_format, OF asc] split(5)
      split(6) [unfolded split(1), folded ins_def]
    have small: "length as' + length bs' \<le> unat mx" using ab(5) r' less le by auto
    define ch1 where "ch1 = (case r' of None \<Rightarrow> ch | Some j \<Rightarrow> drop_node (\<not> mx < u') j ch)"
    have q1: "que (superbuf_queue ch1) = ms @ as' @ bs'" "attr (superbuf_queue ch1) = attr q"
      "bundled_streams (superbuf_queue ch1) = bundled_streams q" "match_cnt (superbuf_queue ch1) = match_cnt q"
      using ab(1) by (auto simp: ch1_def q drop_node_queue remove_node_queue dropped_def split: option.splits)
    have parts1: "parts (superbuf_queue ch1) ms (as' @ bs')"
      using p q1 ab small by (auto simp: parts_def mx_def)
    have "chan_inv ch1"
    proof (cases r')
      case None
      then show ?thesis using inv by (simp add: ch1_def)
    next
      case (Some j)
      have "chan_inv (drop_node (\<not> mx < u') j ch)"
        using r' Some parts1 que by (intro drop_node_inv [OF inv]) (auto simp: ch1_def q)
      then show ?thesis by (simp add: ch1_def Some)
    qed
    moreover have "(case drop_pos ins r' of None \<Rightarrow> length (que (superbuf_queue ch1)) | Some p \<Rightarrow> p) =
        length ms + length as'" unfolding q1(1) by (rule ab(6))
    ultimately have "chan_inv (insert_node E k b (drop_pos ins r') ch1)"
      using ab(2,3) o k b small q1
      by (intro insert_node_inv [OF _ refl parts1]) (auto simp: mx_def)
    moreover have "new_frame E k b u lst ins ch = Some (insert_node E k b (drop_pos ins r') ch1)"
      using d unfolding new_frame_def Let_def q [symmetric] mx_def [symmetric] if_not_P [OF False]
      by (simp add: r'_def ch1_def drop_pos_def)
    ultimately show ?thesis by (simp add: u_def lst_def ins_def)
  qed
qed


lemma comp_and_enqueue_inv:
  assumes inv: "chan_inv ch" and f: "frame_ok b"
  shows "\<exists>ch'. superbuf_comp_and_enqueue E b ch = Some ch' \<and> chan_inv ch'"
proof -
  define k where "k = index_of (stream_id b) (bundled_streams (superbuf_queue ch))"
  show ?thesis
  proof (cases "k = length (bundled_streams (superbuf_queue ch)) \<or> frame_idx b = 0")
    case True
    then show ?thesis using inv by (auto simp: superbuf_comp_and_enqueue_def k_def Let_def)
  next
    case False
    then have k1: "k < length (bundled_streams (superbuf_queue ch))" unfolding k_def by (intro index_of_bound) simp
    have k: "k < length (bundled_streams (superbuf_queue ch))" "bundled_streams (superbuf_queue ch) ! k = stream_id b"
      using k1 index_of_nth [OF k1 [unfolded k_def]] by (simp_all add: k_def)
    have b: "frame_idx b \<noteq> 0" using False by simp
    obtain rc c where m: "handle_metadata E b ch = Some (rc, c)" and c: "chan_inv c"
      using handle_metadata_inv [OF inv] by blast
    define q where "q = superbuf_queue c"
    have hd: "bundled_streams q = bundled_streams (superbuf_queue ch)"
      using handle_metadata_moves [OF m] by (simp add: moves_def q_def)
    have qi: "queue_inv q" "by_number q" using c by (simp_all add: chan_inv_def queue_inv_def q_def)
    obtain ms us where p: "parts q ms us" using qi(1) by (auto simp: queue_inv_def)
    have asc: "ascending us" using p by (simp add: parts_def)
    obtain as bs where us: "us = as @ bs" and old: "\<forall>n \<in> set as. older b n" and new: "\<forall>n \<in> set bs. \<not> older b n"
      and later: "\<And>n ns. bs = n # ns \<Longrightarrow> \<forall>m \<in> set ns. frame_idx b < node_frame_idx m"
      by (rule split_at_frame [OF asc, of b thesis], rule that)
    let ?c = "upd_queue (\<lambda>q. q\<lparr>nomatch_frame_id := 0\<rparr>) c"
    have scan: "\<exists>ch'. (case scan q k b (que q) 0 0 None None of
         (Some i, _, lst, _) \<Rightarrow> Some (match_frame k b i lst ?c)
       | (None, u, lst, ins) \<Rightarrow> new_frame E k b u lst ins c) = Some ch' \<and> chan_inv ch'"
    proof (cases "\<exists>n ns. bs = n # ns \<and> node_frame_idx n = frame_idx b")
      case True
      then obtain n ns where n: "bs = n # ns" "node_frame_idx n = frame_idx b" by blast
      have que: "que q = ms @ as @ n # ns" using p us n by (simp add: parts_def)
      let ?i = "length ms + length as" and ?lst = "if as = [] then None else Some (length ms)"
      obtain u where sc: "scan q k b (que q) 0 0 None None = (Some ?i, u, ?lst, None)"
        unfolding que using scan_found [OF qi(2) _ _ old n(2), of ms ns k] p us n by (auto simp: parts_def)
      have "q\<lparr>nomatch_frame_id := 0\<rparr> = q"
        by (rule mm_channel_queue.equality) (use qi(2) in \<open>simp_all add: by_number_def\<close>)
      then have c': "chan_inv ?c" "superbuf_queue ?c = q"
        using c by (simp_all add: q_def upd_queue_def chan_inv_def)
      define d where "d = match_frame k b ?i ?lst ?c"
      have f1: "bundled_streams (superbuf_queue d) = bundled_streams q" "attr (superbuf_queue d) = attr q"
        "nomatch_frame_id (superbuf_queue d) = nomatch_frame_id q" "ch_streams d = ch_streams ?c"
        by (simp_all only: d_def match_frame_fields c'(2))
      have nth: "que q ! ?i = n" "?i < length (que q)" unfolding que by (simp_all add: nth_append)
      have "queue_ok (superbuf_queue d)"
        using match_frame_takes_in [of ?c ?i ?lst k b] qi(1) c'(2) nth k b hd
        by (auto simp: takes_in_def d_def queue_inv_def split: if_splits)
      moreover have "\<forall>n \<in> set (que (superbuf_queue d)). same_frame (bundled_streams q) n"
        unfolding d_def using qi(1) nth n(2) f k hd
        by (intro match_frame_same [OF _ c'(2) [symmetric]]) (auto simp: queue_inv_def)
      moreover have "que_size (superbuf_queue d) = of_nat (length (que (superbuf_queue d)))"
        unfolding d_def using qi(1) nth
        by (intro match_frame_size [OF _ c'(2) [symmetric]]) (auto simp: queue_inv_def split: if_splits)
      moreover have "\<exists>ms us. parts (superbuf_queue d) ms us"
        unfolding d_def using match_frame_parts [OF p [unfolded us n(1)] c'(2) [symmetric] n(2)] by simp
      ultimately have "queue_inv (superbuf_queue d)"
        using qi f1 by (simp add: queue_inv_def by_number_def)
      then have "chan_inv d"
        using c' f1 match_frame_calls [of _ k b ?i ?lst ?c] unfolding d_def
        by (intro chan_inv_same [OF c'(1)]) auto
      then show ?thesis using sc by (simp add: d_def)
    next
      case False
      have "\<forall>n \<in> set bs. frame_idx b < node_frame_idx n"
      proof (cases bs)
        case (Cons n ns)
        then have "frame_idx b < node_frame_idx n" using False new by auto
        then show ?thesis using later Cons by auto
      qed simp
      note newer = this
      have que: "que q = ms @ as @ bs" using p us by (simp add: parts_def)
      have "scan q k b (que q) 0 0 None None = (None, of_nat (length as + length bs),
          if as = [] then None else Some (length ms), if bs = [] then None else Some (length ms + length as))"
        unfolding que using p us by (intro scan_not_found [OF qi(2) _ _ old newer]) (auto simp: parts_def)
      then show ?thesis
        using new_frame_inv [OF c q_def p [unfolded us] old newer _ _ b f, of k E] k hd by simp
    qed
    note split_cond = if_split [of "\<lambda>r. \<exists>ch'. r = Some ch' \<and> chan_inv ch'"]
    have returned: "\<exists>ch'. Some (qbuf b d) = Some ch' \<and> chan_inv ch'" if "chan_inv d" for d using that by simp
    show ?thesis unfolding superbuf_comp_and_enqueue_def Let_def k_def [symmetric] m option.simps prod.simps
        q_def [symmetric] split_cond
      using False scan returned [OF c] inv by (intro conjI impI) simp_all
  qed
qed

section \<open>The thread\<close>

lemma zsl_control_inv: "chan_inv ch \<Longrightarrow> chan_inv (zsl_control ch)"
  by (erule chan_inv_same) (auto simp: zsl_control_def ch_emit_def split: if_splits)

lemma count_down_same:
  "superbuf_queue (snd (count_down ch)) = superbuf_queue ch" "ch_streams (snd (count_down ch)) = ch_streams ch"
  "set (ch_calls (snd (count_down ch))) \<subseteq> insert Ch_Stop_Zsl (set (ch_calls ch))"
  by (auto simp: count_down_def ch_emit_def Let_def)

lemma sent_complete:
  assumes "node_ok (length hdls) n" "matched n" "same_frame hdls n"
  shows "sent_ok hdls (Ch_Superbuf (map (map_option info_buf) (super_buf n)) x y)"
proof -
  have "\<exists>d. map (map_option info_buf) (super_buf n) ! i = Some d \<and> def_frame_idx d = node_frame_idx n \<and>
      def_stream_id d = hdls ! i" if "i < length hdls" for i
  proof -
    have l: "i < length (super_buf n)" using assms(1) that by (simp add: node_ok_def)
    moreover have "super_buf n ! i \<noteq> None" using assms(1,2) l by (metis node_ok_def nth_mem)
    ultimately show ?thesis using assms(3) by (auto simp: same_frame_def)
  qed
  then show ?thesis using assms(1) unfolding sent_ok_def node_ok_def by (auto intro!: exI [of _ "node_frame_idx n"])
qed

lemma dispatch_one_inv:
  assumes d: "superbuf_dequeue_internal True (superbuf_queue ch) = (Some n, q)" and inv: "chan_inv ch"
  shows "chan_inv (dispatch_one E mode n (ch\<lparr>superbuf_queue := q\<rparr>))"
proof -
  have i: "chan_inv (ch\<lparr>superbuf_queue := q\<rparr>)" by (rule dequeued_inv [OF d inv])
  have que: "que (superbuf_queue ch) = n # que q" "bundled_streams q = bundled_streams (superbuf_queue ch)" "matched n"
    using dequeued [OF d] d by (auto simp: superbuf_dequeue_internal_def split: list.splits if_splits)
  then have n: "node_ok (length (bundled_streams q)) n" "same_frame (bundled_streams q) n"
    using inv by (simp_all add: chan_inv_def queue_inv_def queue_ok_def)
  have emit: "chan_inv (send_superbuf E r n c)" if c: "chan_inv c" "superbuf_queue c = q" for r c
  proof -
    have m: "chan_inv (ch_emit (Ch_Malloc ok) c)" if "chan_inv c" for ok c
      by (rule ch_emit_inv [OF that]) (simp add: sent_ok_def)
    note mm = m [OF m [OF c(1)]]
    have "chan_inv (ch_emit (Ch_Superbuf (map (map_option info_buf) (super_buf n)) r l)
        (ch_emit (Ch_Malloc x) (ch_emit (Ch_Malloc ok) c)))" for l ok x
      by (rule ch_emit_inv [OF mm]) (simp add: ch_emit_def c(2) sent_complete [OF n(1) que(3) n(2)])
    moreover have "chan_inv (ch_emit (Ch_Lost bs r l) (ch_emit (Ch_Malloc x) (ch_emit (Ch_Malloc ok) c)))" for bs l ok x
      by (rule ch_emit_inv [OF mm]) (simp add: sent_ok_def)
    ultimately show ?thesis using m [OF c(1)] c(1)
      by (simp add: send_superbuf_def Let_def)
  qed
  have cd: "chan_inv (snd (count_down (ch\<lparr>superbuf_queue := q\<rparr>)))"
    by (rule chan_inv_same [OF i]) (use count_down_same [of "ch\<lparr>superbuf_queue := q\<rparr>"] in auto)
  show ?thesis using emit [OF i] emit [OF cd] count_down_same(1) [of "ch\<lparr>superbuf_queue := q\<rparr>"]
    by (simp add: dispatch_one_def split: prod.splits) (metis snd_conv)
qed

lemma dispatch_loop_inv: "chan_inv ch \<Longrightarrow> chan_inv (dispatch_loop E mode ch)"
proof (induction E mode ch rule: dispatch_loop.induct)
  case (1 E mode ch)
  show ?case
  proof (cases "superbuf_dequeue_internal True (superbuf_queue ch)")
    case (Pair r q)
    then show ?thesis
      using 1 not_dequeued [of True ch q] dispatch_one_inv [of ch _ q E mode]
      by (subst dispatch_loop.simps) (auto split: option.splits)
  qed
qed

definition cmd_ok :: "ch_cmd \<Rightarrow> bool" where
  "cmd_ok c \<longleftrightarrow> (\<forall>b. c = Cmd_Data_Cb b \<longrightarrow> frame_ok b)"

lemma exec_cmd_inv:
  assumes "chan_inv ch" "cmd_ok cmd"
  shows "\<exists>ch'. exec_cmd E cmd ch = Some ch' \<and> chan_inv ch'"
proof -
  have fl: "chan_inv (flush_all c)" if "chan_inv c" for c using that by (simp add: flush_all_def)
  show ?thesis
  proof (cases cmd)
    case (Cmd_Data_Cb b)
    then show ?thesis using comp_and_enqueue_inv [OF assms(1)] assms(2) by (simp add: cmd_ok_def)
  next
    case (Cmd_Req_Data_Cb n r)
    show ?thesis unfolding Cmd_Req_Data_Cb exec_cmd.simps req_data_def Let_def
      by (rule skip_inv, rule chan_inv_same [OF assms(1)]) simp_all
  next
    case (Cmd_Config_Notify m)
    have "chan_inv (upd_queue (\<lambda>q. q\<lparr>attr := (attr q)\<lparr>attr_notify_mode := m\<rparr>\<rparr>) ch)"
      by (rule chan_inv_same [OF assms(1)]) (auto simp: upd_queue_def elim: queue_inv_cong)
    then show ?thesis by (simp add: Cmd_Config_Notify)
  next
    case (Cmd_Flush_Queue f)
    then show ?thesis using fl assms(1) by simp
  qed (use fl [OF assms(1)] in \<open>auto intro!: ch_emit_inv assms(1) simp: sent_ok_def\<close>)
qed

lemma process_inv:
  assumes "chan_inv ch" "cmd_ok cmd"
  shows "\<exists>ch'. process_stream_buf E cmd ch = Some ch' \<and> chan_inv ch'"
proof -
  obtain c where c: "exec_cmd E cmd ch = Some c" "chan_inv c" using exec_cmd_inv [OF assms] by blast
  obtain d where d: "superbuf_bufdone_overflow (zsl_control c) = Some d" "chan_inv d"
    using overflow_inv [OF zsl_control_inv [OF c(2)]] by blast
  show ?thesis using c d dispatch_loop_inv by (auto simp: process_stream_buf_def split: ch_cmd.splits)
qed

lemma ch_run_inv:
  "chan_inv ch \<Longrightarrow> \<forall>c \<in> set cs. cmd_ok c \<Longrightarrow> \<exists>ch'. ch_run E cs ch = Some ch' \<and> chan_inv ch'"
proof (induction cs arbitrary: ch)
  case (Cons c cs)
  obtain ch1 where "process_stream_buf E c ch = Some ch1" "chan_inv ch1"
    using process_inv Cons.prems by (metis list.set_intros(1))
  then show ?case using Cons by auto
qed auto

lemma run_takes_in:
  assumes "ch_run E cs ch = Some ch'" "queue_ok (superbuf_queue ch)"
  shows "takes_in (\<Sum>c \<leftarrow> cs. cmd_brings (bundled_streams (superbuf_queue ch)) c) ch ch'"
  using assms
proof (induction cs arbitrary: ch)
  case (Cons c cs)
  obtain ch1 where p: "process_stream_buf E c ch = Some ch1" "ch_run E cs ch1 = Some ch'"
    using Cons.prems by (auto split: option.splits)
  note t = process_takes_in [OF p(1) Cons.prems(2)]
  then have "queue_ok (superbuf_queue ch1)" "bundled_streams (superbuf_queue ch1) = bundled_streams (superbuf_queue ch)"
    using Cons.prems(2) by (simp_all add: takes_in_def)
  with Cons.IH [OF p(2)] t show ?case by (auto simp: takes_in_def add.assoc)
qed (simp add: takes_in_def)

end
