(* ===== verification/SuperBufBurst.thy ===== *)
theory SuperBufBurst
  imports SuperBufKeep
begin

text \<open>
  In burst mode the thread of a channel counts the requested super buffers down: nothing but a request
  sets the count, and nothing but the dispatch sends.
\<close>

definition sent_count :: "mm_channel \<Rightarrow> nat" where
  "sent_count ch = length (filter is_sent (ch_calls ch))"

definition burst_view :: "mm_channel \<Rightarrow> u32 \<times> notify_mode \<times> nat" where
  "burst_view ch = (pending_cnt ch, attr_notify_mode (attr (superbuf_queue ch)), sent_count ch)"

lemma no_qbuf_sent [simp]: "filter is_sent (map Ch_Qbuf ds) = []"
  by (induction ds) simp_all

lemmas view_defs = burst_view_def sent_count_def

lemma view_qbufs [simp]: "burst_view (qbufs es ch) = burst_view ch" "burst_view (qbufs_nodes ns ch) = burst_view ch"
  by (simp_all add: qbufs_eq qbufs_nodes_eq view_defs)

lemma view_qbuf [simp]: "burst_view (qbuf b ch) = burst_view ch"
  by (simp add: qbuf_def ch_emit_def view_defs)

lemma view_expected [simp]: "burst_view (set_expected f ch) = burst_view ch" "burst_view (add_expected ch) = burst_view ch"
  by (simp_all add: add_expected_def set_expected_def upd_queue_def view_defs)

lemma view_queue: "attr q = attr (superbuf_queue ch) \<Longrightarrow> burst_view (ch\<lparr>superbuf_queue := q\<rparr>) = burst_view ch"
  by (simp add: view_defs)

lemma dequeue_attr: "superbuf_dequeue_internal m q = (r, q') \<Longrightarrow> attr q' = attr q"
  by (auto simp: superbuf_dequeue_internal_def split: list.splits if_splits)

lemma view_dequeued: "superbuf_dequeue_internal m (superbuf_queue ch) = (r, q) \<Longrightarrow>
    burst_view (ch\<lparr>superbuf_queue := q\<rparr>) = burst_view ch"
  by (rule view_queue) (rule dequeue_attr)

lemma view_flush [simp]: "burst_view (superbuf_flush t ch) = burst_view ch"
proof (induction t ch rule: superbuf_flush.induct)
  case (1 t ch)
  show ?case
  proof (cases "superbuf_dequeue_internal False (superbuf_queue ch)")
    case (Pair r q)
    then show ?thesis using 1 view_dequeued [OF Pair] by (subst superbuf_flush.simps) (simp split: option.splits)
  qed
qed

lemma view_flush_matched [simp]: "burst_view (superbuf_flush_matched ch) = burst_view ch"
proof (induction ch rule: superbuf_flush_matched.induct)
  case (1 ch)
  show ?case
  proof (cases "superbuf_dequeue_internal True (superbuf_queue ch)")
    case (Pair r q)
    then show ?thesis using 1 view_dequeued [OF Pair]
      by (subst superbuf_flush_matched.simps) (simp split: option.splits)
  qed
qed

lemma view_trim:
  assumes "trim_loop n ch = Some ch'"
  shows "burst_view ch' = burst_view ch"
proof (rule trim_loop.raw_induct [where P = "\<lambda>n ch ch'. burst_view ch' = burst_view ch", OF _ assms])
  fix f n ch ch'
  assume IH: "\<And>n ch ch'. f n ch = Some ch' \<Longrightarrow> burst_view ch' = burst_view ch"
    and body: "(if n < match_cnt (superbuf_queue ch) then
      case superbuf_dequeue_internal True (superbuf_queue ch) of
        (None, q) \<Rightarrow> f n (ch\<lparr>superbuf_queue := q\<rparr>)
      | (Some sb, q) \<Rightarrow> f n (qbufs (super_buf sb) (ch\<lparr>superbuf_queue := q\<rparr>))
      else Some ch) = Some ch'"
  show "burst_view ch' = burst_view ch"
  proof (cases "superbuf_dequeue_internal True (superbuf_queue ch)")
    case (Pair r q)
    show ?thesis using body view_dequeued [OF Pair] IH Pair
      by (auto split: if_splits option.splits)
  qed
qed

lemma view_steps [simp]:
  "burst_view (ch\<lparr>needLEDFlash := x\<rparr>) = burst_view ch" "burst_view (ch\<lparr>bWaitForPrepSnapshotDone := x\<rparr>) = burst_view ch"
  "burst_view (ch\<lparr>diverted_frame_id := y\<rparr>) = burst_view ch" "burst_view (ch\<lparr>bracketingState := z\<rparr>) = burst_view ch"
  "burst_view (ch\<lparr>cur_capture_idx := y\<rparr>) = burst_view ch" "burst_view (ch\<lparr>stopZslSnapshot := x\<rparr>) = burst_view ch"
  "burst_view (ch\<lparr>isZoom1xFrameRequested := x\<rparr>) = burst_view ch"
  "burst_view (ch\<lparr>isFlashBracketingEnabled := x\<rparr>) = burst_view ch"
  "burst_view (ch\<lparr>frame_config := x\<rparr>) = burst_view ch" "burst_view (ch\<lparr>manualZSLSnapshot := x\<rparr>) = burst_view ch"
  "burst_view (ch\<lparr>unLockAEC := x\<rparr>) = burst_view ch" "burst_view (ch\<lparr>pending_retro_cnt := w\<rparr>) = burst_view ch"
  "burst_view (ch\<lparr>startZSlSnapshotCalled := x\<rparr>) = burst_view ch" "burst_view (ch\<lparr>burstSnapNum := w\<rparr>) = burst_view ch"
  by (simp_all add: view_defs)

lemma view_upd [simp]: "(\<And>q. attr (f q) = attr q) \<Longrightarrow> burst_view (upd_queue f ch) = burst_view ch"
  by (simp add: upd_queue_def view_defs)

lemma view_emit [simp]: "\<not> is_sent c \<Longrightarrow> burst_view (ch_emit c ch) = burst_view ch"
  by (simp add: ch_emit_def view_defs)

lemma view_meta [simp]:
  "burst_view (meta_divert m b ch) = burst_view ch" "burst_view (meta_prep m ch) = burst_view ch"
  "burst_view (meta_good_range m ch) = burst_view ch" "burst_view (meta_bracketing m ch) = burst_view ch"
  "burst_view (meta_config E m ch) = burst_view ch" "burst_view (meta_led_off b ch) = burst_view ch"
  by (simp_all add: meta_divert_def meta_prep_def meta_good_range_def meta_bracketing_def
      meta_config_def meta_led_off_def Let_def split: option.splits)

lemma view_metadata: "handle_metadata E b ch = Some (rc, ch') \<Longrightarrow> burst_view ch' = burst_view ch"
  unfolding handle_metadata_def Let_def
  by (simp split: option.splits if_splits prod.splits) auto

section \<open>Frames\<close>

lemma view_match [simp]: "burst_view (match_frame k b i lst ch) = burst_view ch"
  by (simp add: match_frame_def Let_def view_queue split: prod.splits)

lemma view_insert [simp]: "burst_view (insert_node E k b pos ch) = burst_view ch"
  by (simp add: insert_node_def place_node_def Let_def view_queue)

lemma view_remove [simp]: "burst_view (remove_node j ch) = burst_view ch"
  by (simp add: remove_node_def Let_def view_queue)

lemma view_drop [simp]: "burst_view (drop_node freed j ch) = burst_view ch"
  by (simp add: drop_node_def Let_def)

lemma view_new_frame: "new_frame E k b u lst ins ch = Some ch' \<Longrightarrow> burst_view ch' = burst_view ch"
  unfolding new_frame_def Let_def by (auto split: option.splits if_splits)

lemma view_enqueue:
  assumes "superbuf_comp_and_enqueue E b ch = Some ch'"
  shows "burst_view ch' = burst_view ch"
  using assms view_metadata view_new_frame unfolding superbuf_comp_and_enqueue_def Let_def
  by (auto split: option.splits if_splits prod.splits)

section \<open>The thread\<close>

lemma view_zsl [simp]: "burst_view (zsl_control ch) = burst_view ch"
  by (simp add: zsl_control_def)

lemma view_overflow: "superbuf_bufdone_overflow ch = Some ch' \<Longrightarrow> burst_view ch' = burst_view ch"
  by (auto simp: superbuf_bufdone_overflow_def Let_def view_trim split: if_splits)

lemma view_count_down: "burst_view (snd (count_down ch)) = (pending_cnt ch - 1, snd (burst_view ch))"
proof -
  have "burst_view (ch\<lparr>pending_cnt := pending_cnt ch - 1, bWaitForPrepSnapshotDone := x, pending_retro_cnt := y\<rparr>) =
      (pending_cnt ch - 1, snd (burst_view ch))" for x y by (simp add: view_defs)
  then show ?thesis by (simp add: count_down_def Let_def)
qed

lemma view_send: "\<exists>k \<le> 1. burst_view (send_superbuf E r n ch) =
    (pending_cnt ch, attr_notify_mode (attr (superbuf_queue ch)), sent_count ch + k)"
proof -
  show ?thesis
  proof (cases "super_buf_notify_cb ch \<and> malloc_ok E (ch_calls ch)")
    case True
    then show ?thesis
      by (intro exI [of _ "of_bool (malloc_ok E (ch_calls ch @ [Ch_Malloc True]))"])
        (simp add: send_superbuf_def Let_def view_defs ch_emit_def)
  next
    case False
    then have "burst_view (send_superbuf E r n ch) = burst_view ch"
      by (simp add: send_superbuf_def Let_def)
    then show ?thesis by (intro exI [of _ 0]) (simp add: burst_view_def)
  qed
qed

text \<open>What is still to be sent and what has been sent, of a channel in burst mode.\<close>

definition within :: "nat \<Rightarrow> mm_channel \<Rightarrow> bool" where
  "within n ch \<longleftrightarrow> attr_notify_mode (attr (superbuf_queue ch)) = MM_CAMERA_SUPER_BUF_NOTIFY_BURST \<and>
    sent_count ch + unat (pending_cnt ch) \<le> n"

lemma within_view: "burst_view ch' = burst_view ch \<Longrightarrow> within n ch' = within n ch"
  by (simp add: within_def burst_view_def)

lemma within_dispatch:
  assumes "within n ch" "pending_cnt ch > 0" 
  shows "within n (dispatch_one E MM_CAMERA_SUPER_BUF_NOTIFY_BURST x ch)"
proof -
  obtain r c where c: "count_down ch = (r, c)" by fastforce
  have v: "burst_view c = (pending_cnt ch - 1, snd (burst_view ch))" using view_count_down [of ch] c by simp
  obtain k where k: "k \<le> 1" "burst_view (send_superbuf E r x c) =
      (pending_cnt c, attr_notify_mode (attr (superbuf_queue c)), sent_count c + k)" using view_send by blast
  have "unat (pending_cnt ch - 1) = unat (pending_cnt ch) - 1" "unat (pending_cnt ch) > 0"
    using assms(2) by (metis unat_minus_one word_gt_0, simp add: unat_gt_0 word_gt_0)
  then show ?thesis using assms v k c by (simp add: dispatch_one_def within_def burst_view_def) linarith
qed

lemma within_loop: "within n ch \<Longrightarrow> within n (dispatch_loop E MM_CAMERA_SUPER_BUF_NOTIFY_BURST ch)"
proof (induction E "MM_CAMERA_SUPER_BUF_NOTIFY_BURST" ch rule: dispatch_loop.induct)
  case (1 E ch)
  show ?case
  proof (cases "superbuf_dequeue_internal True (superbuf_queue ch)")
    case (Pair r q)
    have "within n (ch\<lparr>superbuf_queue := q\<rparr>)" using 1(2) within_view [OF view_dequeued [OF Pair]] by simp
    then show ?thesis using 1 Pair within_dispatch [of n "ch\<lparr>superbuf_queue := q\<rparr>"]
      by (subst dispatch_loop.simps) (auto split: option.splits)
  qed
qed

fun requested_bufs :: "ch_cmd \<Rightarrow> nat" where
  "requested_bufs (Cmd_Req_Data_Cb n r) = unat n"
| "requested_bufs _ = 0"

fun keeps_mode :: "ch_cmd \<Rightarrow> bool" where
  "keeps_mode (Cmd_Config_Notify m) \<longleftrightarrow> m = MM_CAMERA_SUPER_BUF_NOTIFY_BURST"
| "keeps_mode _ \<longleftrightarrow> True"

lemma within_exec:
  assumes "exec_cmd E c ch = Some ch'" "within n ch" "keeps_mode c"
  shows "within (n + requested_bufs c) ch'"
proof (cases c)
  case (Cmd_Data_Cb b)
  then have "burst_view ch' = burst_view ch" using assms(1) view_enqueue by simp
  then show ?thesis using assms(2) within_view [of ch' ch n] Cmd_Data_Cb by simp
next
  case (Cmd_Req_Data_Cb m r)
  let ?c = "ch\<lparr>pending_cnt := m, pending_retro_cnt := (if m = 0 \<or> r > m then m else r),
      bWaitForPrepSnapshotDone := False, needLEDFlash := (if (if m = 0 \<or> r > m then m else r) > 0 then False else needLEDFlash ch),
      stopZslSnapshot := False, unLockAEC := False\<rparr>"
  have "superbuf_skip ?c = Some ch'" using assms(1) unfolding Cmd_Req_Data_Cb exec_cmd.simps req_data_def Let_def .
  then have "burst_view ch' = burst_view ?c"
    by (auto simp: superbuf_skip_def Let_def view_trim split: if_splits)
  moreover have "within (n + unat m) ?c" using assms(2) by (simp add: within_def sent_count_def)
  ultimately show ?thesis using within_view [of ch' ?c] by (simp add: Cmd_Req_Data_Cb)
next
  case (Cmd_Config_Notify m)
  then show ?thesis using assms by (auto simp: within_def upd_queue_def sent_count_def)
qed (use assms within_view [of ch' ch n] in \<open>auto simp: flush_all_def\<close>)

lemma within_process:
  assumes "process_stream_buf E c ch = Some ch'" "within n ch" "keeps_mode c"
  shows "within (n + requested_bufs c) ch'"
proof -
  obtain d where d: "exec_cmd E c ch = Some d" using assms(1) by (auto simp: process_stream_buf_def split: option.splits)
  note w = within_exec [OF d assms(2,3)]
  have "within (n + requested_bufs c) (dispatch_loop E (attr_notify_mode (attr (superbuf_queue d))) e)"
    if "superbuf_bufdone_overflow (zsl_control d) = Some e" for e
  proof -
    have "within (n + requested_bufs c) e" using w within_view [of e d] view_overflow [OF that] by simp
    moreover have "attr_notify_mode (attr (superbuf_queue d)) = MM_CAMERA_SUPER_BUF_NOTIFY_BURST"
      using w by (simp add: within_def)
    ultimately show ?thesis using within_loop by simp
  qed
  moreover have "attr (superbuf_queue (zsl_control d)) = attr (superbuf_queue d)"
    by (simp add: zsl_control_def ch_emit_def)
  ultimately show ?thesis using assms(1) d w
    by (auto simp: process_stream_buf_def split: option.splits ch_cmd.splits)
qed

lemma within_run:
  "ch_run E cs ch = Some ch' \<Longrightarrow> within n ch \<Longrightarrow> \<forall>c \<in> set cs. keeps_mode c \<Longrightarrow>
    within (n + (\<Sum>c \<leftarrow> cs. requested_bufs c)) ch'"
proof (induction cs arbitrary: ch n)
  case (Cons c cs)
  obtain ch1 where "process_stream_buf E c ch = Some ch1" "ch_run E cs ch1 = Some ch'"
    using Cons.prems(1) by (auto split: option.splits)
  then show ?case using Cons.IH [of ch1 "n + requested_bufs c"] within_process Cons.prems by (simp add: add.assoc)
qed simp

end
