(* ===== verification/SuperBufProps.thy ===== *)
theory SuperBufProps
  imports SuperBufInv SuperBufBurst
begin

text \<open>
  What the super buffers of a channel promise, from the start of the channel over every sequence of
  commands, and what goes wrong when a channel is started again.
\<close>

section \<open>A channel that starts\<close>

definition zero_queue :: "mm_camera_channel_attr \<Rightarrow> mm_channel_queue" where
  "zero_queue a = \<lparr>que = [], que_size = 0, bundled_streams = [], attr = a, expected_frame_id = 0,
    match_cnt = 0, expected_frame_id_without_led = 0, led_on_start_frame_id = 0,
    led_off_start_frame_id = 0, led_on_num_frames = 0, led_once = False, led_frame_skip_count = 0,
    nomatch_frame_id = 0\<rparr>"

definition streams_typed :: "mm_channel \<Rightarrow> bool" where
  "streams_typed ch \<longleftrightarrow> (\<forall>s \<in> set (ch_streams ch). str_used s \<longrightarrow> str_type s \<noteq> None)"

definition first_start :: "u32 list \<Rightarrow> mm_camera_channel_attr \<Rightarrow> mm_channel \<Rightarrow> bool" where
  "first_start hdls a ch \<longleftrightarrow> superbuf_queue ch = new_queue hdls (zero_queue a) \<and> ch_calls ch = [] \<and> streams_typed ch"

lemma first_start_inv:
  assumes "first_start hdls a ch" "hdls \<noteq> []" "priority a \<noteq> MM_CAMERA_SUPER_BUF_PRIORITY_LOW"
    "max_unmatched_frames a < 255"
  shows "chan_inv ch"
proof -
  have "parts (new_queue hdls (zero_queue a)) [] []" by (simp add: parts_def new_queue_def zero_queue_def)
  then have "\<exists>ms us. parts (new_queue hdls (zero_queue a)) ms us" by blast
  then show ?thesis using assms
    by (simp add: first_start_def chan_inv_def queue_inv_def queue_ok_def by_number_def streams_typed_def)
      (simp add: new_queue_def zero_queue_def)
qed

lemma first_start_queue:
  "first_start hdls a ch \<Longrightarrow> bundled_streams (superbuf_queue ch) = hdls \<and> queue_ok (superbuf_queue ch) \<and>
    all_bufs ch = {#}"
  by (simp add: first_start_def queue_ok_def all_bufs_def new_queue_def zero_queue_def)

section \<open>Two streams\<close>

text \<open>A channel with two streams, and a run: two frames of number 5, one of 6, and a request.\<close>

definition ex_attr :: "u8 \<Rightarrow> mm_camera_channel_attr" where
  "ex_attr k = \<lparr>attr_notify_mode = MM_CAMERA_SUPER_BUF_NOTIFY_BURST, water_mark = 2, look_back = k,
    post_frame_skip = 0, max_unmatched_frames = 1, priority = MM_CAMERA_SUPER_BUF_PRIORITY_NORMAL\<rparr>"

definition ex_stream :: "u32 \<Rightarrow> ch_stream" where
  "ex_stream h = \<lparr>str_hdl = h, str_used = True, str_type = Some CAM_STREAM_TYPE_PREVIEW, str_server_id = h, str_own = True\<rparr>"

definition ex_channel :: "u8 \<Rightarrow> mm_channel" where
  "ex_channel k = \<lparr>superbuf_queue = new_queue [1, 2] (zero_queue (ex_attr k)), super_buf_notify_cb = True,
    ch_streams = [ex_stream 1, ex_stream 2], pending_cnt = 0, pending_retro_cnt = 0, bWaitForPrepSnapshotDone = False,
    unLockAEC = False, stopZslSnapshot = False, manualZSLSnapshot = False, startZSlSnapshotCalled = False,
    needLEDFlash = False, bracketingState = MM_CHANNEL_BRACKETING_STATE_OFF, isFlashBracketingEnabled = False,
    isZoom1xFrameRequested = False, burstSnapNum = 0, diverted_frame_id = 0, cur_capture_idx = 0,
    frame_config = False, ch_calls = []\<rparr>"

definition ex_env :: ch_env where
  "ex_env = \<lparr>malloc_ok = (\<lambda>_. True), freed_num_batch = (\<lambda>_. 0)\<rparr>"

definition ex_buf :: "u32 \<Rightarrow> u32 \<Rightarrow> mm_camera_buf_def" where
  "ex_buf s f = \<lparr>def_stream_id = s, def_buf_idx = 0, def_frame_idx = f,
    def_stream_type = CAM_STREAM_TYPE_PREVIEW, def_metadata = None\<rparr>"

definition ex_frame :: "u32 \<Rightarrow> u32 \<Rightarrow> ch_cmd" where
  "ex_frame s f = Cmd_Data_Cb \<lparr>stream_id = s, frame_idx = f, info_buf = ex_buf s f\<rparr>"

definition ex_cmds :: "ch_cmd list" where
  "ex_cmds = [ex_frame 1 5, ex_frame 2 6, ex_frame 2 5, Cmd_Req_Data_Cb 1 0]"

lemma ex_start: "first_start [1, 2] (ex_attr k) (ex_channel k)"
  by (simp add: first_start_def ex_channel_def streams_typed_def ex_stream_def)

lemma ex_attr_ok:
  "priority (ex_attr k) \<noteq> MM_CAMERA_SUPER_BUF_PRIORITY_LOW" "max_unmatched_frames (ex_attr k) < 255"
  "attr_notify_mode (ex_attr k) = MM_CAMERA_SUPER_BUF_NOTIFY_BURST" "pending_cnt (ex_channel k) = 0"
  by (simp_all add: ex_attr_def ex_channel_def)

lemma ex_cmds_ok: "\<forall>c \<in> set ex_cmds. cmd_ok c" "\<forall>c \<in> set ex_cmds. keeps_mode c"
  by (simp_all add: ex_cmds_def ex_frame_def cmd_ok_def frame_ok_def ex_buf_def)

lemma ex_run: "map_option (\<lambda>ch. filter is_sent (ch_calls ch)) (ch_run ex_env ex_cmds (ex_channel 1)) =
    Some [Ch_Superbuf [Some (ex_buf 1 5), Some (ex_buf 2 5)] False False]"
  by code_simp

lemma ex_run_ends:
  obtains ch where "ch_run ex_env ex_cmds (ex_channel 1) = Some ch"
    "Ch_Superbuf [Some (ex_buf 1 5), Some (ex_buf 2 5)] False False \<in> set (ch_calls ch)"
proof -
  obtain ch where c: "ch_run ex_env ex_cmds (ex_channel 1) = Some ch"
    "filter is_sent (ch_calls ch) = [Ch_Superbuf [Some (ex_buf 1 5), Some (ex_buf 2 5)] False False]"
    using ex_run by auto
  have "Ch_Superbuf [Some (ex_buf 1 5), Some (ex_buf 2 5)] False False \<in> set (filter is_sent (ch_calls ch))"
    unfolding c(2) by simp
  then show ?thesis using that [OF c(1)] by (simp only: set_filter mem_Collect_eq)
qed

section \<open>The queue\<close>

text \<open>
  C9: For a queue whose priority is not LOW, after every sequence of commands the thread has executed
  each of them: none of its loops hangs, and none follows a pointer out of a freed node. (The loop that
  drops an incomplete super buffer does read the link of the node it has just freed; that is an event
  of the model, \<open>Ch_Read_Freed\<close>, and what is read is not used.) The queue then has the complete super
  buffers first, then at most max_unmatched_frames + 1 incomplete ones in ascending order of their
  numbers; the size and the count of complete ones that it keeps are the true ones. With a
  max_unmatched_frames below 255, and frames whose buffers have the number and the stream of the frame.
\<close>

theorem superbuf_queue_runs:
  assumes "first_start hdls a ch" "hdls \<noteq> []" "priority a \<noteq> MM_CAMERA_SUPER_BUF_PRIORITY_LOW"
    "max_unmatched_frames a < 255" "\<forall>c \<in> set cs. cmd_ok c"
  shows "\<exists>ch'. ch_run E cs ch = Some ch' \<and>
    que_size (superbuf_queue ch') = of_nat (length (que (superbuf_queue ch'))) \<and>
    (\<exists>ms us. que (superbuf_queue ch') = ms @ us \<and> (\<forall>n \<in> set ms. matched n) \<and> (\<forall>n \<in> set us. \<not> matched n) \<and>
       sorted_wrt (\<lambda>m n. node_frame_idx m < node_frame_idx n) us \<and>
       length us \<le> Suc (unat (max_unmatched_frames (attr (superbuf_queue ch')))) \<and>
       match_cnt (superbuf_queue ch') = of_nat (length ms))"
proof -
  obtain ch' where "ch_run E cs ch = Some ch'" "chan_inv ch'"
    using ch_run_inv [OF first_start_inv [OF assms(1-4)] assms(5), of E] by blast
  then show ?thesis unfolding chan_inv_def queue_inv_def parts_def by blast
qed

theorem superbuf_queue_runs_witness:
  "\<exists>ch'. ch_run ex_env ex_cmds (ex_channel 1) = Some ch' \<and>
    que_size (superbuf_queue ch') = of_nat (length (que (superbuf_queue ch'))) \<and>
    (\<exists>ms us. que (superbuf_queue ch') = ms @ us \<and> (\<forall>n \<in> set ms. matched n) \<and> (\<forall>n \<in> set us. \<not> matched n) \<and>
       sorted_wrt (\<lambda>m n. node_frame_idx m < node_frame_idx n) us \<and>
       length us \<le> Suc (unat (max_unmatched_frames (attr (superbuf_queue ch')))) \<and>
       match_cnt (superbuf_queue ch') = of_nat (length ms))"
  by (rule superbuf_queue_runs [OF ex_start _ ex_attr_ok(1,2) ex_cmds_ok(1)]) simp

text \<open>
  C17: For a queue whose priority is not LOW (frames of unequal numbers are matched under LOW), every
  super buffer that a channel sends is complete: it has one buffer of every bundled stream, in the
  order of the streams, and all of the same frame number. With a max_unmatched_frames below 255, and
  frames whose buffers have the number and the stream of the frame.
\<close>

theorem superbuf_sent_complete:
  assumes "first_start hdls a ch" "hdls \<noteq> []" "priority a \<noteq> MM_CAMERA_SUPER_BUF_PRIORITY_LOW"
    "max_unmatched_frames a < 255" "\<forall>c \<in> set cs. cmd_ok c"
    and "ch_run E cs ch = Some ch'" "Ch_Superbuf bs r l \<in> set (ch_calls ch')"
  shows "length bs = length hdls \<and>
    (\<exists>f. \<forall>i < length hdls. \<exists>d. bs ! i = Some d \<and> def_frame_idx d = f \<and> def_stream_id d = hdls ! i)"
proof -
  have inv: "chan_inv ch'" using ch_run_inv [OF first_start_inv [OF assms(1-4)] assms(5), of E] assms(6) by simp
  have "bundled_streams (superbuf_queue ch') = hdls"
    using run_takes_in [OF assms(6)] first_start_queue [OF assms(1)] by (simp add: takes_in_def)
  then have "sent_ok hdls (Ch_Superbuf bs r l)" using inv assms(7) by (auto simp: chan_inv_def)
  then show ?thesis by (simp add: sent_ok_def)
qed

theorem superbuf_sent_complete_witness:
  "\<exists>ch' bs. ch_run ex_env ex_cmds (ex_channel 1) = Some ch' \<and> Ch_Superbuf bs False False \<in> set (ch_calls ch') \<and>
    length bs = length [1::u32, 2] \<and>
    (\<exists>f. \<forall>i < length [1::u32, 2]. \<exists>d. bs ! i = Some d \<and> def_frame_idx d = f \<and> def_stream_id d = [1, 2] ! i)"
proof -
  obtain ch where c: "ch_run ex_env ex_cmds (ex_channel 1) = Some ch"
    "Ch_Superbuf [Some (ex_buf 1 5), Some (ex_buf 2 5)] False False \<in> set (ch_calls ch)" by (rule ex_run_ends)
  show ?thesis
    using superbuf_sent_complete [OF ex_start _ ex_attr_ok(1,2) ex_cmds_ok(1) c] c by blast
qed

text \<open>
  C10: Where the buffers are after a run that ends (where it does not, a loop hangs or follows a
  pointer out of a freed node): those that frames of the bundled streams brought are, with their
  multiplicity, those in the queue, those given back to their streams, those sent to the client, and
  those of super buffers that were lost as \<open>cam_queue_enq\<close> had no memory; none is lost unless an
  allocation has failed. For every priority, and whatever allocations fail.
\<close>

definition given_bufs :: "ch_call list \<Rightarrow> mm_camera_buf_def multiset" where
  "given_bufs cs = gone_bufs (filter is_qbuf cs)"

definition sent_bufs :: "ch_call list \<Rightarrow> mm_camera_buf_def multiset" where
  "sent_bufs cs = gone_bufs (filter is_sent cs)"

definition lost_bufs :: "ch_call list \<Rightarrow> mm_camera_buf_def multiset" where
  "lost_bufs cs = gone_bufs (filter is_lost cs)"

theorem superbuf_conservation:
  assumes "first_start hdls a ch" "ch_run E cs ch = Some ch'"
  shows "(\<Sum>c \<leftarrow> cs. cmd_brings hdls c) = node_bufs (que (superbuf_queue ch')) +
      given_bufs (ch_calls ch') + sent_bufs (ch_calls ch') + lost_bufs (ch_calls ch') \<and>
    (Ch_Malloc False \<in> set (ch_calls ch') \<or> lost_bufs (ch_calls ch') = {#})"
proof -
  note f = first_start_queue [OF assms(1)]
  then have "takes_in (\<Sum>c \<leftarrow> cs. cmd_brings hdls c) ch ch'" using run_takes_in [OF assms(2)] by simp
  moreover have "lost_ok (ch_calls ch)" using assms(1) by (simp add: first_start_def)
  ultimately show ?thesis using f gone_bufs_parts [of "ch_calls ch'"]
    by (auto simp: takes_in_def all_bufs_def given_bufs_def sent_bufs_def lost_bufs_def lost_ok_def ac_simps)
qed

theorem superbuf_conservation_witness:
  "\<exists>ch'. ch_run ex_env ex_cmds (ex_channel 1) = Some ch' \<and>
    (\<Sum>c \<leftarrow> ex_cmds. cmd_brings [1, 2] c) = node_bufs (que (superbuf_queue ch')) +
      given_bufs (ch_calls ch') + sent_bufs (ch_calls ch') + lost_bufs (ch_calls ch')"
proof -
  obtain ch where c: "ch_run ex_env ex_cmds (ex_channel 1) = Some ch" by (rule ex_run_ends)
  show ?thesis using superbuf_conservation [OF ex_start c] c by blast
qed

text \<open>
  The two defects themselves: the run with memory for the message but none for the queue's node loses
  the super buffer, and the frames 5, 6 and 7 of one stream make the thread read a freed node.
\<close>

definition poor_env :: ch_env where
  "poor_env = \<lparr>malloc_ok = (\<lambda>cs. count_list cs (Ch_Malloc True) < 5), freed_num_batch = (\<lambda>_. 0)\<rparr>"

lemma superbuf_lost_example:
  "map_option (\<lambda>ch. filter is_lost (ch_calls ch)) (ch_run poor_env ex_cmds (ex_channel 1)) =
    Some [Ch_Lost [Some (ex_buf 1 5), Some (ex_buf 2 5)] False False]"
  by code_simp

lemma superbuf_freed_read_example:
  "map_option (\<lambda>ch. Ch_Read_Freed \<in> set (ch_calls ch))
    (ch_run ex_env [ex_frame 1 5, ex_frame 1 6, ex_frame 1 7] (ex_channel 1)) = Some True"
  by code_simp


section \<open>Burst mode\<close>

text \<open>
  C30: In burst mode a channel sends no more super buffers than its client has asked for: those sent
  and those still pending are together at most the requested ones.
\<close>

theorem superbuf_burst_bound:
  assumes "first_start hdls a ch" "attr_notify_mode a = MM_CAMERA_SUPER_BUF_NOTIFY_BURST" "pending_cnt ch = 0"
    "\<forall>c \<in> set cs. keeps_mode c" "ch_run E cs ch = Some ch'"
  shows "sent_count ch' + unat (pending_cnt ch') \<le> (\<Sum>c \<leftarrow> cs. requested_bufs c)"
proof -
  have "within 0 ch" using assms(1,2,3)
    by (simp add: within_def first_start_def sent_count_def new_queue_def zero_queue_def)
  then show ?thesis using within_run [OF assms(5) _ assms(4), of 0] by (simp add: within_def)
qed

theorem superbuf_burst_bound_witness:
  "\<exists>ch'. ch_run ex_env ex_cmds (ex_channel 1) = Some ch' \<and>
    sent_count ch' + unat (pending_cnt ch') \<le> (\<Sum>c \<leftarrow> ex_cmds. requested_bufs c)"
proof -
  obtain ch where c: "ch_run ex_env ex_cmds (ex_channel 1) = Some ch" by (rule ex_run_ends)
  show ?thesis using superbuf_burst_bound [OF ex_start ex_attr_ok(3,4) ex_cmds_ok(2) c] c by blast
qed

section \<open>Starting again\<close>

definition stuck :: "u32 \<Rightarrow> mm_channel \<Rightarrow> bool" where
  "stuck n ch \<longleftrightarrow> match_cnt (superbuf_queue ch) > n \<and>
    (case que (superbuf_queue ch) of [] \<Rightarrow> True | x # _ \<Rightarrow> \<not> matched x)"

lemma stuck_dequeue:
  "stuck n ch \<Longrightarrow> superbuf_dequeue_internal True (superbuf_queue ch) = (None, superbuf_queue ch)"
  by (auto simp: stuck_def superbuf_dequeue_internal_def split: list.splits)

lemma stuck_never_ends:
  assumes "stuck n ch"
  shows "trim_loop n ch = None"
proof (rule ccontr)
  assume "trim_loop n ch \<noteq> None"
  then obtain ch' where r: "trim_loop n ch = Some ch'" by blast
  have "\<not> stuck n ch"
  proof (rule trim_loop.raw_induct [where P = "\<lambda>n ch ch'. \<not> stuck n ch", OF _ r])
    fix f n ch ch'
    assume IH: "\<And>n ch ch'. f n ch = Some ch' \<Longrightarrow> \<not> stuck n ch"
      and body: "(if n < match_cnt (superbuf_queue ch) then
        case superbuf_dequeue_internal True (superbuf_queue ch) of
          (None, q) \<Rightarrow> f n (ch\<lparr>superbuf_queue := q\<rparr>)
        | (Some sb, q) \<Rightarrow> f n (qbufs (super_buf sb) (ch\<lparr>superbuf_queue := q\<rparr>))
        else Some ch) = Some ch'"
    show "\<not> stuck n ch"
    proof
      assume s: "stuck n ch"
      then have "f n ch = Some ch'" using body stuck_dequeue [OF s] by (simp add: stuck_def)
      then show False using IH s by blast
    qed
  qed
  then show False using assms by blast
qed

text \<open>
  C31: A channel that is started again keeps the count of complete super buffers of its last run,
  though its queue is new and empty. If that is above look_back, the next request of the client never
  returns: mm_channel_superbuf_skip loops over the empty queue with the lock held.
\<close>

theorem superbuf_restart_hangs:
  assumes "superbuf_queue ch = new_queue hdls q" "attr_notify_mode (attr q) = MM_CAMERA_SUPER_BUF_NOTIFY_BURST"
    "match_cnt q > ucast (look_back (attr q))"
  shows "process_stream_buf E (Cmd_Req_Data_Cb n r) ch = None"
proof -
  have "stuck (ucast (look_back (attr q))) (ch\<lparr>pending_cnt := n, pending_retro_cnt := x, bWaitForPrepSnapshotDone := False,
      needLEDFlash := y, stopZslSnapshot := False, unLockAEC := False\<rparr>)" for x y
    using assms by (simp add: stuck_def new_queue_def)
  then show ?thesis using assms(1,2)
    by (simp add: process_stream_buf_def req_data_def superbuf_skip_def Let_def new_queue_def stuck_never_ends)
qed

theorem superbuf_restart_hangs_witness:
  "\<exists>ch. ch_run ex_env [ex_frame 1 5, ex_frame 2 5] (ex_channel 0) = Some ch \<and>
    process_stream_buf ex_env (Cmd_Req_Data_Cb 1 0) (ch\<lparr>superbuf_queue := new_queue [1, 2] (superbuf_queue ch)\<rparr>) = None"
proof -
  have "map_option (\<lambda>ch. (match_cnt (superbuf_queue ch), attr (superbuf_queue ch)))
      (ch_run ex_env [ex_frame 1 5, ex_frame 2 5] (ex_channel 0)) = Some (1, ex_attr 0)" by code_simp
  then obtain ch where c: "ch_run ex_env [ex_frame 1 5, ex_frame 2 5] (ex_channel 0) = Some ch"
    "match_cnt (superbuf_queue ch) = 1" "attr (superbuf_queue ch) = ex_attr 0" by auto
  have "process_stream_buf ex_env (Cmd_Req_Data_Cb 1 0) (ch\<lparr>superbuf_queue := new_queue [1, 2] (superbuf_queue ch)\<rparr>) = None"
    by (rule superbuf_restart_hangs [where q = "superbuf_queue ch"]) (use c in \<open>simp_all add: ex_attr_def\<close>)
  then show ?thesis using c(1) by blast
qed

end
