(* ===== verification/CamLayout.thy ===== *)
theory CamLayout
  imports SuperBuf "HOL-Library.Signed_Division"
begin

unbundle bit_operations_syntax

text \<open>
  The layout of a frame in its buffer: the functions \<open>mm_stream_calc_offset_...\<close> of
  \<open>stack/mm-camera-interface/src/mm_camera_stream.c\<close>, which lay out each format for each type of
  stream. All integers are words of 32 bits, signed and unsigned ones alike; a division of signed
  ones is \<open>idiv\<close>. The macros of the video core (\<open>VENUS_...\<close>), which the kernel headers define, are a
  parameter, None without a video core; so is whether the chip is of family A.
\<close>

section \<open>Data\<close>

text \<open>The formats; the order of the colours is an argument of the Bayer formats.\<close>

datatype bayer = GBRG | GRBG | RGGB | BGGR

datatype cam_format =
    CAM_FORMAT_JPEG
  | CAM_FORMAT_YUV_420_NV12
  | CAM_FORMAT_YUV_420_NV21
  | CAM_FORMAT_YUV_420_NV21_ADRENO
  | CAM_FORMAT_YUV_420_YV12
  | CAM_FORMAT_YUV_422_NV16
  | CAM_FORMAT_YUV_422_NV61
  | CAM_FORMAT_YUV_420_NV12_VENUS
  | CAM_FORMAT_YUV_RAW_8BIT_YUYV
  | CAM_FORMAT_YUV_RAW_8BIT_YVYU
  | CAM_FORMAT_YUV_RAW_8BIT_UYVY
  | CAM_FORMAT_YUV_RAW_8BIT_VYUY
  | CAM_FORMAT_BAYER_QCOM_RAW_8BPP bayer
  | CAM_FORMAT_BAYER_QCOM_RAW_10BPP bayer
  | CAM_FORMAT_BAYER_QCOM_RAW_12BPP bayer
  | CAM_FORMAT_BAYER_MIPI_RAW_8BPP bayer
  | CAM_FORMAT_BAYER_MIPI_RAW_10BPP bayer
  | CAM_FORMAT_BAYER_MIPI_RAW_12BPP bayer
  | CAM_FORMAT_BAYER_IDEAL_RAW_QCOM_8BPP bayer
  | CAM_FORMAT_BAYER_IDEAL_RAW_QCOM_10BPP bayer
  | CAM_FORMAT_BAYER_IDEAL_RAW_QCOM_12BPP bayer
  | CAM_FORMAT_BAYER_IDEAL_RAW_MIPI_8BPP bayer
  | CAM_FORMAT_BAYER_IDEAL_RAW_MIPI_10BPP bayer
  | CAM_FORMAT_BAYER_IDEAL_RAW_MIPI_12BPP bayer
  | CAM_FORMAT_BAYER_IDEAL_RAW_PLAIN8_8BPP bayer
  | CAM_FORMAT_BAYER_IDEAL_RAW_PLAIN16_8BPP bayer
  | CAM_FORMAT_BAYER_IDEAL_RAW_PLAIN16_10BPP bayer
  | CAM_FORMAT_BAYER_IDEAL_RAW_PLAIN16_12BPP bayer
  | CAM_FORMAT_JPEG_RAW_8BIT
  | CAM_FORMAT_META_RAW_8BIT
  | CAM_FORMAT_BAYER_QCOM_RAW_14BPP bayer
  | CAM_FORMAT_BAYER_MIPI_RAW_14BPP bayer
  | CAM_FORMAT_BAYER_IDEAL_RAW_QCOM_14BPP bayer
  | CAM_FORMAT_BAYER_IDEAL_RAW_MIPI_14BPP bayer
  | CAM_FORMAT_BAYER_IDEAL_RAW_PLAIN16_14BPP bayer
  | CAM_FORMAT_YUV_444_NV24
  | CAM_FORMAT_YUV_444_NV42

record cam_mp_len_offset =
  mp_len :: u32
  mp_offset :: u32
  mp_offset_x :: u32
  mp_offset_y :: u32
  mp_stride :: u32
  mp_stride_in_bytes :: u32
  mp_scanline :: u32
  mp_width :: u32
  mp_height :: u32

record cam_padding_info =
  width_padding :: u32
  height_padding :: u32
  plane_padding :: u32
  min_stride :: u32
  min_scanline :: u32

record cam_frame_len_offset =
  num_planes :: u32
  mp :: "cam_mp_len_offset list"
  frame_len :: u32

record cam_dimension =
  dim_width :: u32
  dim_height :: u32

record venus =
  y_stride :: "u32 \<Rightarrow> u32"
  y_scanlines :: "u32 \<Rightarrow> u32"
  uv_stride :: "u32 \<Rightarrow> u32"
  uv_scanlines :: "u32 \<Rightarrow> u32"
  buffer_size :: "u32 \<Rightarrow> u32 \<Rightarrow> u32"

definition pad_to_size :: "u32 \<Rightarrow> u32 \<Rightarrow> u32" where
  "pad_to_size x padding = (x + (padding - 1)) AND NOT (padding - 1)"

definition idiv :: "u32 \<Rightarrow> u32 \<Rightarrow> u32" where
  "idiv a b = word_of_int (sint a sdiv sint b)"

text \<open>Filling a plane; \<open>stride_in_bytes\<close> is set by the raw formats only.\<close>

definition plane :: "u32 \<Rightarrow> u32 \<Rightarrow> u32 \<Rightarrow> u32 \<Rightarrow> u32 \<Rightarrow> u32 \<Rightarrow> u32 \<Rightarrow> u32 \<Rightarrow> cam_mp_len_offset \<Rightarrow> cam_mp_len_offset" where
  "plane offset len offset_x offset_y stride scanline width height m =
    m\<lparr>mp_offset := offset, mp_len := len, mp_offset_x := offset_x, mp_offset_y := offset_y,
      mp_stride := stride, mp_scanline := scanline, mp_width := width, mp_height := height\<rparr>"

definition planes2 ::
  "(cam_mp_len_offset \<Rightarrow> cam_mp_len_offset) \<Rightarrow> (cam_mp_len_offset \<Rightarrow> cam_mp_len_offset) \<Rightarrow> u32 \<Rightarrow>
   cam_frame_len_offset \<Rightarrow> cam_frame_len_offset" where
  "planes2 f g len b = b\<lparr>num_planes := 2, mp := (mp b)[0 := f (mp b ! 0), 1 := g (mp b ! 1)], frame_len := len\<rparr>"

definition planes3 ::
  "(cam_mp_len_offset \<Rightarrow> cam_mp_len_offset) \<Rightarrow> (cam_mp_len_offset \<Rightarrow> cam_mp_len_offset) \<Rightarrow>
   (cam_mp_len_offset \<Rightarrow> cam_mp_len_offset) \<Rightarrow> u32 \<Rightarrow> cam_frame_len_offset \<Rightarrow> cam_frame_len_offset" where
  "planes3 f g h len b = b\<lparr>num_planes := 3,
    mp := (mp b)[0 := f (mp b ! 0), 1 := g (mp b ! 1), 2 := h (mp b ! 2)], frame_len := len\<rparr>"

section \<open>Preview, postview and video\<close>

text \<open>What the two formats for the display and the codec have in common.\<close>

definition layout_adreno :: "cam_dimension \<Rightarrow> cam_frame_len_offset \<Rightarrow> cam_frame_len_offset" where
  "layout_adreno d b =
    (let w = dim_width d; h = dim_height d; h2 = idiv h 2;
         stride = pad_to_size w 32; scanline = pad_to_size h 32;
         len0 = pad_to_size (stride * scanline) 4096;
         stride1 = pad_to_size (idiv w 2) 32 * 2; scanline1 = pad_to_size h2 32;
         len1 = pad_to_size (stride1 * scanline1) 4096
     in planes2 (plane 0 len0 0 0 stride scanline w h) (plane 0 len1 0 0 stride1 scanline1 w h2)
          (pad_to_size (len0 + len1) 4096) b)"

definition layout_yv12 :: "cam_dimension \<Rightarrow> cam_frame_len_offset \<Rightarrow> cam_frame_len_offset" where
  "layout_yv12 d b =
    (let w = dim_width d; h = dim_height d; w2 = idiv w 2; h2 = idiv h 2;
         stride = pad_to_size w 16; scanline = pad_to_size h 2;
         len0 = stride * scanline;
         stride1 = pad_to_size (idiv stride 2) 16; scanline1 = idiv scanline 2;
         len1 = stride1 * scanline1;
         p = plane 0 len1 0 0 stride1 scanline1 w2 h2
     in planes3 (plane 0 len0 0 0 stride scanline w h) p p (pad_to_size (len0 + len1 + len1) 4096) b)"

definition layout_nv16 :: "cam_dimension \<Rightarrow> cam_frame_len_offset \<Rightarrow> cam_frame_len_offset" where
  "layout_nv16 d b =
    (let w = dim_width d; h = dim_height d;
         stride = pad_to_size w 16; len = stride * h;
         p = plane 0 len 0 0 stride h w h
     in planes2 p p (pad_to_size (len + len) 4096) b)"

definition layout_venus :: "venus \<Rightarrow> cam_dimension \<Rightarrow> cam_frame_len_offset \<Rightarrow> cam_frame_len_offset" where
  "layout_venus V d b =
    (let w = dim_width d; h = dim_height d;
         stride = y_stride V w; scanline = y_scanlines V h;
         frame = buffer_size V w h; len0 = stride * scanline
     in planes2 (plane 0 len0 0 0 stride scanline w h)
          (plane 0 (frame - len0) 0 0 (uv_stride V w) (uv_scanlines V h) w (idiv h 2)) frame b)"

definition calc_offset_preview ::
  "venus option \<Rightarrow> cam_format \<Rightarrow> cam_dimension \<Rightarrow> cam_frame_len_offset \<Rightarrow> int \<times> cam_frame_len_offset" where
  "calc_offset_preview V fmt d b =
    (if fmt \<in> {CAM_FORMAT_YUV_420_NV12, CAM_FORMAT_YUV_420_NV21} then
       let w = dim_width d; h = dim_height d; h2 = idiv h 2;
           stride = pad_to_size w 32; scanline = pad_to_size h 2; len0 = stride * scanline;
           stride1 = pad_to_size w 32; scanline1 = pad_to_size h2 2; len1 = stride1 * scanline1
       in (0, planes2 (plane 0 len0 0 0 stride scanline w h) (plane 0 len1 0 0 stride1 scanline1 w h2)
                (pad_to_size (len0 + len1) 4096) b)
     else if fmt = CAM_FORMAT_YUV_420_NV21_ADRENO then (0, layout_adreno d b)
     else if fmt = CAM_FORMAT_YUV_420_YV12 then (0, layout_yv12 d b)
     else if fmt \<in> {CAM_FORMAT_YUV_422_NV16, CAM_FORMAT_YUV_422_NV61} then (0, layout_nv16 d b)
     else if fmt = CAM_FORMAT_YUV_420_NV12_VENUS then
       (case V of Some v \<Rightarrow> (0, layout_venus v d b) | None \<Rightarrow> (- 1, b))
     else (- 1, b))"

definition calc_offset_post_view ::
  "venus option \<Rightarrow> cam_format \<Rightarrow> cam_dimension \<Rightarrow> cam_frame_len_offset \<Rightarrow> int \<times> cam_frame_len_offset" where
  "calc_offset_post_view V fmt d b =
    (if fmt \<in> {CAM_FORMAT_YUV_420_NV12, CAM_FORMAT_YUV_420_NV21} then
       let w = dim_width d; h = dim_height d; h2 = idiv h 2;
           stride = pad_to_size w 64; scanline = pad_to_size h 64; len0 = stride * scanline;
           stride1 = pad_to_size w 64; scanline1 = pad_to_size h2 64; len1 = stride1 * scanline1
       in (0, planes2 (plane 0 len0 0 0 stride scanline w h) (plane 0 len1 0 0 stride1 scanline1 w h2)
                (pad_to_size (len0 + len1) 4096) b)
     else if fmt = CAM_FORMAT_YUV_420_NV21_ADRENO then (0, layout_adreno d b)
     else if fmt = CAM_FORMAT_YUV_420_YV12 then (0, layout_yv12 d b)
     else if fmt \<in> {CAM_FORMAT_YUV_422_NV16, CAM_FORMAT_YUV_422_NV61} then (0, layout_nv16 d b)
     else if fmt = CAM_FORMAT_YUV_420_NV12_VENUS then
       (case V of Some v \<Rightarrow> (0, layout_venus v d b) | None \<Rightarrow> (- 1, b))
     else (- 1, b))"

definition calc_offset_video :: "venus option \<Rightarrow> cam_dimension \<Rightarrow> cam_frame_len_offset \<Rightarrow> int \<times> cam_frame_len_offset" where
  "calc_offset_video V d b =
    (case V of
       Some v \<Rightarrow> (0, layout_venus v d b)
     | None \<Rightarrow>
         let w = dim_width d; h = dim_height d; h2 = idiv h 2;
             len0 = pad_to_size (w * h) 2048; len1 = pad_to_size (w * h2) 2048
         in (0, planes2 (plane 0 len0 0 0 w h w h) (plane 0 len1 0 0 w h2 w h2)
                  (pad_to_size (len0 + len1) 4096) b))"

section \<open>Snapshot and analysis\<close>

text \<open>The switch that both functions end with, on the same stride, scanline and offsets.\<close>

definition layout_padded :: "cam_format \<Rightarrow> cam_dimension \<Rightarrow> cam_padding_info \<Rightarrow> u32 \<Rightarrow> u32 \<Rightarrow> u32 \<Rightarrow> u32 \<Rightarrow>
    cam_frame_len_offset \<Rightarrow> int \<times> cam_frame_len_offset" where
  "layout_padded fmt d p offset_x offset_y stride scanline b =
    (let w = dim_width d; h = dim_height d; w2 = idiv w 2; h2 = idiv h 2;
         len0 = pad_to_size (stride * scanline) (plane_padding p);
         offset0 = pad_to_size (offset_x + stride * offset_y) (plane_padding p);
         p0 = plane offset0 len0 offset_x offset_y stride scanline w h
     in if fmt \<in> {CAM_FORMAT_YUV_420_NV12, CAM_FORMAT_YUV_420_NV21} then
          let scanline1 = idiv scanline 2;
              len1 = pad_to_size (stride * scanline1) (plane_padding p)
          in (0, planes2 p0 (plane offset0 len1 offset_x offset_y stride scanline1 w h2)
                   (pad_to_size (len0 + len1) 4096) b)
        else if fmt = CAM_FORMAT_YUV_420_YV12 then
          let stride1 = pad_to_size (idiv stride 2) 16; scanline1 = idiv scanline 2;
              offset1 = pad_to_size (offset_x + stride1 * offset_y) (plane_padding p);
              len1 = pad_to_size (stride1 * scanline1) (plane_padding p);
              p1 = plane offset1 len1 offset_x offset_y stride1 scanline1 w2 h2
          in (0, planes3 p0 p1 p1 (pad_to_size (len0 + len1 + len1) 4096) b)
        else if fmt \<in> {CAM_FORMAT_YUV_422_NV16, CAM_FORMAT_YUV_422_NV61} then
          (0, planes2 p0 p0 (pad_to_size (len0 + len0) 4096) b)
        else (- 1, b))"

definition calc_offset_snapshot :: "bool \<Rightarrow> cam_format \<Rightarrow> cam_dimension \<Rightarrow> cam_padding_info \<Rightarrow>
    cam_frame_len_offset \<Rightarrow> int \<times> cam_frame_len_offset" where
  "calc_offset_snapshot isAFamily fmt d p b =
    (if isAFamily then
       let scanline = pad_to_size (dim_height d) 16;
           offset_y = scanline - dim_height d
       in layout_padded fmt d p 0 offset_y (dim_width d) (scanline + offset_y) b
     else
       layout_padded fmt d p 0 0 (pad_to_size (dim_width d) (width_padding p))
         (pad_to_size (dim_height d) (height_padding p)) b)"

definition calc_offset_analysis ::
  "cam_format \<Rightarrow> cam_dimension \<Rightarrow> cam_padding_info \<Rightarrow> cam_frame_len_offset \<Rightarrow> int \<times> cam_frame_len_offset" where
  "calc_offset_analysis fmt d p b =
    (let stride = (if dim_width d < min_stride p then min_stride p else dim_width d);
         scanline = (if dim_height d < min_scanline p then min_scanline p else dim_height d)
     in layout_padded fmt d p 0 0 (pad_to_size stride (width_padding p))
          (pad_to_size scanline (height_padding p)) b)"

section \<open>Raw frames\<close>

definition raw_yuyv :: "cam_format \<Rightarrow> bool" where
  "raw_yuyv fmt = (case fmt of
       CAM_FORMAT_YUV_RAW_8BIT_YUYV \<Rightarrow> True
     | CAM_FORMAT_YUV_RAW_8BIT_YVYU \<Rightarrow> True
     | CAM_FORMAT_YUV_RAW_8BIT_UYVY \<Rightarrow> True
     | CAM_FORMAT_YUV_RAW_8BIT_VYUY \<Rightarrow> True
     | CAM_FORMAT_JPEG_RAW_8BIT \<Rightarrow> True
     | _ \<Rightarrow> False)"

definition raw_8bpp :: "cam_format \<Rightarrow> bool" where
  "raw_8bpp fmt = (case fmt of
       CAM_FORMAT_BAYER_QCOM_RAW_8BPP _ \<Rightarrow> True
     | CAM_FORMAT_BAYER_MIPI_RAW_8BPP _ \<Rightarrow> True
     | CAM_FORMAT_BAYER_IDEAL_RAW_QCOM_8BPP _ \<Rightarrow> True
     | CAM_FORMAT_BAYER_IDEAL_RAW_MIPI_8BPP _ \<Rightarrow> True
     | CAM_FORMAT_BAYER_IDEAL_RAW_PLAIN8_8BPP _ \<Rightarrow> True
     | _ \<Rightarrow> False)"

definition raw_qcom_10bpp :: "cam_format \<Rightarrow> bool" where
  "raw_qcom_10bpp fmt = (case fmt of
       CAM_FORMAT_BAYER_QCOM_RAW_10BPP _ \<Rightarrow> True
     | CAM_FORMAT_BAYER_IDEAL_RAW_QCOM_10BPP _ \<Rightarrow> True
     | _ \<Rightarrow> False)"

definition raw_qcom_12bpp :: "cam_format \<Rightarrow> bool" where
  "raw_qcom_12bpp fmt = (case fmt of
       CAM_FORMAT_BAYER_QCOM_RAW_12BPP _ \<Rightarrow> True
     | CAM_FORMAT_BAYER_IDEAL_RAW_QCOM_12BPP _ \<Rightarrow> True
     | _ \<Rightarrow> False)"

definition raw_mipi_10bpp :: "cam_format \<Rightarrow> bool" where
  "raw_mipi_10bpp fmt = (case fmt of
       CAM_FORMAT_BAYER_MIPI_RAW_10BPP _ \<Rightarrow> True
     | CAM_FORMAT_BAYER_IDEAL_RAW_MIPI_10BPP _ \<Rightarrow> True
     | _ \<Rightarrow> False)"

definition raw_mipi_12bpp :: "cam_format \<Rightarrow> bool" where
  "raw_mipi_12bpp fmt = (case fmt of
       CAM_FORMAT_BAYER_MIPI_RAW_12BPP _ \<Rightarrow> True
     | CAM_FORMAT_BAYER_IDEAL_RAW_MIPI_12BPP _ \<Rightarrow> True
     | _ \<Rightarrow> False)"

definition raw_plain16 :: "cam_format \<Rightarrow> bool" where
  "raw_plain16 fmt = (case fmt of
       CAM_FORMAT_BAYER_IDEAL_RAW_PLAIN16_8BPP _ \<Rightarrow> True
     | CAM_FORMAT_BAYER_IDEAL_RAW_PLAIN16_10BPP _ \<Rightarrow> True
     | CAM_FORMAT_BAYER_IDEAL_RAW_PLAIN16_12BPP _ \<Rightarrow> True
     | _ \<Rightarrow> False)"

text \<open>The stride of a raw format in pixels and in bytes.\<close>

definition raw_line :: "cam_format \<Rightarrow> u32 \<Rightarrow> (u32 \<times> u32) option" where
  "raw_line fmt w =
    (if raw_yuyv fmt \<or> fmt = CAM_FORMAT_META_RAW_8BIT then
       let stride = pad_to_size w 16 in Some (stride, stride * 2)
     else if raw_8bpp fmt then
       let stride = pad_to_size w 16 in Some (stride, stride)
     else if raw_qcom_10bpp fmt then
       let stride = idiv (w + 11) 12 * 12 in Some (stride, idiv (stride * 8) 6)
     else if raw_qcom_12bpp fmt then
       let stride = idiv (w + 9) 10 * 10 in Some (stride, idiv (stride * 8) 5)
     else if raw_mipi_10bpp fmt then
       let stride = pad_to_size w 4 in Some (stride, pad_to_size (idiv (stride * 5) 4) 8)
     else if raw_mipi_12bpp fmt then
       let stride = pad_to_size w 32 in Some (stride, idiv (stride * 3) 2)
     else if raw_plain16 fmt then
       let stride = pad_to_size w 8 in Some (stride, stride * 2)
     else None)"

text \<open>The one plane of a raw format; a buffer of raw metadata keeps its width and height.\<close>

definition raw_plane :: "bool \<Rightarrow> u32 \<Rightarrow> u32 \<Rightarrow> u32 \<Rightarrow> cam_padding_info \<Rightarrow> cam_frame_len_offset \<Rightarrow> cam_frame_len_offset" where
  "raw_plane sized stride stride_in_bytes scanline p b =
    (let len = pad_to_size (stride_in_bytes * scanline) (plane_padding p);
         m = (mp b ! 0)\<lparr>mp_offset := 0, mp_len := len, mp_offset_x := 0, mp_offset_y := 0, mp_stride := stride,
               mp_stride_in_bytes := stride_in_bytes, mp_scanline := scanline\<rparr>
     in b\<lparr>num_planes := 1, frame_len := pad_to_size len 4096,
           mp := (mp b)[0 := if sized then m\<lparr>mp_width := len, mp_height := 1\<rparr> else m]\<rparr>)"

definition calc_offset_raw ::
  "cam_format \<Rightarrow> cam_dimension \<Rightarrow> cam_padding_info \<Rightarrow> cam_frame_len_offset \<Rightarrow> int \<times> cam_frame_len_offset" where
  "calc_offset_raw fmt d p b =
    (let w = dim_width d; h = dim_height d;
         stride = pad_to_size w (width_padding p);
         scanline = pad_to_size h (height_padding p)
     in if fmt = CAM_FORMAT_YUV_420_NV21 then
          let len0 = pad_to_size (stride * scanline) (plane_padding p);
              scanline1 = idiv scanline 2;
              len1 = pad_to_size (stride * scanline1) (plane_padding p)
          in (0, planes2
                ((\<lambda>m. m\<lparr>mp_stride_in_bytes := stride\<rparr>) \<circ> plane 0 len0 0 0 stride scanline w h)
                ((\<lambda>m. m\<lparr>mp_stride_in_bytes := stride\<rparr>) \<circ> plane 0 len1 0 0 stride scanline1 w (idiv h 2))
                (pad_to_size (len0 + len1) 4096) b)
        else
          (case raw_line fmt w of
             Some (stride, bytes) \<Rightarrow>
               (0, raw_plane (fmt \<noteq> CAM_FORMAT_META_RAW_8BIT) stride bytes scanline p b)
           | None \<Rightarrow> (- 1, b)))"

section \<open>Metadata, reprocessing, and the choice by stream type\<close>

definition calc_offset_metadata :: "cam_dimension \<Rightarrow> cam_padding_info \<Rightarrow> cam_frame_len_offset \<Rightarrow> int \<times> cam_frame_len_offset" where
  "calc_offset_metadata d p b =
    (let w = dim_width d; h = dim_height d;
         len = pad_to_size (w * h) (plane_padding p)
     in (0, b\<lparr>num_planes := 1, mp := (mp b)[0 := plane 0 len 0 0 w h w h (mp b ! 0)], frame_len := len\<rparr>))"

datatype rotation = ROTATE_0 | ROTATE_90 | ROTATE_180 | ROTATE_270

text \<open>The configuration of a reprocessing stream: offline with the type and the layout of its input, or online.\<close>

datatype reprocess = Offline cam_stream_type cam_frame_len_offset | Online cam_stream_type

record cam_stream_info =
  stream_type :: cam_stream_type
  stream_fmt :: cam_format
  stream_dim :: cam_dimension
  buf_planes :: cam_frame_len_offset
  has_rotation :: bool
  stream_rotation :: rotation
  reprocess_config :: reprocess

definition calc_by_type :: "venus option \<Rightarrow> bool \<Rightarrow> cam_stream_type \<Rightarrow> cam_format \<Rightarrow> cam_dimension \<Rightarrow> cam_padding_info \<Rightarrow>
    cam_frame_len_offset \<Rightarrow> int \<times> cam_frame_len_offset" where
  "calc_by_type V isAFamily type fmt d p b =
    (case type of
       CAM_STREAM_TYPE_PREVIEW \<Rightarrow> calc_offset_preview V fmt d b
     | CAM_STREAM_TYPE_CALLBACK \<Rightarrow> calc_offset_preview V fmt d b
     | CAM_STREAM_TYPE_POSTVIEW \<Rightarrow> calc_offset_post_view V fmt d b
     | CAM_STREAM_TYPE_SNAPSHOT \<Rightarrow> calc_offset_snapshot isAFamily fmt d p b
     | CAM_STREAM_TYPE_VIDEO \<Rightarrow> calc_offset_video V d b
     | CAM_STREAM_TYPE_RAW \<Rightarrow> calc_offset_raw fmt d p b
     | CAM_STREAM_TYPE_ANALYSIS \<Rightarrow> calc_offset_analysis fmt d p b
     | CAM_STREAM_TYPE_METADATA \<Rightarrow> calc_offset_metadata d p b
     | _ \<Rightarrow> (- 1, b))"

definition calc_offset_postproc :: "venus option \<Rightarrow> bool \<Rightarrow> cam_stream_info \<Rightarrow> cam_padding_info \<Rightarrow>
    cam_frame_len_offset \<Rightarrow> int \<times> cam_frame_len_offset" where
  "calc_offset_postproc V isAFamily si p b =
    (case reprocess_config si of
       Offline CAM_STREAM_TYPE_DEFAULT input_planes \<Rightarrow>
         if frame_len b = 0 then (0, input_planes)
         else calc_by_type V isAFamily CAM_STREAM_TYPE_DEFAULT (stream_fmt si) (stream_dim si) p b
     | r \<Rightarrow>
         let type = (case r of Offline t _ \<Rightarrow> t | Online t \<Rightarrow> t)
         in if type = CAM_STREAM_TYPE_OFFLINE_PROC
            then calc_offset_snapshot isAFamily (stream_fmt si) (stream_dim si) p b
            else calc_by_type V isAFamily type (stream_fmt si) (stream_dim si) p b)"

text \<open>The size that is laid out: rotated, but not for video.\<close>

definition rotated_dim :: "cam_stream_info \<Rightarrow> cam_dimension" where
  "rotated_dim si =
    (if has_rotation si \<and> stream_type si \<noteq> CAM_STREAM_TYPE_VIDEO \<and> stream_rotation si \<in> {ROTATE_90, ROTATE_270}
     then \<lparr>dim_width = dim_height (stream_dim si), dim_height = dim_width (stream_dim si)\<rparr>
     else stream_dim si)"

text \<open>The layout goes to the stream's information and, as the frame offset, to the stream itself.\<close>

definition calc_offset :: "venus option \<Rightarrow> bool \<Rightarrow> cam_padding_info \<Rightarrow> cam_stream_info \<Rightarrow>
    int \<times> cam_frame_len_offset \<times> cam_stream_info" where
  "calc_offset V isAFamily p si =
    (let (rc, b) = (if stream_type si = CAM_STREAM_TYPE_OFFLINE_PROC
                    then calc_offset_postproc V isAFamily si p (buf_planes si)
                    else calc_by_type V isAFamily (stream_type si) (stream_fmt si) (rotated_dim si) p (buf_planes si))
     in (rc, b, si\<lparr>buf_planes := b\<rparr>))"

end
