(* ===== verification/CamLayoutProps.thy ===== *)
theory CamLayoutProps
  imports CamLayout
begin

text \<open>
  A buffer holds the frame that is laid out in it: each plane has lines as long as the pixels need
  and as many as there are, and all planes together are within the frame.
\<close>

section \<open>Padding\<close>

definition is_pad :: "u32 \<Rightarrow> bool" where
  "is_pad p \<longleftrightarrow> (\<exists>k < 13. p = 2 ^ k)"

lemma unat_pow2: "k < 32 \<Longrightarrow> unat (2 ^ k :: u32) = 2 ^ k"
proof -
  assume "k < 32"
  then have "(2::nat) ^ k < 2 ^ 32" by (intro power_strict_increasing) simp_all
  then show ?thesis by (simp add: unat_of_nat [of "2 ^ k", where 'a = 32, simplified])
qed

lemma and_not_mask: "(x :: u32) AND NOT (mask k) = push_bit k (drop_bit k x)"
  by (rule bit_word_eqI) (auto simp: bit_simps)

lemma pad_div:
  assumes "k < 32" "unat x + 2 ^ k \<le> 2 ^ 32"
  shows "unat (pad_to_size x (2 ^ k)) = (unat x + (2 ^ k - 1)) div 2 ^ k * 2 ^ k"
proof -
  let ?y = "x + (2 ^ k - 1)"
  have "unat (2 ^ k - 1 :: u32) = 2 ^ k - 1"
    using unat_pow2 [OF assms(1)] by (simp add: unat_sub word_le_nat_alt)
  then have y: "unat ?y = unat x + (2 ^ k - 1)"
    using assms(2) by (simp add: unat_add_lem [THEN iffD1])
  have "pad_to_size x (2 ^ k) = push_bit k (drop_bit k ?y)"
    unfolding pad_to_size_def by (simp add: and_not_mask [symmetric] mask_eq_exp_minus_1)
  also have "unat (push_bit k (drop_bit k ?y)) = take_bit 32 (push_bit k (drop_bit k (unat ?y)))"
    using unsigned_less [of ?y, where 'a = nat]
    by (simp add: unsigned_push_bit_eq unsigned_drop_bit_eq take_bit_nat_eq_self)
  also have "\<dots> = take_bit 32 (unat ?y div 2 ^ k * 2 ^ k)" by (simp only: push_bit_eq_mult drop_bit_eq_div)
  also have "\<dots> = unat ?y div 2 ^ k * 2 ^ k"
  proof (rule take_bit_nat_eq_self)
    have "unat ?y div 2 ^ k * 2 ^ k \<le> unat ?y" by (rule div_times_less_eq_dividend)
    also have "unat ?y < 2 ^ 32" using unsigned_less [of ?y, where 'a = nat] by simp
    finally show "unat ?y div 2 ^ k * 2 ^ k < 2 ^ 32" .
  qed
  finally show ?thesis by (simp only: y)
qed

lemma pad_bounds:
  assumes "is_pad p" "unat x \<le> 4000000000"
  shows "unat x \<le> unat (pad_to_size x p)" "unat (pad_to_size x p) < unat x + unat p"
    "unat (pad_to_size x p) mod unat p = 0" "unat p \<le> 4096"
proof -
  obtain k where k: "k < 13" "p = 2 ^ k" using assms(1) by (auto simp: is_pad_def)
  have p: "unat p = 2 ^ k" using k by (simp add: unat_pow2)
  have "(2 :: nat) ^ k \<le> 2 ^ 12" using k by (intro power_increasing) auto
  then show le: "unat p \<le> 4096" by (simp add: p)
  define n where "n = unat x"
  have d: "unat (pad_to_size x p) = (n + (2 ^ k - 1)) div 2 ^ k * 2 ^ k"
    unfolding k(2) n_def using assms(2) le p k(1) by (intro pad_div) auto
  have "(n + (2 ^ k - 1)) div 2 ^ k * 2 ^ k + (n + (2 ^ k - 1)) mod 2 ^ k = n + (2 ^ k - 1)"
    by (rule div_mult_mod_eq)
  moreover have "(n + (2 ^ k - 1)) mod 2 ^ k < (2 :: nat) ^ k" by simp
  moreover have "(0 :: nat) < 2 ^ k" by simp
  ultimately show "unat x \<le> unat (pad_to_size x p)" "unat (pad_to_size x p) < unat x + unat p"
    unfolding d p n_def [symmetric] by linarith+
  show "unat (pad_to_size x p) mod unat p = 0" by (simp add: d p)
qed

lemma pads [simp]: "is_pad 2" "is_pad 4" "is_pad 8" "is_pad 16" "is_pad 32" "is_pad 64" "is_pad 2048" "is_pad 4096"
proof -
  have "is_pad (2 ^ k)" if "k < 13" for k using that by (auto simp: is_pad_def)
  from this [of 1] this [of 2] this [of 3] this [of 4] this [of 5] this [of 6] this [of 11] this [of 12]
  show "is_pad 2" "is_pad 4" "is_pad 8" "is_pad 16" "is_pad 32" "is_pad 64" "is_pad 2048" "is_pad 4096"
    by simp_all
qed

section \<open>Arithmetic\<close>

lemma sdiv_nat: "int m sdiv int n = int (m div n)"
  by (simp add: signed_divide_int_def zdiv_int sgn_if)

lemma idiv_nat:
  assumes "unat a < 2 ^ 31" "unat b < 2 ^ 31"
  shows "unat (idiv a b) = unat a div unat b"
proof -
  have s: "sint c = int (unat c)" if "unat c < 2 ^ 31" for c :: u32
  proof -
    have i: "uint c = int (unat c)" by simp
    have "int (unat c) < int (2 ^ 31)" using that by (simp only: of_nat_less_iff)
    then have less: "uint c < 2 ^ 31" by simp
    have "- (2 ^ 31) \<le> (0 :: int)" by simp
    also have "0 \<le> uint c" by simp
    finally have "- (2 ^ 31) \<le> uint c" .
    with less have "signed_take_bit 31 (uint c) = uint c" by (intro signed_take_bit_int_eq_self)
    moreover have "LENGTH(32) - Suc 0 = 31" by simp
    ultimately have "sint c = uint c" using sint_uint [of c] by (simp only:)
    then show ?thesis by (simp only: i)
  qed
  have "sint a sdiv sint b = int (unat a div unat b)"
    unfolding s [OF assms(1)] s [OF assms(2)] by (rule sdiv_nat)
  moreover have "unat a div unat b < 2 ^ 32"
    using le_less_trans [OF div_le_dividend unsigned_less [of a]] by simp
  ultimately show ?thesis by (simp add: idiv_def unat_of_nat)
qed

lemma times_nat:
  assumes "unat a \<le> A" "unat b \<le> B" "A * B < 2 ^ 32"
  shows "unat (a * b :: u32) = unat a * unat b \<and> unat a * unat b \<le> A * B"
proof -
  have "unat a * unat b \<le> A * B" using assms(1,2) by (rule mult_le_mono)
  then show ?thesis using assms(3) by (simp add: unat_mult_lem [THEN iffD1])
qed


section \<open>What a layout must give\<close>

definition max_dim :: nat where
  "max_dim = 16384"

definition dim_ok :: "cam_dimension \<Rightarrow> bool" where
  "dim_ok d \<longleftrightarrow> unat (dim_width d) \<le> max_dim \<and> unat (dim_height d) \<le> max_dim"

definition padding_ok :: "cam_padding_info \<Rightarrow> bool" where
  "padding_ok p \<longleftrightarrow> is_pad (width_padding p) \<and> is_pad (height_padding p) \<and> is_pad (plane_padding p) \<and>
    unat (min_stride p) \<le> max_dim \<and> unat (min_scanline p) \<le> max_dim"

text \<open>
  A plane has room for an image of \<open>h\<close> lines of \<open>w\<close> bytes that starts at its offset; \<open>line\<close> reads the
  bytes from one line to the next.
\<close>

definition plane_fits :: "(cam_mp_len_offset \<Rightarrow> u32) \<Rightarrow> nat \<times> nat \<Rightarrow> cam_mp_len_offset \<Rightarrow> bool" where
  "plane_fits line s m \<longleftrightarrow> fst s \<le> unat (line m) \<and> snd s \<le> unat (mp_scanline m) \<and>
    unat (line m) * unat (mp_scanline m) \<le> unat (mp_len m) \<and>
    unat (mp_offset m) + unat (line m) * snd s \<le> unat (mp_len m)"

definition lens :: "cam_frame_len_offset \<Rightarrow> nat" where
  "lens b = (\<Sum>k < unat (num_planes b). unat (mp_len (mp b ! k)))"

definition layout_ok :: "(cam_mp_len_offset \<Rightarrow> u32) \<Rightarrow> (nat \<times> nat) list \<Rightarrow> cam_frame_len_offset \<Rightarrow> bool" where
  "layout_ok line sizes b \<longleftrightarrow> unat (num_planes b) = length sizes \<and> lens b \<le> unat (frame_len b) \<and>
    (\<forall>k < length sizes. plane_fits line (sizes ! k) (mp b ! k))"

lemma sum_below: "(\<Sum>k < (2 :: nat). f k) = f 0 + (f 1 :: nat)" "(\<Sum>k < (3 :: nat). f k) = f 0 + f 1 + (f 2 :: nat)"
  by (simp_all add: numeral_2_eq_2 numeral_3_eq_3)

lemma below: "k < 2 \<longleftrightarrow> k = 0 \<or> k = (1 :: nat)" "k < 3 \<longleftrightarrow> k = 0 \<or> k = 1 \<or> k = (2 :: nat)"
  by auto

lemma layout_planes1:
  assumes "num_planes b = 1" "plane_fits line s (mp b ! 0)" "unat (mp_len (mp b ! 0)) \<le> unat (frame_len b)"
  shows "layout_ok line [s] b"
  using assms by (simp add: layout_ok_def lens_def)

lemma layout_planes2:
  assumes "length (mp b) = 8" "plane_fits line s (f (mp b ! 0))" "plane_fits line t (g (mp b ! 1))"
    "unat (mp_len (f (mp b ! 0))) + unat (mp_len (g (mp b ! 1))) \<le> unat len"
  shows "layout_ok line [s, t] (planes2 f g len b)"
proof -
  have n: "num_planes (planes2 f g len b) = 2" "unat (2 :: u32) = 2" "length [s, t] = 2" by (simp_all add: planes2_def)
  have m: "mp (planes2 f g len b) ! 0 = f (mp b ! 0)" "mp (planes2 f g len b) ! 1 = g (mp b ! 1)"
    using assms(1) by (simp_all add: planes2_def)
  show ?thesis unfolding layout_ok_def lens_def n sum_below m
    using assms m by (auto simp: below planes2_def)
qed

lemma layout_planes3:
  assumes "length (mp b) = 8" "plane_fits line s (f (mp b ! 0))" "plane_fits line t (g (mp b ! 1))"
    "plane_fits line u (h (mp b ! 2))"
    "unat (mp_len (f (mp b ! 0))) + unat (mp_len (g (mp b ! 1))) + unat (mp_len (h (mp b ! 2))) \<le> unat len"
  shows "layout_ok line [s, t, u] (planes3 f g h len b)"
proof -
  have n: "num_planes (planes3 f g h len b) = 3" "unat (3 :: u32) = 3" "length [s, t, u] = 3"
    by (simp_all add: planes3_def)
  have m: "mp (planes3 f g h len b) ! 0 = f (mp b ! 0)" "mp (planes3 f g h len b) ! 1 = g (mp b ! 1)"
    "mp (planes3 f g h len b) ! 2 = h (mp b ! 2)"
    using assms(1) by (simp_all add: planes3_def)
  show ?thesis unfolding layout_ok_def lens_def n sum_below m
    using assms m by (auto simp: below planes3_def)
qed

section \<open>Planes\<close>

definition small :: "u32 \<Rightarrow> bool" where
  "small x \<longleftrightarrow> unat x \<le> 20480"

lemma small_dim [simp]: "unat x \<le> max_dim \<Longrightarrow> small x"
  by (simp add: small_def max_dim_def)

lemma pad_small:
  assumes "is_pad p" "unat x \<le> max_dim"
  shows "small (pad_to_size x p)" "unat x \<le> unat (pad_to_size x p)"
  using assms pad_bounds [of p x] by (simp_all add: small_def max_dim_def)

lemma idiv2: "unat x \<le> 20480 \<Longrightarrow> unat (idiv x 2) = unat x div 2"
  by (rule trans [OF idiv_nat]) simp_all

lemma idiv2_dim:
  "unat x \<le> max_dim \<Longrightarrow> unat (idiv x 2) = unat x div 2 \<and> unat (idiv x 2) \<le> max_dim"
  by (simp add: idiv2 max_dim_def)

lemma idiv2_small: "small x \<Longrightarrow> unat (idiv x 2) = unat x div 2 \<and> small (idiv x 2)"
  by (simp add: idiv2 small_def)

definition max_len :: nat where
  "max_len = 838864896"

lemma times_small:
  assumes "small x" "small y"
  shows "unat (x * y) = unat x * unat y" "unat (x * y) \<le> 419430400"
  using times_nat [of x 20480 y 20480] assms by (simp_all add: small_def)

lemma pad_len:
  assumes "is_pad p" "unat x \<le> 838860800"
  shows "unat x \<le> unat (pad_to_size x p)" "unat (pad_to_size x p) \<le> max_len"
  using assms pad_bounds [of p x] by (simp_all add: max_len_def)

definition plane_good :: "(cam_mp_len_offset \<Rightarrow> u32) \<Rightarrow> nat \<times> nat \<Rightarrow> cam_mp_len_offset \<Rightarrow> bool" where
  "plane_good line s m \<longleftrightarrow> plane_fits line s m \<and> unat (mp_len m) \<le> max_len"

lemma plane_goodI:
  assumes "w \<le> unat st" "h \<le> unat sl" "small st" "small sl" "unat (st * sl) \<le> unat len" "unat len \<le> max_len"
    "unat off + unat st * h \<le> unat len"
  shows "plane_good mp_stride (w, h) (plane off len x y st sl pw ph m)"
  using assms times_small [OF assms(3,4)] by (simp add: plane_good_def plane_fits_def plane_def)

lemma plane_good_exact:
  assumes "w \<le> unat st" "h \<le> unat sl" "small st" "small sl"
  shows "plane_good mp_stride (w, h) (plane 0 (st * sl) x y st sl pw ph m)"
proof -
  note t = times_small [OF assms(3,4)]
  have "unat st * h \<le> unat st * unat sl" using assms(2) by (rule mult_le_mono2)
  then show ?thesis using assms t by (intro plane_goodI) (simp_all add: max_len_def)
qed

lemma plane_good_padded:
  assumes "w \<le> unat st" "h \<le> unat sl" "small st" "small sl" "is_pad p"
  shows "plane_good mp_stride (w, h) (plane 0 (pad_to_size (st * sl) p) x y st sl pw ph m)"
proof -
  note t = times_small [OF assms(3,4)]
  have "unat (st * sl) \<le> 838860800" using t(2) by simp
  note l = pad_len [OF assms(5) this]
  have "unat st * h \<le> unat st * unat sl" using assms(2) by (rule mult_le_mono2)
  also have "\<dots> \<le> unat (pad_to_size (st * sl) p)" using l(1) t(1) by simp
  finally have "unat (0 :: u32) + unat st * h \<le> unat (pad_to_size (st * sl) p)" by (simp only: unsigned_0 add_0)
  with assms l show ?thesis by (intro plane_goodI)
qed

lemma plane_len [simp]: "mp_len (plane off len x y st sl pw ph m) = len"
  by (simp add: plane_def)

lemma good_two:
  assumes "length (mp b) = 8" "plane_good line s (f (mp b ! 0))" "plane_good line t (g (mp b ! 1))"
    "len = pad_to_size (mp_len (f (mp b ! 0)) + mp_len (g (mp b ! 1))) 4096"
  shows "layout_ok line [s, t] (planes2 f g len b)"
proof (rule layout_planes2 [OF assms(1)])
  let ?x = "mp_len (f (mp b ! 0))" and ?y = "mp_len (g (mp b ! 1))"
  have "unat ?x \<le> max_len" "unat ?y \<le> max_len" using assms(2,3) by (simp_all add: plane_good_def)
  then have "unat (?x + ?y) = unat ?x + unat ?y" "unat ?x + unat ?y \<le> 2 * max_len"
    by (simp_all add: unat_add_lem [THEN iffD1] max_len_def)
  then show "unat ?x + unat ?y \<le> unat len"
    using pad_bounds(1) [of 4096 "?x + ?y"] by (simp add: assms(4) max_len_def)
qed (use assms in \<open>simp_all add: plane_good_def\<close>)

lemma good_three:
  assumes "length (mp b) = 8" "plane_good line s (f (mp b ! 0))" "plane_good line t (g (mp b ! 1))" "plane_good line u (h (mp b ! 2))"
    "len = pad_to_size (mp_len (f (mp b ! 0)) + mp_len (g (mp b ! 1)) + mp_len (h (mp b ! 2))) 4096"
  shows "layout_ok line [s, t, u] (planes3 f g h len b)"
proof (rule layout_planes3 [OF assms(1)])
  let ?x = "mp_len (f (mp b ! 0))" and ?y = "mp_len (g (mp b ! 1))" and ?z = "mp_len (h (mp b ! 2))"
  have l: "unat ?x \<le> max_len" "unat ?y \<le> max_len" "unat ?z \<le> max_len" using assms(2-4) by (simp_all add: plane_good_def)
  then have "unat (?x + ?y) = unat ?x + unat ?y"
    by (simp add: unat_add_lem [THEN iffD1] max_len_def)
  then have "unat (?x + ?y + ?z) = unat ?x + unat ?y + unat ?z" using l
    by (simp add: unat_add_lem [THEN iffD1] max_len_def)
  then show "unat ?x + unat ?y + unat ?z \<le> unat len"
    using l pad_bounds(1) [of 4096 "?x + ?y + ?z"] by (simp add: assms(5) max_len_def)
qed (use assms in \<open>simp_all add: plane_good_def\<close>)

section \<open>Each layout\<close>

lemma dims: "dim_ok d \<Longrightarrow> unat (dim_width d) \<le> max_dim" "dim_ok d \<Longrightarrow> unat (dim_height d) \<le> max_dim"
  by (simp_all add: dim_ok_def)

text \<open>A chroma line has a pair of samples for every two pixels, in one plane or in two.\<close>

definition semi_planar :: "cam_dimension \<Rightarrow> (nat \<times> nat) list" where
  "semi_planar d = (let w = unat (dim_width d); h = unat (dim_height d) in [(w, h), (w div 2 * 2, h div 2)])"

definition planar :: "cam_dimension \<Rightarrow> (nat \<times> nat) list" where
  "planar d = (let w = unat (dim_width d); h = unat (dim_height d) in [(w, h), (w div 2, h div 2), (w div 2, h div 2)])"

definition full_chroma :: "cam_dimension \<Rightarrow> (nat \<times> nat) list" where
  "full_chroma d = (let w = unat (dim_width d); h = unat (dim_height d) in [(w, h), (w, h)])"

lemma pad_dims:
  assumes "dim_ok d" "is_pad p"
  shows "unat (dim_width d) \<le> unat (pad_to_size (dim_width d) p)" "small (pad_to_size (dim_width d) p)"
    "unat (dim_height d) \<le> unat (pad_to_size (dim_height d) p)" "small (pad_to_size (dim_height d) p)"
    "unat (dim_height d) div 2 \<le> unat (pad_to_size (idiv (dim_height d) 2) p)"
    "small (pad_to_size (idiv (dim_height d) 2) p)"
proof -
  note w = dims(1) [OF assms(1)] and h = dims(2) [OF assms(1)]
  note h2 = idiv2_dim [OF h]
  show "unat (dim_width d) \<le> unat (pad_to_size (dim_width d) p)" "small (pad_to_size (dim_width d) p)"
    using pad_small [OF assms(2) w] by simp_all
  show "unat (dim_height d) \<le> unat (pad_to_size (dim_height d) p)" "small (pad_to_size (dim_height d) p)"
    using pad_small [OF assms(2) h] by simp_all
  show "unat (dim_height d) div 2 \<le> unat (pad_to_size (idiv (dim_height d) 2) p)"
    "small (pad_to_size (idiv (dim_height d) 2) p)"
    using pad_small [OF assms(2) conjunct2 [OF h2]] conjunct1 [OF h2] by simp_all
qed

lemma pairs:
  assumes "dim_ok d" "is_pad p"
  shows "unat (dim_width d) div 2 * 2 \<le> unat (pad_to_size (dim_width d) p)"
  by (rule le_trans [OF div_times_less_eq_dividend pad_dims(1) [OF assms]])

lemma half_lines:
  assumes "dim_ok d" "is_pad p"
  defines "s \<equiv> idiv (pad_to_size (dim_height d) p) 2"
  shows "unat (dim_height d) div 2 \<le> unat s" "small s"
proof -
  note h = pad_dims(3,4) [OF assms(1,2)]
  show "unat (dim_height d) div 2 \<le> unat s" "small s"
    using idiv2_small [OF h(2)] div_le_mono [OF h(1), of 2] by (simp_all add: s_def)
qed

lemma dims_small:
  assumes "dim_ok d"
  shows "small (dim_width d)" "small (dim_height d)"
  using dims [OF assms] by simp_all

lemma nv16_layout:
  assumes "dim_ok d" "length (mp b) = 8"
  shows "layout_ok mp_stride (full_chroma d) (layout_nv16 d b)"
  unfolding full_chroma_def layout_nv16_def Let_def
  by (intro good_two plane_good_exact assms pad_dims pads dims_small order_refl) (simp only: plane_len)

lemma chroma_stride:
  assumes "unat w \<le> max_dim" "is_pad p"
  defines "c \<equiv> pad_to_size (idiv (pad_to_size w p) 2) 16"
  shows "unat w div 2 \<le> unat c" "small c"
proof -
  let ?s = "pad_to_size w p"
  have s: "unat w \<le> unat ?s" "unat ?s < 16384 + 4096"
    using assms(1) pad_bounds [OF assms(2), of w] by (simp_all add: max_dim_def)
  then have "unat (idiv ?s 2) = unat ?s div 2" by (intro idiv2) linarith
  moreover have "unat w div 2 \<le> unat ?s div 2" using s(1) by (rule div_le_mono)
  moreover have "unat ?s div 2 \<le> 16384" using s(2) by linarith
  ultimately have h: "unat w div 2 \<le> unat (idiv ?s 2)" "unat (idiv ?s 2) \<le> max_dim" by (simp_all add: max_dim_def)
  show "unat w div 2 \<le> unat c" "small c"
    using le_trans [OF h(1) pad_small(2) [OF pads(4) h(2)]] pad_small(1) [OF pads(4) h(2)] by (simp_all only: c_def)
qed

lemma yv12_layout:
  assumes "dim_ok d" "length (mp b) = 8"
  shows "layout_ok mp_stride (planar d) (layout_yv12 d b)"
  unfolding planar_def layout_yv12_def Let_def
  by (intro good_three plane_good_exact assms pad_dims pads half_lines chroma_stride dims) (simp only: plane_len)

lemma adreno_stride:
  assumes "unat w \<le> max_dim"
  defines "c \<equiv> pad_to_size (idiv w 2) 32 * 2"
  shows "unat w div 2 * 2 \<le> unat c" "small c"
proof -
  let ?c = "pad_to_size (idiv w 2) 32"
  have "unat (idiv w 2) = unat w div 2" "unat w div 2 \<le> 8192"
    using idiv2_dim [OF assms(1)] assms(1) by (simp_all add: max_dim_def)
  then have c: "unat w div 2 \<le> unat ?c" "unat ?c \<le> 8224"
    using pad_bounds [of 32 "idiv w 2"] by simp_all
  then have "unat (?c * 2) = unat ?c * 2" using times_nat [of ?c 8224 2 2] by simp
  then show "unat w div 2 * 2 \<le> unat c" "small c" using c by (simp_all add: c_def small_def)
qed

lemma adreno_layout:
  assumes "dim_ok d" "length (mp b) = 8"
  shows "layout_ok mp_stride (semi_planar d) (layout_adreno d b)"
  unfolding semi_planar_def layout_adreno_def Let_def
  by (intro good_two plane_good_padded assms pad_dims pads pairs adreno_stride dims) (simp only: plane_len)

lemma nv12_layout:
  assumes "dim_ok d" "length (mp b) = 8" "is_pad p" "is_pad q" "is_pad r"
  defines "st \<equiv> pad_to_size (dim_width d) p" and "sl \<equiv> pad_to_size (dim_height d) q"
    and "cl \<equiv> pad_to_size (idiv (dim_height d) 2) r"
  shows "layout_ok mp_stride (semi_planar d)
    (planes2 (plane 0 (st * sl) 0 0 st sl w0 h0) (plane 0 (st * cl) 0 0 st cl w1 h1)
       (pad_to_size (st * sl + st * cl) 4096) b)"
  unfolding semi_planar_def Let_def st_def sl_def cl_def
  by (intro good_two plane_good_exact assms(1-5) pad_dims pairs) (simp only: plane_len)

text \<open>What the header of the video core documents: the buffer holds both planes.\<close>

definition venus_ok :: "venus \<Rightarrow> bool" where
  "venus_ok v \<longleftrightarrow> (\<forall>w h. unat w \<le> max_dim \<longrightarrow> unat h \<le> max_dim \<longrightarrow>
    unat w \<le> unat (y_stride v w) \<and> unat h \<le> unat (y_scanlines v h) \<and>
    unat w div 2 * 2 \<le> unat (uv_stride v w) \<and> unat h div 2 \<le> unat (uv_scanlines v h) \<and>
    small (y_stride v w) \<and> small (y_scanlines v h) \<and> small (uv_stride v w) \<and> small (uv_scanlines v h) \<and>
    unat (y_stride v w) * unat (y_scanlines v h) + unat (uv_stride v w) * unat (uv_scanlines v h)
      \<le> unat (buffer_size v w h))"

lemma plane_fits_plane:
  assumes "w \<le> unat st" "h \<le> unat sl" "unat st * unat sl \<le> unat len"
  shows "plane_fits mp_stride (w, h) (plane 0 len x y st sl pw ph m)"
proof -
  have "unat st * h \<le> unat st * unat sl" using assms(2) by (rule mult_le_mono2)
  then have "unat st * h \<le> unat len" using assms(3) by (rule le_trans)
  then show ?thesis using assms by (simp add: plane_fits_def plane_def)
qed

lemma venus_layout:
  assumes "venus_ok v" "dim_ok d" "length (mp b) = 8"
  shows "layout_ok mp_stride (semi_planar d) (layout_venus v d b)"
proof -
  let ?w = "dim_width d" and ?h = "dim_height d"
  let ?l = "y_stride v ?w * y_scanlines v ?h" and ?f = "buffer_size v ?w ?h"
  have v: "unat ?w \<le> unat (y_stride v ?w)" "unat ?h \<le> unat (y_scanlines v ?h)"
    "unat ?w div 2 * 2 \<le> unat (uv_stride v ?w)" "unat ?h div 2 \<le> unat (uv_scanlines v ?h)"
    "small (y_stride v ?w)" "small (y_scanlines v ?h)"
    "unat (y_stride v ?w) * unat (y_scanlines v ?h) + unat (uv_stride v ?w) * unat (uv_scanlines v ?h) \<le> unat ?f"
    using assms(1) dims [OF assms(2)] unfolding venus_ok_def by blast+
  have l: "unat ?l = unat (y_stride v ?w) * unat (y_scanlines v ?h)" by (rule times_small [OF v(5,6)])
  then have le: "?l \<le> ?f" unfolding word_le_nat_alt using v(7) l by linarith
  then have c: "unat (?f - ?l) = unat ?f - unat ?l" by (rule unat_sub)
  then have uv: "unat (uv_stride v ?w) * unat (uv_scanlines v ?h) \<le> unat (?f - ?l)" using v(7) l by linarith
  show ?thesis unfolding semi_planar_def layout_venus_def Let_def
  proof (rule layout_planes2 [OF assms(3)], unfold plane_len)
    show "unat ?l + unat (?f - ?l) \<le> unat ?f" using le c unfolding word_le_nat_alt by linarith
    qed (intro plane_fits_plane v uv l [symmetric, THEN eq_refl])+
qed

definition preview_formats :: "venus option \<Rightarrow> cam_format set" where
  "preview_formats V = {CAM_FORMAT_YUV_420_NV12, CAM_FORMAT_YUV_420_NV21, CAM_FORMAT_YUV_420_NV21_ADRENO,
     CAM_FORMAT_YUV_420_YV12, CAM_FORMAT_YUV_422_NV16, CAM_FORMAT_YUV_422_NV61} \<union>
     (if V = None then {} else {CAM_FORMAT_YUV_420_NV12_VENUS})"

definition padded_formats :: "cam_format set" where
  "padded_formats = {CAM_FORMAT_YUV_420_NV12, CAM_FORMAT_YUV_420_NV21,
     CAM_FORMAT_YUV_420_YV12, CAM_FORMAT_YUV_422_NV16, CAM_FORMAT_YUV_422_NV61}"

definition yuv_planes :: "cam_format \<Rightarrow> cam_dimension \<Rightarrow> (nat \<times> nat) list" where
  "yuv_planes fmt =
    (if fmt = CAM_FORMAT_YUV_420_YV12 then planar
     else if fmt \<in> {CAM_FORMAT_YUV_422_NV16, CAM_FORMAT_YUV_422_NV61} then full_chroma
     else semi_planar)"

text \<open>The contract of a layout: it succeeds on its formats, and leaves the buffer alone otherwise.\<close>

definition lays_out :: "bool \<Rightarrow> (cam_mp_len_offset \<Rightarrow> u32) \<Rightarrow> (nat \<times> nat) list \<Rightarrow> cam_frame_len_offset \<Rightarrow>
    int \<times> cam_frame_len_offset \<Rightarrow> bool" where
  "lays_out supported line sizes b r \<longleftrightarrow>
    (if supported then fst r = 0 \<and> layout_ok line sizes (snd r) else r = (- 1, b))"

lemma preview_layout:
  assumes "\<forall>v. V = Some v \<longrightarrow> venus_ok v" "dim_ok d" "length (mp b) = 8"
  shows "lays_out (fmt \<in> preview_formats V) mp_stride (yuv_planes fmt d) b (calc_offset_preview V fmt d b)"
  using nv12_layout [OF assms(2,3) pads(5) pads(1) pads(1)] adreno_layout [OF assms(2,3)] yv12_layout [OF assms(2,3)]
    nv16_layout [OF assms(2,3)] venus_layout [OF _ assms(2,3)] assms(1)
  unfolding lays_out_def calc_offset_preview_def preview_formats_def yuv_planes_def Let_def
  by (cases fmt; cases V; simp only: cam_format.simps insert_iff Un_iff empty_iff option.case option.simps simp_thms
     if_True if_False fst_conv snd_conv)

lemma post_view_layout:
  assumes "\<forall>v. V = Some v \<longrightarrow> venus_ok v" "dim_ok d" "length (mp b) = 8"
  shows "lays_out (fmt \<in> preview_formats V) mp_stride (yuv_planes fmt d) b (calc_offset_post_view V fmt d b)"
  using nv12_layout [OF assms(2,3) pads(6) pads(6) pads(6)] adreno_layout [OF assms(2,3)] yv12_layout [OF assms(2,3)]
    nv16_layout [OF assms(2,3)] venus_layout [OF _ assms(2,3)] assms(1)
  unfolding lays_out_def calc_offset_post_view_def preview_formats_def yuv_planes_def Let_def
  by (cases fmt; cases V; simp only: cam_format.simps insert_iff Un_iff empty_iff option.case option.simps simp_thms
     if_True if_False fst_conv snd_conv)

lemma unpadded_dims:
  assumes "dim_ok d"
  shows "unat (dim_width d) div 2 * 2 \<le> unat (dim_width d)"
    "unat (dim_height d) div 2 \<le> unat (idiv (dim_height d) 2)" "small (idiv (dim_height d) 2)"
  using idiv2_dim [OF dims(2) [OF assms]] by simp_all

lemma video_layout:
  assumes "\<forall>v. V = Some v \<longrightarrow> venus_ok v" "dim_ok d" "length (mp b) = 8"
  shows "lays_out True mp_stride (semi_planar d) b (calc_offset_video V d b)"
proof (cases V)
  case None
  show ?thesis unfolding lays_out_def calc_offset_video_def semi_planar_def Let_def None option.case if_True fst_conv snd_conv
    by (intro conjI refl good_two plane_good_padded assms pads dims_small unpadded_dims order_refl) (simp only: plane_len)
next
  case (Some v)
  then have "layout_ok mp_stride (semi_planar d) (layout_venus v d b)" using assms by (intro venus_layout) simp_all
  then show ?thesis unfolding lays_out_def calc_offset_video_def Some by simp
qed

section \<open>Snapshots\<close>

text \<open>The offsets that make room above the image: there are as many lines more.\<close>

lemma plane_good_offset:
  assumes "w \<le> unat st" "h + unat y \<le> unat sl" "small st" "small sl" "is_pad p" "y = 0 \<or> p = 1"
  shows "plane_good mp_stride (w, h)
    (plane (pad_to_size (0 + st * y) p) (pad_to_size (st * sl) p) 0 y st sl pw ph m)"
proof -
  note t = times_small [OF assms(3,4)]
  have one: "pad_to_size z 1 = z" for z by (simp add: pad_to_size_def)
  have "unat st * (h + unat y) \<le> unat st * unat sl" using assms(2) by (rule mult_le_mono2)
  then have le: "unat st * h + unat st * unat y \<le> unat (st * sl)" by (simp only: t(1) distrib_left)
  have "small y" using assms(2,4) by (simp add: small_def)
  then have y: "unat (st * y) = unat st * unat y" by (rule times_small [OF assms(3)])
  have "unat (st * sl) \<le> 838860800" using t(2) by simp
  note l = pad_len [OF assms(5) this]
  have z: "pad_to_size (0 :: u32) p = 0"
  proof -
    have "unat (pad_to_size 0 p) < unat p" "unat (pad_to_size 0 p) mod unat p = 0"
      using pad_bounds [OF assms(5), of 0] by simp_all
    then have "unat (pad_to_size 0 p) = 0" by (simp only: mod_less)
    then show ?thesis by (simp only: unat_eq_0)
  qed
  have "unat (pad_to_size (0 + st * y) p) + unat st * h \<le> unat (pad_to_size (st * sl) p)"
  proof (cases "y = 0")
    case True
    have "unat (pad_to_size (0 + st * y) p) + unat st * h = unat st * h" by (simp add: True z)
    also have "\<dots> \<le> unat (st * sl)" using le by linarith
    finally show ?thesis using l(1) by linarith
  next
    case False
    with assms(6) have "p = 1" by simp
    then show ?thesis using le by (simp only: one y add_0 add.commute)
  qed
  moreover have "h \<le> unat sl" using assms(2) by simp
  ultimately show ?thesis using assms(1,3,4) l by (intro plane_goodI)
qed

lemma padded_layout:
  assumes "unat (dim_width d) \<le> unat st" "unat (dim_height d) + unat y \<le> unat sl"
    "unat (dim_height d) div 2 + unat y \<le> unat sl div 2" "small st" "small sl"
    "is_pad (plane_padding p)" "y = 0 \<or> plane_padding p = 1" "length (mp b) = 8"
  shows "lays_out (fmt \<in> padded_formats) mp_stride (yuv_planes fmt d) b (layout_padded fmt d p 0 y st sl b)"
proof -
  let ?w = "unat (dim_width d)" and ?h = "unat (dim_height d)"
  let ?c = "pad_to_size (idiv st 2) 16" and ?k = "idiv sl 2"
  note k = idiv2_small [OF assms(5)] and s = idiv2_small [OF assms(4)]
  have kl: "?h div 2 + unat y \<le> unat ?k" "small ?k" using assms(3) k by simp_all
  have "?w div 2 * 2 \<le> ?w" by (rule div_times_less_eq_dividend)
  then have w2: "?w div 2 * 2 \<le> unat st" using assms(1) by (rule le_trans)
  have "unat st div 2 \<le> max_dim" using assms(4) by (simp add: small_def max_dim_def)
  then have i: "unat (idiv st 2) \<le> max_dim" using s by simp
  have "?w div 2 \<le> unat (idiv st 2)" using div_le_mono [OF assms(1), of 2] s by simp
  then have c: "?w div 2 \<le> unat ?c" "small ?c"
    using le_trans [OF _ pad_small(2) [OF pads(4) i]] pad_small(1) [OF pads(4) i] by simp_all
  note good = plane_good_offset [OF _ _ _ _ assms(6,7)]
  have two: "layout_ok mp_stride (semi_planar d) (snd (layout_padded fmt d p 0 y st sl b))"
    if "fmt \<in> {CAM_FORMAT_YUV_420_NV12, CAM_FORMAT_YUV_420_NV21}"
    unfolding layout_padded_def semi_planar_def Let_def if_P [OF that] snd_conv
    by (intro good_two assms(8) good assms(1,2,4,5) w2 kl) (simp only: plane_len)
  have full: "layout_ok mp_stride (full_chroma d) (snd (layout_padded fmt d p 0 y st sl b))"
    if "fmt \<in> {CAM_FORMAT_YUV_422_NV16, CAM_FORMAT_YUV_422_NV61}"
  proof -
    have no: "fmt \<notin> {CAM_FORMAT_YUV_420_NV12, CAM_FORMAT_YUV_420_NV21}" "fmt \<noteq> CAM_FORMAT_YUV_420_YV12" using that by auto
    show ?thesis
      unfolding layout_padded_def full_chroma_def Let_def if_not_P [OF no(1)] if_not_P [OF no(2)] if_P [OF that] snd_conv
      by (intro good_two assms(8) good assms(1,2,4,5)) (simp only: plane_len)
  qed
  have three: "layout_ok mp_stride (planar d) (snd (layout_padded CAM_FORMAT_YUV_420_YV12 d p 0 y st sl b))"
  proof -
    have no: "CAM_FORMAT_YUV_420_YV12 \<notin> {CAM_FORMAT_YUV_420_NV12, CAM_FORMAT_YUV_420_NV21}" by simp
    show ?thesis
      unfolding layout_padded_def planar_def Let_def if_not_P [OF no] if_P [OF refl] snd_conv
      by (intro good_three assms(8) good assms(1,2,4,5) c kl) (simp only: plane_len)
  qed
  show ?thesis using two full three
    unfolding lays_out_def padded_formats_def yuv_planes_def layout_padded_def Let_def
    by (cases fmt; simp only: cam_format.simps insert_iff empty_iff simp_thms if_True if_False fst_conv snd_conv)
qed

lemma snapshot_layout:
  assumes "dim_ok d" "padding_ok p" "isAFamily \<longrightarrow> plane_padding p = 1" "length (mp b) = 8"
  shows "lays_out (fmt \<in> padded_formats) mp_stride (yuv_planes fmt d) b (calc_offset_snapshot isAFamily fmt d p b)"
proof (cases isAFamily)
  case True
  let ?h = "dim_height d" let ?s = "pad_to_size ?h 16" let ?y = "?s - ?h"
  have h: "unat ?h \<le> 16384" using dims(2) [OF assms(1)] by (simp add: max_dim_def)
  then have s: "unat ?h \<le> unat ?s" "unat ?s < unat ?h + 16"
    using pad_bounds [of 16 ?h] by simp_all
  have y: "unat ?y = unat ?s - unat ?h" using s(1) by (intro unat_sub) (simp only: word_le_nat_alt)
  have "unat (?s + ?y) = unat ?s + unat ?y"
    using h s y by (intro unat_add_lem [THEN iffD1]) simp
  then have sl: "unat (?s + ?y) = 2 * unat ?s - unat ?h" using s y by linarith
  have a: "unat ?h + unat ?y \<le> unat (?s + ?y)" "unat ?h div 2 + unat ?y \<le> unat (?s + ?y) div 2"
    unfolding sl y using s by linarith+
  have b: "small (?s + ?y)" unfolding small_def sl using h s by linarith
  have "calc_offset_snapshot isAFamily fmt d p b = layout_padded fmt d p 0 ?y (dim_width d) (?s + ?y) b"
    using True by (simp only: calc_offset_snapshot_def Let_def if_True)
  then show ?thesis
    using padded_layout [OF order_refl a dims_small(1) [OF assms(1)] b, of p] assms True by (simp add: padding_ok_def)
next
  case False
  have p: "is_pad (width_padding p)" "is_pad (height_padding p)" "is_pad (plane_padding p)"
    using assms(2) by (simp_all add: padding_ok_def)
  note w = pad_dims(1,2) [OF assms(1) p(1)] and h = pad_dims(3,4) [OF assms(1) p(2)]
  have "calc_offset_snapshot isAFamily fmt d p b = layout_padded fmt d p 0 0 (pad_to_size (dim_width d) (width_padding p))
         (pad_to_size (dim_height d) (height_padding p)) b"
    using False by (simp only: calc_offset_snapshot_def if_False)
  then show ?thesis
    using padded_layout [OF w(1) _ _ w(2) h(2) p(3), of 0 b fmt] h(1) div_le_mono [OF h(1), of 2] assms(4) by simp
qed

lemma analysis_layout:
  assumes "dim_ok d" "padding_ok p" "length (mp b) = 8"
  shows "lays_out (fmt \<in> padded_formats) mp_stride (yuv_planes fmt d) b (calc_offset_analysis fmt d p b)"
proof -
  have p: "is_pad (width_padding p)" "is_pad (height_padding p)" "is_pad (plane_padding p)"
    "unat (min_stride p) \<le> max_dim" "unat (min_scanline p) \<le> max_dim"
    using assms(2) by (simp_all add: padding_ok_def)
  let ?a = "if dim_width d < min_stride p then min_stride p else dim_width d"
  let ?c = "if dim_height d < min_scanline p then min_scanline p else dim_height d"
  have a: "unat ?a \<le> max_dim" "unat (dim_width d) \<le> unat ?a" using p(4) dims(1) [OF assms(1)]
    by (simp_all add: word_less_nat_alt)
  have c: "unat ?c \<le> max_dim" "unat (dim_height d) \<le> unat ?c" using p(5) dims(2) [OF assms(1)]
    by (simp_all add: word_less_nat_alt)
  note w = le_trans [OF a(2) pad_small(2) [OF p(1) a(1)]] and h = le_trans [OF c(2) pad_small(2) [OF p(2) c(1)]]
  have e: "calc_offset_analysis fmt d p b = layout_padded fmt d p 0 0 (pad_to_size ?a (width_padding p))
         (pad_to_size ?c (height_padding p)) b"
    by (simp only: calc_offset_analysis_def Let_def)
  have h0: "unat (dim_height d) + unat (0 :: u32) \<le> unat (pad_to_size ?c (height_padding p))"
    "unat (dim_height d) div 2 + unat (0 :: u32) \<le> unat (pad_to_size ?c (height_padding p)) div 2"
    using h div_le_mono [OF h, of 2] by (simp_all only: unsigned_0 add_0_right)
  show ?thesis unfolding e
    by (rule padded_layout [OF w h0 pad_small(1) [OF p(1) a(1)] pad_small(1) [OF p(2) c(1)] p(3) _ assms(3)]) simp
qed

section \<open>Raw frames and metadata\<close>

text \<open>The bytes that so many pixels take, as pixels and bytes of a group.\<close>

definition raw_pack :: "cam_format \<Rightarrow> nat \<times> nat" where
  "raw_pack fmt =
    (if raw_8bpp fmt then (1, 1)
     else if raw_qcom_10bpp fmt then (6, 8)
     else if raw_qcom_12bpp fmt then (5, 8)
     else if raw_mipi_10bpp fmt then (4, 5)
     else if raw_mipi_12bpp fmt then (2, 3)
     else (1, 2))"

definition raw_bytes :: "cam_format \<Rightarrow> nat \<Rightarrow> nat" where
  "raw_bytes fmt n = (case raw_pack fmt of (pixels, bytes) \<Rightarrow> (n * bytes + (pixels - 1)) div pixels)"

definition raw_formats :: "cam_format \<Rightarrow> bool" where
  "raw_formats fmt \<longleftrightarrow> fmt = CAM_FORMAT_META_RAW_8BIT \<or> raw_yuyv fmt \<or> raw_8bpp fmt \<or> raw_qcom_10bpp fmt \<or>
    raw_qcom_12bpp fmt \<or> raw_mipi_10bpp fmt \<or> raw_mipi_12bpp fmt \<or> raw_plain16 fmt"

lemma times_unat:
  assumes "unat a \<le> 200000" "unat b \<le> 20480"
  shows "unat (a * b :: u32) = unat a * unat b"
proof -
  have "unat a * unat b \<le> 200000 * 20480" using assms by (rule mult_le_mono)
  then show ?thesis by (simp add: unat_mult_lem [THEN iffD1])
qed

lemma idiv_unat:
  assumes "unat a \<le> 200000" "unat b \<le> 200000"
  shows "unat (idiv a b) = unat a div unat b"
  using assms by (intro idiv_nat) simp_all

lemma plus_unat:
  assumes "unat a \<le> max_dim" "unat b \<le> 20"
  shows "unat (a + b :: u32) = unat a + unat b"
  using assms by (simp add: unat_add_lem [THEN iffD1] max_dim_def)

lemma groups:
  assumes "unat w \<le> max_dim" "0 < unat n" "unat n \<le> 20" "unat k = unat n - 1"
  shows "unat (idiv (w + k) n * n) = (unat w + (unat n - 1)) div unat n * unat n"
    "unat (idiv (w + k) n * n) \<le> max_dim + 20" "unat w \<le> unat (idiv (w + k) n * n)"
proof -
  have s: "unat (w + k) = unat w + (unat n - 1)" using assms by (simp add: plus_unat)
  moreover have "unat (w + k) \<le> 200000" using s assms(1,3) by (simp add: max_dim_def)
  ultimately have d: "unat (idiv (w + k) n) = (unat w + (unat n - 1)) div unat n"
    using assms(3) by (simp add: idiv_unat)
  have "(unat w + (unat n - 1)) div unat n \<le> unat w + (unat n - 1)" by (rule div_le_dividend)
  then have "unat (idiv (w + k) n) \<le> 200000" using d assms(1,3) unfolding max_dim_def by linarith
  then show e: "unat (idiv (w + k) n * n) = (unat w + (unat n - 1)) div unat n * unat n"
    using assms(3) d by (simp add: times_unat)
  have "(unat w + (unat n - 1)) div unat n * unat n + (unat w + (unat n - 1)) mod unat n = unat w + (unat n - 1)"
    by (rule div_mult_mod_eq)
  moreover have "(unat w + (unat n - 1)) mod unat n < unat n" using assms(2) by simp
  ultimately show "unat (idiv (w + k) n * n) \<le> max_dim + 20" "unat w \<le> unat (idiv (w + k) n * n)"
    unfolding e using assms(1,3) by linarith+
qed

text \<open>A line of a raw format has room for the pixels, and is short.\<close>

definition line_good :: "cam_format \<Rightarrow> u32 \<Rightarrow> u32 \<Rightarrow> bool" where
  "line_good fmt w bytes \<longleftrightarrow> raw_bytes fmt (unat w) \<le> unat bytes \<and> unat bytes \<le> 40960"

lemma raw_bytes_le:
  assumes "raw_pack fmt = (a, c)" "0 < a" "n \<le> s" "s * c \<le> bytes * a"
  shows "raw_bytes fmt n \<le> bytes"
proof -
  have "n * c \<le> bytes * a" using mult_le_mono1 [OF assms(3), of c] assms(4) by linarith
  then have "n * c + (a - 1) < (bytes + 1) * a" using assms(2) by simp
  then have "(n * c + (a - 1)) div a < bytes + 1" using assms(2) by (simp add: div_less_iff_less_mult)
  then show ?thesis by (simp add: raw_bytes_def assms(1))
qed

lemma padded_line:
  assumes "unat w \<le> max_dim" "is_pad p" "unat p \<le> 32"
  shows "unat w \<le> unat (pad_to_size w p)" "unat (pad_to_size w p) \<le> 16416"
    "unat (pad_to_size w p) mod unat p = 0"
  using pad_bounds [OF assms(2), of w] assms(1,3) by (simp_all add: max_dim_def)

lemmas raw_defs = raw_yuyv_def raw_8bpp_def raw_qcom_10bpp_def raw_qcom_12bpp_def raw_mipi_10bpp_def
  raw_mipi_12bpp_def raw_plain16_def

lemma raw_packs:
  "raw_yuyv fmt \<or> fmt = CAM_FORMAT_META_RAW_8BIT \<Longrightarrow> raw_pack fmt = (1, 2)"
  "raw_8bpp fmt \<Longrightarrow> raw_pack fmt = (1, 1)"
  "raw_qcom_10bpp fmt \<Longrightarrow> raw_pack fmt = (6, 8)"
  "raw_qcom_12bpp fmt \<Longrightarrow> raw_pack fmt = (5, 8)"
  "raw_mipi_10bpp fmt \<Longrightarrow> raw_pack fmt = (4, 5)"
  "raw_mipi_12bpp fmt \<Longrightarrow> raw_pack fmt = (2, 3)"
  "raw_plain16 fmt \<Longrightarrow> raw_pack fmt = (1, 2)"
  by (cases fmt; simp add: raw_pack_def raw_defs)+

lemma line_goodI:
  assumes "raw_pack fmt = (a, c)" "0 < a" "unat w \<le> s" "s * c \<le> unat bytes * a" "unat bytes \<le> 40960"
  shows "line_good fmt w bytes"
  using raw_bytes_le [OF assms(1-4)] assms(5) by (simp add: line_good_def)

lemma double_line:
  assumes "raw_pack fmt = (1, 2)" "unat w \<le> max_dim" "is_pad p" "unat p \<le> 32"
  shows "line_good fmt w (pad_to_size w p * 2)"
proof -
  note l = padded_line [OF assms(2-4)]
  have "unat (pad_to_size w p * 2) = unat (pad_to_size w p) * 2" using l(2) times_unat [of "pad_to_size w p" 2] by simp
  then show ?thesis using l(1,2) by (intro line_goodI [OF assms(1)]) simp_all
qed

lemma single_line:
  assumes "raw_pack fmt = (1, 1)" "unat w \<le> max_dim"
  shows "line_good fmt w (pad_to_size w 16)"
  using padded_line [OF assms(2), of 16] by (intro line_goodI [OF assms(1)]) simp_all

text \<open>Groups of pixels in words of 64 bits.\<close>

lemma word_line:
  assumes "raw_pack fmt = (a, 8)" "unat w \<le> max_dim" "5 \<le> a" "a \<le> 10" "unat n = 2 * a" "unat k = 2 * a - 1" "unat c = a"
  shows "line_good fmt w (idiv (idiv (w + k) n * n * 8) c)"
proof -
  let ?s = "idiv (w + k) n * n"
  have pos: "0 < a" using assms(3) by simp
  have "0 < unat n" "unat n \<le> 20" "unat k = unat n - 1" using assms by simp_all
  note g = groups [OF assms(2) this]
  have s8: "unat (?s * 8) = unat ?s * 8" using g(2) times_unat [of ?s 8] by (simp add: max_dim_def)
  obtain q where q: "unat ?s = q * (2 * a)" using g(1) unfolding assms(5) by (rule that)
  have "unat (?s * 8) \<le> 200000" using g(2) by (simp only: s8) (simp add: max_dim_def)
  moreover have "unat c \<le> 200000" using assms(4,7) by simp
  ultimately have "unat (idiv (?s * 8) c) = unat (?s * 8) div unat c" by (rule idiv_unat)
  also have "\<dots> = (q * 16) * a div a" by (simp only: s8 q assms(7)) (simp add: ac_simps)
  also have "\<dots> = q * 16" using pos by simp
  finally have d: "unat (idiv (?s * 8) c) = q * 16" .
  show ?thesis
  proof (rule line_goodI [OF assms(1) pos g(3)])
    show "unat ?s * 8 \<le> unat (idiv (?s * 8) c) * a" by (simp add: d q)
    have "q * 10 \<le> q * (2 * a)" using assms(3) by (intro mult_le_mono2) simp
    then show "unat (idiv (?s * 8) c) \<le> 40960" using g(2) d q unfolding max_dim_def by linarith
  qed
qed

lemma packed_line:
  assumes "unat s \<le> 16416" "unat s mod unat a = 0" "0 < unat a" "unat a \<le> 8" "unat c \<le> 8"
  shows "unat (idiv (s * c) a) = unat s div unat a * unat c"
proof -
  obtain q where q: "unat s = unat a * q" using assms(2) by (auto simp: mod_eq_0_iff_dvd dvd_def)
  have m: "unat (s * c) = unat s * unat c" using assms by (intro times_unat) simp_all
  have "unat s * unat c \<le> 16416 * 8" using assms(1,5) by (rule mult_le_mono)
  then have "unat (idiv (s * c) a) = unat s * unat c div unat a" using assms(4) m by (simp add: idiv_unat)
  then show ?thesis using assms(3) by (simp add: q ac_simps)
qed

lemma mipi10_line:
  assumes "raw_pack fmt = (4, 5)" "unat w \<le> max_dim"
  shows "line_good fmt w (pad_to_size (idiv (pad_to_size w 4 * 5) 4) 8)"
proof -
  note l = padded_line [OF assms(2), of 4, simplified]
  let ?s = "pad_to_size w 4" let ?b = "idiv (?s * 5) 4"
  have e: "unat ?b = unat ?s div 4 * 5" using packed_line [of ?s 4 5] l by simp
  have d: "unat ?s = unat ?s div 4 * 4" using div_mult_mod_eq [of "unat ?s" 4] l(3) by simp
  have "unat ?b \<le> 32000" using e d l(2) by linarith
  then have b: "unat ?b \<le> unat (pad_to_size ?b 8)" "unat (pad_to_size ?b 8) < unat ?b + 8"
    using pad_bounds [of 8 ?b] by simp_all
  show ?thesis
  proof (rule line_goodI [OF assms(1) _ l(1)])
    show "unat ?s * 5 \<le> unat (pad_to_size ?b 8) * 4" using b(1) e d by linarith
    show "unat (pad_to_size ?b 8) \<le> 40960" using b(2) \<open>unat ?b \<le> 32000\<close> by linarith
  qed simp
qed

lemma mipi12_line:
  assumes "raw_pack fmt = (2, 3)" "unat w \<le> max_dim"
  shows "line_good fmt w (idiv (pad_to_size w 32 * 3) 2)"
proof -
  note l = padded_line [OF assms(2), of 32, simplified]
  let ?s = "pad_to_size w 32"
  have even: "unat ?s mod 2 = 0" using l(3) by presburger
  then have e: "unat (idiv (?s * 3) 2) = unat ?s div 2 * 3" using packed_line [of ?s 2 3] l by simp
  have d: "unat ?s = unat ?s div 2 * 2" using div_mult_mod_eq [of "unat ?s" 2] even by simp
  show ?thesis
  proof (rule line_goodI [OF assms(1) _ l(1)])
    show "unat ?s * 3 \<le> unat (idiv (?s * 3) 2) * 2" using e d by linarith
    show "unat (idiv (?s * 3) 2) \<le> 40960" using e d l(2) by linarith
  qed simp
qed

lemma raw_line_good:
  assumes "raw_line fmt w = Some (st, bytes)" "unat w \<le> max_dim"
  shows "line_good fmt w bytes"
proof -
  note packs = raw_packs [of fmt]
  have d: "line_good fmt w (pad_to_size w 16 * 2)" if "raw_yuyv fmt \<or> fmt = CAM_FORMAT_META_RAW_8BIT"
    by (rule double_line [OF packs(1) [OF that] assms(2)]) simp_all
  have m: "line_good CAM_FORMAT_META_RAW_8BIT w (pad_to_size w 16 * 2)"
    by (rule double_line [OF raw_packs(1) assms(2)]) simp_all
  have e: "line_good fmt w (pad_to_size w 8 * 2)" if "raw_plain16 fmt"
    by (rule double_line [OF packs(7) [OF that] assms(2)]) simp_all
  have f: "line_good fmt w (idiv (idiv (w + 11) 12 * 12 * 8) 6)" if "raw_qcom_10bpp fmt"
    by (rule word_line [OF packs(3) [OF that] assms(2)]) simp_all
  have g: "line_good fmt w (idiv (idiv (w + 9) 10 * 10 * 8) 5)" if "raw_qcom_12bpp fmt"
    by (rule word_line [OF packs(4) [OF that] assms(2)]) simp_all
  note lines = d m e f g single_line [OF packs(2) assms(2)] mipi10_line [OF packs(5) assms(2)]
    mipi12_line [OF packs(6) assms(2)]
  show ?thesis using assms(1) unfolding raw_line_def Let_def
    by (auto simp only: option.inject prod.inject option.distinct split: if_split_asm intro: lines)
qed

lemma raw_line_some: "(\<exists>l. raw_line fmt w = Some l) \<longleftrightarrow> raw_formats fmt"
  by (simp add: raw_line_def raw_formats_def Let_def)

lemma raw_plane_layout:
  assumes "line_good fmt (dim_width d) bytes" "unat (dim_height d) \<le> unat sl" "small sl"
    "is_pad (plane_padding p)" "length (mp b) = 8"
  shows "layout_ok mp_stride_in_bytes [(raw_bytes fmt (unat (dim_width d)), unat (dim_height d))]
    (raw_plane sized st bytes sl p b)"
proof (rule layout_planes1)
  let ?len = "pad_to_size (bytes * sl) (plane_padding p)"
  let ?m = "mp (raw_plane sized st bytes sl p b) ! 0"
  have m: "mp_stride_in_bytes ?m = bytes" "mp_scanline ?m = sl" "mp_len ?m = ?len" "mp_offset ?m = 0"
    using assms(5) by (simp_all add: raw_plane_def Let_def nth_list_update)
  have bound: "unat bytes \<le> 40960" using assms(1) by (simp add: line_good_def)
  have t: "unat (bytes * sl) = unat bytes * unat sl" using bound assms(3) by (intro times_unat) (simp_all add: small_def)
  have "unat bytes * unat sl \<le> 40960 * 20480" using bound assms(3) unfolding small_def by (rule mult_le_mono)
  then have "unat (bytes * sl) \<le> 838860800" using t by simp
  note l = pad_len [OF assms(4) this]
  have "unat bytes * unat (dim_height d) \<le> unat bytes * unat sl" using assms(2) by (rule mult_le_mono2)
  also have "\<dots> \<le> unat ?len" using l(1) t by simp
  finally show "plane_fits mp_stride_in_bytes (raw_bytes fmt (unat (dim_width d)), unat (dim_height d)) ?m"
    unfolding plane_fits_def m fst_conv snd_conv unsigned_0 using assms(1,2) l(1) t by (simp add: line_good_def)
  have "frame_len (raw_plane sized st bytes sl p b) = pad_to_size ?len 4096" by (simp add: raw_plane_def Let_def)
  then show "unat (mp_len ?m) \<le> unat (frame_len (raw_plane sized st bytes sl p b))"
    using pad_bounds(1) [of 4096 ?len] l(2) by (simp add: m max_len_def)
qed (simp add: raw_plane_def Let_def)

lemma metadata_layout:
  assumes "dim_ok d" "padding_ok p" "length (mp b) = 8"
  shows "lays_out True mp_stride [(unat (dim_width d), unat (dim_height d))] b (calc_offset_metadata d p b)"
proof -
  have "is_pad (plane_padding p)" using assms(2) by (simp add: padding_ok_def)
  then have "plane_good mp_stride (unat (dim_width d), unat (dim_height d))
     (plane 0 (pad_to_size (dim_width d * dim_height d) (plane_padding p)) 0 0 (dim_width d) (dim_height d)
        (dim_width d) (dim_height d) (mp b ! 0))"
    by (intro plane_good_padded dims_small assms order_refl)
  then have "layout_ok mp_stride [(unat (dim_width d), unat (dim_height d))] (snd (calc_offset_metadata d p b))"
    using assms(3) by (intro layout_planes1) (simp_all add: calc_offset_metadata_def Let_def plane_good_def)
  then show ?thesis by (simp add: lays_out_def) (simp add: calc_offset_metadata_def Let_def)
qed

definition raw_planes :: "cam_format \<Rightarrow> cam_dimension \<Rightarrow> (nat \<times> nat) list" where
  "raw_planes fmt d =
    (if fmt = CAM_FORMAT_YUV_420_NV21 then semi_planar d
     else [(raw_bytes fmt (unat (dim_width d)), unat (dim_height d))])"

lemma plane_good_bytes:
  assumes "plane_good mp_stride s (plane off len x y st sl pw ph m)"
  shows "plane_good mp_stride_in_bytes s (((\<lambda>m. m\<lparr>mp_stride_in_bytes := st\<rparr>) \<circ> plane off len x y st sl pw ph) m)"
  using assms by (simp add: plane_good_def plane_fits_def plane_def)

lemma raw_layout:
  assumes "dim_ok d" "padding_ok p" "length (mp b) = 8"
  shows "lays_out (fmt = CAM_FORMAT_YUV_420_NV21 \<or> raw_formats fmt) mp_stride_in_bytes (raw_planes fmt d) b
    (calc_offset_raw fmt d p b)"
proof -
  have p: "is_pad (width_padding p)" "is_pad (height_padding p)" "is_pad (plane_padding p)"
    using assms(2) by (simp_all add: padding_ok_def)
  show ?thesis
  proof (cases "fmt = CAM_FORMAT_YUV_420_NV21")
    case True
    have "layout_ok mp_stride_in_bytes (semi_planar d) (snd (calc_offset_raw fmt d p b))"
      unfolding calc_offset_raw_def semi_planar_def Let_def if_P [OF True] snd_conv
      by (intro good_two plane_good_bytes plane_good_padded pad_dims half_lines pairs p assms) (simp only: plane_len o_apply, simp)
    moreover have "fst (calc_offset_raw fmt d p b) = 0" by (simp only: calc_offset_raw_def Let_def if_P [OF True] fst_conv)
    ultimately show ?thesis using True by (simp add: lays_out_def raw_planes_def)
  next
    case False
    show ?thesis
    proof (cases "raw_line fmt (dim_width d)")
      case None
      then have "\<not> raw_formats fmt" using raw_line_some [of fmt "dim_width d"] by simp
      then show ?thesis using False None by (simp add: lays_out_def calc_offset_raw_def Let_def)
    next
      case (Some l)
      then obtain st bytes where l: "raw_line fmt (dim_width d) = Some (st, bytes)" by (cases l) simp
      have yes: "raw_formats fmt" using raw_line_some [of fmt "dim_width d"] Some by simp
      let ?b = "raw_plane (fmt \<noteq> CAM_FORMAT_META_RAW_8BIT) st bytes (pad_to_size (dim_height d) (height_padding p)) p b"
      have "calc_offset_raw fmt d p b = (0, ?b)"
        unfolding calc_offset_raw_def Let_def if_not_P [OF False] l by simp
      moreover have "layout_ok mp_stride_in_bytes [(raw_bytes fmt (unat (dim_width d)), unat (dim_height d))] ?b"
        by (rule raw_plane_layout [OF raw_line_good [OF l dims(1) [OF assms(1)]] pad_dims(3,4) [OF assms(1) p(2)] p(3) assms(3)])
      ultimately show ?thesis using False yes by (simp add: lays_out_def raw_planes_def)
    qed
  qed
qed

section \<open>Every stream\<close>

definition supported :: "venus option \<Rightarrow> cam_stream_type \<Rightarrow> cam_format \<Rightarrow> bool" where
  "supported V type fmt =
    (case type of
       CAM_STREAM_TYPE_PREVIEW \<Rightarrow> fmt \<in> preview_formats V
     | CAM_STREAM_TYPE_CALLBACK \<Rightarrow> fmt \<in> preview_formats V
     | CAM_STREAM_TYPE_POSTVIEW \<Rightarrow> fmt \<in> preview_formats V
     | CAM_STREAM_TYPE_SNAPSHOT \<Rightarrow> fmt \<in> padded_formats
     | CAM_STREAM_TYPE_ANALYSIS \<Rightarrow> fmt \<in> padded_formats
     | CAM_STREAM_TYPE_VIDEO \<Rightarrow> True
     | CAM_STREAM_TYPE_METADATA \<Rightarrow> True
     | CAM_STREAM_TYPE_RAW \<Rightarrow> fmt = CAM_FORMAT_YUV_420_NV21 \<or> raw_formats fmt
     | _ \<Rightarrow> False)"

definition image_planes :: "cam_stream_type \<Rightarrow> cam_format \<Rightarrow> cam_dimension \<Rightarrow> (nat \<times> nat) list" where
  "image_planes type fmt d =
    (if type = CAM_STREAM_TYPE_RAW then raw_planes fmt d
     else if type = CAM_STREAM_TYPE_METADATA then [(unat (dim_width d), unat (dim_height d))]
     else if type = CAM_STREAM_TYPE_VIDEO then semi_planar d
     else yuv_planes fmt d)"

definition line_bytes :: "cam_stream_type \<Rightarrow> cam_mp_len_offset \<Rightarrow> u32" where
  "line_bytes type = (if type = CAM_STREAM_TYPE_RAW then mp_stride_in_bytes else mp_stride)"

definition platform_ok :: "venus option \<Rightarrow> bool \<Rightarrow> cam_padding_info \<Rightarrow> bool" where
  "platform_ok V isAFamily p \<longleftrightarrow> (\<forall>v. V = Some v \<longrightarrow> venus_ok v) \<and> padding_ok p \<and>
    (isAFamily \<longrightarrow> plane_padding p = 1)"

lemma type_layout:
  assumes "platform_ok V isAFamily p" "dim_ok d" "length (mp b) = 8"
  shows "lays_out (supported V type fmt) (line_bytes type) (image_planes type fmt d) b
    (calc_by_type V isAFamily type fmt d p b)"
proof -
  have a: "\<forall>v. V = Some v \<longrightarrow> venus_ok v" "padding_ok p" "isAFamily \<longrightarrow> plane_padding p = 1"
    using assms(1) by (simp_all add: platform_ok_def)
  have no: "lays_out False line sizes b (- 1, b)" for line sizes by (simp add: lays_out_def)
  note defs = supported_def line_bytes_def image_planes_def calc_by_type_def
  note simps = cam_stream_type.simps simp_thms if_True if_False
  show ?thesis using preview_layout [OF a(1) assms(2,3)] post_view_layout [OF a(1) assms(2,3)]
    snapshot_layout [OF assms(2) a(2,3) assms(3)] analysis_layout [OF assms(2) a(2) assms(3)]
    video_layout [OF a(1) assms(2,3)] raw_layout [OF assms(2) a(2) assms(3)] metadata_layout [OF assms(2) a(2) assms(3)] no
    unfolding defs by (cases type; simp only: simps)
qed

lemma rotated_ok: "dim_ok (stream_dim si) \<Longrightarrow> dim_ok (rotated_dim si)"
  by (simp add: dim_ok_def rotated_dim_def)

text \<open>
  C28: The layout of a stream. Every stream but an offline reprocessing one gets a layout exactly when
  its type supports its format; then its buffer has the planes of the rotated image, each plane holds
  all of its lines from its offset on, no two lines overlap, and the planes fit in the frame
  together. An unsupported format leaves the stream as it was. Sizes go up to 16384, paddings
  are powers of two up to 4096; on family A, which leaves lines above the image, planes must not be padded.
\<close>

theorem stream_layout:
  assumes "stream_type si \<noteq> CAM_STREAM_TYPE_OFFLINE_PROC" "platform_ok V isAFamily p"
    "dim_ok (stream_dim si)" "length (mp (buf_planes si)) = 8"
  shows "case calc_offset V isAFamily p si of (rc, frame_offset, si') \<Rightarrow>
    frame_offset = buf_planes si' \<and>
    (if supported V (stream_type si) (stream_fmt si)
     then rc = 0 \<and> layout_ok (line_bytes (stream_type si))
           (image_planes (stream_type si) (stream_fmt si) (rotated_dim si)) (buf_planes si')
     else rc = - 1 \<and> si' = si)"
proof -
  have "calc_offset V isAFamily p si =
    (case calc_by_type V isAFamily (stream_type si) (stream_fmt si) (rotated_dim si) p (buf_planes si) of
       (rc, b) \<Rightarrow> (rc, b, si\<lparr>buf_planes := b\<rparr>))"
    by (simp only: calc_offset_def Let_def if_not_P [OF assms(1)])
  then show ?thesis
    using type_layout [OF assms(2) rotated_ok [OF assms(3)] assms(4), of "stream_type si" "stream_fmt si"]
    by (auto simp: lays_out_def split: prod.splits)
qed

text \<open>A video core with planes padded to 64 by 32 and 64 by 16, as an instance.\<close>

definition sample_venus :: venus where
  "sample_venus = \<lparr>y_stride = \<lambda>w. pad_to_size w 64, y_scanlines = \<lambda>h. pad_to_size h 32,
     uv_stride = \<lambda>w. pad_to_size w 64, uv_scanlines = \<lambda>h. pad_to_size (idiv h 2) 16,
     buffer_size = \<lambda>w h. pad_to_size w 64 * pad_to_size h 32 + pad_to_size w 64 * pad_to_size (idiv h 2) 16\<rparr>"

lemma sample_venus_ok: "venus_ok sample_venus"
  unfolding venus_ok_def
proof (intro allI impI)
  fix w h :: u32
  assume w: "unat w \<le> max_dim" and h: "unat h \<le> max_dim"
  define d where "d = \<lparr>dim_width = w, dim_height = h\<rparr>"
  have d: "dim_ok d" "dim_width d = w" "dim_height d = h" using w h by (simp_all add: d_def dim_ok_def)
  note f = pad_dims(1,2) [OF d(1) pads(6)] pad_dims(3,4) [OF d(1) pads(5)] pad_dims(5,6) [OF d(1) pads(4)]
    pairs [OF d(1) pads(6)]
  note f' = f [unfolded d(2,3)]
  let ?y = "pad_to_size w 64 * pad_to_size h 32" and ?c = "pad_to_size w 64 * pad_to_size (idiv h 2) 16"
  note y = times_small [OF f'(2,4)] and c = times_small [OF f'(2,6)]
  have "unat (?y + ?c) = unat ?y + unat ?c" using y(2) c(2) by (simp add: unat_add_lem [THEN iffD1])
  then show "unat w \<le> unat (y_stride sample_venus w) \<and> unat h \<le> unat (y_scanlines sample_venus h) \<and>
    unat w div 2 * 2 \<le> unat (uv_stride sample_venus w) \<and> unat h div 2 \<le> unat (uv_scanlines sample_venus h) \<and>
    small (y_stride sample_venus w) \<and> small (y_scanlines sample_venus h) \<and>
    small (uv_stride sample_venus w) \<and> small (uv_scanlines sample_venus h) \<and>
    unat (y_stride sample_venus w) * unat (y_scanlines sample_venus h) +
      unat (uv_stride sample_venus w) * unat (uv_scanlines sample_venus h)
      \<le> unat (buffer_size sample_venus w h)"
    using f' y(1) c(1) by (simp add: sample_venus_def)
qed

definition sample_padding :: cam_padding_info where
  "sample_padding = \<lparr>width_padding = 32, height_padding = 32, plane_padding = 4, min_stride = 0, min_scanline = 0\<rparr>"

definition no_plane :: cam_mp_len_offset where
  "no_plane = \<lparr>mp_len = 0, mp_offset = 0, mp_offset_x = 0, mp_offset_y = 0, mp_stride = 0, mp_stride_in_bytes = 0,
     mp_scanline = 0, mp_width = 0, mp_height = 0\<rparr>"

definition sample_stream :: "cam_stream_type \<Rightarrow> cam_format \<Rightarrow> cam_stream_info" where
  "sample_stream type fmt = \<lparr>stream_type = type, stream_fmt = fmt,
     stream_dim = \<lparr>dim_width = 1920, dim_height = 1080\<rparr>,
     buf_planes = \<lparr>num_planes = 0, mp = replicate 8 no_plane, frame_len = 0\<rparr>,
     has_rotation = False, stream_rotation = ROTATE_0, reprocess_config = Online CAM_STREAM_TYPE_PREVIEW\<rparr>"

lemma platform_sample: "platform_ok (Some sample_venus) False sample_padding"
  by (simp add: platform_ok_def sample_venus_ok sample_padding_def padding_ok_def)

theorem stream_layout_witness:
  "layout_ok mp_stride [(1920, 1080), (1920, 540)]
     (fst (snd (calc_offset (Some sample_venus) False sample_padding
       (sample_stream CAM_STREAM_TYPE_PREVIEW CAM_FORMAT_YUV_420_NV12_VENUS))))"
proof -
  let ?s = "sample_stream CAM_STREAM_TYPE_PREVIEW CAM_FORMAT_YUV_420_NV12_VENUS"
  have "stream_type ?s = CAM_STREAM_TYPE_PREVIEW" "stream_fmt ?s = CAM_FORMAT_YUV_420_NV12_VENUS"
    "rotated_dim ?s = \<lparr>dim_width = 1920, dim_height = 1080\<rparr>" "dim_ok (stream_dim ?s)"
    "length (mp (buf_planes ?s)) = 8"
    by (simp_all add: sample_stream_def rotated_dim_def dim_ok_def max_dim_def)
  then show ?thesis
    using stream_layout [OF _ platform_sample, of ?s]
    by (auto simp: supported_def preview_formats_def line_bytes_def image_planes_def yuv_planes_def semi_planar_def)
qed

text \<open>
  On family A with padded planes the chroma image may end behind its plane: a snapshot of
  1920 by 1080 with planes padded to 4096.
\<close>

definition chroma :: cam_mp_len_offset where
  "chroma = mp (snd (calc_offset_snapshot True CAM_FORMAT_YUV_420_NV21 \<lparr>dim_width = 1920, dim_height = 1080\<rparr>
     (sample_padding\<lparr>plane_padding := 4096\<rparr>) \<lparr>num_planes = 0, mp = replicate 8 no_plane, frame_len = 0\<rparr>)) ! 1"

lemma snapshot_chroma_overrun: "unat (mp_len chroma) = 1052672" "unat (mp_offset chroma) + 1920 * 540 = 1053184"
  by (simp_all add: chroma_def calc_offset_snapshot_def layout_padded_def Let_def sample_padding_def planes2_def
     plane_def nth_list_update pad_to_size_def idiv_def signed_divide_int_def)

end
