(* ===== verification/LocHeap.thy ===== *)
theory LocHeap
  imports Prelude "HOL-Library.Multiset"
begin

text \<open>
  The heap of the GPS utilities (\<open>gps/utils/LocHeap.cpp\<close>). The nodes are owned by their
  parents and never shared, so the tree of pointers is a tree value: a function that takes a
  \<open>LocHeapNode*&\<close> returns the new subtree beside its result. The data are pointers the
  client owns: they are compared by address (\<open>=\<close>) and ranked by the client's \<open>ranks\<close>, a
  parameter. \<open>mSize\<close> is the machine's \<open>int\<close>.

  \<open>loc_rankable\<close> is the contract of \<open>LocRankable::ranks\<close> that the heap relies on; under it
  every operation keeps the heap consistent, and the lemmas say which data it holds.
\<close>

section \<open>The code\<close>

datatype 'a heap_node =
    NoNode
  | HeapNode (mSize: int32) (mLeft: "'a heap_node") (mData: 'a) (mRight: "'a heap_node")
where
  "mSize NoNode = 0"

definition outRanks :: "('a \<Rightarrow> 'a \<Rightarrow> int) \<Rightarrow> 'a \<Rightarrow> 'a \<Rightarrow> bool" where
  "outRanks ranks a b \<longleftrightarrow> ranks a b > 0"

definition new_node :: "'a \<Rightarrow> 'a heap_node" where
  "new_node d = HeapNode 1 NoNode d NoNode"

text \<open>
  \<open>LocHeapNode::push\<close> on a node, with the data of the new leaf. The swap leaves the higher
  ranking data in the node and the other in the leaf, which goes down.
\<close>

fun node_push :: "('a \<Rightarrow> 'a \<Rightarrow> int) \<Rightarrow> 'a \<Rightarrow> 'a heap_node \<Rightarrow> 'a heap_node" where
  "node_push ranks d NoNode = new_node d"
| "node_push ranks d (HeapNode n l e r) =
    (let (here, down) = (if outRanks ranks d e then (d, e) else (e, d))
     in if l = NoNode then HeapNode (n + 1) (new_node down) here r
        else if r = NoNode then HeapNode (n + 1) l here (new_node down)
        else if mSize l \<le>s mSize r then HeapNode (n + 1) (node_push ranks down l) here r
        else HeapNode (n + 1) l here (node_push ranks down r))"

fun set_data :: "'a \<Rightarrow> 'a heap_node \<Rightarrow> 'a heap_node" where
  "set_data d NoNode = NoNode"
| "set_data d (HeapNode n l e r) = HeapNode n l d r"

text \<open>
  \<open>LocHeapNode::pop\<close>: the data of the popped node, which is that of the top, swapped down to
  a leaf; and the tree without that leaf.
\<close>

lemma size_set_data [simp]: "size (set_data d t) = size t"
  by (cases t) simp_all

function node_pop :: "('a \<Rightarrow> 'a \<Rightarrow> int) \<Rightarrow> 'a heap_node \<Rightarrow> 'a option \<times> 'a heap_node" where
  "node_pop ranks NoNode = (None, NoNode)"
| "node_pop ranks (HeapNode n l d r) =
    (if l \<noteq> NoNode \<or> r \<noteq> NoNode then
       if l = NoNode \<or> r \<noteq> NoNode \<and> \<not> outRanks ranks (mData l) (mData r) then
         (case node_pop ranks (set_data d r) of
            (p, r') \<Rightarrow> (p, HeapNode (n - 1) l (mData r) r'))
       else
         (case node_pop ranks (set_data d l) of
            (p, l') \<Rightarrow> (p, HeapNode (n - 1) l' (mData l) r))
     else (Some d, NoNode))"
  by pat_completeness auto
termination by (relation "measure (\<lambda>(_, t). size t)") auto

text \<open>\<open>LocHeapNode::remove\<close>: the removed data, if the subtree holds it.\<close>

fun node_remove :: "('a \<Rightarrow> 'a \<Rightarrow> int) \<Rightarrow> 'a heap_node \<Rightarrow> 'a \<Rightarrow> 'a option \<times> 'a heap_node" where
  "node_remove ranks NoNode x = (None, NoNode)"
| "node_remove ranks (HeapNode n l d r) x =
    (if x = d then node_pop ranks (HeapNode n l d r)
     else if \<not> outRanks ranks x d then
       (case (if l \<noteq> NoNode then node_remove ranks l x else (None, l)) of
          (Some y, l') \<Rightarrow> (Some y, HeapNode (n - 1) l' d r)
        | (None, l') \<Rightarrow>
            (case (if r \<noteq> NoNode then node_remove ranks r x else (None, r)) of
               (Some y, r') \<Rightarrow> (Some y, HeapNode (n - 1) l' d r')
             | (None, r') \<Rightarrow> (None, HeapNode n l' d r')))
     else (None, HeapNode n l d r))"

fun checkNodes :: "('a \<Rightarrow> 'a \<Rightarrow> int) \<Rightarrow> 'a heap_node \<Rightarrow> bool" where
  "checkNodes ranks NoNode = True"
| "checkNodes ranks (HeapNode n l d r) =
    (if l \<noteq> NoNode \<and> (outRanks ranks (mData l) d \<or> \<not> checkNodes ranks l) then False
     else if r \<noteq> NoNode \<and> (outRanks ranks (mData r) d \<or> \<not> checkNodes ranks r) then False
     else n - (if l \<noteq> NoNode then mSize l else 0) - (if r \<noteq> NoNode then mSize r else 0) = 1)"

text \<open>The class \<open>LocHeap\<close>: \<open>mTree\<close> is \<open>NoNode\<close> when it is \<open>NULL\<close>.\<close>

definition heap_push :: "('a \<Rightarrow> 'a \<Rightarrow> int) \<Rightarrow> 'a \<Rightarrow> 'a heap_node \<Rightarrow> 'a heap_node" where
  "heap_push ranks d mTree =
    (if mTree = NoNode then new_node d else node_push ranks d mTree)"

definition heap_peek :: "'a heap_node \<Rightarrow> 'a option" where
  "heap_peek mTree = (if mTree = NoNode then None else Some (mData mTree))"

definition heap_pop :: "('a \<Rightarrow> 'a \<Rightarrow> int) \<Rightarrow> 'a heap_node \<Rightarrow> 'a option \<times> 'a heap_node" where
  "heap_pop ranks mTree =
    (if mTree = NoNode then (None, mTree) else node_pop ranks mTree)"

definition heap_remove ::
  "('a \<Rightarrow> 'a \<Rightarrow> int) \<Rightarrow> 'a heap_node \<Rightarrow> 'a \<Rightarrow> 'a option \<times> 'a heap_node" where
  "heap_remove ranks mTree x =
    (if mTree = NoNode then (None, mTree) else node_remove ranks mTree x)"

definition getTreeSize :: "'a heap_node \<Rightarrow> int32" where
  "getTreeSize mTree = (if mTree = NoNode then 0 else mSize mTree)"

section \<open>What a heap holds\<close>

fun mset_heap :: "'a heap_node \<Rightarrow> 'a multiset" where
  "mset_heap NoNode = {#}"
| "mset_heap (HeapNode n l d r) = add_mset d (mset_heap l + mset_heap r)"

text \<open>Sizes are right and no data outranks what is above it, at any distance.\<close>

fun sizes_ok :: "'a heap_node \<Rightarrow> bool" where
  "sizes_ok NoNode = True"
| "sizes_ok (HeapNode n l d r) \<longleftrightarrow>
     n = of_nat (size (mset_heap (HeapNode n l d r))) \<and> sizes_ok l \<and> sizes_ok r"

fun heap_ordered :: "('a \<Rightarrow> 'a \<Rightarrow> int) \<Rightarrow> 'a heap_node \<Rightarrow> bool" where
  "heap_ordered ranks NoNode = True"
| "heap_ordered ranks (HeapNode n l d r) \<longleftrightarrow>
     (\<forall>x \<in># mset_heap l + mset_heap r. \<not> outRanks ranks x d) \<and>
     heap_ordered ranks l \<and> heap_ordered ranks r"

definition heap_ok :: "('a \<Rightarrow> bool) \<Rightarrow> ('a \<Rightarrow> 'a \<Rightarrow> int) \<Rightarrow> 'a heap_node \<Rightarrow> bool" where
  "heap_ok valid ranks t \<longleftrightarrow>
     sizes_ok t \<and> heap_ordered ranks t \<and> (\<forall>x \<in># mset_heap t. valid x)"

lemma mset_heap_empty [simp]: "mset_heap t = {#} \<longleftrightarrow> t = NoNode"
  by (cases t) simp_all

lemma mSize_ok: "sizes_ok t \<Longrightarrow> mSize t = of_nat (size (mset_heap t))"
  by (cases t) simp_all

lemma mData_in_heap: "t \<noteq> NoNode \<Longrightarrow> mData t \<in># mset_heap t"
  by (cases t) simp_all

lemma node_push_mset [simp]: "mset_heap (node_push ranks d t) = add_mset d (mset_heap t)"
  by (induction t arbitrary: d) (auto simp: new_node_def Let_def)

lemma node_push_sizes: "sizes_ok t \<Longrightarrow> sizes_ok (node_push ranks d t)"
  by (induction t arbitrary: d) (auto simp: new_node_def Let_def)

lemma mset_set_data [simp]:
  "t \<noteq> NoNode \<Longrightarrow> mset_heap (set_data d t) = add_mset d (mset_heap t - {#mData t#})"
  by (cases t) simp_all

lemma set_data_NoNode [simp]: "set_data d t = NoNode \<longleftrightarrow> t = NoNode"
  by (cases t) simp_all

lemma sizes_set_data [simp]: "sizes_ok (set_data d t) = sizes_ok t"
  by (cases t) simp_all

lemma mData_set_data [simp]: "t \<noteq> NoNode \<Longrightarrow> mData (set_data d t) = d"
  by (cases t) simp_all

text \<open>
  Popping induces on the subtrees with the top's data put in, where \<open>pop\<close> goes on.
\<close>

lemma node_pop_induct [case_names NoNode HeapNode]:
  assumes "P NoNode"
    and "\<And>n l d r. P (set_data d l) \<Longrightarrow> P (set_data d r) \<Longrightarrow> P (HeapNode n l d r)"
  shows "P t"
proof (induction t rule: measure_induct_rule [where f = size])
  case (less t)
  then show ?case using assms by (cases t) simp_all
qed

text \<open>The data popped is that of the top, and the rest stays.\<close>

lemma node_pop_mset:
  "t \<noteq> NoNode \<Longrightarrow>
   fst (node_pop ranks t) = Some (mData t) \<and>
   mset_heap (snd (node_pop ranks t)) = mset_heap t - {#mData t#}"
proof (induction t rule: node_pop_induct)
  case (HeapNode n l d r)
  then show ?case using mData_in_heap [of l] mData_in_heap [of r]
    by (auto split: prod.splits simp: multiset_eq_iff)
qed simp

lemma fst_node_pop [simp]: "t \<noteq> NoNode \<Longrightarrow> fst (node_pop ranks t) = Some (mData t)"
  by (simp add: node_pop_mset)

lemma node_pop_mset_below [simp]:
  "t \<noteq> NoNode \<Longrightarrow>
   mset_heap (snd (node_pop ranks (set_data d t))) = mset_heap t - {#mData t#}"
  using node_pop_mset [of "set_data d t" ranks] by simp

lemma size_Suc_below [simp]:
  "t \<noteq> NoNode \<Longrightarrow> Suc (size (mset_heap t - {#mData t#})) = size (mset_heap t)"
  by (metis mData_in_heap size_Suc_Diff1)

lemma of_nat_size_below:
  "t \<noteq> NoNode \<Longrightarrow>
   (of_nat (size (mset_heap t - {#mData t#})) :: int32) = of_nat (size (mset_heap t)) - 1"
  by (metis add_diff_cancel_left' of_nat_Suc size_Suc_below)

lemma node_pop_belowD:
  "node_pop ranks (set_data d t) = (p, t') \<Longrightarrow> t \<noteq> NoNode \<Longrightarrow>
   p = Some d \<and> mset_heap t' = mset_heap t - {#mData t#}"
  using node_pop_mset_below [of t ranks d] fst_node_pop [of "set_data d t" ranks] by simp

lemma node_pop_sizes: "sizes_ok t \<Longrightarrow> sizes_ok (snd (node_pop ranks t))"
proof (induction t rule: node_pop_induct)
  case (HeapNode n l d r)
  then show ?case
    by (auto simp: of_nat_size_below dest: node_pop_belowD split: prod.splits)
qed simp

lemma diff_union_single_conv2:
  "x \<in># M \<Longrightarrow> M - {#x#} + N = M + N - {#x#}" "x \<in># N \<Longrightarrow> M + (N - {#x#}) = M + N - {#x#}"
  by (simp_all add: multiset_eq_iff)

text \<open>What \<open>remove\<close> takes out, whatever it finds.\<close>

lemma node_pop_topD:
  "node_pop ranks (HeapNode n l d r) = (p, t') \<Longrightarrow>
   p = Some d \<and> mset_heap t' = mset_heap l + mset_heap r"
  using node_pop_mset [of "HeapNode n l d r" ranks] by (simp del: node_pop.simps)

lemma node_remove_none: "node_remove ranks t x = (None, t') \<Longrightarrow> t' = t"
  by (induction t arbitrary: t')
    (auto simp del: node_pop.simps dest: node_pop_topD split: if_splits prod.splits option.splits)

lemma node_remove_some:
  "node_remove ranks t x = (Some y, t') \<Longrightarrow>
   y = x \<and> x \<in># mset_heap t \<and> mset_heap t' = mset_heap t - {#x#}"
proof (induction t arbitrary: y t')
  case (HeapNode n l d r)
  show ?case
  proof (cases "x = d")
    case True
    then have "node_pop ranks (HeapNode n l d r) = (Some y, t')"
      using HeapNode.prems by (simp del: node_pop.simps)
    from node_pop_topD [OF this] True show ?thesis by simp
  next
    case False
    obtain pl l' pr r' where L: "node_remove ranks l x = (pl, l')"
      and R: "node_remove ranks r x = (pr, r')" by fastforce
    have LI: "y' = x \<and> x \<in># mset_heap l \<and> mset_heap l' = mset_heap l - {#x#}" if "pl = Some y'" for y'
      using HeapNode.IH(1) L that by simp
    have RI: "y' = x \<and> x \<in># mset_heap r \<and> mset_heap r' = mset_heap r - {#x#}" if "pr = Some y'" for y'
      using HeapNode.IH(2) R that by simp
    have N: "pl = None \<Longrightarrow> l' = l" using L node_remove_none by fastforce
    have P: "(if pl = None then pr else pl) = Some y \<and>
      t' = (if pl = None then HeapNode (n - 1) l' d r' else HeapNode (n - 1) l' d r)"
      using HeapNode.prems L R False by (auto split: if_splits option.splits)
    show ?thesis
    proof (cases pl)
      case None
      with P N RI [of y] False show ?thesis by (simp add: diff_union_single_conv2)
    next
      case (Some z)
      with P LI [of y] False show ?thesis by (simp add: diff_union_single_conv2)
    qed
  qed
qed simp

lemma of_nat_size_minus1:
  "x \<in># M \<Longrightarrow> (of_nat (size (M - {#x#})) :: int32) = of_nat (size M) - 1"
  by (metis add_diff_cancel_left' of_nat_Suc size_Suc_Diff1)

lemma node_remove_sizes:
  "node_remove ranks t x = (p, t') \<Longrightarrow> sizes_ok t \<Longrightarrow> sizes_ok t'"
proof (induction t arbitrary: p t')
  case (HeapNode n l d r)
  show ?case
  proof (cases "x = d")
    case True
    then show ?thesis using HeapNode.prems node_pop_sizes [of "HeapNode n l d r" ranks]
      by (simp del: node_pop.simps)
  next
    case False
    obtain pl l' pr r' where L: "node_remove ranks l x = (pl, l')"
      and R: "node_remove ranks r x = (pr, r')" by fastforce
    have "sizes_ok l'" "sizes_ok r'" using HeapNode L R by auto
    moreover have "pl = None \<Longrightarrow> l' = l" "pr = None \<Longrightarrow> r' = r"
      using L R node_remove_none by fastforce+
    moreover have "pl \<noteq> None \<Longrightarrow> x \<in># mset_heap l \<and> mset_heap l' = mset_heap l - {#x#}"
      "pr \<noteq> None \<Longrightarrow> x \<in># mset_heap r \<and> mset_heap r' = mset_heap r - {#x#}"
      using L R node_remove_some by fastforce+
    ultimately show ?thesis using HeapNode.prems False L R
      by (cases pl; cases pr) (auto simp: of_nat_size_minus1 split: if_splits)
  qed
qed simp

lemma heap_ok_empty [simp]: "heap_ok valid ranks NoNode"
  by (simp add: heap_ok_def)

section \<open>The contract of \<open>ranks\<close>\<close>

text \<open>
  On the data the client puts in, \<open>ranks\<close> changes sign with its arguments and what does not
  outrank \<open>b\<close> does not outrank what \<open>b\<close> does not outrank.
\<close>

locale loc_rankable =
  fixes valid :: "'a \<Rightarrow> bool" and ranks :: "'a \<Rightarrow> 'a \<Rightarrow> int"
  assumes ranks_sign: "valid a \<Longrightarrow> valid b \<Longrightarrow> ranks a b > 0 \<longleftrightarrow> ranks b a < 0"
    and ranks_trans: "valid a \<Longrightarrow> valid b \<Longrightarrow> valid c \<Longrightarrow>
      \<not> outRanks ranks b a \<Longrightarrow> \<not> outRanks ranks c b \<Longrightarrow> \<not> outRanks ranks c a"
begin

lemma not_both: "valid a \<Longrightarrow> valid b \<Longrightarrow> outRanks ranks a b \<Longrightarrow> \<not> outRanks ranks b a"
  using ranks_sign [of a b] by (auto simp: outRanks_def)

lemma not_outranks_self [simp]: "valid a \<Longrightarrow> \<not> outRanks ranks a a"
  using not_both [of a a] by blast

lemma outranks_above:
  "valid a \<Longrightarrow> valid b \<Longrightarrow> valid c \<Longrightarrow> outRanks ranks a b \<Longrightarrow> \<not> outRanks ranks c b \<Longrightarrow>
   \<not> outRanks ranks c a"
  using ranks_trans [of a b c] not_both [of a b] by blast

lemma top_ranks:
  "heap_ok valid ranks t \<Longrightarrow> x \<in># mset_heap t \<Longrightarrow> \<not> outRanks ranks x (mData t)"
  by (cases t) (auto simp: heap_ok_def)

lemma node_push_ordered:
  "valid d \<Longrightarrow> \<forall>x \<in># mset_heap t. valid x \<Longrightarrow> heap_ordered ranks t \<Longrightarrow>
   heap_ordered ranks (node_push ranks d t)"
proof (induction t arbitrary: d)
  case (HeapNode n l e r)
  let ?here = "if outRanks ranks d e then d else e" and ?down = "if outRanks ranks d e then e else d"
  have "valid ?here" "valid ?down" using HeapNode.prems by auto
  moreover have "\<not> outRanks ranks ?down ?here" using HeapNode.prems not_both by auto
  moreover have "\<not> outRanks ranks x ?here" if "x \<in># mset_heap l + mset_heap r" for x
    using HeapNode.prems that outranks_above [of d e x] by auto
  ultimately show ?case using HeapNode by (auto simp: new_node_def Let_def)
qed (simp add: new_node_def)

lemma heap_push_ok: "valid d \<Longrightarrow> heap_ok valid ranks t \<Longrightarrow> heap_ok valid ranks (heap_push ranks d t)"
  by (auto simp: heap_ok_def heap_push_def node_push_sizes node_push_ordered new_node_def)

lemma set_data_ordered:
  "heap_ordered ranks t \<Longrightarrow> \<forall>x \<in># mset_heap t. \<not> outRanks ranks x d \<Longrightarrow>
   heap_ordered ranks (set_data d t)"
  by (cases t) auto

lemma set_data_valid:
  "valid d \<Longrightarrow> \<forall>x \<in># mset_heap t. valid x \<Longrightarrow> \<forall>x \<in># mset_heap (set_data d t). valid x"
  by (cases t) auto

lemma top_above:
  "heap_ordered ranks t \<Longrightarrow> \<forall>x \<in># mset_heap t. valid x \<Longrightarrow> x \<in># mset_heap t \<Longrightarrow>
   \<not> outRanks ranks x (mData t)"
  by (cases t) auto

text \<open>The higher of two tops is above both heaps.\<close>

lemma higher_top:
  assumes "heap_ordered ranks l" "heap_ordered ranks r"
    and "\<forall>x \<in># mset_heap l + mset_heap r. valid x"
    and "r \<noteq> NoNode" "l = NoNode \<or> \<not> outRanks ranks (mData l) (mData r)"
    and "x \<in># mset_heap l + mset_heap r"
  shows "\<not> outRanks ranks x (mData r)"
proof (cases "x \<in># mset_heap r")
  case True
  then show ?thesis using assms top_above [of r x] by auto
next
  case False
  then have x: "x \<in># mset_heap l" using assms(6) by simp
  then have l: "l \<noteq> NoNode" by auto
  then have "\<not> outRanks ranks x (mData l)" using assms top_above [of l x] x by auto
  moreover have "valid (mData l)" "valid (mData r)" "valid x"
    using assms(3) l assms(4) x mData_in_heap by auto
  ultimately show ?thesis using assms(5) l ranks_trans by blast
qed

lemma node_pop_ordered:
  "heap_ordered ranks t \<Longrightarrow> \<forall>x \<in># mset_heap t. valid x \<Longrightarrow>
   heap_ordered ranks (snd (node_pop ranks t))"
proof (induction t rule: node_pop_induct)
  case (HeapNode n l d r)
  let ?l = "snd (node_pop ranks (set_data d l))" and ?r = "snd (node_pop ranks (set_data d r))"
  have L: "heap_ordered ranks (set_data d l)" "heap_ordered ranks (set_data d r)"
    using HeapNode.prems by (simp_all add: set_data_ordered)
  have V: "\<forall>x \<in># mset_heap (set_data d l). valid x" "\<forall>x \<in># mset_heap (set_data d r). valid x"
    using HeapNode.prems set_data_valid by auto
  have right_top: "\<not> outRanks ranks x (mData r)"
    if "r \<noteq> NoNode" "l = NoNode \<or> \<not> outRanks ranks (mData l) (mData r)"
      "x \<in># mset_heap l + mset_heap r" for x
    using that HeapNode.prems by (intro higher_top [of l r]) auto
  have left_top: "\<not> outRanks ranks x (mData l)"
    if "l \<noteq> NoNode" "r = NoNode \<or> outRanks ranks (mData l) (mData r)"
      "x \<in># mset_heap l + mset_heap r" for x
  proof (rule higher_top [of r l])
    show "r = NoNode \<or> \<not> outRanks ranks (mData r) (mData l)"
      using that(1,2) HeapNode.prems mData_in_heap [of l] mData_in_heap [of r]
        not_both [of "mData l" "mData r"] by auto
  qed (use that HeapNode.prems in auto)
  have sub: "heap_ordered ranks ?l" "heap_ordered ranks ?r"
    by (rule HeapNode.IH(1) [OF L(1) V(1)], rule HeapNode.IH(2) [OF L(2) V(2)])
  consider (none) "l = NoNode" "r = NoNode"
    | (right) "r \<noteq> NoNode" "l = NoNode \<or> \<not> outRanks ranks (mData l) (mData r)"
    | (left) "l \<noteq> NoNode" "r = NoNode \<or> outRanks ranks (mData l) (mData r)" by blast
  then show ?case
  proof cases
    case right
    then have "snd (node_pop ranks (HeapNode n l d r)) = HeapNode (n - 1) l (mData r) ?r"
      by (auto split: prod.splits)
    then show ?thesis using HeapNode.prems sub right right_top [OF right]
      by (auto simp del: node_pop.simps dest!: in_diffD)
  next
    case left
    then have "snd (node_pop ranks (HeapNode n l d r)) = HeapNode (n - 1) ?l (mData l) r"
      by (auto split: prod.splits)
    then show ?thesis using HeapNode.prems sub left left_top [OF left]
      by (auto simp del: node_pop.simps dest!: in_diffD)
  qed simp
qed simp

lemma node_pop_ok:
  "heap_ok valid ranks t \<Longrightarrow> heap_ok valid ranks (snd (node_pop ranks t))"
proof (cases "t = NoNode")
  case False
  assume "heap_ok valid ranks t"
  with False show ?thesis using node_pop_mset [of t ranks]
    by (auto simp: heap_ok_def node_pop_sizes node_pop_ordered dest: in_diffD)
qed simp

lemma heap_pop_ok: "heap_ok valid ranks t \<Longrightarrow> heap_ok valid ranks (snd (heap_pop ranks t))"
  by (simp add: heap_pop_def node_pop_ok)

lemma node_remove_ordered:
  "node_remove ranks t x = (p, t') \<Longrightarrow> heap_ordered ranks t \<Longrightarrow> \<forall>x \<in># mset_heap t. valid x \<Longrightarrow>
   heap_ordered ranks t'"
proof (induction t arbitrary: p t')
  case (HeapNode n l d r)
  show ?case
  proof (cases "x = d")
    case True
    then have "t' = snd (node_pop ranks (HeapNode n l d r))"
      using HeapNode.prems(1) by (simp del: node_pop.simps)
    then show ?thesis using HeapNode.prems node_pop_ordered by blast
  next
    case False
    obtain pl l' pr r' where L: "node_remove ranks l x = (pl, l')"
      and R: "node_remove ranks r x = (pr, r')" by fastforce
    have o: "heap_ordered ranks l'" "heap_ordered ranks r'"
      using HeapNode L R by auto
    have "set_mset (mset_heap l') \<subseteq> set_mset (mset_heap l)"
      using L node_remove_none [of ranks l x l'] node_remove_some [of ranks l x _ l']
      by (cases pl) (auto dest: in_diffD)
    moreover have "set_mset (mset_heap r') \<subseteq> set_mset (mset_heap r)"
      using R node_remove_none [of ranks r x r'] node_remove_some [of ranks r x _ r']
      by (cases pr) (auto dest: in_diffD)
    moreover have "t' \<in> {HeapNode m a d b | m a b. a \<in> {l, l'} \<and> b \<in> {r, r'}}"
      using HeapNode.prems(1) L R False by (auto split: if_splits option.splits)
    ultimately show ?thesis using HeapNode.prems(2) o by fastforce
  qed
qed simp

text \<open>
  The search skips the subtrees of a node that the wanted data outranks: nothing there can be
  it.
\<close>

lemma node_remove_finds:
  "heap_ordered ranks t \<Longrightarrow> \<forall>x \<in># mset_heap t. valid x \<Longrightarrow> x \<in># mset_heap t \<Longrightarrow>
   \<exists>t'. node_remove ranks t x = (Some x, t')"
proof (induction t)
  case (HeapNode n l d r)
  show ?case
  proof (cases "x = d")
    case True
    then show ?thesis using fst_node_pop [of "HeapNode n l d r" ranks]
      by (cases "node_pop ranks (HeapNode n l d r)") (simp del: node_pop.simps)
  next
    case False
    then have "x \<in># mset_heap l \<or> x \<in># mset_heap r" and "\<not> outRanks ranks x d"
      using HeapNode.prems by auto
    then show ?thesis using HeapNode False
      by (cases "fst (node_remove ranks l x)")
        (auto split: prod.splits option.splits dest: node_remove_some)
  qed
qed simp

lemma heap_remove_ok:
  "heap_ok valid ranks t \<Longrightarrow> heap_ok valid ranks (snd (heap_remove ranks t x))"
proof -
  assume t: "heap_ok valid ranks t"
  obtain p t' where r: "node_remove ranks t x = (p, t')" by fastforce
  have "set_mset (mset_heap t') \<subseteq> set_mset (mset_heap t)"
    using r node_remove_none [of ranks t x t'] node_remove_some [of ranks t x _ t']
    by (cases p) (auto dest: in_diffD)
  then show ?thesis
    using t r node_remove_ordered [OF r] node_remove_sizes [OF r]
    by (auto simp: heap_ok_def heap_remove_def)
qed

lemma heap_remove_result:
  assumes "heap_ok valid ranks t"
  shows "heap_remove ranks t x =
     (if x \<in># mset_heap t then Some x else None, snd (heap_remove ranks t x))"
    and "mset_heap (snd (heap_remove ranks t x)) = mset_heap t - {#x#}"
proof -
  obtain p t' where r: "node_remove ranks t x = (p, t')" by fastforce
  show "heap_remove ranks t x =
     (if x \<in># mset_heap t then Some x else None, snd (heap_remove ranks t x))"
    using r node_remove_finds [of t x] assms node_remove_some [of ranks t x _ t']
    by (cases p) (auto simp: heap_ok_def heap_remove_def)
  show "mset_heap (snd (heap_remove ranks t x)) = mset_heap t - {#x#}"
    using r node_remove_finds [of t x] assms node_remove_some [of ranks t x _ t']
      node_remove_none [of ranks t x t']
    by (cases p; cases "x \<in># mset_heap t") (auto simp: heap_ok_def heap_remove_def diff_single_trivial)
qed

lemma heap_pop_result:
  "t \<noteq> NoNode \<Longrightarrow> fst (heap_pop ranks t) = Some (mData t) \<and>
   mset_heap (snd (heap_pop ranks t)) = mset_heap t - {#mData t#}"
  by (simp add: heap_pop_def node_pop_mset)

lemma checkNodes_ok: "heap_ok valid ranks t \<Longrightarrow> checkNodes ranks t"
proof (induction t)
  case (HeapNode n l d r)
  then have "heap_ok valid ranks l" "heap_ok valid ranks r" by (auto simp: heap_ok_def)
  with HeapNode show ?case
    using mData_in_heap [of l] mData_in_heap [of r] mSize_ok [of l] mSize_ok [of r]
    by (auto simp: heap_ok_def)
qed simp

end

section \<open>The heap as a bag\<close>

text \<open>
  What a client may do with a heap, and what it may see: \<open>bag_step\<close> is the specification, on
  the multiset of the data in the heap. A pop gives one of the data that nothing in the heap
  outranks; which one, when several rank the same, is left open.
\<close>

datatype 'a heap_op = HPush 'a | HPeek | HPop | HRemove 'a

fun heap_step :: "('a \<Rightarrow> 'a \<Rightarrow> int) \<Rightarrow> 'a heap_op \<Rightarrow> 'a heap_node \<Rightarrow> 'a option \<times> 'a heap_node" where
  "heap_step ranks (HPush d) t = (None, heap_push ranks d t)"
| "heap_step ranks HPeek t = (heap_peek t, t)"
| "heap_step ranks HPop t = heap_pop ranks t"
| "heap_step ranks (HRemove d) t = heap_remove ranks t d"

fun heap_run ::
  "('a \<Rightarrow> 'a \<Rightarrow> int) \<Rightarrow> 'a heap_op list \<Rightarrow> 'a heap_node \<Rightarrow> 'a option list \<times> 'a heap_node" where
  "heap_run ranks [] t = ([], t)"
| "heap_run ranks (x # xs) t =
    (case heap_step ranks x t of (r, t) \<Rightarrow>
       case heap_run ranks xs t of (rs, t) \<Rightarrow> (r # rs, t))"

definition highest :: "('a \<Rightarrow> 'a \<Rightarrow> int) \<Rightarrow> 'a multiset \<Rightarrow> 'a option \<Rightarrow> bool" where
  "highest ranks M r \<longleftrightarrow>
    (case r of None \<Rightarrow> M = {#} | Some d \<Rightarrow> d \<in># M \<and> (\<forall>x \<in># M. \<not> outRanks ranks x d))"

fun bag_step ::
  "('a \<Rightarrow> 'a \<Rightarrow> int) \<Rightarrow> 'a heap_op \<Rightarrow> 'a multiset \<Rightarrow> 'a option \<Rightarrow> 'a multiset \<Rightarrow> bool" where
  "bag_step ranks (HPush d) M r M' \<longleftrightarrow> r = None \<and> M' = add_mset d M"
| "bag_step ranks HPeek M r M' \<longleftrightarrow> highest ranks M r \<and> M' = M"
| "bag_step ranks HPop M r M' \<longleftrightarrow> highest ranks M r \<and> M' = M - mset (case r of None \<Rightarrow> [] | Some d \<Rightarrow> [d])"
| "bag_step ranks (HRemove d) M r M' \<longleftrightarrow> r = (if d \<in># M then Some d else None) \<and> M' = M - {#d#}"

fun bag_run ::
  "('a \<Rightarrow> 'a \<Rightarrow> int) \<Rightarrow> 'a heap_op list \<Rightarrow> 'a multiset \<Rightarrow> 'a option list \<Rightarrow> 'a multiset \<Rightarrow> bool" where
  "bag_run ranks [] M rs M' \<longleftrightarrow> rs = [] \<and> M' = M"
| "bag_run ranks (x # xs) M rs M' \<longleftrightarrow>
    (\<exists>r rs' M1. rs = r # rs' \<and> bag_step ranks x M r M1 \<and> bag_run ranks xs M1 rs' M')"

definition pushed :: "'a heap_op list \<Rightarrow> 'a list" where
  "pushed xs = concat (map (\<lambda>x. case x of HPush d \<Rightarrow> [d] | _ \<Rightarrow> []) xs)"

definition heap_take :: "('a \<Rightarrow> 'a \<Rightarrow> int) \<Rightarrow> 'a heap_node \<Rightarrow> ('a \<times> 'a heap_node) option" where
  "heap_take ranks t = (case heap_pop ranks t of (None, _) \<Rightarrow> None | (Some d, t') \<Rightarrow> Some (d, t'))"

lemma heap_push_mset [simp]: "mset_heap (heap_push ranks d t) = add_mset d (mset_heap t)"
  by (simp add: heap_push_def new_node_def)

lemma getTreeSize_ok: "heap_ok valid ranks t \<Longrightarrow> getTreeSize t = of_nat (size (mset_heap t))"
  by (simp add: getTreeSize_def heap_ok_def mSize_ok)

context loc_rankable begin

lemma peek_highest: "heap_ok valid ranks t \<Longrightarrow> highest ranks (mset_heap t) (heap_peek t)"
  using top_ranks mData_in_heap by (auto simp: highest_def heap_peek_def)

lemma pop_is_peek: "fst (heap_pop ranks t) = heap_peek t"
  using heap_pop_result [of t] by (auto simp: heap_peek_def heap_pop_def)

lemma pop_mset:
  "mset_heap (snd (heap_pop ranks t)) =
   mset_heap t - mset (case heap_peek t of None \<Rightarrow> [] | Some d \<Rightarrow> [d])"
  using heap_pop_result [of t] by (auto simp: heap_peek_def heap_pop_def)

lemma heap_step_bag:
  assumes "heap_ok valid ranks t" "\<And>d. op = HPush d \<Longrightarrow> valid d"
  shows "heap_ok valid ranks (snd (heap_step ranks op t))"
    and "bag_step ranks op (mset_heap t) (fst (heap_step ranks op t))
      (mset_heap (snd (heap_step ranks op t)))"
proof -
  show "heap_ok valid ranks (snd (heap_step ranks op t))"
    using assms by (cases op) (simp_all add: heap_push_ok heap_pop_ok heap_remove_ok)
  show "bag_step ranks op (mset_heap t) (fst (heap_step ranks op t))
      (mset_heap (snd (heap_step ranks op t)))"
  proof (cases op)
    case HPop
    then show ?thesis using assms pop_is_peek [of t] pop_mset [of t] peek_highest [of t] by simp
  next
    case (HRemove d)
    have "fst (heap_remove ranks t d) = (if d \<in># mset_heap t then Some d else None)"
      by (subst heap_remove_result(1) [OF assms(1)]) simp
    with HRemove show ?thesis using heap_remove_result(2) [OF assms(1), of d] by simp
  qed (use assms peek_highest in simp_all)
qed

lemma heap_run_bag:
  "heap_ok valid ranks t \<Longrightarrow> \<forall>d \<in> set (pushed ops). valid d \<Longrightarrow>
   heap_ok valid ranks (snd (heap_run ranks ops t)) \<and>
   bag_run ranks ops (mset_heap t) (fst (heap_run ranks ops t)) (mset_heap (snd (heap_run ranks ops t)))"
proof (induction ops arbitrary: t)
  case (Cons op ops)
  obtain r t1 where s: "heap_step ranks op t = (r, t1)" by fastforce
  obtain rs t2 where n: "heap_run ranks ops t1 = (rs, t2)" by fastforce
  have "\<And>d. op = HPush d \<Longrightarrow> valid d" "\<forall>d \<in> set (pushed ops). valid d"
    using Cons.prems(2) by (auto simp: pushed_def)
  then show ?case
    using Cons.IH [of t1] heap_step_bag [of t op] Cons.prems(1) s n by fastforce
qed simp

lemma heap_drain_sorted:
  "heap_ok valid ranks t \<Longrightarrow>
   case drain (heap_take ranks) (size (mset_heap t)) t of (xs, t') \<Rightarrow>
     t' = NoNode \<and> mset xs = mset_heap t \<and> sorted_wrt (\<lambda>a b. \<not> outRanks ranks b a) xs"
proof (induction "size (mset_heap t)" arbitrary: t)
  case (Suc n)
  then have ne: "t \<noteq> NoNode" by auto
  obtain t1 where p: "heap_pop ranks t = (Some (mData t), t1)"
    using heap_pop_result [OF ne] by (metis prod.collapse)
  have t1: "mset_heap t1 = mset_heap t - {#mData t#}" "heap_ok valid ranks t1"
    using heap_pop_result [OF ne] heap_pop_ok [OF Suc.prems] p by simp_all
  obtain xs t2 where d: "drain (heap_take ranks) n t1 = (xs, t2)" by fastforce
  have "n = size (mset_heap t1)" using t1(1) Suc.hyps(2) size_Suc_below [OF ne] by simp
  with Suc.hyps(1) [OF this t1(2)] d
  have IH: "t2 = NoNode" "mset xs = mset_heap t1" "sorted_wrt (\<lambda>a b. \<not> outRanks ranks b a) xs"
    by simp_all
  have "\<forall>x \<in> set xs. \<not> outRanks ranks x (mData t)"
    using top_ranks [OF Suc.prems] IH(2) t1(1) by (metis in_diffD set_mset_mset)
  moreover have "add_mset (mData t) (mset xs) = mset_heap t"
    using IH(2) t1(1) mData_in_heap [OF ne] by simp
  ultimately show ?case using p d IH Suc.hyps(2) [symmetric]
    by (simp add: heap_take_def)
qed simp

end

end
