(* ===== verification/LocTimer.thy ===== *)
theory LocTimer
  imports LocHeap
begin

text \<open>
  The timer service of the GPS utilities (\<open>gps/utils/LocTimer.cpp\<close>). A client's \<open>LocTimer\<close> has
  at most one \<open>LocTimerDelegate\<close>, which ticks in one of two containers (alarms that wake the
  device, and timers that do not). A container is a heap of delegates and a timerfd set to the
  time of the soonest. Three parties take turns: clients, which start and stop timers and so
  send messages; the message thread, which alone touches the heaps; and the poll thread, which
  waits on the timerfds and sends the expiry messages. Its three calls in \<open>expire\<close> are three
  steps, so that the message thread may run between them.

  Delegates are numbered as they are created and \<open>d_alive\<close> says which are not deleted; using a
  deleted one sets \<open>timer_fault\<close>. A callback is the list of calls it makes on the timers.
\<close>

section \<open>Times\<close>

record timespec =
  tv_sec :: int
  tv_nsec :: int

definition int_of_long :: "int \<Rightarrow> int" where
  "int_of_long x = sint (word_of_int x :: int32)"

text \<open>\<open>LocTimerDelegate::ranks\<close>, which is given a delegate: the \<open>NULL\<close> test never fails.\<close>

definition time_ranks :: "timespec \<Rightarrow> timespec \<Rightarrow> int" where
  "time_ranks this timer =
    (let rank = int_of_long (tv_sec timer - tv_sec this)
     in if rank = 0 then int_of_long (tv_nsec timer - tv_nsec this) else rank)"

definition delegate_ranks :: "(nat \<Rightarrow> timespec) \<Rightarrow> nat \<Rightarrow> nat \<Rightarrow> int" where
  "delegate_ranks ft a b = time_ranks (ft a) (ft b)"

definition future_time :: "timespec \<Rightarrow> int32 \<Rightarrow> timespec" where
  "future_time now timeOutInMs =
    (let futureTime = now\<lparr>tv_sec := tv_sec now + uint (timeOutInMs div 1000)\<rparr>;
         futureTime = futureTime\<lparr>tv_nsec := tv_nsec now + uint (timeOutInMs mod 1000 * 1000000)\<rparr>
     in if tv_nsec futureTime \<ge> 1000000000
        then futureTime\<lparr>tv_sec := tv_sec futureTime + tv_nsec futureTime div 1000000000,
               tv_nsec := tv_nsec futureTime mod 1000000000\<rparr>
        else futureTime)"

definition normal_time :: "timespec \<Rightarrow> bool" where
  "normal_time t \<longleftrightarrow> 0 \<le> tv_nsec t \<and> tv_nsec t < 1000000000"

definition valid_time :: "timespec \<Rightarrow> bool" where
  "valid_time t \<longleftrightarrow> 0 < tv_sec t \<and> tv_sec t < 2 ^ 31 \<and> normal_time t"

definition nanos :: "timespec \<Rightarrow> int" where
  "nanos t = tv_sec t * 1000000000 + tv_nsec t"

lemma int_of_long_small: "- (2 ^ 31) \<le> x \<Longrightarrow> x < 2 ^ 31 \<Longrightarrow> int_of_long x = x"
  by (simp add: int_of_long_def sint_sbintrunc' signed_take_bit_int_eq_self)

lemma time_ranks_valid:
  "valid_time a \<Longrightarrow> valid_time b \<Longrightarrow>
   time_ranks a b =
     (if tv_sec a = tv_sec b then tv_nsec b - tv_nsec a else tv_sec b - tv_sec a)"
  by (auto simp: time_ranks_def Let_def valid_time_def normal_time_def int_of_long_small)

lemma outranks_time [simp]:
  "valid_time a \<Longrightarrow> valid_time b \<Longrightarrow> time_ranks a b > 0 \<longleftrightarrow> nanos a < nanos b"
  by (auto simp: time_ranks_valid valid_time_def normal_time_def nanos_def)

lemma outranked_time:
  "valid_time a \<Longrightarrow> valid_time b \<Longrightarrow> time_ranks a b < 0 \<longleftrightarrow> nanos b < nanos a"
  by (auto simp: time_ranks_valid valid_time_def normal_time_def nanos_def)

interpretation timers: loc_rankable "\<lambda>d. valid_time (ft d)" "delegate_ranks ft"
  for ft :: "nat \<Rightarrow> timespec"
  by unfold_locales (auto simp: delegate_ranks_def outRanks_def outranked_time)

section \<open>The state\<close>

datatype timer_msg =
    MsgTimerPush bool nat
  | MsgTimerRemove bool nat
  | MsgTimerExpire bool

datatype timer_op = TStart nat int32 bool | TStop nat

datatype timer_event = Started nat | Stopped nat | CalledBack nat timespec timespec

record loc_timers =
  d_client :: "nat \<Rightarrow> nat option"       \<comment> \<open>\<open>mClient\<close> of a delegate\<close>
  d_time :: "nat \<Rightarrow> timespec"           \<comment> \<open>\<open>mFutureTime\<close>\<close>
  d_container :: "nat \<Rightarrow> bool option"   \<comment> \<open>\<open>mContainer\<close>, by \<open>wakeOnExpire\<close>\<close>
  d_alive :: "nat \<Rightarrow> bool"
  d_next :: nat
  c_timer :: "nat \<Rightarrow> nat option"        \<comment> \<open>\<open>mTimer\<close> of a client\<close>
  timer_heap :: "bool \<Rightarrow> nat heap_node" \<comment> \<open>the two containers\<close>
  fd_armed :: "bool \<Rightarrow> timespec option"
  fd_polled :: "bool \<Rightarrow> bool"
  timer_q :: "timer_msg list"
  poll_events :: "bool list"            \<comment> \<open>what \<open>epoll_wait\<close> gave, first the one in hand\<close>
  poll_phase :: nat                     \<comment> \<open>calls of \<open>expire\<close> done for it\<close>
  timer_log :: "timer_event list"
  timer_fault :: bool

definition init_timers :: loc_timers where
  "init_timers =
    \<lparr>d_client = (\<lambda>_. None), d_time = (\<lambda>_. \<lparr>tv_sec = 0, tv_nsec = 0\<rparr>), d_container = (\<lambda>_. None),
     d_alive = (\<lambda>_. False), d_next = 0, c_timer = (\<lambda>_. None), timer_heap = (\<lambda>_. NoNode),
     fd_armed = (\<lambda>_. None), fd_polled = (\<lambda>_. False), timer_q = [], poll_events = [],
     poll_phase = 0, timer_log = [], timer_fault = False\<rparr>"

definition ranks_in :: "loc_timers \<Rightarrow> nat \<Rightarrow> nat \<Rightarrow> int" where
  "ranks_in s = delegate_ranks (d_time s)"

definition sendMsg :: "timer_msg \<Rightarrow> loc_timers \<Rightarrow> loc_timers" where
  "sendMsg m s = s\<lparr>timer_q := timer_q s @ [m]\<rparr>"

definition deref :: "nat \<Rightarrow> loc_timers \<Rightarrow> loc_timers" where
  "deref d s = s\<lparr>timer_fault := timer_fault s \<or> \<not> d_alive s d\<rparr>"

definition log_event :: "timer_event \<Rightarrow> loc_timers \<Rightarrow> loc_timers" where
  "log_event e s = s\<lparr>timer_log := timer_log s @ [e]\<rparr>"

definition set_heap :: "bool \<Rightarrow> nat heap_node \<Rightarrow> loc_timers \<Rightarrow> loc_timers" where
  "set_heap w t s = s\<lparr>timer_heap := (timer_heap s)(w := t)\<rparr>"

section \<open>Containers and the poll thread\<close>

definition getSoonestTimer :: "bool \<Rightarrow> loc_timers \<Rightarrow> nat option" where
  "getSoonestTimer w s = heap_peek (timer_heap s w)"

definition addPoll :: "bool \<Rightarrow> loc_timers \<Rightarrow> loc_timers" where
  "addPoll w s = s\<lparr>fd_polled := (fd_polled s)(w := True)\<rparr>"

definition removePoll :: "bool \<Rightarrow> loc_timers \<Rightarrow> loc_timers" where
  "removePoll w s = s\<lparr>fd_polled := (fd_polled s)(w := False)\<rparr>"

text \<open>\<open>timerfd_settime\<close> with an absolute time; the time 0 disarms.\<close>

definition settime :: "bool \<Rightarrow> timespec \<Rightarrow> loc_timers \<Rightarrow> loc_timers" where
  "settime w t s =
    s\<lparr>fd_armed := (fd_armed s)(w := if tv_sec t = 0 \<and> tv_nsec t = 0 then None else Some t)\<rparr>"

definition no_delay :: timespec where
  "no_delay = \<lparr>tv_sec = 0, tv_nsec = 0\<rparr>"

definition updateSoonestTime :: "bool \<Rightarrow> nat option \<Rightarrow> loc_timers \<Rightarrow> loc_timers" where
  "updateSoonestTime w priorTop s =
    (let curTop = getSoonestTimer w s
     in if curTop \<noteq> priorTop then
          (case curTop of
             None \<Rightarrow> settime w no_delay (removePoll w s)
           | Some t \<Rightarrow>
               if priorTop = None \<or> outRanks (ranks_in s) t (the priorTop)
               then settime w (d_time s t) (addPoll w s)
               else s)
        else s)"

definition push_proc :: "bool \<Rightarrow> nat \<Rightarrow> loc_timers \<Rightarrow> loc_timers" where
  "push_proc w d s =
    (let priorTop = getSoonestTimer w s;
         s = set_heap w (heap_push (ranks_in s) d (timer_heap s w)) (deref d s)
     in updateSoonestTime w priorTop s)"

definition remove_proc :: "bool \<Rightarrow> nat \<Rightarrow> loc_timers \<Rightarrow> loc_timers" where
  "remove_proc w d s =
    (let priorTop = getSoonestTimer w s;
         (removed, t) = heap_remove (ranks_in s) (timer_heap s w) d;
         s = set_heap w t (deref d s);
         s = (if priorTop = removed then updateSoonestTime w None s else s)
     in s\<lparr>d_alive := (d_alive s)(d := False)\<rparr>)"

definition container_pop :: "bool \<Rightarrow> loc_timers \<Rightarrow> nat option \<times> loc_timers" where
  "container_pop w s =
    (case heap_pop (ranks_in s) (timer_heap s w) of (d, t) \<Rightarrow> (d, set_heap w t s))"

definition popIfOutRanks :: "bool \<Rightarrow> timespec \<Rightarrow> loc_timers \<Rightarrow> nat option \<times> loc_timers" where
  "popIfOutRanks w now s =
    (case getSoonestTimer w s of
       None \<Rightarrow> (None, s)
     | Some t \<Rightarrow> if \<not> time_ranks now (d_time s t) > 0 then container_pop w s else (None, s))"

section \<open>Clients\<close>

definition destroyLocked :: "nat \<Rightarrow> loc_timers \<Rightarrow> loc_timers" where
  "destroyLocked d s =
    (let s = deref d s;
         s = s\<lparr>d_client := (d_client s)(d := None)\<rparr>
     in case d_container s d of
          None \<Rightarrow> s
        | Some w \<Rightarrow> sendMsg (MsgTimerRemove w d) (s\<lparr>d_container := (d_container s)(d := None)\<rparr>))"

definition timer_stop :: "nat \<Rightarrow> loc_timers \<Rightarrow> bool \<times> loc_timers" where
  "timer_stop c s =
    (case c_timer s c of
       None \<Rightarrow> (False, s)
     | Some d \<Rightarrow> (True, destroyLocked d (s\<lparr>c_timer := (c_timer s)(c := None)\<rparr>)))"

definition new_delegate :: "nat \<Rightarrow> timespec \<Rightarrow> bool \<Rightarrow> loc_timers \<Rightarrow> nat \<times> loc_timers" where
  "new_delegate client futureTime wakeOnExpire s =
    (let d = d_next s
     in (d, sendMsg (MsgTimerPush wakeOnExpire d)
         (s\<lparr>d_client := (d_client s)(d := Some client), d_time := (d_time s)(d := futureTime),
            d_container := (d_container s)(d := Some wakeOnExpire),
            d_alive := (d_alive s)(d := True), d_next := d + 1\<rparr>)))"

definition timer_start :: "timespec \<Rightarrow> nat \<Rightarrow> int32 \<Rightarrow> bool \<Rightarrow> loc_timers \<Rightarrow> bool \<times> loc_timers" where
  "timer_start now c timeOutInMs wakeOnExpire s =
    (case c_timer s c of
       None \<Rightarrow>
         (case new_delegate c (future_time now timeOutInMs) wakeOnExpire s of
            (d, s) \<Rightarrow> (True, s\<lparr>c_timer := (c_timer s)(c := Some d)\<rparr>))
     | Some _ \<Rightarrow> (False, s))"

text \<open>A client's calls, recorded when they succeed.\<close>

fun client_op :: "timespec \<Rightarrow> timer_op \<Rightarrow> loc_timers \<Rightarrow> loc_timers" where
  "client_op now (TStart c ms wake) s =
    (case timer_start now c ms wake s of (ok, s) \<Rightarrow> if ok then log_event (Started c) s else s)"
| "client_op now (TStop c) s =
    (case timer_stop c s of (ok, s) \<Rightarrow> if ok then log_event (Stopped c) s else s)"

definition delegate_expire ::
  "(nat \<Rightarrow> timer_op list) \<Rightarrow> timespec \<Rightarrow> nat \<Rightarrow> loc_timers \<Rightarrow> loc_timers" where
  "delegate_expire timeOutCallback now d s =
    (let s = deref d s
     in case d_client s d of
          None \<Rightarrow> s
        | Some client \<Rightarrow>
            (case timer_stop client s of (ok, s) \<Rightarrow>
               if ok then fold (client_op now) (timeOutCallback client)
                 (log_event (CalledBack client now (d_time s d)) s)
               else s))"

subsection \<open>What the clients leave alone\<close>

text \<open>A client's call touches neither the heaps nor the descriptors, and only sends messages.\<close>

definition same_containers :: "loc_timers \<Rightarrow> loc_timers \<Rightarrow> bool" where
  "same_containers s s' \<longleftrightarrow>
     timer_heap s' = timer_heap s \<and> fd_armed s' = fd_armed s \<and> fd_polled s' = fd_polled s \<and>
     poll_events s' = poll_events s \<and> poll_phase s' = poll_phase s \<and>
     (\<exists>ms. timer_q s' = timer_q s @ ms)"

lemma same_containers_refl [simp]: "same_containers s s"
  by (simp add: same_containers_def)

lemma same_containers_trans:
  "same_containers s s' \<Longrightarrow> same_containers s' s'' \<Longrightarrow> same_containers s s''"
  by (auto simp: same_containers_def)

lemma client_op_same: "same_containers s (client_op now x s)"
  by (cases x)
    (auto simp: same_containers_def timer_start_def new_delegate_def timer_stop_def
      destroyLocked_def deref_def sendMsg_def log_event_def Let_def split: option.splits)

lemma client_ops_same: "same_containers s (fold (client_op now) xs s)"
  by (induction xs arbitrary: s) (auto intro: same_containers_trans client_op_same)

lemma timer_stop_same: "same_containers s (snd (timer_stop c s))"
  by (auto simp: same_containers_def timer_stop_def destroyLocked_def deref_def sendMsg_def Let_def
      split: option.splits)

lemma same_containers_deref [simp]: "same_containers (deref d s) s' = same_containers s s'"
  "same_containers s (deref d s') = same_containers s s'"
  by (simp_all add: same_containers_def deref_def)

lemma same_containers_log [simp]: "same_containers (log_event e s) s' = same_containers s s'"
  by (simp_all add: same_containers_def log_event_def)

lemma delegate_expire_same: "same_containers s (delegate_expire cb now d s)"
proof (cases "d_client (deref d s) d")
  case (Some c)
  obtain ok s1 where st: "timer_stop c (deref d s) = (ok, s1)" by fastforce
  have "same_containers s s1" using timer_stop_same [of "deref d s" c] st by simp
  moreover have "same_containers s1 (fold (client_op now) (cb c) (log_event e s1))" for e
    using client_ops_same [of "log_event e s1"] by simp
  ultimately show ?thesis using Some st
    by (auto simp: delegate_expire_def intro: same_containers_trans)
qed (simp add: delegate_expire_def)

lemma timer_heap_expire [simp]: "timer_heap (delegate_expire cb now d s) = timer_heap s"
  using delegate_expire_same by (simp add: same_containers_def)

section \<open>Expiry\<close>

text \<open>The loop of \<open>MsgTimerExpire::proc\<close>, from the timer just popped.\<close>

lemma container_pop_size:
  assumes "timer_heap s w \<noteq> NoNode"
  shows "size (mset_heap (timer_heap (snd (container_pop w s)) w)) < size (mset_heap (timer_heap s w))"
proof -
  have "mset_heap (timer_heap (snd (container_pop w s)) w) =
      mset_heap (timer_heap s w) - {#mData (timer_heap s w)#}"
    using timers.heap_pop_result [OF assms, of "d_time s"]
    by (auto simp: container_pop_def set_heap_def ranks_in_def split: prod.splits)
  then show ?thesis using mData_in_heap [OF assms] by (simp add: size_Diff1_less)
qed

function expire_loop ::
  "(nat \<Rightarrow> timer_op list) \<Rightarrow> bool \<Rightarrow> timespec \<Rightarrow> nat option \<Rightarrow> loc_timers \<Rightarrow> loc_timers" where
  "expire_loop cb w now None s = s"
| "expire_loop cb w now (Some d) s =
    (case popIfOutRanks w now (delegate_expire cb now d s) of
       (timer, s) \<Rightarrow> expire_loop cb w now timer s)"
  by pat_completeness auto
termination
proof (relation "measure (\<lambda>(_, w, _, timer, s).
    if timer = None then 0 else Suc (size (mset_heap (timer_heap s w))))")
  fix cb w now d s timer s'
  assume x: "(timer, s') = popIfOutRanks w now (delegate_expire cb now d s)"
  show "((cb, w, now, timer, s'), cb, w, now, Some d, s) \<in> measure (\<lambda>(_, w, _, timer, s).
    if timer = None then 0 else Suc (size (mset_heap (timer_heap s w))))"
  proof (cases "timer = None \<or> timer_heap s w = NoNode")
    case True
    then have "timer = None"
      using x by (auto simp: popIfOutRanks_def getSoonestTimer_def heap_peek_def)
    then show ?thesis by simp
  next
    case False
    then have "(timer, s') = container_pop w (delegate_expire cb now d s)"
      using x by (auto simp: popIfOutRanks_def getSoonestTimer_def heap_peek_def split: if_splits)
    then have "s' = snd (container_pop w (delegate_expire cb now d s))" by (metis snd_conv)
    with False show ?thesis
      using container_pop_size [of "delegate_expire cb now d s" w] by simp
  qed
qed simp

definition expire_proc ::
  "(nat \<Rightarrow> timer_op list) \<Rightarrow> bool \<Rightarrow> timespec \<Rightarrow> loc_timers \<Rightarrow> loc_timers" where
  "expire_proc cb w now s =
    (case container_pop w s of (timer, s) \<Rightarrow>
       updateSoonestTime w None (expire_loop cb w now timer s))"

fun msg_proc ::
  "(nat \<Rightarrow> timer_op list) \<Rightarrow> timespec \<Rightarrow> timer_msg \<Rightarrow> loc_timers \<Rightarrow> loc_timers" where
  "msg_proc cb now (MsgTimerPush w d) s = push_proc w d s"
| "msg_proc cb now (MsgTimerRemove w d) s = remove_proc w d s"
| "msg_proc cb now (MsgTimerExpire w) s = expire_proc cb w now s"

text \<open>One turn of \<open>MsgTask::run\<close>.\<close>

definition msg_task ::
  "(nat \<Rightarrow> timer_op list) \<Rightarrow> timespec \<Rightarrow> loc_timers \<Rightarrow> loc_timers" where
  "msg_task cb now s =
    (case timer_q s of [] \<Rightarrow> s | m # ms \<Rightarrow> msg_proc cb now m (s\<lparr>timer_q := ms\<rparr>))"

text \<open>
  The poll thread: \<open>epoll_wait\<close> gives the descriptors that are polled and whose time has come,
  and \<open>LocTimerContainer::expire\<close> makes its three calls for each in turn.
\<close>

definition fd_ready :: "timespec \<Rightarrow> loc_timers \<Rightarrow> bool \<Rightarrow> bool" where
  "fd_ready now s w \<longleftrightarrow>
     fd_polled s w \<and> (case fd_armed s w of None \<Rightarrow> False | Some t \<Rightarrow> nanos t \<le> nanos now)"

definition poll_wait :: "timespec \<Rightarrow> bool list \<Rightarrow> loc_timers \<Rightarrow> loc_timers" where
  "poll_wait now ws s =
    (if poll_events s = [] \<and> list_all (fd_ready now s) ws
     then s\<lparr>poll_events := ws, poll_phase := 0\<rparr> else s)"

definition poll_expire :: "loc_timers \<Rightarrow> loc_timers" where
  "poll_expire s =
    (case poll_events s of
       [] \<Rightarrow> s
     | w # ws \<Rightarrow>
         if poll_phase s = 0 then (settime w no_delay s)\<lparr>poll_phase := 1\<rparr>
         else if poll_phase s = 1 then (removePoll w s)\<lparr>poll_phase := 2\<rparr>
         else (sendMsg (MsgTimerExpire w) s)\<lparr>poll_events := ws, poll_phase := 0\<rparr>)"

text \<open>The parties take turns in any order, at any time of the clock.\<close>

datatype timer_step = Client timespec timer_op | Task timespec | Wait timespec "bool list" | Poll

fun timers_step :: "(nat \<Rightarrow> timer_op list) \<Rightarrow> loc_timers \<Rightarrow> timer_step \<Rightarrow> loc_timers" where
  "timers_step cb s (Client now x) = client_op now x s"
| "timers_step cb s (Task now) = msg_task cb now s"
| "timers_step cb s (Wait now ws) = poll_wait now ws s"
| "timers_step cb s Poll = poll_expire s"

text \<open>
  The C wrapper (\<open>loc_timer_start\<close>): its 64-bit delay becomes the 32-bit one of \<open>start\<close>.
\<close>

definition loc_timer_start ::
  "timespec \<Rightarrow> nat \<Rightarrow> 64 word \<Rightarrow> bool \<Rightarrow> bool \<Rightarrow> loc_timers \<Rightarrow> nat option \<times> loc_timers" where
  "loc_timer_start now locTimerWrapper msec has_cb wake_on_expire s =
    (if has_cb then
       (Some locTimerWrapper,
        snd (timer_start now locTimerWrapper (ucast msec) wake_on_expire s))
     else (None, s))"

end
