(* ===== verification/LocTimerInv.thy ===== *)
theory LocTimerInv
  imports LocTimer
begin

text \<open>
  The invariant of the timer service: where each delegate is (in a message, in a heap, or
  gone), that no deleted delegate is reachable, and that the descriptor of a container with
  timers is set no later than the soonest of them.
\<close>

section \<open>Where a delegate is\<close>

definition pushes :: "loc_timers \<Rightarrow> bool \<Rightarrow> nat \<Rightarrow> nat" where
  "pushes s w d = count_list (timer_q s) (MsgTimerPush w d)"

definition removes :: "loc_timers \<Rightarrow> bool \<Rightarrow> nat \<Rightarrow> nat" where
  "removes s w d = count_list (timer_q s) (MsgTimerRemove w d)"

definition held :: "loc_timers \<Rightarrow> bool \<Rightarrow> nat \<Rightarrow> nat" where
  "held s w d = count (mset_heap (timer_heap s w)) d"

definition placed :: "loc_timers \<Rightarrow> bool \<Rightarrow> nat \<Rightarrow> nat" where
  "placed s w d = pushes s w d + held s w d"

text \<open>
  A delegate belongs to one container, is at most once on its way to it or in it, and exactly
  once while its client has not stopped it; once stopped, one message will delete it. \<open>X\<close>
  holds the delegate the message thread has in hand.
\<close>

definition home_ok :: "nat set \<Rightarrow> loc_timers \<Rightarrow> nat \<Rightarrow> bool \<Rightarrow> bool" where
  "home_ok X s d w \<longleftrightarrow>
     placed s (\<not> w) d = 0 \<and> removes s (\<not> w) d = 0 \<and>
     d_container s d \<in> {None, Some w} \<and>
     (d_client s d = None \<longleftrightarrow> d_container s d = None) \<and>
     (if d_alive s d
      then placed s w d \<le> 1 \<and> removes s w d = (if d_container s d = None then 1 else 0) \<and>
           (d_client s d \<noteq> None \<and> d \<notin> X \<longrightarrow> placed s w d = 1)
      else placed s w d = 0 \<and> removes s w d = 0 \<and> d_client s d = None)"

definition delegate_ok :: "nat set \<Rightarrow> loc_timers \<Rightarrow> nat \<Rightarrow> bool" where
  "delegate_ok X s d \<longleftrightarrow> (\<exists>w. home_ok X s d w)"

fun order_ok :: "timer_msg list \<Rightarrow> bool" where
  "order_ok [] = True"
| "order_ok (MsgTimerRemove w d # q) \<longleftrightarrow> MsgTimerPush w d \<notin> set q \<and> order_ok q"
| "order_ok (m # q) = order_ok q"

definition heaps_ok :: "loc_timers \<Rightarrow> bool" where
  "heaps_ok s \<longleftrightarrow>
     (\<forall>w. heap_ok (\<lambda>d. valid_time (d_time s d)) (delegate_ranks (d_time s)) (timer_heap s w))"

definition core_inv :: "nat set \<Rightarrow> loc_timers \<Rightarrow> bool" where
  "core_inv X s \<longleftrightarrow>
     heaps_ok s \<and> (\<forall>d. delegate_ok X s d) \<and> order_ok (timer_q s) \<and>
     (\<forall>c d. c_timer s c = Some d \<longleftrightarrow> d_client s d = Some c) \<and>
     (\<forall>d. d_alive s d \<longrightarrow> d < d_next s \<and> valid_time (d_time s d)) \<and> \<not> timer_fault s"

text \<open>The descriptor will wake the poll thread for a timer of time \<open>t\<close>, or has already.\<close>

definition armed_for :: "loc_timers \<Rightarrow> bool \<Rightarrow> timespec \<Rightarrow> bool" where
  "armed_for s w t \<longleftrightarrow>
     MsgTimerExpire w \<in> set (timer_q s) \<or> w \<in> set (poll_events s) \<or>
     (fd_polled s w \<and> (\<exists>a. fd_armed s w = Some a \<and> nanos a \<le> nanos t))"

definition armed_ok :: "loc_timers \<Rightarrow> bool" where
  "armed_ok s \<longleftrightarrow>
     (\<forall>w. timer_heap s w \<noteq> NoNode \<longrightarrow> armed_for s w (d_time s (mData (timer_heap s w))))"

definition timers_inv :: "loc_timers \<Rightarrow> bool" where
  "timers_inv s \<longleftrightarrow> core_inv {} s \<and> armed_ok s"

lemma order_ok_append [simp]:
  "order_ok (q @ [m]) \<longleftrightarrow>
     order_ok q \<and> (case m of MsgTimerPush w d \<Rightarrow> MsgTimerRemove w d \<notin> set q | _ \<Rightarrow> True)"
  by (induction q rule: order_ok.induct) (auto split: timer_msg.splits)

lemma order_ok_Cons: "order_ok (m # q) \<Longrightarrow> order_ok q"
  by (cases m) auto

lemma count_list_0 [simp]: "count_list xs x = 0 \<longleftrightarrow> x \<notin> set xs"
  by (induction xs) auto

lemma heap_ok_times:
  assumes "\<forall>d \<in># mset_heap t. ft d = ft' d"
  shows "heap_ok (\<lambda>d. valid_time (ft d)) (delegate_ranks ft) t =
    heap_ok (\<lambda>d. valid_time (ft' d)) (delegate_ranks ft') t"
proof -
  have "heap_ordered (delegate_ranks ft) t = heap_ordered (delegate_ranks ft') t" using assms
    by (induction t) (auto simp: outRanks_def delegate_ranks_def)
  then show ?thesis using assms by (simp add: heap_ok_def)
qed

lemma delegate_ok_dead:
  "delegate_ok X s d \<Longrightarrow> \<not> d_alive s d \<Longrightarrow>
   placed s w d = 0 \<and> removes s w d = 0 \<and> d_client s d = None \<and> d_container s d = None"
proof -
  assume "delegate_ok X s d" "\<not> d_alive s d"
  then obtain v where v: "placed s (\<not> v) d = 0" "removes s (\<not> v) d = 0" "placed s v d = 0"
    "removes s v d = 0" "d_client s d = None" "d_container s d = None"
    by (auto simp: delegate_ok_def home_ok_def)
  have "w = v \<or> w = (\<not> v)" by blast
  with v show ?thesis by auto
qed

lemma placed_alive: "core_inv X s \<Longrightarrow> placed s w d \<noteq> 0 \<Longrightarrow> d_alive s d"
  using delegate_ok_dead by (metis core_inv_def)

lemma held_alive: "core_inv X s \<Longrightarrow> d \<in># mset_heap (timer_heap s w) \<Longrightarrow> d_alive s d"
  using placed_alive [of X s w d] by (simp add: placed_def held_def)

lemma client_alive: "core_inv X s \<Longrightarrow> d_client s d \<noteq> None \<Longrightarrow> d_alive s d"
  using delegate_ok_dead by (metis core_inv_def)

lemma delegate_ok_cong:
  assumes "\<And>w. placed s' w d = placed s w d" "\<And>w. removes s' w d = removes s w d"
    "d_client s' d = d_client s d" "d_container s' d = d_container s d" "d_alive s' d = d_alive s d"
  shows "delegate_ok X s' d = delegate_ok X s d"
  by (simp only: delegate_ok_def home_ok_def assms)

lemma core_inv_delegate: "core_inv X s \<Longrightarrow> delegate_ok X s d"
  by (simp add: core_inv_def)

lemma core_inv_link: "core_inv X s \<Longrightarrow> c_timer s c = Some d \<longleftrightarrow> d_client s d = Some c"
  by (simp add: core_inv_def)

lemma delegate_home:
  assumes "core_inv X s" "placed s w d \<noteq> 0 \<or> removes s w d \<noteq> 0"
  shows "d_alive s d" "placed s (\<not> w) d = 0" "removes s (\<not> w) d = 0"
    "d_container s d \<in> {None, Some w}" "d_client s d = None \<longleftrightarrow> d_container s d = None"
    "placed s w d \<le> 1" "removes s w d = (if d_container s d = None then 1 else 0)"
proof -
  show al: "d_alive s d"
    using delegate_ok_dead [OF core_inv_delegate [OF assms(1)], of d w] assms(2)
    by (cases "d_alive s d") auto
  obtain v where "home_ok X s d v"
    using core_inv_delegate [OF assms(1), of d] by (auto simp: delegate_ok_def)
  with al have v: "placed s (\<not> v) d = 0" "removes s (\<not> v) d = 0"
    "d_container s d \<in> {None, Some v}" "d_client s d = None \<longleftrightarrow> d_container s d = None"
    "placed s v d \<le> 1" "removes s v d = (if d_container s d = None then 1 else 0)"
    by (simp_all add: home_ok_def)
  have "v = w"
  proof (rule ccontr)
    assume "v \<noteq> w"
    then have "w = (\<not> v)" by simp
    with v(1,2) assms(2) show False by simp
  qed
  with v show "placed s (\<not> w) d = 0" "removes s (\<not> w) d = 0"
    "d_container s d \<in> {None, Some w}" "d_client s d = None \<longleftrightarrow> d_container s d = None"
    "placed s w d \<le> 1" "removes s w d = (if d_container s d = None then 1 else 0)" by simp_all
qed

section \<open>The times a client may ask for\<close>

text \<open>
  The clock is that of the boot: below 34 years, so that seconds stay within 32 bits.
\<close>

definition clock_ok :: "timespec \<Rightarrow> bool" where
  "clock_ok now \<longleftrightarrow> 0 < tv_sec now \<and> tv_sec now < 2 ^ 30 \<and> normal_time now"

lemma uint_ms:
  "uint (ms mod 1000 * 1000000 :: int32) = uint ms mod 1000 * 1000000"
proof -
  have "uint (ms mod 1000) = uint ms mod 1000" by (simp add: uint_mod_distrib)
  moreover have "uint ms mod 1000 * 1000000 < 2 ^ 32"
    using pos_mod_bound [of 1000 "uint ms"] by simp
  ultimately show ?thesis by (simp add: uint_word_ariths)
qed

lemma one_carry:
  "1000000000 \<le> x \<Longrightarrow> x < 2000000000 \<Longrightarrow>
   x div 1000000000 = 1 \<and> x mod 1000000000 = x - (1000000000 :: int)"
  using int_div_pos_eq [of x 1000000000 1 "x - 1000000000"]
    int_mod_pos_eq [of x 1000000000 1 "x - 1000000000"] by simp

lemma future_time_valid:
  assumes "clock_ok now"
  shows "valid_time (future_time now ms)"
    and "nanos (future_time now ms) = nanos now + uint ms * 1000000"
proof -
  define q r n where "q = uint ms div 1000" and "r = uint ms mod 1000"
    and "n = tv_nsec now + r * 1000000"
  have d: "uint (ms div 1000 :: int32) = q" by (simp add: uint_div_distrib q_def)
  have ms: "uint ms = 1000 * q + r" by (simp add: q_def r_def)
  have b: "0 \<le> r" "r < 1000" "0 \<le> q" "q < 4294968"
  proof -
    show "0 \<le> r" "r < 1000" "0 \<le> q" by (simp_all add: q_def r_def pos_imp_zdiv_nonneg_iff)
    have "uint ms < 4294967296" using uint_lt2p [of ms] by simp
    then show "q < 4294968" using ms \<open>0 \<le> r\<close> by linarith
  qed
  have c: "0 < tv_sec now" "tv_sec now < 1073741824" "0 \<le> tv_nsec now" "tv_nsec now < 1000000000"
    using assms by (simp_all add: clock_ok_def normal_time_def)
  have n: "n < 1000000000 \<or> n div 1000000000 = 1 \<and> n mod 1000000000 = n - 1000000000"
    "0 \<le> n" "n < 2000000000"
  proof -
    show n: "0 \<le> n" "n < 2000000000" using b c by (simp_all add: n_def)
    show "n < 1000000000 \<or> n div 1000000000 = 1 \<and> n mod 1000000000 = n - 1000000000"
      using one_carry [OF _ n(2)] by linarith
  qed
  have ft: "future_time now ms = (if n \<ge> 1000000000
      then now\<lparr>tv_sec := tv_sec now + q + n div 1000000000, tv_nsec := n mod 1000000000\<rparr>
      else now\<lparr>tv_sec := tv_sec now + q, tv_nsec := n\<rparr>)"
    by (simp add: future_time_def Let_def d uint_ms r_def [symmetric] n_def)
  show "valid_time (future_time now ms)"
    using n b c by (auto simp: valid_time_def normal_time_def ft)
  show "nanos (future_time now ms) = nanos now + uint ms * 1000000"
    using n b c by (auto simp: nanos_def ft ms n_def)
qed

section \<open>Clients\<close>

text \<open>The core of the invariant does not depend on the descriptors or the log.\<close>

lemma core_inv_cong:
  assumes "timer_heap s' = timer_heap s" "timer_q s' = timer_q s" "d_client s' = d_client s"
    "d_time s' = d_time s" "d_container s' = d_container s" "d_alive s' = d_alive s"
    "d_next s' = d_next s" "c_timer s' = c_timer s" "timer_fault s' = timer_fault s"
  shows "core_inv X s' = core_inv X s"
proof -
  have "placed s' = placed s" "removes s' = removes s"
    using assms by (simp_all add: fun_eq_iff placed_def pushes_def removes_def held_def)
  with assms show ?thesis by (simp only: core_inv_def heaps_ok_def delegate_ok_def home_ok_def)
qed

lemma core_inv_fds [simp]:
  "core_inv X (s\<lparr>fd_armed := a\<rparr>) = core_inv X s"
  "core_inv X (s\<lparr>fd_polled := p\<rparr>) = core_inv X s"
  "core_inv X (s\<lparr>poll_events := ws\<rparr>) = core_inv X s"
  "core_inv X (s\<lparr>poll_phase := n\<rparr>) = core_inv X s"
  "core_inv X (s\<lparr>timer_log := l\<rparr>) = core_inv X s"
  by (rule core_inv_cong; simp)+

lemma deref_alive [simp]: "d_alive s d \<Longrightarrow> deref d s = s"
  by (simp add: deref_def)

lemma core_inv_log [simp]: "core_inv X (log_event e s) = core_inv X s"
  by (simp add: log_event_def)

lemma core_inv_more: "core_inv X s \<Longrightarrow> X \<subseteq> Y \<Longrightarrow> core_inv Y s"
proof -
  assume s: "core_inv X s" and "X \<subseteq> Y"
  then have "delegate_ok Y s d" for d
    using core_inv_delegate [OF s, of d] unfolding delegate_ok_def home_ok_def by (elim exE, intro exI) auto
  with s show ?thesis by (simp add: core_inv_def)
qed

text \<open>Starting a timer.\<close>

lemma start_core:
  assumes "core_inv X s" "clock_ok now"
  shows "core_inv X (snd (timer_start now c ms w s))"
proof (cases "c_timer s c")
  case None
  let ?d = "d_next s" and ?s = "snd (timer_start now c ms w s)"
  have dead: "\<not> d_alive s ?d" using assms by (auto simp: core_inv_def)
  then have zero: "placed s v ?d = 0" "removes s v ?d = 0" "d_client s ?d = None" for v
    using assms(1) delegate_ok_dead [of X s ?d v] by (auto simp: core_inv_def)
  have fields: "timer_heap ?s = timer_heap s" "d_time ?s = (d_time s)(?d := future_time now ms)"
    "timer_q ?s = timer_q s @ [MsgTimerPush w ?d]" "d_alive ?s = (d_alive s)(?d := True)"
    "d_client ?s = (d_client s)(?d := Some c)" "d_container ?s = (d_container s)(?d := Some w)"
    "c_timer ?s = (c_timer s)(c := Some ?d)" "d_next ?s = Suc ?d" "timer_fault ?s = timer_fault s"
    using None by (simp_all add: timer_start_def new_delegate_def sendMsg_def Let_def)
  have "delegate_ok X ?s d" for d
  proof (cases "d = ?d")
    case True
    then show ?thesis using zero
      by (auto simp: delegate_ok_def home_ok_def placed_def pushes_def removes_def held_def fields
          intro!: exI [of _ w])
  next
    case False
    then have "delegate_ok X ?s d = delegate_ok X s d"
      by (intro delegate_ok_cong) (auto simp: placed_def pushes_def removes_def held_def fields)
    then show ?thesis using core_inv_delegate [OF assms(1)] by simp
  qed
  moreover have "heaps_ok ?s"
  proof -
    have "?d \<notin># mset_heap (timer_heap s v)" for v
      using zero(1) [of v] by (simp add: placed_def held_def count_eq_zero_iff)
    then have "\<forall>d \<in># mset_heap (timer_heap s v). d_time s d = d_time ?s d" for v
      by (auto simp: fields)
    from heap_ok_times [OF this] show ?thesis using assms(1)
      by (simp add: core_inv_def heaps_ok_def fields(1))
  qed
  moreover have "c_timer ?s c' = Some d \<longleftrightarrow> d_client ?s d = Some c'" for c' d
    using core_inv_link [OF assms(1), of c' d] core_inv_link [OF assms(1), of c d] None zero(3)
    by (auto simp: fields)
  moreover have "order_ok (timer_q ?s)"
    using assms(1) zero(2) [of w] by (simp add: core_inv_def fields removes_def)
  moreover have "d < d_next ?s \<and> valid_time (d_time ?s d)" if "d_alive ?s d" for d
    using that assms(1) future_time_valid(1) [OF assms(2)]
    by (auto simp: core_inv_def fields less_Suc_eq split: if_splits)
  ultimately show ?thesis using assms(1) by (simp add: core_inv_def fields)
qed (use assms in \<open>simp add: timer_start_def\<close>)

text \<open>Stopping a timer: its delegate is let go, and a message will delete it.\<close>

lemma stop_core:
  assumes "core_inv X s"
  shows "core_inv X (snd (timer_stop c s))"
proof (cases "c_timer s c")
  case (Some d)
  let ?s = "snd (timer_stop c s)"
  have cl: "d_client s d = Some c" using assms Some by (simp add: core_inv_def)
  have al: "d_alive s d" using client_alive [OF assms] cl by simp
  obtain w where w: "d_container s d = Some w" "placed s (\<not> w) d = 0" "removes s (\<not> w) d = 0"
    "placed s w d \<le> 1" "removes s w d = 0"
    using assms cl al by (auto simp: core_inv_def delegate_ok_def home_ok_def dest!: spec [of _ d])
  have fields: "timer_heap ?s = timer_heap s" "d_time ?s = d_time s"
    "timer_q ?s = timer_q s @ [MsgTimerRemove w d]" "d_alive ?s = d_alive s"
    "d_client ?s = (d_client s)(d := None)" "d_container ?s = (d_container s)(d := None)"
    "c_timer ?s = (c_timer s)(c := None)" "d_next ?s = d_next s" "timer_fault ?s = timer_fault s"
    using Some w al by (simp_all add: timer_stop_def destroyLocked_def deref_def sendMsg_def Let_def)
  have "delegate_ok X ?s e" for e
  proof (cases "e = d")
    case True
    then show ?thesis using w al
      by (auto simp: delegate_ok_def home_ok_def placed_def pushes_def removes_def held_def fields
          intro!: exI [of _ w])
  next
    case False
    then have "delegate_ok X ?s e = delegate_ok X s e"
      by (intro delegate_ok_cong) (auto simp: placed_def pushes_def removes_def held_def fields)
    then show ?thesis using core_inv_delegate [OF assms] by simp
  qed
  moreover have "c_timer ?s c' = Some e \<longleftrightarrow> d_client ?s e = Some c'" for c' e
    using core_inv_link [OF assms, of c' e] core_inv_link [OF assms, of c e]
      core_inv_link [OF assms, of c' d] Some
    by (auto simp: fields)
  ultimately show ?thesis using assms
    by (simp add: core_inv_def heaps_ok_def fields)
qed (use assms in \<open>simp add: timer_stop_def\<close>)

lemma client_op_core: "core_inv X s \<Longrightarrow> clock_ok now \<Longrightarrow> core_inv X (client_op now x s)"
  by (cases x) (auto simp: case_prod_beta start_core stop_core)

lemma client_ops_core: "core_inv X s \<Longrightarrow> clock_ok now \<Longrightarrow> core_inv X (fold (client_op now) xs s)"
  by (induction xs arbitrary: s) (auto intro: client_op_core)

section \<open>The message thread\<close>

lemma updateSoonestTime_fields [simp]:
  "timer_heap (updateSoonestTime w p s) = timer_heap s"
  "timer_q (updateSoonestTime w p s) = timer_q s"
  "poll_events (updateSoonestTime w p s) = poll_events s"
  "d_time (updateSoonestTime w p s) = d_time s"
  "d_alive (updateSoonestTime w p s) = d_alive s"
  "d_client (updateSoonestTime w p s) = d_client s"
  "d_container (updateSoonestTime w p s) = d_container s"
  "d_next (updateSoonestTime w p s) = d_next s" "c_timer (updateSoonestTime w p s) = c_timer s"
  "timer_fault (updateSoonestTime w p s) = timer_fault s"
  "timer_log (updateSoonestTime w p s) = timer_log s"
  by (auto simp: updateSoonestTime_def Let_def settime_def addPoll_def removePoll_def
      split: option.splits)

lemma updateSoonestTime_core [simp]: "core_inv X (updateSoonestTime w p s) = core_inv X s"
  by (rule core_inv_cong)
    (auto simp: updateSoonestTime_def Let_def settime_def addPoll_def removePoll_def
      split: option.splits)

lemma push_core:
  assumes "core_inv {} s" "timer_q s = MsgTimerPush w d # ms"
  shows "core_inv {} (push_proc w d (s\<lparr>timer_q := ms\<rparr>))"
proof -
  let ?t = "heap_push (delegate_ranks (d_time s)) d (timer_heap s w)"
  let ?s = "set_heap w ?t (s\<lparr>timer_q := ms\<rparr>)"
  have "placed s w d \<noteq> 0" using assms(2) by (simp add: placed_def pushes_def)
  then have al: "d_alive s d" by (rule placed_alive [OF assms(1)])
  then have v: "valid_time (d_time s d)" using assms(1) by (simp add: core_inv_def)
  have "placed ?s v e = placed s v e" "removes ?s v e = removes s v e" for v e
    using assms(2) by (auto simp: placed_def pushes_def removes_def held_def set_heap_def)
  then have "delegate_ok {} ?s e" for e
    using core_inv_delegate [OF assms(1)]
    by (subst delegate_ok_cong [where s = s]) (simp_all add: set_heap_def)
  moreover have "heaps_ok ?s"
    using assms(1) timers.heap_push_ok [where ft = "d_time s", OF v, of "timer_heap s w"]
    by (simp add: core_inv_def heaps_ok_def set_heap_def)
  moreover have "order_ok ms" using assms order_ok_Cons by (metis core_inv_def)
  ultimately have "core_inv {} ?s" using assms(1) by (simp add: core_inv_def set_heap_def)
  then show ?thesis using al by (simp add: push_proc_def Let_def ranks_in_def)
qed

lemma remove_core:
  assumes "core_inv {} s" "timer_q s = MsgTimerRemove w d # ms"
  shows "core_inv {} (remove_proc w d (s\<lparr>timer_q := ms\<rparr>))"
proof -
  let ?t = "snd (heap_remove (delegate_ranks (d_time s)) (timer_heap s w) d)"
  let ?s = "(set_heap w ?t (s\<lparr>timer_q := ms\<rparr>))\<lparr>d_alive := (d_alive s)(d := False)\<rparr>"
  have rem: "removes s w d \<noteq> 0" using assms(2) by (simp add: removes_def)
  note home = delegate_home [OF assms(1), of w d]
  have al: "d_alive s d" using home(1) rem by simp
  have w: "placed s (\<not> w) d = 0" "removes s (\<not> w) d = 0" "placed s w d \<le> 1"
    "removes s w d = 1" "d_container s d = None" "d_client s d = None"
    using home rem by (auto split: if_splits)
  have hok: "heap_ok (\<lambda>d. valid_time (d_time s d)) (delegate_ranks (d_time s)) (timer_heap s w)"
    using assms(1) by (simp add: core_inv_def heaps_ok_def)
  have t: "mset_heap ?t = mset_heap (timer_heap s w) - {#d#}"
    using timers.heap_remove_result(2) [OF hok] .
  have "order_ok (MsgTimerRemove w d # ms)" using assms by (metis core_inv_def)
  then have ord: "MsgTimerPush w d \<notin> set ms" "order_ok ms" by simp_all
  have "delegate_ok {} ?s e" for e
  proof (cases "e = d")
    case True
    have "placed ?s v d = 0 \<and> removes ?s v d = 0" for v
      using w(1-4) assms(2) ord t
      by (cases "v = w") (auto simp: placed_def pushes_def removes_def held_def set_heap_def)
    then show ?thesis using True w by (simp add: delegate_ok_def home_ok_def set_heap_def)
  next
    case False
    then have "placed ?s v e = placed s v e" "removes ?s v e = removes s v e" for v
      using assms(2) t by (auto simp: placed_def pushes_def removes_def held_def set_heap_def)
    then show ?thesis using core_inv_delegate [OF assms(1)] False
      by (subst delegate_ok_cong [where s = s]) (simp_all add: set_heap_def)
  qed
  moreover have "heaps_ok ?s"
    using assms(1) timers.heap_remove_ok [OF hok]
    by (simp add: core_inv_def heaps_ok_def set_heap_def)
  ultimately have "core_inv {} ?s" using assms(1) ord by (simp add: core_inv_def set_heap_def)
  moreover have "core_inv {} (remove_proc w d (s\<lparr>timer_q := ms\<rparr>)) = core_inv {} ?s"
    using al by (intro core_inv_cong)
      (simp_all add: remove_proc_def Let_def ranks_in_def set_heap_def case_prod_beta)
  ultimately show ?thesis by simp
qed

text \<open>Popping a timer takes it in hand.\<close>

lemma pop_core:
  assumes "core_inv {} s" "container_pop w s = (timer, s')"
  shows "core_inv (set_option timer) s'" and "\<forall>d. timer = Some d \<longrightarrow> d_alive s' d"
    and "\<exists>t. s' = set_heap w t s"
proof -
  have hok: "heap_ok (\<lambda>d. valid_time (d_time s d)) (delegate_ranks (d_time s)) (timer_heap s w)"
    using assms(1) by (simp add: core_inv_def heaps_ok_def)
  let ?t = "snd (heap_pop (delegate_ranks (d_time s)) (timer_heap s w))"
  have s': "s' = set_heap w ?t s" "timer = heap_peek (timer_heap s w)"
    using assms(2) timers.pop_is_peek [of "d_time s" "timer_heap s w"]
    by (auto simp: container_pop_def ranks_in_def split: prod.splits)
  have t: "mset_heap ?t = mset_heap (timer_heap s w) - mset (case timer of None \<Rightarrow> [] | Some d \<Rightarrow> [d])"
    using timers.pop_mset [of "d_time s" "timer_heap s w"] s' by simp
  have mem: "d \<in># mset_heap (timer_heap s w)" if "timer = Some d" for d
    using that s'(2) mData_in_heap [of "timer_heap s w"] by (auto simp: heap_peek_def split: if_splits)
  have "delegate_ok (set_option timer) s' e" for e
  proof (cases "timer = Some e")
    case True
    have h: "held s w e \<noteq> 0" using mem [OF True] by (simp add: held_def)
    note v = delegate_home [OF assms(1), of w e]
    have p: "placed s w e \<noteq> 0" using h by (simp add: placed_def)
    have "placed s' (\<not> w) e = 0" "placed s' w e \<le> 1"
      using v p t True by (auto simp: s' placed_def held_def pushes_def set_heap_def)
    moreover have "removes s' u e = removes s u e" for u
      by (simp add: removes_def s' set_heap_def)
    moreover have "d_container s' = d_container s" "d_client s' = d_client s" "d_alive s' = d_alive s"
      by (simp_all add: s' set_heap_def)
    ultimately show ?thesis using v p True by (auto simp: delegate_ok_def home_ok_def intro!: exI [of _ w])
  next
    case False
    then have "placed s' v e = placed s v e" "removes s' v e = removes s v e" for v
      using t by (auto simp: s' placed_def pushes_def removes_def held_def set_heap_def
          split: option.splits)
    then have "delegate_ok {} s' e = delegate_ok {} s e"
      by (intro delegate_ok_cong) (simp_all add: s' set_heap_def)
    then have "delegate_ok {} s' e" using core_inv_delegate [OF assms(1)] by simp
    then show ?thesis using False unfolding delegate_ok_def home_ok_def by (elim exE, intro exI) auto
  qed
  moreover have "heaps_ok s'"
    using assms(1) timers.heap_pop_ok [OF hok]
    by (simp add: core_inv_def heaps_ok_def s' set_heap_def)
  ultimately show "core_inv (set_option timer) s'"
    using assms(1) by (simp add: core_inv_def) (simp add: s' set_heap_def)
  show "\<forall>d. timer = Some d \<longrightarrow> d_alive s' d"
    using held_alive [OF assms(1) mem] by (simp add: s' set_heap_def)
  show "\<exists>t. s' = set_heap w t s" using s' by blast
qed

text \<open>A timer in hand that its client has stopped needs no place.\<close>

lemma core_inv_settle:
  assumes "core_inv {d} s" "d_client s d = None"
  shows "core_inv {} s"
proof -
  have "delegate_ok {} s e" for e
  proof -
    obtain w where "home_ok {d} s e w"
      using core_inv_delegate [OF assms(1), of e] by (auto simp: delegate_ok_def)
    then have "home_ok {} s e w" using assms(2) by (cases "e = d") (auto simp: home_ok_def)
    then show ?thesis by (auto simp: delegate_ok_def)
  qed
  with assms(1) show ?thesis by (simp add: core_inv_def)
qed

lemma expire_core:
  assumes "core_inv {d} s" "d_alive s d" "clock_ok now"
  shows "core_inv {} (delegate_expire cb now d s)"
proof (cases "d_client s d")
  case None
  then show ?thesis using assms core_inv_settle by (simp add: delegate_expire_def)
next
  case (Some c)
  then have t: "c_timer s c = Some d" using core_inv_link [OF assms(1)] by simp
  let ?s = "snd (timer_stop c s)"
  have "fst (timer_stop c s)" using t by (simp add: timer_stop_def)
  moreover have "d_client ?s d = None"
    using t assms(2)
    by (auto simp: timer_stop_def destroyLocked_def Let_def sendMsg_def split: option.splits)
  then have "core_inv {} ?s" using core_inv_settle stop_core [OF assms(1)] by blast
  ultimately show ?thesis using Some assms(2,3)
    by (auto simp: delegate_expire_def client_ops_core split: prod.splits)
qed

lemma popIf_core:
  assumes "core_inv {} s" "popIfOutRanks w now s = (timer, s')"
  shows "core_inv (set_option timer) s' \<and> (\<forall>d. timer = Some d \<longrightarrow> d_alive s' d)"
  using assms pop_core [OF assms(1)]
  by (fastforce simp: popIfOutRanks_def split: option.splits if_splits)

lemma expire_loop_core:
  "core_inv (set_option timer) s \<Longrightarrow> \<forall>d. timer = Some d \<longrightarrow> d_alive s d \<Longrightarrow> clock_ok now \<Longrightarrow>
   core_inv {} (expire_loop cb w now timer s)"
proof (induction cb w now timer s rule: expire_loop.induct)
  case (2 cb w now d s)
  obtain timer s' where p: "popIfOutRanks w now (delegate_expire cb now d s) = (timer, s')"
    by fastforce
  have "core_inv {} (delegate_expire cb now d s)" using expire_core "2.prems" by simp
  from popIf_core [OF this p] show ?case using "2.IH" [OF p [symmetric]] "2.prems" p by simp
qed simp

lemma expire_proc_core:
  assumes "core_inv {} s" "clock_ok now"
  shows "core_inv {} (expire_proc cb w now s)"
proof -
  obtain timer s' where p: "container_pop w s = (timer, s')" by fastforce
  show ?thesis using expire_loop_core pop_core [OF assms(1) p] assms(2) p
    by (simp add: expire_proc_def)
qed

lemma core_inv_expire_msg:
  assumes "core_inv X s" "timer_q s = MsgTimerExpire w # ms"
  shows "core_inv X (s\<lparr>timer_q := ms\<rparr>)"
proof -
  have "delegate_ok X (s\<lparr>timer_q := ms\<rparr>) d = delegate_ok X s d" for d
    using assms(2) by (intro delegate_ok_cong) (auto simp: placed_def pushes_def removes_def held_def)
  then show ?thesis using assms by (simp add: core_inv_def heaps_ok_def)
qed

lemma core_inv_send_expire: "core_inv X (sendMsg (MsgTimerExpire w) s) = core_inv X s"
proof -
  have "delegate_ok X (sendMsg (MsgTimerExpire w) s) d = delegate_ok X s d" for d
    by (intro delegate_ok_cong) (auto simp: placed_def pushes_def removes_def held_def sendMsg_def)
  then show ?thesis by (simp add: core_inv_def heaps_ok_def sendMsg_def)
qed

lemma msg_task_core:
  assumes "core_inv {} s" "clock_ok now"
  shows "core_inv {} (msg_task cb now s)"
proof (cases "timer_q s")
  case (Cons m ms)
  show ?thesis
  proof (cases m)
    case (MsgTimerPush w d)
    then show ?thesis using Cons push_core [OF assms(1)] by (simp add: msg_task_def)
  next
    case (MsgTimerRemove w d)
    then show ?thesis using Cons remove_core [OF assms(1)] by (simp add: msg_task_def)
  next
    case (MsgTimerExpire w)
    then show ?thesis using Cons expire_proc_core core_inv_expire_msg [OF assms(1)] assms(2)
      by (simp add: msg_task_def)
  qed
qed (use assms in \<open>simp add: msg_task_def\<close>)

lemma poll_expire_core: "core_inv X (poll_expire s) = core_inv X s"
  by (auto simp: poll_expire_def settime_def removePoll_def core_inv_send_expire split: list.splits)

definition step_clock :: "timer_step \<Rightarrow> bool" where
  "step_clock x \<longleftrightarrow>
    (case x of Client now _ \<Rightarrow> clock_ok now | Task now \<Rightarrow> clock_ok now | _ \<Rightarrow> True)"

lemma timers_step_core: "core_inv {} s \<Longrightarrow> step_clock x \<Longrightarrow> core_inv {} (timers_step cb s x)"
  by (cases x)
    (auto simp: step_clock_def client_op_core msg_task_core poll_wait_def poll_expire_core)

section \<open>The descriptors\<close>

text \<open>\<open>armed_for\<close> stands while nothing but messages other than the expiry's goes.\<close>

lemma armed_for_more:
  assumes "armed_for s w t" "MsgTimerExpire w \<in> set (timer_q s) \<Longrightarrow> MsgTimerExpire w \<in> set (timer_q s')"
    "poll_events s' = poll_events s" "fd_armed s' w = fd_armed s w" "fd_polled s' w = fd_polled s w"
    "nanos t \<le> nanos t'"
  shows "armed_for s' w t'"
  using assms unfolding armed_for_def by (metis order_trans)

lemma same_containers_armed:
  assumes "same_containers s s'" "armed_for s w t"
  shows "armed_for s' w t"
  using assms by (elim armed_for_more) (auto simp: same_containers_def)

lemma updateSoonestTime_other [simp]:
  "v \<noteq> w \<Longrightarrow> fd_armed (updateSoonestTime w p s) v = fd_armed s v"
  "v \<noteq> w \<Longrightarrow> fd_polled (updateSoonestTime w p s) v = fd_polled s v"
  by (auto simp: updateSoonestTime_def Let_def settime_def addPoll_def removePoll_def
      split: option.splits)

text \<open>
  After an update the container is armed for its soonest timer, if the container was new or it
  was armed for the soonest before.
\<close>

lemma update_armed:
  assumes "timer_heap s w \<noteq> NoNode" "valid_time (d_time s (mData (timer_heap s w)))"
    and "p \<noteq> None \<Longrightarrow> armed_for s w (d_time s (the p)) \<and> valid_time (d_time s (the p))"
  shows "armed_for (updateSoonestTime w p s) w (d_time s (mData (timer_heap s w)))"
proof -
  let ?top = "mData (timer_heap s w)"
  have top: "getSoonestTimer w s = Some ?top"
    using assms(1) by (simp add: getSoonestTimer_def heap_peek_def)
  note v = assms(2)
  show ?thesis
  proof (cases "p = Some ?top")
    case True
    then show ?thesis using assms(3) top by (simp add: updateSoonestTime_def)
  next
    case False
    show ?thesis
    proof (cases "p = None \<or> outRanks (ranks_in s) ?top (the p)")
      case True
      with False top have "updateSoonestTime w p s = settime w (d_time s ?top) (addPoll w s)"
        by (auto simp: updateSoonestTime_def)
      with v show ?thesis
        by (auto simp: armed_for_def settime_def addPoll_def valid_time_def)
    next
      case rank: False
      then have "nanos (d_time s (the p)) \<le> nanos (d_time s ?top)"
        using assms(3) v by (auto simp: outRanks_def ranks_in_def delegate_ranks_def)
      moreover have "updateSoonestTime w p s = s"
        using rank False top by (auto simp: updateSoonestTime_def)
      ultimately show ?thesis using assms(3) rank by (auto elim!: armed_for_more)
    qed
  qed
qed

lemma top_valid:
  "core_inv X s \<Longrightarrow> timer_heap s w \<noteq> NoNode \<Longrightarrow> valid_time (d_time s (mData (timer_heap s w)))"
  using held_alive [of X s "mData (timer_heap s w)" w] mData_in_heap [of "timer_heap s w"]
  by (simp add: core_inv_def)

text \<open>What \<open>s'\<close> may differ in from \<open>s\<close> without another container than \<open>w\<close> noticing.\<close>

definition others_same :: "bool \<Rightarrow> loc_timers \<Rightarrow> loc_timers \<Rightarrow> bool" where
  "others_same w s s' \<longleftrightarrow>
     (\<forall>v. v \<noteq> w \<longrightarrow> timer_heap s' v = timer_heap s v \<and> fd_armed s' v = fd_armed s v \<and>
        fd_polled s' v = fd_polled s v \<and>
        (MsgTimerExpire v \<in> set (timer_q s) \<longrightarrow> MsgTimerExpire v \<in> set (timer_q s'))) \<and>
     poll_events s' = poll_events s \<and>
     d_next s \<le> d_next s' \<and> (\<forall>d < d_next s. d_time s' d = d_time s d)"

lemma others_same_refl [simp]: "others_same w s s"
  by (simp add: others_same_def)

lemma others_same_trans:
  "others_same w s s' \<Longrightarrow> others_same w s' s'' \<Longrightarrow> others_same w s s''"
  unfolding others_same_def by (auto dest: order_less_le_trans)

lemma others_armed:
  assumes "others_same w s s'" "core_inv X s" "armed_ok s" "v \<noteq> w" "timer_heap s' v \<noteq> NoNode"
  shows "armed_for s' v (d_time s' (mData (timer_heap s' v)))"
proof -
  have h: "timer_heap s' v = timer_heap s v" using assms(1,4) by (simp add: others_same_def)
  then have "mData (timer_heap s v) < d_next s"
    using assms(2,5) held_alive [OF assms(2) mData_in_heap, of v] by (simp add: core_inv_def)
  then have "d_time s' (mData (timer_heap s v)) = d_time s (mData (timer_heap s v))"
    using assms(1) by (simp add: others_same_def)
  moreover have "armed_for s v (d_time s (mData (timer_heap s v)))"
    using assms(3,5) h by (simp add: armed_ok_def)
  ultimately have "armed_for s v (d_time s' (mData (timer_heap s' v)))" using h by simp
  moreover have "MsgTimerExpire v \<in> set (timer_q s) \<Longrightarrow> MsgTimerExpire v \<in> set (timer_q s')"
    "poll_events s' = poll_events s" "fd_armed s' v = fd_armed s v" "fd_polled s' v = fd_polled s v"
    using assms(1,4) by (simp_all add: others_same_def)
  ultimately show ?thesis using armed_for_more by blast
qed

lemma others_same_client: "others_same w s (client_op now x s)"
  using client_op_same [of s now x]
  by (cases x)
    (auto simp: others_same_def same_containers_def timer_start_def new_delegate_def timer_stop_def
      destroyLocked_def deref_def sendMsg_def log_event_def Let_def split: option.splits)

lemma others_same_clients: "others_same w s (fold (client_op now) xs s)"
  by (induction xs arbitrary: s) (auto intro: others_same_trans others_same_client)

lemma others_same_expire: "others_same w s (delegate_expire cb now d s)"
proof (cases "d_client (deref d s) d")
  case (Some c)
  obtain ok s1 where st: "timer_stop c (deref d s) = (ok, s1)" by fastforce
  have "s1 = snd (timer_stop c (deref d s))" using st by simp
  then have "others_same w s s1"
    by (auto simp: others_same_def timer_stop_def destroyLocked_def deref_def sendMsg_def Let_def
        split: option.splits)
  moreover have "others_same w s1 (log_event e s1)" for e
    by (simp add: others_same_def log_event_def)
  ultimately show ?thesis using Some st
    by (auto simp: delegate_expire_def intro: others_same_trans others_same_clients)
qed (simp add: delegate_expire_def others_same_def deref_def)

lemma others_same_pop: "others_same w s (snd (container_pop w s))"
  by (auto simp: others_same_def container_pop_def set_heap_def split: prod.splits)

lemma others_same_popIf: "others_same w s (snd (popIfOutRanks w now s))"
  using others_same_pop by (auto simp: popIfOutRanks_def split: option.splits)

lemma others_same_loop: "others_same w s (expire_loop cb w now timer s)"
proof (induction cb w now timer s rule: expire_loop.induct)
  case (2 cb w now d s)
  obtain timer s' where p: "popIfOutRanks w now (delegate_expire cb now d s) = (timer, s')"
    by fastforce
  have "others_same w s s'"
    using others_same_trans [OF others_same_expire others_same_popIf] p by (metis snd_conv)
  with 2 [OF p [symmetric]] p show ?case by (auto intro: others_same_trans)
qed simp

lemma others_same_update: "others_same w s (updateSoonestTime w p s)"
  by (simp add: others_same_def)

lemma others_same_expire_proc: "others_same w s (expire_proc cb w now s)"
proof -
  have "others_same w s (expire_loop cb w now (fst (container_pop w s)) (snd (container_pop w s)))"
    using others_same_trans [OF others_same_pop others_same_loop] .
  then have "others_same w s (updateSoonestTime w None
      (expire_loop cb w now (fst (container_pop w s)) (snd (container_pop w s))))"
    using others_same_trans others_same_update by blast
  then show ?thesis by (simp add: expire_proc_def case_prod_beta)
qed

lemma client_armed:
  assumes "core_inv X s" "armed_ok s"
  shows "armed_ok (client_op now x s)"
proof -
  have "armed_for (client_op now x s) v (d_time (client_op now x s) (mData (timer_heap (client_op now x s) v)))"
    if "timer_heap (client_op now x s) v \<noteq> NoNode" for v
    using others_armed [OF others_same_client [of "\<not> v"] assms] that by simp
  then show ?thesis by (simp add: armed_ok_def)
qed

lemma poll_armed: "armed_ok s \<Longrightarrow> armed_ok (poll_expire s)"
  by (auto simp: armed_ok_def armed_for_def poll_expire_def settime_def removePoll_def sendMsg_def
      split: list.splits)

lemma wait_armed: "armed_ok s \<Longrightarrow> armed_ok (poll_wait now ws s)"
  by (auto simp: armed_ok_def armed_for_def poll_wait_def)

text \<open>The message thread.\<close>

lemma armed_ok_expire_msg:
  assumes "core_inv {} s" "armed_ok s" "timer_q s = MsgTimerExpire w # ms" "clock_ok now"
  shows "armed_ok (expire_proc cb w now (s\<lparr>timer_q := ms\<rparr>))"
proof -
  let ?s = "s\<lparr>timer_q := ms\<rparr>" and ?t = "expire_proc cb w now (s\<lparr>timer_q := ms\<rparr>)"
  have core: "core_inv {} ?t"
    using expire_proc_core core_inv_expire_msg [OF assms(1,3)] assms(4) by blast
  have "armed_for ?t v (d_time ?t (mData (timer_heap ?t v)))" if h: "timer_heap ?t v \<noteq> NoNode" for v
  proof (cases "v = w")
    case True
    obtain u where u: "?t = updateSoonestTime w None u"
      by (auto simp: expire_proc_def case_prod_beta)
    have "core_inv {} u" using core u by simp
    then have "armed_for (updateSoonestTime w None u) w (d_time u (mData (timer_heap u w)))"
      using h True by (intro update_armed top_valid) (simp_all add: u)
    then show ?thesis using True by (simp add: u)
  next
    case False
    have "others_same w s ?s" using False assms(3) by (auto simp: others_same_def)
    from others_same_trans [OF this others_same_expire_proc]
    show ?thesis using others_armed assms(1,2) False h by blast
  qed
  then show ?thesis by (simp add: armed_ok_def)
qed

lemma armed_ok_push_msg:
  assumes "core_inv {} s" "armed_ok s" "timer_q s = MsgTimerPush w d # ms"
  shows "armed_ok (push_proc w d (s\<lparr>timer_q := ms\<rparr>))"
proof -
  let ?t = "push_proc w d (s\<lparr>timer_q := ms\<rparr>)"
  let ?u = "set_heap w (heap_push (ranks_in s) d (timer_heap s w)) (deref d (s\<lparr>timer_q := ms\<rparr>))"
  have t: "?t = updateSoonestTime w (heap_peek (timer_heap s w)) ?u"
    by (simp add: push_proc_def Let_def getSoonestTimer_def deref_def ranks_in_def)
  have core: "core_inv {} ?u" using push_core [OF assms(1,3)] t by simp
  have u: "d_time ?u = d_time s" "timer_heap ?u v = (if v = w then heap_push (ranks_in s) d (timer_heap s w) else timer_heap s v)" for v
    by (simp_all add: set_heap_def deref_def)
  have "armed_for ?t v (d_time ?t (mData (timer_heap ?t v)))" if h: "timer_heap ?t v \<noteq> NoNode" for v
  proof (cases "v = w")
    case True
    have "armed_for (updateSoonestTime w (heap_peek (timer_heap s w)) ?u) w
        (d_time ?u (mData (timer_heap ?u w)))"
    proof (rule update_armed)
      show ne: "timer_heap ?u w \<noteq> NoNode" using h True t by simp
      show "valid_time (d_time ?u (mData (timer_heap ?u w)))" using top_valid [OF core ne] .
      assume "heap_peek (timer_heap s w) \<noteq> None"
      then have p: "timer_heap s w \<noteq> NoNode" "the (heap_peek (timer_heap s w)) = mData (timer_heap s w)"
        by (auto simp: heap_peek_def split: if_splits)
      have "armed_for s w (d_time s (mData (timer_heap s w)))"
        using assms(2) p by (simp add: armed_ok_def)
      then have "armed_for ?u w (d_time s (mData (timer_heap s w)))"
        by (rule armed_for_more) (simp_all add: assms(3) set_heap_def deref_def)
      then show "armed_for ?u w (d_time ?u (the (heap_peek (timer_heap s w)))) \<and>
          valid_time (d_time ?u (the (heap_peek (timer_heap s w))))"
        using top_valid [OF assms(1) p(1)] p u by simp
    qed
    then show ?thesis using True t by simp
  next
    case False
    have "others_same w s ?u" using assms(3) by (auto simp: others_same_def set_heap_def deref_def)
    from others_same_trans [OF this others_same_update] have "others_same w s ?t" using t by simp
    then show ?thesis using others_armed assms(1,2) False h by blast
  qed
  then show ?thesis by (simp add: armed_ok_def)
qed

lemma heap_remove_below:
  "t \<noteq> NoNode \<Longrightarrow> x \<noteq> mData t \<Longrightarrow>
   snd (heap_remove ranks t x) \<noteq> NoNode \<and> mData (snd (heap_remove ranks t x)) = mData t"
  by (cases t) (auto simp: heap_remove_def split: prod.splits option.splits)

lemma heap_remove_top:
  "t \<noteq> NoNode \<Longrightarrow> fst (heap_remove ranks t (mData t)) = Some (mData t)"
proof (cases t)
  case (HeapNode n l d r)
  then have "heap_remove ranks t d = node_pop ranks t" by (simp add: heap_remove_def)
  then show ?thesis using HeapNode fst_node_pop [of t ranks] by simp
qed simp

lemma armed_ok_remove_msg:
  assumes "core_inv {} s" "armed_ok s" "timer_q s = MsgTimerRemove w d # ms"
  shows "armed_ok (remove_proc w d (s\<lparr>timer_q := ms\<rparr>))"
proof -
  let ?t = "remove_proc w d (s\<lparr>timer_q := ms\<rparr>)" and ?r = "heap_remove (ranks_in s) (timer_heap s w) d"
  let ?u = "set_heap w (snd ?r) (deref d (s\<lparr>timer_q := ms\<rparr>))"
  let ?v = "if heap_peek (timer_heap s w) = fst ?r then updateSoonestTime w None ?u else ?u"
  have t: "?t = ?v\<lparr>d_alive := (d_alive ?v)(d := False)\<rparr>"
    by (simp add: remove_proc_def Let_def getSoonestTimer_def deref_def ranks_in_def case_prod_beta)
  have core: "core_inv {} ?t" using remove_core [OF assms(1,3)] .
  have u: "d_time ?t = d_time s" "timer_heap ?t = (timer_heap s)(w := snd ?r)" "d_time ?u = d_time s"
    "timer_heap ?u = (timer_heap s)(w := snd ?r)"
    by (simp_all add: t set_heap_def deref_def)
  have eq: "armed_for ?t v x = armed_for ?v v x" for v x by (simp add: t armed_for_def)
  have "armed_for ?t v (d_time ?t (mData (timer_heap ?t v)))" if h: "timer_heap ?t v \<noteq> NoNode" for v
  proof (cases "v = w")
    case True
    show ?thesis
    proof (cases "heap_peek (timer_heap s w) = fst ?r")
      case eqr: True
      have "armed_for (updateSoonestTime w None ?u) w (d_time ?u (mData (timer_heap ?u w)))"
        using h True top_valid [OF core h] u by (intro update_armed) simp_all
      then show ?thesis using eq True eqr u by simp
    next
      case neq: False
      have ne: "timer_heap s w \<noteq> NoNode"
        using neq by (auto simp: heap_peek_def heap_remove_def)
      then have "d \<noteq> mData (timer_heap s w)"
        using neq heap_remove_top [OF ne, of "ranks_in s"] by (auto simp: heap_peek_def)
      then have top: "mData (snd ?r) = mData (timer_heap s w)" using heap_remove_below [OF ne] by blast
      have "armed_for s w (d_time s (mData (timer_heap s w)))"
        using assms(2) ne by (simp add: armed_ok_def)
      then have "armed_for ?u w (d_time s (mData (timer_heap s w)))"
        by (rule armed_for_more) (simp_all add: assms(3) set_heap_def deref_def)
      then show ?thesis using eq True neq u top by simp
    qed
  next
    case False
    have "others_same w s ?u" using assms(3) by (auto simp: others_same_def set_heap_def deref_def)
    then have "others_same w s ?v" using others_same_trans others_same_update by simp
    moreover have "others_same w ?v ?t" by (simp add: t others_same_def)
    ultimately show ?thesis using others_same_trans others_armed assms(1,2) False h by blast
  qed
  then show ?thesis by (simp add: armed_ok_def)
qed

lemma msg_task_armed:
  assumes "core_inv {} s" "armed_ok s" "clock_ok now"
  shows "armed_ok (msg_task cb now s)"
proof (cases "timer_q s")
  case (Cons m ms)
  then show ?thesis
    using armed_ok_expire_msg [OF assms(1,2) _ assms(3)] armed_ok_push_msg [OF assms(1,2)]
      armed_ok_remove_msg [OF assms(1,2)]
    by (cases m) (simp_all add: msg_task_def)
qed (use assms in \<open>simp add: msg_task_def\<close>)

lemma timers_step_inv: "timers_inv s \<Longrightarrow> step_clock x \<Longrightarrow> timers_inv (timers_step cb s x)"
  using timers_step_core [of s x cb]
  by (cases x)
    (auto simp: timers_inv_def step_clock_def client_armed msg_task_armed wait_armed poll_armed)

lemma init_timers_inv: "timers_inv init_timers"
  by (simp add: timers_inv_def core_inv_def init_timers_def heaps_ok_def delegate_ok_def home_ok_def
      placed_def pushes_def removes_def held_def armed_ok_def)

text \<open>Steps at a time the clock cannot show do not happen.\<close>

definition timers_turn :: "(nat \<Rightarrow> timer_op list) \<Rightarrow> loc_timers \<Rightarrow> timer_step \<Rightarrow> loc_timers" where
  "timers_turn cb s x = (if step_clock x then timers_step cb s x else s)"

interpretation timer_service: event_machine "timers_turn cb" timers_inv for cb
  by unfold_locales (simp add: timers_turn_def timers_step_inv)

definition timers_run :: "(nat \<Rightarrow> timer_op list) \<Rightarrow> timer_step list \<Rightarrow> loc_timers" where
  "timers_run cb xs = foldl (timers_turn cb) init_timers xs"

lemma timers_run_inv: "timers_inv (timers_run cb xs)"
  using timer_service.run_inv [OF init_timers_inv] by (simp add: timers_run_def)

end
