(* ===== verification/LocTimerProps.thy ===== *)
theory LocTimerProps
  imports LocTimerInv
begin

text \<open>What the heap and the timer service of the GPS utilities promise.\<close>

section \<open>What is logged\<close>

definition starts :: "loc_timers \<Rightarrow> nat \<Rightarrow> nat" where
  "starts s c = length (filter (\<lambda>e. e = Started c) (timer_log s))"

definition stops :: "loc_timers \<Rightarrow> nat \<Rightarrow> nat" where
  "stops s c = length (filter (\<lambda>e. e = Stopped c) (timer_log s))"

definition callbacks :: "loc_timers \<Rightarrow> nat \<Rightarrow> nat" where
  "callbacks s c = length (filter (\<lambda>e. case e of CalledBack c' _ _ \<Rightarrow> c' = c | _ \<Rightarrow> False) (timer_log s))"

definition balanced :: "loc_timers \<Rightarrow> bool" where
  "balanced s \<longleftrightarrow>
     (\<forall>c. starts s c = stops s c + callbacks s c + (if c_timer s c = None then 0 else 1))"

lemma balanced_cong:
  "timer_log s' = timer_log s \<Longrightarrow> c_timer s' = c_timer s \<Longrightarrow> balanced s' = balanced s"
  by (simp add: balanced_def starts_def stops_def callbacks_def)

lemma balanced_fields [simp]:
  "balanced (s\<lparr>timer_fault := b\<rparr>) = balanced s" "balanced (s\<lparr>timer_q := q\<rparr>) = balanced s"
  "balanced (s\<lparr>timer_heap := h\<rparr>) = balanced s" "balanced (s\<lparr>poll_events := ws\<rparr>) = balanced s"
  "balanced (s\<lparr>poll_phase := n\<rparr>) = balanced s" "balanced (s\<lparr>d_alive := a\<rparr>) = balanced s"
  "balanced (s\<lparr>fd_armed := t\<rparr>) = balanced s" "balanced (s\<lparr>fd_polled := p\<rparr>) = balanced s"
  "balanced (updateSoonestTime w u s) = balanced s"
  by (rule balanced_cong; simp)+

lemma balanced_client: "balanced s \<Longrightarrow> balanced (client_op now x s)"
  by (cases x)
    (auto simp: balanced_def starts_def stops_def callbacks_def timer_start_def new_delegate_def
      timer_stop_def destroyLocked_def deref_def sendMsg_def log_event_def Let_def
      split: option.splits)

lemma balanced_clients: "balanced s \<Longrightarrow> balanced (fold (client_op now) xs s)"
  by (induction xs arbitrary: s) (auto intro: balanced_client)

lemma balanced_expire:
  assumes "balanced s"
  shows "balanced (delegate_expire cb now d s)"
proof (cases "d_client s d")
  case None
  with assms show ?thesis by (simp add: delegate_expire_def deref_def)
next
  case (Some c)
  show ?thesis
  proof (cases "c_timer s c")
    case None
    with Some assms show ?thesis
      by (simp add: delegate_expire_def timer_stop_def deref_def)
  next
    case t: (Some e)
    have "balanced (log_event (CalledBack c now x) (snd (timer_stop c (deref d s))))" for x
      using assms t
      by (auto simp: balanced_def starts_def stops_def callbacks_def timer_stop_def
          destroyLocked_def deref_def sendMsg_def log_event_def Let_def split: option.splits)
    moreover have "fst (timer_stop c (deref d s))" using t by (simp add: timer_stop_def deref_def)
    moreover have "d_client (deref d s) d = Some c" using Some by (simp add: deref_def)
    ultimately show ?thesis
      by (auto simp: delegate_expire_def case_prod_beta balanced_clients Let_def)
  qed
qed

lemma container_pop_log [simp]:
  "timer_log (snd (container_pop w s)) = timer_log s" "c_timer (snd (container_pop w s)) = c_timer s"
  by (simp_all add: container_pop_def set_heap_def case_prod_beta)

lemma popIf_log [simp]:
  "timer_log (snd (popIfOutRanks w now s)) = timer_log s"
  "c_timer (snd (popIfOutRanks w now s)) = c_timer s"
  by (simp_all add: popIfOutRanks_def split: option.splits)

lemma balanced_loop: "balanced s \<Longrightarrow> balanced (expire_loop cb w now timer s)"
proof (induction cb w now timer s rule: expire_loop.induct)
  case (2 cb w now d s)
  obtain timer s' where p: "popIfOutRanks w now (delegate_expire cb now d s) = (timer, s')"
    by fastforce
  have "balanced s'"
    using balanced_cong [of s' "delegate_expire cb now d s"] balanced_expire [OF "2.prems"]
      popIf_log [of w now "delegate_expire cb now d s"] p by simp
  with "2.IH" [OF p [symmetric]] p show ?case by simp
qed simp

lemma balanced_msg: "balanced s \<Longrightarrow> balanced (msg_task cb now s)"
proof (cases "timer_q s")
  case (Cons m ms)
  let ?s = "s\<lparr>timer_q := ms\<rparr>"
  assume "balanced s"
  then have s: "balanced ?s" by simp
  show ?thesis
  proof (cases m)
    case (MsgTimerPush w d)
    then show ?thesis using s Cons
      by (simp add: msg_task_def push_proc_def Let_def
          set_heap_def deref_def)
  next
    case (MsgTimerRemove w d)
    then show ?thesis using s Cons
      by (simp add: msg_task_def remove_proc_def Let_def
          set_heap_def deref_def case_prod_beta)
  next
    case (MsgTimerExpire w)
    have "balanced (snd (container_pop w ?s))"
      using s balanced_cong [of "snd (container_pop w ?s)" ?s] by simp
    then have "balanced (expire_proc cb w now ?s)"
      by (simp add: expire_proc_def case_prod_beta balanced_loop)
    then show ?thesis using Cons MsgTimerExpire by (simp add: msg_task_def)
  qed
qed (simp add: msg_task_def)

lemma balanced_step: "balanced s \<Longrightarrow> balanced (timers_turn cb s x)"
proof -
  assume s: "balanced s"
  have "balanced (poll_wait now ws s)" for now ws
    using s by (simp add: poll_wait_def)
  moreover have "balanced (poll_expire s)"
    using s
    by (simp add: poll_expire_def settime_def removePoll_def sendMsg_def split: list.splits)
  ultimately show ?thesis using s
    by (cases x) (auto simp: timers_turn_def balanced_client balanced_msg)
qed

interpretation timer_log: event_machine "timers_turn cb" balanced for cb
  by unfold_locales (rule balanced_step)

section \<open>What an expiry does\<close>

definition called :: "timer_event list \<Rightarrow> timespec list" where
  "called es = concat (map (\<lambda>e. case e of CalledBack _ _ t \<Rightarrow> [t] | _ \<Rightarrow> []) es)"

lemma called_append [simp]: "called (xs @ ys) = called xs @ called ys" "called [] = []"
  by (simp_all add: called_def)

lemma client_ops_log: "\<exists>ev. timer_log (fold (client_op now) xs s) = timer_log s @ ev \<and> called ev = []"
proof (induction xs arbitrary: s)
  case (Cons x xs)
  have "\<exists>ev. timer_log (client_op now x s) = timer_log s @ ev \<and> called ev = []"
    by (cases x)
      (auto simp: called_def timer_start_def new_delegate_def timer_stop_def destroyLocked_def
        deref_def sendMsg_def log_event_def Let_def split: option.splits)
  with Cons [of "client_op now x s"] show ?case by fastforce
qed simp

lemma delegate_expire_calls:
  assumes "d_client s d = Some c" "c_timer s c = Some e"
  shows "\<exists>ev. timer_log (delegate_expire cb now d s) = timer_log s @ CalledBack c now (d_time s d) # ev \<and> called ev = []"
proof -
  let ?s = "snd (timer_stop c (deref d s))"
  have l: "timer_log ?s = timer_log s" "d_time ?s = d_time s"
    using assms by (simp_all add: timer_stop_def destroyLocked_def deref_def sendMsg_def Let_def split: option.splits)
  have "fst (timer_stop c (deref d s))" using assms by (simp add: timer_stop_def deref_def)
  then have "delegate_expire cb now d s =
      fold (client_op now) (cb c) (log_event (CalledBack c now (d_time s d)) ?s)"
    using assms l by (simp add: delegate_expire_def case_prod_beta deref_def)
  then show ?thesis
    using client_ops_log [of now "cb c" "log_event (CalledBack c now (d_time s d)) ?s"] l
    by (auto simp: log_event_def)
qed

lemma delegate_expire_log:
  "\<exists>ev. timer_log (delegate_expire cb now d s) = timer_log s @ ev \<and> called ev \<in> {[], [d_time s d]}"
proof (cases "d_client s d = None \<or> c_timer s (the (d_client s d)) = None")
  case True
  then have "timer_log (delegate_expire cb now d s) = timer_log s"
    by (auto simp: delegate_expire_def timer_stop_def deref_def Let_def split: option.splits)
  then show ?thesis by simp
next
  case False
  then obtain c e where c: "d_client s d = Some c" "c_timer s c = Some e" by auto
  show ?thesis using delegate_expire_calls [OF c, of cb now] by (auto simp: called_def)
qed

lemma expire_loop_log: "\<exists>ev. timer_log (expire_loop cb w now timer s) = timer_log s @ ev"
proof (induction cb w now timer s rule: expire_loop.induct)
  case (2 cb w now d s)
  obtain timer s' where p: "popIfOutRanks w now (delegate_expire cb now d s) = (timer, s')" by fastforce
  have "timer_log s' = timer_log (delegate_expire cb now d s)" using popIf_log(1) [of w now] p by (metis snd_conv)
  then show ?case using "2.IH" [OF p [symmetric]] delegate_expire_log [of cb now d s] p by auto
qed simp

text \<open>
  The loop calls back timers that are due, but for the one it starts with, which nothing
  checks; it stops when no timer in the heap is due.
\<close>

definition due :: "timespec \<Rightarrow> timespec \<Rightarrow> bool" where
  "due now t \<longleftrightarrow> nanos t \<le> nanos now"

lemma clock_valid: "clock_ok now \<Longrightarrow> valid_time now"
  by (simp add: clock_ok_def valid_time_def)

lemma container_pop_time [simp]: "d_time (snd (container_pop w s)) = d_time s"
  by (simp add: container_pop_def set_heap_def case_prod_beta)

lemma popIf_due:
  assumes "core_inv {} s" "clock_ok now" "popIfOutRanks w now s = (timer, s')"
  shows "timer = Some d \<Longrightarrow> due now (d_time s' d)"
    and "timer = None \<Longrightarrow> s' = s \<and> (\<forall>d \<in># mset_heap (timer_heap s w). \<not> due now (d_time s d))"
proof -
  let ?h = "timer_heap s w"
  have v: "valid_time (d_time s d)" if "d \<in># mset_heap ?h" for d
    using assms(1) held_alive [OF assms(1) that] by (simp add: core_inv_def)
  note nv = clock_valid [OF assms(2)]
  have peek: "fst (container_pop w s) = heap_peek ?h"
    by (simp add: container_pop_def case_prod_beta timers.pop_is_peek ranks_in_def)
  show "due now (d_time s' d)" if t: "timer = Some d"
  proof -
    have ne: "?h \<noteq> NoNode"
      using assms(3) t by (auto simp: popIfOutRanks_def getSoonestTimer_def heap_peek_def split: if_splits)
    then have p: "container_pop w s = (timer, s')" "\<not> time_ranks now (d_time s (mData ?h)) > 0"
      using assms(3) t by (auto simp: popIfOutRanks_def getSoonestTimer_def heap_peek_def split: if_splits)
    have "d = mData ?h" using p(1) peek t ne by (simp add: heap_peek_def)
    moreover have "d_time s' = d_time s" using container_pop_time [of w s] p(1) by simp
    ultimately show ?thesis
      using p(2) v [OF mData_in_heap [OF ne]] nv by (simp add: due_def)
  qed
  show "s' = s \<and> (\<forall>d \<in># mset_heap ?h. \<not> due now (d_time s d))" if t: "timer = None"
  proof (cases "?h = NoNode")
    case True
    then show ?thesis using assms(3) by (simp add: popIfOutRanks_def getSoonestTimer_def heap_peek_def)
  next
    case False
    then have "time_ranks now (d_time s (mData ?h)) > 0" "s' = s"
      using assms(3) peek t
      by (auto simp: popIfOutRanks_def getSoonestTimer_def heap_peek_def split: if_splits)
    moreover have "nanos (d_time s (mData ?h)) \<le> nanos (d_time s d)" if "d \<in># mset_heap ?h" for d
    proof -
      have "heap_ok (\<lambda>d. valid_time (d_time s d)) (delegate_ranks (d_time s)) ?h"
        using assms(1) by (simp add: core_inv_def heaps_ok_def)
      from timers.top_ranks [OF this that] show ?thesis
        using v that mData_in_heap [OF False] by (simp add: outRanks_def delegate_ranks_def)
    qed
    ultimately show ?thesis using v mData_in_heap [OF False] nv by (fastforce simp: due_def)
  qed
qed

lemma expire_loop_due:
  assumes "core_inv (set_option timer) s" "\<forall>d. timer = Some d \<longrightarrow> d_alive s d" "clock_ok now"
    and "timer = None \<Longrightarrow> timer_heap s w = NoNode"
  shows "(\<forall>d \<in># mset_heap (timer_heap (expire_loop cb w now timer s) w).
       \<not> due now (d_time (expire_loop cb w now timer s) d)) \<and>
     (\<exists>ev. timer_log (expire_loop cb w now timer s) = timer_log s @ ev \<and>
       list_all (due now) (tl (called ev)) \<and>
       (case timer of None \<Rightarrow> True | Some d \<Rightarrow> due now (d_time s d) \<longrightarrow> list_all (due now) (called ev)))"
  using assms
proof (induction cb w now timer s rule: expire_loop.induct)
  case (2 cb w now d s)
  let ?s = "delegate_expire cb now d s"
  obtain timer s' where p: "popIfOutRanks w now ?s = (timer, s')" by fastforce
  have core: "core_inv {} ?s" using expire_core "2.prems" by simp
  obtain ev where ev: "timer_log ?s = timer_log s @ ev" "called ev \<in> {[], [d_time s d]}"
    using delegate_expire_log by blast
  have log: "timer_log s' = timer_log ?s" using popIf_log(1) [of w now ?s] p by simp
  have step: "expire_loop cb w now (Some d) s = expire_loop cb w now timer s'" using p by simp
  show ?case
  proof (cases timer)
    case None
    then have "s' = ?s" "\<forall>d \<in># mset_heap (timer_heap ?s w). \<not> due now (d_time ?s d)"
      using popIf_due(2) [OF core "2.prems"(3) p] by auto
    then show ?thesis using step None ev by auto
  next
    case (Some e)
    note c = popIf_core [OF core p]
    have de: "due now (d_time s' e)" using popIf_due(1) [OF core "2.prems"(3) p Some] .
    from "2.IH" [OF p [symmetric]] c "2.prems"(3) Some de
    obtain ev' where ev': "timer_log (expire_loop cb w now timer s') = timer_log s' @ ev'"
      "list_all (due now) (called ev')"
      and rest: "\<forall>d \<in># mset_heap (timer_heap (expire_loop cb w now timer s') w).
         \<not> due now (d_time (expire_loop cb w now timer s') d)" by auto
    have "list_all (due now) (tl (called (ev @ ev')))"
      "due now (d_time s d) \<Longrightarrow> list_all (due now) (called (ev @ ev'))"
      using ev(2) ev'(2) by (cases "called ev'"; auto)+
    then show ?thesis using step rest ev'(1) ev(1) log by auto
  qed
qed simp

section \<open>Properties\<close>

text \<open>
  C8: the heap is a bag of timers ranked by time: whatever is pushed, popped, peeked and removed
  from an empty one, a push adds its timer, a pop or a peek gives a timer none in the bag is
  before, or \<open>NULL\<close> when it is empty, and a removal takes out exactly the wanted timer when it
  is there. The tree then passes \<open>checkTree\<close>, and its size is that of the bag.
\<close>

theorem heap_refines_bag:
  assumes "\<forall>d \<in> set (pushed ops). valid_time (ft d)"
    and "heap_run (delegate_ranks ft) ops NoNode = (rs, t)"
  shows "bag_run (delegate_ranks ft) ops {#} rs (mset_heap t) \<and>
    checkNodes (delegate_ranks ft) t \<and> getTreeSize t = of_nat (size (mset_heap t))"
  using timers.heap_run_bag [where ft = ft, OF heap_ok_empty, of ops] timers.checkNodes_ok
    getTreeSize_ok assms by fastforce

definition test_times :: "nat \<Rightarrow> timespec" where
  "test_times d = \<lparr>tv_sec = 100 - int d, tv_nsec = 5\<rparr>"

definition test_heap_ops :: "nat heap_op list" where
  "test_heap_ops = [HPush 1, HPush 2, HPush 3, HRemove 2, HPop, HPeek]"

lemmas test_heap_simps = test_heap_ops_def heap_push_def heap_pop_def heap_remove_def heap_peek_def
  new_node_def test_times_def delegate_ranks_def time_ranks_def int_of_long_def outRanks_def
  Let_def pushed_def valid_time_def normal_time_def word_sle_eq

theorem heap_refines_bag_witness:
  "bag_run (delegate_ranks test_times) test_heap_ops {#} [None, None, None, Some 2, Some 3, Some 1] {#1#}"
proof -
  have "heap_run (delegate_ranks test_times) test_heap_ops NoNode =
      ([None, None, None, Some 2, Some 3, Some 1], HeapNode 1 NoNode 1 NoNode)"
    by (simp add: test_heap_simps)
  from conjunct1 [OF heap_refines_bag [OF _ this]] show ?thesis by (simp add: test_heap_simps)
qed

text \<open>
  popped until it is empty, a heap built by any such operations gives all its timers, the
  soonest first.
\<close>

lemma heap_drains_by_time:
  assumes "\<forall>d \<in> set (pushed ops). valid_time (ft d)"
    and "heap_run (delegate_ranks ft) ops NoNode = (rs, t)"
    and "drain (heap_take (delegate_ranks ft)) (size (mset_heap t)) t = (ds, t')"
  shows "t' = NoNode \<and> mset ds = mset_heap t \<and> sorted (map (\<lambda>d. nanos (ft d)) ds)"
proof -
  have ok: "heap_ok (\<lambda>d. valid_time (ft d)) (delegate_ranks ft) t"
    using timers.heap_run_bag [where ft = ft, OF heap_ok_empty, of ops] assms by simp
  from timers.heap_drain_sorted [OF this] assms(3)
  have ds: "t' = NoNode" "mset ds = mset_heap t"
    "sorted_wrt (\<lambda>a b. \<not> outRanks (delegate_ranks ft) b a) ds" by simp_all
  have "valid_time (ft d)" if "d \<in> set ds" for d
    using ok that ds(2) by (metis heap_ok_def set_mset_mset)
  then have "sorted_wrt (\<lambda>a b. nanos (ft a) \<le> nanos (ft b)) ds"
    using sorted_wrt_mono_rel [OF _ ds(3)] by (auto simp: outRanks_def delegate_ranks_def)
  then show ?thesis using ds by (simp add: sorted_map)
qed

lemma heap_drains_by_time_example:
  "mset [3, 2, 1] = mset_heap (HeapNode 3 (HeapNode 1 NoNode 1 NoNode) (3 :: nat) (HeapNode 1 NoNode 2 NoNode)) \<and>
   sorted (map (\<lambda>d. nanos (test_times d)) [3, 2, 1])"
proof -
  let ?t = "HeapNode 3 (HeapNode 1 NoNode 1 NoNode) 3 (HeapNode 1 NoNode 2 NoNode)"
  have r: "heap_run (delegate_ranks test_times) [HPush 1, HPush 3, HPush 2] NoNode =
      ([None, None, None], ?t)"
    by (simp add: test_heap_simps)
  have d: "drain (heap_take (delegate_ranks test_times)) (size (mset_heap ?t)) ?t = ([3, 2, 1], NoNode)"
    by (simp add: test_heap_simps heap_take_def numeral_3_eq_3)
  have v: "\<forall>d \<in> set (pushed [HPush 1, HPush 3, HPush 2]). valid_time (test_times d)"
    by (simp add: test_heap_simps)
  show ?thesis using heap_drains_by_time [OF v r d] by blast
qed

text \<open>
  C11: no running timer is forgotten, whatever clients, message thread and poll thread do and in
  whatever order: while a client's timer runs, its delegate exists and either the message that
  adds it is on its way, or it is in a heap whose descriptor is polled and set to its time or
  before, or has fired so that the expiry is under way. No deleted delegate is ever used.
\<close>

theorem running_timer_armed:
  assumes "s = timers_run cb xs" "c_timer s c = Some d"
  shows "d_alive s d \<and> \<not> timer_fault s \<and>
    (\<exists>w. MsgTimerPush w d \<in> set (timer_q s) \<or>
      d \<in># mset_heap (timer_heap s w) \<and> armed_for s w (d_time s d))"
proof -
  have inv: "core_inv {} s" "armed_ok s" using assms(1) timers_run_inv by (simp_all add: timers_inv_def)
  have cl: "d_client s d = Some c" using core_inv_link [OF inv(1)] assms(2) by simp
  have al: "d_alive s d" using client_alive [OF inv(1)] cl by simp
  obtain w where "home_ok {} s d w" using core_inv_delegate [OF inv(1)] by (auto simp: delegate_ok_def)
  then have "placed s w d = 1" using al cl by (simp add: home_ok_def)
  then have "pushes s w d \<noteq> 0 \<or> held s w d \<noteq> 0" by (auto simp: placed_def)
  then consider "MsgTimerPush w d \<in> set (timer_q s)" | (held) "d \<in># mset_heap (timer_heap s w)"
    by (auto simp: pushes_def held_def)
  then have "MsgTimerPush w d \<in> set (timer_q s) \<or>
      d \<in># mset_heap (timer_heap s w) \<and> armed_for s w (d_time s d)"
  proof cases
    case held
    then have ne: "timer_heap s w \<noteq> NoNode" by auto
    have ok: "heap_ok (\<lambda>d. valid_time (d_time s d)) (delegate_ranks (d_time s)) (timer_heap s w)"
      using inv(1) by (simp add: core_inv_def heaps_ok_def)
    have "nanos (d_time s (mData (timer_heap s w))) \<le> nanos (d_time s d)"
      using timers.top_ranks [OF ok held] ok held mData_in_heap [OF ne]
      by (auto simp: outRanks_def delegate_ranks_def heap_ok_def)
    moreover have "armed_for s w (d_time s (mData (timer_heap s w)))"
      using inv(2) ne by (simp add: armed_ok_def)
    ultimately show ?thesis using held armed_for_more [of s w _ s] by blast
  qed simp
  then show ?thesis using al inv(1) by (auto simp: core_inv_def)
qed

definition at :: "int \<Rightarrow> timespec" where
  "at t = \<lparr>tv_sec = t, tv_nsec = 0\<rparr>"

lemmas test_timer_simps = at_def timers_run_def timers_turn_def step_clock_def clock_ok_def
  normal_time_def init_timers_def timer_start_def new_delegate_def future_time_def Let_def
  sendMsg_def log_event_def msg_task_def push_proc_def getSoonestTimer_def heap_peek_def deref_def
  set_heap_def heap_push_def new_node_def updateSoonestTime_def settime_def addPoll_def

theorem running_timer_armed_witness:
  "d_alive (timers_run (\<lambda>_. []) [Client (at 100) (TStart 1 5000 False), Task (at 100)]) 0"
proof -
  let ?s = "timers_run (\<lambda>_. []) [Client (at 100) (TStart 1 5000 False), Task (at 100)]"
  have "c_timer ?s 1 = Some 0" by (simp add: test_timer_simps)
  from running_timer_armed [OF refl this] show ?thesis by blast
qed

text \<open>
  C35: every successful start of a timer is paid for once: by a stop that returned true, or by
  one callback, or the timer is still running. So a stopped timer is not called back, and no
  timer is called back twice.
\<close>

theorem timer_starts_balanced:
  "starts (timers_run cb xs) c =
     stops (timers_run cb xs) c + callbacks (timers_run cb xs) c +
     (if c_timer (timers_run cb xs) c = None then 0 else 1)"
  using timer_log.run_inv [of init_timers cb xs]
  by (simp add: timers_run_def balanced_def init_timers_def starts_def stops_def callbacks_def)

text \<open>
  C36: an expiry message leaves no timer in the container that is due, and calls back only
  timers that are due, but for the first: that one it pops without a look at its time.
\<close>

theorem expiry_calls_due:
  assumes "s = timers_run cb xs" "timer_q s = MsgTimerExpire w # ms" "clock_ok now"
  shows "(\<forall>d \<in># mset_heap (timer_heap (msg_task cb now s) w). \<not> due now (d_time (msg_task cb now s) d)) \<and>
    (\<exists>ev. timer_log (msg_task cb now s) = timer_log s @ ev \<and> list_all (due now) (tl (called ev)))"
proof -
  let ?s = "s\<lparr>timer_q := ms\<rparr>"
  have core: "core_inv {} ?s"
    using core_inv_expire_msg assms(1,2) timers_run_inv by (simp add: timers_inv_def)
  obtain timer s1 where p: "container_pop w ?s = (timer, s1)" by fastforce
  have t: "msg_task cb now s = updateSoonestTime w None (expire_loop cb w now timer s1)"
    using assms(2) p by (simp add: msg_task_def expire_proc_def)
  have "timer_heap s1 w = NoNode" if "timer = None"
  proof -
    have "timer = heap_peek (timer_heap s w)"
      using p timers.pop_is_peek [of "d_time s" "timer_heap s w"]
      by (auto simp: container_pop_def ranks_in_def case_prod_beta)
    then have "timer_heap s w = NoNode" using that by (auto simp: heap_peek_def split: if_splits)
    then show ?thesis using p by (auto simp: container_pop_def heap_pop_def set_heap_def)
  qed
  from expire_loop_due [OF pop_core(1,2) [OF core p] assms(3) this, of cb]
  have "(\<forall>d \<in># mset_heap (timer_heap (expire_loop cb w now timer s1) w).
       \<not> due now (d_time (expire_loop cb w now timer s1) d)) \<and>
     (\<exists>ev. timer_log (expire_loop cb w now timer s1) = timer_log s1 @ ev \<and>
       list_all (due now) (tl (called ev)))" by blast
  moreover have "timer_log s1 = timer_log s" using container_pop_log(1) [of w ?s] p by simp
  ultimately show ?thesis using t by simp
qed

text \<open>Two timers, the first due at 105 s; its client stops it when it has just fired.\<close>

definition late_stop :: "timer_step list" where
  "late_stop =
    [Client (at 100) (TStart 1 5000 False), Task (at 100),
     Client (at 100) (TStart 2 1000000 False), Task (at 100),
     Wait (at 105) [False], Client (at 105) (TStop 1), Poll, Poll, Poll, Task (at 105)]"

lemmas test_expiry_simps = test_timer_simps late_stop_def poll_wait_def fd_ready_def nanos_def
  poll_expire_def no_delay_def timer_stop_def destroyLocked_def remove_proc_def heap_remove_def
  expire_proc_def container_pop_def heap_pop_def popIfOutRanks_def removePoll_def ranks_in_def
  delegate_ranks_def time_ranks_def int_of_long_def outRanks_def delegate_expire_def called_def
  due_def

lemma late_stop_queue: "timer_q (timers_run (\<lambda>_. []) late_stop) = [MsgTimerExpire False]"
  by (simp add: test_expiry_simps)

theorem expiry_calls_due_witness:
  "\<exists>ev. timer_log (msg_task (\<lambda>_. []) (at 105) (timers_run (\<lambda>_. []) late_stop)) =
     timer_log (timers_run (\<lambda>_. []) late_stop) @ ev \<and> list_all (due (at 105)) (tl (called ev))"
  using expiry_calls_due [OF refl late_stop_queue, of "at 105"]
  by (simp add: at_def clock_ok_def normal_time_def)

text \<open>
  C37: that first timer can be far from due. An expiry message calls back the client of the first
  timer in the container, whatever the time of that timer and whatever the clock says. So when a
  timer is stopped after its descriptor has fired and before the message is handled, the next
  timer is called back in its place: in the witness one that is due at 1100 s, at 105 s.
\<close>

theorem timer_fires_early:
  assumes "s = timers_run cb xs" "timer_q s = MsgTimerExpire w # ms"
    and "heap_peek (timer_heap s w) = Some d" "d_client s d = Some c"
  shows "\<exists>ev. timer_log (msg_task cb now s) = timer_log s @ CalledBack c now (d_time s d) # ev"
proof -
  let ?s = "s\<lparr>timer_q := ms\<rparr>"
  obtain timer s1 where p: "container_pop w ?s = (timer, s1)" by fastforce
  have "timer = heap_peek (timer_heap s w)"
    using p timers.pop_is_peek [of "d_time s" "timer_heap s w"]
    by (auto simp: container_pop_def ranks_in_def case_prod_beta)
  then have t: "timer = Some d" using assms(3) by simp
  have s1: "timer_log s1 = timer_log s" "d_time s1 = d_time s" "d_client s1 = d_client s" "c_timer s1 = c_timer s"
    using p by (auto simp: container_pop_def set_heap_def case_prod_beta)
  have "core_inv {} s" using assms(1) timers_run_inv by (simp add: timers_inv_def)
  then have "c_timer s c = Some d" using core_inv_link assms(4) by blast
  then obtain ev where ev: "timer_log (delegate_expire cb now d s1) = timer_log s @ CalledBack c now (d_time s d) # ev"
    using delegate_expire_calls [of s1 d c d cb now] assms(4) s1 by auto
  obtain timer' s2 where p2: "popIfOutRanks w now (delegate_expire cb now d s1) = (timer', s2)" by fastforce
  have "timer_log s2 = timer_log (delegate_expire cb now d s1)" using popIf_log(1) [of w now] p2 by (metis snd_conv)
  moreover have "msg_task cb now s = updateSoonestTime w None (expire_loop cb w now timer' s2)"
    using assms(2) p t p2 by (simp add: msg_task_def expire_proc_def)
  moreover obtain ev' where "timer_log (expire_loop cb w now timer' s2) = timer_log s2 @ ev'"
    using expire_loop_log by blast
  ultimately show ?thesis using ev by simp
qed

theorem timer_fires_early_witness:
  "\<exists>ev. timer_log (msg_task (\<lambda>_. []) (at 105) (timers_run (\<lambda>_. []) late_stop)) =
     [Started 1, Started 2, Stopped 1] @ CalledBack 2 (at 105) (at 1100) # ev"
proof -
  let ?s = "timers_run (\<lambda>_. []) late_stop"
  have f: "heap_peek (timer_heap ?s False) = Some 1" "d_client ?s 1 = Some 2" "d_time ?s 1 = at 1100"
    "timer_log ?s = [Started 1, Started 2, Stopped 1]"
    by (simp_all add: test_expiry_simps heap_peek_def)
  show ?thesis using timer_fires_early [OF refl late_stop_queue f(1,2), of "at 105"] f(3,4) by simp
qed

text \<open>
  \<open>loc_timer_start\<close> sets its timer to the given number of milliseconds from now, with the
  nanoseconds in their range and no overflow, when the delay fits in 32 bits: of a longer one
  only the low 32 bits count.
\<close>

lemma loc_timer_start_time:
  assumes "clock_ok now" "c_timer s c = None"
    and "loc_timer_start now c msec True wake s = (Some c, s')"
  shows "\<exists>d. c_timer s' c = Some d \<and> valid_time (d_time s' d) \<and>
    nanos (d_time s' d) = nanos now + (uint msec mod 2 ^ 32) * 1000000"
proof -
  have "uint (ucast msec :: int32) = uint msec mod 2 ^ 32" by (simp add: unsigned_ucast_eq take_bit_eq_mod)
  then show ?thesis
    using assms future_time_valid [OF assms(1), of "ucast msec"]
    by (auto simp: loc_timer_start_def timer_start_def new_delegate_def sendMsg_def Let_def)
qed

lemma loc_timer_start_time_example:
  "\<exists>d. c_timer (snd (loc_timer_start (at 100) 7 4294967301 True False init_timers)) 7 = Some d \<and>
    valid_time (d_time (snd (loc_timer_start (at 100) 7 4294967301 True False init_timers)) d) \<and>
    nanos (d_time (snd (loc_timer_start (at 100) 7 4294967301 True False init_timers)) d) =
      nanos (at 100) + 5000000"
  using loc_timer_start_time [of "at 100" init_timers 7 4294967301 False]
  by (simp add: at_def clock_ok_def normal_time_def init_timers_def loc_timer_start_def)

end
