(* ===== verification/NatApp.thy ===== *)
theory NatApp
  imports Prelude
begin

text \<open>
  The NAT cache of the IPA configuration manager
  (\<open>data-ipa-cfg-mgr/ipacm/src/IPACM_Conntrack_NATApp.cpp\<close>): the connections that the
  hardware translates or will, in an array of \<open>max_entries\<close> slots, of which a slot with a zero
  connection is free; the connections whose client is not known yet (\<open>temp\<close>); and the clients
  in power save. The NAT driver (\<open>ipanat\<close>) and the connection tracker are the parameter \<open>D\<close>:
  their calls take the parameter's state and return it with their results, and nothing is
  supposed of them. An out-parameter is given its old value, which a failing call may keep.
\<close>

unbundle bit_operations_syntax

section \<open>Data\<close>

record nat_table_entry =
  private_ip :: u32
  private_port :: u16
  target_ip :: u32
  target_port :: u16
  public_ip :: u16
  public_port :: u16
  protocol :: u8
  timestamp :: u32
  dst_nat :: bool
  enabled :: bool
  rule_hdl :: u32

text \<open>What \<open>UpdateCTUdpTs\<close> sets in the connection it hands to \<open>nfct_query\<close>.\<close>

record ct_update =
  ct_l4proto :: u8
  ct_timeout :: u32
  ct_src_ip :: u32
  ct_src_port :: u16
  ct_dst_ip :: u32
  ct_dst_port :: u16

record 'd nat_driver =
  ipa_nat_add_ipv4_tbl :: "u32 \<Rightarrow> u16 \<Rightarrow> u32 \<Rightarrow> 'd \<Rightarrow> int32 \<times> u32 \<times> 'd"
  ipa_nat_del_ipv4_tbl :: "u32 \<Rightarrow> 'd \<Rightarrow> int32 \<times> 'd"
  ipa_nat_add_ipv4_rule :: "u32 \<Rightarrow> ipa_nat_ipv4_rule \<Rightarrow> u32 \<Rightarrow> 'd \<Rightarrow> int32 \<times> u32 \<times> 'd"
  ipa_nat_del_ipv4_rule :: "u32 \<Rightarrow> u32 \<Rightarrow> 'd \<Rightarrow> int32 \<times> 'd"
  ipa_nat_query_timestamp :: "u32 \<Rightarrow> u32 \<Rightarrow> u32 \<Rightarrow> 'd \<Rightarrow> int32 \<times> u32 \<times> 'd"
  nfct_open :: "'d \<Rightarrow> bool \<times> 'd"
  nfct_new :: "'d \<Rightarrow> bool \<times> 'd"
  nfct_query_update :: "ct_update \<Rightarrow> 'd \<Rightarrow> int32 \<times> 'd"

record 'd nat_app =
  cache :: "nat_table_entry list"
  temp :: "nat_table_entry list"
  pub_ip_addr :: u32
  pub_ip_addr_pre :: u32
  nat_table_hdl :: u32
  curCnt :: int
  pALGPorts :: "(u8 \<times> u16) list"
  tcp_timeout :: u32
  udp_timeout :: u32
  PwrSaveIfs :: "u32 list"
  ct_new_done :: bool
  ct_open_done :: bool
  drv :: 'd

definition zero_entry :: nat_table_entry where
  "zero_entry =
    \<lparr>private_ip = 0, private_port = 0, target_ip = 0, target_port = 0, public_ip = 0,
     public_port = 0, protocol = 0, timestamp = 0, dst_nat = False, enabled = False,
     rule_hdl = 0\<rparr>"

definition MAX_TEMP_ENTRIES :: nat where
  "MAX_TEMP_ENTRIES = 25"

definition IPA_MAX_NUM_WIFI_CLIENTS :: nat where
  "IPA_MAX_NUM_WIFI_CLIENTS = 32"

definition IPPROTO_TCP :: u8 where "IPPROTO_TCP = 6"
definition IPPROTO_UDP :: u8 where "IPPROTO_UDP = 17"

text \<open>The first index a loop with a \<open>break\<close> stops at.\<close>

fun first_index :: "('a \<Rightarrow> bool) \<Rightarrow> 'a list \<Rightarrow> nat option" where
  "first_index P [] = None"
| "first_index P (x # xs) = (if P x then Some 0 else map_option Suc (first_index P xs))"

text \<open>The byte order of the network, on this little-endian machine.\<close>

definition htonl :: "u32 \<Rightarrow> u32" where
  "htonl w =
    push_bit 24 (w AND 0xFF) OR push_bit 8 (w AND 0xFF00) OR
    (drop_bit 8 w AND 0xFF00) OR drop_bit 24 w"

definition htons :: "u16 \<Rightarrow> u16" where
  "htons w = push_bit 8 w OR drop_bit 8 w"

section \<open>The constructor\<close>

text \<open>
  \<open>Init\<close>, with what the configuration gives. The constructor leaves the members \<open>pub_ip_addr_pre\<close>,
  \<open>PwrSaveIfs\<close> and the time-outs as the memory was: they are the arguments \<open>pre\<close>, \<open>pwr\<close>,
  \<open>tcp\<close> and \<open>udp\<close>. \<open>GetAlgPorts\<close> refuses a count of 0.
\<close>

definition NatApp_Init ::
  "nat \<Rightarrow> (u8 \<times> u16) list \<Rightarrow> u32 \<Rightarrow> u32 list \<Rightarrow> u32 \<Rightarrow> u32 \<Rightarrow> 'd \<Rightarrow> 'd nat_app option" where
  "NatApp_Init max_entries alg_table pre pwr tcp udp d =
    (if alg_table = [] then None
     else Some
      \<lparr>cache = replicate max_entries zero_entry, temp = replicate MAX_TEMP_ENTRIES zero_entry,
       pub_ip_addr = 0, pub_ip_addr_pre = pre, nat_table_hdl = 0, curCnt = 0,
       pALGPorts = alg_table, tcp_timeout = tcp, udp_timeout = udp, PwrSaveIfs = pwr,
       ct_new_done = False, ct_open_done = False, drv = d\<rparr>)"

section \<open>Lookups\<close>

definition same_conn :: "nat_table_entry \<Rightarrow> nat_table_entry \<Rightarrow> bool" where
  "same_conn rule e \<longleftrightarrow>
     private_ip e = private_ip rule \<and> target_ip e = target_ip rule \<and>
     private_port e = private_port rule \<and> target_port e = target_port rule \<and>
     protocol e = protocol rule"

definition free_slot :: "nat_table_entry \<Rightarrow> bool" where
  "free_slot e \<longleftrightarrow>
     private_ip e = 0 \<and> target_ip e = 0 \<and> private_port e = 0 \<and> target_port e = 0 \<and>
     protocol e = 0"

definition invalid_conn :: "nat_table_entry \<Rightarrow> bool" where
  "invalid_conn e \<longleftrightarrow>
     private_ip e = 0 \<or> target_ip e = 0 \<or> private_port e = 0 \<or> target_port e = 0 \<or>
     protocol e = 0"

definition ChkForDup :: "nat_table_entry \<Rightarrow> 'd nat_app \<Rightarrow> bool" where
  "ChkForDup rule s = (first_index (same_conn rule) (cache s) \<noteq> None)"

definition isAlgPort :: "u8 \<Rightarrow> u16 \<Rightarrow> 'd nat_app \<Rightarrow> bool" where
  "isAlgPort proto port s = ((proto, port) \<in> set (pALGPorts s))"

definition isPwrSaveIf :: "u32 \<Rightarrow> 'd nat_app \<Rightarrow> bool" where
  "isPwrSaveIf ip_addr s = list_ex (\<lambda>x. 0 \<noteq> x \<and> ip_addr = x) (PwrSaveIfs s)"

definition nat_rule_of :: "nat_table_entry \<Rightarrow> ipa_nat_ipv4_rule" where
  "nat_rule_of e =
    \<lparr>r_target_ip = target_ip e, r_private_ip = private_ip e, r_target_port = target_port e,
     r_private_port = private_port e, r_public_port = public_port e, r_protocol = protocol e\<rparr>"

definition set_slot :: "nat \<Rightarrow> nat_table_entry \<Rightarrow> 'd nat_app \<Rightarrow> 'd nat_app" where
  "set_slot cnt e s = s\<lparr>cache := (cache s)[cnt := e]\<rparr>"

definition clear_slot :: "nat \<Rightarrow> 'd nat_app \<Rightarrow> 'd nat_app" where
  "clear_slot cnt s = (set_slot cnt zero_entry s)\<lparr>curCnt := curCnt s - 1\<rparr>"

text \<open>A loop over the slots.\<close>

definition for_slots :: "(nat \<Rightarrow> 'd nat_app \<Rightarrow> 'd nat_app) \<Rightarrow> 'd nat_app \<Rightarrow> 'd nat_app" where
  "for_slots f s = fold f [0..<length (cache s)] s"

section \<open>The table\<close>

text \<open>
  Putting a cached connection back into the hardware; on failure it goes from the cache.
\<close>

definition restore_slot :: "'d nat_driver \<Rightarrow> nat \<Rightarrow> 'd nat_app \<Rightarrow> 'd nat_app" where
  "restore_slot D cnt s =
    (let e = cache s ! cnt
     in case ipa_nat_add_ipv4_rule D (nat_table_hdl s) (nat_rule_of e) (rule_hdl e) (drv s) of
          (res, hdl, d) \<Rightarrow>
            if res <s 0 then clear_slot cnt (s\<lparr>drv := d\<rparr>)
            else set_slot cnt (e\<lparr>rule_hdl := hdl, enabled := True\<rparr>) (s\<lparr>drv := d\<rparr>))"

definition AddTable :: "'d nat_driver \<Rightarrow> u32 \<Rightarrow> 'd nat_app \<Rightarrow> int32 \<times> 'd nat_app" where
  "AddTable D pub_ip s =
    (case ipa_nat_add_ipv4_tbl D pub_ip (of_nat (length (cache s))) (nat_table_hdl s) (drv s) of
       (res, hdl, d) \<Rightarrow>
         let s = s\<lparr>nat_table_hdl := hdl, drv := d\<rparr>
         in if res \<noteq> 0 then (res, s)
            else
              let s = (if pub_ip = pub_ip_addr_pre s
                       then for_slots (\<lambda>cnt s.
                              if private_ip (cache s ! cnt) \<noteq> 0 then restore_slot D cnt s else s) s
                       else s)
              in (0, s\<lparr>pub_ip_addr := pub_ip\<rparr>))"

text \<open>The loop of \<open>Reset\<close> compares \<open>enabled\<close> with \<open>false\<close> and throws the result away.\<close>

definition NatApp_Reset :: "'d nat_app \<Rightarrow> 'd nat_app" where
  "NatApp_Reset s = s\<lparr>nat_table_hdl := 0, pub_ip_addr := 0\<rparr>"

definition DeleteTable :: "'d nat_driver \<Rightarrow> u32 \<Rightarrow> 'd nat_app \<Rightarrow> int32 \<times> 'd nat_app" where
  "DeleteTable D pub_ip s =
    (if nat_table_hdl s = 0 then (- 1, s)
     else if pub_ip_addr s \<noteq> pub_ip then (- 1, s)
     else
       case ipa_nat_del_ipv4_tbl D (nat_table_hdl s) (drv s) of (res, d) \<Rightarrow>
         let s = s\<lparr>drv := d\<rparr>
         in if res \<noteq> 0 then (res, s)
            else (0, NatApp_Reset (s\<lparr>pub_ip_addr_pre := pub_ip_addr s\<rparr>)))"

section \<open>Entries\<close>

definition DeleteEntry :: "'d nat_driver \<Rightarrow> nat_table_entry \<Rightarrow> 'd nat_app \<Rightarrow> int32 \<times> 'd nat_app" where
  "DeleteEntry D rule s =
    (case first_index (same_conn rule) (cache s) of
       None \<Rightarrow> (0, s)
     | Some cnt \<Rightarrow>
         let e = cache s ! cnt;
             s = (if enabled e
                  then s\<lparr>drv := snd (ipa_nat_del_ipv4_rule D (nat_table_hdl s) (rule_hdl e) (drv s))\<rparr>
                  else s)
         in (0, clear_slot cnt s))"

text \<open>The fields that \<open>AddEntry\<close> and \<open>CacheEntry\<close> copy into a slot.\<close>

definition fill_slot :: "nat_table_entry \<Rightarrow> nat_table_entry \<Rightarrow> nat_table_entry" where
  "fill_slot rule e =
    e\<lparr>private_ip := private_ip rule, target_ip := target_ip rule, target_port := target_port rule,
      private_port := private_port rule, protocol := protocol rule, timestamp := 0,
      public_port := public_port rule, dst_nat := dst_nat rule\<rparr>"

definition AddEntry :: "'d nat_driver \<Rightarrow> nat_table_entry \<Rightarrow> 'd nat_app \<Rightarrow> int32 \<times> 'd nat_app" where
  "AddEntry D rule s =
    (if nat_table_hdl s = 0 then (- 1, s)
     else if isAlgPort (protocol rule) (private_port rule) s \<or>
             isAlgPort (protocol rule) (target_port rule) s then (- 1, s)
     else if invalid_conn rule then (0, s)
     else if ChkForDup rule s then (- 1, s)
     else
       case first_index free_slot (cache s) of
         None \<Rightarrow> (- 1, s)
       | Some cnt \<Rightarrow>
           let e = cache s ! cnt
           in if isPwrSaveIf (private_ip rule) s \<or> isPwrSaveIf (target_ip rule) s then
                (0, (set_slot cnt (fill_slot rule (e\<lparr>enabled := False, rule_hdl := 0\<rparr>)) s)
                      \<lparr>curCnt := curCnt s + 1\<rparr>)
              else
                case ipa_nat_add_ipv4_rule D (nat_table_hdl s) (nat_rule_of rule) (rule_hdl e) (drv s) of
                  (res, hdl, d) \<Rightarrow>
                    let s = s\<lparr>drv := d\<rparr>
                    in if res <s 0 then (- 1, set_slot cnt (e\<lparr>rule_hdl := hdl\<rparr>) s)
                       else (0, (set_slot cnt (fill_slot rule (e\<lparr>rule_hdl := hdl, enabled := True\<rparr>)) s)
                                  \<lparr>curCnt := curCnt s + 1\<rparr>))"

text \<open>
  \<open>CacheEntry\<close> looks for a free slot from \<open>cnt\<close>, which it declares but does not set: \<open>cnt0\<close> is
  what the stack held. Before the array and past its end it reads or writes memory that is not
  its own, and the result is \<open>None\<close>.
\<close>

definition CacheEntry :: "int \<Rightarrow> nat_table_entry \<Rightarrow> 'd nat_app \<Rightarrow> 'd nat_app option" where
  "CacheEntry cnt0 rule s =
    (if invalid_conn rule then Some s
     else if ChkForDup rule s then Some s
     else if cnt0 < 0 \<or> cnt0 > int (length (cache s)) then None
     else
       case first_index free_slot (drop (nat cnt0) (cache s)) of
         None \<Rightarrow> Some s
       | Some i \<Rightarrow>
           let cnt = nat cnt0 + i;
               e = (cache s ! cnt)\<lparr>enabled := False, rule_hdl := 0\<rparr>
           in Some ((set_slot cnt (fill_slot rule e) s)\<lparr>curCnt := curCnt s + 1\<rparr>))"

section \<open>Time stamps\<close>

definition ct_update_of :: "nat_table_entry \<Rightarrow> 'd nat_app \<Rightarrow> ct_update" where
  "ct_update_of rule s =
    (let to = (if protocol rule = IPPROTO_UDP then udp_timeout s else tcp_timeout s)
     in if \<not> dst_nat rule then
          \<lparr>ct_l4proto = protocol rule, ct_timeout = to,
           ct_src_ip = htonl (private_ip rule), ct_src_port = htons (private_port rule),
           ct_dst_ip = htonl (target_ip rule), ct_dst_port = htons (target_port rule)\<rparr>
        else
          \<lparr>ct_l4proto = protocol rule, ct_timeout = to,
           ct_src_ip = htonl (target_ip rule), ct_src_port = htons (target_port rule),
           ct_dst_ip = htonl (pub_ip_addr s), ct_dst_port = htons (public_port rule)\<rparr>)"

definition UpdateCTUdpTs :: "'d nat_driver \<Rightarrow> nat \<Rightarrow> u32 \<Rightarrow> 'd nat_app \<Rightarrow> 'd nat_app" where
  "UpdateCTUdpTs D cnt new_ts s =
    (let s = (if ct_open_done s then s
              else case nfct_open D (drv s) of (ok, d) \<Rightarrow> s\<lparr>ct_open_done := ok, drv := d\<rparr>)
     in if \<not> ct_open_done s then s
        else
          let s = (if ct_new_done s then s
                   else case nfct_new D (drv s) of (ok, d) \<Rightarrow> s\<lparr>ct_new_done := ok, drv := d\<rparr>)
          in if \<not> ct_new_done s then s
             else
               let rule = cache s ! cnt
               in case nfct_query_update D (ct_update_of rule s) (drv s) of (res, d) \<Rightarrow>
                    if res = - 1 then s\<lparr>drv := d\<rparr>
                    else set_slot cnt (rule\<lparr>timestamp := new_ts\<rparr>) (s\<lparr>drv := d\<rparr>))"

definition UpdateUDPTimeStamp :: "'d nat_driver \<Rightarrow> 'd nat_app \<Rightarrow> 'd nat_app" where
  "UpdateUDPTimeStamp D s =
    for_slots (\<lambda>cnt s.
      let e = cache s ! cnt
      in if enabled e then
           case ipa_nat_query_timestamp D (nat_table_hdl s) (rule_hdl e) 0 (drv s) of (res, ts, d) \<Rightarrow>
             let s = s\<lparr>drv := d\<rparr>
             in if res <s 0 then s
                else if timestamp e = ts then s
                else UpdateCTUdpTs D cnt ts s
         else s) s"

section \<open>Clients\<close>

definition PWR_INVALID :: u32 where "PWR_INVALID = 0"

definition UpdatePwrSaveIf :: "'d nat_driver \<Rightarrow> u32 \<Rightarrow> 'd nat_app \<Rightarrow> int32 \<times> 'd nat_app" where
  "UpdatePwrSaveIf D client_lan_ip s =
    (if client_lan_ip = PWR_INVALID then (- 1, s)
     else if list_ex (\<lambda>x. x = client_lan_ip) (PwrSaveIfs s) then (0, s)
     else
       let s = (case first_index (\<lambda>x. x = 0) (PwrSaveIfs s) of
                  None \<Rightarrow> s
                | Some i \<Rightarrow> s\<lparr>PwrSaveIfs := (PwrSaveIfs s)[i := client_lan_ip]\<rparr>)
       in (0, for_slots (\<lambda>cnt s.
            let e = cache s ! cnt
            in if private_ip e = client_lan_ip \<and> enabled e then
                 case ipa_nat_del_ipv4_rule D (nat_table_hdl s) (rule_hdl e) (drv s) of (res, d) \<Rightarrow>
                   let s = s\<lparr>drv := d\<rparr>
                   in if res <s 0 then s
                      else set_slot cnt (e\<lparr>enabled := False, rule_hdl := 0\<rparr>) s
               else s) s))"

text \<open>The first slot of \<open>PwrSaveIfs\<close> that holds the client is cleared.\<close>

definition clear_pwr :: "u32 \<Rightarrow> 'd nat_app \<Rightarrow> 'd nat_app" where
  "clear_pwr ip s =
    (case first_index (\<lambda>x. x = ip) (PwrSaveIfs s) of
       None \<Rightarrow> s
     | Some i \<Rightarrow> s\<lparr>PwrSaveIfs := (PwrSaveIfs s)[i := 0]\<rparr>)"

definition ResetPwrSaveIf :: "'d nat_driver \<Rightarrow> u32 \<Rightarrow> 'd nat_app \<Rightarrow> int32 \<times> 'd nat_app" where
  "ResetPwrSaveIf D client_lan_ip s =
    (if client_lan_ip = PWR_INVALID then (- 1, s)
     else
       (- 1, for_slots (\<lambda>cnt s.
          if private_ip (cache s ! cnt) = client_lan_ip \<and> \<not> enabled (cache s ! cnt)
          then restore_slot D cnt s else s) (clear_pwr client_lan_ip s)))"

definition UpdateTcpUdpTo :: "u32 \<Rightarrow> int32 \<Rightarrow> 'd nat_app \<Rightarrow> 'd nat_app" where
  "UpdateTcpUdpTo new_value proto s =
    (if proto = ucast IPPROTO_TCP then s\<lparr>tcp_timeout := new_value\<rparr>
     else if proto = ucast IPPROTO_UDP then s\<lparr>udp_timeout := new_value\<rparr>
     else s)"

definition GetTableHdl :: "u32 \<Rightarrow> 'd nat_app \<Rightarrow> u32" where
  "GetTableHdl in_ip_addr s = (if in_ip_addr = pub_ip_addr s then nat_table_hdl s else - 1)"

definition DelEntriesOnClntDiscon ::
  "'d nat_driver \<Rightarrow> u32 \<Rightarrow> 'd nat_app \<Rightarrow> int32 \<times> 'd nat_app" where
  "DelEntriesOnClntDiscon D ip_addr s =
    (if ip_addr = PWR_INVALID then (- 1, s)
     else
       (0, for_slots (\<lambda>cnt s.
          let e = cache s ! cnt
          in if private_ip e = ip_addr \<and> enabled e then
               case ipa_nat_del_ipv4_rule D (nat_table_hdl s) (rule_hdl e) (drv s) of (res, d) \<Rightarrow>
                 let s = s\<lparr>drv := d\<rparr>
                 in if res <s 0 then s else set_slot cnt (e\<lparr>enabled := False\<rparr>) s
             else s) (clear_pwr ip_addr s)))"

definition DelEntriesOnSTAClntDiscon ::
  "'d nat_driver \<Rightarrow> u32 \<Rightarrow> 'd nat_app \<Rightarrow> int32 \<times> 'd nat_app" where
  "DelEntriesOnSTAClntDiscon D ip_addr s =
    (if ip_addr = PWR_INVALID then (- 1, s)
     else
       (0, for_slots (\<lambda>cnt s.
          let e = cache s ! cnt
          in if target_ip e = ip_addr then
               if enabled e then
                 case ipa_nat_del_ipv4_rule D (nat_table_hdl s) (rule_hdl e) (drv s) of (res, d) \<Rightarrow>
                   let s = s\<lparr>drv := d\<rparr>
                   in if res <s 0 then s else clear_slot cnt s
               else clear_slot cnt s
             else s) s))"

section \<open>Connections of unknown clients\<close>

definition AddTempEntry :: "nat_table_entry \<Rightarrow> 'd nat_app \<Rightarrow> 'd nat_app" where
  "AddTempEntry new_entry s =
    (case first_index (\<lambda>e. private_ip e = 0 \<and> target_ip e = 0) (temp s) of
       None \<Rightarrow> s
     | Some cnt \<Rightarrow> s\<lparr>temp := (temp s)[cnt := new_entry]\<rparr>)"

definition DeleteTempEntry :: "nat_table_entry \<Rightarrow> 'd nat_app \<Rightarrow> 'd nat_app" where
  "DeleteTempEntry entry s =
    (case first_index (same_conn entry) (temp s) of
       None \<Rightarrow> s
     | Some cnt \<Rightarrow> s\<lparr>temp := (temp s)[cnt := zero_entry]\<rparr>)"

text \<open>
  \<open>public_ip\<close> has 16 bits, \<open>pub_ip_addr\<close> has 32: the comparison widens the first.
\<close>

definition flush_slot :: "'d nat_driver \<Rightarrow> u32 \<Rightarrow> bool \<Rightarrow> nat \<Rightarrow> 'd nat_app \<Rightarrow> 'd nat_app" where
  "flush_slot D ip_addr isAdd cnt s =
    (let e = temp s ! cnt
     in if private_ip e = ip_addr \<or> target_ip e = ip_addr then
          if isAdd \<and> ucast (public_ip e) = pub_ip_addr s then
            case AddEntry D e s of (res, s) \<Rightarrow>
              if res \<noteq> 0 then s else s\<lparr>temp := (temp s)[cnt := zero_entry]\<rparr>
          else s\<lparr>temp := (temp s)[cnt := zero_entry]\<rparr>
        else s)"

definition FlushTempEntries :: "'d nat_driver \<Rightarrow> u32 \<Rightarrow> bool \<Rightarrow> 'd nat_app \<Rightarrow> 'd nat_app" where
  "FlushTempEntries D ip_addr isAdd s =
    fold (flush_slot D ip_addr isAdd) [0..<length (temp s)] s"

section \<open>The calls on the cache\<close>

datatype nat_call =
    CallAddTable u32 | CallDeleteTable u32 | CallAdd nat_table_entry | CallDelete nat_table_entry
  | CallTimeStamps | CallPwrSave u32 | CallPwrReset u32 | CallDiscon u32 | CallStaDiscon u32
  | CallTimeout u32 int32 | CallAddTemp nat_table_entry | CallCache int nat_table_entry
  | CallDeleteTemp nat_table_entry | CallFlush u32 bool

fun nat_do :: "'d nat_driver \<Rightarrow> nat_call \<Rightarrow> 'd nat_app \<Rightarrow> 'd nat_app option" where
  "nat_do D (CallAddTable ip) s = Some (snd (AddTable D ip s))"
| "nat_do D (CallDeleteTable ip) s = Some (snd (DeleteTable D ip s))"
| "nat_do D (CallAdd e) s = Some (snd (AddEntry D e s))"
| "nat_do D (CallDelete e) s = Some (snd (DeleteEntry D e s))"
| "nat_do D CallTimeStamps s = Some (UpdateUDPTimeStamp D s)"
| "nat_do D (CallPwrSave ip) s = Some (snd (UpdatePwrSaveIf D ip s))"
| "nat_do D (CallPwrReset ip) s = Some (snd (ResetPwrSaveIf D ip s))"
| "nat_do D (CallDiscon ip) s = Some (snd (DelEntriesOnClntDiscon D ip s))"
| "nat_do D (CallStaDiscon ip) s = Some (snd (DelEntriesOnSTAClntDiscon D ip s))"
| "nat_do D (CallTimeout v proto) s = Some (UpdateTcpUdpTo v proto s)"
| "nat_do D (CallAddTemp e) s = Some (AddTempEntry e s)"
| "nat_do D (CallCache cnt0 e) s = CacheEntry cnt0 e s"
| "nat_do D (CallDeleteTemp e) s = Some (DeleteTempEntry e s)"
| "nat_do D (CallFlush ip isAdd) s = Some (FlushTempEntries D ip isAdd s)"

fun nat_run :: "'d nat_driver \<Rightarrow> nat_call list \<Rightarrow> 'd nat_app \<Rightarrow> 'd nat_app option" where
  "nat_run D [] s = Some s"
| "nat_run D (c # cs) s =
    (case nat_do D c s of None \<Rightarrow> None | Some s \<Rightarrow> nat_run D cs s)"

end
