(* ===== verification/NatInv.thy ===== *)
theory NatInv
  imports NatApp
begin

text \<open>
  The invariant of the NAT cache: each slot is free and not in the hardware, or holds a complete
  connection; no connection is held twice; and \<open>curCnt\<close> counts them. It holds whatever the
  driver answers.
\<close>

section \<open>Slots\<close>

definition conn :: "nat_table_entry \<Rightarrow> u32 \<times> u16 \<times> u32 \<times> u16 \<times> u8" where
  "conn e = (private_ip e, private_port e, target_ip e, target_port e, protocol e)"

definition slot_conn :: "nat_table_entry \<Rightarrow> (u32 \<times> u16 \<times> u32 \<times> u16 \<times> u8) list" where
  "slot_conn e = (if free_slot e then [] else [conn e])"

definition conns :: "'d nat_app \<Rightarrow> (u32 \<times> u16 \<times> u32 \<times> u16 \<times> u8) list" where
  "conns s = concat (map slot_conn (cache s))"

definition slot_ok :: "nat_table_entry \<Rightarrow> bool" where
  "slot_ok e \<longleftrightarrow> (if free_slot e then \<not> enabled e else \<not> invalid_conn e)"

definition nat_ok :: "'d nat_app \<Rightarrow> bool" where
  "nat_ok s \<longleftrightarrow>
     length (temp s) = MAX_TEMP_ENTRIES \<and> length (PwrSaveIfs s) = IPA_MAX_NUM_WIFI_CLIENTS \<and>
     list_all slot_ok (cache s) \<and> distinct (conns s) \<and> curCnt s = int (length (conns s))"

lemma first_index_Some:
  "first_index P xs = Some i \<Longrightarrow> i < length xs \<and> P (xs ! i)"
  by (induction xs arbitrary: i) (auto split: if_splits)

lemma first_index_None: "first_index P xs = None \<longleftrightarrow> (\<forall>x \<in> set xs. \<not> P x)"
  by (induction xs) auto

lemma same_conn_iff: "same_conn rule e \<longleftrightarrow> conn e = conn rule"
  by (auto simp: same_conn_def conn_def)

lemma free_slot_conn: "conn e = conn e' \<Longrightarrow> free_slot e = free_slot e' \<and> invalid_conn e = invalid_conn e'"
  by (auto simp: conn_def free_slot_def invalid_conn_def)

lemma zero_slot [simp]: "free_slot zero_entry" "slot_ok zero_entry" "slot_conn zero_entry = []"
  by (simp_all add: free_slot_def slot_ok_def slot_conn_def zero_entry_def)

lemma not_free: "\<not> invalid_conn e \<Longrightarrow> \<not> free_slot e"
  by (auto simp: free_slot_def invalid_conn_def)

text \<open>One slot's share of the connections.\<close>

lemma conns_slot:
  assumes "i < length (cache s)"
  obtains A B where "conns s = A @ slot_conn (cache s ! i) @ B"
    "\<And>e. conns (set_slot i e s) = A @ slot_conn e @ B"
proof
  let ?A = "concat (map slot_conn (take i (cache s)))"
  let ?B = "concat (map slot_conn (drop (Suc i) (cache s)))"
  have "conns s =
      concat (map slot_conn (take i (cache s) @ cache s ! i # drop (Suc i) (cache s)))"
    by (simp only: id_take_nth_drop [OF assms, symmetric] conns_def)
  then show "conns s = ?A @ slot_conn (cache s ! i) @ ?B" by simp
  show "conns (set_slot i e s) = ?A @ slot_conn e @ ?B" for e
    using assms by (simp add: conns_def set_slot_def upd_conv_take_nth_drop)
qed

lemma conns_fields [simp]:
  "conns (s\<lparr>drv := d\<rparr>) = conns s" "conns (s\<lparr>curCnt := n\<rparr>) = conns s"
  "conns (s\<lparr>PwrSaveIfs := ps\<rparr>) = conns s" "conns (s\<lparr>temp := ts\<rparr>) = conns s"
  "conns (s\<lparr>nat_table_hdl := h\<rparr>) = conns s" "conns (s\<lparr>pub_ip_addr := ip\<rparr>) = conns s"
  "conns (s\<lparr>pub_ip_addr_pre := ip\<rparr>) = conns s" "conns (s\<lparr>ct_open_done := b\<rparr>) = conns s"
  "conns (s\<lparr>ct_new_done := b\<rparr>) = conns s" "conns (s\<lparr>tcp_timeout := v\<rparr>) = conns s"
  "conns (s\<lparr>udp_timeout := v\<rparr>) = conns s"
  by (simp_all add: conns_def)

lemma set_slot_fields [simp]:
  "temp (set_slot i e s) = temp s" "PwrSaveIfs (set_slot i e s) = PwrSaveIfs s"
  "curCnt (set_slot i e s) = curCnt s" "cache (set_slot i e s) = (cache s)[i := e]"
  "drv (set_slot i e s) = drv s" "nat_table_hdl (set_slot i e s) = nat_table_hdl s"
  "pub_ip_addr (set_slot i e s) = pub_ip_addr s" "pALGPorts (set_slot i e s) = pALGPorts s"
  by (simp_all add: set_slot_def)

lemma list_all_update: "list_all P xs \<Longrightarrow> P x \<Longrightarrow> list_all P (xs[i := x])"
  by (induction xs arbitrary: i) (auto split: nat.splits)

lemma nat_okD:
  "nat_ok s \<Longrightarrow> i < length (cache s) \<Longrightarrow> slot_ok (cache s ! i)"
  by (simp add: nat_ok_def list_all_length)

text \<open>The three ways a slot changes.\<close>

lemma set_slot_same:
  assumes "nat_ok s" "i < length (cache s)" "conn e = conn (cache s ! i)" "slot_ok e"
  shows "nat_ok (set_slot i e s)" "conns (set_slot i e s) = conns s"
proof -
  obtain A B where AB: "conns s = A @ slot_conn (cache s ! i) @ B"
    "conns (set_slot i e s) = A @ slot_conn e @ B"
    using conns_slot [OF assms(2)] by metis
  show "conns (set_slot i e s) = conns s"
    using AB free_slot_conn [OF assms(3)] assms(3) by (simp add: slot_conn_def)
  then show "nat_ok (set_slot i e s)"
    using assms by (simp add: nat_ok_def list_all_update)
qed

lemma clear_slot_ok:
  assumes "nat_ok s" "i < length (cache s)" "\<not> free_slot (cache s ! i)"
  shows "nat_ok (clear_slot i s)"
    and "set (conns (clear_slot i s)) = set (conns s) - {conn (cache s ! i)}"
proof -
  obtain A B where AB: "conns s = A @ slot_conn (cache s ! i) @ B"
    "conns (set_slot i zero_entry s) = A @ slot_conn zero_entry @ B"
    using conns_slot [OF assms(2)] by metis
  then have c: "conns s = A @ conn (cache s ! i) # B" "conns (clear_slot i s) = A @ B"
    using assms(3) by (simp_all add: slot_conn_def clear_slot_def)
  then show "nat_ok (clear_slot i s)"
    using assms(1) by (simp add: nat_ok_def clear_slot_def list_all_update)
  show "set (conns (clear_slot i s)) = set (conns s) - {conn (cache s ! i)}"
    using c assms(1) by (auto simp: nat_ok_def)
qed

lemma fill_slot_ok:
  assumes "nat_ok s" "i < length (cache s)" "free_slot (cache s ! i)"
    and "\<not> invalid_conn e" "conn e \<notin> set (conns s)"
  shows "nat_ok ((set_slot i e s)\<lparr>curCnt := curCnt s + 1\<rparr>)"
    and "set (conns (set_slot i e s)) = insert (conn e) (set (conns s))"
proof -
  obtain A B where AB: "conns s = A @ slot_conn (cache s ! i) @ B"
    "conns (set_slot i e s) = A @ slot_conn e @ B"
    using conns_slot [OF assms(2)] by metis
  then have c: "conns s = A @ B" "conns (set_slot i e s) = A @ conn e # B"
    using assms(3,4) not_free by (simp_all add: slot_conn_def)
  then show "nat_ok ((set_slot i e s)\<lparr>curCnt := curCnt s + 1\<rparr>)"
    using assms by (auto simp: nat_ok_def list_all_update slot_ok_def not_free)
  show "set (conns (set_slot i e s)) = insert (conn e) (set (conns s))" using c by auto
qed

lemma nat_ok_fields [simp]:
  "nat_ok (s\<lparr>drv := d\<rparr>) = nat_ok s" "nat_ok (s\<lparr>nat_table_hdl := h\<rparr>) = nat_ok s"
  "nat_ok (s\<lparr>pub_ip_addr := ip\<rparr>) = nat_ok s" "nat_ok (s\<lparr>pub_ip_addr_pre := ip\<rparr>) = nat_ok s"
  "nat_ok (s\<lparr>ct_open_done := b\<rparr>) = nat_ok s" "nat_ok (s\<lparr>ct_new_done := b\<rparr>) = nat_ok s"
  "nat_ok (s\<lparr>tcp_timeout := v\<rparr>) = nat_ok s" "nat_ok (s\<lparr>udp_timeout := v\<rparr>) = nat_ok s"
  by (simp_all add: nat_ok_def)

lemma nat_ok_lists [simp]:
  "nat_ok (s\<lparr>PwrSaveIfs := (PwrSaveIfs s)[i := x]\<rparr>) = nat_ok s"
  "nat_ok (s\<lparr>temp := (temp s)[i := e]\<rparr>) = nat_ok s"
  by (simp_all add: nat_ok_def)

lemma conn_mem: "conn e \<in> set (conns s) \<longleftrightarrow> (\<exists>e' \<in> set (cache s). \<not> free_slot e' \<and> conn e' = conn e)"
proof -
  have "conn e \<in> set (slot_conn e') \<longleftrightarrow> \<not> free_slot e' \<and> conn e' = conn e" for e'
    by (auto simp: slot_conn_def)
  then show ?thesis by (simp add: conns_def)
qed

lemma ChkForDup_iff:
  assumes "\<not> invalid_conn e"
  shows "ChkForDup e s \<longleftrightarrow> conn e \<in> set (conns s)"
proof -
  have "conn e' = conn e \<longleftrightarrow> \<not> free_slot e' \<and> conn e' = conn e" for e'
    using free_slot_conn [of e' e] not_free [OF assms] by blast
  then show ?thesis by (simp add: ChkForDup_def first_index_None same_conn_iff conn_mem)
qed

text \<open>A loop over the slots keeps what each turn keeps.\<close>

lemma for_slots_inv:
  assumes "P s"
    and "\<And>cnt s'. P s' \<Longrightarrow> length (cache s') = length (cache s) \<Longrightarrow> cnt < length (cache s) \<Longrightarrow>
      P (f cnt s') \<and> length (cache (f cnt s')) = length (cache s)"
  shows "P (for_slots f s) \<and> length (cache (for_slots f s)) = length (cache s)"
proof -
  have "P (fold f [0..<n] s) \<and> length (cache (fold f [0..<n] s)) = length (cache s)"
    if "n \<le> length (cache s)" for n
    using that by (induction n) (use assms in \<open>simp_all\<close>)
  then show ?thesis by (simp add: for_slots_def)
qed

lemma clear_slot_length [simp]: "length (cache (clear_slot i s)) = length (cache s)"
  by (simp add: clear_slot_def)

section \<open>The operations\<close>

lemma conn_updates [simp]:
  "conn (e\<lparr>enabled := b\<rparr>) = conn e" "conn (e\<lparr>rule_hdl := h\<rparr>) = conn e"
  "conn (e\<lparr>timestamp := t\<rparr>) = conn e"
  by (simp_all add: conn_def)

lemma slot_ok_updates:
  "slot_ok e \<Longrightarrow> slot_ok (e\<lparr>enabled := False\<rparr>)" "slot_ok (e\<lparr>rule_hdl := h\<rparr>) = slot_ok e"
  "slot_ok (e\<lparr>timestamp := t\<rparr>) = slot_ok e"
  "slot_ok e \<Longrightarrow> \<not> free_slot e \<Longrightarrow> slot_ok (e\<lparr>enabled := b\<rparr>)"
  by (auto simp: slot_ok_def free_slot_def invalid_conn_def)

lemma restore_ok:
  assumes "nat_ok s" "i < length (cache s)" "\<not> free_slot (cache s ! i)"
  shows "nat_ok (restore_slot D i s) \<and> length (cache (restore_slot D i s)) = length (cache s)"
proof -
  let ?e = "cache s ! i"
  have "slot_ok ?e" using nat_okD [OF assms(1,2)] .
  then have "nat_ok (set_slot i (?e\<lparr>rule_hdl := h, enabled := True\<rparr>) (s\<lparr>drv := d\<rparr>))" for h d
    using assms by (intro set_slot_same) (auto simp: slot_ok_updates slot_ok_def free_slot_def invalid_conn_def)
  moreover have "nat_ok (clear_slot i (s\<lparr>drv := d\<rparr>))" for d
    using assms by (intro clear_slot_ok) simp_all
  ultimately show ?thesis by (auto simp: restore_slot_def Let_def split: prod.splits)
qed

text \<open>\<open>keeps s s'\<close>: the invariant and the size of the cache are kept.\<close>

definition keeps :: "'d nat_app \<Rightarrow> 'd nat_app \<Rightarrow> bool" where
  "keeps s s' \<longleftrightarrow> nat_ok s' \<and> length (cache s') = length (cache s)"

lemma keeps_slots:
  assumes "nat_ok s"
    and "\<And>cnt s'. nat_ok s' \<Longrightarrow> cnt < length (cache s') \<Longrightarrow> keeps s' (f cnt s')"
  shows "keeps s (for_slots f s)"
proof -
  have "nat_ok (for_slots f s) \<and> length (cache (for_slots f s)) = length (cache s)"
    using assms by (intro for_slots_inv) (auto simp: keeps_def)
  then show ?thesis by (simp add: keeps_def)
qed

lemma used_private: "slot_ok e \<Longrightarrow> private_ip e \<noteq> 0 \<Longrightarrow> \<not> free_slot e"
  "slot_ok e \<Longrightarrow> enabled e \<Longrightarrow> \<not> free_slot e" "target_ip e \<noteq> 0 \<Longrightarrow> \<not> free_slot e"
  by (auto simp: slot_ok_def free_slot_def split: if_splits)

lemma keeps_restore:
  "nat_ok s \<Longrightarrow> i < length (cache s) \<Longrightarrow> private_ip (cache s ! i) \<noteq> 0 \<Longrightarrow> keeps s (restore_slot D i s)"
  using restore_ok [of s i D] used_private(1) [OF nat_okD [of s i]] by (simp add: keeps_def)

lemma keeps_AddTable: "nat_ok s \<Longrightarrow> keeps s (snd (AddTable D ip s))"
proof -
  assume s: "nat_ok s"
  obtain res h d where t: "ipa_nat_add_ipv4_tbl D ip (of_nat (length (cache s))) (nat_table_hdl s) (drv s)
      = (res, h, d)" by (cases "ipa_nat_add_ipv4_tbl D ip (of_nat (length (cache s))) (nat_table_hdl s) (drv s)")
  let ?s = "s\<lparr>nat_table_hdl := h, drv := d\<rparr>"
  have "keeps ?s (for_slots (\<lambda>cnt s. if private_ip (cache s ! cnt) \<noteq> 0 then restore_slot D cnt s else s) ?s)"
    using s by (intro keeps_slots) (simp_all add: keeps_restore, simp add: keeps_def)
  then show ?thesis using s t by (auto simp: AddTable_def Let_def keeps_def)
qed

lemma keeps_DeleteTable: "nat_ok s \<Longrightarrow> keeps s (snd (DeleteTable D ip s))"
  by (auto simp: DeleteTable_def NatApp_Reset_def keeps_def Let_def split: prod.splits)

lemma DeleteEntry_ok:
  assumes "nat_ok s" "\<not> invalid_conn rule"
  shows "keeps s (snd (DeleteEntry D rule s))"
    and "set (conns (snd (DeleteEntry D rule s))) = set (conns s) - {conn rule}"
proof -
  have "keeps s (snd (DeleteEntry D rule s)) \<and>
    set (conns (snd (DeleteEntry D rule s))) = set (conns s) - {conn rule}"
  proof (cases "first_index (same_conn rule) (cache s)")
    case None
    then have "conn rule \<notin> set (conns s)"
      using ChkForDup_iff [OF assms(2), of s] by (simp add: ChkForDup_def)
    then show ?thesis using None assms(1) by (simp add: DeleteEntry_def keeps_def)
  next
    case (Some i)
    note i = first_index_Some [OF Some]
    then have c: "conn (cache s ! i) = conn rule" by (simp add: same_conn_iff)
    then have u: "\<not> free_slot (cache s ! i)"
      using free_slot_conn not_free [OF assms(2)] by blast
    have "\<exists>d. snd (DeleteEntry D rule s) = clear_slot i (s\<lparr>drv := d\<rparr>)"
      using Some by (auto simp: DeleteEntry_def Let_def clear_slot_def set_slot_def intro: exI [of _ "drv s"])
    then show ?thesis using clear_slot_ok [of "s\<lparr>drv := d\<rparr>" i for d] assms(1) i u c
      by (auto simp: keeps_def)
  qed
  then show "keeps s (snd (DeleteEntry D rule s))"
    "set (conns (snd (DeleteEntry D rule s))) = set (conns s) - {conn rule}" by blast+
qed

lemma fill_slot_conn [simp]: "conn (fill_slot rule e) = conn rule"
  by (simp add: fill_slot_def conn_def)

lemma fill_slot_valid [simp]: "invalid_conn (fill_slot rule e) = invalid_conn rule"
  using free_slot_conn [of "fill_slot rule e" rule] by simp

text \<open>What \<open>AddEntry\<close> does: it fails and nothing is held that was not, or the connection is added.\<close>

lemma AddEntry_ok:
  assumes "nat_ok s" "AddEntry D rule s = (res, s')"
  shows "keeps s s'"
    and "set (conns s') =
      (if res = 0 \<and> \<not> invalid_conn rule then insert (conn rule) (set (conns s)) else set (conns s))"
    and "res = 0 \<Longrightarrow> \<not> invalid_conn rule \<Longrightarrow> conn rule \<notin> set (conns s)"
proof -
  have "keeps s s' \<and> set (conns s') =
      (if res = 0 \<and> \<not> invalid_conn rule then insert (conn rule) (set (conns s)) else set (conns s)) \<and>
      (res = 0 \<and> \<not> invalid_conn rule \<longrightarrow> conn rule \<notin> set (conns s))"
  proof (cases "\<not> invalid_conn rule \<and> \<not> ChkForDup rule s")
    case False
    then show ?thesis using assms
      by (auto simp: AddEntry_def keeps_def split: if_splits)
  next
    case True
    then have new: "conn rule \<notin> set (conns s)" using ChkForDup_iff by blast
    show ?thesis
    proof (cases "first_index free_slot (cache s)")
      case None
      then show ?thesis using assms True by (auto simp: AddEntry_def keeps_def split: if_splits)
    next
      case (Some i)
      note i = first_index_Some [OF Some]
      let ?e = "cache s ! i"
      have filled: "nat_ok ((set_slot i (fill_slot rule e) (s\<lparr>drv := d\<rparr>))\<lparr>curCnt := curCnt s + 1\<rparr>) \<and>
          set (conns (set_slot i (fill_slot rule e) (s\<lparr>drv := d\<rparr>))) = insert (conn rule) (set (conns s))"
        for e d
        using fill_slot_ok [of "s\<lparr>drv := d\<rparr>" i "fill_slot rule e"] assms(1) i True new by simp
      have failed: "nat_ok (set_slot i (?e\<lparr>rule_hdl := h\<rparr>) (s\<lparr>drv := d\<rparr>)) \<and>
          conns (set_slot i (?e\<lparr>rule_hdl := h\<rparr>) (s\<lparr>drv := d\<rparr>)) = conns s" for h d
        using set_slot_same [of "s\<lparr>drv := d\<rparr>" i "?e\<lparr>rule_hdl := h\<rparr>"] assms(1) i nat_okD [OF assms(1)]
        by (simp add: slot_ok_updates)
      show ?thesis using assms(2) True Some new filled [of _ "drv s"] filled failed assms(1)
        by (auto simp: AddEntry_def keeps_def Let_def split: if_splits prod.splits)
    qed
  qed
  then show "keeps s s'" "set (conns s') =
      (if res = 0 \<and> \<not> invalid_conn rule then insert (conn rule) (set (conns s)) else set (conns s))"
    "res = 0 \<Longrightarrow> \<not> invalid_conn rule \<Longrightarrow> conn rule \<notin> set (conns s)" by blast+
qed

lemma CacheEntry_ok:
  assumes "nat_ok s" "CacheEntry cnt0 rule s = Some s'"
  shows "keeps s s'"
proof (cases "\<not> invalid_conn rule \<and> \<not> ChkForDup rule s")
  case False
  then show ?thesis using assms by (auto simp: CacheEntry_def keeps_def split: if_splits)
next
  case True
  then have new: "conn rule \<notin> set (conns s)" using ChkForDup_iff by blast
  show ?thesis
  proof (cases "first_index free_slot (drop (nat cnt0) (cache s))")
    case None
    then show ?thesis using assms True by (auto simp: CacheEntry_def keeps_def split: if_splits)
  next
    case (Some i)
    note i = first_index_Some [OF Some]
    then have "nat cnt0 + i < length (cache s)" by auto
    moreover from this i have "free_slot (cache s ! (nat cnt0 + i))" by (simp add: add.commute)
    ultimately have "nat cnt0 + i < length (cache s)" "free_slot (cache s ! (nat cnt0 + i))" by simp_all
    from fill_slot_ok(1) [OF assms(1) this, of "fill_slot rule e" for e]
    show ?thesis using assms True Some new by (auto simp: CacheEntry_def keeps_def Let_def split: if_splits)
  qed
qed

lemma keeps_trans: "keeps s s' \<Longrightarrow> keeps s' s'' \<Longrightarrow> keeps s s''"
  by (simp add: keeps_def)

text \<open>A slot whose connection stays: it may leave the hardware, or get a time stamp.\<close>

lemma keeps_slot:
  assumes "nat_ok s" "i < length (cache s)" "conn e = conn (cache s ! i)" "slot_ok e"
  shows "keeps s (set_slot i e (s\<lparr>drv := d\<rparr>))"
  using set_slot_same(1) [of "s\<lparr>drv := d\<rparr>" i e] assms by (simp add: keeps_def)

lemma keeps_clear:
  assumes "nat_ok s" "i < length (cache s)" "\<not> free_slot (cache s ! i)"
  shows "keeps s (clear_slot i (s\<lparr>drv := d\<rparr>))" "keeps s (clear_slot i s)"
  using clear_slot_ok(1) [of "s\<lparr>drv := d\<rparr>" i] clear_slot_ok(1) [of s i] assms
  by (simp_all add: keeps_def)

lemma keeps_UpdateCTUdpTs:
  assumes "nat_ok s" "i < length (cache s)"
  shows "keeps s (UpdateCTUdpTs D i ts s)"
proof -
  define s1 where "s1 = (if ct_open_done s then s
    else case nfct_open D (drv s) of (ok, d) \<Rightarrow> s\<lparr>ct_open_done := ok, drv := d\<rparr>)"
  define s2 where "s2 = (if ct_new_done s1 then s1
    else case nfct_new D (drv s1) of (ok, d) \<Rightarrow> s1\<lparr>ct_new_done := ok, drv := d\<rparr>)"
  have eq: "UpdateCTUdpTs D i ts s =
    (if \<not> ct_open_done s1 then s1 else if \<not> ct_new_done s2 then s2
     else case nfct_query_update D (ct_update_of (cache s2 ! i) s2) (drv s2) of (res, d) \<Rightarrow>
       if res = - 1 then s2\<lparr>drv := d\<rparr>
       else set_slot i ((cache s2 ! i)\<lparr>timestamp := ts\<rparr>) (s2\<lparr>drv := d\<rparr>))"
    by (simp only: UpdateCTUdpTs_def Let_def s1_def s2_def)
  have s1: "nat_ok s1" "cache s1 = cache s" using assms by (simp_all add: s1_def split: prod.splits)
  have s2: "nat_ok s2" "cache s2 = cache s" using s1 by (simp_all add: s2_def split: prod.splits)
  have "keeps s2 (set_slot i ((cache s2 ! i)\<lparr>timestamp := ts\<rparr>) (s2\<lparr>drv := d\<rparr>))" for d
    using s2 assms(2) nat_okD [OF s2(1), of i] by (intro keeps_slot) (simp_all add: slot_ok_updates)
  then show ?thesis using s1 s2 unfolding eq by (auto simp: keeps_def split: prod.splits)
qed

lemma keeps_UpdateUDPTimeStamp: "nat_ok s \<Longrightarrow> keeps s (UpdateUDPTimeStamp D s)"
  unfolding UpdateUDPTimeStamp_def
  using keeps_UpdateCTUdpTs [of "s'\<lparr>drv := d\<rparr>" for s' :: "'a nat_app" and d]
  by (intro keeps_slots) (auto simp: Let_def keeps_def split: prod.splits)

lemma keeps_UpdatePwrSaveIf: "nat_ok s \<Longrightarrow> keeps s (snd (UpdatePwrSaveIf D ip s))"
proof -
  assume s: "nat_ok s"
  let ?f = "\<lambda>cnt s. let e = cache s ! cnt
    in if private_ip e = ip \<and> enabled e then
         case ipa_nat_del_ipv4_rule D (nat_table_hdl s) (rule_hdl e) (drv s) of (res, d) \<Rightarrow>
           let s = s\<lparr>drv := d\<rparr>
           in if res <s 0 then s else set_slot cnt (e\<lparr>enabled := False, rule_hdl := 0\<rparr>) s
       else s"
  have "keeps s' (?f cnt s')" if "nat_ok s'" "cnt < length (cache s')" for s' :: "'a nat_app" and cnt
    using that keeps_slot [OF that, of "(cache s' ! cnt)\<lparr>enabled := False, rule_hdl := 0\<rparr>"]
      nat_okD [OF that]
    by (auto simp: Let_def keeps_def slot_ok_updates split: prod.splits)
  then have loop: "keeps u (for_slots ?f u)" if "nat_ok u" for u using that by (intro keeps_slots)
  have "keeps s (for_slots ?f s)" "keeps s (for_slots ?f (s\<lparr>PwrSaveIfs := (PwrSaveIfs s)[i := ip]\<rparr>))" for i
    using loop [of s] loop [of "s\<lparr>PwrSaveIfs := (PwrSaveIfs s)[i := ip]\<rparr>"] s by (simp_all add: keeps_def)
  then show ?thesis using s by (auto simp: UpdatePwrSaveIf_def Let_def keeps_def split: option.splits)
qed

lemma clear_pwr_ok [simp]: "nat_ok (clear_pwr ip s) = nat_ok s" "cache (clear_pwr ip s) = cache s"
  by (simp_all add: clear_pwr_def split: option.splits)

lemma keeps_clear_pwr: "keeps (clear_pwr ip s) s' \<Longrightarrow> keeps s s'"
  by (simp add: keeps_def)

lemma keeps_ResetPwrSaveIf: "nat_ok s \<Longrightarrow> keeps s (snd (ResetPwrSaveIf D ip s))"
proof -
  assume s: "nat_ok s"
  let ?f = "\<lambda>cnt s. if private_ip (cache s ! cnt) = ip \<and> \<not> enabled (cache s ! cnt)
    then restore_slot D cnt s else s"
  have "keeps s' (?f cnt s')" if "nat_ok s'" "cnt < length (cache s')" "ip \<noteq> 0"
    for s' :: "'a nat_app" and cnt
    using keeps_restore [OF that(1,2)] that by (simp add: keeps_def)
  then have "keeps (clear_pwr ip s) (for_slots ?f (clear_pwr ip s))" if "ip \<noteq> 0"
    using s that by (intro keeps_slots) simp_all
  then show ?thesis using s keeps_clear_pwr by (auto simp: ResetPwrSaveIf_def PWR_INVALID_def keeps_def)
qed

lemma keeps_DelEntriesOnClntDiscon: "nat_ok s \<Longrightarrow> keeps s (snd (DelEntriesOnClntDiscon D ip s))"
proof -
  assume s: "nat_ok s"
  let ?f = "\<lambda>cnt s. let e = cache s ! cnt
    in if private_ip e = ip \<and> enabled e then
         case ipa_nat_del_ipv4_rule D (nat_table_hdl s) (rule_hdl e) (drv s) of (res, d) \<Rightarrow>
           let s = s\<lparr>drv := d\<rparr>
           in if res <s 0 then s else set_slot cnt (e\<lparr>enabled := False\<rparr>) s
       else s"
  have "keeps s' (?f cnt s')" if "nat_ok s'" "cnt < length (cache s')" for s' :: "'a nat_app" and cnt
    using that keeps_slot [OF that, of "(cache s' ! cnt)\<lparr>enabled := False\<rparr>"] nat_okD [OF that]
    by (auto simp: Let_def keeps_def slot_ok_updates split: prod.splits)
  then have "keeps (clear_pwr ip s) (for_slots ?f (clear_pwr ip s))" using s by (intro keeps_slots) simp_all
  then show ?thesis using s keeps_clear_pwr by (auto simp: DelEntriesOnClntDiscon_def keeps_def)
qed

lemma keeps_DelEntriesOnSTAClntDiscon: "nat_ok s \<Longrightarrow> keeps s (snd (DelEntriesOnSTAClntDiscon D ip s))"
proof -
  assume s: "nat_ok s"
  let ?f = "\<lambda>cnt s. let e = cache s ! cnt
    in if target_ip e = ip then
         if enabled e then
           case ipa_nat_del_ipv4_rule D (nat_table_hdl s) (rule_hdl e) (drv s) of (res, d) \<Rightarrow>
             let s = s\<lparr>drv := d\<rparr> in if res <s 0 then s else clear_slot cnt s
         else clear_slot cnt s
       else s"
  have "keeps s' (?f cnt s')" if "nat_ok s'" "cnt < length (cache s')" "ip \<noteq> 0"
    for s' :: "'a nat_app" and cnt
    using that keeps_clear [OF that(1,2)] used_private(3) [of "cache s' ! cnt"]
    by (auto simp: Let_def keeps_def split: prod.splits)
  then have "keeps s (for_slots ?f s)" if "ip \<noteq> 0" using s that by (intro keeps_slots)
  then show ?thesis using s by (auto simp: DelEntriesOnSTAClntDiscon_def PWR_INVALID_def keeps_def)
qed

lemma keeps_temp: "nat_ok s \<Longrightarrow> keeps s (s\<lparr>temp := (temp s)[i := e]\<rparr>)"
  by (simp add: keeps_def)

lemma keeps_flush_slot: "nat_ok s \<Longrightarrow> keeps s (flush_slot D ip isAdd cnt s)"
proof -
  assume s: "nat_ok s"
  obtain res s' where a: "AddEntry D (temp s ! cnt) s = (res, s')" by fastforce
  have "keeps s s'" using AddEntry_ok(1) [OF s a] .
  then have "keeps s s'" "keeps s (s'\<lparr>temp := (temp s')[cnt := zero_entry]\<rparr>)"
    by (simp_all add: keeps_def)
  then show ?thesis using s a by (auto simp: flush_slot_def Let_def keeps_def)
qed

lemma keeps_FlushTempEntries: "nat_ok s \<Longrightarrow> keeps s (FlushTempEntries D ip isAdd s)"
proof -
  assume s: "nat_ok s"
  have "keeps s (fold (flush_slot D ip isAdd) is s)" for "is"
  proof (induction "is" rule: rev_induct)
    case (snoc i "is")
    then show ?case using keeps_flush_slot keeps_trans by (fastforce simp: keeps_def)
  qed (simp add: keeps_def s)
  then show ?thesis by (simp add: FlushTempEntries_def)
qed

text \<open>A removal is asked for a connection that has a protocol.\<close>

definition call_ok :: "nat_call \<Rightarrow> bool" where
  "call_ok c \<longleftrightarrow> (case c of CallDelete e \<Rightarrow> protocol e \<noteq> 0 | _ \<Rightarrow> True)"

lemma keeps_DeleteEntry:
  assumes "nat_ok s" "protocol rule \<noteq> 0"
  shows "keeps s (snd (DeleteEntry D rule s))"
proof (cases "invalid_conn rule")
  case True
  have "first_index (same_conn rule) (cache s) = None"
  proof -
    have "conn e \<noteq> conn rule" if "e \<in> set (cache s)" for e
    proof
      assume c: "conn e = conn rule"
      have "slot_ok e" using assms(1) that by (simp add: nat_ok_def list_all_iff)
      moreover have "\<not> free_slot e" using c assms(2) by (simp add: conn_def free_slot_def)
      ultimately show False using True free_slot_conn [OF c] by (simp add: slot_ok_def)
    qed
    then show ?thesis by (simp add: first_index_None same_conn_iff)
  qed
  then show ?thesis using assms by (simp add: DeleteEntry_def keeps_def)
qed (use DeleteEntry_ok(1) [OF assms(1)] in simp)

lemma nat_do_keeps:
  assumes "nat_ok s" "call_ok c" "nat_do D c s = Some s'"
  shows "keeps s s'"
proof -
  have "keeps s (snd (AddEntry D e s))" for e
    using AddEntry_ok(1) [OF assms(1)] by (metis prod.collapse)
  moreover have "keeps s (AddTempEntry e s)" "keeps s (DeleteTempEntry e s)" for e
    using assms(1) by (auto simp: AddTempEntry_def DeleteTempEntry_def keeps_temp keeps_def split: option.splits)
  moreover have "keeps s (UpdateTcpUdpTo v p s)" for v p
    using assms(1) by (simp add: UpdateTcpUdpTo_def keeps_def)
  ultimately show ?thesis using assms keeps_AddTable [OF assms(1)] keeps_DeleteTable [OF assms(1)]
      keeps_UpdateUDPTimeStamp [OF assms(1)] keeps_UpdatePwrSaveIf [OF assms(1)]
      keeps_ResetPwrSaveIf [OF assms(1)] keeps_DelEntriesOnClntDiscon [OF assms(1)]
      keeps_DelEntriesOnSTAClntDiscon [OF assms(1)] keeps_FlushTempEntries [OF assms(1)]
      CacheEntry_ok [OF assms(1)] keeps_DeleteEntry [OF assms(1)]
    by (cases c) (auto simp: call_ok_def)
qed

lemma nat_run_keeps:
  "nat_ok s \<Longrightarrow> list_all call_ok cs \<Longrightarrow> nat_run D cs s = Some s' \<Longrightarrow> keeps s s'"
proof (induction cs arbitrary: s)
  case (Cons c cs)
  then obtain s1 where s1: "nat_do D c s = Some s1" "nat_run D cs s1 = Some s'"
    by (auto split: option.splits)
  have k: "keeps s s1" using nat_do_keeps Cons.prems(1,2) s1(1) by auto
  have "keeps s1 s'" using Cons.IH [of s1] Cons.prems(2) s1(2) k by (simp add: keeps_def)
  then show ?case using keeps_trans [OF k] by blast
qed (simp add: keeps_def)

lemma NatApp_Init_ok:
  "NatApp_Init n algs pre pwr tcp udp d = Some s \<Longrightarrow> length pwr = IPA_MAX_NUM_WIFI_CLIENTS \<Longrightarrow>
   nat_ok s \<and> length (cache s) = n"
  by (auto simp: NatApp_Init_def nat_ok_def conns_def list_all_iff split: if_splits)

end
