(* ===== verification/CtListener.thy ===== *)
theory CtListener
  imports NatInv
begin

text \<open>
  The listener of the connection tracker
  (\<open>data-ipa-cfg-mgr/ipacm/src/IPACM_ConntrackListener.cpp\<close>): it knows the addresses of the
  clients behind translated interfaces, the addresses of the others, and the clients of the
  station mode, and turns each connection message into a call on the NAT cache. The attributes
  of a connection are what \<open>nfct_get_attr\<close> returns, in network byte order. The constructor has
  found its \<open>NatApp\<close> and its configuration. \<open>CT_OPT\<close> is not defined in this build.
\<close>

section \<open>State\<close>

record conntrack =
  ATTR_STATUS :: u32
  ATTR_ORIG_L4PROTO :: u8
  ATTR_REPL_L4PROTO :: u8
  ATTR_ORIG_IPV4_SRC :: u32
  ATTR_ORIG_IPV4_DST :: u32
  ATTR_REPL_IPV4_SRC :: u32
  ATTR_ORIG_PORT_SRC :: u16
  ATTR_ORIG_PORT_DST :: u16
  ATTR_REPL_PORT_SRC :: u16
  ATTR_REPL_PORT_DST :: u16
  ATTR_TCP_STATE :: u8

datatype nf_conntrack_msg_type = NFCT_T_NEW | NFCT_T_UPDATE | NFCT_T_DESTROY

definition IPS_SRC_NAT :: u32 where "IPS_SRC_NAT = 16"
definition IPS_DST_NAT :: u32 where "IPS_DST_NAT = 32"
definition TCP_CONNTRACK_ESTABLISHED :: u8 where "TCP_CONNTRACK_ESTABLISHED = 3"
definition TCP_CONNTRACK_FIN_WAIT :: u8 where "TCP_CONNTRACK_FIN_WAIT = 4"

definition MAX_NAT_IFACES :: nat where "MAX_NAT_IFACES = 50"
definition MAX_STA_CLNT_IFACES :: nat where "MAX_STA_CLNT_IFACES = 10"

record 'd ct_listener =
  WanUp :: bool
  nat_inst :: "'d nat_app"
  StaClntCnt :: int
  pNatIfaces :: "string list"
  nat_iface_ipv4_addr :: "u32 list"
  nonnat_iface_ipv4_addr :: "u32 list"
  sta_clnt_ipv4_addr :: "u32 list"
  private_subnets :: "(u32 \<times> u32) list"   \<comment> \<open>address and mask, of the configuration\<close>
  wan_ipaddr :: u32
  isStaMode :: bool

definition ntohl :: "u32 \<Rightarrow> u32" where "ntohl = htonl"
definition ntohs :: "u16 \<Rightarrow> u16" where "ntohs = htons"

definition ConntrackListener ::
  "string list \<Rightarrow> (u32 \<times> u32) list \<Rightarrow> u32 \<Rightarrow> bool \<Rightarrow> 'd nat_app \<Rightarrow> 'd ct_listener" where
  "ConntrackListener ifaces subnets wan sta app =
    \<lparr>WanUp = False, nat_inst = app, StaClntCnt = 0, pNatIfaces = ifaces,
     nat_iface_ipv4_addr = replicate MAX_NAT_IFACES 0,
     nonnat_iface_ipv4_addr = replicate MAX_NAT_IFACES 0,
     sta_clnt_ipv4_addr = replicate MAX_STA_CLNT_IFACES 0, private_subnets = subnets,
     wan_ipaddr = wan, isStaMode = sta\<rparr>"

definition on_nat :: "('d nat_app \<Rightarrow> 'd nat_app) \<Rightarrow> 'd ct_listener \<Rightarrow> 'd ct_listener" where
  "on_nat f s = s\<lparr>nat_inst := f (nat_inst s)\<rparr>"

definition isPrivateSubnet :: "u32 \<Rightarrow> 'd ct_listener \<Rightarrow> bool" where
  "isPrivateSubnet ip_addr s = list_ex (\<lambda>(addr, mask). addr = mask AND ip_addr) (private_subnets s)"

section \<open>Connection messages\<close>

text \<open>The direction of the translation, and the start of the rule.\<close>

definition nat_status :: "conntrack \<Rightarrow> 'd ct_listener \<Rightarrow> (u32 \<times> nat_table_entry) option" where
  "nat_status ct s =
    (let status = ATTR_STATUS ct;
         rule = zero_entry\<lparr>protocol := ATTR_REPL_L4PROTO ct\<rparr>
     in if IPS_DST_NAT AND status \<noteq> 0 then Some (IPS_DST_NAT, rule)
        else if IPS_SRC_NAT AND status \<noteq> 0 then Some (IPS_SRC_NAT, rule)
        else
          let orig_src_ip = ntohl (ATTR_ORIG_IPV4_SRC ct);
              orig_dst_ip = ntohl (ATTR_ORIG_IPV4_DST ct)
          in if orig_src_ip = 0 then None
             else if orig_dst_ip = 0 then None
             else if orig_src_ip = wan_ipaddr s
             then Some (IPS_SRC_NAT, rule\<lparr>public_ip := ucast (wan_ipaddr s)\<rparr>)
             else if orig_dst_ip = wan_ipaddr s
             then Some (IPS_DST_NAT, rule\<lparr>public_ip := ucast (wan_ipaddr s)\<rparr>)
             else None)"

definition ct_rule :: "conntrack \<Rightarrow> 'd ct_listener \<Rightarrow> nat_table_entry option" where
  "ct_rule ct s =
    (case nat_status ct s of
       None \<Rightarrow> None
     | Some (status, rule) \<Rightarrow>
         if status = IPS_DST_NAT then
           Some (rule\<lparr>dst_nat := True, target_ip := ntohl (ATTR_ORIG_IPV4_SRC ct),
             target_port := ntohs (ATTR_ORIG_PORT_SRC ct),
             public_port := ntohs (ATTR_ORIG_PORT_DST ct),
             private_ip := ntohl (ATTR_REPL_IPV4_SRC ct),
             private_port := ntohs (ATTR_REPL_PORT_SRC ct)\<rparr>)
         else
           Some (rule\<lparr>dst_nat := False, target_ip := ntohl (ATTR_ORIG_IPV4_DST ct),
             target_port := ntohs (ATTR_ORIG_PORT_DST ct),
             public_port := ntohs (ATTR_REPL_PORT_DST ct),
             private_ip := ntohl (ATTR_ORIG_IPV4_SRC ct),
             private_port := ntohs (ATTR_ORIG_PORT_SRC ct)\<rparr>))"

text \<open>Whose connection it is: the rule to use and whether its client is not known yet.\<close>

definition ct_owner :: "nat_table_entry \<Rightarrow> 'd ct_listener \<Rightarrow> (nat_table_entry \<times> bool) option" where
  "ct_owner rule s =
    (if private_ip rule \<noteq> wan_ipaddr s then
       if list_ex (\<lambda>a. a \<noteq> 0 \<and> (private_ip rule = a \<or> target_ip rule = a)) (nat_iface_ipv4_addr s)
       then Some (rule, False)
       else if isPrivateSubnet (private_ip rule) s \<or> isPrivateSubnet (target_ip rule) s
       then Some (rule, True)
       else None
     else if isStaMode s then None
     else Some (rule\<lparr>private_port := public_port rule\<rparr>, False))"

text \<open>In station mode, a target in the clients' subnet must be a client. The scan stops at \<open>StaClntCnt\<close>.\<close>

definition sta_accepts :: "nat_table_entry \<Rightarrow> 'd ct_listener \<Rightarrow> bool" where
  "sta_accepts rule s =
    (if \<not> isStaMode s \<or> StaClntCnt s = 0 then True
     else if sta_clnt_ipv4_addr s ! 0 AND 0xFFFFFF00 \<noteq> target_ip rule AND 0xFFFFFF00 then True
     else list_ex (\<lambda>a. target_ip rule = a) (take (nat (StaClntCnt s)) (sta_clnt_ipv4_addr s)))"

definition ct_add :: "'d nat_driver \<Rightarrow> int \<Rightarrow> nat_table_entry \<Rightarrow> bool \<Rightarrow> 'd ct_listener \<Rightarrow> 'd ct_listener option" where
  "ct_add D cnt0 rule isTempEntry s =
    (if \<not> WanUp s then
       map_option (\<lambda>n. s\<lparr>nat_inst := n\<rparr>) (CacheEntry cnt0 rule (nat_inst s))
     else if isTempEntry then Some (on_nat (AddTempEntry rule) s)
     else Some (on_nat (\<lambda>n. snd (AddEntry D rule n)) s))"

definition ct_delete :: "'d nat_driver \<Rightarrow> nat_table_entry \<Rightarrow> bool \<Rightarrow> 'd ct_listener \<Rightarrow> 'd ct_listener" where
  "ct_delete D rule isTempEntry s =
    (if isTempEntry then on_nat (DeleteTempEntry rule) s
     else on_nat (\<lambda>n. snd (DeleteEntry D rule n)) s)"

text \<open>\<open>cnt0\<close> is what \<open>CacheEntry\<close> finds on the stack.\<close>

definition ProcessTCPorUDPMsg ::
  "'d nat_driver \<Rightarrow> int \<Rightarrow> conntrack \<Rightarrow> nf_conntrack_msg_type \<Rightarrow> 'd ct_listener \<Rightarrow> 'd ct_listener option" where
  "ProcessTCPorUDPMsg D cnt0 ct type s =
    (case ct_rule ct s of
       None \<Rightarrow> Some s
     | Some rule \<Rightarrow>
       (case ct_owner rule s of
          None \<Rightarrow> Some s
        | Some (rule, isTempEntry) \<Rightarrow>
            if \<not> sta_accepts rule s then Some s
            else if IPPROTO_TCP = protocol rule then
              if TCP_CONNTRACK_ESTABLISHED = ATTR_TCP_STATE ct then ct_add D cnt0 rule isTempEntry s
              else if TCP_CONNTRACK_FIN_WAIT = ATTR_TCP_STATE ct \<or> type = NFCT_T_DESTROY
              then Some (ct_delete D rule isTempEntry s)
              else Some s
            else if IPPROTO_UDP = protocol rule then
              if type = NFCT_T_NEW then ct_add D cnt0 rule isTempEntry s
              else if type = NFCT_T_DESTROY then Some (ct_delete D rule isTempEntry s)
              else Some s
            else Some s))"

definition ProcessCTMessage ::
  "'d nat_driver \<Rightarrow> int \<Rightarrow> conntrack \<Rightarrow> nf_conntrack_msg_type \<Rightarrow> 'd ct_listener \<Rightarrow> 'd ct_listener option" where
  "ProcessCTMessage D cnt0 ct type s =
    (if IPPROTO_UDP \<noteq> ATTR_ORIG_L4PROTO ct \<and> IPPROTO_TCP \<noteq> ATTR_ORIG_L4PROTO ct then Some s
     else ProcessTCPorUDPMsg D cnt0 ct type s)"

section \<open>Interfaces and clients\<close>

text \<open>\<open>event_callback\<close> for the WAN interface.\<close>

definition TriggerWANUp :: "'d nat_driver \<Rightarrow> u32 \<Rightarrow> bool \<Rightarrow> 'd ct_listener \<Rightarrow> 'd ct_listener" where
  "TriggerWANUp D ipv4_addr is_sta s =
    (if ipv4_addr = 0 then s
     else on_nat (\<lambda>n. snd (AddTable D ipv4_addr n))
       (s\<lparr>WanUp := True, isStaMode := is_sta, wan_ipaddr := ipv4_addr\<rparr>))"

definition TriggerWANDown :: "'d nat_driver \<Rightarrow> u32 \<Rightarrow> 'd ct_listener \<Rightarrow> 'd ct_listener" where
  "TriggerWANDown D wan_addr s =
    on_nat (\<lambda>n. snd (DeleteTable D wan_addr n)) (s\<lparr>WanUp := False\<rparr>)"

text \<open>
  A client appears. \<open>ifname\<close> is the name of its interface, \<open>None\<close> if the system does not tell.
\<close>

definition HandleNeighIpAddrAddEvt ::
  "'d nat_driver \<Rightarrow> u32 \<Rightarrow> bool \<Rightarrow> string option \<Rightarrow> 'd ct_listener \<Rightarrow> 'd ct_listener" where
  "HandleNeighIpAddrAddEvt D ipv4_addr is_v4 ifname s =
    (if ipv4_addr = 0 \<or> \<not> is_v4 then s
     else case ifname of
       None \<Rightarrow> s
     | Some name \<Rightarrow>
         let slot = (if list_ex (\<lambda>x. take 16 name = take 16 x) (pNatIfaces s)
                     then first_index (\<lambda>a. a = ipv4_addr \<or> a = 0) (nat_iface_ipv4_addr s) else None)
         in case slot of
              Some j \<Rightarrow>
                if nat_iface_ipv4_addr s ! j = ipv4_addr then s
                else on_nat (\<lambda>n. FlushTempEntries D ipv4_addr True (snd (ResetPwrSaveIf D ipv4_addr n)))
                  (s\<lparr>nat_iface_ipv4_addr := (nat_iface_ipv4_addr s)[j := ipv4_addr]\<rparr>)
            | None \<Rightarrow>
               (case first_index (\<lambda>a. a = 0) (nonnat_iface_ipv4_addr s) of
                  None \<Rightarrow> s
                | Some i \<Rightarrow> on_nat (FlushTempEntries D ipv4_addr False)
                    (s\<lparr>nonnat_iface_ipv4_addr := (nonnat_iface_ipv4_addr s)[i := ipv4_addr]\<rparr>)))"

definition HandleNeighIpAddrDelEvt :: "'d nat_driver \<Rightarrow> u32 \<Rightarrow> 'd ct_listener \<Rightarrow> 'd ct_listener" where
  "HandleNeighIpAddrDelEvt D ipv4_addr s =
    (if ipv4_addr = 0 then s
     else
       let del = map (\<lambda>a. if a = ipv4_addr then 0 else a);
           s = s\<lparr>nat_iface_ipv4_addr := del (nat_iface_ipv4_addr s),
                 nonnat_iface_ipv4_addr := del (nonnat_iface_ipv4_addr s)\<rparr>
       in on_nat (\<lambda>n. snd (DelEntriesOnClntDiscon D ipv4_addr
                        (FlushTempEntries D ipv4_addr False n))) s)"

definition HandleSTAClientAddEvt :: "u32 \<Rightarrow> 'd ct_listener \<Rightarrow> 'd ct_listener" where
  "HandleSTAClientAddEvt clnt_ip_addr s =
    (if StaClntCnt s \<ge> int MAX_STA_CLNT_IFACES then s
     else case first_index (\<lambda>a. a \<noteq> 0 \<and> a = clnt_ip_addr \<or> a = 0) (sta_clnt_ipv4_addr s) of
       None \<Rightarrow> s
     | Some cnt \<Rightarrow>
         if sta_clnt_ipv4_addr s ! cnt \<noteq> 0 \<and> sta_clnt_ipv4_addr s ! cnt = clnt_ip_addr then s
         else s\<lparr>sta_clnt_ipv4_addr := (sta_clnt_ipv4_addr s)[cnt := clnt_ip_addr],
                StaClntCnt := StaClntCnt s + 1\<rparr>)"

definition HandleSTAClientDelEvt :: "'d nat_driver \<Rightarrow> u32 \<Rightarrow> 'd ct_listener \<Rightarrow> 'd ct_listener" where
  "HandleSTAClientDelEvt D clnt_ip_addr s =
    (case first_index (\<lambda>a. a \<noteq> 0 \<and> a = clnt_ip_addr) (sta_clnt_ipv4_addr s) of
       None \<Rightarrow> s
     | Some cnt \<Rightarrow>
         (on_nat (\<lambda>n. snd (DelEntriesOnSTAClntDiscon D clnt_ip_addr n))
            (s\<lparr>sta_clnt_ipv4_addr := (sta_clnt_ipv4_addr s)[cnt := 0]\<rparr>))
            \<lparr>StaClntCnt := StaClntCnt s - 1\<rparr>)"

section \<open>Events\<close>

datatype ct_event =
    EvtConn int conntrack nf_conntrack_msg_type
  | EvtWanUp u32 bool | EvtWanDown u32
  | EvtNeighAdd u32 bool "string option" | EvtNeighDel u32
  | EvtStaAdd u32 | EvtStaDel u32
  | EvtTimeStamps | EvtTimeout u32 int32 | EvtPwrSave u32 | EvtPwrRecover u32

fun ct_step :: "'d nat_driver \<Rightarrow> 'd ct_listener \<Rightarrow> ct_event \<Rightarrow> 'd ct_listener option" where
  "ct_step D s (EvtConn cnt0 ct type) = ProcessCTMessage D cnt0 ct type s"
| "ct_step D s (EvtWanUp ip sta) = Some (if \<not> WanUp s then TriggerWANUp D ip sta s else s)"
| "ct_step D s (EvtWanDown ip) = Some (if WanUp s then TriggerWANDown D ip s else s)"
| "ct_step D s (EvtNeighAdd ip v4 ifname) = Some (HandleNeighIpAddrAddEvt D ip v4 ifname s)"
| "ct_step D s (EvtNeighDel ip) = Some (HandleNeighIpAddrDelEvt D ip s)"
| "ct_step D s (EvtStaAdd ip) = Some (HandleSTAClientAddEvt ip s)"
| "ct_step D s (EvtStaDel ip) = Some (HandleSTAClientDelEvt D ip s)"
| "ct_step D s EvtTimeStamps = Some (on_nat (UpdateUDPTimeStamp D) s)"
| "ct_step D s (EvtTimeout v proto) = Some (on_nat (UpdateTcpUdpTo v proto) s)"
| "ct_step D s (EvtPwrSave ip) = Some (on_nat (\<lambda>n. snd (UpdatePwrSaveIf D ip n)) s)"
| "ct_step D s (EvtPwrRecover ip) = Some (on_nat (\<lambda>n. snd (ResetPwrSaveIf D ip n)) s)"

fun ct_run :: "'d nat_driver \<Rightarrow> ct_event list \<Rightarrow> 'd ct_listener \<Rightarrow> 'd ct_listener option" where
  "ct_run D [] s = Some s"
| "ct_run D (e # es) s = (case ct_step D s e of None \<Rightarrow> None | Some s \<Rightarrow> ct_run D es s)"

end
