(* ===== verification/NatProps.thy ===== *)
theory NatProps
  imports CtListener
begin

text \<open>What the NAT cache and its listener promise, and where they fall short.\<close>

section \<open>The listener keeps the cache\<close>

lemma keeps_on_nat: "nat_ok (nat_inst s) \<Longrightarrow> keeps (nat_inst s) (f (nat_inst s)) \<Longrightarrow>
    keeps (nat_inst s) (nat_inst (on_nat f s))"
  by (simp add: on_nat_def)

lemma nat_inst_fields [simp]:
  "nat_inst (on_nat f s) = f (nat_inst s)"
  by (simp add: on_nat_def)

lemma keeps_self: "nat_ok s \<Longrightarrow> keeps s s"
  by (simp add: keeps_def)

lemma keeps_ct_add:
  assumes "nat_ok (nat_inst s)" "ct_add D cnt0 rule t s = Some s'"
  shows "keeps (nat_inst s) (nat_inst s')"
proof -
  have "keeps (nat_inst s) (snd (AddEntry D rule (nat_inst s)))"
    using AddEntry_ok(1) [OF assms(1)] by (metis prod.collapse)
  moreover have "keeps (nat_inst s) (AddTempEntry rule (nat_inst s))"
    using nat_do_keeps [OF assms(1), of "CallAddTemp rule" D] by (simp add: call_ok_def)
  ultimately show ?thesis using assms CacheEntry_ok [OF assms(1)]
    by (auto simp: ct_add_def split: if_splits)
qed

lemma keeps_ct_delete:
  assumes "nat_ok (nat_inst s)" "protocol rule \<noteq> 0"
  shows "keeps (nat_inst s) (nat_inst (ct_delete D rule t s))"
  using keeps_DeleteEntry [OF assms] nat_do_keeps [OF assms(1), of "CallDeleteTemp rule" D]
  by (simp add: ct_delete_def call_ok_def)

lemma keeps_ct_delete_proto:
  assumes "nat_ok (nat_inst s)"
  shows "IPPROTO_TCP = protocol rule \<Longrightarrow> keeps (nat_inst s) (nat_inst (ct_delete D rule t s))"
    and "IPPROTO_UDP = protocol rule \<Longrightarrow> keeps (nat_inst s) (nat_inst (ct_delete D rule t s))"
  using keeps_ct_delete [OF assms, of rule D t] by (auto simp: IPPROTO_TCP_def IPPROTO_UDP_def)

lemma keeps_conn:
  assumes "nat_ok (nat_inst s)" "ProcessCTMessage D cnt0 ct type s = Some s'"
  shows "keeps (nat_inst s) (nat_inst s')"
  using assms(2) keeps_ct_add [OF assms(1)] keeps_ct_delete_proto [OF assms(1)] keeps_self [OF assms(1)]
  by (auto simp: ProcessCTMessage_def ProcessTCPorUDPMsg_def split: option.splits if_splits prod.splits)

lemma keeps_ct_step:
  assumes "nat_ok (nat_inst s)" "ct_step D s e = Some s'"
  shows "keeps (nat_inst s) (nat_inst s')"
proof -
  let ?n = "nat_inst s"
  note do = nat_do_keeps [OF assms(1), where D = D]
  have flush: "keeps ?n (FlushTempEntries D ip b n)" if "keeps ?n n" for ip b n
    using keeps_FlushTempEntries [of n D ip b] that keeps_trans by (auto simp: keeps_def)
  have del: "keeps ?n (snd (DelEntriesOnClntDiscon D ip n))" if "keeps ?n n" for ip n
    using keeps_DelEntriesOnClntDiscon [of n D ip] that by (auto simp: keeps_def)
  have add: "keeps ?n (nat_inst (HandleNeighIpAddrAddEvt D ip v4 ifname s))" for ip v4 ifname
    using flush [OF keeps_ResetPwrSaveIf [OF assms(1)]] flush [OF keeps_self [OF assms(1)]] assms(1)
    by (auto simp: HandleNeighIpAddrAddEvt_def Let_def keeps_self split: option.splits)
  have neighdel: "keeps ?n (nat_inst (HandleNeighIpAddrDelEvt D ip s))" for ip
    using del [OF flush [OF keeps_self [OF assms(1)]]] assms(1)
    by (simp add: HandleNeighIpAddrDelEvt_def Let_def keeps_self)
  have sta: "keeps ?n (nat_inst (HandleSTAClientAddEvt ip s))"
    "keeps ?n (nat_inst (HandleSTAClientDelEvt D ip s))" for ip
    using assms(1) keeps_DelEntriesOnSTAClntDiscon [OF assms(1)] keeps_self
    by (auto simp: HandleSTAClientAddEvt_def HandleSTAClientDelEvt_def split: option.splits)
  show ?thesis using assms(2) keeps_conn [OF assms(1)] add neighdel sta keeps_self [OF assms(1)]
      keeps_AddTable [OF assms(1)] keeps_DeleteTable [OF assms(1)]
      keeps_UpdateUDPTimeStamp [OF assms(1)] keeps_UpdatePwrSaveIf [OF assms(1)] keeps_ResetPwrSaveIf [OF assms(1)]
      do [of "CallTimeout v p" for v p]
    by (cases e) (auto simp: TriggerWANUp_def TriggerWANDown_def call_ok_def)
qed

lemma keeps_ct_run:
  "nat_ok (nat_inst s) \<Longrightarrow> ct_run D es s = Some s' \<Longrightarrow> keeps (nat_inst s) (nat_inst s')"
proof (induction es arbitrary: s)
  case (Cons e es)
  then obtain s1 where s1: "ct_step D s e = Some s1" "ct_run D es s1 = Some s'"
    by (auto split: option.splits)
  have k: "keeps (nat_inst s) (nat_inst s1)" using keeps_ct_step [OF Cons.prems(1) s1(1)] .
  then have "nat_ok (nat_inst s1)" by (simp add: keeps_def)
  from Cons.IH [OF this s1(2)] show ?case using keeps_trans [OF k] by blast
qed (simp add: keeps_self)

text \<open>
  A run is only cut off by \<open>CacheEntry\<close>, when the counter that it does not set is outside the cache.
\<close>

definition cnt_in_cache :: "nat \<Rightarrow> ct_event \<Rightarrow> bool" where
  "cnt_in_cache n e \<longleftrightarrow> (case e of EvtConn cnt0 ct type \<Rightarrow> 0 \<le> cnt0 \<and> cnt0 \<le> int n | _ \<Rightarrow> True)"

lemma CacheEntry_stays:
  "0 \<le> cnt0 \<Longrightarrow> cnt0 \<le> int (length (cache s)) \<Longrightarrow> CacheEntry cnt0 rule s \<noteq> None"
  by (auto simp: CacheEntry_def Let_def split: option.splits)

lemma ct_step_stays:
  assumes "cnt_in_cache (length (cache (nat_inst s))) e" shows "ct_step D s e \<noteq> None"
proof (cases e)
  case (EvtConn cnt0 ct type)
  then have "CacheEntry cnt0 rule (nat_inst s) \<noteq> None" for rule
    using assms CacheEntry_stays [of cnt0 "nat_inst s" rule] by (simp add: cnt_in_cache_def)
  then have "ct_add D cnt0 rule t s \<noteq> None" for rule t by (simp add: ct_add_def)
  then show ?thesis using EvtConn
    by (simp add: ProcessCTMessage_def ProcessTCPorUDPMsg_def split: option.splits prod.splits)
qed simp_all

lemma ct_run_stays:
  "nat_ok (nat_inst s) \<Longrightarrow> list_all (cnt_in_cache (length (cache (nat_inst s)))) es \<Longrightarrow> ct_run D es s \<noteq> None"
proof (induction es arbitrary: s)
  case (Cons e es)
  then obtain s1 where s1: "ct_step D s e = Some s1" using ct_step_stays [of s e D] by auto
  have "keeps (nat_inst s) (nat_inst s1)" using keeps_ct_step [OF Cons.prems(1) s1] .
  then show ?case using Cons s1 by (simp add: keeps_def)
qed simp

lemma conns_bound: "length (conns s) \<le> length (cache s)"
proof -
  have "length (concat (map slot_conn xs)) \<le> length xs" for xs
    by (induction xs) (auto simp: slot_conn_def)
  then show ?thesis by (simp add: conns_def)
qed

section \<open>A slot's life\<close>

lemma first_index_update:
  "\<forall>x \<in> set xs. \<not> P x \<Longrightarrow> P y \<Longrightarrow> i < length xs \<Longrightarrow> first_index P (xs[i := y]) = Some i"
  by (induction xs arbitrary: i) (auto split: nat.splits)

text \<open>A successful \<open>AddEntry\<close>: the slot, what it holds, and what the driver was asked.\<close>

definition pwr_saved :: "nat_table_entry \<Rightarrow> 'd nat_app \<Rightarrow> bool" where
  "pwr_saved rule s \<longleftrightarrow> isPwrSaveIf (private_ip rule) s \<or> isPwrSaveIf (target_ip rule) s"

lemma AddEntry_success:
  assumes "AddEntry D rule s = (0, s')" "\<not> invalid_conn rule"
    and "ipa_nat_add_ipv4_rule D (nat_table_hdl s) (nat_rule_of rule) (rule_hdl (cache s ! i)) (drv s)
      = (r, hdl, d)"
    and "first_index free_slot (cache s) = Some i"
  shows "\<not> ChkForDup rule s"
    and "\<exists>e. conn e = conn rule \<and> enabled e = (\<not> pwr_saved rule s) \<and>
      (enabled e \<longrightarrow> rule_hdl e = hdl) \<and> cache s' = (cache s)[i := e]"
    and "drv s' = (if pwr_saved rule s then drv s else d)"
    and "curCnt s' = curCnt s + 1" "nat_table_hdl s' = nat_table_hdl s"
proof -
  have "\<not> ChkForDup rule s" using assms(1,2) by (auto simp: AddEntry_def split: if_splits)
  show "\<not> ChkForDup rule s" by fact
  have eq: "s' = (if pwr_saved rule s
      then (set_slot i (fill_slot rule ((cache s ! i)\<lparr>enabled := False, rule_hdl := 0\<rparr>)) s)
        \<lparr>curCnt := curCnt s + 1\<rparr>
      else (set_slot i (fill_slot rule ((cache s ! i)\<lparr>rule_hdl := hdl, enabled := True\<rparr>)) (s\<lparr>drv := d\<rparr>))
        \<lparr>curCnt := curCnt s + 1\<rparr>)"
    using assms by (auto simp: AddEntry_def Let_def pwr_saved_def split: if_splits)
  have fs: "enabled (fill_slot rule e) = enabled e" "rule_hdl (fill_slot rule e) = rule_hdl e" for e
    by (simp_all add: fill_slot_def)
  show "\<exists>e. conn e = conn rule \<and> enabled e = (\<not> pwr_saved rule s) \<and>
      (enabled e \<longrightarrow> rule_hdl e = hdl) \<and> cache s' = (cache s)[i := e]"
  proof (cases "pwr_saved rule s")
    case True
    then show ?thesis unfolding eq
      by (intro exI [of _ "fill_slot rule ((cache s ! i)\<lparr>enabled := False, rule_hdl := 0\<rparr>)"])
        (simp add: fs)
  next
    case False
    then show ?thesis unfolding eq
      by (intro exI [of _ "fill_slot rule ((cache s ! i)\<lparr>rule_hdl := hdl, enabled := True\<rparr>)"])
        (simp add: fs)
  qed
  show "drv s' = (if pwr_saved rule s then drv s else d)"
    "curCnt s' = curCnt s + 1" "nat_table_hdl s' = nat_table_hdl s"
    by (simp_all add: eq)
qed

section \<open>A driver to run with\<close>

text \<open>
  A driver that keeps the handles of the rules in the hardware, and never refuses a rule.
\<close>

definition log_drv :: "u32 list nat_driver" where
  "log_drv =
    \<lparr>ipa_nat_add_ipv4_tbl = (\<lambda>ip n hdl d. (0, 1, [])),
     ipa_nat_del_ipv4_tbl = (\<lambda>hdl d. (0, [])),
     ipa_nat_add_ipv4_rule = (\<lambda>tbl r hdl d. (0, of_nat (length d) + 1, (of_nat (length d) + 1) # d)),
     ipa_nat_del_ipv4_rule = (\<lambda>tbl hdl d. (if hdl \<in> set d then 0 else - 1, removeAll hdl d)),
     ipa_nat_query_timestamp = (\<lambda>tbl hdl ts d. (0, 5, d)),
     nfct_open = (\<lambda>d. (True, d)), nfct_new = (\<lambda>d. (True, d)),
     nfct_query_update = (\<lambda>u d. (0, d))\<rparr>"

definition test_conn :: "u16 \<Rightarrow> nat_table_entry" where
  "test_conn port = zero_entry\<lparr>private_ip := 0xC0A80005, private_port := port,
     target_ip := 0x08080808, target_port := 53, public_port := 4000, protocol := 17\<rparr>"

definition test_app :: "u32 list nat_app" where
  "test_app =
    \<lparr>cache = [zero_entry, zero_entry\<lparr>rule_hdl := 9\<rparr>], temp = replicate MAX_TEMP_ENTRIES zero_entry,
     pub_ip_addr = 0x0A000001, pub_ip_addr_pre = 0, nat_table_hdl = 1, curCnt = 0,
     pALGPorts = [(6, 21)], tcp_timeout = 0, udp_timeout = 0,
     PwrSaveIfs = replicate IPA_MAX_NUM_WIFI_CLIENTS 0,
     ct_new_done = False, ct_open_done = False, drv = []\<rparr>"

lemmas nat_test_defs = log_drv_def test_conn_def test_app_def zero_entry_def MAX_TEMP_ENTRIES_def
  IPA_MAX_NUM_WIFI_CLIENTS_def

lemmas nat_eval = AddEntry_def isAlgPort_def invalid_conn_def ChkForDup_def same_conn_def
  free_slot_def isPwrSaveIf_def nat_rule_of_def fill_slot_def set_slot_def clear_slot_def
  DeleteEntry_def DeleteTable_def AddTable_def NatApp_Reset_def for_slots_def CacheEntry_def

section \<open>Properties\<close>

text \<open>
  C19: a run of the listener, whatever the events and the answers of the driver, goes on as long as
  the counter that \<open>CacheEntry\<close> declares but does not set happens to be in the cache or just behind
  it; where it is not, the code accesses foreign memory and nothing is claimed. After a run that
  goes on, the cache has kept its size; each of its slots is free and not in the hardware, or holds
  a complete connection; no connection is held twice; and \<open>curCnt\<close> is the number of them, between
  0 and the size.
\<close>

theorem nat_cache_invariant:
  assumes "NatApp_Init n algs pre pwr tcp udp d = Some app"
    and "length pwr = IPA_MAX_NUM_WIFI_CLIENTS"
  shows "case ct_run D es (ConntrackListener ifaces subnets wan sta app) of
      None \<Rightarrow> \<not> list_all (cnt_in_cache n) es
    | Some s \<Rightarrow> length (cache (nat_inst s)) = n \<and> list_all slot_ok (cache (nat_inst s)) \<and>
        distinct (conns (nat_inst s)) \<and> curCnt (nat_inst s) = int (length (conns (nat_inst s))) \<and>
        0 \<le> curCnt (nat_inst s) \<and> curCnt (nat_inst s) \<le> int n"
proof -
  let ?s = "ConntrackListener ifaces subnets wan sta app"
  have app: "nat_ok app" "length (cache app) = n" "nat_inst ?s = app"
    using NatApp_Init_ok [OF assms] by (simp_all add: ConntrackListener_def)
  show ?thesis
  proof (cases "ct_run D es ?s")
    case None
    then show ?thesis using ct_run_stays [of ?s es D] app by auto
  next
    case (Some s)
    then have "keeps app (nat_inst s)" using keeps_ct_run [OF _ Some] app by simp
    then show ?thesis using Some app conns_bound [of "nat_inst s"] by (auto simp: keeps_def nat_ok_def)
  qed
qed

text \<open>
  C20: the cache is a set of connections. \<open>AddEntry\<close> returns 0 or -1 and adds the connection
  exactly when it returns 0 for a complete one, which was not there; a full cache refuses every
  complete connection. \<open>DeleteEntry\<close> removes exactly the connection.
\<close>

theorem nat_cache_is_set:
  assumes "nat_ok s" "\<not> invalid_conn rule" "AddEntry D rule s = (res, s')"
  shows "res \<in> {0, - 1} \<and>
    set (conns s') = (if res = 0 then insert (conn rule) (set (conns s)) else set (conns s)) \<and>
    (res = 0 \<longrightarrow> conn rule \<notin> set (conns s)) \<and>
    (curCnt s = int (length (cache s)) \<longrightarrow> res = - 1) \<and>
    set (conns (snd (DeleteEntry D rule s))) = set (conns s) - {conn rule}"
proof -
  have "res \<in> {0, - 1}"
    using assms(3) by (auto simp: AddEntry_def Let_def split: if_splits option.splits prod.splits)
  moreover have "res = - 1" if full: "curCnt s = int (length (cache s))"
  proof (rule ccontr)
    assume "res \<noteq> - 1"
    with \<open>res \<in> {0, - 1}\<close> have "res = 0" by simp
    then have "length (conns s') = Suc (length (conns s))"
      using AddEntry_ok [OF assms(1,3)] assms(1,2)
      by (metis (no_types) card_insert_disjoint distinct_card finite_set keeps_def nat_ok_def)
    moreover have "length (conns s') \<le> length (cache s)"
      using conns_bound [of s'] AddEntry_ok(1) [OF assms(1,3)] by (simp add: keeps_def)
    ultimately show False using full assms(1) by (simp add: nat_ok_def)
  qed
  ultimately show ?thesis
    using AddEntry_ok(2,3) [OF assms(1,3)] assms(2) DeleteEntry_ok(2) [OF assms(1,2)] by auto
qed

text \<open>
  C38: adding a complete connection and deleting it leaves the cache as it was, but for the free
  slot it used, which is all zero; and the driver, asked to put the rule into the hardware when no
  client of it is in power save, is asked to take out the handle it gave, from the same table.
\<close>

theorem nat_add_delete:
  assumes "\<not> invalid_conn rule" "AddEntry D rule s = (0, s')"
  shows "\<exists>i < length (cache s). free_slot (cache s ! i) \<and>
    cache (snd (DeleteEntry D rule s')) = (cache s)[i := zero_entry] \<and>
    curCnt (snd (DeleteEntry D rule s')) = curCnt s \<and>
    drv (snd (DeleteEntry D rule s')) =
      (if pwr_saved rule s then drv s
       else case ipa_nat_add_ipv4_rule D (nat_table_hdl s) (nat_rule_of rule) (rule_hdl (cache s ! i))
                   (drv s) of (r, hdl, d) \<Rightarrow> snd (ipa_nat_del_ipv4_rule D (nat_table_hdl s) hdl d))"
proof -
  obtain i where i: "first_index free_slot (cache s) = Some i"
    using assms by (auto simp: AddEntry_def split: if_splits option.splits)
  note slot = first_index_Some [OF i]
  obtain r hdl d where drv: "ipa_nat_add_ipv4_rule D (nat_table_hdl s) (nat_rule_of rule)
      (rule_hdl (cache s ! i)) (drv s) = (r, hdl, d)" by (metis prod_cases3)
  note add = AddEntry_success [OF assms(2,1) drv i]
  obtain e where e: "conn e = conn rule" "enabled e = (\<not> pwr_saved rule s)"
    "enabled e \<longrightarrow> rule_hdl e = hdl" "cache s' = (cache s)[i := e]" using add(2) by blast
  have "first_index (same_conn rule) (cache s') = Some i"
    using add(1) e(1,4) slot
    by (simp add: first_index_update ChkForDup_def first_index_None same_conn_iff)
  then show ?thesis using slot e add(3-5) drv
    by (intro exI [of _ i]) (simp add: DeleteEntry_def Let_def clear_slot_def)
qed

text \<open>
  the connections stay marked as in the hardware when their table is deleted. If the next table
  is for another public address, nothing is put back, and the removal of such a connection asks
  the driver to take its old handle out of the new table.
\<close>

lemma nat_stale_handle:
  assumes "first_index (same_conn rule) (cache s) = Some i" "enabled (cache s ! i)"
    and "DeleteTable D (pub_ip_addr s) s = (0, s1)"
    and "ip \<noteq> pub_ip_addr s" "AddTable D ip s1 = (0, s2)"
  shows "cache s2 = cache s \<and>
    drv (snd (DeleteEntry D rule s2)) =
      snd (ipa_nat_del_ipv4_rule D (nat_table_hdl s2) (rule_hdl (cache s ! i)) (drv s2))"
proof -
  have s1: "cache s1 = cache s" "pub_ip_addr_pre s1 = pub_ip_addr s"
    using assms(3) by (auto simp: DeleteTable_def NatApp_Reset_def Let_def split: if_splits prod.splits)
  then have "cache s2 = cache s"
    using assms(4,5) by (auto simp: AddTable_def Let_def split: if_splits prod.splits)
  then show ?thesis using assms(1,2) by (simp add: DeleteEntry_def Let_def clear_slot_def)
qed

lemma flush_slot_drops:
  assumes "2 ^ 16 \<le> pub_ip_addr s"
  shows "flush_slot D ip isAdd i s =
    (if private_ip (temp s ! i) = ip \<or> target_ip (temp s ! i) = ip
     then s\<lparr>temp := (temp s)[i := zero_entry]\<rparr> else s)"
proof -
  have "ucast p \<noteq> pub_ip_addr s" for p :: u16
  proof
    assume "ucast p = pub_ip_addr s"
    then have "unat (ucast p :: u32) = unat (pub_ip_addr s)" by simp
    then have "unat (pub_ip_addr s) = unat p" using unsigned_less [of p, where 'a = nat]
      by (simp add: unsigned_ucast_eq take_bit_nat_eq_self)
    moreover have "2 ^ 16 \<le> unat (pub_ip_addr s)" using assms by (simp add: word_le_nat_alt)
    ultimately show False using unsigned_less [of p, where 'a = nat] by simp
  qed
  then show ?thesis by (simp add: flush_slot_def Let_def)
qed

text \<open>
  \<open>public_ip\<close> keeps 16 bits of an address. If the public address needs more, as every unicast
  address does, no connection of an unknown client is ever added once the client is known:
  flushing drops them all, and touches neither the cache nor the driver.
\<close>

lemma nat_flush_drops:
  assumes "2 ^ 16 \<le> pub_ip_addr s"
  shows "FlushTempEntries D ip isAdd s =
    s\<lparr>temp := map (\<lambda>e. if private_ip e = ip \<or> target_ip e = ip then zero_entry else e) (temp s)\<rparr>"
proof -
  let ?g = "\<lambda>e. if private_ip e = ip \<or> target_ip e = ip then zero_entry else e"
  have "fold (flush_slot D ip isAdd) [0..<n] s =
      s\<lparr>temp := map ?g (take n (temp s)) @ drop n (temp s)\<rparr>" if "n \<le> length (temp s)" for n
    using that
  proof (induction n)
    case (Suc n)
    let ?s = "s\<lparr>temp := map ?g (take n (temp s)) @ drop n (temp s)\<rparr>"
    have nth: "temp ?s ! n = temp s ! n" using Suc.prems by (simp add: nth_append)
    have upd: "(map ?g (take n (temp s)) @ drop n (temp s))[n := x] =
        map ?g (take n (temp s)) @ x # drop (Suc n) (temp s)" for x
      using Suc.prems by (simp add: list_update_append flip: Cons_nth_drop_Suc)
    have "flush_slot D ip isAdd n ?s =
        s\<lparr>temp := map ?g (take n (temp s)) @ ?g (temp s ! n) # drop (Suc n) (temp s)\<rparr>"
      using upd Suc.prems assms nth flush_slot_drops [of ?s D ip isAdd n]
      by (auto simp flip: Cons_nth_drop_Suc)
    moreover have "map ?g (take n (temp s)) @ ?g (temp s ! n) # drop (Suc n) (temp s) =
        map ?g (take (Suc n) (temp s)) @ drop (Suc n) (temp s)"
      using Suc.prems by (simp add: take_Suc_conv_app_nth)
    ultimately show ?case using Suc by simp
  qed simp
  then show ?thesis by (simp add: FlushTempEntries_def)
qed

text \<open>
  \<open>CacheEntry\<close> searches from an index it never sets. For a new complete connection, an index
  outside the array is an access outside the cache; the index just past it leaves the connection
  out, silently; and only an index within it can cache it, in the first free slot from there.
\<close>

lemma nat_cache_entry:
  assumes "\<not> invalid_conn rule" "\<not> ChkForDup rule s"
  shows "(CacheEntry cnt0 rule s = None) = (cnt0 < 0 \<or> int (length (cache s)) < cnt0) \<and>
    CacheEntry (int (length (cache s))) rule s = Some s \<and>
    (0 \<le> cnt0 \<and> cnt0 \<le> int (length (cache s)) \<longrightarrow>
      (\<exists>s'. CacheEntry cnt0 rule s = Some s' \<and>
        (if \<exists>i < length (cache s). cnt0 \<le> int i \<and> free_slot (cache s ! i)
         then curCnt s' = curCnt s + 1 \<and> ChkForDup rule s' else s' = s)))"
proof -
  have none: "CacheEntry cnt0 rule s = None \<longleftrightarrow> cnt0 < 0 \<or> int (length (cache s)) < cnt0"
    using assms by (auto simp: CacheEntry_def Let_def split: option.splits)
  have last: "CacheEntry (int (length (cache s))) rule s = Some s"
    using assms by (simp add: CacheEntry_def)
  have within: "\<exists>s'. CacheEntry cnt0 rule s = Some s' \<and>
      (if \<exists>i < length (cache s). cnt0 \<le> int i \<and> free_slot (cache s ! i)
       then curCnt s' = curCnt s + 1 \<and> ChkForDup rule s' else s' = s)"
    if c: "0 \<le> cnt0" "cnt0 \<le> int (length (cache s))"
  proof (cases "first_index free_slot (drop (nat cnt0) (cache s))")
    case None
    have "\<not> free_slot (cache s ! i)" if "i < length (cache s)" "cnt0 \<le> int i" for i
    proof -
      have "cache s ! i \<in> set (drop (nat cnt0) (cache s))"
        using that c by (auto simp: in_set_conv_nth intro!: exI [of _ "i - nat cnt0"])
      then show ?thesis using None by (simp add: first_index_None)
    qed
    moreover have "CacheEntry cnt0 rule s = Some s" using None assms c by (simp add: CacheEntry_def)
    ultimately show ?thesis by auto
  next
    case (Some i)
    let ?j = "nat cnt0 + i"
    have j: "?j < length (cache s)" "free_slot (cache s ! ?j)" "cnt0 \<le> int ?j"
      using first_index_Some [OF Some] c by (auto simp: add.commute)
    let ?s = "(set_slot ?j (fill_slot rule ((cache s ! ?j)\<lparr>enabled := False, rule_hdl := 0\<rparr>)) s)
      \<lparr>curCnt := curCnt s + 1\<rparr>"
    have "CacheEntry cnt0 rule s = Some ?s" using Some assms c by (simp add: CacheEntry_def Let_def)
    moreover have "ChkForDup rule ?s"
      using set_update_memI [OF j(1)] by (simp add: ChkForDup_def first_index_None same_conn_iff)
        (metis fill_slot_conn)
    ultimately show ?thesis using j by auto
  qed
  show ?thesis using none last within by blast
qed

section \<open>Witnesses\<close>

lemma test_app_ok: "nat_ok test_app"
  by (simp add: nat_ok_def nat_test_defs conns_def slot_conn_def free_slot_def slot_ok_def)

lemma test_valid: "\<not> invalid_conn (test_conn 5000)"
  by (simp add: invalid_conn_def nat_test_defs)

definition test_ct :: conntrack where
  "test_ct = \<lparr>ATTR_STATUS = 16, ATTR_ORIG_L4PROTO = 17, ATTR_REPL_L4PROTO = 17,
    ATTR_ORIG_IPV4_SRC = 0x0500A8C0, ATTR_ORIG_IPV4_DST = 0x08080808,
    ATTR_REPL_IPV4_SRC = 0x08080808, ATTR_ORIG_PORT_SRC = 0x8813, ATTR_ORIG_PORT_DST = 0x3500,
    ATTR_REPL_PORT_SRC = 0x3500, ATTR_REPL_PORT_DST = 0xA00F, ATTR_TCP_STATE = 0\<rparr>"

text \<open>A client comes, the link goes up, and its first datagram is put into the hardware.\<close>

definition test_events :: "ct_event list" where
  "test_events = [EvtNeighAdd 0xC0A80005 True (Some ''rndis0''), EvtWanUp 0x0A000001 False,
     EvtConn 0 test_ct NFCT_T_NEW]"

definition test_init :: "u32 list nat_app option" where
  "test_init = NatApp_Init 2 [(6, 21)] 0 (replicate IPA_MAX_NUM_WIFI_CLIENTS 0) 0 0 []"


definition test_run :: "u32 list ct_listener option" where
  "test_run = (case test_init of
     None \<Rightarrow> None
   | Some app \<Rightarrow> ct_run log_drv test_events
       (ConntrackListener [''rndis0''] [(0xC0A80000, 0xFFFF0000)] 0 False app))"

lemma test_run_drv: "map_option (\<lambda>s. (drv (nat_inst s), curCnt (nat_inst s))) test_run = Some ([1], 1)"
  by code_simp

theorem nat_cache_invariant_witness:
  "\<exists>s. test_run = Some s \<and> drv (nat_inst s) = [1] \<and> curCnt (nat_inst s) = 1 \<and>
     length (cache (nat_inst s)) = 2 \<and> distinct (conns (nat_inst s)) \<and>
     list_all slot_ok (cache (nat_inst s))"
proof -
  obtain s where s: "test_run = Some s" "drv (nat_inst s) = [1]" "curCnt (nat_inst s) = 1"
    using test_run_drv by auto
  obtain app where app: "test_init = Some app" using s(1) by (auto simp: test_run_def split: option.splits)
  then have r: "ct_run log_drv test_events
      (ConntrackListener [''rndis0''] [(0xC0A80000, 0xFFFF0000)] 0 False app) = Some s"
    using s(1) unfolding test_run_def app option.case by blast
  note nat_cache_invariant [OF app [unfolded test_init_def], where D = log_drv and es = test_events
      and ifaces = "[''rndis0'']" and subnets = "[(0xC0A80000, 0xFFFF0000)]" and wan = 0 and sta = False]
  from this [unfolded r option.case] s show ?thesis by (intro exI [of _ s]) simp
qed

lemma list_ex_replicate: "list_ex P (replicate n x) = (n \<noteq> 0 \<and> P x)"
  by (induction n) auto

lemmas nat_test = nat_eval nat_test_defs list_ex_replicate

lemma test_add: "AddEntry log_drv (test_conn 5000) test_app = (0, snd (AddEntry log_drv (test_conn 5000) test_app))"
  by (simp add: nat_test)

theorem nat_cache_is_set_witness:
  "set (conns (snd (AddEntry log_drv (test_conn 5000) test_app))) =
     insert (0xC0A80005, 5000, 0x08080808, 53, 17) (set (conns test_app))"
  using nat_cache_is_set [OF test_app_ok test_valid test_add]
  by (simp add: conn_def test_conn_def zero_entry_def)

theorem nat_add_delete_witness:
  "drv (snd (DeleteEntry log_drv (test_conn 5000) (snd (AddEntry log_drv (test_conn 5000) test_app)))) = [] \<and>
   curCnt (snd (DeleteEntry log_drv (test_conn 5000) (snd (AddEntry log_drv (test_conn 5000) test_app)))) = 0"
proof -
  have "\<not> pwr_saved (test_conn 5000) test_app"
    by (simp add: pwr_saved_def nat_test)
  then show ?thesis using nat_add_delete [OF test_valid test_add]
    by (auto simp: log_drv_def test_app_def)
qed

text \<open>Two connections, of which the first is removed after the public address changed.\<close>

definition test_used :: "u32 list nat_app" where
  "test_used = snd (AddEntry log_drv (test_conn 5000) test_app)"

lemma nat_stale_handle_example:
  "drv (snd (DeleteEntry log_drv (test_conn 5000)
     (snd (AddTable log_drv 0x0A000002 (snd (DeleteTable log_drv 0x0A000001 test_used)))))) =
   snd (ipa_nat_del_ipv4_rule log_drv 1 1 [])"
proof -
  have i: "first_index (same_conn (test_conn 5000)) (cache test_used) = Some 0"
    and e: "enabled (cache test_used ! 0)" "rule_hdl (cache test_used ! 0) = 1"
    and p: "pub_ip_addr test_used = 0x0A000001"
    by (simp_all add: test_used_def nat_test)
  have d: "DeleteTable log_drv (pub_ip_addr test_used) test_used =
      (0, snd (DeleteTable log_drv 0x0A000001 test_used))"
    by (simp add: test_used_def nat_test)
  have a: "AddTable log_drv 0x0A000002 (snd (DeleteTable log_drv 0x0A000001 test_used)) =
      (0, snd (AddTable log_drv 0x0A000002 (snd (DeleteTable log_drv 0x0A000001 test_used))))"
    by (simp add: test_used_def nat_test)
  have hd: "nat_table_hdl (snd (AddTable log_drv 0x0A000002 (snd (DeleteTable log_drv 0x0A000001 test_used)))) = 1"
    "drv (snd (AddTable log_drv 0x0A000002 (snd (DeleteTable log_drv 0x0A000001 test_used)))) = []"
    by (simp_all add: test_used_def nat_test)
  have ne: "0x0A000002 \<noteq> pub_ip_addr test_used" by (simp add: p)
  show ?thesis using nat_stale_handle [OF i e(1) d ne a] unfolding hd e(2) by blast
qed

lemma nat_flush_drops_example:
  "cache (FlushTempEntries log_drv 0xC0A80005 True (AddTempEntry (test_conn 5000) test_app)) =
     cache test_app \<and>
   temp (FlushTempEntries log_drv 0xC0A80005 True (AddTempEntry (test_conn 5000) test_app)) =
     temp test_app"
proof -
  have "2 ^ 16 \<le> pub_ip_addr (AddTempEntry (test_conn 5000) test_app)"
    by (simp add: AddTempEntry_def test_app_def split: option.splits)
  from nat_flush_drops [OF this] show ?thesis
    by (simp add: AddTempEntry_def nat_test_defs numeral_eq_Suc)
qed

lemma nat_cache_entry_example:
  "CacheEntry 3 (test_conn 5000) test_app = None \<and> CacheEntry 2 (test_conn 5000) test_app = Some test_app \<and>
   (\<exists>s'. CacheEntry 1 (test_conn 5000) test_app = Some s' \<and> curCnt s' = 1)"
proof -
  have new: "\<not> ChkForDup (test_conn 5000) test_app"
    by (simp add: nat_test)
  have c: "length (cache test_app) = 2" "curCnt test_app = 0" "free_slot (cache test_app ! 1)"
    by (simp_all add: nat_test)
  have "\<exists>i < length (cache test_app). 1 \<le> int i \<and> free_slot (cache test_app ! i)"
    using c by (intro exI [of _ 1]) simp
  then show ?thesis
    using nat_cache_entry [OF test_valid new, of 3] nat_cache_entry [OF test_valid new, of 1] c
    by auto
qed

end
