(* ===== verification/NatArith.thy ===== *)
theory NatArith
  imports Prelude
begin

text \<open>
  The arithmetic of the NAT driver (\<open>data-ipa-cfg-mgr/ipanat/src/ipa_nat_drvi.c\<close>): table sizes,
  the hashes of the two lookups of the hardware, and the differences by which it corrects the
  checksums of the packets it translates.
\<close>

unbundle bit_operations_syntax

section \<open>Sizes\<close>

text \<open>The loop of \<open>GetNearest2Power\<close>; the result of the function is \<open>None\<close> for \<open>-EINVAL\<close>.\<close>

function nearest2_loop :: "u16 \<Rightarrow> u16 \<Rightarrow> u16 \<Rightarrow> u16" where
  "nearest2_loop number num tmp =
    (if num = 0 \<or> num = 1 then if number \<noteq> tmp then tmp * 2 else tmp
     else nearest2_loop number (drop_bit 1 num) (tmp * 2))"
  by pat_completeness auto
termination
proof (relation "measure (\<lambda>(_, num, _). unat num)")
  fix number num tmp :: u16
  assume "\<not> (num = 0 \<or> num = 1)"
  then have "0 < unat num" by (simp add: unat_gt_0)
  then have "unat num div 2 < unat num" by simp
  then show "((number, drop_bit 1 num, tmp * 2), number, num, tmp)
      \<in> measure (\<lambda>(_, num, _). unat num)"
    by (simp add: drop_bit_eq_div unat_div_distrib)
qed simp

declare nearest2_loop.simps [simp del]

definition GetNearest2Power :: "u16 \<Rightarrow> u16 option" where
  "GetNearest2Power num =
    (if num = 0 then None else if num = 1 then Some 2 else Some (nearest2_loop num num 1))"

definition GetNearestEven :: "u16 \<Rightarrow> u16" where
  "GetNearestEven num = (if num < 2 then 2 else if num mod 2 \<noteq> 0 then num + 1 else num)"

text \<open>
  The sizes of the base and the expansion table. The code multiplies with the doubles \<open>.8\<close> and
  \<open>.2\<close> and truncates, which for a 16-bit number is the division below.
\<close>

definition table_sizes :: "u16 \<Rightarrow> (u16 \<times> u16) option" where
  "table_sizes number_of_entries =
    (let t = of_nat (unat number_of_entries * 4 div 5) :: u16;
         t = (if t = 0 then 1 else t);
         x = of_nat (unat number_of_entries div 5) :: u16
     in case GetNearest2Power t of
          None \<Rightarrow> None
        | Some t \<Rightarrow> Some (t, GetNearestEven x))"

section \<open>Hashes\<close>

definition dst_hash :: "u32 \<Rightarrow> u16 \<Rightarrow> u16 \<Rightarrow> u8 \<Rightarrow> u16 \<Rightarrow> u16" where
  "dst_hash trgt_ip trgt_port public_port proto sz =
    (let hash = ucast trgt_ip XOR ucast (drop_bit 16 trgt_ip) XOR trgt_port XOR public_port XOR
           ucast proto;
         hash = hash AND sz
     in if 0 = hash then sz else hash)"

definition src_hash :: "u32 \<Rightarrow> u16 \<Rightarrow> u32 \<Rightarrow> u16 \<Rightarrow> u8 \<Rightarrow> u16 \<Rightarrow> u16" where
  "src_hash priv_ip priv_port trgt_ip trgt_port proto sz =
    (let hash = ucast priv_ip XOR ucast (drop_bit 16 priv_ip) XOR priv_port XOR
           ucast trgt_ip XOR ucast (drop_bit 16 trgt_ip) XOR trgt_port XOR ucast proto;
         hash = hash AND sz
     in if 0 = hash then sz else hash)"

section \<open>Checksums\<close>

text \<open>The carry is folded back after each addition.\<close>

definition fold_carry :: "u32 \<Rightarrow> u32" where
  "fold_carry cksum = (if drop_bit 16 cksum \<noteq> 0 then (cksum AND 0xFFFF) + 1 else cksum)"

definition ipa_nati_calc_ip_cksum :: "u32 \<Rightarrow> u32 \<Rightarrow> u16" where
  "ipa_nati_calc_ip_cksum pub_ip_addr priv_ip_addr =
    (let cksum = pub_ip_addr AND 0xFFFF;
         cksum = fold_carry (cksum + drop_bit 16 pub_ip_addr);
         priv_ip_addr = NOT priv_ip_addr;
         cksum = fold_carry (cksum + (priv_ip_addr AND 0xFFFF));
         cksum = fold_carry (cksum + drop_bit 16 priv_ip_addr)
     in ucast cksum)"

definition ipa_nati_calc_tcp_udp_cksum :: "u32 \<Rightarrow> u16 \<Rightarrow> u32 \<Rightarrow> u16 \<Rightarrow> u16" where
  "ipa_nati_calc_tcp_udp_cksum pub_ip_addr pub_port priv_ip_addr priv_port =
    (let cksum = pub_ip_addr AND 0xFFFF;
         cksum = fold_carry (cksum + drop_bit 16 pub_ip_addr);
         cksum = fold_carry (cksum + ucast pub_port);
         priv_ip_addr = NOT priv_ip_addr;
         cksum = fold_carry (cksum + (priv_ip_addr AND 0xFFFF));
         cksum = fold_carry (cksum + drop_bit 16 priv_ip_addr);
         priv_port = NOT priv_port;
         cksum = fold_carry (cksum + ucast priv_port)
     in ucast cksum)"

section \<open>Halves of a word\<close>

abbreviation lo16 :: "u32 \<Rightarrow> u16" where "lo16 w \<equiv> ucast w"
abbreviation hi16 :: "u32 \<Rightarrow> u16" where "hi16 w \<equiv> ucast (drop_bit 16 w)"

section \<open>Lemmas\<close>

lemma dst_hash_range:
  assumes "sz \<noteq> 0"
  shows "dst_hash ip p q pr sz \<noteq> 0" "dst_hash ip p q pr sz \<le> sz"
  using assms by (auto simp: dst_hash_def Let_def word_and_le1 word_and_le2)

lemma src_hash_range:
  assumes "sz \<noteq> 0"
  shows "src_hash a p b q pr sz \<noteq> 0" "src_hash a p b q pr sz \<le> sz"
  using assms by (auto simp: src_hash_def Let_def word_and_le1 word_and_le2)

text \<open>The loop doubles once per bit below the highest.\<close>

lemma nearest2_loop_bits:
  "num \<noteq> 0 \<Longrightarrow> \<exists>k. 2 ^ k \<le> unat num \<and> unat num < 2 ^ Suc k \<and>
     nearest2_loop number num tmp =
       (if number \<noteq> tmp * 2 ^ k then tmp * 2 ^ k * 2 else tmp * 2 ^ k)"
proof (induction number num tmp rule: nearest2_loop.induct)
  case (1 number num tmp)
  show ?case
  proof (cases "num = 1")
    case True
    then show ?thesis by (intro exI [of _ 0]) (simp add: nearest2_loop.simps)
  next
    case False
    have half: "unat (drop_bit 1 num) = unat num div 2"
      by (simp add: drop_bit_eq_div unat_div_distrib)
    have "unat num \<noteq> 0" "unat num \<noteq> 1" using 1(2) False by (simp_all add: word_unat_eq_iff)
    then have "drop_bit 1 num \<noteq> 0" using half by (auto simp: unat_eq_zero [symmetric])
    with 1 False obtain k where k: "2 ^ k \<le> unat num div 2" "unat num div 2 < 2 ^ Suc k"
      "nearest2_loop number (drop_bit 1 num) (tmp * 2) =
        (if number \<noteq> tmp * 2 * 2 ^ k then tmp * 2 * 2 ^ k * 2 else tmp * 2 * 2 ^ k)"
      using half by auto
    have "2 ^ Suc k \<le> unat num" "unat num < 2 ^ Suc (Suc k)" using k(1,2) by simp_all
    then show ?thesis using k(3) 1(2) False
      by (intro exI [of _ "Suc k"]) (simp add: nearest2_loop.simps [of number num] ac_simps)
  qed
qed

lemma unat_pow2_u16: "k < 16 \<Longrightarrow> unat (2 ^ k :: u16) = 2 ^ k"
proof -
  assume "k < 16"
  then have "(2::nat) ^ k < 2 ^ 16" by (intro power_strict_increasing) simp_all
  then show ?thesis by (simp add: unat_of_nat [of "2 ^ k", where 'a = 16, simplified])
qed

lemma GetNearest2Power_spec:
  assumes "2 \<le> unat n" "unat n \<le> 2 ^ 15"
  shows "\<exists>k < 16. GetNearest2Power n = Some (2 ^ k) \<and> 1 \<le> k \<and> unat n \<le> 2 ^ k \<and> 2 ^ k < 2 * unat n"
proof -
  have n: "n \<noteq> 0" "n \<noteq> 1" using assms(1) by auto
  obtain k where k: "2 ^ k \<le> unat n" "unat n < 2 ^ Suc k"
    "nearest2_loop n n 1 = (if n \<noteq> 2 ^ k then 2 ^ k * 2 else 2 ^ k)"
    using nearest2_loop_bits [OF n(1), of n 1] by auto
  have "k \<le> 15" using k(1) assms(2) power_le_imp_le_exp [of "2::nat" k 15] by auto
  have e: "n = 2 ^ k \<longleftrightarrow> unat n = 2 ^ k"
    using unat_pow2_u16 [of k] \<open>k \<le> 15\<close> by (auto simp: word_unat_eq_iff)
  show ?thesis
  proof (cases "unat n = 2 ^ k")
    case True
    then have "1 \<le> k" using assms(1) by (cases k) auto
    then show ?thesis using True e k n \<open>k \<le> 15\<close> by (intro exI [of _ k]) (simp add: GetNearest2Power_def)
  next
    case False
    then have "k \<noteq> 15" using k(1) assms(2) by auto
    then show ?thesis using False e k n \<open>k \<le> 15\<close>
      by (intro exI [of _ "Suc k"]) (simp add: GetNearest2Power_def ac_simps)
  qed
qed

lemma GetNearest2Power_over: "2 ^ 15 < unat n \<Longrightarrow> GetNearest2Power n = Some 0"
proof -
  assume n: "2 ^ 15 < unat n"
  then have n0: "n \<noteq> 0" "n \<noteq> 1" by auto
  obtain k where k: "2 ^ k \<le> unat n" "unat n < 2 ^ Suc k"
    "nearest2_loop n n 1 = (if n \<noteq> 2 ^ k then 2 ^ k * 2 else 2 ^ k)"
    using nearest2_loop_bits [OF n0(1), of n 1] by auto
  have "(2::nat) ^ 15 < 2 ^ Suc k" using n k(2) by linarith
  then have "15 < Suc k" using power_less_imp_less_exp [of "2::nat" 15 "Suc k"] by simp
  moreover have "(2::nat) ^ k < 2 ^ 16" using k(1) unsigned_less [of n, where 'a = nat] by simp
  then have "k < 16" using power_less_imp_less_exp [of "2::nat" k 16] by simp
  ultimately have "k = 15" by simp
  moreover have "n \<noteq> 2 ^ 15" using n by auto
  ultimately show ?thesis using k(3) n0 by (simp add: GetNearest2Power_def)
qed

section \<open>Checksums modulo \<open>2 ^ 16 - 1\<close>\<close>

lemma uint_halves:
  "uint (w AND 0xFFFF :: u32) = uint w mod 65536" "uint (drop_bit 16 w :: u32) = uint w div 65536"
proof -
  have "uint (w AND 0xFFFF) = uint w AND 0xFFFF" by (simp add: unsigned_and_eq)
  also have "\<dots> = uint w mod 65536"
    using take_bit_eq_mask [of 16 "uint w"] by (simp add: take_bit_eq_mod mask_eq_exp_minus_1)
  finally show "uint (w AND 0xFFFF) = uint w mod 65536" .
  show "uint (drop_bit 16 w) = uint w div 65536"
    by (simp add: drop_bit_eq_div uint_div_distrib)
qed

lemma no_carry: "drop_bit 16 w = (0 :: u32) \<longleftrightarrow> uint w < 65536"
proof -
  have "drop_bit 16 w = 0 \<longleftrightarrow> uint (drop_bit 16 w) = 0" by (simp only: uint_0_iff)
  also have "\<dots> \<longleftrightarrow> uint w < 65536" by (simp only: uint_halves) (auto simp: zdiv_eq_0_iff)
  finally show ?thesis .
qed

lemma fold_carry_step:
  assumes "uint c < 65536" "uint x < 65536"
  shows "uint (fold_carry (c + x)) < 65536 \<and>
    uint (fold_carry (c + x)) mod 65535 = (uint c + uint x) mod 65535"
proof -
  define n where "n = uint c + uint x"
  have n: "0 \<le> n" "n < 131071" "uint (c + x) = n"
    using assms by (simp_all add: n_def uint_plus_if')
  show ?thesis
  proof (cases "n < 65536")
    case True
    then have "fold_carry (c + x) = c + x" using n no_carry [of "c + x"] by (simp add: fold_carry_def)
    then show ?thesis using True n by (simp add: n_def)
  next
    case False
    then have f: "fold_carry (c + x) = ((c + x) AND 0xFFFF) + 1"
      using n no_carry [of "c + x"] by (simp add: fold_carry_def)
    have m: "uint ((c + x) AND 0xFFFF) = n - 65536"
    proof -
      have "n mod 65536 = (n - 65536) mod 65536" by (rule sym) (rule minus_mod_self2)
      also have "\<dots> = n - 65536" using n False by (intro mod_pos_pos_trivial) linarith+
      finally show ?thesis by (simp only: uint_halves n(3))
    qed
    have "uint (fold_carry (c + x)) = n - 65535"
      using m n False by (simp add: f uint_plus_if')
    moreover have "(n - 65535) mod 65535 = n mod 65535" by (rule minus_mod_self2)
    ultimately show ?thesis using n by (simp add: n_def)
  qed
qed

lemma uint_not: "uint (NOT w) = 2 ^ LENGTH('a) - 1 - uint w" for w :: "'a::len word"
proof -
  have u: "0 \<le> uint w" "uint w < 2 ^ LENGTH('a)" by simp_all
  have "uint (NOT w) = (- uint w - 1) mod 2 ^ LENGTH('a)"
    by (simp add: unsigned_not_eq take_bit_eq_mod not_int_def)
  also have "\<dots> = (- uint w - 1 + 2 ^ LENGTH('a)) mod 2 ^ LENGTH('a)" by (rule mod_add_self2 [symmetric])
  also have "\<dots> = - uint w - 1 + 2 ^ LENGTH('a)" using u by (intro mod_pos_pos_trivial) linarith+
  finally show ?thesis by linarith
qed

text \<open>A running checksum stands for a sum modulo \<open>2 ^ 16 - 1\<close>.\<close>

definition sums_to :: "u32 \<Rightarrow> int \<Rightarrow> bool" where
  "sums_to c n \<longleftrightarrow> uint c < 65536 \<and> uint c mod 65535 = n mod 65535"

lemma sums_to_add:
  assumes "sums_to c n" "uint x < 65536"
  shows "sums_to (fold_carry (c + x)) (n + uint x)"
proof -
  have c: "uint c < 65536" "uint c mod 65535 = n mod 65535" using assms(1) by (simp_all add: sums_to_def)
  have "(uint c + uint x) mod 65535 = (n + uint x) mod 65535"
    using mod_add_cong [OF c(2) refl] .
  with fold_carry_step [OF c(1) assms(2)] show ?thesis by (simp add: sums_to_def)
qed

lemma halves_small: "uint (w AND 0xFFFF :: u32) < 65536" "uint (drop_bit 16 w :: u32) < 65536"
proof -
  show "uint (w AND 0xFFFF) < 65536" by (simp add: uint_halves)
  have "uint w < 65536 * 65536" using unsigned_less [of w, where 'a = int] by simp
  then show "uint (drop_bit 16 w) < 65536" by (simp only: uint_halves)
qed

lemma uint_u16_less: "uint (x :: u16) < 65536"
  using unsigned_less [of x, where 'a = int] by simp

lemma uint_ucast_u16: "uint (ucast (x :: u16) :: u32) = uint x"
  using uint_u16_less [of x] by (simp add: unsigned_ucast_eq take_bit_int_eq_self_iff)

lemma sums_to_word:
  "sums_to (w AND 0xFFFF) (uint w mod 65536)"
  "sums_to c n \<Longrightarrow> sums_to (fold_carry (fold_carry (c + (w AND 0xFFFF)) + drop_bit 16 w))
     (n + uint w mod 65536 + uint w div 65536)"
  using sums_to_add [OF sums_to_add [OF _ halves_small(1)] halves_small(2), of c n w w] halves_small(1)
  by (simp_all add: sums_to_def uint_halves)

lemma sums_to_result: "sums_to c n \<Longrightarrow> uint (ucast c :: u16) mod 65535 = n mod 65535"
  by (simp add: sums_to_def unsigned_ucast_eq take_bit_int_eq_self)

lemma halves_sum: "\<exists>k. w mod 65536 + w div 65536 = w - 65535 * k" for w :: int
proof
  show "w mod 65536 + w div 65536 = w - 65535 * (w div 65536)"
    using mult_div_mod_eq [of 65536 w] by linarith
qed

lemma cancel_multiple: "a = b + 65535 * k \<Longrightarrow> a mod 65535 = b mod 65535" for a :: int
  by simp

lemma cksum_sum:
  fixes a b c d x y p q Q r R j k :: int
  assumes "a + b = p - 65535 * j" "c + d = Q - 65535 * k" "Q = 65535 * 65537 - q"
  shows "(a + b + c + d) mod 65535 = (p - q) mod 65535"
    and "R = 65535 - r \<Longrightarrow> (a + b + x + c + d + R) mod 65535 = (p + x - (q + r)) mod 65535"
proof -
  have "a + b + c + d = p - q + 65535 * (65537 - j - k)" using assms by (simp add: algebra_simps)
  then show "(a + b + c + d) mod 65535 = (p - q) mod 65535" by (rule cancel_multiple)
  assume "R = 65535 - r"
  then have "a + b + x + c + d + R = p + x - (q + r) + 65535 * (65538 - j - k)" using assms by (simp add: algebra_simps)
  then show "(a + b + x + c + d + R) mod 65535 = (p + x - (q + r)) mod 65535" by (rule cancel_multiple)
qed

lemma ip_cksum_diff:
  "uint (ipa_nati_calc_ip_cksum pub priv) mod 65535 = (uint pub - uint priv) mod 65535"
proof -
  let ?q = "NOT priv"
  have "sums_to (fold_carry ((pub AND 0xFFFF) + drop_bit 16 pub)) (uint pub mod 65536 + uint pub div 65536)"
    using sums_to_add [OF sums_to_word(1) halves_small(2), of pub pub] by (simp add: uint_halves)
  from sums_to_result [OF sums_to_word(2) [OF this, of ?q]]
  have "uint (ipa_nati_calc_ip_cksum pub priv) mod 65535 =
      (uint pub mod 65536 + uint pub div 65536 + uint ?q mod 65536 + uint ?q div 65536) mod 65535"
    by (simp only: ipa_nati_calc_ip_cksum_def Let_def)
  also have "\<dots> = (uint pub - uint priv) mod 65535"
  proof -
    obtain j k where "uint pub mod 65536 + uint pub div 65536 = uint pub - 65535 * j"
      "uint ?q mod 65536 + uint ?q div 65536 = uint ?q - 65535 * k" using halves_sum by meson
    moreover have "uint ?q = 65535 * 65537 - uint priv" by (simp add: uint_not)
    ultimately show ?thesis by (rule cksum_sum(1))
  qed
  finally show ?thesis .
qed

lemma tcp_udp_cksum_diff:
  "uint (ipa_nati_calc_tcp_udp_cksum pub pubport priv privport) mod 65535 =
     (uint pub + uint pubport - (uint priv + uint privport)) mod 65535"
proof -
  let ?q = "NOT priv" and ?r = "NOT privport"
  have "sums_to (fold_carry ((pub AND 0xFFFF) + drop_bit 16 pub)) (uint pub mod 65536 + uint pub div 65536)"
    using sums_to_add [OF sums_to_word(1) halves_small(2), of pub pub] by (simp add: uint_halves)
  from sums_to_add [OF this, of "ucast pubport"]
  have "sums_to (fold_carry (fold_carry ((pub AND 0xFFFF) + drop_bit 16 pub) + ucast pubport))
      (uint pub mod 65536 + uint pub div 65536 + uint pubport)"
    using uint_u16_less [of pubport] by (simp only: uint_ucast_u16)
  note sum = sums_to_add [OF sums_to_word(2) [OF this, of ?q], of "ucast ?r",
    unfolded uint_ucast_u16, OF uint_u16_less]
  have "uint (ipa_nati_calc_tcp_udp_cksum pub pubport priv privport) mod 65535 =
      (uint pub mod 65536 + uint pub div 65536 + uint pubport + uint ?q mod 65536 + uint ?q div 65536 +
       uint ?r) mod 65535"
    unfolding ipa_nati_calc_tcp_udp_cksum_def Let_def by (rule sums_to_result [OF sum])
  also have "\<dots> = (uint pub + uint pubport - (uint priv + uint privport)) mod 65535"
  proof -
    obtain j k where "uint pub mod 65536 + uint pub div 65536 = uint pub - 65535 * j"
      "uint ?q mod 65536 + uint ?q div 65536 = uint ?q - 65535 * k" using halves_sum by meson
    moreover have "uint ?q = 65535 * 65537 - uint priv" "uint ?r = 65535 - uint privport"
      by (simp_all add: uint_not)
    ultimately show ?thesis by (rule cksum_sum(2))
  qed
  finally show ?thesis .
qed

end
