(* ===== verification/NatDrv.thy ===== *)
theory NatDrv
  imports NatArith
begin

text \<open>
  The NAT driver (\<open>data-ipa-cfg-mgr/ipanat/src/ipa_nat_drv.c\<close> and \<open>ipa_nat_drvi.c\<close>): the tables by
  which the hardware translates packets. A rule is found by two hash tables with chaining: the
  rules themselves, hashed by destination, in a base table with an expansion table for
  collisions; and an index of them, hashed by source, of the same shape. The tables are memory
  shared with the hardware, which the driver writes itself or has the hardware write (DMA).

  The kernel is the parameter \<open>K\<close>. A result \<open>None\<close> is an access outside the arrays, or a loop that
  does not end. The dumps of \<open>NAT_DUMP\<close> only print.
\<close>

section \<open>Data\<close>

datatype nat_table_type = IPA_NAT_BASE_TBL | IPA_NAT_EXPN_TBL | IPA_NAT_INDX_TBL | IPA_NAT_INDEX_EXPN_TBL

datatype field_type =
    NEXT_INDEX_FIELD | PUBLIC_PORT_FILED | PRIVATE_PORT_FIELD | TARGET_PORT_FIELD | IP_CHKSUM_FIELD
  | ENABLE_FIELD | TIME_STAMP_FIELD | PROTOCOL_FIELD | TCP_UDP_CHKSUM_FIELD
  | SW_SPEC_PARAM_PREV_INDEX_FIELD | SW_SPEC_PARAM_INDX_TBL_ENTRY_FIELD
  | INDX_TBL_TBL_ENTRY_FIELD | INDX_TBL_NEXT_INDEX_FILED

text \<open>\<open>struct ipa_nat_rule\<close>, the rule as the hardware sees it, and the same with its fields apart.\<close>

record hw_rule =
  hw_private_ip :: u32
  hw_target_ip :: u32
  nxt_indx_pub_port :: u32
  hw_private_port :: u16
  hw_target_port :: u16
  ip_cksm_enbl :: u32
  ts_proto :: u32
  sw_spec_params :: u32
  hw_rsvd2 :: u16
  hw_tcp_udp_chksum :: u16

record sw_rule =
  sw_private_ip :: u32
  sw_target_ip :: u32
  next_index :: u16
  sw_public_port :: u16
  sw_private_port :: u16
  sw_target_port :: u16
  ip_chksum :: u16
  rsvd1 :: "14 word"
  redirect :: bool
  enable :: bool
  time_stamp :: "24 word"
  sw_protocol :: u8
  prev_index :: u16
  indx_tbl_entry :: u16
  rsvd2 :: u16
  tcp_udp_chksum :: u16

record indx_sw_rule =
  indx_tbl_ent :: u16
  indx_next :: u16
  indx_prev :: u16

record nat_mem =
  base_rules :: "hw_rule list"
  expn_rules :: "hw_rule list"
  index_table :: "u32 list"
  index_expn :: "u32 list"

record nat_tbl =
  valid :: bool
  public_addr :: u32
  tbl_addr_offset :: u32
  tables :: nat_mem
  table_entries :: u16
  expn_table_entries :: u16
  index_expn_meta :: "u16 list"
  rule_id_array :: "u16 list"

record nat_dma_one =
  dma_table_index :: u8
  dma_base_addr :: nat_table_type
  dma_offset :: u32
  dma_data :: u16

record 'k nat_drv =
  ip4_tbl :: nat_tbl
  table_cnt :: u8
  ipa_fd_open :: bool
  kern :: 'k

record 'k nat_kernel =
  k_malloc :: "'k \<Rightarrow> bool \<times> 'k"
  k_open_ipa :: "'k \<Rightarrow> bool \<times> 'k"
  k_alloc_nat_mem :: "int \<Rightarrow> 'k \<Rightarrow> (u32 option) \<times> 'k"
  k_open_nat :: "'k \<Rightarrow> bool \<times> 'k"
  k_mmap :: "'k \<Rightarrow> bool \<times> 'k"
  k_init_nat :: "u32 list \<Rightarrow> 'k \<Rightarrow> bool \<times> 'k"
  k_close_nat :: "'k \<Rightarrow> bool \<times> 'k"
  k_del_nat :: "u32 \<Rightarrow> 'k \<Rightarrow> bool \<times> 'k"
  k_dma :: "nat_dma_one list \<Rightarrow> nat_mem \<Rightarrow> 'k \<Rightarrow> bool \<times> nat_mem \<times> 'k"

definition EINVAL :: int32 where "EINVAL = 22"
definition EIO :: int32 where "EIO = 5"
definition ENOMEM :: int32 where "ENOMEM = 12"

definition zero_rule :: hw_rule where
  "zero_rule =
    \<lparr>hw_private_ip = 0, hw_target_ip = 0, nxt_indx_pub_port = 0, hw_private_port = 0,
     hw_target_port = 0, ip_cksm_enbl = 0, ts_proto = 0, sw_spec_params = 0, hw_rsvd2 = 0,
     hw_tcp_udp_chksum = 0\<rparr>"

definition no_tbl :: nat_tbl where
  "no_tbl =
    \<lparr>valid = False, public_addr = 0, tbl_addr_offset = 0,
     tables = \<lparr>base_rules = [], expn_rules = [], index_table = [], index_expn = []\<rparr>,
     table_entries = 0, expn_table_entries = 0, index_expn_meta = [], rule_id_array = []\<rparr>"

text \<open>Reading and writing an array.\<close>

definition rd :: "'a list \<Rightarrow> nat \<Rightarrow> 'a option" where
  "rd xs i = (if i < length xs then Some (xs ! i) else None)"

definition wr :: "'a list \<Rightarrow> nat \<Rightarrow> 'a \<Rightarrow> 'a list option" where
  "wr xs i x = (if i < length xs then Some (xs[i := x]) else None)"

text \<open>\<open>ip4_tbl[tbl_index]\<close>: there is one table.\<close>

definition get_tbl :: "u8 \<Rightarrow> 'k nat_drv \<Rightarrow> nat_tbl option" where
  "get_tbl tbl_index s = (if tbl_index = 0 then Some (ip4_tbl s) else None)"

section \<open>Fields\<close>

fun Read8BitFieldValue :: "u32 \<Rightarrow> field_type \<Rightarrow> u8" where
  "Read8BitFieldValue param PROTOCOL_FIELD = ucast (drop_bit 24 param)"
| "Read8BitFieldValue param _ = 0"

fun Read16BitFieldValue :: "u32 \<Rightarrow> field_type \<Rightarrow> u16" where
  "Read16BitFieldValue param NEXT_INDEX_FIELD = lo16 param"
| "Read16BitFieldValue param PUBLIC_PORT_FILED = hi16 param"
| "Read16BitFieldValue param ENABLE_FIELD = ucast (drop_bit 31 param)"
| "Read16BitFieldValue param SW_SPEC_PARAM_PREV_INDEX_FIELD = lo16 param"
| "Read16BitFieldValue param SW_SPEC_PARAM_INDX_TBL_ENTRY_FIELD = hi16 param"
| "Read16BitFieldValue param INDX_TBL_TBL_ENTRY_FIELD = lo16 param"
| "Read16BitFieldValue param INDX_TBL_NEXT_INDEX_FILED = hi16 param"
| "Read16BitFieldValue param IP_CHKSUM_FIELD = lo16 param"
| "Read16BitFieldValue param _ = 0"

fun Read32BitFieldValue :: "u32 \<Rightarrow> field_type \<Rightarrow> u32" where
  "Read32BitFieldValue param TIME_STAMP_FIELD = param AND 0xFFFFFF"
| "Read32BitFieldValue param _ = 0"

datatype sw_param = IPA_NAT_SW_PARAM_PREV_INDX_BYTE | IPA_NAT_SW_PARAM_INDX_TBL_ENTRY_BYTE

definition UpdateSwSpecParams :: "sw_param \<Rightarrow> u32 \<Rightarrow> hw_rule \<Rightarrow> hw_rule" where
  "UpdateSwSpecParams param_type v r =
    (let temp = sw_spec_params r
     in if param_type = IPA_NAT_SW_PARAM_INDX_TBL_ENTRY_BYTE
        then r\<lparr>sw_spec_params := (temp AND 0xFFFF) OR push_bit 16 v\<rparr>
        else r\<lparr>sw_spec_params := (temp AND 0xFFFF0000) OR v\<rparr>)"

text \<open>The copy of a rule with its fields apart into the table: the same bytes.\<close>

definition word_of :: "u16 \<Rightarrow> u16 \<Rightarrow> u32" where
  "word_of lo hi = ucast lo OR push_bit 16 (ucast hi)"

definition hw_rule_of :: "sw_rule \<Rightarrow> hw_rule" where
  "hw_rule_of r =
    \<lparr>hw_private_ip = sw_private_ip r, hw_target_ip = sw_target_ip r,
     nxt_indx_pub_port = word_of (next_index r) (sw_public_port r),
     hw_private_port = sw_private_port r, hw_target_port = sw_target_port r,
     ip_cksm_enbl = ucast (ip_chksum r) OR push_bit 16 (ucast (rsvd1 r)) OR
       push_bit 30 (of_bool (redirect r)) OR push_bit 31 (of_bool (enable r)),
     ts_proto = ucast (time_stamp r) OR push_bit 24 (ucast (sw_protocol r)),
     sw_spec_params = word_of (prev_index r) (indx_tbl_entry r),
     hw_rsvd2 = rsvd2 r, hw_tcp_udp_chksum = tcp_udp_chksum r\<rparr>"

abbreviation rule_next :: "hw_rule \<Rightarrow> u16" where
  "rule_next r \<equiv> Read16BitFieldValue (nxt_indx_pub_port r) NEXT_INDEX_FIELD"

abbreviation rule_enabled :: "hw_rule \<Rightarrow> bool" where
  "rule_enabled r \<equiv> Read16BitFieldValue (ip_cksm_enbl r) ENABLE_FIELD \<noteq> 0"

abbreviation rule_prev :: "hw_rule \<Rightarrow> u16" where
  "rule_prev r \<equiv> Read16BitFieldValue (sw_spec_params r) SW_SPEC_PARAM_PREV_INDEX_FIELD"

abbreviation rule_indx :: "hw_rule \<Rightarrow> u16" where
  "rule_indx r \<equiv> Read16BitFieldValue (sw_spec_params r) SW_SPEC_PARAM_INDX_TBL_ENTRY_FIELD"

abbreviation indx_entry :: "u32 \<Rightarrow> u16" where
  "indx_entry w \<equiv> Read16BitFieldValue w INDX_TBL_TBL_ENTRY_FIELD"

abbreviation indx_nxt :: "u32 \<Rightarrow> u16" where
  "indx_nxt w \<equiv> Read16BitFieldValue w INDX_TBL_NEXT_INDEX_FILED"

section \<open>Handles and offsets\<close>

text \<open>The handle is one more than the first free place of \<open>rule_id_array\<close>; 0 if there is none.\<close>

fun claim_id :: "u16 \<Rightarrow> u16 list \<Rightarrow> nat list \<Rightarrow> (u16 \<times> u16 list) option" where
  "claim_id rule_id ids [] = Some (0, ids)"
| "claim_id rule_id ids (cnt # cnts) =
    (case rd ids cnt of
       None \<Rightarrow> None
     | Some x \<Rightarrow>
         if x = 0 then map_option (\<lambda>ids. (of_nat cnt + 1, ids)) (wr ids cnt rule_id)
         else claim_id rule_id ids cnts)"

definition all_entries :: "nat_tbl \<Rightarrow> nat" where
  "all_entries t = unat (table_entries t) + unat (expn_table_entries t)"

definition make_rule_id :: "nat_tbl \<Rightarrow> u16 \<Rightarrow> u16" where
  "make_rule_id t tbl_entry =
    (if tbl_entry \<ge> table_entries t then push_bit 1 (tbl_entry - table_entries t) OR 1
     else push_bit 1 tbl_entry)"

definition ipa_nati_make_rule_hdl :: "nat_tbl \<Rightarrow> u16 \<Rightarrow> (u16 \<times> nat_tbl) option" where
  "ipa_nati_make_rule_hdl t tbl_entry =
    map_option (\<lambda>(hdl, ids). (hdl, t\<lparr>rule_id_array := ids\<rparr>))
      (claim_id (make_rule_id t tbl_entry) (rule_id_array t) [0..<all_entries t])"

text \<open>The table, \<open>True\<close> for the expansion table, and the entry. \<open>rule_hdl\<close> 0 reads before the array.\<close>

definition ipa_nati_parse_ipv4_rule_hdl :: "nat_tbl \<Rightarrow> u16 \<Rightarrow> (bool \<times> u16) option" where
  "ipa_nati_parse_ipv4_rule_hdl t rule_hdl =
    (if unat rule_hdl \<ge> all_entries t then Some (False, 0)
     else if rule_hdl = 0 then None
     else
       map_option (\<lambda>rule_id. (rule_id AND 1 \<noteq> 0, drop_bit 1 rule_id))
         (rd (rule_id_array t) (unat rule_hdl - 1)))"

definition ipa_nati_get_entry_offset :: "nat_tbl \<Rightarrow> u16 \<Rightarrow> u32" where
  "ipa_nati_get_entry_offset t tbl_entry = ucast tbl_entry * 32 + tbl_addr_offset t"

definition ipa_nati_get_index_entry_offset :: "nat_tbl \<Rightarrow> u16 \<Rightarrow> u32" where
  "ipa_nati_get_index_entry_offset t e = ucast e * 4 + tbl_addr_offset t"

definition IPA_NAT_RULE_FLAG_FIELD_OFFSET :: u32 where "IPA_NAT_RULE_FLAG_FIELD_OFFSET = 18"
definition IPA_NAT_RULE_NEXT_FIELD_OFFSET :: u32 where "IPA_NAT_RULE_NEXT_FIELD_OFFSET = 8"
definition IPA_NAT_RULE_PROTO_FIELD_OFFSET :: u32 where "IPA_NAT_RULE_PROTO_FIELD_OFFSET = 22"
definition IPA_NAT_INDEX_RULE_NEXT_FIELD_OFFSET :: u32 where "IPA_NAT_INDEX_RULE_NEXT_FIELD_OFFSET = 2"
definition IPA_NAT_INDEX_RULE_NAT_INDEX_FIELD_OFFSET :: u32 where
  "IPA_NAT_INDEX_RULE_NAT_INDEX_FIELD_OFFSET = 0"
definition IPA_NAT_FLAG_ENABLE_BIT_MASK :: u16 where "IPA_NAT_FLAG_ENABLE_BIT_MASK = 0x8000"
definition IPA_NAT_FLAG_DISABLE_BIT_MASK :: u16 where "IPA_NAT_FLAG_DISABLE_BIT_MASK = 0"
definition IPA_NAT_INVALID_PROTO_FIELD_VALUE :: u16 where "IPA_NAT_INVALID_PROTO_FIELD_VALUE = 0xFF00"
definition IPA_NAT_INVALID_PROTO_FIELD_CMP :: u8 where "IPA_NAT_INVALID_PROTO_FIELD_CMP = 0xFF"

section \<open>Where a new rule goes\<close>

text \<open>
  The loop to the end of a chain: the last entry, or \<open>Some None\<close> when an entry is its own
  successor.
\<close>

partial_function (option) chain_last :: "(u16 \<Rightarrow> u16 option) \<Rightarrow> u16 \<Rightarrow> u16 \<Rightarrow> u16 option option" where
  "chain_last next_of prev nxt_indx =
    (if nxt_indx = 0 then Some (Some prev)
     else
       case next_of nxt_indx of
         None \<Rightarrow> None
       | Some n \<Rightarrow> if nxt_indx = n then Some None else chain_last next_of nxt_indx n)"

fun free_entry :: "('a \<Rightarrow> bool) \<Rightarrow> 'a list \<Rightarrow> nat list \<Rightarrow> u16 option" where
  "free_entry used tbl [] = Some 0"
| "free_entry used tbl (cnt # cnts) =
    (case rd tbl cnt of
       None \<Rightarrow> None
     | Some x \<Rightarrow> if \<not> used x then Some (of_nat cnt) else free_entry used tbl cnts)"

definition ipa_nati_expn_tbl_free_entry :: "nat_tbl \<Rightarrow> u16 option" where
  "ipa_nati_expn_tbl_free_entry t =
    free_entry (\<lambda>r. rule_enabled r) (expn_rules (tables t)) [1..<unat (expn_table_entries t)]"

definition ipa_nati_index_expn_get_free_entry :: "nat_tbl \<Rightarrow> u16 option" where
  "ipa_nati_index_expn_get_free_entry t =
    free_entry (\<lambda>w. indx_entry w \<noteq> 0) (index_expn (tables t)) [1..<unat (expn_table_entries t)]"

definition expn_next :: "nat_tbl \<Rightarrow> u16 \<Rightarrow> u16 option" where
  "expn_next t n =
    map_option (\<lambda>r. rule_next r) (rd (expn_rules (tables t)) (unat (n - table_entries t)))"

definition index_expn_next :: "nat_tbl \<Rightarrow> u16 \<Rightarrow> u16 option" where
  "index_expn_next t n =
    map_option (\<lambda>w. indx_nxt w) (rd (index_expn (tables t)) (unat (n - table_entries t)))"

definition client_sw_rule :: "u32 \<Rightarrow> ipa_nat_ipv4_rule \<Rightarrow> sw_rule" where
  "client_sw_rule pub_ip_addr c =
    \<lparr>sw_private_ip = r_private_ip c, sw_target_ip = r_target_ip c, next_index = 0,
     sw_public_port = r_public_port c, sw_private_port = r_private_port c,
     sw_target_port = r_target_port c,
     ip_chksum = ipa_nati_calc_ip_cksum pub_ip_addr (r_private_ip c),
     rsvd1 = 0, redirect = False, enable = False, time_stamp = 0,
     sw_protocol = r_protocol c, prev_index = 0, indx_tbl_entry = 0, rsvd2 = 0,
     tcp_udp_chksum =
       (if r_protocol c = 6 \<or> r_protocol c = 17
        then ipa_nati_calc_tcp_udp_cksum pub_ip_addr (r_public_port c) (r_private_ip c)
               (r_private_port c)
        else 0)\<rparr>"

text \<open>The rule and its entry, 0 when there is none.\<close>

definition ipa_nati_generate_tbl_rule :: "ipa_nat_ipv4_rule \<Rightarrow> nat_tbl \<Rightarrow> (sw_rule \<times> u16) option" where
  "ipa_nati_generate_tbl_rule c t =
    (let sw = client_sw_rule (public_addr t) c;
         new_entry = dst_hash (r_target_ip c) (r_target_port c) (r_public_port c) (r_protocol c)
           (table_entries t - 1)
     in case rd (base_rules (tables t)) (unat new_entry) of
          None \<Rightarrow> None
        | Some r \<Rightarrow>
            if \<not> rule_enabled r then Some (sw, new_entry)
            else
              case (if rule_next r = 0 then Some (Some new_entry)
                    else chain_last (expn_next t) 0 (rule_next r)) of
                None \<Rightarrow> None
              | Some None \<Rightarrow> Some (sw, 0)
              | Some (Some prev) \<Rightarrow>
                  map_option (\<lambda>e. (sw\<lparr>prev_index := prev\<rparr>, if e = 0 then 0 else e + table_entries t))
                    (ipa_nati_expn_tbl_free_entry t))"

definition ipa_nati_generate_index_rule ::
  "ipa_nat_ipv4_rule \<Rightarrow> indx_sw_rule \<Rightarrow> nat_tbl \<Rightarrow> (indx_sw_rule \<times> u16) option" where
  "ipa_nati_generate_index_rule c sw t =
    (let new_entry = src_hash (r_private_ip c) (r_private_port c) (r_target_ip c)
           (r_target_port c) (r_protocol c) (table_entries t - 1)
     in case rd (index_table (tables t)) (unat new_entry) of
          None \<Rightarrow> None
        | Some w \<Rightarrow>
            if indx_entry w = 0 then Some (sw\<lparr>indx_prev := 0\<rparr>, new_entry)
            else
              case (if indx_nxt w = 0 then Some (Some new_entry)
                    else chain_last (index_expn_next t) 0 (indx_nxt w)) of
                None \<Rightarrow> None
              | Some None \<Rightarrow> Some (sw, 0)
              | Some (Some prev) \<Rightarrow>
                  map_option (\<lambda>e. let sw = sw\<lparr>indx_prev := prev\<rparr>
                                  in (sw, if e = 0 \<or> prev = e + table_entries t then 0
                                          else e + table_entries t))
                    (ipa_nati_index_expn_get_free_entry t))"

text \<open>\<open>None\<close>: a wild access; \<open>Some None\<close>: no entry.\<close>

definition ipa_nati_generate_rule ::
  "ipa_nat_ipv4_rule \<Rightarrow> nat_tbl \<Rightarrow> (sw_rule \<times> indx_sw_rule \<times> u16 \<times> u16 \<times> nat_tbl) option option" where
  "ipa_nati_generate_rule c t =
    (case ipa_nati_generate_tbl_rule c t of
       None \<Rightarrow> None
     | Some (sw, e) \<Rightarrow>
         if e = 0 then Some None
         else
           case ipa_nati_generate_index_rule c \<lparr>indx_tbl_ent = e, indx_next = 0, indx_prev = 0\<rparr> t of
             None \<Rightarrow> None
           | Some (isw, ie) \<Rightarrow>
               if ie = 0 then Some None
               else
                 let sw = sw\<lparr>indx_tbl_entry := ie\<rparr>
                 in if ie \<ge> table_entries t then
                      case wr (index_expn_meta t) (unat (ie - table_entries t)) (indx_prev isw) of
                        None \<Rightarrow> None
                      | Some ms \<Rightarrow> Some (Some (sw, isw, e, ie, t\<lparr>index_expn_meta := ms\<rparr>))
                    else Some (Some (sw, isw, e, ie, t)))"

section \<open>Writing the tables\<close>

text \<open>A DMA on the table; it fails or has the effect the kernel gives it.\<close>

definition post_dma :: "'k nat_kernel \<Rightarrow> nat_dma_one list \<Rightarrow> 'k nat_drv \<Rightarrow> bool \<times> 'k nat_drv" where
  "post_dma K cmds s =
    (case k_dma K cmds (tables (ip4_tbl s)) (kern s) of
       (ok, m, k) \<Rightarrow> (ok, s\<lparr>ip4_tbl := (ip4_tbl s)\<lparr>tables := m\<rparr>, kern := k\<rparr>))"

definition malloc :: "'k nat_kernel \<Rightarrow> 'k nat_drv \<Rightarrow> bool \<times> 'k nat_drv" where
  "malloc K s = (case k_malloc K (kern s) of (ok, k) \<Rightarrow> (ok, s\<lparr>kern := k\<rparr>))"

definition set_tables :: "(nat_mem \<Rightarrow> nat_mem) \<Rightarrow> 'k nat_drv \<Rightarrow> 'k nat_drv" where
  "set_tables f s = s\<lparr>ip4_tbl := (ip4_tbl s)\<lparr>tables := f (tables (ip4_tbl s))\<rparr>\<rparr>"

definition ipa_nati_write_next_index ::
  "'k nat_kernel \<Rightarrow> nat_table_type \<Rightarrow> u16 \<Rightarrow> u32 \<Rightarrow> 'k nat_drv \<Rightarrow> 'k nat_drv" where
  "ipa_nati_write_next_index K tbl_type v offset s =
    (case malloc K s of (ok, s) \<Rightarrow>
       if \<not> ok then s
       else snd (post_dma K [\<lparr>dma_table_index = 0, dma_base_addr = tbl_type, dma_offset = offset,
                              dma_data = v\<rparr>] s))"

definition ipa_nati_copy_ipv4_rule_to_hw ::
  "'k nat_kernel \<Rightarrow> sw_rule \<Rightarrow> u16 \<Rightarrow> 'k nat_drv \<Rightarrow> 'k nat_drv option" where
  "ipa_nati_copy_ipv4_rule_to_hw K rule e s =
    (let t = ip4_tbl s; m = tables t; prev_entry = prev_index rule
     in case (if e < table_entries t
              then map_option (\<lambda>rs. m\<lparr>base_rules := rs\<rparr>) (wr (base_rules m) (unat e) (hw_rule_of rule))
              else map_option (\<lambda>rs. m\<lparr>expn_rules := rs\<rparr>)
                     (wr (expn_rules m) (unat (e - table_entries t)) (hw_rule_of rule))) of
          None \<Rightarrow> None
        | Some m \<Rightarrow>
            let s = set_tables (\<lambda>_. m) s
            in Some (if prev_entry = 0 then s
               else if prev_entry < table_entries t
               then ipa_nati_write_next_index K IPA_NAT_BASE_TBL e
                      (ipa_nati_get_entry_offset t prev_entry + IPA_NAT_RULE_NEXT_FIELD_OFFSET) s
               else ipa_nati_write_next_index K IPA_NAT_EXPN_TBL e
                      (ipa_nati_get_entry_offset t (prev_entry - table_entries t)
                       + IPA_NAT_RULE_NEXT_FIELD_OFFSET) s))"

text \<open>Here the offset goes through a 16-bit variable.\<close>

definition ipa_nati_copy_ipv4_index_rule_to_hw ::
  "'k nat_kernel \<Rightarrow> indx_sw_rule \<Rightarrow> u16 \<Rightarrow> 'k nat_drv \<Rightarrow> 'k nat_drv option" where
  "ipa_nati_copy_ipv4_index_rule_to_hw K isw e s =
    (let t = ip4_tbl s; m = tables t; prev_entry = indx_prev isw;
         w = word_of (indx_tbl_ent isw) (indx_next isw)
     in case (if e < table_entries t
              then map_option (\<lambda>ws. m\<lparr>index_table := ws\<rparr>) (wr (index_table m) (unat e) w)
              else map_option (\<lambda>ws. m\<lparr>index_expn := ws\<rparr>)
                     (wr (index_expn m) (unat (e - table_entries t)) w)) of
          None \<Rightarrow> None
        | Some m \<Rightarrow>
            let s = set_tables (\<lambda>_. m) s;
                to16 = (\<lambda>offset. ucast (ucast offset :: u16) :: u32)
            in Some (if prev_entry = 0 then s
               else if prev_entry < table_entries t
               then ipa_nati_write_next_index K IPA_NAT_INDX_TBL e
                      (to16 (to16 (ipa_nati_get_index_entry_offset t prev_entry)
                       + IPA_NAT_INDEX_RULE_NEXT_FIELD_OFFSET)) s
               else ipa_nati_write_next_index K IPA_NAT_INDEX_EXPN_TBL e
                      (to16 (to16 (ipa_nati_get_index_entry_offset t (prev_entry - table_entries t))
                       + IPA_NAT_INDEX_RULE_NEXT_FIELD_OFFSET)) s))"

text \<open>The rule is enabled last.\<close>

definition ipa_nati_post_ipv4_dma_cmd :: "'k nat_kernel \<Rightarrow> u16 \<Rightarrow> 'k nat_drv \<Rightarrow> int32 \<times> 'k nat_drv" where
  "ipa_nati_post_ipv4_dma_cmd K e s =
    (let t = ip4_tbl s
     in case malloc K s of (ok, s) \<Rightarrow>
          if \<not> ok then (- ENOMEM, s)
          else
            case post_dma K
              [if e < table_entries t
               then \<lparr>dma_table_index = 0, dma_base_addr = IPA_NAT_BASE_TBL,
                     dma_offset = ucast e * 32 + IPA_NAT_RULE_FLAG_FIELD_OFFSET,
                     dma_data = IPA_NAT_FLAG_ENABLE_BIT_MASK\<rparr>
               else \<lparr>dma_table_index = 0, dma_base_addr = IPA_NAT_EXPN_TBL,
                     dma_offset = ucast (e - table_entries t) * 32 + IPA_NAT_RULE_FLAG_FIELD_OFFSET +
                       tbl_addr_offset t,
                     dma_data = IPA_NAT_FLAG_ENABLE_BIT_MASK\<rparr>] s of
              (ok, s) \<Rightarrow> if ok then (0, s) else (- EIO, s))"

section \<open>Adding a rule\<close>

text \<open>The result, the handle (given its old value) and the state.\<close>

definition ipa_nati_add_ipv4_rule ::
  "'k nat_kernel \<Rightarrow> ipa_nat_ipv4_rule \<Rightarrow> u32 \<Rightarrow> 'k nat_drv \<Rightarrow> (int32 \<times> u32 \<times> 'k nat_drv) option" where
  "ipa_nati_add_ipv4_rule K c rule_hdl s =
    (case ipa_nati_generate_rule c (ip4_tbl s) of
       None \<Rightarrow> None
     | Some None \<Rightarrow> Some (- EINVAL, rule_hdl, s)
     | Some (Some (sw, isw, e, ie, t)) \<Rightarrow>
         (case ipa_nati_copy_ipv4_rule_to_hw K sw e (s\<lparr>ip4_tbl := t\<rparr>) of
            None \<Rightarrow> None
          | Some s \<Rightarrow>
              (case ipa_nati_copy_ipv4_index_rule_to_hw K isw ie s of
                 None \<Rightarrow> None
               | Some s \<Rightarrow>
                   (case ipa_nati_post_ipv4_dma_cmd K e s of (rc, s) \<Rightarrow>
                      if rc \<noteq> 0 then Some (- EIO, rule_hdl, s)
                      else
                        case ipa_nati_make_rule_hdl (ip4_tbl s) e of
                          None \<Rightarrow> None
                        | Some (hdl, t) \<Rightarrow>
                            Some (if hdl = 0 then - EINVAL else 0, ucast hdl, s\<lparr>ip4_tbl := t\<rparr>)))))"

section \<open>Deleting a rule\<close>

datatype del_type =
    IPA_NAT_DEL_TYPE_ONLY_ONE | IPA_NAT_DEL_TYPE_HEAD | IPA_NAT_DEL_TYPE_MIDDLE | IPA_NAT_DEL_TYPE_LAST

definition ipa_nati_find_rule_pos :: "nat_tbl \<Rightarrow> bool \<Rightarrow> u16 \<Rightarrow> del_type option" where
  "ipa_nati_find_rule_pos t expn_tbl tbl_entry =
    (if expn_tbl then
       map_option (\<lambda>r. if rule_next r = 0 then IPA_NAT_DEL_TYPE_LAST else IPA_NAT_DEL_TYPE_MIDDLE)
         (rd (expn_rules (tables t)) (unat tbl_entry))
     else
       map_option (\<lambda>r. if rule_next r = 0 then IPA_NAT_DEL_TYPE_ONLY_ONE else IPA_NAT_DEL_TYPE_HEAD)
         (rd (base_rules (tables t)) (unat tbl_entry)))"

definition ipa_nati_find_index_rule_pos :: "nat_tbl \<Rightarrow> u16 \<Rightarrow> del_type option" where
  "ipa_nati_find_index_rule_pos t tbl_entry =
    (if tbl_entry \<ge> table_entries t then
       map_option (\<lambda>w. if indx_nxt w = 0 then IPA_NAT_DEL_TYPE_LAST else IPA_NAT_DEL_TYPE_MIDDLE)
         (rd (index_expn (tables t)) (unat (tbl_entry - table_entries t)))
     else
       map_option (\<lambda>w. if indx_nxt w = 0 then IPA_NAT_DEL_TYPE_ONLY_ONE else IPA_NAT_DEL_TYPE_HEAD)
         (rd (index_table (tables t)) (unat tbl_entry)))"

text \<open>The commands on the index come first.\<close>

definition ReorderCmds :: "nat_dma_one list \<Rightarrow> nat_dma_one list" where
  "ReorderCmds cmds =
    (let n = length (takeWhile (\<lambda>c. dma_base_addr c \<noteq> IPA_NAT_INDX_TBL \<and>
                                   dma_base_addr c \<noteq> IPA_NAT_INDEX_EXPN_TBL) cmds)
     in if n = length cmds then cmds else drop n cmds @ take n cmds)"

definition dma_cmd :: "nat_table_type \<Rightarrow> u32 \<Rightarrow> u16 \<Rightarrow> nat_dma_one" where
  "dma_cmd ty offset d =
    \<lparr>dma_table_index = 0, dma_base_addr = ty, dma_offset = offset, dma_data = d\<rparr>"

text \<open>The command on the rules. \<open>r\<close> is the rule that goes.\<close>

definition prev_next_cmd :: "nat_tbl \<Rightarrow> u16 \<Rightarrow> u16 \<Rightarrow> nat_dma_one" where
  "prev_next_cmd t prev_entry d =
    (if prev_entry \<ge> table_entries t
     then dma_cmd IPA_NAT_EXPN_TBL (ipa_nati_get_entry_offset t (prev_entry - table_entries t)
            + IPA_NAT_RULE_NEXT_FIELD_OFFSET) d
     else dma_cmd IPA_NAT_BASE_TBL (ipa_nati_get_entry_offset t prev_entry
            + IPA_NAT_RULE_NEXT_FIELD_OFFSET) d)"

definition del_rule_cmd :: "nat_tbl \<Rightarrow> u16 \<Rightarrow> hw_rule \<Rightarrow> del_type \<Rightarrow> nat_dma_one" where
  "del_rule_cmd t e r rule_pos =
    (case rule_pos of
       IPA_NAT_DEL_TYPE_ONLY_ONE \<Rightarrow>
         dma_cmd IPA_NAT_BASE_TBL (ipa_nati_get_entry_offset t e + IPA_NAT_RULE_FLAG_FIELD_OFFSET)
           IPA_NAT_FLAG_DISABLE_BIT_MASK
     | IPA_NAT_DEL_TYPE_HEAD \<Rightarrow>
         dma_cmd IPA_NAT_BASE_TBL (ipa_nati_get_entry_offset t e + IPA_NAT_RULE_PROTO_FIELD_OFFSET)
           IPA_NAT_INVALID_PROTO_FIELD_VALUE
     | IPA_NAT_DEL_TYPE_MIDDLE \<Rightarrow> prev_next_cmd t (rule_prev r) (rule_next r)
     | IPA_NAT_DEL_TYPE_LAST \<Rightarrow> prev_next_cmd t (rule_prev r) 0)"

definition index_prev_next_cmd :: "nat_tbl \<Rightarrow> u16 \<Rightarrow> u16 \<Rightarrow> nat_dma_one" where
  "index_prev_next_cmd t prev_entry d =
    (if prev_entry \<ge> table_entries t
     then dma_cmd IPA_NAT_INDEX_EXPN_TBL (ipa_nati_get_index_entry_offset t (prev_entry - table_entries t)
            + IPA_NAT_INDEX_RULE_NEXT_FIELD_OFFSET) d
     else dma_cmd IPA_NAT_INDX_TBL (ipa_nati_get_index_entry_offset t prev_entry
            + IPA_NAT_INDEX_RULE_NEXT_FIELD_OFFSET) d)"

text \<open>
  The commands on the index. The entry is \<open>ie\<close>, of the expansion table in the last two cases. At
  the head of a chain the next entry is moved into it.
\<close>

definition del_index_cmds :: "nat_tbl \<Rightarrow> u16 \<Rightarrow> del_type \<Rightarrow> nat_dma_one list option" where
  "del_index_cmds t ie indx_rule_pos =
    (let m = tables t
     in case indx_rule_pos of
          IPA_NAT_DEL_TYPE_ONLY_ONE \<Rightarrow>
            Some [dma_cmd IPA_NAT_INDX_TBL (ipa_nati_get_index_entry_offset t ie
                    + IPA_NAT_INDEX_RULE_NAT_INDEX_FIELD_OFFSET) 0]
        | IPA_NAT_DEL_TYPE_HEAD \<Rightarrow>
            (case rd (index_table m) (unat ie) of
               None \<Rightarrow> None
             | Some w \<Rightarrow>
                 map_option (\<lambda>w.
                   [dma_cmd IPA_NAT_INDX_TBL (ipa_nati_get_index_entry_offset t ie
                      + IPA_NAT_INDEX_RULE_NAT_INDEX_FIELD_OFFSET) (indx_entry w),
                    dma_cmd IPA_NAT_INDX_TBL (ipa_nati_get_index_entry_offset t ie
                      + IPA_NAT_INDEX_RULE_NEXT_FIELD_OFFSET) (indx_nxt w)])
                   (rd (index_expn m) (unat (indx_nxt w - table_entries t))))
        | IPA_NAT_DEL_TYPE_MIDDLE \<Rightarrow>
            (case (rd (index_expn m) (unat (ie - table_entries t)),
                   rd (index_expn_meta t) (unat (ie - table_entries t))) of
               (Some w, Some p) \<Rightarrow> Some [index_prev_next_cmd t p (indx_nxt w)]
             | _ \<Rightarrow> None)
        | IPA_NAT_DEL_TYPE_LAST \<Rightarrow>
            map_option (\<lambda>p. [index_prev_next_cmd t p 0])
              (rd (index_expn_meta t) (unat (ie - table_entries t))))"

text \<open>What the driver writes itself after the DMA: first the rules.\<close>

definition del_rule_update :: "bool \<Rightarrow> u16 \<Rightarrow> del_type \<Rightarrow> nat_tbl \<Rightarrow> nat_tbl option" where
  "del_rule_update expn_tbl e rule_pos t =
    (let m = tables t
     in if rule_pos = IPA_NAT_DEL_TYPE_MIDDLE then
          case rd (if expn_tbl then expn_rules m else base_rules m) (unat e) of
            None \<Rightarrow> None
          | Some r \<Rightarrow>
              let n = unat (rule_next r - table_entries t)
              in case rd (expn_rules m) n of
                   None \<Rightarrow> None
                 | Some r' \<Rightarrow>
                     map_option (\<lambda>rs. t\<lparr>tables := m\<lparr>expn_rules := rs\<rparr>\<rparr>)
                       (wr ((expn_rules m)[n := UpdateSwSpecParams IPA_NAT_SW_PARAM_PREV_INDX_BYTE
                              (ucast (rule_prev r)) r']) (unat e) zero_rule)
        else if rule_pos = IPA_NAT_DEL_TYPE_HEAD then Some t
        else if expn_tbl then
          map_option (\<lambda>rs. t\<lparr>tables := m\<lparr>expn_rules := rs\<rparr>\<rparr>) (wr (expn_rules m) (unat e) zero_rule)
        else
          map_option (\<lambda>rs. t\<lparr>tables := m\<lparr>base_rules := rs\<rparr>\<rparr>) (wr (base_rules m) (unat e) zero_rule))"

text \<open>Then the index. \<open>n\<close> is the entry that was moved to the head.\<close>

definition set_rule_indx :: "u16 \<Rightarrow> u16 \<Rightarrow> nat_tbl \<Rightarrow> nat_tbl option" where
  "set_rule_indx table_entry ie t =
    (let m = tables t; upd = UpdateSwSpecParams IPA_NAT_SW_PARAM_INDX_TBL_ENTRY_BYTE (ucast ie)
     in if table_entry \<ge> table_entries t then
          let n = unat (table_entry - table_entries t)
          in case rd (expn_rules m) n of
               None \<Rightarrow> None
             | Some r \<Rightarrow> Some (t\<lparr>tables := m\<lparr>expn_rules := (expn_rules m)[n := upd r]\<rparr>\<rparr>)
        else
          case rd (base_rules m) (unat table_entry) of
            None \<Rightarrow> None
          | Some r \<Rightarrow> Some (t\<lparr>tables := m\<lparr>base_rules := (base_rules m)[unat table_entry := upd r]\<rparr>\<rparr>))"

definition del_index_head_update :: "u16 \<Rightarrow> u16 \<Rightarrow> nat_tbl \<Rightarrow> nat_tbl option" where
  "del_index_head_update ie n t =
    (case rd (index_expn (tables t)) (unat n) of
       None \<Rightarrow> None
     | Some w \<Rightarrow>
         let nn = indx_nxt w;
             ms = (if nn \<noteq> 0 \<and> nn \<ge> table_entries t
                   then wr (index_expn_meta t) (unat (nn - table_entries t)) ie
                   else Some (index_expn_meta t))
         in case ms of
              None \<Rightarrow> None
            | Some ms \<Rightarrow>
                let t = t\<lparr>index_expn_meta := ms,
                          tables := (tables t)\<lparr>index_expn := (index_expn (tables t))[unat n := 0]\<rparr>\<rparr>
                in case rd (index_table (tables t)) (unat ie) of
                     None \<Rightarrow> None
                   | Some w \<Rightarrow> set_rule_indx (indx_entry w) ie t)"

definition del_index_update :: "u16 \<Rightarrow> del_type \<Rightarrow> nat_tbl \<Rightarrow> nat_tbl option" where
  "del_index_update ie indx_rule_pos t =
    (let m = tables t
     in if ie \<ge> table_entries t then
          let i = unat (ie - table_entries t)
          in case rd (index_expn m) i of
               None \<Rightarrow> None
             | Some w \<Rightarrow>
                 let ms =
                   (if indx_rule_pos = IPA_NAT_DEL_TYPE_MIDDLE then
                      let n = (if indx_nxt w \<ge> table_entries t then indx_nxt w - table_entries t
                               else indx_nxt w)
                      in case rd (index_expn_meta t) i of
                           None \<Rightarrow> None
                         | Some p \<Rightarrow>
                             (case wr (index_expn_meta t) (unat n) p of
                                None \<Rightarrow> None
                              | Some ms \<Rightarrow> wr ms i 0)
                    else Some (index_expn_meta t))
                 in map_option (\<lambda>ms. t\<lparr>index_expn_meta := ms,
                                       tables := m\<lparr>index_expn := (index_expn m)[i := 0]\<rparr>\<rparr>) ms
        else
          map_option (\<lambda>ws. t\<lparr>tables := m\<lparr>index_table := ws\<rparr>\<rparr>) (wr (index_table m) (unat ie) 0))"

definition ipa_nati_post_del_dma_cmd ::
  "'k nat_kernel \<Rightarrow> u16 \<Rightarrow> bool \<Rightarrow> del_type \<Rightarrow> 'k nat_drv \<Rightarrow> (int32 \<times> 'k nat_drv) option" where
  "ipa_nati_post_del_dma_cmd K e expn_tbl rule_pos s =
    (case malloc K s of (ok, s) \<Rightarrow>
      if \<not> ok then Some (- ENOMEM, s)
      else
        let t = ip4_tbl s
        in case rd (if expn_tbl then expn_rules (tables t) else base_rules (tables t)) (unat e) of
             None \<Rightarrow> None
           | Some r \<Rightarrow>
               if \<not> rule_enabled r then Some (- EINVAL, s)
               else
                 let ie = rule_indx r
                 in case ipa_nati_find_index_rule_pos t ie of
                      None \<Rightarrow> None
                    | Some ipos \<Rightarrow>
                        (case del_index_cmds t ie ipos of
                           None \<Rightarrow> None
                         | Some icmds \<Rightarrow>
                             let n = (case rd (index_table (tables t)) (unat ie) of
                                        None \<Rightarrow> 0 | Some w \<Rightarrow> indx_nxt w - table_entries t);
                                 cmds = del_rule_cmd t e r rule_pos # icmds
                             in case malloc K s of (ok, s) \<Rightarrow>
                                case post_dma K (if ok then ReorderCmds cmds else cmds) s of (ok, s) \<Rightarrow>
                                  if \<not> ok then Some (- EIO, s)
                                  else
                                    case del_rule_update expn_tbl e rule_pos (ip4_tbl s) of
                                      None \<Rightarrow> None
                                    | Some t \<Rightarrow>
                                        map_option (\<lambda>t. (0, s\<lparr>ip4_tbl := t\<rparr>))
                                          (if ipos = IPA_NAT_DEL_TYPE_HEAD
                                           then del_index_head_update ie n t
                                           else del_index_update ie ipos t)))"

text \<open>
  The head of a chain that was deleted stays, with an impossible protocol, as long as rules follow
  it.
\<close>

definition dead_head :: "hw_rule \<Rightarrow> bool" where
  "dead_head r \<longleftrightarrow>
     Read8BitFieldValue (ts_proto r) PROTOCOL_FIELD = IPA_NAT_INVALID_PROTO_FIELD_CMP \<and> rule_next r = 0"

fun clear_dead :: "nat list \<Rightarrow> hw_rule list \<Rightarrow> hw_rule list option" where
  "clear_dead [] rs = Some rs"
| "clear_dead (cnt # cnts) rs =
    (case rd rs cnt of
       None \<Rightarrow> None
     | Some r \<Rightarrow> clear_dead cnts (if dead_head r then rs[cnt := zero_rule] else rs))"

definition ipa_nati_del_dead_ipv4_head_nodes :: "nat_tbl \<Rightarrow> nat_tbl option" where
  "ipa_nati_del_dead_ipv4_head_nodes t =
    map_option (\<lambda>rs. t\<lparr>tables := (tables t)\<lparr>base_rules := rs\<rparr>\<rparr>)
      (clear_dead [0..<unat (table_entries t)] (base_rules (tables t)))"

definition ipa_nati_del_ipv4_rule ::
  "'k nat_kernel \<Rightarrow> u32 \<Rightarrow> u32 \<Rightarrow> 'k nat_drv \<Rightarrow> (int32 \<times> 'k nat_drv) option" where
  "ipa_nati_del_ipv4_rule K tbl_hdl rule_hdl s =
    (case get_tbl (ucast (tbl_hdl - 1)) s of
       None \<Rightarrow> None
     | Some t \<Rightarrow>
         (case ipa_nati_parse_ipv4_rule_hdl t (ucast rule_hdl) of
            None \<Rightarrow> None
          | Some (expn_tbl, e) \<Rightarrow>
              if e = 0 then Some (- EINVAL, s)
              else if \<not> valid t then Some (- EINVAL, s)
              else
                case ipa_nati_find_rule_pos t expn_tbl e of
                  None \<Rightarrow> None
                | Some rule_pos \<Rightarrow>
                    (case ipa_nati_post_del_dma_cmd K e expn_tbl rule_pos s of
                       None \<Rightarrow> None
                     | Some (rc, s) \<Rightarrow>
                         if rc \<noteq> 0 then Some (- EINVAL, s)
                         else
                           case ipa_nati_del_dead_ipv4_head_nodes (ip4_tbl s) of
                             None \<Rightarrow> None
                           | Some t \<Rightarrow>
                               map_option (\<lambda>ids. (0, s\<lparr>ip4_tbl := t\<lparr>rule_id_array := ids\<rparr>\<rparr>))
                                 (wr (rule_id_array t) (unat (rule_hdl - 1)) 0))))"

section \<open>Time stamps\<close>

definition ipa_nati_query_timestamp :: "u32 \<Rightarrow> u32 \<Rightarrow> u32 \<Rightarrow> 'k nat_drv \<Rightarrow> (int32 \<times> u32) option" where
  "ipa_nati_query_timestamp tbl_hdl rule_hdl ts s =
    (case get_tbl (ucast (tbl_hdl - 1)) s of
       None \<Rightarrow> None
     | Some t \<Rightarrow>
         if \<not> valid t then Some (- EINVAL, ts)
         else
           case ipa_nati_parse_ipv4_rule_hdl t (ucast rule_hdl) of
             None \<Rightarrow> None
           | Some (expn_tbl, e) \<Rightarrow>
               map_option (\<lambda>r. (0, Read32BitFieldValue (ts_proto r) TIME_STAMP_FIELD))
                 (rd (if expn_tbl then expn_rules (tables t) else base_rules (tables t)) (unat e)))"

section \<open>The table\<close>

text \<open>The size asked of the kernel, and the offsets it is told at the end.\<close>

definition nat_mem_size :: "u16 \<Rightarrow> u16 \<Rightarrow> int" where
  "nat_mem_size table_ents expn_ents =
    (let total_entries = uint (table_ents + expn_ents) in 32 * total_entries + 4 * total_entries)"

definition init_cmd :: "nat_tbl \<Rightarrow> u32 list" where
  "init_cmd t =
    (let offset = tbl_addr_offset t;
         expn = offset + ucast (table_entries t) * 32;
         indx = expn + ucast (expn_table_entries t) * 32;
         indx_expn = indx + ucast (table_entries t) * 4
     in [offset, expn, indx, indx_expn, ucast (table_entries t) - 1, ucast (expn_table_entries t),
         public_addr t])"

text \<open>
  \<open>ipa_nati_alloc_table\<close>: the sizes and the offset of the memory, or the error. The device is
  opened once.
\<close>

definition ipa_nati_alloc_table ::
  "'k nat_kernel \<Rightarrow> u16 \<Rightarrow> 'k nat_drv \<Rightarrow> (u16 \<times> u16 \<times> u32) option \<times> 'k nat_drv" where
  "ipa_nati_alloc_table K number_of_entries s =
    (case table_sizes number_of_entries of
       None \<Rightarrow> (None, s)
     | Some (t, x) \<Rightarrow>
         let (ok, s) = (if ipa_fd_open s then (True, s)
                        else case k_open_ipa K (kern s) of (ok, k) \<Rightarrow>
                               (ok, s\<lparr>ipa_fd_open := ok, kern := k\<rparr>))
         in if \<not> ok then (None, s)
            else
              case k_alloc_nat_mem K (nat_mem_size t x) (kern s) of
                (r, k) \<Rightarrow> (map_option (\<lambda>offset. (t, x, offset)) r, s\<lparr>kern := k\<rparr>))"

text \<open>
  \<open>ipa_nati_update_cache\<close>: \<open>None\<close> when the memory could not be mapped, which the code does not
  notice, or an array could not be allocated, which it reports as success: the tables are then
  written through wild pointers. \<open>m\<close> is what the memory holds.
\<close>

definition ipa_nati_update_cache ::
  "'k nat_kernel \<Rightarrow> nat_mem \<Rightarrow> u32 \<Rightarrow> u16 \<Rightarrow> u16 \<Rightarrow> u32 \<Rightarrow> 'k nat_drv \<Rightarrow> (bool \<times> 'k nat_drv) option" where
  "ipa_nati_update_cache K m public t x offset s =
    (let tbl = ip4_tbl s;
         tbl = tbl\<lparr>valid := True, public_addr := public, tbl_addr_offset := offset,
           table_entries := t, expn_table_entries := x\<rparr>;
         s = s\<lparr>ip4_tbl := tbl\<rparr>;
         (ok, s) = (if index_expn_meta tbl = [] then malloc K s else (True, s))
     in if \<not> ok then None
        else
          let metas = (if index_expn_meta tbl = [] then replicate (unat x) 0 else index_expn_meta tbl);
              (ok, s) = (if rule_id_array tbl = [] then malloc K s else (True, s))
          in if \<not> ok then None
             else
               let ids = (if rule_id_array tbl = [] then replicate (unat t + unat x) 0
                          else rule_id_array tbl);
                   tbl = tbl\<lparr>index_expn_meta := metas, rule_id_array := ids\<rparr>
               in case k_open_nat K (kern s) of (ok, k) \<Rightarrow>
                    if \<not> ok then Some (False, s\<lparr>ip4_tbl := tbl, kern := k\<rparr>)
                    else
                      case k_mmap K k of (ok, k) \<Rightarrow>
                        if \<not> ok then None
                        else Some (True, s\<lparr>ip4_tbl := tbl\<lparr>tables := m\<rparr>, kern := k\<rparr>))"

definition ipa_nati_reset_tbl :: "nat_tbl \<Rightarrow> nat_tbl" where
  "ipa_nati_reset_tbl t =
    t\<lparr>tables :=
      \<lparr>base_rules = replicate (unat (table_entries t)) zero_rule,
       expn_rules = replicate (unat (expn_table_entries t)) zero_rule,
       index_table = replicate (unat (table_entries t)) 0,
       index_expn = replicate (unat (expn_table_entries t)) 0\<rparr>\<rparr>"

text \<open>
  \<open>ipa_nati_add_ipv4_tbl\<close>, with what the mapped memory holds. With a table already there, the
  next one would be the second, past the end of \<open>ip4_tbl\<close>.
\<close>

definition ipa_nati_add_ipv4_tbl ::
  "'k nat_kernel \<Rightarrow> nat_mem \<Rightarrow> u32 \<Rightarrow> u16 \<Rightarrow> 'k nat_drv \<Rightarrow> (int32 \<times> u32 \<times> 'k nat_drv) option" where
  "ipa_nati_add_ipv4_tbl K m public number_of_entries s =
    (case ipa_nati_alloc_table K number_of_entries s of
       (None, s) \<Rightarrow> Some (- ENOMEM, 0, s)
     | (Some (t, x, offset), s) \<Rightarrow>
         if table_cnt s \<noteq> 0 then None
         else
           case ipa_nati_update_cache K m public t x offset s of
             None \<Rightarrow> None
           | Some (ok, s) \<Rightarrow>
               if \<not> ok then Some (- EINVAL, 0, s)
               else
                 let s = s\<lparr>ip4_tbl := ipa_nati_reset_tbl (ip4_tbl s)\<rparr>
                 in case k_init_nat K (init_cmd (ip4_tbl s)) (kern s) of (ok, k) \<Rightarrow>
                      if \<not> ok then Some (- EINVAL, 0, s\<lparr>kern := k\<rparr>)
                      else Some (0, ucast (table_cnt s + 1), s\<lparr>kern := k, table_cnt := table_cnt s + 1\<rparr>))"

definition ipa_nati_del_ipv4_table :: "'k nat_kernel \<Rightarrow> u32 \<Rightarrow> 'k nat_drv \<Rightarrow> (int32 \<times> 'k nat_drv) option" where
  "ipa_nati_del_ipv4_table K tbl_hdl s =
    (case get_tbl (ucast (tbl_hdl - 1)) s of
       None \<Rightarrow> None
     | Some t \<Rightarrow>
         if \<not> valid t then Some (- EINVAL, s)
         else
           let s = s\<lparr>ip4_tbl := t\<lparr>tables := tables no_tbl\<rparr>\<rparr>
           in case k_close_nat K (kern s) of (ok, k) \<Rightarrow>
                if \<not> ok then Some (- EINVAL, s\<lparr>kern := k\<rparr>)
                else
                  case k_del_nat K (public_addr t) k of (ok, k) \<Rightarrow>
                    if \<not> ok then Some (- EINVAL, s\<lparr>kern := k\<rparr>)
                    else Some (0, s\<lparr>kern := k, ip4_tbl := no_tbl, table_cnt := table_cnt s - 1\<rparr>))"

section \<open>The interface\<close>

text \<open>\<open>ipa_nat_drv.c\<close>. The names end in \<open>_drv\<close>: the cache has its own for the same calls.\<close>

definition add_ipv4_tbl_drv ::
  "'k nat_kernel \<Rightarrow> nat_mem \<Rightarrow> u32 \<Rightarrow> u16 \<Rightarrow> u32 \<Rightarrow> 'k nat_drv \<Rightarrow> (int32 \<times> u32 \<times> 'k nat_drv) option" where
  "add_ipv4_tbl_drv K m public_ip_addr number_of_entries tbl_hdl s =
    (if number_of_entries = 0 then Some (- EINVAL, tbl_hdl, s)
     else
       map_option (\<lambda>(rc, hdl, s). (if rc \<noteq> 0 then - EINVAL else rc, hdl, s))
         (ipa_nati_add_ipv4_tbl K m public_ip_addr number_of_entries s))"

definition del_ipv4_tbl_drv :: "'k nat_kernel \<Rightarrow> u32 \<Rightarrow> 'k nat_drv \<Rightarrow> (int32 \<times> 'k nat_drv) option" where
  "del_ipv4_tbl_drv K tbl_hdl s =
    (if tbl_hdl = 0 \<or> tbl_hdl > 1 then Some (- EINVAL, s) else ipa_nati_del_ipv4_table K tbl_hdl s)"

definition add_ipv4_rule_drv ::
  "'k nat_kernel \<Rightarrow> u32 \<Rightarrow> ipa_nat_ipv4_rule \<Rightarrow> u32 \<Rightarrow> 'k nat_drv \<Rightarrow> (int32 \<times> u32 \<times> 'k nat_drv) option" where
  "add_ipv4_rule_drv K tbl_hdl clnt_rule rule_hdl s =
    (if tbl_hdl = 0 \<or> tbl_hdl > 1 then Some (- EINVAL, rule_hdl, s)
     else
       map_option (\<lambda>(rc, hdl, s). (if rc \<noteq> 0 then - EINVAL else 0, hdl, s))
         (ipa_nati_add_ipv4_rule K clnt_rule rule_hdl s))"

definition del_ipv4_rule_drv ::
  "'k nat_kernel \<Rightarrow> u32 \<Rightarrow> u32 \<Rightarrow> 'k nat_drv \<Rightarrow> (int32 \<times> 'k nat_drv) option" where
  "del_ipv4_rule_drv K tbl_hdl rule_hdl s =
    (if tbl_hdl = 0 \<or> rule_hdl = 0 then Some (- EINVAL, s)
     else ipa_nati_del_ipv4_rule K tbl_hdl rule_hdl s)"

definition query_timestamp_drv ::
  "u32 \<Rightarrow> u32 \<Rightarrow> u32 \<Rightarrow> 'k nat_drv \<Rightarrow> (int32 \<times> u32 \<times> 'k nat_drv) option" where
  "query_timestamp_drv tbl_hdl rule_hdl ts s =
    (if tbl_hdl = 0 \<or> tbl_hdl > 1 then Some (- EINVAL, ts, s)
     else map_option (\<lambda>(rc, ts). (rc, ts, s)) (ipa_nati_query_timestamp tbl_hdl rule_hdl ts s))"

end
