(* ===== verification/NatChain.thy ===== *)
theory NatChain
  imports Prelude
begin

text \<open>
  Hash tables with chaining, as the NAT driver keeps two of them: entries \<open>0 < b < N\<close> start the
  chains, entries \<open>N < x < T\<close> continue them, and each used entry has the number of the next, 0 at
  the end, and but for the first of the previous. What is shown is independent of where the
  numbers are kept.
\<close>

fun chained :: "(nat \<Rightarrow> nat) \<Rightarrow> (nat \<Rightarrow> nat) \<Rightarrow> nat list \<Rightarrow> bool" where
  "chained nxt prv [] = True"
| "chained nxt prv [x] = (nxt x = 0)"
| "chained nxt prv (x # y # xs) = (nxt x = y \<and> prv y = x \<and> chained nxt prv (y # xs))"

text \<open>\<open>C b\<close> is the chain that \<open>b\<close> starts.\<close>

definition buckets ::
  "nat \<Rightarrow> nat \<Rightarrow> (nat \<Rightarrow> bool) \<Rightarrow> (nat \<Rightarrow> nat) \<Rightarrow> (nat \<Rightarrow> nat) \<Rightarrow> (nat \<Rightarrow> nat list) \<Rightarrow> bool" where
  "buckets N T used nxt prv C \<longleftrightarrow>
     (\<forall>b. if 0 < b \<and> b < N \<and> used b then \<exists>xs. C b = b # xs \<and> set xs \<subseteq> {N<..<T} else C b = []) \<and>
     (\<forall>b. chained nxt prv (C b) \<and> distinct (C b) \<and> (\<forall>x \<in> set (C b). used x)) \<and>
     (\<forall>b c. b \<noteq> c \<longrightarrow> set (C b) \<inter> set (C c) = {}) \<and>
     (\<forall>x. N < x \<longrightarrow> x < T \<longrightarrow> used x \<longrightarrow> (\<exists>b. x \<in> set (C b)))"

section \<open>Chains\<close>

lemma chained_cong:
  "(\<And>x. x \<in> set xs \<Longrightarrow> nxt' x = nxt x) \<Longrightarrow> (\<And>x. x \<in> set (tl xs) \<Longrightarrow> prv' x = prv x) \<Longrightarrow>
   chained nxt' prv' xs = chained nxt prv xs"
  by (induction nxt prv xs rule: chained.induct) auto

lemma chained_append:
  "chained nxt prv (as @ [p, e] @ bs) \<Longrightarrow> nxt p = e \<and> prv e = p \<and> chained nxt prv (e # bs)"
  by (induction "as") (auto simp: chained.simps neq_Nil_conv elim: chained.elims(2))

lemma chained_last: "chained nxt prv xs \<Longrightarrow> xs \<noteq> [] \<Longrightarrow> nxt (last xs) = 0"
  by (induction nxt prv xs rule: chained.induct) auto

lemma chained_snoc:
  assumes "chained nxt prv xs" "xs \<noteq> []" "e \<notin> set xs" "nxt' (last xs) = e" "nxt' e = 0" "prv' e = last xs"
    and "\<And>x. x \<noteq> e \<Longrightarrow> x \<noteq> last xs \<Longrightarrow> nxt' x = nxt x" "\<And>x. x \<noteq> e \<Longrightarrow> prv' x = prv x" "distinct xs"
  shows "chained nxt' prv' (xs @ [e])"
  using assms
proof (induction nxt prv xs rule: chained.induct)
  case (3 nxt prv x y xs)
  have "x \<noteq> last (y # xs)" using "3.prems"(9) by auto
  then show ?case using 3 by auto
qed auto

lemma chained_drop:
  assumes "chained nxt prv (as @ [p, e] @ bs)" "distinct (as @ [p, e] @ bs)"
    and "nxt' p = nxt e" "\<And>x. x \<noteq> p \<Longrightarrow> x \<noteq> e \<Longrightarrow> nxt' x = nxt x"
    and "\<And>x. x \<noteq> e \<Longrightarrow> x \<noteq> hd (bs @ [e]) \<Longrightarrow> prv' x = prv x" "bs \<noteq> [] \<Longrightarrow> prv' (hd bs) = p"
  shows "chained nxt' prv' (as @ [p] @ bs)"
  using assms
proof (induction "as")
  case Nil
  show ?case
  proof (cases bs)
    case Nil
    then show ?thesis using \<open>chained nxt prv ([] @ [p, e] @ bs)\<close> assms(3) by simp
  next
    case (Cons y ys)
    have "chained nxt' prv' (y # ys) = chained nxt prv (y # ys)"
    proof (rule chained_cong)
      fix x assume "x \<in> set (y # ys)"
      then have "x \<noteq> p" "x \<noteq> e" using Nil.prems(2) Cons by auto
      then show "nxt' x = nxt x" by (rule Nil.prems(4))
    next
      fix x assume "x \<in> set (tl (y # ys))"
      then have "x \<noteq> e" "x \<noteq> hd (bs @ [e])" using Nil.prems(2) Cons by auto
      then show "prv' x = prv x" by (rule Nil.prems(5))
    qed
    then show ?thesis using Nil.prems(1,3,6) Cons by auto
  qed
next
  case (Cons a "as")
  have IH: "chained nxt' prv' (as @ [p] @ bs)"
    using Cons.prems by (intro Cons.IH) (auto elim: chained.elims(2))
  have "a \<noteq> p" "a \<noteq> e" using Cons.prems(2) by auto
  then have a: "nxt' a = nxt a" using Cons.prems(4) by simp
  let ?y = "hd (as @ [p])"
  have y: "?y \<noteq> e" "?y \<noteq> hd (bs @ [e])" using Cons.prems(2) by (cases "as"; cases bs; auto)+
  have "nxt a = ?y" "prv ?y = a" using Cons.prems(1) by (cases "as"; auto)+
  then show ?case using IH a Cons.prems(5) [OF y] by (cases "as") auto
qed

section \<open>Buckets\<close>

lemma bucketsD:
  assumes "buckets N T used nxt prv C"
  shows "chained nxt prv (C b)" "distinct (C b)" "x \<in> set (C b) \<Longrightarrow> used x"
    "x \<in> set (C b) \<Longrightarrow> x \<in> set (C c) \<Longrightarrow> b = c"
    "N < y \<Longrightarrow> y < T \<Longrightarrow> used y \<Longrightarrow> \<exists>b. y \<in> set (C b)"
    "0 < b \<Longrightarrow> b < N \<Longrightarrow> used b \<Longrightarrow> \<exists>xs. C b = b # xs \<and> set xs \<subseteq> {N<..<T}"
    "C b \<noteq> [] \<Longrightarrow> 0 < b \<and> b < N \<and> used b"
proof -
  have *: "if 0 < b \<and> b < N \<and> used b then \<exists>xs. C b = b # xs \<and> set xs \<subseteq> {N<..<T} else C b = []" for b
    using assms unfolding buckets_def by blast
  show "0 < b \<Longrightarrow> b < N \<Longrightarrow> used b \<Longrightarrow> \<exists>xs. C b = b # xs \<and> set xs \<subseteq> {N<..<T}"
    "C b \<noteq> [] \<Longrightarrow> 0 < b \<and> b < N \<and> used b" using * [of b] by (auto split: if_splits)
  show "chained nxt prv (C b)" "distinct (C b)" "x \<in> set (C b) \<Longrightarrow> used x"
    "N < y \<Longrightarrow> y < T \<Longrightarrow> used y \<Longrightarrow> \<exists>b. y \<in> set (C b)"
    "x \<in> set (C b) \<Longrightarrow> x \<in> set (C c) \<Longrightarrow> b = c"
    using assms unfolding buckets_def by blast+
qed

lemma bucket_entry:
  assumes "buckets N T used nxt prv C" "x \<in> set (C b)"
  shows "0 < x \<and> x < T \<and> x \<noteq> N \<or> x = b" "x < N \<Longrightarrow> x = b" "0 < b" "b < N" "used b"
    "\<exists>xs. C b = b # xs \<and> set xs \<subseteq> {N<..<T}"
proof -
  have "C b \<noteq> []" using assms(2) by auto
  then have b: "0 < b" "b < N" "used b" using bucketsD(7) [OF assms(1), of b] by blast+
  then obtain xs where "C b = b # xs" "set xs \<subseteq> {N<..<T}" using bucketsD(6) [OF assms(1)] by blast
  with b show "0 < x \<and> x < T \<and> x \<noteq> N \<or> x = b" "x < N \<Longrightarrow> x = b" "0 < b" "b < N" "used b"
    "\<exists>xs. C b = b # xs \<and> set xs \<subseteq> {N<..<T}" using assms(2) by auto
qed

text \<open>An entry that is used is in a chain.\<close>

lemma bucket_of:
  assumes "buckets N T used nxt prv C" "used x" "0 < x" "x < T" "x \<noteq> N"
  shows "\<exists>b. x \<in> set (C b)"
proof (cases "x < N")
  case True
  then obtain xs where "C x = x # xs" using bucketsD(6) [OF assms(1)] assms by blast
  then show ?thesis by (intro exI [of _ x]) simp
next
  case False
  then show ?thesis using bucketsD(5) [OF assms(1)] assms by simp
qed

lemma bucketsI:
  assumes "\<And>b. 0 < b \<Longrightarrow> b < N \<Longrightarrow> used b \<Longrightarrow> \<exists>xs. C b = b # xs \<and> set xs \<subseteq> {N<..<T}"
    and "\<And>b. \<not> (0 < b \<and> b < N \<and> used b) \<Longrightarrow> C b = []"
    and "\<And>b. C b \<noteq> [] \<Longrightarrow> chained nxt prv (C b)" "\<And>b. C b \<noteq> [] \<Longrightarrow> distinct (C b)"
    and "\<And>b x. x \<in> set (C b) \<Longrightarrow> used x"
    and "\<And>b c x. x \<in> set (C b) \<Longrightarrow> x \<in> set (C c) \<Longrightarrow> b = c"
    and "\<And>x. N < x \<Longrightarrow> x < T \<Longrightarrow> used x \<Longrightarrow> \<exists>b. x \<in> set (C b)"
  shows "buckets N T used nxt prv C"
proof -
  have "if 0 < b \<and> b < N \<and> used b then \<exists>xs. C b = b # xs \<and> set xs \<subseteq> {N<..<T} else C b = []" for b
    using assms(1,2) [of b] by auto
  moreover have "chained nxt prv (C b)" "distinct (C b)" for b
    using assms(3,4) [of b] by (cases "C b = []"; simp)+
  moreover have "set (C b) \<inter> set (C c) = {}" if "b \<noteq> c" for b c
    using assms(6) that by blast
  ultimately show ?thesis using assms(5,7) unfolding buckets_def by blast
qed

text \<open>One chain is replaced, the others stay.\<close>

lemma buckets_update:
  assumes "buckets N T used nxt prv C" "0 < b" "b < N"
    and used': "\<And>x. used' x \<longleftrightarrow> x \<in> set ys \<or> x \<notin> set (C b) \<and> used x"
    and new: "\<And>x. x \<in> set ys \<Longrightarrow> x \<in> set (C b) \<or> \<not> used x"
    and same: "\<And>x. used x \<Longrightarrow> x \<notin> set (C b) \<Longrightarrow> nxt' x = nxt x"
      "\<And>x. used x \<Longrightarrow> x \<notin> set (C b) \<Longrightarrow> prv' x = prv x"
    and ys: "ys = [] \<or> (\<exists>zs. ys = b # zs \<and> set zs \<subseteq> {N<..<T})" "chained nxt' prv' ys" "distinct ys"
  shows "buckets N T used' nxt' prv' (C(b := ys))"
proof -
  note C = bucketsD [OF assms(1)]
  have other: "x \<notin> set (C b)" "used x" if "x \<in> set (C c)" "c \<noteq> b" for x c
    using C(3,4) that by blast+
  have head: "used' c \<longleftrightarrow> used c" if "c \<noteq> b" "0 < c" "c < N" for c
  proof -
    have "c \<notin> set ys"
    proof (cases "ys = []")
      case False
      then obtain zs where "ys = b # zs" "set zs \<subseteq> {N<..<T}" using ys(1) by blast
      then show ?thesis using that by auto
    qed simp
    moreover have "c \<notin> set (C b)" using bucket_entry(2) [OF assms(1), of c b] that by blast
    ultimately show ?thesis using used' by blast
  qed
  have b: "used' b \<longleftrightarrow> ys \<noteq> []"
  proof
    assume "used' b"
    moreover have "b \<in> set (C b)" if used_b: "used b"
    proof -
      from C(6) [OF assms(2,3) used_b] obtain xs where "C b = b # xs" by blast
      then show ?thesis by simp
    qed
    ultimately have "b \<in> set ys" using used' by blast
    then show "ys \<noteq> []" by auto
  next
    assume "ys \<noteq> []"
    then have "b \<in> set ys" using ys(1) by auto
    then show "used' b" using used' by blast
  qed
  show ?thesis
  proof (rule bucketsI)
    fix c assume c: "0 < c" "c < N" "used' c"
    show "\<exists>xs. (C(b := ys)) c = c # xs \<and> set xs \<subseteq> {N<..<T}"
      using b c ys(1) head [of c] C(6) [of c] by (cases "c = b") auto
  next
    fix c assume c: "\<not> (0 < c \<and> c < N \<and> used' c)"
    show "(C(b := ys)) c = []"
      using b c head [of c] C(7) [of c] assms(2,3) by (cases "c = b") auto
  next
    fix c
    have "chained nxt' prv' (C c)" if "c \<noteq> b"
    proof -
      have "chained nxt' prv' (C c) = chained nxt prv (C c)"
      proof (rule chained_cong)
        fix x assume "x \<in> set (C c)"
        then show "nxt' x = nxt x" using same(1) other that by blast
      next
        fix x assume "x \<in> set (tl (C c))"
        then have "x \<in> set (C c)" by (cases "C c") auto
        then show "prv' x = prv x" using same(2) other that by blast
      qed
      then show ?thesis using C(1) by simp
    qed
    then show "chained nxt' prv' ((C(b := ys)) c)" using ys(2) by simp
    show "distinct ((C(b := ys)) c)" using ys(3) C(2) by simp
  next
    fix c x assume "x \<in> set ((C(b := ys)) c)"
    then have "if c = b then x \<in> set ys else x \<in> set (C c)" by (simp split: if_splits)
    then show "used' x" using used' [of x] other [of x c] by (auto split: if_splits)
  next
    have *: "x \<notin> set (C c)" if "x \<in> set ys" "c \<noteq> b" for x c using new other that by blast
    fix c d x assume "x \<in> set ((C(b := ys)) c)" "x \<in> set ((C(b := ys)) d)"
    then have "if c = b then x \<in> set ys else x \<in> set (C c)"
      "if d = b then x \<in> set ys else x \<in> set (C d)" by (simp_all split: if_splits)
    then show "c = d" using * [of x c] * [of x d] C(4) [of x c d] by (auto split: if_splits)
  next
    fix x assume x: "N < x" "x < T" "used' x"
    show "\<exists>c. x \<in> set ((C(b := ys)) c)"
    proof (cases "x \<in> set ys")
      case True
      then show ?thesis by (intro exI [of _ b]) simp
    next
      case False
      then have "x \<notin> set (C b)" "used x" using used' x(3) by blast+
      then obtain c where "x \<in> set (C c)" "c \<noteq> b" using C(5) x by blast
      then show ?thesis by (intro exI [of _ c]) simp
    qed
  qed
qed

text \<open>A chain is started, a chain grows, an entry that is not the first goes, the last one goes.\<close>

lemma buckets_start:
  assumes "buckets N T used nxt prv C" "0 < e" "e < N" "\<not> used e"
    and "nxt' e = 0" "\<And>x. x \<noteq> e \<Longrightarrow> nxt' x = nxt x" "\<And>x. x \<noteq> e \<Longrightarrow> prv' x = prv x"
  shows "buckets N T (used(e := True)) nxt' prv' (C(e := [e]))"
proof (rule buckets_update [OF assms(1-3)])
  have "C e = []" using bucketsD(7) [OF assms(1)] assms(4) by blast
  then show "(used(e := True)) x \<longleftrightarrow> x \<in> set [e] \<or> x \<notin> set (C e) \<and> used x" for x by simp
  fix x assume "used x"
  then have "x \<noteq> e" using assms(4) by blast
  then show "nxt' x = nxt x" "prv' x = prv x" by (rule assms(6), rule assms(7))
qed (simp_all add: assms(4,5))

lemma buckets_append:
  assumes "buckets N T used nxt prv C" "0 < b" "b < N" "used b" "N < e" "e < T" "\<not> used e"
    and "nxt' (last (C b)) = e" "nxt' e = 0" "prv' e = last (C b)"
    and "\<And>x. x \<noteq> e \<Longrightarrow> x \<noteq> last (C b) \<Longrightarrow> nxt' x = nxt x" "\<And>x. x \<noteq> e \<Longrightarrow> prv' x = prv x"
  shows "buckets N T (used(e := True)) nxt' prv' (C(b := C b @ [e]))"
proof (rule buckets_update [OF assms(1-3)])
  note C = bucketsD [OF assms(1)]
  obtain xs where xs: "C b = b # xs" "set xs \<subseteq> {N<..<T}" using C(6) assms(2-4) by blast
  have e: "e \<notin> set (C b)" using C(3) assms(7) by blast
  have last: "last (C b) \<in> set (C b)" using xs by simp
  show "(used(e := True)) x \<longleftrightarrow> x \<in> set (C b @ [e]) \<or> x \<notin> set (C b) \<and> used x" for x
    using C(3) [of x b] by (cases "x = e") auto
  show "x \<in> set (C b) \<or> \<not> used x" if "x \<in> set (C b @ [e])" for x using that assms(7) by auto
  show "nxt' x = nxt x" "prv' x = prv x" if "used x" "x \<notin> set (C b)" for x
  proof -
    have x: "x \<noteq> e" "x \<noteq> last (C b)" using that last assms(7) by blast+
    show "nxt' x = nxt x" by (rule assms(11) [OF x])
    show "prv' x = prv x" by (rule assms(12) [OF x(1)])
  qed
  show "chained nxt' prv' (C b @ [e])"
    by (rule chained_snoc [OF C(1) _ e assms(8-12) C(2)]) (simp add: xs(1))
  show "C b @ [e] = [] \<or> (\<exists>zs. C b @ [e] = b # zs \<and> set zs \<subseteq> {N<..<T})"
    using xs assms(5,6) by simp
  show "distinct (C b @ [e])" using C(2) e by simp
qed

lemma buckets_drop:
  assumes "buckets N T used nxt prv C" "C b = as @ [p, e] @ bs"
    and "nxt' p = nxt e" "\<And>x. x \<noteq> p \<Longrightarrow> x \<noteq> e \<Longrightarrow> nxt' x = nxt x"
    and "\<And>x. x \<noteq> e \<Longrightarrow> x \<noteq> hd (bs @ [e]) \<Longrightarrow> prv' x = prv x" "bs \<noteq> [] \<Longrightarrow> prv' (hd bs) = p"
  shows "buckets N T (used(e := False)) nxt' prv' (C(b := as @ [p] @ bs))"
proof -
  note C = bucketsD [OF assms(1)]
  have p: "p \<in> set (C b)" using assms(2) by simp
  note b = bucket_entry [OF assms(1) p]
  have c: "chained nxt prv (as @ [p, e] @ bs)" using C(1) [of b] assms(2) by simp
  have d: "distinct (as @ [p, e] @ bs)" using C(2) [of b] assms(2) by simp
  have mem: "x \<in> set (C b) \<longleftrightarrow> x \<in> set (as @ [p] @ bs) \<or> x = e" for x using assms(2) by auto
  show ?thesis
  proof (rule buckets_update [OF assms(1) b(3,4)])
    show "(used(e := False)) x \<longleftrightarrow> x \<in> set (as @ [p] @ bs) \<or> x \<notin> set (C b) \<and> used x" for x
      using C(3) [of x b] mem [of x] d by (cases "x = e") auto
    show "x \<in> set (C b) \<or> \<not> used x" if "x \<in> set (as @ [p] @ bs)" for x using that mem by blast
    show "nxt' x = nxt x" "prv' x = prv x" if "used x" "x \<notin> set (C b)" for x
    proof -
      have x: "x \<noteq> p" "x \<noteq> e" "x \<noteq> hd (bs @ [e])" using that assms(2) by (cases bs; auto)+
      show "nxt' x = nxt x" by (rule assms(4) [OF x(1,2)])
      show "prv' x = prv x" by (rule assms(5) [OF x(2,3)])
    qed
    show "chained nxt' prv' (as @ [p] @ bs)" by (rule chained_drop [OF c d assms(3-6)])
    show "as @ [p] @ bs = [] \<or> (\<exists>zs. as @ [p] @ bs = b # zs \<and> set zs \<subseteq> {N<..<T})"
      using b(6) assms(2) by (cases "as") auto
    show "distinct (as @ [p] @ bs)" using d by simp
  qed
qed

lemma buckets_clear:
  assumes "buckets N T used nxt prv C" "C b = [b]"
    and "\<And>x. x \<noteq> b \<Longrightarrow> nxt' x = nxt x" "\<And>x. x \<noteq> b \<Longrightarrow> prv' x = prv x"
  shows "buckets N T (used(b := False)) nxt' prv' (C(b := []))"
proof -
  have "b \<in> set (C b)" using assms(2) by simp
  note b = bucket_entry [OF assms(1) this]
  show ?thesis
  proof (rule buckets_update [OF assms(1) b(3,4)])
    show "(used(b := False)) x \<longleftrightarrow> x \<in> set [] \<or> x \<notin> set (C b) \<and> used x" for x using assms(2) by simp
    fix x assume "x \<notin> set (C b)"
    then have "x \<noteq> b" using assms(2) by simp
    then show "nxt' x = nxt x" "prv' x = prv x" by (rule assms(3), rule assms(4))
  qed simp_all
qed

text \<open>Every entry of a chain but the first has one before it.\<close>

lemma bucket_split:
  assumes "buckets N T used nxt prv C" "e \<in> set (C b)" "e \<noteq> b"
  shows "\<exists>as bs. C b = as @ [prv e, e] @ bs \<and> nxt (prv e) = e \<and>
    (if bs = [] then nxt e = 0 else nxt e = hd bs \<and> prv (hd bs) = e)"
proof -
  obtain us bs where us: "C b = us @ e # bs" using assms(2) by (meson split_list)
  have "us \<noteq> []" using us bucket_entry(6) [OF assms(1,2)] assms(3) by auto
  then obtain "as" p where "us = as @ [p]" by (metis rev_exhaust)
  with us have C: "C b = as @ [p, e] @ bs" by simp
  with bucketsD(1) [OF assms(1), of b] have c: "nxt p = e" "prv e = p" "chained nxt prv (e # bs)"
    using chained_append [of nxt prv "as" p e bs] by auto
  have "if bs = [] then nxt e = 0 else nxt e = hd bs \<and> prv (hd bs) = e"
    using c(3) by (cases bs) auto
  then show ?thesis using C c by (intro exI [of _ "as"] exI [of _ bs]) auto
qed

lemma bucket_head:
  assumes "buckets N T used nxt prv C" "0 < b" "b < N" "used b"
  shows "\<exists>bs. C b = b # bs \<and> (if bs = [] then nxt b = 0 else nxt b = hd bs \<and> prv (hd bs) = b)"
proof -
  obtain bs where bs: "C b = b # bs" using bucketsD(6) [OF assms(1)] assms(2-4) by blast
  then have "if bs = [] then nxt b = 0 else nxt b = hd bs \<and> prv (hd bs) = b"
    using bucketsD(1) [OF assms(1), of b] by (cases bs) auto
  then show ?thesis using bs by blast
qed

end
