(* ===== verification/NatDrvMem.thy ===== *)
theory NatDrvMem
  imports NatDrv NatChain
begin

text \<open>
  The memory of the NAT driver: what a DMA writes where, the contract of the kernel, and the
  tables read as functions of the number of an entry.
\<close>

section \<open>What the kernel does\<close>

definition set_lo :: "u32 \<Rightarrow> u16 \<Rightarrow> u32" where "set_lo w v = (w AND 0xFFFF0000) OR ucast v"
definition set_hi :: "u32 \<Rightarrow> u16 \<Rightarrow> u32" where "set_hi w v = (w AND 0xFFFF) OR push_bit 16 (ucast v)"

text \<open>Sixteen bits at a byte offset of a rule, and of an entry of the index.\<close>

definition rule_write16 :: "nat \<Rightarrow> u16 \<Rightarrow> hw_rule \<Rightarrow> hw_rule" where
  "rule_write16 pos v r =
    (if pos = 0 then r\<lparr>hw_private_ip := set_lo (hw_private_ip r) v\<rparr>
     else if pos = 2 then r\<lparr>hw_private_ip := set_hi (hw_private_ip r) v\<rparr>
     else if pos = 4 then r\<lparr>hw_target_ip := set_lo (hw_target_ip r) v\<rparr>
     else if pos = 6 then r\<lparr>hw_target_ip := set_hi (hw_target_ip r) v\<rparr>
     else if pos = 8 then r\<lparr>nxt_indx_pub_port := set_lo (nxt_indx_pub_port r) v\<rparr>
     else if pos = 10 then r\<lparr>nxt_indx_pub_port := set_hi (nxt_indx_pub_port r) v\<rparr>
     else if pos = 12 then r\<lparr>hw_private_port := v\<rparr>
     else if pos = 14 then r\<lparr>hw_target_port := v\<rparr>
     else if pos = 16 then r\<lparr>ip_cksm_enbl := set_lo (ip_cksm_enbl r) v\<rparr>
     else if pos = 18 then r\<lparr>ip_cksm_enbl := set_hi (ip_cksm_enbl r) v\<rparr>
     else if pos = 20 then r\<lparr>ts_proto := set_lo (ts_proto r) v\<rparr>
     else if pos = 22 then r\<lparr>ts_proto := set_hi (ts_proto r) v\<rparr>
     else if pos = 24 then r\<lparr>sw_spec_params := set_lo (sw_spec_params r) v\<rparr>
     else if pos = 26 then r\<lparr>sw_spec_params := set_hi (sw_spec_params r) v\<rparr>
     else if pos = 28 then r\<lparr>hw_rsvd2 := v\<rparr>
     else r\<lparr>hw_tcp_udp_chksum := v\<rparr>)"

definition index_write16 :: "nat \<Rightarrow> u16 \<Rightarrow> u32 \<Rightarrow> u32" where
  "index_write16 pos v w = (if pos = 0 then set_lo w v else set_hi w v)"

definition dma_write :: "nat_dma_one \<Rightarrow> nat_mem \<Rightarrow> nat_mem" where
  "dma_write c m =
    (let ofs = unat (dma_offset c); v = dma_data c
     in case dma_base_addr c of
          IPA_NAT_BASE_TBL \<Rightarrow>
            m\<lparr>base_rules := (base_rules m)[ofs div 32 :=
                rule_write16 (ofs mod 32) v (base_rules m ! (ofs div 32))]\<rparr>
        | IPA_NAT_EXPN_TBL \<Rightarrow>
            m\<lparr>expn_rules := (expn_rules m)[ofs div 32 :=
                rule_write16 (ofs mod 32) v (expn_rules m ! (ofs div 32))]\<rparr>
        | IPA_NAT_INDX_TBL \<Rightarrow>
            m\<lparr>index_table := (index_table m)[ofs div 4 :=
                index_write16 (ofs mod 4) v (index_table m ! (ofs div 4))]\<rparr>
        | IPA_NAT_INDEX_EXPN_TBL \<Rightarrow>
            m\<lparr>index_expn := (index_expn m)[ofs div 4 :=
                index_write16 (ofs mod 4) v (index_expn m ! (ofs div 4))]\<rparr>)"

definition dma_in_range :: "nat_mem \<Rightarrow> nat_dma_one \<Rightarrow> bool" where
  "dma_in_range m c \<longleftrightarrow>
    (let ofs = unat (dma_offset c)
     in even ofs \<and>
        (case dma_base_addr c of
           IPA_NAT_BASE_TBL \<Rightarrow> ofs div 32 < length (base_rules m)
         | IPA_NAT_EXPN_TBL \<Rightarrow> ofs div 32 < length (expn_rules m)
         | IPA_NAT_INDX_TBL \<Rightarrow> ofs div 4 < length (index_table m)
         | IPA_NAT_INDEX_EXPN_TBL \<Rightarrow> ofs div 4 < length (index_expn m)))"

text \<open>
  The kernel allocates what it is asked for, and executes DMA commands on the tables in their
  order.
\<close>

definition dma_works :: "'k nat_kernel \<Rightarrow> bool" where
  "dma_works K \<longleftrightarrow>
    (\<forall>k. fst (k_malloc K k)) \<and>
    (\<forall>cmds m k. list_all (dma_in_range m) cmds \<longrightarrow>
       fst (k_dma K cmds m k) \<and> fst (snd (k_dma K cmds m k)) = fold dma_write cmds m)"

section \<open>Bits\<close>

lemma half_masks: "(0xFFFF :: u32) = mask 16" "(0xFFFF0000 :: u32) = push_bit 16 (mask 16)"
  by (simp_all add: mask_eq_exp_minus_1)

lemma lo_set [simp]: "lo16 (set_lo w v) = v" "lo16 (set_hi w v) = lo16 w"
  "hi16 (set_hi w v) = v" "hi16 (set_lo w v) = hi16 w"
  unfolding set_lo_def set_hi_def half_masks
  by (rule bit_word_eqI; auto simp: bit_simps dest: bit_imp_le_length)+

lemma word_of_halves [simp]: "lo16 (word_of lo hi) = lo" "hi16 (word_of lo hi) = hi"
  unfolding word_of_def by (rule bit_word_eqI; auto simp: bit_simps dest: bit_imp_le_length)+

lemma high_bits: "(0x8000 :: u16) = push_bit 15 1" "(0xFF00 :: u16) = push_bit 8 (mask 8)"
  by (simp_all add: mask_eq_exp_minus_1)

lemma bits_le:
  "bit w n \<Longrightarrow> n < 32" "bit v n \<Longrightarrow> n < 16" "bit x n \<Longrightarrow> n < 24" "bit y n \<Longrightarrow> n < 14" "bit z n \<Longrightarrow> n < 8"
  for w :: u32 and v :: u16 and x :: "24 word" and y :: "14 word" and z :: u8
  by (auto dest: bit_imp_le_length)

lemma enable_bit: "(ucast (drop_bit 31 w) :: u16) \<noteq> 0 \<longleftrightarrow> bit w 31" for w :: u32
proof -
  have *: "bit (ucast (drop_bit 31 w) :: u16) n \<longleftrightarrow> n = 0 \<and> bit w 31" for n
    using bits_le(1) [of w "31 + n"] by (cases n) (auto simp: bit_simps)
  show ?thesis
  proof
    assume "(ucast (drop_bit 31 w) :: u16) \<noteq> 0"
    then obtain n where "bit (ucast (drop_bit 31 w) :: u16) n" by (auto simp: bit_eq_iff)
    then show "bit w 31" unfolding * by simp
  next
    assume "bit w 31"
    then have "bit (ucast (drop_bit 31 w) :: u16) 0" unfolding * by simp
    then show "(ucast (drop_bit 31 w) :: u16) \<noteq> 0" by (metis bit_0_eq bot_apply bot_bool_def)
  qed
qed

lemma rule_enabled_writes [simp]:
  "bit (set_hi w 0x8000) 31" "\<not> bit (set_hi w 0) 31" "bit (set_lo w v) 31 = bit w 31"
  using bits_le(2) [of v 31]
  unfolding set_lo_def set_hi_def half_masks high_bits by (auto simp: bit_simps)

lemma protocol_write [simp]: "(ucast (drop_bit 24 (set_hi w 0xFF00)) :: u8) = 0xFF"
proof -
  have "(ucast (drop_bit 24 (set_hi w 0xFF00)) :: u8) = mask 8"
    unfolding set_hi_def half_masks high_bits
    by (rule bit_word_eqI) (auto simp: bit_simps dest: bits_le)
  also have "(mask 8 :: u8) = 0xFF" by (simp add: mask_eq_exp_minus_1)
  finally show ?thesis .
qed

lemma hw_rule_of_fields [simp]:
  "lo16 (nxt_indx_pub_port (hw_rule_of sw)) = next_index sw"
  "hi16 (nxt_indx_pub_port (hw_rule_of sw)) = sw_public_port sw"
  "lo16 (sw_spec_params (hw_rule_of sw)) = prev_index sw"
  "hi16 (sw_spec_params (hw_rule_of sw)) = indx_tbl_entry sw"
  "bit (ip_cksm_enbl (hw_rule_of sw)) 31 = enable sw"
  "(ucast (drop_bit 24 (ts_proto (hw_rule_of sw))) :: u8) = sw_protocol sw"
  "hw_private_ip (hw_rule_of sw) = sw_private_ip sw" "hw_target_ip (hw_rule_of sw) = sw_target_ip sw"
  "hw_private_port (hw_rule_of sw) = sw_private_port sw"
  "hw_target_port (hw_rule_of sw) = sw_target_port sw"
  by (simp_all add: hw_rule_of_def)
    (auto simp: bit_simps dest: bits_le intro!: bit_word_eqI)

lemma UpdateSwSpecParams_fields [simp]:
  "UpdateSwSpecParams IPA_NAT_SW_PARAM_PREV_INDX_BYTE (ucast v) r =
     r\<lparr>sw_spec_params := set_lo (sw_spec_params r) v\<rparr>"
  "UpdateSwSpecParams IPA_NAT_SW_PARAM_INDX_TBL_ENTRY_BYTE (ucast v) r =
     r\<lparr>sw_spec_params := set_hi (sw_spec_params r) v\<rparr>"
  by (simp_all add: UpdateSwSpecParams_def set_lo_def set_hi_def)

section \<open>The tables as functions\<close>

abbreviation tblN :: "nat_tbl \<Rightarrow> nat" where "tblN t \<equiv> unat (table_entries t)"
abbreviation tblX :: "nat_tbl \<Rightarrow> nat" where "tblX t \<equiv> unat (expn_table_entries t)"

definition tbl_sizes_ok :: "nat_tbl \<Rightarrow> bool" where
  "tbl_sizes_ok t \<longleftrightarrow>
     2 \<le> tblN t \<and> tblN t \<le> 2 ^ 14 \<and> 2 \<le> tblX t \<and> tblX t \<le> 2 ^ 14 \<and>
     length (base_rules (tables t)) = tblN t \<and> length (expn_rules (tables t)) = tblX t \<and>
     length (index_table (tables t)) = tblN t \<and> length (index_expn (tables t)) = tblX t \<and>
     length (index_expn_meta t) = tblX t \<and> length (rule_id_array t) = tblN t + tblX t \<and>
     tbl_addr_offset t = 0 \<and> valid t"

definition rule_at :: "nat_tbl \<Rightarrow> nat \<Rightarrow> hw_rule" where
  "rule_at t e =
    (if e < tblN t then base_rules (tables t) ! e else expn_rules (tables t) ! (e - tblN t))"

definition word_at :: "nat_tbl \<Rightarrow> nat \<Rightarrow> u32" where
  "word_at t i =
    (if i < tblN t then index_table (tables t) ! i else index_expn (tables t) ! (i - tblN t))"

definition meta_at :: "nat_tbl \<Rightarrow> nat \<Rightarrow> u16" where
  "meta_at t i = index_expn_meta t ! (i - tblN t)"

definition put_rule :: "nat \<Rightarrow> hw_rule \<Rightarrow> nat_tbl \<Rightarrow> nat_tbl" where
  "put_rule e r t =
    t\<lparr>tables :=
      (if e < tblN t then (tables t)\<lparr>base_rules := (base_rules (tables t))[e := r]\<rparr>
       else (tables t)\<lparr>expn_rules := (expn_rules (tables t))[e - tblN t := r]\<rparr>)\<rparr>"

definition put_word :: "nat \<Rightarrow> u32 \<Rightarrow> nat_tbl \<Rightarrow> nat_tbl" where
  "put_word i w t =
    t\<lparr>tables :=
      (if i < tblN t then (tables t)\<lparr>index_table := (index_table (tables t))[i := w]\<rparr>
       else (tables t)\<lparr>index_expn := (index_expn (tables t))[i - tblN t := w]\<rparr>)\<rparr>"

definition put_meta :: "nat \<Rightarrow> u16 \<Rightarrow> nat_tbl \<Rightarrow> nat_tbl" where
  "put_meta i p t = t\<lparr>index_expn_meta := (index_expn_meta t)[i - tblN t := p]\<rparr>"

lemma put_fields [simp]:
  "table_entries (put_rule e r t) = table_entries t"
  "expn_table_entries (put_rule e r t) = expn_table_entries t"
  "index_expn_meta (put_rule e r t) = index_expn_meta t"
  "rule_id_array (put_rule e r t) = rule_id_array t" "public_addr (put_rule e r t) = public_addr t"
  "table_entries (put_word i w t) = table_entries t"
  "expn_table_entries (put_word i w t) = expn_table_entries t"
  "index_expn_meta (put_word i w t) = index_expn_meta t"
  "rule_id_array (put_word i w t) = rule_id_array t" "public_addr (put_word i w t) = public_addr t"
  "table_entries (put_meta i p t) = table_entries t"
  "expn_table_entries (put_meta i p t) = expn_table_entries t"
  "tables (put_meta i p t) = tables t"
  "rule_id_array (put_meta i p t) = rule_id_array t" "public_addr (put_meta i p t) = public_addr t"
  "tbl_addr_offset (put_rule e r t) = tbl_addr_offset t"
  "tbl_addr_offset (put_word i w t) = tbl_addr_offset t"
  "tbl_addr_offset (put_meta i p t) = tbl_addr_offset t"
  by (simp_all add: put_rule_def put_word_def put_meta_def)

lemma sizes_ok_puts [simp]:
  "tbl_sizes_ok (put_rule e r t) = tbl_sizes_ok t" "tbl_sizes_ok (put_word i w t) = tbl_sizes_ok t"
  "tbl_sizes_ok (put_meta i p t) = tbl_sizes_ok t"
  by (auto simp: tbl_sizes_ok_def put_rule_def put_word_def put_meta_def)

lemma puts_at [simp]:
  "rule_at (put_word i w t) e = rule_at t e" "rule_at (put_meta i p t) e = rule_at t e"
  "word_at (put_rule e r t) i = word_at t i" "word_at (put_meta i p t) j = word_at t j"
  "meta_at (put_rule e r t) i = meta_at t i" "meta_at (put_word i w t) j = meta_at t j"
  by (auto simp: rule_at_def word_at_def meta_at_def put_rule_def put_word_def put_meta_def)

lemma put_at:
  "tbl_sizes_ok t \<Longrightarrow> e < all_entries t \<Longrightarrow> rule_at (put_rule e r t) x = (if x = e then r else rule_at t x)"
  "tbl_sizes_ok t \<Longrightarrow> i < all_entries t \<Longrightarrow> word_at (put_word i w t) x = (if x = i then w else word_at t x)"
  by (auto simp: rule_at_def put_rule_def word_at_def put_word_def all_entries_def tbl_sizes_ok_def nth_list_update)

lemma put_meta_at:
  "tbl_sizes_ok t \<Longrightarrow> tblN t \<le> i \<Longrightarrow> i < all_entries t \<Longrightarrow> tblN t \<le> x \<Longrightarrow>
   meta_at (put_meta i p t) x = (if x = i then p else meta_at t x)"
  by (auto simp: meta_at_def put_meta_def all_entries_def tbl_sizes_ok_def nth_list_update)

end
