(* ===== verification/NatDrvOps.thy ===== *)
theory NatDrvOps
  imports NatDrvMem
begin

text \<open>
  What the steps of the NAT driver do, over the tables read by the number of an entry: where a
  new rule goes, the DMA commands as writes of one entry, adding and deleting as a whole.
\<close>

section \<open>The fields of the tables as numbers\<close>

abbreviation used_at :: "nat_tbl \<Rightarrow> nat \<Rightarrow> bool" where "used_at t e \<equiv> bit (ip_cksm_enbl (rule_at t e)) 31"
abbreviation next_at :: "nat_tbl \<Rightarrow> nat \<Rightarrow> nat" where
  "next_at t e \<equiv> unat (lo16 (nxt_indx_pub_port (rule_at t e)))"
abbreviation prev_at :: "nat_tbl \<Rightarrow> nat \<Rightarrow> nat" where
  "prev_at t e \<equiv> unat (lo16 (sw_spec_params (rule_at t e)))"
abbreviation indx_at :: "nat_tbl \<Rightarrow> nat \<Rightarrow> nat" where
  "indx_at t e \<equiv> unat (hi16 (sw_spec_params (rule_at t e)))"
abbreviation ent_at :: "nat_tbl \<Rightarrow> nat \<Rightarrow> nat" where "ent_at t i \<equiv> unat (lo16 (word_at t i))"
abbreviation inext_at :: "nat_tbl \<Rightarrow> nat \<Rightarrow> nat" where "inext_at t i \<equiv> unat (hi16 (word_at t i))"
abbreviation iprev_at :: "nat_tbl \<Rightarrow> nat \<Rightarrow> nat" where "iprev_at t i \<equiv> unat (meta_at t i)"

abbreviation tblT :: "nat_tbl \<Rightarrow> nat" where "tblT t \<equiv> tblN t + tblX t"

lemma tbl_sizes_okD:
  assumes "tbl_sizes_ok t"
  shows "2 \<le> tblN t" "tblN t \<le> 2 ^ 14" "2 \<le> tblX t" "tblX t \<le> 2 ^ 14"
    "length (base_rules (tables t)) = tblN t" "length (expn_rules (tables t)) = tblX t"
    "length (index_table (tables t)) = tblN t" "length (index_expn (tables t)) = tblX t"
    "length (index_expn_meta t) = tblX t" "length (rule_id_array t) = tblT t"
    "tbl_addr_offset t = 0" "valid t" "all_entries t = tblT t"
  using assms by (simp_all add: tbl_sizes_ok_def all_entries_def)

text \<open>Comparing and subtracting entries as words is comparing and subtracting numbers.\<close>

lemma unat_sub: "\<not> x < y \<Longrightarrow> unat (x - y) = unat x - unat y" for x y :: u16
  by (simp add: unat_sub_if_size word_less_nat_alt)

lemma unat_add: "unat x + unat y < 2 ^ 16 \<Longrightarrow> unat (x + y) = unat x + unat y" for x y :: u16
  by (simp add: unat_plus_if_size word_size)

lemma at_expn:
  assumes "tbl_sizes_ok t" "\<not> e < table_entries t" "unat e < tblT t"
  shows "unat (e - table_entries t) = unat e - tblN t" "unat e - tblN t < tblX t" "\<not> unat e < tblN t"
  using assms(2,3) by (auto simp: unat_sub word_less_nat_alt)

lemma unat_offset:
  fixes e :: u16
  assumes "unat e < 2 ^ 14" "unat pos < 32"
  shows "unat (ucast e * 32 + pos :: u32) = unat e * 32 + unat pos"
    "unat (ucast e * 4 + pos :: u32) = unat e * 4 + unat pos"
proof -
  have u: "unat (ucast e :: u32) = unat e"
    using assms(1) by (simp add: unsigned_ucast_eq take_bit_nat_eq_self)
  have m: "unat (ucast e * 32 :: u32) = unat e * 32" "unat (ucast e * 4 :: u32) = unat e * 4"
    using assms(1) by (simp_all add: unat_mult_lem [THEN iffD1] u)
  show "unat (ucast e * 32 + pos :: u32) = unat e * 32 + unat pos"
    "unat (ucast e * 4 + pos :: u32) = unat e * 4 + unat pos"
    using assms by (simp_all add: unat_add_lem [THEN iffD1] m)
qed

section \<open>DMA commands\<close>

definition rule_cmd :: "nat_tbl \<Rightarrow> u16 \<Rightarrow> u32 \<Rightarrow> u16 \<Rightarrow> nat_dma_one" where
  "rule_cmd t e pos v =
    (if e < table_entries t then dma_cmd IPA_NAT_BASE_TBL (ucast e * 32 + pos) v
     else dma_cmd IPA_NAT_EXPN_TBL (ucast (e - table_entries t) * 32 + pos) v)"

definition index_cmd :: "nat_tbl \<Rightarrow> u16 \<Rightarrow> u32 \<Rightarrow> u16 \<Rightarrow> nat_dma_one" where
  "index_cmd t i pos v =
    (if i < table_entries t then dma_cmd IPA_NAT_INDX_TBL (ucast i * 4 + pos) v
     else dma_cmd IPA_NAT_INDEX_EXPN_TBL (ucast (i - table_entries t) * 4 + pos) v)"

lemma rule_offset:
  fixes e :: u16
  assumes "unat e < 2 ^ 14" "unat pos < 32" "even (unat pos)"
  shows "unat (ucast e * 32 + pos :: u32) div 32 = unat e" "unat (ucast e * 32 + pos :: u32) mod 32 = unat pos"
    "even (unat (ucast e * 32 + pos :: u32))"
  using assms by (simp_all only: unat_offset) simp_all

lemma index_offset:
  fixes e :: u16
  assumes "unat e < 2 ^ 14" "pos = 0 \<or> pos = 2"
  shows "unat (ucast e * 4 + pos :: u32) div 4 = unat e" "unat (ucast e * 4 + pos :: u32) mod 4 = unat pos"
    "even (unat (ucast e * 4 + pos :: u32))"
proof -
  have p: "unat pos < 32" "unat pos < 4" "even (unat pos)" using assms(2) by auto
  show "unat (ucast e * 4 + pos :: u32) div 4 = unat e" "unat (ucast e * 4 + pos :: u32) mod 4 = unat pos"
    "even (unat (ucast e * 4 + pos :: u32))"
    using p by (simp_all only: unat_offset(2) [OF assms(1) p(1)]) simp_all
qed

lemma in_expn:
  assumes "tbl_sizes_ok t" "unat e < tblT t" "\<not> e < table_entries t"
  shows "unat (e - table_entries t) < 2 ^ 14" "unat (e - table_entries t) < tblX t" "\<not> unat e < tblN t"
    "unat (e - table_entries t) = unat e - tblN t"
  using at_expn [OF assms(1,3,2)] tbl_sizes_okD(4) [OF assms(1)] by simp_all

lemma in_base:
  assumes "tbl_sizes_ok t" "e < table_entries t"
  shows "unat e < 2 ^ 14" "unat e < tblN t"
  using assms tbl_sizes_okD(2) [OF assms(1)] by (simp_all add: word_less_nat_alt)

lemma rule_cmd_write:
  assumes "tbl_sizes_ok t" "unat e < tblT t" "unat pos < 32" "even (unat pos)"
  shows "dma_in_range (tables t) (rule_cmd t e pos v) \<and>
    t\<lparr>tables := dma_write (rule_cmd t e pos v) (tables t)\<rparr> =
       put_rule (unat e) (rule_write16 (unat pos) v (rule_at t (unat e))) t"
proof (cases "e < table_entries t")
  case True
  note e = in_base [OF assms(1) True]
  show ?thesis using e True tbl_sizes_okD(5) [OF assms(1)]
    by (simp add: rule_cmd_def dma_cmd_def dma_in_range_def dma_write_def Let_def put_rule_def
        rule_at_def rule_offset [OF e(1) assms(3,4)])
next
  case False
  note e = in_expn [OF assms(1,2) False]
  show ?thesis using e(2,3) False tbl_sizes_okD(6) [OF assms(1)]
    by (simp add: rule_cmd_def dma_cmd_def dma_in_range_def dma_write_def Let_def put_rule_def
        rule_at_def rule_offset [OF e(1) assms(3,4)] e(4) [symmetric] del: e(4))
qed

lemma index_cmd_write:
  assumes "tbl_sizes_ok t" "unat i < tblT t" "pos = 0 \<or> pos = 2"
  shows "dma_in_range (tables t) (index_cmd t i pos v) \<and>
    t\<lparr>tables := dma_write (index_cmd t i pos v) (tables t)\<rparr> =
       put_word (unat i) (index_write16 (unat pos) v (word_at t (unat i))) t"
proof (cases "i < table_entries t")
  case True
  note e = in_base [OF assms(1) True]
  show ?thesis using e True tbl_sizes_okD(7) [OF assms(1)]
    by (simp add: index_cmd_def dma_cmd_def dma_in_range_def dma_write_def Let_def put_word_def
        word_at_def index_offset [OF e(1) assms(3)])
next
  case False
  note e = in_expn [OF assms(1,2) False]
  show ?thesis using e(2,3) False tbl_sizes_okD(8) [OF assms(1)]
    by (simp add: index_cmd_def dma_cmd_def dma_in_range_def dma_write_def Let_def put_word_def
        word_at_def index_offset [OF e(1) assms(3)] e(4) [symmetric] del: e(4))
qed

text \<open>The commands of the code are of these two kinds.\<close>

lemma prev_next_cmd_is:
  assumes "tbl_sizes_ok t"
  shows "prev_next_cmd t p d = rule_cmd t p 8 d" "index_prev_next_cmd t p d = index_cmd t p 2 d"
  using tbl_sizes_okD(11) [OF assms]
  by (auto simp: prev_next_cmd_def rule_cmd_def index_prev_next_cmd_def index_cmd_def
      ipa_nati_get_entry_offset_def ipa_nati_get_index_entry_offset_def
      IPA_NAT_RULE_NEXT_FIELD_OFFSET_def IPA_NAT_INDEX_RULE_NEXT_FIELD_OFFSET_def)

section \<open>Where a new rule goes\<close>

lemma chain_last_chain:
  assumes "chained nxt prv ys" "distinct ys" "ys \<noteq> []" "0 \<notin> set ys" "unat n = hd ys"
    and "\<And>w. unat w \<in> set ys \<Longrightarrow> \<exists>v. f w = Some v \<and> unat v = nxt (unat w)"
  shows "\<exists>l. chain_last f p n = Some (Some l) \<and> unat l = last ys"
  using assms
proof (induction nxt prv ys arbitrary: p n rule: chained.induct)
  case (2 nxt prv x)
  then have n: "n \<noteq> 0" by auto
  obtain v where "f n = Some v" "unat v = nxt (unat n)" using 2(6) [of n] 2(5) by auto
  then have "f n = Some 0" using 2(1,5) by (simp add: unat_eq_zero)
  then show ?case using n 2(5) by (simp add: chain_last.simps)
next
  case (3 nxt prv x y xs)
  from 3(6) have nx: "unat n = x" by simp
  then have n: "n \<noteq> 0" using 3(5) by auto
  obtain v where v: "f n = Some v" "unat v = nxt (unat n)" using 3(7) [of n] nx by auto
  then have vy: "unat v = y" "n \<noteq> v" using 3(2,3) nx by auto
  obtain l where "chain_last f n v = Some (Some l)" "unat l = last (y # xs)"
    using 3(1) [of v n] 3(2-5,7) vy(1) by auto
  then show ?case using n v(1) vy(2) by (simp add: chain_last.simps [of f p n])
qed simp

lemma free_entry_spec:
  assumes "\<And>c. c \<in> set cnts \<Longrightarrow> 0 < c \<and> c < length tbl \<and> c < 2 ^ 16"
  shows "\<exists>e. free_entry used tbl cnts = Some e \<and>
    (if e = 0 then \<forall>c \<in> set cnts. used (tbl ! c) else unat e \<in> set cnts \<and> \<not> used (tbl ! unat e))"
  using assms
proof (induction cnts)
  case (Cons c cnts)
  have c0: "0 < c" "c < length tbl" "unat (of_nat c :: u16) = c"
    using Cons.prems [of c] by (auto simp: unat_of_nat take_bit_nat_eq_self)
  then have c: "0 < c" "c < length tbl" "unat (of_nat c :: u16) = c" "(of_nat c :: u16) \<noteq> 0"
    by auto
  have "\<exists>e. free_entry used tbl cnts = Some e \<and>
      (if e = 0 then \<forall>c \<in> set cnts. used (tbl ! c) else unat e \<in> set cnts \<and> \<not> used (tbl ! unat e))"
    using Cons by simp
  then show ?case using c by (cases "used (tbl ! c)") (auto simp: rd_def split: if_splits)
qed simp

lemma expn_range: "tbl_sizes_ok t \<Longrightarrow> c \<in> set [1..<tblX t] \<Longrightarrow> 0 < c \<and> c < tblX t \<and> c < 2 ^ 16"
  using tbl_sizes_okD(4) [of t] by auto

lemma expn_free:
  assumes "tbl_sizes_ok t"
  shows "\<exists>e. ipa_nati_expn_tbl_free_entry t = Some e \<and>
    (if e = 0 then \<forall>x. tblN t < x \<longrightarrow> x < tblT t \<longrightarrow> used_at t x
     else unat (e + table_entries t) = unat e + tblN t \<and> 0 < unat e \<and> unat e < tblX t \<and>
       \<not> used_at t (unat e + tblN t))"
proof -
  note s = tbl_sizes_okD [OF assms]
  obtain e where e: "ipa_nati_expn_tbl_free_entry t = Some e"
    "if e = 0 then \<forall>c \<in> set [1..<tblX t]. rule_enabled (expn_rules (tables t) ! c)
     else unat e \<in> set [1..<tblX t] \<and> \<not> rule_enabled (expn_rules (tables t) ! unat e)"
    using free_entry_spec [of "[1..<tblX t]" "expn_rules (tables t)" "\<lambda>r. rule_enabled r",
        unfolded s(6), OF expn_range [OF assms]] unfolding ipa_nati_expn_tbl_free_entry_def by blast
  note e = e [unfolded Read16BitFieldValue.simps enable_bit]
  show ?thesis
  proof (cases "e = 0")
    case True
    have "used_at t x" if "tblN t < x" "x < tblT t" for x
    proof -
      have "x - tblN t \<in> set [1..<tblX t]" using that by auto
      then show ?thesis using e(2) True that bspec by (fastforce simp: rule_at_def)
    qed
    then show ?thesis using e(1) True by simp
  next
    case False
    then show ?thesis using e s(2,4) by (auto simp: rule_at_def unat_add)
  qed
qed

lemma index_expn_free:
  assumes "tbl_sizes_ok t"
  shows "\<exists>e. ipa_nati_index_expn_get_free_entry t = Some e \<and>
    (if e = 0 then \<forall>x. tblN t < x \<longrightarrow> x < tblT t \<longrightarrow> ent_at t x \<noteq> 0
     else unat (e + table_entries t) = unat e + tblN t \<and> 0 < unat e \<and> unat e < tblX t \<and>
       ent_at t (unat e + tblN t) = 0)"
proof -
  note s = tbl_sizes_okD [OF assms]
  obtain e where e: "ipa_nati_index_expn_get_free_entry t = Some e"
    "if e = 0 then \<forall>c \<in> set [1..<tblX t]. indx_entry (index_expn (tables t) ! c) \<noteq> 0
     else unat e \<in> set [1..<tblX t] \<and> \<not> indx_entry (index_expn (tables t) ! unat e) \<noteq> 0"
    using free_entry_spec [of "[1..<tblX t]" "index_expn (tables t)" "\<lambda>w. indx_entry w \<noteq> 0",
        unfolded s(8), OF expn_range [OF assms]] unfolding ipa_nati_index_expn_get_free_entry_def by blast
  note e = e [unfolded Read16BitFieldValue.simps]
  show ?thesis
  proof (cases "e = 0")
    case True
    have "ent_at t x \<noteq> 0" if "tblN t < x" "x < tblT t" for x
    proof -
      have "x - tblN t \<in> set [1..<tblX t]" using that by auto
      then show ?thesis using e(2) True that bspec by (fastforce simp: word_at_def unat_eq_zero)
    qed
    then show ?thesis using e(1) True by simp
  next
    case False
    then show ?thesis using e s(2,4) by (auto simp: word_at_def unat_add unat_eq_zero)
  qed
qed

lemma expn_nexts:
  assumes "tbl_sizes_ok t" "tblN t < unat w" "unat w < tblT t"
  shows "expn_next t w = Some (lo16 (nxt_indx_pub_port (rule_at t (unat w))))"
    "index_expn_next t w = Some (hi16 (word_at t (unat w)))"
proof -
  have w: "\<not> w < table_entries t" using assms(2) by (simp add: word_less_nat_alt)
  note e = at_expn [OF assms(1) w assms(3)]
  show "expn_next t w = Some (lo16 (nxt_indx_pub_port (rule_at t (unat w))))"
    "index_expn_next t w = Some (hi16 (word_at t (unat w)))"
    using e tbl_sizes_okD(6,8) [OF assms(1)]
    by (simp_all add: expn_next_def index_expn_next_def rd_def rule_at_def word_at_def)
qed

text \<open>The end of the chain that starts at an entry in use.\<close>

lemma chain_end:
  assumes B: "buckets N T used nxt prv C" "0 < b" "b < N" "used b" and n: "unat n = nxt b" "unat w = b"
    and f: "\<And>w. N < unat w \<Longrightarrow> unat w < T \<Longrightarrow> \<exists>v. f w = Some v \<and> unat v = nxt (unat w)"
  shows "\<exists>l. (if n = 0 then Some (Some w) else chain_last f 0 n) = Some (Some l) \<and> unat l = last (C b)"
proof -
  obtain bs where bs: "C b = b # bs" "if bs = [] then nxt b = 0 else nxt b = hd bs \<and> prv (hd bs) = b"
    using bucket_head [OF B] by blast
  have xs: "set bs \<subseteq> {N<..<T}" using bucketsD(6) [OF B] bs(1) by auto
  show ?thesis
  proof (cases "bs = []")
    case True
    then have "n = 0" using bs(2) n(1) by (simp add: unat_eq_zero)
    then show ?thesis using True bs(1) n(2) by simp
  next
    case False
    have "hd bs \<in> set bs" using False by simp
    then have "N < hd bs" using xs by auto
    then have "n \<noteq> 0" using bs(2) False n(1) by auto
    have "chained nxt prv bs"
      using bucketsD(1) [OF B(1), of b] bs(1) False by (cases bs) auto
    moreover have "distinct bs" using bucketsD(2) [OF B(1), of b] bs(1) by simp
    moreover have "unat n = hd bs" "0 \<notin> set bs" using bs(2) False n(1) xs by auto
    moreover have "\<exists>v. f w = Some v \<and> unat v = nxt (unat w)" if "unat w \<in> set bs" for w
    proof -
      have "N < unat w" "unat w < T" using that xs by auto
      then show ?thesis by (rule f)
    qed
    ultimately obtain l where "chain_last f 0 n = Some (Some l)" "unat l = last bs"
      using chain_last_chain [OF _ _ False, of nxt prv n f 0] by blast
    then show ?thesis using \<open>n \<noteq> 0\<close> bs(1) False by simp
  qed
qed

lemma hash_in_table:
  assumes "tbl_sizes_ok t"
  shows "0 < unat (dst_hash ip p q pr (table_entries t - 1))"
    "unat (dst_hash ip p q pr (table_entries t - 1)) < tblN t"
    "0 < unat (src_hash ip p ip' q pr (table_entries t - 1))"
    "unat (src_hash ip p ip' q pr (table_entries t - 1)) < tblN t"
proof -
  have "\<not> table_entries t < 1" using tbl_sizes_okD(1) [OF assms] by (simp add: word_less_nat_alt)
  from unat_sub [OF this] have u: "unat (table_entries t - 1) = tblN t - 1" by simp
  then have z: "table_entries t - 1 \<noteq> 0" using tbl_sizes_okD(1) [OF assms] by (auto simp: unat_eq_zero [symmetric])
  show "0 < unat (dst_hash ip p q pr (table_entries t - 1))"
    "0 < unat (src_hash ip p ip' q pr (table_entries t - 1))"
    using dst_hash_range(1) [OF z] src_hash_range(1) [OF z] by (simp_all add: unat_gt_0)
  show "unat (dst_hash ip p q pr (table_entries t - 1)) < tblN t"
    "unat (src_hash ip p ip' q pr (table_entries t - 1)) < tblN t"
    using dst_hash_range(2) [OF z, of ip p q pr] src_hash_range(2) [OF z, of ip p ip' q pr] u
      tbl_sizes_okD(1) [OF assms] by (simp_all add: word_le_nat_alt)
qed

text \<open>Where a chain of rules, and one of the index, goes on: a free entry and the one before it.\<close>

definition place :: "nat \<Rightarrow> nat \<Rightarrow> (nat \<Rightarrow> bool) \<Rightarrow> (nat \<Rightarrow> nat list) \<Rightarrow> nat \<Rightarrow> nat \<Rightarrow> nat \<Rightarrow> bool" where
  "place N T used C b e p \<longleftrightarrow>
     (if e = 0 then used b \<and> (\<forall>x. N < x \<longrightarrow> x < T \<longrightarrow> used x)
      else e < T \<and> \<not> used e \<and>
           (if used b then N < e \<and> p = last (C b) else p = 0 \<and> e = b))"

lemma generate_tbl_rule_place:
  assumes "tbl_sizes_ok t" "buckets (tblN t) (tblT t) (used_at t) (next_at t) (prev_at t) C"
    and "b = unat (dst_hash (r_target_ip c) (r_target_port c) (r_public_port c) (r_protocol c)
           (table_entries t - 1))"
  shows "\<exists>p e. ipa_nati_generate_tbl_rule c t =
      Some ((client_sw_rule (public_addr t) c)\<lparr>prev_index := p\<rparr>, e) \<and>
    place (tblN t) (tblT t) (used_at t) C b (unat e) (unat p)"
proof -
  let ?b = "dst_hash (r_target_ip c) (r_target_port c) (r_public_port c) (r_protocol c)
    (table_entries t - 1)"
  let ?sw = "client_sw_rule (public_addr t) c"
  have b: "0 < b" "b < tblN t" "unat ?b = b" using hash_in_table(1,2) [OF assms(1)] assms(3) by simp_all
  have rd: "rd (base_rules (tables t)) b = Some (rule_at t b)"
    using b tbl_sizes_okD(5) [OF assms(1)] by (simp add: rd_def rule_at_def)
  show ?thesis
  proof (cases "used_at t b")
    case False
    have "ipa_nati_generate_tbl_rule c t = Some (?sw\<lparr>prev_index := 0\<rparr>, ?b)"
      using rd b False by (simp add: ipa_nati_generate_tbl_rule_def Let_def enable_bit client_sw_rule_def)
    then show ?thesis using False b tbl_sizes_okD(1) [OF assms(1)]
      by (intro exI [of _ 0] exI [of _ ?b]) (simp add: place_def)
  next
    case True
    obtain l where l: "(if rule_next (rule_at t b) = 0 then Some (Some ?b)
        else chain_last (expn_next t) 0 (rule_next (rule_at t b))) = Some (Some l)" "unat l = last (C b)"
      using chain_end [OF assms(2) b(1,2) True, of "rule_next (rule_at t b)" ?b "expn_next t"]
        expn_nexts(1) [OF assms(1)] b(3) by auto
    obtain f where f: "ipa_nati_expn_tbl_free_entry t = Some f"
      "if f = 0 then \<forall>x. tblN t < x \<longrightarrow> x < tblT t \<longrightarrow> used_at t x
       else unat (f + table_entries t) = unat f + tblN t \<and> 0 < unat f \<and> unat f < tblX t \<and>
         \<not> used_at t (unat f + tblN t)" using expn_free [OF assms(1)] by blast
    have "ipa_nati_generate_tbl_rule c t =
        Some (?sw\<lparr>prev_index := l\<rparr>, if f = 0 then 0 else f + table_entries t)"
      using rd b(3) True f(1) l(1)
      by (simp only: ipa_nati_generate_tbl_rule_def Let_def b(3) option.case Read16BitFieldValue.simps enable_bit)
        simp
    then show ?thesis using f(2) l(2) True
      by (intro exI [of _ l] exI [of _ "if f = 0 then 0 else f + table_entries t"])
        (auto simp: place_def split: if_splits)
  qed
qed

lemma generate_index_rule_place:
  assumes "tbl_sizes_ok t" "buckets (tblN t) (tblT t) (\<lambda>i. ent_at t i \<noteq> 0) (inext_at t) (iprev_at t) D"
    and "b = unat (src_hash (r_private_ip c) (r_private_port c) (r_target_ip c) (r_target_port c)
           (r_protocol c) (table_entries t - 1))"
  shows "\<exists>p i. (\<forall>sw. ipa_nati_generate_index_rule c sw t = Some (sw\<lparr>indx_prev := p\<rparr>, i)) \<and>
    place (tblN t) (tblT t) (\<lambda>i. ent_at t i \<noteq> 0) D b (unat i) (unat p)"
proof -
  let ?b = "src_hash (r_private_ip c) (r_private_port c) (r_target_ip c) (r_target_port c)
    (r_protocol c) (table_entries t - 1)"
  have b: "0 < b" "b < tblN t" "unat ?b = b" using hash_in_table(3,4) [OF assms(1)] assms(3) by simp_all
  have rd: "rd (index_table (tables t)) b = Some (word_at t b)"
    using b tbl_sizes_okD(7) [OF assms(1)] by (simp add: rd_def word_at_def)
  show ?thesis
  proof (cases "ent_at t b = 0")
    case True
    have "ipa_nati_generate_index_rule c sw t = Some (sw\<lparr>indx_prev := 0\<rparr>, ?b)" for sw
      using rd b True by (simp add: ipa_nati_generate_index_rule_def Let_def unat_eq_zero)
    then show ?thesis using True b tbl_sizes_okD(1) [OF assms(1)]
      by (intro exI [of _ 0] exI [of _ ?b]) (simp add: place_def)
  next
    case False
    obtain l where l: "(if indx_nxt (word_at t b) = 0 then Some (Some ?b)
        else chain_last (index_expn_next t) 0 (indx_nxt (word_at t b))) = Some (Some l)" "unat l = last (D b)"
      using chain_end [OF assms(2) b(1,2) False, of "indx_nxt (word_at t b)" ?b "index_expn_next t"]
        expn_nexts(2) [OF assms(1)] b(3) by auto
    obtain f where f: "ipa_nati_index_expn_get_free_entry t = Some f"
      "if f = 0 then \<forall>x. tblN t < x \<longrightarrow> x < tblT t \<longrightarrow> ent_at t x \<noteq> 0
       else unat (f + table_entries t) = unat f + tblN t \<and> 0 < unat f \<and> unat f < tblX t \<and>
         ent_at t (unat f + tblN t) = 0" using index_expn_free [OF assms(1)] by blast
    have "D b \<noteq> []" using bucketsD(6) [OF assms(2) b(1,2) False] by auto
    then have "ent_at t (unat l) \<noteq> 0" using bucketsD(3) [OF assms(2), of "last (D b)" b] l(2) by simp
    then have "f \<noteq> 0 \<Longrightarrow> l \<noteq> f + table_entries t" using f(2) by auto
    then have "ipa_nati_generate_index_rule c sw t =
        Some (sw\<lparr>indx_prev := l\<rparr>, if f = 0 then 0 else f + table_entries t)" for sw
      using rd b(3) False f(1) l(1)
      by (simp only: ipa_nati_generate_index_rule_def Let_def b(3) option.case Read16BitFieldValue.simps)
        (simp add: unat_eq_zero)
    then show ?thesis using f(2) l(2) False
      by (intro exI [of _ l] exI [of _ "if f = 0 then 0 else f + table_entries t"])
        (auto simp: place_def split: if_splits)
  qed
qed

end
