(* ===== verification/NatDrvAdd.thy ===== *)
theory NatDrvAdd
  imports NatDrvOps
begin

text \<open>
  Adding a rule, as a whole: the entries that are written, read back by their number.
\<close>

section \<open>The kernel at work\<close>

lemma malloc_works: "dma_works K \<Longrightarrow> \<exists>k. malloc K s = (True, s\<lparr>kern := k\<rparr>)"
proof -
  assume "dma_works K"
  then have "fst (k_malloc K (kern s))" by (simp add: dma_works_def)
  then show ?thesis by (cases "k_malloc K (kern s)") (auto simp: malloc_def)
qed

lemma post_dma_works:
  assumes "dma_works K" "list_all (dma_in_range (tables (ip4_tbl s))) cmds"
  shows "\<exists>k. post_dma K cmds s =
    (True, s\<lparr>ip4_tbl := (ip4_tbl s)\<lparr>tables := fold dma_write cmds (tables (ip4_tbl s))\<rparr>, kern := k\<rparr>)"
proof -
  have "fst (k_dma K cmds (tables (ip4_tbl s)) (kern s)) \<and>
      fst (snd (k_dma K cmds (tables (ip4_tbl s)) (kern s))) = fold dma_write cmds (tables (ip4_tbl s))"
    using assms by (simp add: dma_works_def)
  then show ?thesis
    by (cases "k_dma K cmds (tables (ip4_tbl s)) (kern s)") (auto simp: post_dma_def)
qed

lemma rule_dma_works:
  assumes "dma_works K" "tbl_sizes_ok (ip4_tbl s)" "unat e < tblT (ip4_tbl s)" "unat pos < 32" "even (unat pos)"
  shows "\<exists>k. post_dma K [rule_cmd (ip4_tbl s) e pos v] s =
    (True, s\<lparr>ip4_tbl := put_rule (unat e) (rule_write16 (unat pos) v (rule_at (ip4_tbl s) (unat e))) (ip4_tbl s),
             kern := k\<rparr>)"
  using post_dma_works [OF assms(1), of s "[rule_cmd (ip4_tbl s) e pos v]"]
    rule_cmd_write [OF assms(2-5), of v] by simp

lemma index_dma_works:
  assumes "dma_works K" "tbl_sizes_ok (ip4_tbl s)" "unat i < tblT (ip4_tbl s)" "pos = 0 \<or> pos = 2"
  shows "\<exists>k. post_dma K [index_cmd (ip4_tbl s) i pos v] s =
    (True, s\<lparr>ip4_tbl := put_word (unat i) (index_write16 (unat pos) v (word_at (ip4_tbl s) (unat i))) (ip4_tbl s),
             kern := k\<rparr>)"
  using post_dma_works [OF assms(1), of s "[index_cmd (ip4_tbl s) i pos v]"]
    index_cmd_write [OF assms(2-4), of v] by simp

section \<open>Linking\<close>

definition link_rule :: "u16 \<Rightarrow> u16 \<Rightarrow> nat_tbl \<Rightarrow> nat_tbl" where
  "link_rule p v t =
    (if p = 0 then t else put_rule (unat p) (rule_write16 8 v (rule_at t (unat p))) t)"

definition link_index :: "u16 \<Rightarrow> u16 \<Rightarrow> nat_tbl \<Rightarrow> nat_tbl" where
  "link_index p v t =
    (if p = 0 then t else put_word (unat p) (index_write16 2 v (word_at t (unat p))) t)"

lemma write_next_rule:
  assumes "dma_works K" "tbl_sizes_ok (ip4_tbl s)" "unat p < tblT (ip4_tbl s)" "p \<noteq> 0"
    "\<lparr>dma_table_index = 0, dma_base_addr = ty, dma_offset = ofs, dma_data = v\<rparr> = rule_cmd (ip4_tbl s) p 8 v"
  shows "\<exists>k. ipa_nati_write_next_index K ty v ofs s = s\<lparr>ip4_tbl := link_rule p v (ip4_tbl s), kern := k\<rparr>"
proof -
  obtain k where k: "malloc K s = (True, s\<lparr>kern := k\<rparr>)" using malloc_works [OF assms(1)] by blast
  then show ?thesis
    using rule_dma_works [OF assms(1), of "s\<lparr>kern := k\<rparr>" p 8 v] assms(2-5)
    by (auto simp: ipa_nati_write_next_index_def link_rule_def)
qed

lemma write_next_index:
  assumes "dma_works K" "tbl_sizes_ok (ip4_tbl s)" "unat p < tblT (ip4_tbl s)" "p \<noteq> 0"
    "\<lparr>dma_table_index = 0, dma_base_addr = ty, dma_offset = ofs, dma_data = v\<rparr> = index_cmd (ip4_tbl s) p 2 v"
  shows "\<exists>k. ipa_nati_write_next_index K ty v ofs s = s\<lparr>ip4_tbl := link_index p v (ip4_tbl s), kern := k\<rparr>"
proof -
  obtain k where k: "malloc K s = (True, s\<lparr>kern := k\<rparr>)" using malloc_works [OF assms(1)] by blast
  then show ?thesis
    using index_dma_works [OF assms(1), of "s\<lparr>kern := k\<rparr>" p 2 v] assms(2-5)
    by (auto simp: ipa_nati_write_next_index_def link_index_def)
qed

lemma copy_rule_to_hw:
  assumes K: "dma_works K" and t: "tbl_sizes_ok (ip4_tbl s)" "unat e < tblT (ip4_tbl s)"
    and p: "unat (prev_index r) < tblT (ip4_tbl s)"
  shows "\<exists>k. ipa_nati_copy_ipv4_rule_to_hw K r e s =
    Some (s\<lparr>ip4_tbl := link_rule (prev_index r) e (put_rule (unat e) (hw_rule_of r) (ip4_tbl s)), kern := k\<rparr>)"
proof -
  let ?t = "put_rule (unat e) (hw_rule_of r) (ip4_tbl s)" and ?p = "prev_index r"
  let ?s = "s\<lparr>ip4_tbl := ?t\<rparr>"
  note z = tbl_sizes_okD [OF t(1)]
  have copy: "ipa_nati_copy_ipv4_rule_to_hw K r e s =
      Some (if ?p = 0 then ?s
        else if ?p < table_entries (ip4_tbl s)
        then ipa_nati_write_next_index K IPA_NAT_BASE_TBL e
               (ipa_nati_get_entry_offset (ip4_tbl s) ?p + IPA_NAT_RULE_NEXT_FIELD_OFFSET) ?s
        else ipa_nati_write_next_index K IPA_NAT_EXPN_TBL e
               (ipa_nati_get_entry_offset (ip4_tbl s) (?p - table_entries (ip4_tbl s))
                + IPA_NAT_RULE_NEXT_FIELD_OFFSET) ?s)"
    using z(5,6) at_expn [OF t(1) _ t(2)] in_base(2) [OF t(1), of e]
    by (cases "e < table_entries (ip4_tbl s)")
      (simp_all add: ipa_nati_copy_ipv4_rule_to_hw_def Let_def wr_def set_tables_def put_rule_def)
  show ?thesis
  proof (cases "?p = 0")
    case True
    then show ?thesis using copy by (intro exI [of _ "kern s"]) (simp add: link_rule_def)
  next
    case False
    have s: "tbl_sizes_ok (ip4_tbl ?s)" "unat ?p < tblT (ip4_tbl ?s)" using t(1) p by simp_all
    show ?thesis
      using copy False write_next_rule [OF K s False, where v = e] z(11)
      by (auto simp: rule_cmd_def dma_cmd_def ipa_nati_get_entry_offset_def
          IPA_NAT_RULE_NEXT_FIELD_OFFSET_def)
  qed
qed

lemma small_u16: "unat x < 2 ^ 16 \<Longrightarrow> ucast (ucast x :: u16) = x" for x :: u32
  by (simp add: word_unat_eq_iff unsigned_ucast_eq unsigned_take_bit_eq take_bit_nat_eq_self)

lemma offset16:
  fixes p :: u16
  assumes "unat p < 2 ^ 14"
  shows "ucast (ucast (ucast (ucast (ucast p * 4 :: u32) :: u16) + 2 :: u32) :: u16) = (ucast p * 4 + 2 :: u32)"
proof -
  have "unat (ucast p * 4 + 0 :: u32) < 2 ^ 16" "unat (ucast p * 4 + 2 :: u32) < 2 ^ 16"
    using unat_offset(2) [OF assms, of 0] unat_offset(2) [OF assms, of 2] assms by simp_all
  from this [THEN small_u16] show ?thesis by simp
qed

lemma copy_index_to_hw:
  assumes K: "dma_works K" and t: "tbl_sizes_ok (ip4_tbl s)" "unat i < tblT (ip4_tbl s)"
    and p: "unat (indx_prev r) < tblT (ip4_tbl s)"
  shows "\<exists>k. ipa_nati_copy_ipv4_index_rule_to_hw K r i s =
    Some (s\<lparr>ip4_tbl := link_index (indx_prev r) i
              (put_word (unat i) (word_of (indx_tbl_ent r) (indx_next r)) (ip4_tbl s)), kern := k\<rparr>)"
proof -
  let ?t = "put_word (unat i) (word_of (indx_tbl_ent r) (indx_next r)) (ip4_tbl s)" and ?p = "indx_prev r"
  let ?s = "s\<lparr>ip4_tbl := ?t\<rparr>" and ?N = "table_entries (ip4_tbl s)"
  note z = tbl_sizes_okD [OF t(1)]
  have copy: "ipa_nati_copy_ipv4_index_rule_to_hw K r i s =
      Some (if ?p = 0 then ?s
        else if ?p < ?N
        then ipa_nati_write_next_index K IPA_NAT_INDX_TBL i
          (ucast (ucast (ucast (ucast (ucast ?p * 4 :: u32) :: u16) + 2 :: u32) :: u16)) ?s
        else ipa_nati_write_next_index K IPA_NAT_INDEX_EXPN_TBL i
          (ucast (ucast (ucast (ucast (ucast (?p - ?N) * 4 :: u32) :: u16) + 2 :: u32) :: u16)) ?s)"
    using z(7,8,11) at_expn [OF t(1) _ t(2)] in_base(2) [OF t(1), of i]
    by (cases "i < ?N")
      (simp_all add: ipa_nati_copy_ipv4_index_rule_to_hw_def Let_def wr_def set_tables_def put_word_def
        ipa_nati_get_index_entry_offset_def IPA_NAT_INDEX_RULE_NEXT_FIELD_OFFSET_def)
  show ?thesis
  proof (cases "?p = 0")
    case True
    then show ?thesis using copy by (intro exI [of _ "kern s"]) (simp add: link_index_def)
  next
    case False
    have s: "tbl_sizes_ok (ip4_tbl ?s)" "unat ?p < tblT (ip4_tbl ?s)" using t(1) p by simp_all
    have ofs: "?p < ?N \<Longrightarrow> unat ?p < 2 ^ 14" "\<not> ?p < ?N \<Longrightarrow> unat (?p - ?N) < 2 ^ 14"
      using in_base(1) [OF t(1), of ?p] in_expn(1) [OF t(1) p] by simp_all
    show ?thesis
      using copy False write_next_index [OF K s False, where v = i] offset16 [OF ofs(1)] offset16 [OF ofs(2)]
      by (auto simp: index_cmd_def dma_cmd_def)
  qed
qed

lemma post_rule:
  assumes "dma_works K" "tbl_sizes_ok (ip4_tbl s)" "unat e < tblT (ip4_tbl s)"
  shows "\<exists>k. ipa_nati_post_ipv4_dma_cmd K e s =
    (0, s\<lparr>ip4_tbl := put_rule (unat e) (rule_write16 18 0x8000 (rule_at (ip4_tbl s) (unat e))) (ip4_tbl s),
          kern := k\<rparr>)"
proof -
  obtain k where k: "malloc K s = (True, s\<lparr>kern := k\<rparr>)" using malloc_works [OF assms(1)] by blast
  have "ipa_nati_post_ipv4_dma_cmd K e s =
      (case post_dma K [rule_cmd (ip4_tbl s) e 18 0x8000] (s\<lparr>kern := k\<rparr>) of
         (ok, s) \<Rightarrow> if ok then (0, s) else (- EIO, s))"
    using k tbl_sizes_okD(11) [OF assms(2)]
    by (simp add: ipa_nati_post_ipv4_dma_cmd_def Let_def rule_cmd_def dma_cmd_def
        IPA_NAT_RULE_FLAG_FIELD_OFFSET_def IPA_NAT_FLAG_ENABLE_BIT_MASK_def)
  then show ?thesis using rule_dma_works [OF assms(1), of "s\<lparr>kern := k\<rparr>" e 18 "0x8000"] assms(2,3)
    by auto
qed

section \<open>The tables with the rule added\<close>

lemma placeD:
  assumes "buckets N T used nxt prv C" "place N T used C b e p" "e \<noteq> 0" "0 < b" "b < N" "N < T"
  shows "e < T" "e \<noteq> N" "\<not> used e" "p < T" "p \<noteq> e" "p \<noteq> 0 \<longleftrightarrow> used b" "p \<noteq> 0 \<Longrightarrow> used p"
    "p \<noteq> 0 \<Longrightarrow> p = last (C b) \<and> N < e" "p = 0 \<Longrightarrow> e = b"
proof -
  have p: "if used b then N < e \<and> p = last (C b) else p = 0 \<and> e = b" and e: "e < T" "\<not> used e"
    using assms(2,3) by (auto simp: place_def)
  have used: "used p" "0 < p" "p < T" if u: "used b"
  proof -
    obtain xs where xs: "C b = b # xs" "set xs \<subseteq> {N<..<T}" using bucketsD(6) [OF assms(1,4,5) u] by blast
    have l: "last (C b) \<in> set (C b)" using xs by simp
    from l show "used p" using p that bucketsD(3) [OF assms(1)] by simp
    show "0 < p" "p < T" using l p that xs assms(4-6) by auto
  qed
  show "e < T" "\<not> used e" by (rule e)+
  show "e \<noteq> N" "p < T" "p \<noteq> e" "p \<noteq> 0 \<longleftrightarrow> used b" "p \<noteq> 0 \<Longrightarrow> used p"
    "p \<noteq> 0 \<Longrightarrow> p = last (C b) \<and> N < e" "p = 0 \<Longrightarrow> e = b"
    using p e used assms(3-6) by (auto split: if_splits)
qed

definition added :: "ipa_nat_ipv4_rule \<Rightarrow> u16 \<Rightarrow> u16 \<Rightarrow> u16 \<Rightarrow> u16 \<Rightarrow> nat_tbl \<Rightarrow> nat_tbl" where
  "added c e p i ip t =
    (let sw = (client_sw_rule (public_addr t) c)\<lparr>prev_index := p, indx_tbl_entry := i\<rparr>;
         t = (if i \<ge> table_entries t then put_meta (unat i) ip t else t);
         t = link_rule p e (put_rule (unat e) (hw_rule_of sw) t);
         t = link_index ip i (put_word (unat i) (word_of e 0) t)
     in put_rule (unat e) (rule_write16 18 0x8000 (rule_at t (unat e))) t)"

lemma link_fields [simp]:
  "table_entries (link_rule p v t) = table_entries t" "table_entries (link_index p v t) = table_entries t"
  "expn_table_entries (link_rule p v t) = expn_table_entries t"
  "expn_table_entries (link_index p v t) = expn_table_entries t"
  "rule_id_array (link_rule p v t) = rule_id_array t" "rule_id_array (link_index p v t) = rule_id_array t"
  "index_expn_meta (link_rule p v t) = index_expn_meta t"
  "index_expn_meta (link_index p v t) = index_expn_meta t"
  "tbl_sizes_ok (link_rule p v t) = tbl_sizes_ok t" "tbl_sizes_ok (link_index p v t) = tbl_sizes_ok t"
  by (simp_all add: link_rule_def link_index_def)

text \<open>The steps of the code are \<open>added\<close>.\<close>

lemma add_rule_steps:
  assumes K: "dma_works K" and t: "tbl_sizes_ok (ip4_tbl s)"
    and gen: "ipa_nati_generate_tbl_rule c (ip4_tbl s) =
        Some ((client_sw_rule (public_addr (ip4_tbl s)) c)\<lparr>prev_index := p\<rparr>, e)"
      "\<And>sw. ipa_nati_generate_index_rule c sw (ip4_tbl s) = Some (sw\<lparr>indx_prev := ip\<rparr>, i)"
    and e: "e \<noteq> 0" "unat e < tblT (ip4_tbl s)" "unat p < tblT (ip4_tbl s)"
    and i: "i \<noteq> 0" "unat i < tblT (ip4_tbl s)" "unat ip < tblT (ip4_tbl s)"
  shows "\<exists>k. ipa_nati_add_ipv4_rule K c h s =
    (case ipa_nati_make_rule_hdl (added c e p i ip (ip4_tbl s)) e of
       None \<Rightarrow> None
     | Some (hdl, t) \<Rightarrow> Some (if hdl = 0 then - EINVAL else 0, ucast hdl, s\<lparr>ip4_tbl := t, kern := k\<rparr>))"
proof -
  define t where "t = ip4_tbl s"
  define sw where "sw = (client_sw_rule (public_addr t) c)\<lparr>prev_index := p, indx_tbl_entry := i\<rparr>"
  define isw where "isw = \<lparr>indx_tbl_ent = e, indx_next = 0, indx_prev = ip\<rparr>"
  define t1 where "t1 = (if i \<ge> table_entries t then put_meta (unat i) ip t else t)"
  define t2 where "t2 = link_rule p e (put_rule (unat e) (hw_rule_of sw) t1)"
  define t3 where "t3 = link_index ip i (put_word (unat i) (word_of e 0) t2)"
  have sizes: "tbl_sizes_ok t1" "tbl_sizes_ok t2" "tbl_sizes_ok t3" using assms(2)
    by (simp_all add: t_def t1_def t2_def t3_def)
  have T: "tblT t1 = tblT t" "tblT t2 = tblT t" "tblT t3 = tblT t" by (simp_all add: t1_def t2_def t3_def)
  have "ipa_nati_generate_rule c t = Some (Some (sw, isw, e, i, t1))"
  proof (cases "i < table_entries t")
    case True
    then have "\<not> table_entries t \<le> i" by simp
    then show ?thesis using gen e(1) i(1)
      by (simp add: ipa_nati_generate_rule_def t_def [symmetric] sw_def isw_def t1_def Let_def)
  next
    case False
    note r = at_expn [OF assms(2) False [unfolded t_def] i(2), folded t_def]
    have "table_entries t \<le> i" using False by simp
    then show ?thesis using gen e(1) i(1) r tbl_sizes_okD(9) [OF t]
      by (simp add: ipa_nati_generate_rule_def t_def [symmetric] sw_def isw_def t1_def Let_def
          wr_def put_meta_def)
  qed
  moreover have "prev_index sw = p" "indx_tbl_ent isw = e" "indx_next isw = 0" "indx_prev isw = ip"
    by (simp_all add: sw_def isw_def)
  moreover obtain k1 where "ipa_nati_copy_ipv4_rule_to_hw K sw e (s\<lparr>ip4_tbl := t1\<rparr>) =
      Some (s\<lparr>ip4_tbl := t2, kern := k1\<rparr>)"
    using copy_rule_to_hw [OF K, of "s\<lparr>ip4_tbl := t1\<rparr>" e sw] sizes T e
    by (auto simp: t2_def sw_def t_def [symmetric])
  moreover obtain k2 where "ipa_nati_copy_ipv4_index_rule_to_hw K isw i (s\<lparr>ip4_tbl := t2, kern := k1\<rparr>) =
      Some (s\<lparr>ip4_tbl := t3, kern := k2\<rparr>)"
    using copy_index_to_hw [OF K, of "s\<lparr>ip4_tbl := t2, kern := k1\<rparr>" i isw] sizes T i
    by (auto simp: t3_def isw_def t_def [symmetric])
  moreover obtain k3 where "ipa_nati_post_ipv4_dma_cmd K e (s\<lparr>ip4_tbl := t3, kern := k2\<rparr>) =
      (0, s\<lparr>ip4_tbl := added c e p i ip t, kern := k3\<rparr>)"
    using post_rule [OF K, of "s\<lparr>ip4_tbl := t3, kern := k2\<rparr>" e] sizes T e
    by (auto simp: added_def Let_def t1_def t2_def t3_def sw_def t_def [symmetric])
  ultimately show ?thesis
    by (intro exI [of _ k3]) (auto simp: ipa_nati_add_ipv4_rule_def t_def [symmetric] split: option.splits)
qed

text \<open>No entry: nothing is done.\<close>

lemma add_rule_full:
  assumes "ipa_nati_generate_tbl_rule c (ip4_tbl s) = Some (sw, e)"
    "\<And>sw. ipa_nati_generate_index_rule c sw (ip4_tbl s) = Some (sw\<lparr>indx_prev := ip\<rparr>, i)" "e = 0 \<or> i = 0"
  shows "ipa_nati_add_ipv4_rule K c h s = Some (- EINVAL, h, s)"
  using assms by (auto simp: ipa_nati_add_ipv4_rule_def ipa_nati_generate_rule_def)

text \<open>The tables, read back.\<close>

definition new_rule :: "ipa_nat_ipv4_rule \<Rightarrow> u16 \<Rightarrow> u16 \<Rightarrow> nat_tbl \<Rightarrow> hw_rule" where
  "new_rule c p i t =
    rule_write16 18 0x8000
      (hw_rule_of ((client_sw_rule (public_addr t) c)\<lparr>prev_index := p, indx_tbl_entry := i\<rparr>))"

lemma added_at:
  assumes "tbl_sizes_ok t" "unat e < tblT t" "unat p < tblT t" "unat p \<noteq> unat e"
    "unat i < tblT t" "unat ip < tblT t" "unat ip \<noteq> unat i"
  shows "rule_at (added c e p i ip t) x =
      (if x = unat e then new_rule c p i t
       else if p \<noteq> 0 \<and> x = unat p then rule_write16 8 e (rule_at t x) else rule_at t x)"
    "word_at (added c e p i ip t) x =
      (if x = unat i then word_of e 0
       else if ip \<noteq> 0 \<and> x = unat ip then index_write16 2 i (word_at t x) else word_at t x)"
    "tblN t \<le> unat i \<Longrightarrow> meta_at (added c e p i ip t) (unat i) = ip"
    "unat i \<noteq> tblN t \<Longrightarrow> x \<noteq> unat i \<Longrightarrow> meta_at (added c e p i ip t) x = meta_at t x"
    "tbl_sizes_ok (added c e p i ip t)" "table_entries (added c e p i ip t) = table_entries t"
    "expn_table_entries (added c e p i ip t) = expn_table_entries t"
    "rule_id_array (added c e p i ip t) = rule_id_array t"
proof -
  define sw where "sw = (client_sw_rule (public_addr t) c)\<lparr>prev_index := p, indx_tbl_entry := i\<rparr>"
  define t1 where "t1 = (if i \<ge> table_entries t then put_meta (unat i) ip t else t)"
  define t2 where "t2 = link_rule p e (put_rule (unat e) (hw_rule_of sw) t1)"
  define t3 where "t3 = link_index ip i (put_word (unat i) (word_of e 0) t2)"
  have added: "added c e p i ip t = put_rule (unat e) (rule_write16 18 0x8000 (rule_at t3 (unat e))) t3"
    by (simp add: added_def Let_def sw_def t1_def t2_def t3_def)
  have sizes: "tbl_sizes_ok t1" "tbl_sizes_ok t2" "tbl_sizes_ok t3" using assms(1)
    by (simp_all add: t1_def t2_def t3_def)
  have same: "tblN t1 = tblN t" "tblX t1 = tblX t" "tblN t2 = tblN t" "tblX t2 = tblX t"
    "tblN t3 = tblN t" "tblX t3 = tblX t" by (simp_all add: t1_def t2_def t3_def)
  have T: "all_entries t1 = tblT t" "all_entries t2 = tblT t" "all_entries t3 = tblT t"
    using same by (simp_all add: all_entries_def)
  have at1: "rule_at t1 x = rule_at t x" "word_at t1 x = word_at t x" for x by (simp_all add: t1_def)
  have at2: "rule_at t2 x = (if x = unat e then hw_rule_of sw
      else if p \<noteq> 0 \<and> x = unat p then rule_write16 8 e (rule_at t x) else rule_at t x)"
    "word_at t2 x = word_at t x" for x
    using assms(2-4) by (simp_all add: t2_def link_rule_def put_at sizes T at1 all_entries_def same)
  have at3: "rule_at t3 x = rule_at t2 x" "word_at t3 x = (if x = unat i then word_of e 0
       else if ip \<noteq> 0 \<and> x = unat ip then index_write16 2 i (word_at t x) else word_at t x)" for x
    using assms(5-7) by (simp_all add: t3_def link_index_def put_at sizes T at2 all_entries_def same)
  show "rule_at (added c e p i ip t) x =
      (if x = unat e then new_rule c p i t
       else if p \<noteq> 0 \<and> x = unat p then rule_write16 8 e (rule_at t x) else rule_at t x)"
    using assms(2) by (simp add: added put_at sizes T at3 at2 new_rule_def sw_def)
  show "word_at (added c e p i ip t) x =
      (if x = unat i then word_of e 0
       else if ip \<noteq> 0 \<and> x = unat ip then index_write16 2 i (word_at t x) else word_at t x)"
    by (simp add: added at3)
  have "meta_at t1 (unat i) = ip" if "tblN t \<le> unat i"
    using assms(1,5) that by (simp add: t1_def put_meta_at all_entries_def word_le_nat_alt)
  then show "tblN t \<le> unat i \<Longrightarrow> meta_at (added c e p i ip t) (unat i) = ip"
    by (simp add: added t3_def t2_def link_rule_def link_index_def)
  have "meta_at t1 x = meta_at t x" if "unat i \<noteq> tblN t" "x \<noteq> unat i"
  proof (cases "table_entries t \<le> i")
    case True
    then have "unat i - tblN t \<noteq> x - tblN t" using that by (simp add: word_le_nat_alt)
    then show ?thesis by (simp add: t1_def meta_at_def put_meta_def)
  qed (simp add: t1_def)
  then show "unat i \<noteq> tblN t \<Longrightarrow> x \<noteq> unat i \<Longrightarrow> meta_at (added c e p i ip t) x = meta_at t x"
    by (simp add: added t3_def t2_def link_rule_def link_index_def)
  show "tbl_sizes_ok (added c e p i ip t)" using sizes by (simp add: added)
  show "table_entries (added c e p i ip t) = table_entries t"
    "expn_table_entries (added c e p i ip t) = expn_table_entries t"
    "rule_id_array (added c e p i ip t) = rule_id_array t"
    by (simp_all add: added t1_def t2_def t3_def)
qed

end
