(* ===== verification/NatDrvInv.thy ===== *)
theory NatDrvInv
  imports NatDrvAdd
begin

text \<open>
  The invariant of the tables of the NAT driver: chains of rules and of the index, each under its
  hash, one entry of the index for each rule, and one handle for each rule.
\<close>

section \<open>The invariant\<close>

abbreviation proto_of :: "hw_rule \<Rightarrow> u8" where "proto_of r \<equiv> ucast (drop_bit 24 (ts_proto r))"

text \<open>What the client gave for the rule.\<close>

definition client_of :: "hw_rule \<Rightarrow> ipa_nat_ipv4_rule" where
  "client_of r =
    \<lparr>r_target_ip = hw_target_ip r, r_private_ip = hw_private_ip r, r_target_port = hw_target_port r,
     r_private_port = hw_private_port r, r_public_port = hi16 (nxt_indx_pub_port r),
     r_protocol = proto_of r\<rparr>"

definition dst_bucket :: "nat_tbl \<Rightarrow> ipa_nat_ipv4_rule \<Rightarrow> nat" where
  "dst_bucket t c =
    unat (dst_hash (r_target_ip c) (r_target_port c) (r_public_port c) (r_protocol c)
      (table_entries t - 1))"

definition src_bucket :: "nat_tbl \<Rightarrow> ipa_nat_ipv4_rule \<Rightarrow> nat" where
  "src_bucket t c =
    unat (src_hash (r_private_ip c) (r_private_port c) (r_target_ip c) (r_target_port c)
      (r_protocol c) (table_entries t - 1))"

definition live :: "nat_tbl \<Rightarrow> nat \<Rightarrow> bool" where
  "live t e \<longleftrightarrow> e < tblT t \<and> used_at t e \<and> proto_of (rule_at t e) \<noteq> 0xFF"

definition rules_ok :: "nat_tbl \<Rightarrow> (nat \<Rightarrow> nat list) \<Rightarrow> bool" where
  "rules_ok t C \<longleftrightarrow>
     buckets (tblN t) (tblT t) (used_at t) (next_at t) (prev_at t) C \<and>
     (\<forall>e < tblT t. used_at t e \<longrightarrow> e \<noteq> 0 \<and> e \<noteq> tblN t) \<and>
     (\<forall>b. \<forall>e \<in> set (C b). live t e \<longrightarrow> dst_bucket t (client_of (rule_at t e)) = b) \<and>
     (\<forall>e < tblT t. used_at t e \<longrightarrow> \<not> live t e \<longrightarrow> e < tblN t \<and> next_at t e \<noteq> 0)"

definition index_ok :: "nat_tbl \<Rightarrow> (nat \<Rightarrow> nat list) \<Rightarrow> bool" where
  "index_ok t D \<longleftrightarrow>
     buckets (tblN t) (tblT t) (\<lambda>i. ent_at t i \<noteq> 0) (inext_at t) (iprev_at t) D \<and>
     (\<forall>i < tblT t. ent_at t i \<noteq> 0 \<longrightarrow> i \<noteq> 0 \<and> i \<noteq> tblN t) \<and>
     (\<forall>b. \<forall>i \<in> set (D b). src_bucket t (client_of (rule_at t (ent_at t i))) = b)"

definition cross_ok :: "nat_tbl \<Rightarrow> bool" where
  "cross_ok t \<longleftrightarrow>
     (\<forall>e. live t e \<longrightarrow> indx_at t e < tblT t \<and> ent_at t (indx_at t e) = e) \<and>
     (\<forall>i < tblT t. ent_at t i \<noteq> 0 \<longrightarrow> live t (ent_at t i) \<and> indx_at t (ent_at t i) = i)"

text \<open>The numbers in \<open>rule_id_array\<close>.\<close>

definition rule_id :: "nat_tbl \<Rightarrow> nat \<Rightarrow> u16" where "rule_id t e = make_rule_id t (of_nat e)"

definition ids_ok :: "nat_tbl \<Rightarrow> bool" where
  "ids_ok t \<longleftrightarrow>
     (\<forall>h < tblT t. rule_id_array t ! h \<noteq> 0 \<longrightarrow>
        h + 1 < tblT t \<and> (\<exists>e. live t e \<and> rule_id_array t ! h = rule_id t e)) \<and>
     (\<forall>h < tblT t. \<forall>h' < tblT t. rule_id_array t ! h \<noteq> 0 \<longrightarrow>
        rule_id_array t ! h = rule_id_array t ! h' \<longrightarrow> h = h') \<and>
     (\<forall>e. live t e \<longrightarrow> (\<exists>h < tblT t. rule_id_array t ! h = rule_id t e))"

definition drv_inv :: "nat_tbl \<Rightarrow> bool" where
  "drv_inv t \<longleftrightarrow> tbl_sizes_ok t \<and> (\<exists>C. rules_ok t C) \<and> (\<exists>D. index_ok t D) \<and> cross_ok t \<and> ids_ok t"

lemma ids_okD:
  assumes "ids_ok t"
  shows "h < tblT t \<Longrightarrow> rule_id_array t ! h \<noteq> 0 \<Longrightarrow> h + 1 < tblT t"
    "h < tblT t \<Longrightarrow> rule_id_array t ! h \<noteq> 0 \<Longrightarrow> \<exists>e. live t e \<and> rule_id_array t ! h = rule_id t e"
    "h < tblT t \<Longrightarrow> h' < tblT t \<Longrightarrow> rule_id_array t ! h \<noteq> 0 \<Longrightarrow>
       rule_id_array t ! h = rule_id_array t ! h' \<Longrightarrow> h = h'"
    "live t e \<Longrightarrow> \<exists>h < tblT t. rule_id_array t ! h = rule_id t e"
  using assms unfolding ids_ok_def by blast+

text \<open>What does not depend on \<open>rule_id_array\<close>.\<close>

lemma ids_indep [simp]:
  "rule_at (t\<lparr>rule_id_array := a\<rparr>) = rule_at t" "word_at (t\<lparr>rule_id_array := a\<rparr>) = word_at t"
  "meta_at (t\<lparr>rule_id_array := a\<rparr>) = meta_at t"
  by (simp_all add: fun_eq_iff rule_at_def word_at_def meta_at_def)

lemma ids_indep' [simp]:
  "live (t\<lparr>rule_id_array := a\<rparr>) = live t" "dst_bucket (t\<lparr>rule_id_array := a\<rparr>) = dst_bucket t"
  "src_bucket (t\<lparr>rule_id_array := a\<rparr>) = src_bucket t"
  by (simp_all add: fun_eq_iff live_def dst_bucket_def src_bucket_def)

lemma ids_indep'' [simp]:
  "rules_ok (t\<lparr>rule_id_array := a\<rparr>) = rules_ok t" "index_ok (t\<lparr>rule_id_array := a\<rparr>) = index_ok t"
  "cross_ok (t\<lparr>rule_id_array := a\<rparr>) = cross_ok t"
  by (simp_all add: fun_eq_iff rules_ok_def index_ok_def cross_ok_def)

section \<open>Rule identifiers\<close>

lemma push_or_1: "push_bit 1 w OR 1 = push_bit 1 w + 1" for w :: u16
  by (rule disjunctive_add [symmetric]) (simp only: bit_push_bit_iff bit_1_iff, auto)

lemma rule_id_values:
  assumes "tbl_sizes_ok t" "e < tblT t"
  shows "unat (rule_id t e) = (if e < tblN t then 2 * e else 2 * (e - tblN t) + 1)"
proof -
  note z = tbl_sizes_okD [OF assms(1)]
  have e: "unat (of_nat e :: u16) = e" using assms(2) z(2,4) by (simp add: unat_of_nat take_bit_nat_eq_self)
  have d: "unat (push_bit 1 w :: u16) = 2 * unat w" if "unat w < 2 ^ 15" for w :: u16
    using that by (simp add: push_bit_eq_mult unat_mult_lem [THEN iffD1] mult.commute)
  show ?thesis
  proof (cases "e < tblN t")
    case True
    then have "\<not> table_entries t \<le> (of_nat e :: u16)" using e by (simp add: word_le_nat_alt)
    then show ?thesis using True z(2) d [of "of_nat e"] e by (simp add: rule_id_def make_rule_id_def)
  next
    case False
    then have g: "\<not> (of_nat e :: u16) < table_entries t" using e by (simp add: word_less_nat_alt)
    let ?w = "of_nat e - table_entries t :: u16"
    have w: "unat ?w = e - tblN t" "unat ?w < 2 ^ 14"
      using unat_sub [OF g] e assms(2) z(4) by simp_all
    have "unat (push_bit 1 ?w + 1) = 2 * unat ?w + 1"
      using d [of ?w] w(2) unat_add [of "push_bit 1 ?w" 1] by simp
    moreover have "rule_id t e = push_bit 1 ?w + 1"
      using g by (simp only: rule_id_def make_rule_id_def push_or_1 not_less if_True)
    ultimately show ?thesis using False w(1) by simp
  qed
qed

lemma rule_id_inj:
  assumes "tbl_sizes_ok t" "e < tblT t" "e' < tblT t" "rule_id t e = rule_id t e'"
  shows "e = e'"
proof -
  have "unat (rule_id t e) = unat (rule_id t e')" using assms(4) by simp
  then show ?thesis using rule_id_values [OF assms(1,2)] rule_id_values [OF assms(1,3)]
    by (auto split: if_splits) presburger+
qed

lemma rule_id_nonzero: "tbl_sizes_ok t \<Longrightarrow> e < tblT t \<Longrightarrow> e \<noteq> 0 \<Longrightarrow> rule_id t e \<noteq> 0"
  using rule_id_values [of t e] by (auto split: if_splits simp: unat_eq_zero [symmetric])

text \<open>Parsing finds the table and the entry.\<close>

lemma parse_rule_id:
  assumes "tbl_sizes_ok t" "e < tblT t" "hdl \<noteq> 0" "unat hdl < tblT t" "rule_id_array t ! (unat hdl - 1) = rule_id t e"
  shows "ipa_nati_parse_ipv4_rule_hdl t hdl =
    Some (\<not> e < tblN t, of_nat (if e < tblN t then e else e - tblN t))"
proof -
  note z = tbl_sizes_okD [OF assms(1)]
  let ?id = "rule_id t e" and ?k = "if e < tblN t then e else e - tblN t"
  have v: "unat ?id = 2 * ?k + (if e < tblN t then 0 else 1)"
    using rule_id_values [OF assms(1,2)] by simp
  have "?id AND 1 \<noteq> 0 \<longleftrightarrow> odd (unat ?id)" 
    by (simp add: and_one_eq word_unat_eq_iff unat_mod odd_iff_mod_2_eq_one)
  then have odd: "?id AND 1 \<noteq> 0 \<longleftrightarrow> \<not> e < tblN t" using v by (auto split: if_splits)
  have k: "unat (of_nat ?k :: u16) = ?k" using assms(2) z(2,4) by (simp add: unat_of_nat take_bit_nat_eq_self)
  have "unat (drop_bit 1 ?id) = ?k" using v by (simp add: drop_bit_eq_div unat_div_distrib)
  then have "drop_bit 1 ?id = of_nat ?k" by (simp only: word_unat_eq_iff k)
  then show ?thesis using assms(3-5) odd z(10,13)
    by (simp add: ipa_nati_parse_ipv4_rule_hdl_def rd_def)
qed

section \<open>A chain with an entry rule_placed\<close>

lemma place_buckets:
  assumes B: "buckets N T used nxt prv C" and P: "place N T used C b e p" "e \<noteq> 0" "0 < b" "b < N" "N < T"
    and new: "nxt' e = 0" "p \<noteq> 0 \<Longrightarrow> nxt' p = e" "p \<noteq> 0 \<Longrightarrow> prv' e = p"
    and same: "\<And>x. x \<noteq> e \<Longrightarrow> x \<noteq> p \<Longrightarrow> nxt' x = nxt x" "\<And>x. x \<noteq> e \<Longrightarrow> prv' x = prv x"
    and zero: "p = 0 \<Longrightarrow> nxt' 0 = nxt 0"
  shows "\<exists>C'. buckets N T (used(e := True)) nxt' prv' C' \<and>
    (\<forall>b' x. x \<in> set (C' b') \<longrightarrow> x \<in> set (C b') \<or> x = e \<and> b' = b)"
proof -
  note P' = placeD [OF B P]
  show ?thesis
  proof (cases "used b")
    case True
    then have p: "p \<noteq> 0" "p = last (C b)" "N < e" using P'(6,8) by auto
    have "buckets N T (used(e := True)) nxt' prv' (C(b := C b @ [e]))"
      using new same p P'(1,3)
      by (intro buckets_append [OF B P(3,4) True]) auto
    then show ?thesis by (intro exI [of _ "C(b := C b @ [e])"]) (auto split: if_splits)
  next
    case False
    then have p: "p = 0" "e = b" using P'(6,9) by auto
    have "nxt' x = nxt x" if "x \<noteq> e" for x using same(1) zero p that by (cases "x = 0") auto
    then have "buckets N T (used(e := True)) nxt' prv' (C(e := [e]))"
      using new(1) same(2) p P(3,4) P'(3) by (intro buckets_start [OF B]) auto
    then show ?thesis using p by (intro exI [of _ "C(e := [e])"]) (auto split: if_splits)
  qed
qed

section \<open>Adding keeps the invariant\<close>

lemma write16_fields [simp]:
  "lo16 (nxt_indx_pub_port (rule_write16 8 v r)) = v"
  "ip_cksm_enbl (rule_write16 8 v r) = ip_cksm_enbl r" "sw_spec_params (rule_write16 8 v r) = sw_spec_params r"
  "client_of (rule_write16 8 v r) = client_of r" "ts_proto (rule_write16 8 v r) = ts_proto r"
  "hi16 (index_write16 2 v w) = v" "lo16 (index_write16 2 v w) = lo16 w"
  by (simp_all add: rule_write16_def index_write16_def client_of_def)

lemma new_rule_fields [simp]:
  "bit (ip_cksm_enbl (new_rule c p i t)) 31" "lo16 (nxt_indx_pub_port (new_rule c p i t)) = 0"
  "lo16 (sw_spec_params (new_rule c p i t)) = p" "hi16 (sw_spec_params (new_rule c p i t)) = i"
  "client_of (new_rule c p i t) = c" "proto_of (new_rule c p i t) = r_protocol c"
  by (simp_all add: new_rule_def rule_write16_def client_of_def client_sw_rule_def)

text \<open>The situation in which a rule is added.\<close>

definition rule_placed ::
  "nat_tbl \<Rightarrow> (nat \<Rightarrow> nat list) \<Rightarrow> (nat \<Rightarrow> nat list) \<Rightarrow> ipa_nat_ipv4_rule \<Rightarrow> u16 \<Rightarrow> u16 \<Rightarrow> u16 \<Rightarrow> u16 \<Rightarrow> bool" where
  "rule_placed t C D c e p i ip \<longleftrightarrow>
     tbl_sizes_ok t \<and> rules_ok t C \<and> index_ok t D \<and> cross_ok t \<and> e \<noteq> 0 \<and> i \<noteq> 0 \<and> r_protocol c \<noteq> 0xFF \<and>
     place (tblN t) (tblT t) (used_at t) C (dst_bucket t c) (unat e) (unat p) \<and>
     place (tblN t) (tblT t) (\<lambda>i. ent_at t i \<noteq> 0) D (src_bucket t c) (unat i) (unat ip)"

lemma rule_placedD:
  assumes "rule_placed t C D c e p i ip"
  shows "tbl_sizes_ok t" "buckets (tblN t) (tblT t) (used_at t) (next_at t) (prev_at t) C"
    "buckets (tblN t) (tblT t) (\<lambda>i. ent_at t i \<noteq> 0) (inext_at t) (iprev_at t) D"
    "place (tblN t) (tblT t) (used_at t) C (dst_bucket t c) (unat e) (unat p)"
    "place (tblN t) (tblT t) (\<lambda>i. ent_at t i \<noteq> 0) D (src_bucket t c) (unat i) (unat ip)"
    "unat e < tblT t" "unat e \<noteq> 0" "unat e \<noteq> tblN t" "\<not> used_at t (unat e)" "unat p < tblT t" "unat p \<noteq> unat e"
    "unat i < tblT t" "unat i \<noteq> 0" "unat i \<noteq> tblN t" "ent_at t (unat i) = 0" "unat ip < tblT t" "unat ip \<noteq> unat i"
    "0 < dst_bucket t c" "dst_bucket t c < tblN t" "0 < src_bucket t c" "src_bucket t c < tblN t"
    "tblN t < tblT t"
proof -
  show t: "tbl_sizes_ok t" and B: "buckets (tblN t) (tblT t) (used_at t) (next_at t) (prev_at t) C"
    "buckets (tblN t) (tblT t) (\<lambda>i. ent_at t i \<noteq> 0) (inext_at t) (iprev_at t) D"
    and P: "place (tblN t) (tblT t) (used_at t) C (dst_bucket t c) (unat e) (unat p)"
    "place (tblN t) (tblT t) (\<lambda>i. ent_at t i \<noteq> 0) D (src_bucket t c) (unat i) (unat ip)"
    using assms by (simp_all add: rule_placed_def rules_ok_def index_ok_def)
  show h: "0 < dst_bucket t c" "dst_bucket t c < tblN t" "0 < src_bucket t c" "src_bucket t c < tblN t"
    unfolding dst_bucket_def src_bucket_def by (rule hash_in_table [OF t])+
  show T: "tblN t < tblT t" using tbl_sizes_okD(3) [OF t] by simp
  show nz: "unat e \<noteq> 0" "unat i \<noteq> 0" using assms by (simp_all add: rule_placed_def unat_eq_zero)
  show "unat e < tblT t" "unat e \<noteq> tblN t" "\<not> used_at t (unat e)" "unat p < tblT t" "unat p \<noteq> unat e"
    by (rule placeD [OF B(1) P(1) nz(1) h(1,2) T])+
  show "unat i < tblT t" "unat i \<noteq> tblN t" "unat ip < tblT t" "unat ip \<noteq> unat i"
    by (rule placeD [OF B(2) P(2) nz(2) h(3,4) T])+
  show "ent_at t (unat i) = 0" using placeD(3) [OF B(2) P(2) nz(2) h(3,4) T] by simp
qed

lemma added_fields:
  assumes "rule_placed t C D c e p i ip" "t' = added c e p i ip t"
  shows "tbl_sizes_ok t'" "tblN t' = tblN t" "tblX t' = tblX t" "table_entries t' = table_entries t"
    "used_at t' x \<longleftrightarrow> x = unat e \<or> used_at t x"
    "next_at t' x = (if x = unat e then 0 else if p \<noteq> 0 \<and> x = unat p then unat e else next_at t x)"
    "prev_at t' x = (if x = unat e then unat p else prev_at t x)"
    "indx_at t' x = (if x = unat e then unat i else indx_at t x)"
    "client_of (rule_at t' x) = (if x = unat e then c else client_of (rule_at t x))"
    "proto_of (rule_at t' x) = (if x = unat e then r_protocol c else proto_of (rule_at t x))"
    "ent_at t' x = (if x = unat i then unat e else ent_at t x)"
    "inext_at t' x = (if x = unat i then 0 else if ip \<noteq> 0 \<and> x = unat ip then unat i else inext_at t x)"
    "tblN t \<le> unat i \<Longrightarrow> iprev_at t' (unat i) = unat ip" "x \<noteq> unat i \<Longrightarrow> iprev_at t' x = iprev_at t x"
    "rule_id_array t' = rule_id_array t" "rule_id t' = rule_id t"
    "dst_bucket t' = dst_bucket t" "src_bucket t' = src_bucket t"
proof -
  note p = rule_placedD [OF assms(1)]
  note at = added_at [OF p(1,6,10,11,12,16,17), where c = c, folded assms(2)]
  show "tbl_sizes_ok t'" "tblN t' = tblN t" "tblX t' = tblX t" "rule_id_array t' = rule_id_array t"
    "table_entries t' = table_entries t" using at by simp_all
  show "used_at t' x \<longleftrightarrow> x = unat e \<or> used_at t x"
    "next_at t' x = (if x = unat e then 0 else if p \<noteq> 0 \<and> x = unat p then unat e else next_at t x)"
    "prev_at t' x = (if x = unat e then unat p else prev_at t x)"
    "indx_at t' x = (if x = unat e then unat i else indx_at t x)"
    "client_of (rule_at t' x) = (if x = unat e then c else client_of (rule_at t x))"
    "proto_of (rule_at t' x) = (if x = unat e then r_protocol c else proto_of (rule_at t x))"
    "ent_at t' x = (if x = unat i then unat e else ent_at t x)"
    "inext_at t' x = (if x = unat i then 0 else if ip \<noteq> 0 \<and> x = unat ip then unat i else inext_at t x)"
    by (simp_all add: at)
  show "tblN t \<le> unat i \<Longrightarrow> iprev_at t' (unat i) = unat ip" "x \<noteq> unat i \<Longrightarrow> iprev_at t' x = iprev_at t x"
    using p(14) by (simp_all add: at)
  show "rule_id t' = rule_id t" "dst_bucket t' = dst_bucket t" "src_bucket t' = src_bucket t"
    by (simp_all add: rule_id_def make_rule_id_def dst_bucket_def src_bucket_def fun_eq_iff at)
qed

lemma added_live:
  assumes "rule_placed t C D c e p i ip" "t' = added c e p i ip t"
  shows "live t' x \<longleftrightarrow> x = unat e \<or> live t x"
  using rule_placedD(6,9) [OF assms(1)] assms(1)
  by (auto simp: live_def added_fields [OF assms] rule_placed_def)

lemma added_rules_ok:
  assumes "rule_placed t C D c e p i ip" "t' = added c e p i ip t"
  shows "\<exists>C. rules_ok t' C"
proof -
  note p = rule_placedD [OF assms(1)] and f = added_fields [OF assms] and l = added_live [OF assms]
  have R: "\<And>x. x < tblT t \<Longrightarrow> used_at t x \<Longrightarrow> x \<noteq> 0 \<and> x \<noteq> tblN t"
    "\<And>b x. x \<in> set (C b) \<Longrightarrow> live t x \<Longrightarrow> dst_bucket t (client_of (rule_at t x)) = b"
    "\<And>x. x < tblT t \<Longrightarrow> used_at t x \<Longrightarrow> \<not> live t x \<Longrightarrow> x < tblN t \<and> next_at t x \<noteq> 0"
    using assms(1) by (auto simp: rule_placed_def rules_ok_def)
  have u: "used_at t' = (used_at t)(unat e := True)" by (rule ext) (simp add: f)
  have "\<exists>C'. buckets (tblN t) (tblT t) ((used_at t)(unat e := True)) (next_at t') (prev_at t') C' \<and>
    (\<forall>b' x. x \<in> set (C' b') \<longrightarrow> x \<in> set (C b') \<or> x = unat e \<and> b' = dst_bucket t c)"
    by (rule place_buckets [OF p(2,4,7,18,19,22)]) (use p(11) in \<open>auto simp: f unat_eq_zero\<close>)
  then obtain C' where C': "buckets (tblN t) (tblT t) (used_at t') (next_at t') (prev_at t') C'"
    "\<And>b' x. x \<in> set (C' b') \<Longrightarrow> x \<in> set (C b') \<or> x = unat e \<and> b' = dst_bucket t c"
    unfolding u by blast
  have "x \<noteq> 0 \<and> x \<noteq> tblN t'" if "x < tblT t'" "used_at t' x" for x
    using R(1) [of x] that p(7,8) by (auto simp: f split: if_splits)
  moreover have "dst_bucket t' (client_of (rule_at t' x)) = b" if "x \<in> set (C' b)" "live t' x" for b x
    using R(2) [of x b] C'(2) [OF that(1)] that(2) bucketsD(3) [OF p(2), of x b] p(9) by (auto simp: f l)
  moreover have "x < tblN t' \<and> next_at t' x \<noteq> 0" if "x < tblT t'" "used_at t' x" "\<not> live t' x" for x
    using R(3) [of x] that p(7) by (auto simp: f l split: if_splits)
  ultimately have "rules_ok t' C'" using C'(1) by (auto simp: rules_ok_def f(2,3))
  then show ?thesis by blast
qed

lemma added_index_ok:
  assumes "rule_placed t C D c e p i ip" "t' = added c e p i ip t"
  shows "\<exists>D. index_ok t' D"
proof -
  note p = rule_placedD [OF assms(1)] and f = added_fields [OF assms]
  have R: "\<And>x. x < tblT t \<Longrightarrow> ent_at t x \<noteq> 0 \<Longrightarrow> x \<noteq> 0 \<and> x \<noteq> tblN t"
    "\<And>b x. x \<in> set (D b) \<Longrightarrow> src_bucket t (client_of (rule_at t (ent_at t x))) = b"
    "\<And>x. x < tblT t \<Longrightarrow> ent_at t x \<noteq> 0 \<Longrightarrow> live t (ent_at t x)"
    using assms(1) by (auto simp: rule_placed_def index_ok_def cross_ok_def)
  have u: "(\<lambda>i. ent_at t' i \<noteq> 0) = (\<lambda>i. ent_at t i \<noteq> 0)(unat i := True)" using p(7) by (auto simp: f)
  have ip: "ip \<noteq> 0 \<Longrightarrow> tblN t \<le> unat i"
    using placeD(8) [OF p(3,5,13,20-22)] by (simp add: unat_eq_zero)
  have "\<exists>D'. buckets (tblN t) (tblT t) ((\<lambda>i. ent_at t i \<noteq> 0)(unat i := True)) (inext_at t') (iprev_at t') D' \<and>
    (\<forall>b' x. x \<in> set (D' b') \<longrightarrow> x \<in> set (D b') \<or> x = unat i \<and> b' = src_bucket t c)"
    by (rule place_buckets [OF p(3,5,13,20-22)])
      (use p(17) ip f(13,14) in \<open>auto simp: f(12) unat_eq_zero\<close>)
  then obtain D' where D': "buckets (tblN t) (tblT t) (\<lambda>i. ent_at t' i \<noteq> 0) (inext_at t') (iprev_at t') D'"
    "\<And>b' x. x \<in> set (D' b') \<Longrightarrow> x \<in> set (D b') \<or> x = unat i \<and> b' = src_bucket t c"
    unfolding u by blast
  have "x \<noteq> 0 \<and> x \<noteq> tblN t'" if "x < tblT t'" "ent_at t' x \<noteq> 0" for x
    using R(1) [of x] that p(13,14) by (auto simp: f(2,3,11) split: if_splits)
  moreover have "src_bucket t' (client_of (rule_at t' (ent_at t' x))) = b" if x: "x \<in> set (D' b)" for b x
  proof (cases "x = unat i")
    case True
    then have "b = src_bucket t c" using D'(2) [OF x] bucketsD(3) [OF p(3), of "unat i" b] p(15) by auto
    then show ?thesis using True by (simp add: f(9,11,18))
  next
    case False
    then have xD: "x \<in> set (D b)" using D'(2) [OF x] by simp
    then have "x < tblT t" "ent_at t x \<noteq> 0"
      using bucket_entry(1,4) [OF p(3) xD] bucketsD(3) [OF p(3) xD] by auto
    then have "ent_at t x \<noteq> unat e" using R(3) [of x] p(9) by (auto simp: live_def)
    then show ?thesis using False R(2) [OF xD] by (simp add: f(9,11,18))
  qed
  ultimately have "index_ok t' D'" using D'(1) by (auto simp: index_ok_def f(2,3))
  then show ?thesis by blast
qed

lemma added_cross_ok:
  assumes "rule_placed t C D c e p i ip" "t' = added c e p i ip t"
  shows "cross_ok t'"
proof -
  note p = rule_placedD [OF assms(1)] and f = added_fields [OF assms] and l = added_live [OF assms]
  have R: "\<And>x. live t x \<Longrightarrow> indx_at t x < tblT t \<and> ent_at t (indx_at t x) = x"
    "\<And>x. x < tblT t \<Longrightarrow> ent_at t x \<noteq> 0 \<Longrightarrow> live t (ent_at t x) \<and> indx_at t (ent_at t x) = x"
    using assms(1) by (auto simp: rule_placed_def cross_ok_def)
  have R0: "x \<noteq> 0" "x \<noteq> unat e" if "live t x" for x
    using that assms(1) p(9) by (auto simp: live_def rule_placed_def rules_ok_def)
  have "indx_at t' x < tblT t' \<and> ent_at t' (indx_at t' x) = x" if "live t' x" for x
  proof (cases "x = unat e")
    case False
    then have x: "live t x" using that l by simp
    then have "indx_at t x \<noteq> unat i" using R(1) [OF x] R0(1) [OF x] p(15) by auto
    then show ?thesis using False R(1) [OF x] by (simp add: f(2,3,8,11))
  qed (use p(12) in \<open>simp add: f(2,3,8,11)\<close>)
  moreover have "live t' (ent_at t' x) \<and> indx_at t' (ent_at t' x) = x" if "x < tblT t'" "ent_at t' x \<noteq> 0" for x
  proof (cases "x = unat i")
    case False
    then have x: "x < tblT t" "ent_at t x \<noteq> 0" using that by (simp_all add: f(2,3,11))
    then show ?thesis using False R(2) [OF x] R0(2) by (simp add: f(8,11) l)
  qed (simp add: f(8,11) l)
  ultimately show ?thesis by (auto simp: cross_ok_def)
qed

section \<open>Handles\<close>

lemma claim_first:
  assumes "h < T" "length ids = T" "T \<le> 2 ^ 15" "ids ! h = 0" "\<And>j. j < h \<Longrightarrow> ids ! j \<noteq> 0" "k \<le> h"
  shows "claim_id x ids [k..<T] = Some (of_nat h + 1, ids[h := x])"
  using assms(6)
proof (induction rule: inc_induct)
  case base
  then show ?case using assms(1-4) by (simp add: upt_conv_Cons rd_def wr_def)
next
  case (step j)
  then show ?case using assms(1,2,5) by (simp add: upt_conv_Cons rd_def)
qed

text \<open>As long as an entry is free, a handle is, and not the last.\<close>

lemma free_handle:
  assumes "tbl_sizes_ok t" "ids_ok t" "e < tblT t" "e \<noteq> 0" "e \<noteq> tblN t"
    "\<And>x. live t x \<Longrightarrow> x \<noteq> 0 \<and> x \<noteq> tblN t \<and> x \<noteq> e"
  shows "\<exists>h. h + 1 < tblT t \<and> rule_id_array t ! h = 0 \<and> (\<forall>j < h. rule_id_array t ! j \<noteq> 0)"
proof -
  let ?T = "tblT t" and ?ids = "rule_id_array t"
  note z = tbl_sizes_okD [OF assms(1)]
  define E where "E = {..<?T} - {0, tblN t, e}"
  have E: "finite E" "card E = ?T - 3" using assms(3-5) z(1,3) by (simp_all add: E_def card_Diff_subset)
  have "\<exists>h < ?T - 2. ?ids ! h = 0"
  proof (rule ccontr)
    assume "\<not> (\<exists>h < ?T - 2. ?ids ! h = 0)"
    then have nz: "\<And>h. h < ?T - 2 \<Longrightarrow> ?ids ! h \<noteq> 0" by blast
    have "inj_on ((!) ?ids) {..<?T - 2}" using assms(2) nz by (auto simp: ids_ok_def inj_on_def)
    moreover have "(!) ?ids ` {..<?T - 2} \<subseteq> rule_id t ` E"
    proof
      fix x assume "x \<in> (!) ?ids ` {..<?T - 2}"
      then obtain h where h: "x = ?ids ! h" "h < ?T - 2" by auto
      then obtain e' where "live t e'" "?ids ! h = rule_id t e'"
        using ids_okD(2) [OF assms(2) _ nz [OF h(2)]] h(2)
        less_trans [OF h(2), of ?T] z(1) by fastforce
      moreover from this(1) have "e' \<in> E" using assms(6) by (auto simp: E_def live_def)
      ultimately show "x \<in> rule_id t ` E" using h(1) by auto
    qed
    ultimately have "card {..<?T - 2} \<le> card (rule_id t ` E)"
      using E(1) by (metis card_image card_mono finite_imageI)
    also have "\<dots> \<le> ?T - 3" using E card_image_le [of E "rule_id t"] by simp
    finally show False using z(1,3) by simp
  qed
  then obtain m where m: "m < ?T - 2" "?ids ! m = 0" by blast
  define h where "h = (LEAST h. ?ids ! h = 0)"
  have "?ids ! h = 0" "h \<le> m" "\<And>j. j < h \<Longrightarrow> ?ids ! j \<noteq> 0"
    unfolding h_def using m(2) by (auto intro: LeastI Least_le dest: not_less_Least)
  then show ?thesis using m(1) by (intro exI [of _ h]) auto
qed

section \<open>The rules by their handles\<close>

definition entry_of :: "nat_tbl \<Rightarrow> u16 \<Rightarrow> nat" where
  "entry_of t x = unat (drop_bit 1 x) + (if odd (unat x) then tblN t else 0)"

definition nat_rules :: "nat_tbl \<Rightarrow> u32 \<Rightarrow> ipa_nat_ipv4_rule option" where
  "nat_rules t h =
    (if h = 0 \<or> tblT t \<le> unat h then None
     else
       let x = rule_id_array t ! (unat h - 1)
       in if x = 0 then None else Some (client_of (rule_at t (entry_of t x))))"

lemma entry_of_rule_id: "tbl_sizes_ok t \<Longrightarrow> e < tblT t \<Longrightarrow> entry_of t (rule_id t e) = e"
  using rule_id_values [of t e]
  by (auto simp: entry_of_def drop_bit_eq_div unat_div_distrib split: if_splits)

lemma nat_rules_cases:
  assumes "tbl_sizes_ok t" "ids_ok t" "nat_rules t h = Some c"
  shows "\<exists>e. live t e \<and> rule_id_array t ! (unat h - 1) = rule_id t e \<and> c = client_of (rule_at t e) \<and>
    0 < unat h \<and> unat h < tblT t"
proof -
  let ?x = "rule_id_array t ! (unat h - 1)"
  have h: "0 < unat h" "unat h < tblT t" "?x \<noteq> 0" "c = client_of (rule_at t (entry_of t ?x))"
    using assms(3) by (auto simp: nat_rules_def Let_def unat_gt_0 split: if_splits)
  have "unat h - 1 < tblT t" using h(2) by simp
  from ids_okD(2) [OF assms(2) this h(3)] obtain e where e: "live t e" "?x = rule_id t e" by blast
  then have "entry_of t ?x = e" using entry_of_rule_id [OF assms(1)] by (simp add: live_def)
  then show ?thesis using e h by (intro exI [of _ e]) simp
qed

section \<open>Adding\<close>

text \<open>The driver has no place for a rule.\<close>

definition nat_full :: "nat_tbl \<Rightarrow> ipa_nat_ipv4_rule \<Rightarrow> bool" where
  "nat_full t c \<longleftrightarrow>
     used_at t (dst_bucket t c) \<and> (\<forall>x. tblN t < x \<longrightarrow> x < tblT t \<longrightarrow> used_at t x) \<or>
     ent_at t (src_bucket t c) \<noteq> 0 \<and> (\<forall>i. tblN t < i \<longrightarrow> i < tblT t \<longrightarrow> ent_at t i \<noteq> 0)"

lemma live_entry: "rules_ok t C \<Longrightarrow> live t x \<Longrightarrow> x \<noteq> 0 \<and> x \<noteq> tblN t"
  by (auto simp: rules_ok_def live_def)

lemma added_ids:
  assumes P: "rule_placed t C D c e p i ip" and t': "t' = added c e p i ip t" and ids: "ids_ok t"
    and h: "h + 1 < tblT t" "rule_id_array t ! h = 0"
  shows "ids_ok (t'\<lparr>rule_id_array := (rule_id_array t)[h := rule_id t (unat e)]\<rparr>)"
    (is "ids_ok ?t")
proof -
  note p = rule_placedD [OF P] and f = added_fields [OF P t'] and l = added_live [OF P t']
  note z = tbl_sizes_okD [OF p(1)]
  have R: "rules_ok t C" using P by (simp add: rule_placed_def)
  have same: "tblT ?t = tblT t" "rule_id ?t = rule_id t" "\<And>x. live ?t x \<longleftrightarrow> x = unat e \<or> live t x"
    using l by (simp_all add: f(2-4) rule_id_def make_rule_id_def fun_eq_iff)
  have at: "rule_id_array ?t ! j = (if j = h then rule_id t (unat e) else rule_id_array t ! j)"
    if "j < tblT t" for j using that h z(10) by simp
  have new: "rule_id_array t ! j \<noteq> rule_id t (unat e)" if j: "j < tblT t" for j
  proof
    assume a: "rule_id_array t ! j = rule_id t (unat e)"
    then have "rule_id_array t ! j \<noteq> 0" using rule_id_nonzero [OF p(1,6,7)] by simp
    then obtain x where x: "live t x" "rule_id_array t ! j = rule_id t x" using ids_okD(2) [OF ids j] by blast
    have "x < tblT t" using x(1) by (simp add: live_def)
    from rule_id_inj [OF p(1) this p(6) trans [OF x(2) [symmetric] a]] have "x = unat e" .
    then show False using x(1) p(9) by (simp add: live_def)
  qed
  have "j + 1 < tblT ?t \<and> (\<exists>x. live ?t x \<and> rule_id_array ?t ! j = rule_id ?t x)"
    if "j < tblT ?t" "rule_id_array ?t ! j \<noteq> 0" for j
    using that ids_okD(1,2) [OF ids, of j] h(1) at [of j] by (cases "j = h") (auto simp: same f(2,3) l)
  moreover have "j = j'" if "j < tblT ?t" "j' < tblT ?t" "rule_id_array ?t ! j \<noteq> 0"
    "rule_id_array ?t ! j = rule_id_array ?t ! j'" for j j'
    using that ids_okD(3) [OF ids, of j j'] new [of j] new [of j'] at [of j] at [of j']
    by (cases "j = h"; cases "j' = h") (auto simp: same f(2,3) l)
  moreover have "\<exists>j < tblT ?t. rule_id_array ?t ! j = rule_id ?t x" if x: "live ?t x" for x
  proof (cases "x = unat e")
    case True
    then show ?thesis using h(1) at [of h] by (intro exI [of _ h]) (simp add: same f(2,3) l)
  next
    case False
    then have "live t x" using x by (simp add: same f(2,3) l)
    then obtain j where j: "j < tblT t" "rule_id_array t ! j = rule_id t x" using ids_okD(4) [OF ids] by blast
    have "x < tblT t" "x \<noteq> 0" using \<open>live t x\<close> live_entry [OF R] by (auto simp: live_def)
    then have "j \<noteq> h" using j(2) h(2) rule_id_nonzero [OF p(1)] by auto
    then show ?thesis using j at [of j] by (intro exI [of _ j]) (simp add: same f(2,3) l)
  qed
  ultimately show ?thesis unfolding ids_ok_def by blast
qed

lemma added_nat_rules:
  assumes P: "rule_placed t C D c e p i ip" and t': "t' = added c e p i ip t" and ids: "ids_ok t"
    and h: "h + 1 < tblT t" "rule_id_array t ! h = 0" "unat hdl = h + 1"
  shows "nat_rules t hdl = None"
    "nat_rules (t'\<lparr>rule_id_array := (rule_id_array t)[h := rule_id t (unat e)]\<rparr>) = (nat_rules t)(hdl \<mapsto> c)"
proof -
  let ?t = "t'\<lparr>rule_id_array := (rule_id_array t)[h := rule_id t (unat e)]\<rparr>"
  note p = rule_placedD [OF P] and f = added_fields [OF P t']
  note z = tbl_sizes_okD [OF p(1)]
  have hdl: "hdl \<noteq> 0" using h(3) by auto
  show "nat_rules t hdl = None" using h by (simp add: nat_rules_def)
  have ent: "entry_of ?t = entry_of t" by (simp add: fun_eq_iff entry_of_def f(2,3))
  have "nat_rules ?t x = ((nat_rules t)(hdl \<mapsto> c)) x" for x
  proof (cases "x = hdl")
    case True
    have "rule_id t (unat e) \<noteq> 0" using rule_id_nonzero [OF p(1,6,7)] .
    then show ?thesis using True h hdl z(10)
      by (simp add: nat_rules_def f(2,3,9) ent entry_of_rule_id [OF p(1,6)])
  next
    case False
    show ?thesis
    proof (cases "x = 0 \<or> tblT t \<le> unat x")
      case True
      then show ?thesis using False by (auto simp: nat_rules_def f(2,3))
    next
      case x: False
      have "unat x \<noteq> h + 1" using False h(3) by (auto simp: word_unat_eq_iff)
      moreover have "unat x \<noteq> 0" using x by (simp add: unat_eq_zero)
      ultimately have j: "unat x - 1 \<noteq> h" "unat x - 1 < tblT t" using x by auto
      let ?y = "rule_id_array t ! (unat x - 1)"
      have "entry_of t ?y \<noteq> unat e" if y: "?y \<noteq> 0"
      proof -
        obtain e' where e': "live t e'" "?y = rule_id t e'" using ids_okD(2) [OF ids j(2) y] by blast
        then have "entry_of t ?y = e'" using entry_of_rule_id [OF p(1)] by (simp add: live_def)
        then show ?thesis using e'(1) p(9) by (auto simp: live_def)
      qed
      then show ?thesis using False x j by (simp add: nat_rules_def f(2,3,9) ent Let_def)
    qed
  qed
  then show "nat_rules ?t = (nat_rules t)(hdl \<mapsto> c)" by (rule ext)
qed

lemma make_hdl_added:
  assumes P: "rule_placed t C D c e p i ip" and t': "t' = added c e p i ip t" and ids: "ids_ok t"
  shows "\<exists>h. h + 1 < tblT t \<and> rule_id_array t ! h = 0 \<and>
    ipa_nati_make_rule_hdl t' e =
      Some (of_nat h + 1, t'\<lparr>rule_id_array := (rule_id_array t)[h := rule_id t (unat e)]\<rparr>)"
proof -
  note p = rule_placedD [OF P] and f = added_fields [OF P t']
  note z = tbl_sizes_okD [OF p(1)]
  have R: "rules_ok t C" using P by (simp add: rule_placed_def)
  have "x \<noteq> 0 \<and> x \<noteq> tblN t \<and> x \<noteq> unat e" if "live t x" for x
    using live_entry [OF R that] that p(9) by (auto simp: live_def)
  from free_handle [OF p(1) ids p(6-8) this] obtain h where h: "h + 1 < tblT t" "rule_id_array t ! h = 0"
    "\<forall>j < h. rule_id_array t ! j \<noteq> 0" by blast
  have id: "make_rule_id t' e = rule_id t (unat e)"
    by (simp add: rule_id_def make_rule_id_def f(4))
  have "claim_id (rule_id t (unat e)) (rule_id_array t) [0..<tblT t] =
      Some (of_nat h + 1, (rule_id_array t)[h := rule_id t (unat e)])"
    using h z by (intro claim_first) auto
  then show ?thesis using h tbl_sizes_okD(13) [OF f(1)]
    by (intro exI [of _ h]) (simp add: ipa_nati_make_rule_hdl_def id f(2,3,15))
qed

text \<open>
  Adding a rule: refused without room, and otherwise the rule is there under a new handle.
\<close>

lemma add_rule_refines:
  assumes K: "dma_works K" and inv: "drv_inv (ip4_tbl s)" and c: "r_protocol c \<noteq> 0xFF"
  shows "if nat_full (ip4_tbl s) c then ipa_nati_add_ipv4_rule K c h s = Some (- EINVAL, h, s)
    else \<exists>hdl s'. ipa_nati_add_ipv4_rule K c h s = Some (0, hdl, s') \<and> drv_inv (ip4_tbl s') \<and>
      nat_rules (ip4_tbl s) hdl = None \<and> nat_rules (ip4_tbl s') = (nat_rules (ip4_tbl s))(hdl \<mapsto> c) \<and>
      hdl \<noteq> 0 \<and> (\<exists>t k. s' = s\<lparr>ip4_tbl := t, kern := k\<rparr>)"
proof -
  define t where "t = ip4_tbl s"
  obtain C D where CD: "rules_ok t C" "index_ok t D" and t: "tbl_sizes_ok t" "cross_ok t" "ids_ok t"
    using inv unfolding drv_inv_def t_def by blast
  note z = tbl_sizes_okD [OF t(1)]
  have B: "buckets (tblN t) (tblT t) (used_at t) (next_at t) (prev_at t) C"
    "buckets (tblN t) (tblT t) (\<lambda>i. ent_at t i \<noteq> 0) (inext_at t) (iprev_at t) D"
    using CD by (simp_all add: rules_ok_def index_ok_def)
  obtain p e where e: "ipa_nati_generate_tbl_rule c t =
      Some ((client_sw_rule (public_addr t) c)\<lparr>prev_index := p\<rparr>, e)"
    "place (tblN t) (tblT t) (used_at t) C (dst_bucket t c) (unat e) (unat p)"
    using generate_tbl_rule_place [OF t(1) B(1), of "dst_bucket t c" c] by (auto simp: dst_bucket_def)
  obtain ip i where i: "\<And>sw. ipa_nati_generate_index_rule c sw t = Some (sw\<lparr>indx_prev := ip\<rparr>, i)"
    "place (tblN t) (tblT t) (\<lambda>i. ent_at t i \<noteq> 0) D (src_bucket t c) (unat i) (unat ip)"
    using generate_index_rule_place [OF t(1) B(2), of "src_bucket t c" c] by (auto simp: src_bucket_def)
  have full: "nat_full t c \<longleftrightarrow> e = 0 \<or> i = 0"
    using e(2) i(2) unfolding nat_full_def place_def by (auto simp: unat_eq_zero split: if_splits)
  show ?thesis
  proof (cases "nat_full t c")
    case True
    then show ?thesis using full add_rule_full [of c s _ e ip i K h, folded t_def, OF e(1) i(1)]
      by (simp add: t_def)
  next
    case False
    have P: "rule_placed t C D c e p i ip"
      using False full CD t c e(2) i(2) by (simp add: rule_placed_def)
    note p = rule_placedD [OF P] and f = added_fields [OF P refl]
    have "e \<noteq> 0" "i \<noteq> 0" using False full by simp_all
    with p obtain k where k: "ipa_nati_add_ipv4_rule K c h s =
        (case ipa_nati_make_rule_hdl (added c e p i ip t) e of
           None \<Rightarrow> None
         | Some (hdl, t) \<Rightarrow> Some (if hdl = 0 then - EINVAL else 0, ucast hdl, s\<lparr>ip4_tbl := t, kern := k\<rparr>))"
      using add_rule_steps [OF K, of s c p e ip i h, folded t_def, OF t(1) e(1) i(1)] by blast
    obtain n where n: "n + 1 < tblT t" "rule_id_array t ! n = 0"
      "ipa_nati_make_rule_hdl (added c e p i ip t) e = Some (of_nat n + 1,
         (added c e p i ip t)\<lparr>rule_id_array := (rule_id_array t)[n := rule_id t (unat e)]\<rparr>)"
      using make_hdl_added [OF P refl t(3)] by blast
    let ?hdl = "ucast (of_nat n + 1 :: u16) :: u32"
    let ?t = "(added c e p i ip t)\<lparr>rule_id_array := (rule_id_array t)[n := rule_id t (unat e)]\<rparr>"
    have u: "unat (of_nat n + 1 :: u16) = n + 1"
    proof -
      have "unat (of_nat n :: u16) = n" using n(1) z(2,4) by (simp add: unat_of_nat take_bit_nat_eq_self)
      then show ?thesis using unat_add [of "of_nat n" 1] n(1) z(2,4) by simp
    qed
    have hdl: "unat ?hdl = n + 1" using u n(1) z(2,4) by (simp add: unsigned_ucast_eq take_bit_nat_eq_self)
    have nz: "(of_nat n + 1 :: u16) \<noteq> 0" "?hdl \<noteq> 0" using u hdl by auto
    have "drv_inv ?t"
      using added_rules_ok [OF P refl] added_index_ok [OF P refl] added_cross_ok [OF P refl]
        added_ids [OF P refl t(3) n(1,2)] f(1) tbl_sizes_okD(10) [OF t(1)] f(2,3)
      by (auto simp: drv_inv_def tbl_sizes_ok_def)
    then show ?thesis
      using k n(3) nz added_nat_rules [OF P refl t(3) n(1,2) hdl] False
      by (simp add: t_def) blast
  qed
qed

end
