(* ===== verification/NatDrvDel.thy ===== *)
theory NatDrvDel
  imports NatDrvInv
begin

text \<open>
  Deleting a rule: what the commands and the driver's own writes leave in the tables, and that the
  invariant is kept.
\<close>

section \<open>Reading an entry\<close>

text \<open>The table and the place in it of an entry.\<close>

definition located :: "nat_tbl \<Rightarrow> nat \<Rightarrow> u16 \<Rightarrow> bool" where
  "located t e k \<longleftrightarrow> e < tblT t \<and> unat k = (if e < tblN t then e else e - tblN t)"

lemma rd_rule:
  assumes "tbl_sizes_ok t" "located t e k"
  shows "rd (if \<not> e < tblN t then expn_rules (tables t) else base_rules (tables t)) (unat k) = Some (rule_at t e)"
  using assms(2) tbl_sizes_okD(5,6) [OF assms(1)] by (auto simp: rd_def rule_at_def located_def)

lemma located_self:
  assumes "tbl_sizes_ok t" "unat w < tblT t"
  shows "located t (unat w) (if w < table_entries t then w else w - table_entries t)"
  using assms(2) at_expn(1) [OF assms(1) _ assms(2)] by (auto simp: located_def word_less_nat_alt)

lemma rd_word:
  assumes "tbl_sizes_ok t" "unat w < tblT t"
  shows "w < table_entries t \<Longrightarrow> rd (index_table (tables t)) (unat w) = Some (word_at t (unat w))"
    "\<not> w < table_entries t \<Longrightarrow>
       rd (index_expn (tables t)) (unat (w - table_entries t)) = Some (word_at t (unat w))"
    "\<not> w < table_entries t \<Longrightarrow>
       rd (index_expn_meta t) (unat (w - table_entries t)) = Some (meta_at t (unat w))"
  using at_expn [OF assms(1) _ assms(2)] in_base(2) [OF assms(1), of w] tbl_sizes_okD(7-9) [OF assms(1)]
  by (simp_all add: rd_def word_at_def meta_at_def)

definition pos_of :: "bool \<Rightarrow> nat \<Rightarrow> del_type" where
  "pos_of base n =
    (if base then if n = 0 then IPA_NAT_DEL_TYPE_ONLY_ONE else IPA_NAT_DEL_TYPE_HEAD
     else if n = 0 then IPA_NAT_DEL_TYPE_LAST else IPA_NAT_DEL_TYPE_MIDDLE)"

lemma find_rule_pos:
  assumes "tbl_sizes_ok t" "located t e k"
  shows "ipa_nati_find_rule_pos t (\<not> e < tblN t) k = Some (pos_of (e < tblN t) (next_at t e))"
  using rd_rule [OF assms]
  by (auto simp: ipa_nati_find_rule_pos_def pos_of_def unat_eq_zero split: if_splits)

lemma find_index_rule_pos:
  assumes "tbl_sizes_ok t" "unat i < tblT t"
  shows "ipa_nati_find_index_rule_pos t i = Some (pos_of (unat i < tblN t) (inext_at t (unat i)))"
  using rd_word(1,2) [OF assms]
  by (cases "i < table_entries t")
    (auto simp: ipa_nati_find_index_rule_pos_def pos_of_def unat_eq_zero word_less_nat_alt word_le_nat_alt)

section \<open>The commands\<close>

lemma del_rule_cmd_is:
  assumes "tbl_sizes_ok t" "located t e k"
  shows "del_rule_cmd t k r (pos_of (e < tblN t) (unat (rule_next r))) =
    (if e < tblN t then if rule_next r = 0 then rule_cmd t k 18 0 else rule_cmd t k 22 0xFF00
     else rule_cmd t (rule_prev r) 8 (rule_next r))"
  using assms(2) tbl_sizes_okD(11) [OF assms(1)] prev_next_cmd_is(1) [OF assms(1)]
  by (auto simp: del_rule_cmd_def pos_of_def unat_eq_zero rule_cmd_def located_def word_less_nat_alt
      ipa_nati_get_entry_offset_def IPA_NAT_RULE_FLAG_FIELD_OFFSET_def IPA_NAT_RULE_PROTO_FIELD_OFFSET_def
      IPA_NAT_FLAG_DISABLE_BIT_MASK_def IPA_NAT_INVALID_PROTO_FIELD_VALUE_def)

lemma del_index_cmds_is:
  assumes "tbl_sizes_ok t" "unat i < tblT t"
    and "i < table_entries t \<Longrightarrow> n \<noteq> 0 \<Longrightarrow> unat n < tblT t \<and> \<not> n < table_entries t"
    and "n = indx_nxt (word_at t (unat i))"
  shows "del_index_cmds t i (pos_of (unat i < tblN t) (unat n)) =
    Some (if i < table_entries t then
            if n = 0 then [index_cmd t i 0 0]
            else [index_cmd t i 0 (indx_entry (word_at t (unat n))),
                  index_cmd t i 2 (indx_nxt (word_at t (unat n)))]
          else [index_cmd t (meta_at t (unat i)) 2 n])"
proof (cases "i < table_entries t")
  case True
  then have b: "unat i < tblN t" by (simp add: word_less_nat_alt)
  show ?thesis
  proof (cases "n = 0")
    case n: True
    show ?thesis using True b n tbl_sizes_okD(11) [OF assms(1)]
      by (simp add: del_index_cmds_def pos_of_def index_cmd_def ipa_nati_get_index_entry_offset_def
          IPA_NAT_INDEX_RULE_NAT_INDEX_FIELD_OFFSET_def)
  next
    case n: False
    then have u: "unat n \<noteq> 0" by (simp add: unat_eq_zero)
    show ?thesis using True b n u assms(3,4) tbl_sizes_okD(11) [OF assms(1)] rd_word(1) [OF assms(1,2) True]
        rd_word(2) [OF assms(1), of n]
      by (simp add: del_index_cmds_def pos_of_def index_cmd_def ipa_nati_get_index_entry_offset_def
          IPA_NAT_INDEX_RULE_NAT_INDEX_FIELD_OFFSET_def IPA_NAT_INDEX_RULE_NEXT_FIELD_OFFSET_def)
  qed
next
  case False
  then have b: "\<not> unat i < tblN t" by (simp add: word_less_nat_alt)
  show ?thesis using False b assms(4) rd_word(2,3) [OF assms(1,2) False] prev_next_cmd_is(2) [OF assms(1)]
    by (auto simp: del_index_cmds_def pos_of_def unat_eq_zero)
qed

definition on_index :: "nat_dma_one \<Rightarrow> bool" where
  "on_index c \<longleftrightarrow> dma_base_addr c = IPA_NAT_INDX_TBL \<or> dma_base_addr c = IPA_NAT_INDEX_EXPN_TBL"

lemma cmd_tables: "\<not> on_index (rule_cmd t k pos v)" "on_index (index_cmd t i pos v)"
  by (simp_all add: on_index_def rule_cmd_def index_cmd_def dma_cmd_def)

lemma ReorderCmds_rule_first:
  assumes "\<not> on_index c" "cs \<noteq> []" "on_index (hd cs)"
  shows "ReorderCmds (c # cs) = cs @ [c]"
proof -
  have "takeWhile (\<lambda>c. dma_base_addr c \<noteq> IPA_NAT_INDX_TBL \<and> dma_base_addr c \<noteq> IPA_NAT_INDEX_EXPN_TBL)
      (c # cs) = [c]"
    using assms by (cases cs) (auto simp: on_index_def)
  then show ?thesis using assms(2) by (simp add: ReorderCmds_def)
qed

section \<open>What the commands leave\<close>

abbreviation dma_tbl :: "nat_dma_one list \<Rightarrow> nat_tbl \<Rightarrow> nat_tbl" where
  "dma_tbl cs t \<equiv> t\<lparr>tables := fold dma_write cs (tables t)\<rparr>"

lemma dma_write_lengths [simp]:
  "length (base_rules (dma_write c m)) = length (base_rules m)"
  "length (expn_rules (dma_write c m)) = length (expn_rules m)"
  "length (index_table (dma_write c m)) = length (index_table m)"
  "length (index_expn (dma_write c m)) = length (index_expn m)"
  by (cases "dma_base_addr c"; simp add: dma_write_def Let_def)+

lemma dma_in_range_write [simp]: "dma_in_range (dma_write c m) = dma_in_range m"
  by (rule ext) (simp add: dma_in_range_def Let_def split: nat_table_type.splits)

lemma cmd_entries [simp]:
  "rule_cmd (put_rule e r t) = rule_cmd t" "rule_cmd (put_word i w t) = rule_cmd t"
  "index_cmd (put_rule e r t) = index_cmd t" "index_cmd (put_word i w t) = index_cmd t"
  by (simp_all add: fun_eq_iff rule_cmd_def index_cmd_def)

lemma put_again [simp]: "put_word i a (put_word i b t) = put_word i a t"
  "put_rule e q (put_rule e r t) = put_rule e q t"
  by (simp_all add: put_word_def put_rule_def)

text \<open>The rules, and the index.\<close>

definition del_dma_rule :: "nat \<Rightarrow> hw_rule \<Rightarrow> nat_tbl \<Rightarrow> nat_tbl" where
  "del_dma_rule e r t =
    (if e < tblN t then put_rule e (if rule_next r = 0 then rule_write16 18 0 r else rule_write16 22 0xFF00 r) t
     else
       let p = unat (rule_prev r)
       in put_rule p (rule_write16 8 (rule_next r) (rule_at t p)) t)"

definition del_dma_index :: "nat \<Rightarrow> nat_tbl \<Rightarrow> nat_tbl" where
  "del_dma_index i t =
    (let w = word_at t i; n = indx_nxt w; v = word_at t (unat n)
     in if i < tblN t then
          put_word i (if n = 0 then index_write16 0 0 w
                      else index_write16 2 (indx_nxt v) (index_write16 0 (indx_entry v) w)) t
        else put_word (iprev_at t i) (index_write16 2 n (word_at t (iprev_at t i))) t)"

lemma dma_rule_only:
  assumes "tbl_sizes_ok t" "located t e k" "rule_at t e = r" "\<not> e < tblN t \<Longrightarrow> unat (rule_prev r) < tblT t"
  shows "list_all (dma_in_range (tables t)) [del_rule_cmd t k r (pos_of (e < tblN t) (unat (rule_next r)))] \<and>
    dma_tbl [del_rule_cmd t k r (pos_of (e < tblN t) (unat (rule_next r)))] t = del_dma_rule e r t"
proof (cases "e < tblN t")
  case True
  then have k: "unat k = e" "unat k < tblT t" using assms(2) by (simp_all add: located_def)
  show ?thesis using True k rule_cmd_write [OF assms(1) k(2), of 18 0] rule_cmd_write [OF assms(1) k(2), of 22 "0xFF00"]
    unfolding del_rule_cmd_is [OF assms(1,2)] by (simp add: del_dma_rule_def assms(3))
next
  case False
  show ?thesis using False rule_cmd_write [OF assms(1) assms(4) [OF False], of 8 "rule_next r"]
    unfolding del_rule_cmd_is [OF assms(1,2)] by (simp add: del_dma_rule_def Let_def)
qed

lemma put_word_at: "tbl_sizes_ok t \<Longrightarrow> i < tblT t \<Longrightarrow> word_at (put_word i w t) x = (if x = i then w else word_at t x)"
  using put_at(2) [of t i w x] by (simp add: all_entries_def)

lemma put_rule_at: "tbl_sizes_ok t \<Longrightarrow> e < tblT t \<Longrightarrow> rule_at (put_rule e r t) x = (if x = e then r else rule_at t x)"
  using put_at(1) [of t e r x] by (simp add: all_entries_def)

lemma dma_index_only:
  assumes "tbl_sizes_ok t" "unat i < tblT t" "n = indx_nxt (word_at t (unat i))"
    and "i < table_entries t \<Longrightarrow> n \<noteq> 0 \<Longrightarrow> unat n < tblT t \<and> \<not> n < table_entries t"
    and "\<not> i < table_entries t \<Longrightarrow> iprev_at t (unat i) < tblT t"
  shows "\<exists>cs. del_index_cmds t i (pos_of (unat i < tblN t) (unat n)) = Some cs \<and> cs \<noteq> [] \<and> on_index (hd cs) \<and>
    list_all (dma_in_range (tables t)) cs \<and> dma_tbl cs t = del_dma_index (unat i) t"
proof (cases "i < table_entries t")
  case True
  then have b: "unat i < tblN t" by (simp add: word_less_nat_alt)
  note w = index_cmd_write [OF assms(1,2)]
  show ?thesis
  proof (cases "n = 0")
    case n: True
    have "del_index_cmds t i (pos_of (unat i < tblN t) (unat n)) = Some [index_cmd t i 0 0]"
      using del_index_cmds_is [OF assms(1,2,4,3)] True n by simp
    then show ?thesis using w [of 0 0] b n assms(3)
      by (intro exI [of _ "[index_cmd t i 0 0]"]) (simp add: cmd_tables del_dma_index_def)
  next
    case False
    let ?v = "word_at t (unat n)"
    let ?t = "put_word (unat i) (index_write16 0 (indx_entry ?v) (word_at t (unat i))) t"
    have t: "tbl_sizes_ok ?t" "unat i < tblT ?t" using assms(1,2) by simp_all
    have 1: "dma_in_range (tables t) (index_cmd t i 0 (indx_entry ?v))"
      "dma_tbl [index_cmd t i 0 (indx_entry ?v)] t = ?t" using w [of 0 "indx_entry ?v"] by simp_all
    have 2: "dma_in_range (tables ?t) (index_cmd t i 2 (indx_nxt ?v))"
      "dma_tbl [index_cmd t i 2 (indx_nxt ?v)] ?t =
        put_word (unat i) (index_write16 2 (indx_nxt ?v) (index_write16 0 (indx_entry ?v) (word_at t (unat i)))) t"
      using index_cmd_write [OF t, of 2 "indx_nxt ?v"] assms(1,2)
      by (simp_all add: put_word_at del: put_again) simp_all
    have r: "dma_in_range (tables t) (index_cmd t i 2 (indx_nxt ?v))" using w [of 2 "indx_nxt ?v"] by simp
    have "dma_tbl [index_cmd t i 0 (indx_entry ?v), index_cmd t i 2 (indx_nxt ?v)] t =
        dma_tbl [index_cmd t i 2 (indx_nxt ?v)] (dma_tbl [index_cmd t i 0 (indx_entry ?v)] t)" by simp
    also have "\<dots> = put_word (unat i) (index_write16 2 (indx_nxt ?v) (index_write16 0 (indx_entry ?v) (word_at t (unat i)))) t"
      by (simp only: 1(2) 2(2))
    finally have d: "dma_tbl [index_cmd t i 0 (indx_entry ?v), index_cmd t i 2 (indx_nxt ?v)] t = \<dots>" .
    have "del_index_cmds t i (pos_of (unat i < tblN t) (unat n)) =
        Some [index_cmd t i 0 (indx_entry ?v), index_cmd t i 2 (indx_nxt ?v)]"
      using del_index_cmds_is [OF assms(1,2,4,3)] True False by simp
    moreover have "del_dma_index (unat i) t =
        put_word (unat i) (index_write16 2 (indx_nxt ?v) (index_write16 0 (indx_entry ?v) (word_at t (unat i)))) t"
      using b False by (simp add: del_dma_index_def Let_def assms(3))
    ultimately show ?thesis using 1(1) r d cmd_tables(2)
      by (intro exI [of _ "[index_cmd t i 0 (indx_entry ?v), index_cmd t i 2 (indx_nxt ?v)]"])
        (simp del: fold_simps)
  qed
next
  case False
  then have b: "\<not> unat i < tblN t" by (simp add: word_less_nat_alt)
  have "del_index_cmds t i (pos_of (unat i < tblN t) (unat n)) = Some [index_cmd t (meta_at t (unat i)) 2 n]"
    using del_index_cmds_is [OF assms(1,2,4,3)] False by simp
  then show ?thesis using index_cmd_write [OF assms(1) assms(5) [OF False], of 2 n] b assms(3)
    by (intro exI [of _ "[index_cmd t (meta_at t (unat i)) 2 n]"]) (simp add: cmd_tables del_dma_index_def Let_def)
qed

section \<open>What the driver writes itself\<close>

definition put_prev :: "u16 \<Rightarrow> hw_rule \<Rightarrow> hw_rule" where
  "put_prev p r = r\<lparr>sw_spec_params := set_lo (sw_spec_params r) p\<rparr>"

definition set_indx :: "u16 \<Rightarrow> hw_rule \<Rightarrow> hw_rule" where
  "set_indx i r = r\<lparr>sw_spec_params := set_hi (sw_spec_params r) i\<rparr>"

definition del_upd_rule :: "nat \<Rightarrow> nat_tbl \<Rightarrow> nat_tbl" where
  "del_upd_rule e t =
    (let r = rule_at t e; n = next_at t e
     in if e < tblN t \<and> n \<noteq> 0 then t
        else if n \<noteq> 0 then put_rule e zero_rule (put_rule n (put_prev (rule_prev r) (rule_at t n)) t)
        else put_rule e zero_rule t)"

lemma wr_rule:
  assumes "tbl_sizes_ok t" "located t e k"
  shows "e < tblN t \<Longrightarrow> wr (base_rules (tables t)) (unat k) r = Some (base_rules (tables (put_rule e r t)))"
    "\<not> e < tblN t \<Longrightarrow> wr (expn_rules (tables t)) (unat k) r = Some (expn_rules (tables (put_rule e r t)))"
    "e < tblN t \<Longrightarrow> t\<lparr>tables := (tables t)\<lparr>base_rules := base_rules (tables (put_rule e r t))\<rparr>\<rparr> = put_rule e r t"
    "\<not> e < tblN t \<Longrightarrow> t\<lparr>tables := (tables t)\<lparr>expn_rules := expn_rules (tables (put_rule e r t))\<rparr>\<rparr> = put_rule e r t"
  using assms(2) tbl_sizes_okD(5,6) [OF assms(1)] by (auto simp: wr_def put_rule_def located_def)

lemma del_rule_update_is:
  assumes t: "tbl_sizes_ok t" "located t e k" and n: "unat n = next_at t e"
    and far: "\<not> e < tblN t \<Longrightarrow> n \<noteq> 0 \<Longrightarrow> \<not> n < table_entries t \<and> unat n < tblT t \<and> unat n \<noteq> e"
  shows "del_rule_update (\<not> e < tblN t) k (pos_of (e < tblN t) (unat n)) t = Some (del_upd_rule e t)"
proof -
  have nz: "n = 0 \<longleftrightarrow> next_at t e = 0" using n by (metis unat_eq_zero)
  have n': "rule_next (rule_at t e) = n" using n by (simp add: word_unat_eq_iff)
  consider "e < tblN t" | "\<not> e < tblN t" "n = 0" | "\<not> e < tblN t" "n \<noteq> 0" by blast
  then show ?thesis
  proof cases
    case 1
    then show ?thesis using wr_rule(1,3) [OF t] n nz
      by (auto simp: del_rule_update_def Let_def pos_of_def del_upd_rule_def)
  next
    case 2
    then show ?thesis using wr_rule(2,4) [OF t] n nz
      by (simp add: del_rule_update_def Let_def pos_of_def del_upd_rule_def)
  next
    case 3
    let ?t = "put_rule (unat n) (put_prev (rule_prev (rule_at t e)) (rule_at t (unat n))) t"
    have ln: "located t (unat n) (n - table_entries t)"
      using located_self [OF t(1), of n] far 3 by simp
    have bn: "\<not> unat n < tblN t" using far 3 by (simp add: word_less_nat_alt)
    have lt: "tbl_sizes_ok ?t" "located ?t e k" using t by (simp_all add: located_def)
    have rds: "rd (expn_rules (tables t)) (unat k) = Some (rule_at t e)"
      "rd (expn_rules (tables t)) (unat (n - table_entries t)) = Some (rule_at t (unat n))"
      using rd_rule [OF t] rd_rule [OF t(1) ln] bn 3 by simp_all
    have up: "(expn_rules (tables t))[unat (n - table_entries t) :=
        UpdateSwSpecParams IPA_NAT_SW_PARAM_PREV_INDX_BYTE (ucast (rule_prev (rule_at t e))) (rule_at t (unat n))] =
      expn_rules (tables ?t)"
      using bn ln by (simp add: put_rule_def located_def put_prev_def)
    have pn: "unat n \<noteq> 0" using 3(2) by (simp add: unat_eq_zero)
    have "del_rule_update (\<not> e < tblN t) k (pos_of (e < tblN t) (unat n)) t =
        map_option (\<lambda>rs. t\<lparr>tables := (tables t)\<lparr>expn_rules := rs\<rparr>\<rparr>)
          (wr (expn_rules (tables ?t)) (unat k) zero_rule)"
      using 3 pn rds up by (simp add: del_rule_update_def Let_def pos_of_def n' [simplified])
    also have "\<dots> = Some (t\<lparr>tables := (tables t)\<lparr>expn_rules := expn_rules (tables (put_rule e zero_rule ?t))\<rparr>\<rparr>)"
      using wr_rule(2) [OF lt, of zero_rule] 3(1) by simp
    also have "\<dots> = Some (put_rule e zero_rule ?t)" using 3(1) bn by (simp add: put_rule_def)
    also have "\<dots> = Some (del_upd_rule e t)" using 3 pn n by (simp add: del_upd_rule_def Let_def)
    finally show ?thesis .
  qed
qed

text \<open>The index; \<open>n\<close> is the entry after \<open>i\<close> before the commands.\<close>

definition del_upd_index :: "nat \<Rightarrow> nat \<Rightarrow> nat_tbl \<Rightarrow> nat_tbl" where
  "del_upd_index i n t =
    (if i < tblN t then
       if n = 0 then put_word i 0 t
       else
         let nn = inext_at t n; t = (if nn = 0 then t else put_meta nn (of_nat i) t);
             t = put_word n 0 t; m = ent_at t i
         in put_rule m (set_indx (of_nat i) (rule_at t m)) t
     else if n = 0 then put_word i 0 t
     else put_word i 0 (put_meta i 0 (put_meta n (meta_at t i) t)))"

lemma set_rule_indx_is:
  assumes "tbl_sizes_ok t" "unat m < tblT t"
  shows "set_rule_indx m i t = Some (put_rule (unat m) (set_indx i (rule_at t (unat m))) t)"
proof -
  have l: "located t (unat m) (if m < table_entries t then m else m - table_entries t)"
    by (rule located_self [OF assms])
  show ?thesis using rd_rule [OF assms(1) l] l
    by (auto simp: set_rule_indx_def Let_def put_rule_def located_def set_indx_def word_less_nat_alt
        word_le_nat_alt)
qed

lemma del_index_head_update_is:
  assumes t: "tbl_sizes_ok t" "unat i < tblN t" "\<not> n < table_entries t" "unat n < tblT t"
    and nn: "inext_at t (unat n) \<noteq> 0 \<Longrightarrow> tblN t \<le> inext_at t (unat n) \<and> inext_at t (unat n) < tblT t"
    and m: "ent_at t (unat i) < tblT t" and c: "c = n - table_entries t"
  shows "del_index_head_update i c t = Some (del_upd_index (unat i) (unat n) t)"
proof -
  let ?v = "word_at t (unat n)"
  let ?nn = "indx_nxt ?v"
  let ?t1 = "if ?nn = 0 then t else put_meta (unat ?nn) i t"
  let ?t2 = "put_word (unat n) 0 ?t1"
  note r = rd_word(2) [OF t(1,4,3)]
  note e = at_expn [OF t(1,3,4)]
  have n0: "n \<noteq> 0" using e(3) tbl_sizes_okD(1) [OF t(1)] by auto
  have t2: "tbl_sizes_ok ?t2" "tblN ?t2 = tblN t" "tblX ?t2 = tblX t" using t(1) by simp_all
  have ms: "(if ?nn \<noteq> 0 \<and> ?nn \<ge> table_entries t then wr (index_expn_meta t) (unat (?nn - table_entries t)) i
      else Some (index_expn_meta t)) = Some (index_expn_meta ?t1)"
  proof (cases "?nn = 0")
    case False
    then have g: "\<not> ?nn < table_entries t" "unat ?nn < tblT t"
      using nn by (auto simp: unat_eq_zero word_less_nat_alt)
    then show ?thesis using False at_expn [OF t(1) g] tbl_sizes_okD(9) [OF t(1)]
      by (auto simp: wr_def put_meta_def)
  qed simp
  have tab: "t\<lparr>index_expn_meta := index_expn_meta ?t1,
      tables := (tables t)\<lparr>index_expn := (index_expn (tables t))[unat c := 0]\<rparr>\<rparr> = ?t2"
    using e by (auto simp: put_word_def put_meta_def c)
  have w: "word_at ?t2 (unat i) = word_at t (unat i)"
    using t(1,2) e by (auto simp: put_word_at)
  have ri: "rd (index_table (tables ?t2)) (unat i) = Some (word_at t (unat i))"
    using rd_word(1) [OF t2(1), of i] t2 t(2) w by (simp add: word_less_nat_alt)
  have "del_index_head_update i c t = set_rule_indx (indx_entry (word_at t (unat i))) i ?t2"
    using r ms tab ri unfolding del_index_head_update_def Let_def c [symmetric]
    by (simp only: option.case)
  also have "\<dots> = Some (put_rule (ent_at ?t2 (unat i)) (set_indx i (rule_at ?t2 (ent_at ?t2 (unat i)))) ?t2)"
    using set_rule_indx_is [OF t2(1), of "indx_entry (word_at t (unat i))" i] m t2 w by simp
  also have "\<dots> = Some (del_upd_index (unat i) (unat n) t)"
    using t(2) n0 by (simp add: del_upd_index_def Let_def unat_eq_zero)
  finally show ?thesis .
qed

lemma wr_word:
  assumes "tbl_sizes_ok t" "unat i < tblT t"
  shows "i < table_entries t \<Longrightarrow> wr (index_table (tables t)) (unat i) 0 = Some (index_table (tables (put_word (unat i) 0 t)))"
    "i < table_entries t \<Longrightarrow>
       t\<lparr>tables := (tables t)\<lparr>index_table := index_table (tables (put_word (unat i) 0 t))\<rparr>\<rparr> = put_word (unat i) 0 t"
    "\<not> i < table_entries t \<Longrightarrow>
       t\<lparr>tables := (tables t)\<lparr>index_expn := (index_expn (tables t))[unat (i - table_entries t) := 0]\<rparr>\<rparr> =
         put_word (unat i) 0 t"
  using at_expn [OF assms(1) _ assms(2)] in_base(2) [OF assms(1), of i] tbl_sizes_okD(7) [OF assms(1)]
  by (simp_all add: wr_def put_word_def)

lemma del_index_update_is:
  assumes t: "tbl_sizes_ok t" "unat i < tblT t" and n: "i < table_entries t \<Longrightarrow> n = 0"
    and nx: "\<not> i < table_entries t \<Longrightarrow> n = indx_nxt (word_at t (unat i))"
    "\<not> i < table_entries t \<Longrightarrow> n \<noteq> 0 \<Longrightarrow> \<not> n < table_entries t \<and> unat n < tblT t"
  shows "del_index_update i (pos_of (unat i < tblN t) (unat n)) t = Some (del_upd_index (unat i) (unat n) t)"
proof (cases "i < table_entries t")
  case True
  then show ?thesis using wr_word(1,2) [OF t True] n
    by (simp add: del_index_update_def Let_def del_upd_index_def pos_of_def word_less_nat_alt word_le_nat_alt)
next
  case False
  note e = at_expn [OF t(1) False t(2)] and r = rd_word(2,3) [OF t False]
  note z = tbl_sizes_okD(9) [OF t(1)]
  show ?thesis
  proof (cases "n = 0")
    case True
    then show ?thesis using False e(3) r wr_word(3) [OF t False]
      by (simp add: del_index_update_def Let_def del_upd_index_def pos_of_def not_less)
  next
    case n0: False
    have g: "\<not> n < table_entries t" "unat n < tblT t" using nx(2) False n0 by simp_all
    note en = at_expn [OF t(1) g]
    have u: "unat n \<noteq> 0" using n0 by (simp add: unat_eq_zero)
    let ?p = "meta_at t (unat i)"
    let ?t1 = "put_meta (unat i) 0 (put_meta (unat n) ?p t)"
    have w: "(case wr (index_expn_meta t) (unat (n - table_entries t)) ?p of
        None \<Rightarrow> None | Some ms \<Rightarrow> wr ms (unat (i - table_entries t)) 0) = Some (index_expn_meta ?t1)"
      using e en z by (simp add: wr_def put_meta_def)
    have tab: "t\<lparr>index_expn_meta := index_expn_meta ?t1,
        tables := (tables t)\<lparr>index_expn := (index_expn (tables t))[unat (i - table_entries t) := 0]\<rparr>\<rparr> =
      put_word (unat i) 0 ?t1"
      using e by (simp add: put_word_def put_meta_def)
    have g': "n \<ge> table_entries t" "table_entries t \<le> i" using g False by (simp_all add: not_less)
    have "del_index_update i (pos_of (unat i < tblN t) (unat n)) t = Some (put_word (unat i) 0 ?t1)"
      using g' r w tab e(3) u nx(1) [OF False]
      by (simp add: del_index_update_def Let_def pos_of_def)
    then show ?thesis using e(3) u by (simp add: del_upd_index_def)
  qed
qed

end
