(* ===== verification/NatDrvDelInv.thy ===== *)
theory NatDrvDelInv
  imports NatDrvDel
begin

text \<open>
  Deleting a rule as a whole, and that it keeps the invariant.
\<close>

section \<open>The steps together\<close>

text \<open>What is known of the entry \<open>e\<close> that goes, and of its entry \<open>i\<close> of the index.\<close>

definition deletable :: "nat_tbl \<Rightarrow> nat \<Rightarrow> nat \<Rightarrow> bool" where
  "deletable t e i \<longleftrightarrow>
     tbl_sizes_ok t \<and> e < tblT t \<and> used_at t e \<and> i = indx_at t e \<and> i < tblT t \<and>
     (\<not> e < tblN t \<longrightarrow>
        prev_at t e < tblT t \<and> prev_at t e \<noteq> e \<and> prev_at t e \<noteq> next_at t e \<and>
        (next_at t e \<noteq> 0 \<longrightarrow> tblN t \<le> next_at t e \<and> next_at t e < tblT t \<and> next_at t e \<noteq> e)) \<and>
     i \<noteq> tblN t \<and>
     (inext_at t i \<noteq> 0 \<longrightarrow> tblN t < inext_at t i \<and> inext_at t i < tblT t \<and> inext_at t i \<noteq> i) \<and>
     (i < tblN t \<longrightarrow> inext_at t i \<noteq> 0 \<longrightarrow>
        (let n = inext_at t i
         in ent_at t n < tblT t \<and>
            (inext_at t n \<noteq> 0 \<longrightarrow> tblN t < inext_at t n \<and> inext_at t n < tblT t \<and> inext_at t n \<noteq> n))) \<and>
     (\<not> i < tblN t \<longrightarrow>
        iprev_at t i < tblT t \<and> iprev_at t i \<noteq> i \<and> iprev_at t i \<noteq> inext_at t i)"

lemma deletableD:
  assumes "deletable t e i"
  shows "tbl_sizes_ok t" "e < tblT t" "used_at t e" "i = indx_at t e" "i < tblT t"
    "\<not> e < tblN t \<Longrightarrow> prev_at t e < tblT t" "\<not> e < tblN t \<Longrightarrow> prev_at t e \<noteq> e"
    "\<not> e < tblN t \<Longrightarrow> prev_at t e \<noteq> next_at t e"
    "\<not> e < tblN t \<Longrightarrow> next_at t e \<noteq> 0 \<Longrightarrow> tblN t \<le> next_at t e"
    "\<not> e < tblN t \<Longrightarrow> next_at t e \<noteq> 0 \<Longrightarrow> next_at t e < tblT t"
    "\<not> e < tblN t \<Longrightarrow> next_at t e \<noteq> 0 \<Longrightarrow> next_at t e \<noteq> e"
    "inext_at t i \<noteq> 0 \<Longrightarrow> tblN t \<le> inext_at t i" "inext_at t i \<noteq> 0 \<Longrightarrow> inext_at t i < tblT t"
    "inext_at t i \<noteq> 0 \<Longrightarrow> inext_at t i \<noteq> i"
    "i < tblN t \<Longrightarrow> inext_at t i \<noteq> 0 \<Longrightarrow> ent_at t (inext_at t i) < tblT t"
    "i < tblN t \<Longrightarrow> inext_at t i \<noteq> 0 \<Longrightarrow> inext_at t (inext_at t i) \<noteq> 0 \<Longrightarrow>
       tblN t \<le> inext_at t (inext_at t i) \<and> inext_at t (inext_at t i) < tblT t \<and>
       inext_at t (inext_at t i) \<noteq> inext_at t i"
    "\<not> i < tblN t \<Longrightarrow> iprev_at t i < tblT t" "\<not> i < tblN t \<Longrightarrow> iprev_at t i \<noteq> i"
    "\<not> i < tblN t \<Longrightarrow> iprev_at t i \<noteq> inext_at t i"
    "i \<noteq> tblN t" "inext_at t i \<noteq> 0 \<Longrightarrow> tblN t < inext_at t i"
    "i < tblN t \<Longrightarrow> inext_at t i \<noteq> 0 \<Longrightarrow> inext_at t (inext_at t i) \<noteq> 0 \<Longrightarrow> tblN t < inext_at t (inext_at t i)"
  using assms unfolding deletable_def Let_def by (blast intro: less_imp_le)+

lemma write16_next [simp]:
  "nxt_indx_pub_port (rule_write16 18 v r) = nxt_indx_pub_port r"
  "nxt_indx_pub_port (rule_write16 22 v r) = nxt_indx_pub_port r"
  "sw_spec_params (rule_write16 18 v r) = sw_spec_params r"
  "sw_spec_params (rule_write16 22 v r) = sw_spec_params r"
  "ip_cksm_enbl (rule_write16 22 v r) = ip_cksm_enbl r"
  by (simp_all add: rule_write16_def)

lemma index_write16_0 [simp]: "lo16 (index_write16 0 v w) = v" "hi16 (index_write16 0 v w) = hi16 w"
  by (simp_all add: index_write16_def)

definition deleted :: "nat \<Rightarrow> nat \<Rightarrow> nat_tbl \<Rightarrow> nat_tbl" where
  "deleted e i t =
    del_upd_index i (inext_at t i) (del_upd_rule e (del_dma_rule e (rule_at t e) (del_dma_index i t)))"

lemma del_dma_sizes [simp]:
  "tbl_sizes_ok (del_dma_rule e r t) = tbl_sizes_ok t" "tbl_sizes_ok (del_dma_index i t) = tbl_sizes_ok t"
  "tbl_sizes_ok (del_upd_rule e t) = tbl_sizes_ok t" "tbl_sizes_ok (del_upd_index i n t) = tbl_sizes_ok t"
  "table_entries (del_dma_rule e r t) = table_entries t" "table_entries (del_dma_index i t) = table_entries t"
  "table_entries (del_upd_rule e t) = table_entries t" "table_entries (del_upd_index i n t) = table_entries t"
  "expn_table_entries (del_dma_rule e r t) = expn_table_entries t"
  "expn_table_entries (del_dma_index i t) = expn_table_entries t"
  "expn_table_entries (del_upd_rule e t) = expn_table_entries t"
  "expn_table_entries (del_upd_index i n t) = expn_table_entries t"
  "rule_id_array (del_dma_rule e r t) = rule_id_array t" "rule_id_array (del_dma_index i t) = rule_id_array t"
  "rule_id_array (del_upd_rule e t) = rule_id_array t" "rule_id_array (del_upd_index i n t) = rule_id_array t"
  by (simp_all add: del_dma_rule_def del_dma_index_def del_upd_rule_def del_upd_index_def Let_def)

text \<open>Rules, words and the numbers of previous entries are apart.\<close>

lemma del_apart [simp]:
  "rule_at (del_dma_index i t) = rule_at t" "meta_at (del_dma_index i t) = meta_at t"
  "word_at (del_dma_rule e r t) = word_at t" "meta_at (del_dma_rule e r t) = meta_at t"
  "word_at (del_upd_rule e t) = word_at t" "meta_at (del_upd_rule e t) = meta_at t"
  by (simp_all add: fun_eq_iff del_dma_rule_def del_dma_index_def del_upd_rule_def Let_def)

text \<open>The index after the commands.\<close>

lemma del_dma_index_at:
  assumes "deletable t e i"
  shows "word_at (del_dma_index i t) x =
    (let n = inext_at t i
     in if i < tblN t then
          if x = i then
            if n = 0 then index_write16 0 0 (word_at t i)
            else index_write16 2 (hi16 (word_at t n)) (index_write16 0 (lo16 (word_at t n)) (word_at t i))
          else word_at t x
        else if x = iprev_at t i then index_write16 2 (hi16 (word_at t i)) (word_at t x) else word_at t x)"
  using deletableD(1,5,17) [OF assms]
  by (auto simp: del_dma_index_def Let_def put_word_at unat_eq_zero)

lemma del_dma_rule_at:
  assumes "deletable t e i"
  shows "rule_at (del_dma_rule e (rule_at t e) (del_dma_index i t)) x =
    (if e < tblN t then
       if x = e then if next_at t e = 0 then rule_write16 18 0 (rule_at t e) else rule_write16 22 0xFF00 (rule_at t e)
       else rule_at t x
     else if x = prev_at t e then rule_write16 8 (rule_next (rule_at t e)) (rule_at t x) else rule_at t x)"
  using deletableD(1,2,6) [OF assms]
  by (auto simp: del_dma_rule_def Let_def put_rule_at unat_eq_zero)

lemma del_dma_all:
  assumes "deletable t e i" "located t e k"
  shows "\<exists>ics. del_index_cmds t (rule_indx (rule_at t e)) (pos_of (i < tblN t) (inext_at t i)) = Some ics \<and>
    (let rc = del_rule_cmd t k (rule_at t e) (pos_of (e < tblN t) (next_at t e))
     in ReorderCmds (rc # ics) = ics @ [rc] \<and> list_all (dma_in_range (tables t)) (ics @ [rc]) \<and>
        dma_tbl (ics @ [rc]) t = del_dma_rule e (rule_at t e) (del_dma_index i t))"
proof -
  note d = deletableD [OF assms(1)]
  let ?i = "rule_indx (rule_at t e)" and ?r = "rule_at t e" and ?t = "del_dma_index i t"
  have i: "unat ?i = i" "indx_at t e = i" using d(4) by simp_all
  let ?n = "indx_nxt (word_at t (unat ?i))"
  have n: "unat ?n = inext_at t i" by (simp add: i(2))
  have "\<exists>cs. del_index_cmds t ?i (pos_of (unat ?i < tblN t) (unat ?n)) = Some cs \<and> cs \<noteq> [] \<and>
      on_index (hd cs) \<and> list_all (dma_in_range (tables t)) cs \<and> dma_tbl cs t = del_dma_index (unat ?i) t"
  proof (rule dma_index_only [OF d(1)])
    show "unat ?i < tblT t" using d(5) i by simp
    show "unat ?n < tblT t \<and> \<not> ?n < table_entries t" if "?n \<noteq> 0"
    proof -
      have "unat ?n \<noteq> 0" using that by (simp only: unat_eq_zero not_False_eq_True)
      then have "inext_at t i \<noteq> 0" by (simp only: n not_False_eq_True)
      from d(12,13) [OF this] show ?thesis by (simp only: word_less_nat_alt n not_less simp_thms)
    qed
    show "\<not> ?i < table_entries t \<Longrightarrow> iprev_at t (unat ?i) < tblT t"
      using d(17) i by (simp add: word_less_nat_alt)
  qed simp
  then obtain ics where ics: "del_index_cmds t ?i (pos_of (unat ?i < tblN t) (unat ?n)) = Some ics" "ics \<noteq> []"
    "on_index (hd ics)" "list_all (dma_in_range (tables t)) ics" "dma_tbl ics t = del_dma_index (unat ?i) t"
    by blast
  define rc where "rc = del_rule_cmd t k ?r (pos_of (e < tblN t) (next_at t e))"
  have l: "tbl_sizes_ok ?t" "located ?t e k" using d(1) assms(2) by (simp_all add: located_def)
  have "rule_cmd ?t = rule_cmd t" by (simp add: fun_eq_iff rule_cmd_def)
  then have same: "del_rule_cmd ?t k ?r (pos_of (e < tblN ?t) (unat (rule_next ?r))) = rc"
    using del_rule_cmd_is [OF l, of ?r] del_rule_cmd_is [OF d(1) assms(2), of ?r]
    by (simp add: rc_def)
  have "rule_at ?t e = ?r" "\<not> e < tblN ?t \<Longrightarrow> unat (rule_prev ?r) < tblT ?t" using d(6) by simp_all
  from dma_rule_only [OF l this] have "list_all (dma_in_range (tables ?t)) [rc] \<and> dma_tbl [rc] ?t = del_dma_rule e ?r ?t"
    unfolding same .
  moreover have "dma_tbl (ics @ [rc]) t = dma_tbl [rc] (dma_tbl ics t)" by simp
  moreover have "dma_in_range (tables t) = dma_in_range (tables (dma_tbl ics t))"
  proof -
    have "dma_in_range (fold dma_write cs m) = dma_in_range m" for cs m
      by (induction cs arbitrary: m) simp_all
    then show ?thesis by simp
  qed
  moreover have "\<not> on_index rc"
    unfolding rc_def using del_rule_cmd_is [OF d(1) assms(2), of ?r] cmd_tables(1) by simp
  ultimately show ?thesis using ics i ReorderCmds_rule_first [of rc ics]
    by (intro exI [of _ ics]) (simp add: rc_def [symmetric] n)
qed

lemma post_del_works:
  assumes K: "dma_works K" and D: "deletable (ip4_tbl s) e i" and k: "located (ip4_tbl s) e k"
  shows "\<exists>k'. ipa_nati_post_del_dma_cmd K k (\<not> e < tblN (ip4_tbl s)) (pos_of (e < tblN (ip4_tbl s)) (next_at (ip4_tbl s) e)) s =
    Some (0, s\<lparr>ip4_tbl := deleted e i (ip4_tbl s), kern := k'\<rparr>)"
proof -
  define t where "t = ip4_tbl s"
  note d = deletableD [OF D, folded t_def]
  note D = D [folded t_def] and k = k [folded t_def]
  let ?r = "rule_at t e" and ?i = "rule_indx (rule_at t e)"
  let ?t1 = "del_dma_rule e ?r (del_dma_index i t)" and ?t2 = "del_upd_rule e (del_dma_rule e ?r (del_dma_index i t))"
  let ?n = "indx_nxt (word_at t i)"
  have i: "unat ?i = i" "indx_at t e = i" using d(4) by simp_all
  obtain k1 where k1: "malloc K s = (True, s\<lparr>kern := k1\<rparr>)" using malloc_works [OF K] by blast
  obtain k2 where k2: "malloc K (s\<lparr>kern := k1\<rparr>) = (True, s\<lparr>kern := k2\<rparr>)"
    using malloc_works [OF K, of "s\<lparr>kern := k1\<rparr>"] by auto
  define rc where "rc = del_rule_cmd t k ?r (pos_of (e < tblN t) (next_at t e))"
  obtain ics where ics: "del_index_cmds t ?i (pos_of (i < tblN t) (inext_at t i)) = Some ics"
    "ReorderCmds (rc # ics) = ics @ [rc]" "list_all (dma_in_range (tables t)) (ics @ [rc])"
    "dma_tbl (ics @ [rc]) t = ?t1"
    using del_dma_all [OF D k] unfolding Let_def rc_def by blast
  obtain k3 where k3: "post_dma K (ics @ [rc]) (s\<lparr>kern := k2\<rparr>) = (True, s\<lparr>ip4_tbl := ?t1, kern := k3\<rparr>)"
    using post_dma_works [OF K, of "s\<lparr>kern := k2\<rparr>" "ics @ [rc]"] ics(3,4) by (auto simp: t_def)
  have rd: "rd (if \<not> e < tblN t then expn_rules (tables t) else base_rules (tables t)) (unat k) = Some ?r"
    by (rule rd_rule [OF d(1) k])
  have pos: "ipa_nati_find_index_rule_pos t ?i = Some (pos_of (i < tblN t) (inext_at t i))"
    using find_index_rule_pos [OF d(1), of ?i] d(5) by (simp add: i)
  have en: "rule_enabled ?r" using d(3) by (simp add: enable_bit)
  have upd1: "del_rule_update (\<not> e < tblN t) k (pos_of (e < tblN t) (next_at t e)) ?t1 = Some ?t2"
  proof -
    have nx: "next_at ?t1 e = next_at t e" using d(7) by (auto simp: del_dma_rule_at [OF D])
    have "tbl_sizes_ok ?t1" "located ?t1 e k" using d(1) k by (simp_all add: located_def)
    then have "del_rule_update (\<not> e < tblN ?t1) k (pos_of (e < tblN ?t1) (unat (rule_next ?r))) ?t1 = Some ?t2"
    proof (rule del_rule_update_is)
      show "unat (rule_next ?r) = next_at ?t1 e" using nx by simp
      show "\<not> rule_next ?r < table_entries ?t1 \<and> unat (rule_next ?r) < tblT ?t1 \<and> unat (rule_next ?r) \<noteq> e"
        if "\<not> e < tblN ?t1" "rule_next ?r \<noteq> 0"
      proof -
        have "\<not> e < tblN t" "next_at t e \<noteq> 0" using that by (simp_all add: unat_eq_zero)
        from d(9-11) [OF this] show ?thesis by (simp add: word_less_nat_alt)
      qed
    qed
    then show ?thesis by simp
  qed
  have t2: "tbl_sizes_ok ?t2" "tblN ?t2 = tblN t" "tblT ?t2 = tblT t" "table_entries ?t2 = table_entries t"
    using d(1) by simp_all
  have w2: "word_at ?t2 x = word_at (del_dma_index i t) x" for x by simp
  have upd2: "(if pos_of (i < tblN t) (inext_at t i) = IPA_NAT_DEL_TYPE_HEAD
      then del_index_head_update ?i (case rd (index_table (tables t)) (unat ?i) of
             None \<Rightarrow> 0 | Some w \<Rightarrow> indx_nxt w - table_entries t) ?t2
      else del_index_update ?i (pos_of (i < tblN t) (inext_at t i)) ?t2) = Some (deleted e i t)"
  proof (cases "i < tblN t \<and> inext_at t i \<noteq> 0")
    case True
    have b: "?i < table_entries t" using True i by (simp add: word_less_nat_alt)
    have n: "\<not> ?n < table_entries ?t2" "unat ?n < tblT ?t2"
      using True d(12,13) t2 by (simp_all add: word_less_nat_alt)
    have at: "word_at ?t2 (unat ?n) = word_at t (unat ?n)" "ent_at ?t2 i = ent_at t (unat ?n)"
      using True d(12) unfolding w2 del_dma_index_at [OF D] Let_def by auto
    have rdi: "rd (index_table (tables t)) (unat ?i) = Some (word_at t i)"
      using rd_word(1) [OF d(1), of ?i] b d(5) by (simp add: i)
    have "del_index_head_update ?i (?n - table_entries t) ?t2 = Some (del_upd_index (unat ?i) (unat ?n) ?t2)"
    proof (rule del_index_head_update_is [OF t2(1) _ n])
      show "unat ?i < tblN ?t2" using True i t2 by simp
      show "inext_at ?t2 (unat ?n) \<noteq> 0 \<Longrightarrow> tblN ?t2 \<le> inext_at ?t2 (unat ?n) \<and> inext_at ?t2 (unat ?n) < tblT ?t2"
        unfolding at(1) using True d(16) t2 by auto
      show "ent_at ?t2 (unat ?i) < tblT ?t2" unfolding i(1) at(2) using True d(15) t2 by simp
      show "?n - table_entries t = ?n - table_entries ?t2" by simp
    qed
    then show ?thesis using True rdi i(1) by (simp add: pos_of_def deleted_def)
  next
    case False
    have "del_index_update ?i (pos_of (unat ?i < tblN ?t2) (unat ?n)) ?t2 = Some (del_upd_index (unat ?i) (unat ?n) ?t2)"
    proof (rule del_index_update_is [OF t2(1)])
      show "unat ?i < tblT ?t2" using d(5) i t2 by simp
      show "?i < table_entries ?t2 \<Longrightarrow> ?n = 0" using False i t2 by (simp add: word_less_nat_alt unat_eq_zero)
      have "word_at ?t2 i = word_at t i" if "\<not> i < tblN t"
        using that d(18) unfolding w2 del_dma_index_at [OF D] Let_def by auto
      then show "\<not> ?i < table_entries ?t2 \<Longrightarrow> ?n = indx_nxt (word_at ?t2 (unat ?i))"
        using i t2 by (simp add: word_less_nat_alt)
      show "\<not> ?i < table_entries ?t2 \<Longrightarrow> ?n \<noteq> 0 \<Longrightarrow> \<not> ?n < table_entries ?t2 \<and> unat ?n < tblT ?t2"
        using d(12,13) t2 by (simp add: word_less_nat_alt unat_eq_zero)
    qed
    moreover have "pos_of (i < tblN t) (inext_at t i) \<noteq> IPA_NAT_DEL_TYPE_HEAD"
      using False by (simp add: pos_of_def)
    ultimately show ?thesis using i t2 by (simp add: deleted_def)
  qed
  have tab: "ip4_tbl (s\<lparr>kern := k1\<rparr>) = t" "ip4_tbl (s\<lparr>ip4_tbl := ?t1, kern := k3\<rparr>) = ?t1" by (simp_all add: t_def)
  have "ipa_nati_post_del_dma_cmd K k (\<not> e < tblN t) (pos_of (e < tblN t) (next_at t e)) s =
      map_option (\<lambda>t. (0, s\<lparr>ip4_tbl := ?t1, kern := k3\<rparr>\<lparr>ip4_tbl := t\<rparr>)) (Some (deleted e i t))"
    unfolding ipa_nati_post_del_dma_cmd_def k1 prod.case simp_thms if_False Let_def tab(1) rd option.case
      pos ics(1) k2 if_True rc_def [symmetric] ics(2) k3 tab(2) upd1
    using en upd2 by (simp only: simp_thms if_False)
  then show ?thesis by (intro exI [of _ k3]) (simp add: t_def)
qed

section \<open>The tables with the rule gone\<close>

lemma put_meta_any:
  "tbl_sizes_ok t \<Longrightarrow> tblN t < j \<Longrightarrow> j < tblT t \<Longrightarrow> meta_at (put_meta j p t) x = (if x = j then p else meta_at t x)"
  by (cases "x < tblN t") (auto simp: meta_at_def put_meta_def tbl_sizes_okD(9) nth_list_update)

definition rules_gone :: "nat \<Rightarrow> nat_tbl \<Rightarrow> nat \<Rightarrow> hw_rule" where
  "rules_gone e t x =
    (if x = e then
       if e < tblN t \<and> next_at t e \<noteq> 0 then rule_write16 22 0xFF00 (rule_at t e) else zero_rule
     else if e < tblN t then rule_at t x
     else if next_at t e \<noteq> 0 \<and> x = next_at t e then put_prev (rule_prev (rule_at t e)) (rule_at t x)
     else if x = prev_at t e then rule_write16 8 (rule_next (rule_at t e)) (rule_at t x)
     else rule_at t x)"

lemma rules_gone_at:
  assumes "deletable t e i"
  shows "rule_at (del_upd_rule e (del_dma_rule e (rule_at t e) (del_dma_index i t))) x = rules_gone e t x"
proof -
  note d = deletableD [OF assms]
  let ?t1 = "del_dma_rule e (rule_at t e) (del_dma_index i t)"
  have t1: "tbl_sizes_ok ?t1" "tblT ?t1 = tblT t" "tblN ?t1 = tblN t" using d(1) by simp_all
  have e: "next_at ?t1 e = next_at t e" "sw_spec_params (rule_at ?t1 e) = sw_spec_params (rule_at t e)"
    using d(7) by (auto simp: del_dma_rule_at [OF assms])
  show ?thesis
  proof (cases "e < tblN t")
    case True
    show ?thesis using True d(2) t1
      by (simp add: del_upd_rule_def Let_def e put_rule_at rules_gone_def) (simp add: del_dma_rule_at [OF assms])
  next
    case False
    note d = d(6-11) [OF False] d(2)
    show ?thesis
    proof (cases "next_at t e = 0")
      case True
      show ?thesis using True False d t1
        by (simp add: del_upd_rule_def Let_def e put_rule_at rules_gone_def) (simp add: del_dma_rule_at [OF assms])
    next
      case n: False
      show ?thesis using n False d(3,1,2,7) d(4-6) [OF n] t1
        by (simp add: del_upd_rule_def Let_def e put_rule_at rules_gone_def)
          (auto simp: del_dma_rule_at [OF assms])
    qed
  qed
qed

definition moved :: "nat \<Rightarrow> nat_tbl \<Rightarrow> bool" where
  "moved i t \<longleftrightarrow> i < tblN t \<and> inext_at t i \<noteq> 0"

lemma deleted_at:
  assumes "deletable t e i"
  shows "rule_at (deleted e i t) x =
      (if moved i t \<and> x = ent_at t (inext_at t i) then set_indx (of_nat i) (rules_gone e t x)
       else rules_gone e t x)"
    "word_at (deleted e i t) x =
      (if moved i t then
         if x = i then index_write16 2 (hi16 (word_at t (inext_at t i)))
                         (index_write16 0 (lo16 (word_at t (inext_at t i))) (word_at t i))
         else if x = inext_at t i then 0 else word_at t x
       else if x = i then 0
       else if \<not> i < tblN t \<and> x = iprev_at t i then index_write16 2 (hi16 (word_at t i)) (word_at t x)
       else word_at t x)"
    "meta_at (deleted e i t) x =
      (if moved i t then
         if inext_at t (inext_at t i) \<noteq> 0 \<and> x = inext_at t (inext_at t i) then of_nat i else meta_at t x
       else if \<not> i < tblN t \<and> inext_at t i \<noteq> 0 then
         if x = i then 0 else if x = inext_at t i then meta_at t i else meta_at t x
       else meta_at t x)"
    "tbl_sizes_ok (deleted e i t)" "table_entries (deleted e i t) = table_entries t"
    "expn_table_entries (deleted e i t) = expn_table_entries t"
    "rule_id_array (deleted e i t) = rule_id_array t"
proof -
  note d = deletableD [OF assms]
  define u where "u = del_upd_rule e (del_dma_rule e (rule_at t e) (del_dma_index i t))"
  have t2: "tbl_sizes_ok u" "tblT u = tblT t" "tblN u = tblN t" using d(1) by (simp_all add: u_def)
  have w: "word_at u x = word_at (del_dma_index i t) x" "meta_at u x = meta_at t x"
    "rule_at u x = rules_gone e t x" for x
    unfolding u_def by (simp, simp, rule rules_gone_at [OF assms])
  have deleted: "deleted e i t = del_upd_index i (inext_at t i) u" by (simp add: deleted_def u_def)
  note w2 = w(1) [unfolded del_dma_index_at [OF assms] Let_def]
  show "tbl_sizes_ok (deleted e i t)" "table_entries (deleted e i t) = table_entries t"
    "expn_table_entries (deleted e i t) = expn_table_entries t"
    "rule_id_array (deleted e i t) = rule_id_array t"
    using d(1) by (simp_all add: deleted_def)
  let ?n = "inext_at t i"
  have "rule_at (deleted e i t) x =
      (if moved i t \<and> x = ent_at t ?n then set_indx (of_nat i) (rules_gone e t x) else rules_gone e t x) \<and>
    word_at (deleted e i t) x =
      (if moved i t then
         if x = i then index_write16 2 (hi16 (word_at t ?n)) (index_write16 0 (lo16 (word_at t ?n)) (word_at t i))
         else if x = ?n then 0 else word_at t x
       else if x = i then 0
       else if \<not> i < tblN t \<and> x = iprev_at t i then index_write16 2 (hi16 (word_at t i)) (word_at t x)
       else word_at t x) \<and>
    meta_at (deleted e i t) x =
      (if moved i t then
         if inext_at t ?n \<noteq> 0 \<and> x = inext_at t ?n then of_nat i else meta_at t x
       else if \<not> i < tblN t \<and> ?n \<noteq> 0 then
         if x = i then 0 else if x = ?n then meta_at t i else meta_at t x
       else meta_at t x)"
  proof (cases "moved i t")
    case True
    then have m: "i < tblN t" "?n \<noteq> 0" by (simp_all add: moved_def)
    define n where "n = ?n"
    have n: "n \<noteq> i" "n < tblT t" "tblN t < n" "i \<noteq> n" using d(13,14,21) m(2) by (auto simp: n_def)
    have wn: "word_at u n = word_at t n" using m(1) n(1) by (simp only: w2) simp
    define t1 where "t1 = (if inext_at t n = 0 then u else put_meta (inext_at t n) (of_nat i) u)"
    have t1: "tbl_sizes_ok t1" "tblT t1 = tblT t" "tblN t1 = tblN t" "rule_at t1 = rules_gone e t"
      "word_at t1 = word_at u"
      "meta_at t1 x = (if inext_at t n \<noteq> 0 \<and> x = inext_at t n then of_nat i else meta_at t x)" for x
      using t2 d(16) [OF m] d(22) [OF m]
      by (auto simp: t1_def n_def w(2) put_meta_any fun_eq_iff simp flip: w(3))
    have ei: "ent_at (put_word n 0 t1) i = ent_at t n"
    proof -
      have "word_at (put_word n 0 t1) i = word_at u i" using n t1 by (simp only: put_word_at) simp
      then show ?thesis using m by (simp only: w2) (simp add: n_def)
    qed
    have del: "deleted e i t = put_rule (ent_at t n) (set_indx (of_nat i) (rules_gone e t (ent_at t n))) (put_word n 0 t1)"
      using m ei t1(4) t2(3)
      by (simp add: deleted del_upd_index_def Let_def wn [unfolded n_def] t1_def [unfolded n_def] n_def)
    have "ent_at t n < tblT t" using d(15) [OF m] by (simp add: n_def)
    then show ?thesis using True m n t1 by (simp add: del put_rule_at put_word_at n_def [symmetric]) (simp only: w2, simp add: n_def)
  next
    case False
    then have m: "i < tblN t \<Longrightarrow> ?n = 0" by (simp add: moved_def)
    show ?thesis
    proof (cases "\<not> i < tblN t \<and> ?n \<noteq> 0")
      case True
      then have i: "\<not> i < tblN t" "?n \<noteq> 0" "tblN t < i" using d(20) by simp_all
      have del: "deleted e i t = put_word i 0 (put_meta i 0 (put_meta ?n (meta_at t i) u))"
        using i t2(3) by (simp add: deleted del_upd_index_def w(2))
      show ?thesis using False i d(5) d(13,14,21) t2
        by (simp add: del put_word_at put_meta_any w(2,3)) (simp only: w2, simp)
    next
      case u: False
      have del: "deleted e i t = put_word i 0 u"
        using u m t2(3) by (auto simp: deleted del_upd_index_def)
      show ?thesis using False u m d(5) t2
        by (simp add: del put_word_at w(2,3)) (simp only: w2, auto)
    qed
  qed
  then show "rule_at (deleted e i t) x =
      (if moved i t \<and> x = ent_at t (inext_at t i) then set_indx (of_nat i) (rules_gone e t x)
       else rules_gone e t x)"
    "word_at (deleted e i t) x =
      (if moved i t then
         if x = i then index_write16 2 (hi16 (word_at t (inext_at t i)))
                         (index_write16 0 (lo16 (word_at t (inext_at t i))) (word_at t i))
         else if x = inext_at t i then 0 else word_at t x
       else if x = i then 0
       else if \<not> i < tblN t \<and> x = iprev_at t i then index_write16 2 (hi16 (word_at t i)) (word_at t x)
       else word_at t x)"
    "meta_at (deleted e i t) x =
      (if moved i t then
         if inext_at t (inext_at t i) \<noteq> 0 \<and> x = inext_at t (inext_at t i) then of_nat i else meta_at t x
       else if \<not> i < tblN t \<and> inext_at t i \<noteq> 0 then
         if x = i then 0 else if x = inext_at t i then meta_at t i else meta_at t x
       else meta_at t x)" by blast+
qed

end
