(* ===== verification/NatDrvGone.thy ===== *)
theory NatDrvGone
  imports NatDrvDelInv
begin

text \<open>
  The invariant after a rule is deleted, and the head of a chain that was kept for its followers.
\<close>

section \<open>Neighbours in a chain\<close>

lemma bucket_prev:
  assumes B: "buckets N T used nxt prv C" and x: "used x" "N < x" "x < T"
  shows "\<exists>b as bs. C b = as @ [prv x, x] @ bs \<and> prv x < T \<and> 0 < prv x \<and> prv x \<noteq> x \<and> prv x \<noteq> nxt x \<and> used (prv x) \<and>
    (if bs = [] then nxt x = 0
     else nxt x = hd bs \<and> prv (nxt x) = x \<and> N < nxt x \<and> nxt x < T \<and> nxt x \<noteq> x \<and> used (nxt x))"
proof -
  obtain b where b: "x \<in> set (C b)" using bucketsD(5) [OF B x(2,3,1)] by blast
  note e = bucket_entry [OF B b]
  obtain xs where xs: "C b = b # xs" "set xs \<subseteq> {N<..<T}" using e(6) by blast
  have "x \<noteq> b" using e(4) x(2) by simp
  from bucket_split [OF B b this] obtain "as" bs where s: "C b = as @ [prv x, x] @ bs"
    "if bs = [] then nxt x = 0 else nxt x = hd bs \<and> prv (hd bs) = x" by blast
  have d: "distinct (as @ [prv x, x] @ bs)" using bucketsD(2) [OF B, of b] s(1) by simp
  have p: "prv x \<in> set (C b)" using s(1) by simp
  have "0 < prv x \<and> prv x < T" using p xs e(3,4) x by auto
  moreover have "used (prv x)" using bucketsD(3) [OF B p] .
  moreover have "prv x \<noteq> x" using d by simp
  moreover have "N < nxt x \<and> nxt x < T \<and> nxt x \<noteq> x \<and> used (nxt x) \<and> nxt x \<noteq> prv x \<and> prv (nxt x) = x" if "bs \<noteq> []"
  proof -
    have h: "nxt x = hd bs" "hd bs \<in> set bs" using s(2) that by simp_all
    have "hd bs \<in> set (C b)" using h(2) s(1) by simp
    moreover have "hd bs \<in> set xs" using h(2) s(1) xs(1) by (cases "as") auto
    ultimately show ?thesis using h s(2) that d xs(2) bucketsD(3) [OF B] by auto
  qed
  ultimately show ?thesis using s by (intro exI [of _ b] exI [of _ "as"] exI [of _ bs]) auto
qed

lemma bucket_first:
  assumes B: "buckets N T used nxt prv C" and x: "used x" "0 < x" "x < N"
  shows "\<exists>bs. C x = x # bs \<and>
    (if bs = [] then nxt x = 0
     else nxt x = hd bs \<and> prv (nxt x) = x \<and> N < nxt x \<and> nxt x < T \<and> nxt x \<noteq> x \<and> used (nxt x))"
proof -
  obtain bs where bs: "C x = x # bs" "if bs = [] then nxt x = 0 else nxt x = hd bs \<and> prv (hd bs) = x"
    using bucket_head [OF B x(2,3,1)] by blast
  have "set bs \<subseteq> {N<..<T}" using bucketsD(6) [OF B x(2,3,1)] bs(1) by auto
  moreover have "\<And>y. y \<in> set bs \<Longrightarrow> used y" using bucketsD(3) [OF B, of _ x] bs(1) by simp
  ultimately have "bs \<noteq> [] \<Longrightarrow> N < hd bs \<and> hd bs < T \<and> used (hd bs)" using hd_in_set by fastforce
  then show ?thesis using bs x(3) by (intro exI [of _ bs]) auto
qed

lemma bucket_next:
  assumes B: "buckets N T used nxt prv C" and x: "used x" "x < T" "x \<noteq> 0" "x \<noteq> N" "nxt x \<noteq> 0"
  shows "N < nxt x \<and> nxt x < T \<and> nxt x \<noteq> x \<and> used (nxt x)" "prv (nxt x) = x"
proof -
  have "(N < nxt x \<and> nxt x < T \<and> nxt x \<noteq> x \<and> used (nxt x)) \<and> prv (nxt x) = x"
  proof (cases "x < N")
    case True
    then show ?thesis using bucket_first [OF B x(1) _ True] x(3,5) by (auto split: if_splits)
  next
    case False
    then show ?thesis using bucket_prev [OF B x(1) _ x(2)] x(4,5) by (auto split: if_splits)
  qed
  then show "N < nxt x \<and> nxt x < T \<and> nxt x \<noteq> x \<and> used (nxt x)" "prv (nxt x) = x" by blast+
qed

lemma live_deletable:
  assumes t: "tbl_sizes_ok t" "rules_ok t C" "index_ok t D" "cross_ok t" and e: "live t e"
  shows "deletable t e (indx_at t e)"
proof -
  define i where "i = indx_at t e"
  have R: "buckets (tblN t) (tblT t) (used_at t) (next_at t) (prev_at t) C"
    "buckets (tblN t) (tblT t) (\<lambda>i. ent_at t i \<noteq> 0) (inext_at t) (iprev_at t) D"
    using t(2,3) by (simp_all add: rules_ok_def index_ok_def)
  have en: "e < tblT t" "used_at t e" using e by (simp_all add: live_def)
  have e0: "e \<noteq> 0" "e \<noteq> tblN t" using live_entry [OF t(2) e] by simp_all
  have i: "i < tblT t" "ent_at t i = e" using t(4) e by (auto simp: cross_ok_def i_def)
  have i0: "i \<noteq> 0" "i \<noteq> tblN t" using t(3) i e0(1) by (auto simp: index_ok_def)
  have rules: "prev_at t e < tblT t \<and> prev_at t e \<noteq> e \<and> prev_at t e \<noteq> next_at t e \<and>
      (next_at t e \<noteq> 0 \<longrightarrow> tblN t \<le> next_at t e \<and> next_at t e < tblT t \<and> next_at t e \<noteq> e)" if "\<not> e < tblN t"
    using bucket_prev [OF R(1) en(2) _ en(1)] that e0 by (auto split: if_splits)
  note step = bucket_next(1) [OF R(2)]
  have ei: "ent_at t i \<noteq> 0" using i e0 by simp
  have iprv: "iprev_at t i < tblT t \<and> iprev_at t i \<noteq> i \<and> iprev_at t i \<noteq> inext_at t i" if "\<not> i < tblN t"
    using bucket_prev [OF R(2) ei _ i(1)] that i0 by auto
  have n: "ent_at t (inext_at t i) < tblT t \<and> (inext_at t (inext_at t i) \<noteq> 0 \<longrightarrow>
      tblN t < inext_at t (inext_at t i) \<and> inext_at t (inext_at t i) < tblT t \<and>
      inext_at t (inext_at t i) \<noteq> inext_at t i)" if "inext_at t i \<noteq> 0"
  proof -
    let ?n = "inext_at t i"
    have n: "tblN t < ?n" "?n < tblT t" "ent_at t ?n \<noteq> 0" using step [OF ei i(1) i0 that] by blast+
    then have "live t (ent_at t ?n)" using t(4) by (auto simp: cross_ok_def)
    then show ?thesis using step [OF n(3,2)] n(1) by (auto simp: live_def)
  qed
  show ?thesis unfolding deletable_def i_def [symmetric] Let_def
    using t(1) en i(1) i0 rules step [OF ei i(1) i0] iprv n i_def by blast
qed

section \<open>The fields afterwards\<close>

text \<open>The situation in which a rule is deleted.\<close>

definition going :: "nat_tbl \<Rightarrow> (nat \<Rightarrow> nat list) \<Rightarrow> (nat \<Rightarrow> nat list) \<Rightarrow> nat \<Rightarrow> nat \<Rightarrow> bool" where
  "going t C D e i \<longleftrightarrow>
     tbl_sizes_ok t \<and> rules_ok t C \<and> index_ok t D \<and> cross_ok t \<and> live t e \<and> i = indx_at t e"

lemma goingD:
  assumes "going t C D e i"
  shows "tbl_sizes_ok t" "rules_ok t C" "index_ok t D" "cross_ok t" "live t e" "i = indx_at t e" "deletable t e i"
    "buckets (tblN t) (tblT t) (used_at t) (next_at t) (prev_at t) C"
    "buckets (tblN t) (tblT t) (\<lambda>i. ent_at t i \<noteq> 0) (inext_at t) (iprev_at t) D"
    "e < tblT t" "used_at t e" "e \<noteq> 0" "e \<noteq> tblN t" "i < tblT t" "i \<noteq> 0" "i \<noteq> tblN t" "ent_at t i = e"
proof -
  show g: "tbl_sizes_ok t" "rules_ok t C" "index_ok t D" "cross_ok t" "live t e" "i = indx_at t e"
    using assms by (simp_all add: going_def)
  show "deletable t e i" using live_deletable [OF g(1-5)] g(6) by simp
  show "buckets (tblN t) (tblT t) (used_at t) (next_at t) (prev_at t) C"
    "buckets (tblN t) (tblT t) (\<lambda>i. ent_at t i \<noteq> 0) (inext_at t) (iprev_at t) D"
    using g(2,3) by (simp_all add: rules_ok_def index_ok_def)
  show "e < tblT t" "used_at t e" using g(5) by (simp_all add: live_def)
  show e: "e \<noteq> 0" "e \<noteq> tblN t" using live_entry [OF g(2,5)] by simp_all
  show i: "i < tblT t" "ent_at t i = e" using g(4,5,6) by (auto simp: cross_ok_def)
  show "i \<noteq> 0" "i \<noteq> tblN t" using g(3) i e(1) by (auto simp: index_ok_def)
qed

lemma set_indx_fields [simp]:
  "ip_cksm_enbl (set_indx v r) = ip_cksm_enbl r" "nxt_indx_pub_port (set_indx v r) = nxt_indx_pub_port r"
  "ts_proto (set_indx v r) = ts_proto r" "client_of (set_indx v r) = client_of r"
  "lo16 (sw_spec_params (set_indx v r)) = lo16 (sw_spec_params r)" "hi16 (sw_spec_params (set_indx v r)) = v"
  by (simp_all add: set_indx_def client_of_def)

lemma set_prev_fields [simp]:
  "ip_cksm_enbl (put_prev v r) = ip_cksm_enbl r" "nxt_indx_pub_port (put_prev v r) = nxt_indx_pub_port r"
  "ts_proto (put_prev v r) = ts_proto r" "client_of (put_prev v r) = client_of r"
  "lo16 (sw_spec_params (put_prev v r)) = v" "hi16 (sw_spec_params (put_prev v r)) = hi16 (sw_spec_params r)"
  by (simp_all add: put_prev_def client_of_def)

lemma zero_rule_fields [simp]:
  "ip_cksm_enbl zero_rule = 0" "nxt_indx_pub_port zero_rule = 0" "ts_proto zero_rule = 0"
  "sw_spec_params zero_rule = 0"
  by (simp_all add: zero_rule_def)

lemma dead_fields [simp]: "proto_of (rule_write16 22 0xFF00 r) = 0xFF"
  by (simp add: rule_write16_def)

text \<open>The head of a chain with followers stays.\<close>

definition stays :: "nat \<Rightarrow> nat_tbl \<Rightarrow> bool" where
  "stays e t \<longleftrightarrow> e < tblN t \<and> next_at t e \<noteq> 0"

lemma unat_of_entry: "tbl_sizes_ok t \<Longrightarrow> x < tblT t \<Longrightarrow> unat (of_nat x :: u16) = x"
  using tbl_sizes_okD(2,4) [of t] by (simp add: unat_of_nat take_bit_nat_eq_self)

lemma deleted_fields:
  assumes G: "going t C D e i" and t': "t' = deleted e i t"
  shows "tbl_sizes_ok t'" "tblN t' = tblN t" "tblX t' = tblX t" "table_entries t' = table_entries t"
    "used_at t' x \<longleftrightarrow> (x = e \<longrightarrow> stays e t) \<and> used_at t x"
    "x \<noteq> e \<Longrightarrow> next_at t' x = (if \<not> e < tblN t \<and> x = prev_at t e then next_at t e else next_at t x)"
    "x \<noteq> e \<Longrightarrow> prev_at t' x = (if \<not> e < tblN t \<and> next_at t e \<noteq> 0 \<and> x = next_at t e then prev_at t e else prev_at t x)"
    "stays e t \<Longrightarrow> next_at t' e = next_at t e" "stays e t \<Longrightarrow> prev_at t' e = prev_at t e"
    "stays e t \<Longrightarrow> proto_of (rule_at t' e) = 0xFF"
    "x \<noteq> e \<Longrightarrow> indx_at t' x = (if moved i t \<and> x = ent_at t (inext_at t i) then i else indx_at t x)"
    "x \<noteq> e \<Longrightarrow> client_of (rule_at t' x) = client_of (rule_at t x)"
    "x \<noteq> e \<Longrightarrow> proto_of (rule_at t' x) = proto_of (rule_at t x)"
    "rule_id_array t' = rule_id_array t" "rule_id t' = rule_id t"
    "dst_bucket t' = dst_bucket t" "src_bucket t' = src_bucket t"
proof -
  note g = goingD [OF G] and d = deletableD [OF goingD(7) [OF G]]
  note at = deleted_at [OF g(7), folded t']
  show "tbl_sizes_ok t'" "tblN t' = tblN t" "tblX t' = tblX t" "table_entries t' = table_entries t"
    "rule_id_array t' = rule_id_array t" using at by simp_all
  show "rule_id t' = rule_id t" "dst_bucket t' = dst_bucket t" "src_bucket t' = src_bucket t"
    by (simp_all add: rule_id_def make_rule_id_def dst_bucket_def src_bucket_def fun_eq_iff at)
  have i: "unat (of_nat i :: u16) = i" by (rule unat_of_entry [OF g(1,14)])
  have e: "rules_gone e t e = (if stays e t then rule_write16 22 0xFF00 (rule_at t e) else zero_rule)"
    by (simp add: rules_gone_def stays_def)
  have f: "ip_cksm_enbl (rule_at t' x) = ip_cksm_enbl (rules_gone e t x)"
    "nxt_indx_pub_port (rule_at t' x) = nxt_indx_pub_port (rules_gone e t x)"
    "ts_proto (rule_at t' x) = ts_proto (rules_gone e t x)"
    "client_of (rule_at t' x) = client_of (rules_gone e t x)"
    "lo16 (sw_spec_params (rule_at t' x)) = lo16 (sw_spec_params (rules_gone e t x))" for x
    by (simp_all add: at(1))
  show "used_at t' x \<longleftrightarrow> (x = e \<longrightarrow> stays e t) \<and> used_at t x"
  proof (cases "x = e")
    case True
    then show ?thesis using g(11) by (simp add: f e)
  next
    case False
    then show ?thesis by (simp add: f rules_gone_def [of e t x])
  qed
  show "stays e t \<Longrightarrow> next_at t' e = next_at t e" "stays e t \<Longrightarrow> prev_at t' e = prev_at t e"
    "stays e t \<Longrightarrow> proto_of (rule_at t' e) = 0xFF"
    by (simp_all add: f e)
  assume x: "x \<noteq> e"
  note r = rules_gone_def [of e t x]
  show "next_at t' x = (if \<not> e < tblN t \<and> x = prev_at t e then next_at t e else next_at t x)"
    "prev_at t' x = (if \<not> e < tblN t \<and> next_at t e \<noteq> 0 \<and> x = next_at t e then prev_at t e else prev_at t x)"
    using x d(8) by (auto simp: f r)
  show "indx_at t' x = (if moved i t \<and> x = ent_at t (inext_at t i) then i else indx_at t x)"
    using x i by (simp add: at(1) r)
  show "client_of (rule_at t' x) = client_of (rule_at t x)" "proto_of (rule_at t' x) = proto_of (rule_at t x)"
    using x by (simp_all add: f r)
qed

lemma deleted_live:
  assumes G: "going t C D e i" and t': "t' = deleted e i t"
  shows "live t' x \<longleftrightarrow> live t x \<and> x \<noteq> e"
proof (cases "x = e")
  case True
  have "\<not> live t' e" using deleted_fields(5) [OF G t', of e] deleted_fields(10) [OF G t'] by (simp add: live_def)
  then show ?thesis using True by simp
next
  case False
  then show ?thesis using deleted_fields(5) [OF G t', of x] deleted_fields(13) [OF G t' False]
    by (simp add: live_def deleted_fields(2,3) [OF G t'])
qed

lemma fields_0: "unat (lo16 0) = 0" "unat (hi16 0) = 0"
  by simp_all

lemma deleted_index_fields:
  assumes G: "going t C D e i" and t': "t' = deleted e i t"
  shows "ent_at t' x =
      (if moved i t then if x = i then ent_at t (inext_at t i) else if x = inext_at t i then 0 else ent_at t x
       else if x = i then 0 else ent_at t x)"
    "inext_at t' x =
      (if moved i t then
         if x = i then inext_at t (inext_at t i) else if x = inext_at t i then 0 else inext_at t x
       else if x = i then 0 else if \<not> i < tblN t \<and> x = iprev_at t i then inext_at t i else inext_at t x)"
    "iprev_at t' x =
      (if moved i t then
         if inext_at t (inext_at t i) \<noteq> 0 \<and> x = inext_at t (inext_at t i) then i else iprev_at t x
       else if \<not> i < tblN t \<and> inext_at t i \<noteq> 0 then
         if x = i then 0 else if x = inext_at t i then iprev_at t i else iprev_at t x
       else iprev_at t x)"
proof -
  note at = deleted_at [OF goingD(7) [OF G], folded t']
  show "ent_at t' x =
      (if moved i t then if x = i then ent_at t (inext_at t i) else if x = inext_at t i then 0 else ent_at t x
       else if x = i then 0 else ent_at t x)"
    unfolding at(2) if_distrib [of "\<lambda>w. unat (lo16 w)"] by (simp only: write16_fields index_write16_0 fields_0 cong: if_cong) auto
  show "inext_at t' x =
      (if moved i t then
         if x = i then inext_at t (inext_at t i) else if x = inext_at t i then 0 else inext_at t x
       else if x = i then 0 else if \<not> i < tblN t \<and> x = iprev_at t i then inext_at t i else inext_at t x)"
    unfolding at(2) if_distrib [of "\<lambda>w. unat (hi16 w)"] by (simp only: write16_fields fields_0 cong: if_cong)
  show "iprev_at t' x =
      (if moved i t then
         if inext_at t (inext_at t i) \<noteq> 0 \<and> x = inext_at t (inext_at t i) then i else iprev_at t x
       else if \<not> i < tblN t \<and> inext_at t i \<noteq> 0 then
         if x = i then 0 else if x = inext_at t i then iprev_at t i else iprev_at t x
       else iprev_at t x)"
    unfolding at(3) if_distrib [of unat] by (simp only: unat_of_entry [OF goingD(1,14) [OF G]] unat_0 cong: if_cong)
qed

end
