(* ===== verification/NatDrvKeep.thy ===== *)
theory NatDrvKeep
  imports NatDrvGone
begin

text \<open>
  Deleting keeps the invariant of the tables, and the rules under the other handles.
\<close>

section \<open>The chains\<close>

text \<open>The rules; the head of a chain may be left without followers.\<close>

lemma deleted_buckets:
  assumes G: "going t C D e i" and t': "t' = deleted e i t"
  shows "\<exists>C'. buckets (tblN t) (tblT t) (used_at t') (next_at t') (prev_at t') C' \<and> (\<forall>b. set (C' b) \<subseteq> set (C b))"
proof -
  note g = goingD [OF G] and d = deletableD [OF goingD(7) [OF G]]
  note f = deleted_fields [OF G t']
  consider (stays) "stays e t" | (only) "e < tblN t" "next_at t e = 0" | (expn) "\<not> e < tblN t"
    by (auto simp: stays_def)
  then show ?thesis
  proof cases
    case stays
    then have e: "e < tblN t" by (simp add: stays_def)
    have "used_at t' x = used_at t x" "next_at t' x = next_at t x" "prev_at t' x = prev_at t x" for x
      using stays f(8,9) f(5-7) [of x] e by (cases "x = e"; simp)+
    then have "used_at t' = used_at t" "next_at t' = next_at t" "prev_at t' = prev_at t" by (simp_all add: fun_eq_iff)
    then show ?thesis using g(8) by (intro exI [of _ C]) simp
  next
    case only
    have u: "used_at t' = (used_at t)(e := False)"
      using only f(5) by (auto simp: fun_eq_iff stays_def)
    have "C e = [e]" using bucket_first [OF g(8,11) _ only(1)] g(12) only(2) by (auto split: if_splits)
    then have "buckets (tblN t) (tblT t) (used_at t') (next_at t') (prev_at t') (C(e := []))"
      unfolding u using f(6,7) only by (intro buckets_clear [OF g(8)]) auto
    then show ?thesis by (intro exI [of _ "C(e := [])"]) auto
  next
    case expn
    let ?p = "prev_at t e" and ?n = "next_at t e"
    have "tblN t < e" using expn g(13) by simp
    from bucket_prev [OF g(8,11) this g(10)] obtain b "as" bs where
      C: "C b = as @ [?p, e] @ bs" and p: "?p \<noteq> e" "?p \<noteq> ?n" and
      n: "if bs = [] then ?n = 0 else ?n = hd bs \<and> prev_at t ?n = e \<and> tblN t < ?n \<and> ?n < tblT t \<and> ?n \<noteq> e \<and> used_at t ?n"
      by blast
    have u: "used_at t' = (used_at t)(e := False)"
      using expn f(5) by (auto simp: fun_eq_iff stays_def)
    have "buckets (tblN t) (tblT t) (used_at t') (next_at t') (prev_at t') (C(b := as @ [?p] @ bs))"
      unfolding u
    proof (rule buckets_drop [OF g(8) C])
      show "next_at t' ?p = next_at t e" using f(6) [OF p(1)] expn by simp
      show "next_at t' x = next_at t x" if "x \<noteq> ?p" "x \<noteq> e" for x using f(6) [OF that(2)] that by simp
      show "prev_at t' x = prev_at t x" if "x \<noteq> e" "x \<noteq> hd (bs @ [e])" for x
        using f(7) [OF that(1)] that n by (auto split: if_splits)
      show "prev_at t' (hd bs) = ?p" if "bs \<noteq> []" using f(7) [of "hd bs"] that n expn by auto
    qed
    then show ?thesis using C by (intro exI [of _ "C(b := as @ [?p] @ bs)"]) auto
  qed
qed

lemma moved_entry:
  assumes G: "going t C D e i" and m: "moved i t"
  shows "live t (ent_at t (inext_at t i))" "indx_at t (ent_at t (inext_at t i)) = inext_at t i"
    "ent_at t (inext_at t i) \<noteq> e" "ent_at t (inext_at t i) \<noteq> 0"
proof -
  note g = goingD [OF G] and d = deletableD [OF goingD(7) [OF G]]
  let ?n = "inext_at t i"
  have n0: "?n \<noteq> 0" using m by (simp add: moved_def)
  have "ent_at t i \<noteq> 0" using g(12,17) by simp
  from bucket_next(1) [OF g(9) this g(14-16) n0] have n: "?n < tblT t" "ent_at t ?n \<noteq> 0" "?n \<noteq> i" by blast+
  show l: "live t (ent_at t ?n)" "indx_at t (ent_at t ?n) = ?n"
    using g(4) n(1,2) by (auto simp: cross_ok_def)
  show "ent_at t ?n \<noteq> e" using l(2) n(3) g(6) by auto
  show "ent_at t ?n \<noteq> 0" by (rule n(2))
qed

text \<open>The index.\<close>

lemma deleted_index_buckets:
  assumes G: "going t C D e i" and t': "t' = deleted e i t"
  shows "\<exists>D'. buckets (tblN t) (tblT t) (\<lambda>i. ent_at t' i \<noteq> 0) (inext_at t') (iprev_at t') D' \<and>
    (\<forall>b. set (D' b) \<subseteq> set (D b)) \<and> (moved i t \<longrightarrow> i \<in> set (D i) \<and> inext_at t i \<in> set (D i))"
proof -
  note g = goingD [OF G] and d = deletableD [OF goingD(7) [OF G]]
  note f = deleted_index_fields [OF G t']
  have ui: "ent_at t i \<noteq> 0" using g(12,17) by simp
  consider (moved) "moved i t" | (only) "i < tblN t" "inext_at t i = 0" | (expn) "\<not> i < tblN t"
    by (auto simp: moved_def)
  then show ?thesis
  proof cases
    case moved
    let ?n = "inext_at t i"
    have m: "i < tblN t" "?n \<noteq> 0" using moved by (simp_all add: moved_def)
    have "0 < i" using g(15) by simp
    from bucket_first [OF g(9) ui this m(1)] obtain bs where bs0: "D i = i # bs" "if bs = [] then ?n = 0
        else ?n = hd bs \<and> iprev_at t ?n = i \<and> tblN t < ?n \<and> ?n < tblT t \<and> ?n \<noteq> i \<and> ent_at t ?n \<noteq> 0" by blast
    then have bs: "D i = i # bs" "if bs = [] then ?n = 0 else ?n = hd bs \<and> ?n \<noteq> i" by (simp_all split: if_splits)
    then obtain cs where cs: "bs = ?n # cs" using m(2) by (cases bs) auto
    have ch: "if cs = [] then inext_at t ?n = 0 else inext_at t ?n = hd cs \<and> inext_at t ?n \<noteq> 0"
    proof -
      have "chained (inext_at t) (iprev_at t) (D i)" by (rule bucketsD(1) [OF g(9)])
      then have "cs \<noteq> [] \<Longrightarrow> inext_at t ?n = hd cs" "cs = [] \<Longrightarrow> inext_at t ?n = 0" using bs(1) cs by (cases cs; simp)+
      moreover have "cs \<noteq> [] \<Longrightarrow> hd cs \<noteq> 0"
      proof -
        assume "cs \<noteq> []"
        then have "hd cs \<in> set (D i)" "hd cs \<noteq> i" using bs(1) cs bucketsD(2) [OF g(9), of i] by (cases cs; auto)+
        then show "hd cs \<noteq> 0" using bucket_entry(1) [OF g(9), of "hd cs" i] by auto
      qed
      ultimately show ?thesis by auto
    qed
    have ni: "?n \<noteq> i" using bs(2) cs by simp
    have h: "ent_at t' x \<noteq> 0 \<longleftrightarrow> x \<noteq> ?n \<and> ent_at t x \<noteq> 0" for x
    proof -
      consider "x = i" | "x = ?n" | "x \<noteq> i" "x \<noteq> ?n" by blast
      then show ?thesis
      proof cases
        case 1
        then have "ent_at t' x = ent_at t ?n" by (simp only: f(1) moved if_True refl)
        then show ?thesis using 1 ni ui moved_entry(4) [OF G moved] by (simp only: simp_thms)
      next
        case 2
        then have "ent_at t' x = 0" using ni by (simp only: f(1) moved if_True if_False refl)
        then show ?thesis using 2 by (simp only: simp_thms)
      next
        case 3
        then have "ent_at t' x = ent_at t x" by (simp only: f(1) moved if_True if_False)
        then show ?thesis using 3 by (simp only: simp_thms)
      qed
    qed
    have u: "(\<lambda>x. ent_at t' x \<noteq> 0) = (\<lambda>x. ent_at t x \<noteq> 0)(?n := False)"
    proof
      show "(ent_at t' x \<noteq> 0) = ((\<lambda>x. ent_at t x \<noteq> 0)(?n := False)) x" for x
        by (cases "x = ?n"; simp only: h fun_upd_apply if_True if_False simp_thms)
    qed
    have D: "D i = [] @ [i, ?n] @ cs" using bs(1) cs by simp
    have "buckets (tblN t) (tblT t) (\<lambda>x. ent_at t' x \<noteq> 0) (inext_at t') (iprev_at t') (D(i := [] @ [i] @ cs))"
      unfolding u
    proof (rule buckets_drop [OF g(9) D])
      show "inext_at t' i = inext_at t ?n" by (simp only: f(2) moved if_True refl)
      show "inext_at t' x = inext_at t x" if "x \<noteq> i" "x \<noteq> ?n" for x
        using that by (simp only: f(2) moved if_True if_False)
      show "iprev_at t' x = iprev_at t x" if "x \<noteq> ?n" "x \<noteq> hd (cs @ [?n])" for x
        using that ch moved by (cases cs) (simp_all add: f(3))
      show "iprev_at t' (hd cs) = i" if "cs \<noteq> []" using that ch moved by (simp add: f(3))
    qed
    then show ?thesis using D by (intro exI [of _ "D(i := [] @ [i] @ cs)"]) auto
  next
    case only
    have m: "\<not> moved i t" using only by (simp add: moved_def)
    have u: "(\<lambda>x. ent_at t' x \<noteq> 0) = (\<lambda>x. ent_at t x \<noteq> 0)(i := False)"
      by (auto simp: fun_eq_iff f(1) m)
    have "D i = [i]" using bucket_first [OF g(9) ui _ only(1)] g(15) only(2) by (auto split: if_splits)
    then have "buckets (tblN t) (tblT t) (\<lambda>x. ent_at t' x \<noteq> 0) (inext_at t') (iprev_at t') (D(i := []))"
      unfolding u by (intro buckets_clear [OF g(9)]) (use only m in \<open>simp_all add: f(2,3)\<close>)
    then show ?thesis using m by (intro exI [of _ "D(i := [])"]) auto
  next
    case expn
    let ?p = "iprev_at t i" and ?n = "inext_at t i"
    have m: "\<not> moved i t" using expn by (simp add: moved_def)
    have "tblN t < i" using expn g(16) by simp
    from bucket_prev [OF g(9) ui this g(14)] obtain b "as" bs where
      D: "D b = as @ [?p, i] @ bs" and p: "?p \<noteq> i" "?p \<noteq> ?n" and
      n: "if bs = [] then ?n = 0 else ?n = hd bs \<and> ?n \<noteq> 0 \<and> ?n \<noteq> i" by (auto split: if_splits)
    have u: "(\<lambda>x. ent_at t' x \<noteq> 0) = (\<lambda>x. ent_at t x \<noteq> 0)(i := False)"
      by (auto simp: fun_eq_iff f(1) m)
    have "buckets (tblN t) (tblT t) (\<lambda>x. ent_at t' x \<noteq> 0) (inext_at t') (iprev_at t') (D(b := as @ [?p] @ bs))"
      unfolding u
    proof (rule buckets_drop [OF g(9) D])
      show "inext_at t' ?p = inext_at t i" using p expn m by (simp add: f(2))
      show "inext_at t' x = inext_at t x" if "x \<noteq> ?p" "x \<noteq> i" for x using that m by (simp add: f(2))
      show "iprev_at t' x = iprev_at t x" if "x \<noteq> i" "x \<noteq> hd (bs @ [i])" for x
        using that n m by (cases "bs = []") (simp_all add: f(3))
      show "iprev_at t' (hd bs) = ?p" if "bs \<noteq> []" using that n expn m by (simp add: f(3))
    qed
    then show ?thesis using D m by (intro exI [of _ "D(b := as @ [?p] @ bs)"]) auto
  qed
qed

section \<open>The index and the links\<close>

lemma deleted_ent:
  assumes G: "going t C D e i" and t': "t' = deleted e i t" and x: "x < tblT t" "ent_at t' x \<noteq> 0"
  shows "\<exists>y. y < tblT t \<and> ent_at t y = ent_at t' x \<and> ent_at t y \<noteq> 0 \<and> ent_at t y \<noteq> e \<and>
    (if moved i t \<and> x = i then y = inext_at t i else y = x \<and> x \<noteq> i)"
proof -
  note g = goingD [OF G] and d = deletableD [OF goingD(7) [OF G]] and f = deleted_index_fields(1) [OF G t']
  show ?thesis
  proof (cases "moved i t \<and> x = i")
    case True
    then have "inext_at t i \<noteq> 0" by (simp add: moved_def)
    then have "inext_at t i < tblT t" using d(13) by blast
    moreover have "ent_at t' x = ent_at t (inext_at t i)" using True f by simp
    ultimately show ?thesis using True moved_entry(3,4) [OF G] by (intro exI [of _ "inext_at t i"]) auto
  next
    case False
    then have "x \<noteq> i" "ent_at t' x = ent_at t x" using x(2) f by (auto split: if_splits)
    moreover have "ent_at t x \<noteq> e"
    proof
      assume a: "ent_at t x = e"
      then have "indx_at t e = x" using g(4,12) x(1) by (auto simp: cross_ok_def)
      then show False using g(6) \<open>x \<noteq> i\<close> by simp
    qed
    ultimately show ?thesis using x False by (intro exI [of _ x]) auto
  qed
qed

lemma deleted_index_ok:
  assumes G: "going t C D e i" and t': "t' = deleted e i t"
  shows "\<exists>D. index_ok t' D"
proof -
  note g = goingD [OF G] and f = deleted_fields [OF G t']
  obtain D' where D': "buckets (tblN t) (tblT t) (\<lambda>i. ent_at t' i \<noteq> 0) (inext_at t') (iprev_at t') D'"
    "\<And>b. set (D' b) \<subseteq> set (D b)" "moved i t \<Longrightarrow> i \<in> set (D i) \<and> inext_at t i \<in> set (D i)"
    using deleted_index_buckets [OF G t'] by blast
  have R: "\<And>x. x < tblT t \<Longrightarrow> ent_at t x \<noteq> 0 \<Longrightarrow> x \<noteq> 0 \<and> x \<noteq> tblN t"
    "\<And>b x. x \<in> set (D b) \<Longrightarrow> src_bucket t (client_of (rule_at t (ent_at t x))) = b"
    using g(3) by (auto simp: index_ok_def)
  have "x \<noteq> 0 \<and> x \<noteq> tblN t" if x: "x < tblT t" "ent_at t' x \<noteq> 0" for x
  proof -
    obtain y where y: "ent_at t y \<noteq> 0" "if moved i t \<and> x = i then y = inext_at t i else y = x \<and> x \<noteq> i"
      using deleted_ent [OF G t' x] by blast
    show ?thesis
    proof (cases "moved i t \<and> x = i")
      case True
      then show ?thesis using g(15,16) by blast
    next
      case False
      then have "y = x" using y(2) by (simp only: if_False)
      then show ?thesis using R(1) [OF x(1)] y(1) by blast
    qed
  qed
  moreover have "src_bucket t' (client_of (rule_at t' (ent_at t' x))) = b" if x: "x \<in> set (D' b)" for b x
  proof -
    have xD: "x \<in> set (D b)" using D'(2) x by blast
    have xT: "x < tblT t" using bucket_entry(1,4) [OF g(9) xD] by auto
    have "ent_at t' x \<noteq> 0" using bucketsD(3) [OF D'(1) x] .
    from deleted_ent [OF G t' xT this] obtain y where y: "ent_at t y = ent_at t' x" "ent_at t y \<noteq> e"
      "if moved i t \<and> x = i then y = inext_at t i else y = x \<and> x \<noteq> i" by blast
    have "y \<in> set (D b)"
    proof (cases "moved i t \<and> x = i")
      case True
      then have "b = i" using D'(3) xD bucketsD(4) [OF g(9), of i b i] by blast
      then show ?thesis using True D'(3) y(3) by auto
    qed (use xD y(3) in auto)
    from R(2) [OF this] show ?thesis using y(1,2) f(12) [of "ent_at t y"] by (simp add: f(17))
  qed
  ultimately have "index_ok t' D'" using D'(1) unfolding index_ok_def f(2,3) by blast
  then show ?thesis by blast
qed

lemma deleted_cross_ok:
  assumes G: "going t C D e i" and t': "t' = deleted e i t"
  shows "cross_ok t'"
proof -
  note g = goingD [OF G] and f = deleted_fields [OF G t'] and l = deleted_live [OF G t']
  note fi = deleted_index_fields(1) [OF G t']
  have R: "\<And>x. live t x \<Longrightarrow> indx_at t x < tblT t \<and> ent_at t (indx_at t x) = x"
    "\<And>x. x < tblT t \<Longrightarrow> ent_at t x \<noteq> 0 \<Longrightarrow> live t (ent_at t x) \<and> indx_at t (ent_at t x) = x"
    using g(4) by (auto simp: cross_ok_def)
  have "indx_at t' x < tblT t' \<and> ent_at t' (indx_at t' x) = x" if "live t' x" for x
  proof -
    have x: "live t x" "x \<noteq> e" using that l by simp_all
    note r = R(1) [OF x(1)]
    show ?thesis
    proof (cases "moved i t \<and> x = ent_at t (inext_at t i)")
      case True
      then have "indx_at t' x = i" using f(11) [OF x(2)] by simp
      then show ?thesis using True g(14) fi by (simp add: f(2,3))
    next
      case False
      then have ix: "indx_at t' x = indx_at t x" using f(11) [OF x(2)] by auto
      have "indx_at t x \<noteq> i" using r x(2) g(17) by auto
      moreover have "moved i t \<Longrightarrow> indx_at t x \<noteq> inext_at t i" using False r by auto
      ultimately have "ent_at t' (indx_at t x) = ent_at t (indx_at t x)" using fi by simp
      then show ?thesis using ix r by (simp add: f(2,3))
    qed
  qed
  moreover have "live t' (ent_at t' x) \<and> indx_at t' (ent_at t' x) = x" if x: "x < tblT t'" "ent_at t' x \<noteq> 0" for x
  proof -
    have xT: "x < tblT t" using x(1) by (simp add: f(2,3))
    from deleted_ent [OF G t' xT x(2)] obtain y where y: "y < tblT t" "ent_at t y = ent_at t' x" "ent_at t y \<noteq> 0"
      "ent_at t y \<noteq> e" "if moved i t \<and> x = i then y = inext_at t i else y = x \<and> x \<noteq> i" by blast
    note r = R(2) [OF y(1,3)]
    have "indx_at t' (ent_at t y) = x"
    proof (cases "moved i t \<and> x = i")
      case True
      then show ?thesis using f(11) [OF y(4)] y(5) by simp
    next
      case False
      then have yx: "y = x" "x \<noteq> i" using y(5) by auto
      have "moved i t \<Longrightarrow> ent_at t y \<noteq> ent_at t (inext_at t i)"
      proof
        assume m: "moved i t" "ent_at t y = ent_at t (inext_at t i)"
        then have "indx_at t (ent_at t y) = inext_at t i" using moved_entry(2) [OF G m(1)] by simp
        then have "x = inext_at t i" using r yx by simp
        then have "ent_at t' x = 0" using m(1) yx(2) fi by simp
        then show False using x(2) by simp
      qed
      then show ?thesis using f(11) [OF y(4)] r yx by auto
    qed
    then show ?thesis using r y(2,4) by (simp add: l)
  qed
  ultimately show ?thesis unfolding cross_ok_def by blast
qed

end
