(* ===== verification/NatDrvClear.thy ===== *)
theory NatDrvClear
  imports NatDrvKeep
begin

text \<open>
  The heads of chains that wait for the end of their followers, and deleting as a whole.
\<close>

section \<open>Heads without followers\<close>

lemma clear_dead_spec:
  assumes "\<And>c. c \<in> set cnts \<Longrightarrow> c < length rs" "distinct cnts"
  shows "\<exists>rs'. clear_dead cnts rs = Some rs' \<and> length rs' = length rs \<and>
    (\<forall>x < length rs. rs' ! x = (if x \<in> set cnts \<and> dead_head (rs ! x) then zero_rule else rs ! x))"
  using assms
proof (induction cnts arbitrary: rs)
  case (Cons c cnts)
  let ?rs = "if dead_head (rs ! c) then rs[c := zero_rule] else rs"
  have "c < length rs" using Cons.prems(1) by simp
  moreover have "\<exists>rs'. clear_dead cnts ?rs = Some rs' \<and> length rs' = length ?rs \<and>
      (\<forall>x < length ?rs. rs' ! x = (if x \<in> set cnts \<and> dead_head (?rs ! x) then zero_rule else ?rs ! x))"
    by (rule Cons.IH) (use Cons.prems in auto)
  then obtain rs' where "clear_dead cnts ?rs = Some rs'" "length rs' = length ?rs"
    "\<forall>x < length ?rs. rs' ! x = (if x \<in> set cnts \<and> dead_head (?rs ! x) then zero_rule else ?rs ! x)" by blast
  ultimately show ?case using Cons.prems(2)
    by (intro exI [of _ rs']) (auto simp: rd_def nth_list_update split: if_splits)
qed simp

lemma dead_head_iff: "dead_head r \<longleftrightarrow> proto_of r = 0xFF \<and> lo16 (nxt_indx_pub_port r) = 0"
  by (simp add: dead_head_def IPA_NAT_INVALID_PROTO_FIELD_CMP_def)

lemma del_dead_at:
  assumes "tbl_sizes_ok t"
  shows "\<exists>t'. ipa_nati_del_dead_ipv4_head_nodes t = Some t' \<and> tbl_sizes_ok t' \<and> table_entries t' = table_entries t \<and>
    expn_table_entries t' = expn_table_entries t \<and> word_at t' = word_at t \<and> meta_at t' = meta_at t \<and>
    rule_id_array t' = rule_id_array t \<and>
    (\<forall>x. rule_at t' x = (if x < tblN t \<and> dead_head (rule_at t x) then zero_rule else rule_at t x))"
proof -
  note z = tbl_sizes_okD [OF assms]
  obtain rs where rs: "clear_dead [0..<tblN t] (base_rules (tables t)) = Some rs" "length rs = tblN t"
    "\<forall>x < tblN t. rs ! x = (if dead_head (base_rules (tables t) ! x) then zero_rule else base_rules (tables t) ! x)"
    using clear_dead_spec [of "[0..<tblN t]" "base_rules (tables t)"] z(5) by auto
  let ?t = "t\<lparr>tables := (tables t)\<lparr>base_rules := rs\<rparr>\<rparr>"
  have "tbl_sizes_ok ?t" using assms rs(2) by (simp add: tbl_sizes_ok_def)
  moreover have "word_at ?t = word_at t" "meta_at ?t = meta_at t"
    by (simp_all add: fun_eq_iff word_at_def meta_at_def)
  moreover have "rule_at ?t x = (if x < tblN t \<and> dead_head (rule_at t x) then zero_rule else rule_at t x)" for x
    using rs(3) by (simp add: rule_at_def)
  ultimately show ?thesis using rs(1)
    by (intro exI [of _ ?t]) (simp add: ipa_nati_del_dead_ipv4_head_nodes_def)
qed

lemma buckets_clear_many:
  assumes B: "buckets N T used nxt prv C"
    and Z: "\<And>z. Z z \<Longrightarrow> used z \<Longrightarrow> C z = [z]" "\<And>z. Z z \<Longrightarrow> z < N"
    and used': "\<And>x. used' x \<longleftrightarrow> used x \<and> \<not> Z x"
    and same: "\<And>x. \<not> Z x \<Longrightarrow> nxt' x = nxt x" "\<And>x. \<not> Z x \<Longrightarrow> prv' x = prv x"
  shows "\<exists>C'. buckets N T used' nxt' prv' C' \<and> (\<forall>b. set (C' b) \<subseteq> set (C b))"
proof -
  let ?C = "\<lambda>b. if Z b then [] else C b"
  have notZ: "\<not> Z x" if "x \<in> set (C b)" "\<not> Z b" for x b
  proof
    assume "Z x"
    then have "C x = [x]" using Z(1) bucketsD(3) [OF B that(1)] by blast
    then have "b = x" using bucketsD(4) [OF B that(1), of x] by simp
    then show False using that(2) \<open>Z x\<close> by simp
  qed
  have "buckets N T used' nxt' prv' ?C"
  proof (rule bucketsI)
    show "\<exists>xs. ?C b = b # xs \<and> set xs \<subseteq> {N<..<T}" if "0 < b" "b < N" "used' b" for b
      using bucketsD(6) [OF B that(1,2)] that(3) used' by auto
    show "?C b = []" if "\<not> (0 < b \<and> b < N \<and> used' b)" for b
      using bucketsD(7) [OF B, of b] that used' by auto
    show "chained nxt' prv' (?C b)" if "?C b \<noteq> []" for b
    proof -
      have "\<not> Z b" using that by auto
      moreover have "chained nxt' prv' (C b) = chained nxt prv (C b)"
      proof (rule chained_cong)
        show "nxt' x = nxt x" if "x \<in> set (C b)" for x using same(1) notZ [OF that \<open>\<not> Z b\<close>] by blast
        show "prv' x = prv x" if "x \<in> set (tl (C b))" for x
          using same(2) notZ [OF list.set_sel(2) \<open>\<not> Z b\<close>] that by (cases "C b") auto
      qed
      ultimately show ?thesis using bucketsD(1) [OF B] by simp
    qed
    show "distinct (?C b)" if "?C b \<noteq> []" for b using bucketsD(2) [OF B] by simp
    show "used' x" if "x \<in> set (?C b)" for b x
      using that notZ bucketsD(3) [OF B] used' by (auto split: if_splits)
    show "b = c" if "x \<in> set (?C b)" "x \<in> set (?C c)" for b c x
      using that bucketsD(4) [OF B] by (auto split: if_splits)
    show "\<exists>b. x \<in> set (?C b)" if x: "N < x" "x < T" "used' x" for x
    proof -
      obtain b where b: "x \<in> set (C b)" using bucketsD(5) [OF B x(1,2)] x(3) used' by blast
      have "\<not> Z b"
      proof
        assume "Z b"
        moreover have "used b" using bucket_entry(5) [OF B b] .
        ultimately have "C b = [b]" "b < N" using Z by blast+
        then show False using b x(1) by simp
      qed
      then show ?thesis using b by (intro exI [of _ b]) simp
    qed
  qed
  then show ?thesis by (intro exI [of _ ?C]) auto
qed

section \<open>The invariant afterwards\<close>

text \<open>\<open>t2\<close> is \<open>t1\<close> with the heads cleared.\<close>

definition cleared :: "nat_tbl \<Rightarrow> nat_tbl \<Rightarrow> bool" where
  "cleared t1 t2 \<longleftrightarrow> tbl_sizes_ok t2 \<and> table_entries t2 = table_entries t1 \<and>
    expn_table_entries t2 = expn_table_entries t1 \<and> word_at t2 = word_at t1 \<and> meta_at t2 = meta_at t1 \<and>
    rule_id_array t2 = rule_id_array t1 \<and>
    (\<forall>x. rule_at t2 x = (if x < tblN t1 \<and> dead_head (rule_at t1 x) then zero_rule else rule_at t1 x))"

lemma clearedD:
  assumes "cleared t1 t2"
  shows "tbl_sizes_ok t2" "table_entries t2 = table_entries t1" "expn_table_entries t2 = expn_table_entries t1"
    "word_at t2 = word_at t1" "meta_at t2 = meta_at t1" "rule_id_array t2 = rule_id_array t1"
    "rule_at t2 x = (if x < tblN t1 \<and> dead_head (rule_at t1 x) then zero_rule else rule_at t1 x)"
  using assms unfolding cleared_def by blast+

lemma cleared_buckets [simp]:
  assumes "cleared t1 t2"
  shows "dst_bucket t2 = dst_bucket t1" "src_bucket t2 = src_bucket t1" "rule_id t2 = rule_id t1"
  using clearedD(2) [OF assms]
  by (simp_all add: fun_eq_iff dst_bucket_def src_bucket_def rule_id_def make_rule_id_def)

lemma cleared_live:
  assumes "cleared t1 t2"
  shows "live t2 x = live t1 x" "live t1 x \<Longrightarrow> rule_at t2 x = rule_at t1 x"
proof -
  show "live t1 x \<Longrightarrow> rule_at t2 x = rule_at t1 x"
    using clearedD(7) [OF assms, of x] by (simp add: live_def dead_head_iff)
  show "live t2 x = live t1 x"
    using clearedD(2,3,7) [OF assms] by (auto simp: live_def dead_head_iff)
qed

lemma cleared_rules_ok:
  assumes c: "cleared t1 t2"
    and B: "buckets (tblN t1) (tblT t1) (used_at t1) (next_at t1) (prev_at t1) C"
    and R: "\<And>e. e < tblT t1 \<Longrightarrow> used_at t1 e \<Longrightarrow> e \<noteq> 0 \<and> e \<noteq> tblN t1"
      "\<And>b e. e \<in> set (C b) \<Longrightarrow> live t1 e \<Longrightarrow> dst_bucket t1 (client_of (rule_at t1 e)) = b"
      "\<And>e. e < tblT t1 \<Longrightarrow> used_at t1 e \<Longrightarrow> \<not> live t1 e \<Longrightarrow> e < tblN t1"
  shows "\<exists>C. rules_ok t2 C"
proof -
  let ?Z = "\<lambda>x. x < tblN t1 \<and> dead_head (rule_at t1 x)"
  note d = clearedD [OF c]
  have N: "tblN t2 = tblN t1" "tblX t2 = tblX t1" using d(2,3) by simp_all
  have u: "used_at t2 x \<longleftrightarrow> used_at t1 x \<and> \<not> ?Z x" for x by (simp add: d(7))
  have "\<exists>C'. buckets (tblN t1) (tblT t1) (used_at t2) (next_at t2) (prev_at t2) C' \<and> (\<forall>b. set (C' b) \<subseteq> set (C b))"
  proof (rule buckets_clear_many [OF B, of ?Z])
    show "C z = [z]" if z: "?Z z" "used_at t1 z" for z
    proof -
      have "z < tblT t1" using z(1) by simp
      then have "0 < z" using R(1) [of z] z(2) by blast
      moreover have "next_at t1 z = 0" using z(1) by (simp add: dead_head_iff)
      ultimately show ?thesis using bucket_first [OF B z(2)] z(1) by (auto split: if_splits)
    qed
  qed (auto simp: u d(7))
  then obtain C' where C': "buckets (tblN t1) (tblT t1) (used_at t2) (next_at t2) (prev_at t2) C'"
    "\<And>b. set (C' b) \<subseteq> set (C b)" by blast
  have "e \<noteq> 0 \<and> e \<noteq> tblN t2" if "e < tblT t2" "used_at t2 e" for e using R(1) that u N by auto
  moreover have "dst_bucket t2 (client_of (rule_at t2 e)) = b" if "e \<in> set (C' b)" "live t2 e" for b e
    using that R(2) [of e b] C'(2) cleared_live [OF c, of e] by (auto simp: cleared_buckets [OF c])
  moreover have "e < tblN t2 \<and> next_at t2 e \<noteq> 0" if e: "e < tblT t2" "used_at t2 e" "\<not> live t2 e" for e
  proof -
    have "used_at t1 e" "\<not> ?Z e" "e < tblT t1" "\<not> live t1 e"
      using e u N cleared_live(1) [OF c] by auto
    moreover from this have "e < tblN t1" using R(3) by blast
    ultimately show ?thesis using N by (auto simp: d(7) dead_head_iff live_def unat_gt_0)
  qed
  ultimately have "rules_ok t2 C'" using C'(1) unfolding rules_ok_def N by blast
  then show ?thesis by blast
qed

lemma cleared_index_ok:
  assumes c: "cleared t1 t2" and D: "index_ok t1 D" and x: "cross_ok t1"
  shows "index_ok t2 D" "cross_ok t2"
proof -
  note d = clearedD [OF c]
  have N: "tblN t2 = tblN t1" "tblX t2 = tblX t1" using d(2,3) by simp_all
  have live: "live t1 (ent_at t1 i)" if "i < tblT t1" "ent_at t1 i \<noteq> 0" for i
    using x that by (auto simp: cross_ok_def)
  have B: "buckets (tblN t1) (tblT t1) (\<lambda>i. ent_at t1 i \<noteq> 0) (inext_at t1) (iprev_at t1) D"
    using D by (simp add: index_ok_def)
  have "src_bucket t2 (client_of (rule_at t2 (ent_at t2 i))) = b" if i: "i \<in> set (D b)" for b i
  proof -
    have "i < tblT t1" using bucket_entry(1,4) [OF B i] by auto
    then have "live t1 (ent_at t1 i)" using live bucketsD(3) [OF B i] by blast
    from cleared_live(2) [OF c this] show ?thesis using D i
      by (auto simp: index_ok_def d(4) cleared_buckets [OF c])
  qed
  then show "index_ok t2 D" using D unfolding index_ok_def N d(4,5) by blast
  have "indx_at t2 e < tblT t1 \<and> ent_at t1 (indx_at t2 e) = e" if "live t1 e" for e
    using x that cleared_live(2) [OF c that] by (auto simp: cross_ok_def)
  moreover have "indx_at t2 (ent_at t1 i) = i" if "i < tblT t1" "ent_at t1 i \<noteq> 0" for i
    using x that cleared_live(2) [OF c live [OF that]] by (auto simp: cross_ok_def)
  ultimately show "cross_ok t2" using live cleared_live(1) [OF c] unfolding cross_ok_def N d(4) by blast
qed

section \<open>The handle\<close>

definition without_id :: "nat \<Rightarrow> nat_tbl \<Rightarrow> nat_tbl" where
  "without_id h t = t\<lparr>rule_id_array := (rule_id_array t)[h := 0]\<rparr>"

text \<open>\<open>t2\<close> has the rules of \<open>t\<close> but for \<open>e\<close>, whose handle is freed.\<close>

lemma gone_ids:
  assumes t: "tbl_sizes_ok t" "ids_ok t" and e: "live t e" "e \<noteq> 0"
    and h: "h < tblT t" "rule_id_array t ! h = rule_id t e"
    and t2: "table_entries t2 = table_entries t" "expn_table_entries t2 = expn_table_entries t"
      "rule_id_array t2 = rule_id_array t" "\<And>x. live t2 x \<longleftrightarrow> live t x \<and> x \<noteq> e"
  shows "ids_ok (without_id h t2)"
proof -
  let ?t = "without_id h t2"
  have T: "tblT ?t = tblT t" using t2(1,2) by (simp add: without_id_def)
  have id: "rule_id ?t = rule_id t" using t2(1) by (simp add: fun_eq_iff rule_id_def make_rule_id_def without_id_def)
  have l: "live ?t x \<longleftrightarrow> live t x \<and> x \<noteq> e" for x using t2(4) by (simp add: without_id_def)
  have at: "rule_id_array ?t ! j = (if j = h then 0 else rule_id_array t ! j)" if "j < tblT t" for j
    using that h(1) tbl_sizes_okD(10) [OF t(1)] t2(3) by (simp add: without_id_def)
  have eT: "e < tblT t" using e(1) by (simp add: live_def)
  have nz: "rule_id_array t ! h \<noteq> 0" using h(2) rule_id_nonzero [OF t(1) eT e(2)] by simp
  have "j + 1 < tblT ?t \<and> (\<exists>x. live ?t x \<and> rule_id_array ?t ! j = rule_id ?t x)"
    if j: "j < tblT ?t" "rule_id_array ?t ! j \<noteq> 0" for j
  proof -
    have j': "j < tblT t" "j \<noteq> h" "rule_id_array t ! j \<noteq> 0" using j at [of j] T by (auto split: if_splits)
    obtain x where x: "live t x" "rule_id_array t ! j = rule_id t x" using ids_okD(2) [OF t(2) j'(1,3)] by blast
    have "x \<noteq> e"
    proof
      assume "x = e"
      then have "rule_id_array t ! h = rule_id_array t ! j" using x(2) h(2) by simp
      from ids_okD(3) [OF t(2) h(1) j'(1) nz this] show False using j'(2) by simp
    qed
    then show ?thesis using x j' at [of j] T ids_okD(1) [OF t(2) j'(1,3)] by (auto simp: l id)
  qed
  moreover have "j = j'" if "j < tblT ?t" "j' < tblT ?t" "rule_id_array ?t ! j \<noteq> 0"
    "rule_id_array ?t ! j = rule_id_array ?t ! j'" for j j'
  proof -
    have "j < tblT t" "j' < tblT t" "rule_id_array t ! j \<noteq> 0" "rule_id_array t ! j = rule_id_array t ! j'"
      using that at [of j] at [of j'] T by (auto split: if_splits)
    then show ?thesis by (rule ids_okD(3) [OF t(2)])
  qed
  moreover have "\<exists>j < tblT ?t. rule_id_array ?t ! j = rule_id ?t x" if x: "live ?t x" for x
  proof -
    have x': "live t x" "x \<noteq> e" using x l by simp_all
    obtain j where j: "j < tblT t" "rule_id_array t ! j = rule_id t x" using ids_okD(4) [OF t(2) x'(1)] by blast
    have "x < tblT t" using x'(1) by (simp add: live_def)
    then have "rule_id t x \<noteq> rule_id t e" using rule_id_inj [OF t(1) _ eT] x'(2) by blast
    then have "j \<noteq> h" using j(2) h(2) by auto
    then show ?thesis using j at [of j] T by (intro exI [of _ j]) (simp add: id)
  qed
  ultimately show ?thesis unfolding ids_ok_def by blast
qed

lemma gone_nat_rules:
  assumes t: "tbl_sizes_ok t" "ids_ok t" and e: "live t e" "e \<noteq> 0"
    and h: "0 < unat h" "unat h < tblT t" "rule_id_array t ! (unat h - 1) = rule_id t e"
    and t2: "table_entries t2 = table_entries t" "expn_table_entries t2 = expn_table_entries t"
      "rule_id_array t2 = rule_id_array t" "\<And>x. live t x \<Longrightarrow> x \<noteq> e \<Longrightarrow> client_of (rule_at t2 x) = client_of (rule_at t x)"
  shows "nat_rules (without_id (unat h - 1) t2) = (nat_rules t)(h := None)"
proof
  fix x
  let ?t = "without_id (unat h - 1) t2"
  have T: "tblT ?t = tblT t" "tblN ?t = tblN t" using t2(1,2) by (simp_all add: without_id_def)
  have ent: "entry_of (without_id j t2) = entry_of t" for j
    using t2(1) by (simp add: fun_eq_iff entry_of_def without_id_def)
  have len: "length (rule_id_array t) = tblT t" by (rule tbl_sizes_okD(10) [OF t(1)])
  show "nat_rules ?t x = ((nat_rules t)(h := None)) x"
  proof (cases "x = h")
    case True
    have "rule_id_array ?t ! (unat h - 1) = 0" using h(1,2) len by (simp add: without_id_def t2(3))
    then show ?thesis using True by (simp add: nat_rules_def Let_def)
  next
    case False
    show ?thesis
    proof (cases "x = 0 \<or> tblT t \<le> unat x")
      case True
      then show ?thesis using False T(1) by (auto simp: nat_rules_def)
    next
      case x: False
      then have "unat x \<noteq> 0" by (simp add: unat_eq_zero)
      then have j: "unat x - 1 < tblT t" "unat x - 1 \<noteq> unat h - 1"
        using x False h(1) by (auto simp: word_unat_eq_iff)
      let ?y = "rule_id_array t ! (unat x - 1)"
      have y: "rule_id_array ?t ! (unat x - 1) = ?y" using j by (simp add: without_id_def t2(3))
      have "client_of (rule_at ?t (entry_of t ?y)) = client_of (rule_at t (entry_of t ?y))" if n: "?y \<noteq> 0"
      proof -
        obtain z where z: "live t z" "?y = rule_id t z" using ids_okD(2) [OF t(2) j(1) n] by blast
        have zT: "z < tblT t" using z(1) by (simp add: live_def)
        have "z \<noteq> e"
        proof
          assume "z = e"
          then have "?y = rule_id_array t ! (unat h - 1)" using z(2) h(3) by simp
          moreover have "unat h - 1 < tblT t" using h(2) by simp
          ultimately show False using ids_okD(3) [OF t(2) j(1) _ n] j(2) by blast
        qed
        then show ?thesis using t2(4) z entry_of_rule_id [OF t(1) zT] by (simp add: without_id_def)
      qed
      then show ?thesis using x False T(1) y by (simp add: nat_rules_def Let_def ent)
    qed
  qed
qed

section \<open>Deleting as a whole\<close>

lemma deleted_cleared_rules:
  assumes G: "going t C D e i" and c: "cleared (deleted e i t) t2"
  shows "\<exists>C. rules_ok t2 C"
proof -
  let ?t = "deleted e i t"
  note g = goingD [OF G] and f = deleted_fields [OF G refl] and l = deleted_live [OF G refl]
  obtain C' where C': "buckets (tblN t) (tblT t) (used_at ?t) (next_at ?t) (prev_at ?t) C'"
    "\<And>b. set (C' b) \<subseteq> set (C b)" using deleted_buckets [OF G refl] by blast
  have R: "\<And>x. x < tblT t \<Longrightarrow> used_at t x \<Longrightarrow> x \<noteq> 0 \<and> x \<noteq> tblN t"
    "\<And>b x. x \<in> set (C b) \<Longrightarrow> live t x \<Longrightarrow> dst_bucket t (client_of (rule_at t x)) = b"
    "\<And>x. x < tblT t \<Longrightarrow> used_at t x \<Longrightarrow> \<not> live t x \<Longrightarrow> x < tblN t"
    using g(2) by (auto simp: rules_ok_def)
  show ?thesis
  proof (rule cleared_rules_ok [OF c])
    show "buckets (tblN ?t) (tblT ?t) (used_at ?t) (next_at ?t) (prev_at ?t) C'"
      unfolding f(2,3) by (rule C'(1))
    show "x \<noteq> 0 \<and> x \<noteq> tblN ?t" if "x < tblT ?t" "used_at ?t x" for x
      using that R(1) unfolding f(2,3,5) by blast
    show "dst_bucket ?t (client_of (rule_at ?t x)) = b" if "x \<in> set (C' b)" "live ?t x" for b x
    proof -
      have x: "x \<in> set (C b)" "live t x" "x \<noteq> e" using that C'(2) unfolding l by blast+
      then show ?thesis using R(2) f(12) [OF x(3)] unfolding f(16) by simp
    qed
    show "x < tblN ?t" if "x < tblT ?t" "used_at ?t x" "\<not> live ?t x" for x
    proof (cases "x = e")
      case True
      then show ?thesis using that(2) unfolding f(2,5) stays_def by blast
    next
      case False
      then show ?thesis using that R(3) [of x] unfolding f(2,3,5) l by blast
    qed
  qed
qed

text \<open>
  A rule that is there is deleted: its handle is free afterwards and no other rule is touched.
\<close>

lemma del_rule_refines:
  assumes K: "dma_works K" and inv: "drv_inv (ip4_tbl s)" and c: "nat_rules (ip4_tbl s) h = Some c"
  shows "\<exists>s'. ipa_nati_del_ipv4_rule K 1 h s = Some (0, s') \<and> drv_inv (ip4_tbl s') \<and>
    nat_rules (ip4_tbl s') = (nat_rules (ip4_tbl s))(h := None) \<and> (\<exists>t k. s' = s\<lparr>ip4_tbl := t, kern := k\<rparr>)"
proof -
  define t where "t = ip4_tbl s"
  obtain C D where CD: "rules_ok t C" "index_ok t D" and t: "tbl_sizes_ok t" "cross_ok t" "ids_ok t"
    using inv unfolding drv_inv_def t_def by blast
  note z = tbl_sizes_okD [OF t(1)]
  obtain e where e: "live t e" "rule_id_array t ! (unat h - 1) = rule_id t e" "0 < unat h" "unat h < tblT t"
    using nat_rules_cases [OF t(1,3)] c unfolding t_def by blast
  define i where "i = indx_at t e"
  have G: "going t C D e i" using CD t e(1) by (simp add: going_def i_def)
  note g = goingD [OF G] and f = deleted_fields [OF G refl] and l = deleted_live [OF G refl]
  define k :: u16 where "k = of_nat (if e < tblN t then e else e - tblN t)"
  have k: "located t e k" "k \<noteq> 0"
  proof -
    have "unat k = (if e < tblN t then e else e - tblN t)"
      unfolding k_def by (rule unat_of_entry [OF t(1)]) (use g(10) in auto)
    then show "located t e k" using g(10) by (simp add: located_def)
    have "unat k \<noteq> 0" using \<open>unat k = _\<close> g(12,13) by auto
    then show "k \<noteq> 0" by auto
  qed
  have hu: "unat (ucast h :: u16) = unat h" using e(4) z(2,4) by (simp add: unsigned_ucast_eq take_bit_nat_eq_self)
  have parse: "ipa_nati_parse_ipv4_rule_hdl t (ucast h) = Some (\<not> e < tblN t, k)"
  proof -
    have "(ucast h :: u16) \<noteq> 0" using hu e(3) by auto
    from parse_rule_id [OF t(1) g(10) this] show ?thesis using hu e(2,4) by (simp add: k_def)
  qed
  obtain k' where post: "ipa_nati_post_del_dma_cmd K k (\<not> e < tblN t) (pos_of (e < tblN t) (next_at t e)) s =
      Some (0, s\<lparr>ip4_tbl := deleted e i t, kern := k'\<rparr>)"
    using post_del_works [OF K, of s e i k] g(7) k(1) unfolding t_def by blast
  obtain t2 where t2: "ipa_nati_del_dead_ipv4_head_nodes (deleted e i t) = Some t2" "cleared (deleted e i t) t2"
    using del_dead_at [OF f(1)] unfolding cleared_def by blast
  note c = clearedD [OF t2(2)]
  have ids: "rule_id_array t2 = rule_id_array t" "table_entries t2 = table_entries t"
    "expn_table_entries t2 = expn_table_entries t"
    using c(2,3,6) deleted_at(5-7) [OF g(7)] by simp_all
  have h1: "unat (h - 1) = unat h - 1" using e(3) by (intro unat_minus_one) auto
  have "wr (rule_id_array t2) (unat (h - 1)) 0 = Some ((rule_id_array t)[unat h - 1 := 0])"
    using h1 e(4) z(10) ids(1) by (simp add: wr_def)
  then have run: "ipa_nati_del_ipv4_rule K 1 h s =
      Some (0, s\<lparr>ip4_tbl := without_id (unat h - 1) t2, kern := k'\<rparr>)"
    using parse k(2) z(12) find_rule_pos [OF t(1) k(1)] post t2(1) ids(1)
    by (simp add: ipa_nati_del_ipv4_rule_def get_tbl_def t_def [symmetric] without_id_def)
  have live2: "live t2 x \<longleftrightarrow> live t x \<and> x \<noteq> e" for x using cleared_live(1) [OF t2(2)] l by simp
  have h0: "unat h - 1 < tblT t" using e(4) by simp
  obtain D' where D': "index_ok (deleted e i t) D'" using deleted_index_ok [OF G refl] by blast
  have x1: "cross_ok (deleted e i t)" by (rule deleted_cross_ok [OF G refl])
  have "\<exists>C. rules_ok t2 C" by (rule deleted_cleared_rules [OF G t2(2)])
  moreover have "\<exists>D. index_ok t2 D" "cross_ok t2" using cleared_index_ok [OF t2(2) D' x1] by blast+
  moreover have "ids_ok (without_id (unat h - 1) t2)"
    by (rule gone_ids [OF t(1,3) e(1) g(12) h0 e(2) ids(2,3,1) live2])
  moreover have "tbl_sizes_ok (without_id (unat h - 1) t2)"
    using c(1) by (simp add: without_id_def tbl_sizes_ok_def)
  ultimately have "drv_inv (without_id (unat h - 1) t2)" by (simp add: drv_inv_def without_id_def)
  moreover have "nat_rules (without_id (unat h - 1) t2) = (nat_rules t)(h := None)"
  proof (rule gone_nat_rules [OF t(1,3) e(1) g(12) e(3,4,2) ids(2,3,1)])
    fix x assume "live t x" "x \<noteq> e"
    then have "live (deleted e i t) x" by (simp add: l)
    then show "client_of (rule_at t2 x) = client_of (rule_at t x)"
      using cleared_live(2) [OF t2(2)] f(12) [OF \<open>x \<noteq> e\<close>] by simp
  qed
  ultimately show ?thesis using run by (auto simp: t_def)
qed

text \<open>A handle that is not there is refused.\<close>

lemma parse_unknown:
  assumes t: "tbl_sizes_ok t" and h: "nat_rules t h = None" "h \<noteq> 0" "unat h < 2 ^ 16"
  shows "ipa_nati_parse_ipv4_rule_hdl t (ucast h) = Some (False, 0)"
proof -
  note z = tbl_sizes_okD [OF t]
  have hu: "unat (ucast h :: u16) = unat h" using h(3) by (simp add: unsigned_ucast_eq take_bit_nat_eq_self)
  show ?thesis
  proof (cases "tblT t \<le> unat h")
    case True
    then show ?thesis by (simp add: ipa_nati_parse_ipv4_rule_hdl_def z(13) hu)
  next
    case False
    have "(ucast h :: u16) \<noteq> 0" using hu h(2) by (metis unat_eq_zero)
    moreover have "rule_id_array t ! (unat h - 1) = 0"
      using h(1,2) False by (simp add: nat_rules_def Let_def split: if_splits)
    ultimately show ?thesis using False z(10)
      by (simp add: ipa_nati_parse_ipv4_rule_hdl_def z(13) hu rd_def)
  qed
qed

lemma del_rule_unknown:
  assumes inv: "drv_inv (ip4_tbl s)" and h: "nat_rules (ip4_tbl s) h = None" "h \<noteq> 0" "unat h < 2 ^ 16"
  shows "ipa_nati_del_ipv4_rule K 1 h s = Some (- EINVAL, s)"
  using parse_unknown [OF _ h] inv by (simp add: drv_inv_def ipa_nati_del_ipv4_rule_def get_tbl_def)

end
