(* ===== verification/NatDrvProps.thy ===== *)
theory NatDrvProps
  imports NatDrvClear
begin

text \<open>What the NAT driver promises: its tables hold the rules that were added and not deleted.\<close>

section \<open>A new table\<close>

text \<open>The kernel gives what it is asked for, at offset 0, and executes DMA commands.\<close>

definition kernel_works :: "'k nat_kernel \<Rightarrow> bool" where
  "kernel_works K \<longleftrightarrow>
     dma_works K \<and>
     (\<forall>k. fst (k_open_ipa K k) \<and> fst (k_open_nat K k) \<and> fst (k_mmap K k)) \<and>
     (\<forall>n k. fst (k_alloc_nat_mem K n k) = Some 0) \<and> (\<forall>c k. fst (k_init_nat K c k))"

lemma unat_of_nat_u16: "n < 2 ^ 16 \<Longrightarrow> unat (of_nat n :: u16) = n"
  by (simp add: unat_of_nat take_bit_nat_eq_self)

text \<open>
  The sizes: the base table is a power of two, the smallest that holds four fifths of the entries,
  and the expansion table is even and holds the last fifth.
\<close>

lemma GetNearestEven_spec:
  assumes "unat x < 2 ^ 15"
  shows "2 \<le> unat (GetNearestEven x)" "unat x \<le> unat (GetNearestEven x)" "unat (GetNearestEven x) \<le> max 2 (unat x + 1)"
    "even (unat (GetNearestEven x))"
proof -
  have "unat (x mod 2) = unat x mod 2" by (simp add: unat_mod)
  then have "x mod 2 \<noteq> 0 \<longleftrightarrow> odd (unat x)" by (metis even_iff_mod_2_eq_zero unat_eq_zero)
  moreover have "unat (x + 1) = unat x + 1" using unat_add [of x 1] assms by simp
  ultimately show "2 \<le> unat (GetNearestEven x)" "unat x \<le> unat (GetNearestEven x)"
    "unat (GetNearestEven x) \<le> max 2 (unat x + 1)" "even (unat (GetNearestEven x))"
    by (auto simp: GetNearestEven_def word_less_nat_alt)
qed

lemma table_sizes_spec:
  assumes "n \<noteq> 0" "unat n \<le> 40960"
  shows "\<exists>t x k. table_sizes n = Some (t, x) \<and> unat t = 2 ^ k \<and> 1 \<le> k \<and>
    unat n * 4 div 5 \<le> unat t \<and> (2 < unat t \<longrightarrow> unat t < 2 * (unat n * 4 div 5)) \<and>
    unat n div 5 \<le> unat x \<and> unat x \<le> max 2 (unat n div 5 + 1) \<and> 2 \<le> unat x \<and> even (unat x)"
proof -
  let ?q = "unat n * 4 div 5"
  have q: "?q \<le> 2 ^ 15" using assms(2) by simp
  have qu: "unat (of_nat ?q :: u16) = ?q" by (rule unat_of_nat_u16) (use q in simp)
  have xu: "unat (of_nat (unat n div 5) :: u16) = unat n div 5" by (rule unat_of_nat_u16) (use assms(2) in simp)
  have xs: "unat (of_nat (unat n div 5) :: u16) < 2 ^ 15" using xu assms(2) by simp
  note x = GetNearestEven_spec [OF xs, unfolded xu]
  let ?t = "if (of_nat ?q :: u16) = 0 then 1 else of_nat ?q :: u16"
  have tq: "(of_nat ?q :: u16) = 0 \<longleftrightarrow> ?q = 0" using qu by (metis unat_0 unat_eq_zero)
  consider "?q \<le> 1" | "2 \<le> ?q" by linarith
  then obtain t k where t: "GetNearest2Power ?t = Some t" "unat t = 2 ^ k" "1 \<le> k" "?q \<le> unat t"
    "2 < unat t \<longrightarrow> unat t < 2 * ?q"
  proof cases
    case 1
    have "?t = 1"
    proof (cases "?q = 0")
      case False
      then have "?q = 1" using 1 by simp
      then show ?thesis by simp
    qed (use tq in simp)
    then show ?thesis using that [of 2 1] 1 by (simp add: GetNearest2Power_def)
  next
    case 2
    then have "?t = of_nat ?q" using tq by simp
    with GetNearest2Power_spec [of "of_nat ?q"] 2 q qu show ?thesis
      using that unat_pow2_u16 by auto
  qed
  have "table_sizes n = Some (t, GetNearestEven (of_nat (unat n div 5)))"
    using t(1) by (simp add: table_sizes_def Let_def)
  then show ?thesis using t x by blast
qed

lemma reset_sizes_ok:
  assumes "2 \<le> unat t" "unat t \<le> 2 ^ 14" "2 \<le> unat x" "unat x \<le> 2 ^ 14"
    and "r = ipa_nati_reset_tbl (no_tbl\<lparr>valid := True, public_addr := pub, tbl_addr_offset := 0,
           table_entries := t, expn_table_entries := x, index_expn_meta := replicate (unat x) 0,
           rule_id_array := replicate (unat t + unat x) 0, tables := m\<rparr>)"
  shows "drv_inv r" "nat_rules r = Map.empty"
proof -
  have at: "rule_at r e = zero_rule" if "e < tblT r" for e
    using that by (auto simp: rule_at_def assms(5) ipa_nati_reset_tbl_def)
  have wt: "word_at r i = 0" if "i < tblT r" for i
    using that by (auto simp: word_at_def assms(5) ipa_nati_reset_tbl_def)
  have T: "tblN r = unat t" "tblX r = unat x" by (simp_all add: assms(5) ipa_nati_reset_tbl_def)
  have ids: "rule_id_array r ! h = 0" if "h < tblT r" for h
    using that T by (simp add: assms(5) ipa_nati_reset_tbl_def)
  have s: "tbl_sizes_ok r" using assms(1-4) by (simp add: tbl_sizes_ok_def assms(5) ipa_nati_reset_tbl_def)
  have nl: "\<not> live r e" for e using at by (auto simp: live_def)
  have nu: "\<not> used_at r e" if "e < tblT r" for e using at [OF that] by simp
  have "rules_ok r (\<lambda>b. [])" using nu by (auto simp: rules_ok_def buckets_def)
  moreover have "index_ok r (\<lambda>b. [])" using wt by (auto simp: index_ok_def buckets_def)
  moreover have "cross_ok r" using wt nl by (auto simp: cross_ok_def)
  moreover have "ids_ok r" using ids nl by (auto simp: ids_ok_def)
  ultimately show "drv_inv r" using s by (auto simp: drv_inv_def)
  show "nat_rules r = Map.empty"
    using ids by (auto simp: nat_rules_def Let_def fun_eq_iff unat_gt_0)
qed

text \<open>A driver without a table, and its first table.\<close>

definition no_table :: "'k nat_drv \<Rightarrow> bool" where
  "no_table s \<longleftrightarrow> ip4_tbl s = no_tbl \<and> table_cnt s = 0"

lemma pow2_le: "(2 :: nat) ^ k < 2 ^ Suc j \<Longrightarrow> 2 ^ k \<le> (2 :: nat) ^ j"
proof -
  assume "(2 :: nat) ^ k < 2 ^ Suc j"
  then have "k < Suc j" by (rule power_less_imp_less_exp [rotated]) simp
  then show ?thesis by (intro power_increasing) simp_all
qed

lemma table_sizes_small:
  assumes "n \<noteq> 0" "unat n \<le> 20480"
  obtains t x where "table_sizes n = Some (t, x)" "2 \<le> unat t" "unat t \<le> 2 ^ 14" "2 \<le> unat x" "unat x \<le> 2 ^ 14"
proof -
  have n: "unat n \<le> 40960" using assms(2) by simp
  obtain t x k where tx: "table_sizes n = Some (t, x)" "unat t = 2 ^ k" "1 \<le> k"
    "2 < unat t \<longrightarrow> unat t < 2 * (unat n * 4 div 5)" "2 \<le> unat x" "unat x \<le> max 2 (unat n div 5 + 1)"
    using table_sizes_spec [OF assms(1) n] by blast
  have t2: "2 \<le> unat t" using tx(2,3) power_increasing [of 1 k "2::nat"] by simp
  have "unat t < 2 ^ Suc 14" using tx(4) assms(2) by (cases "2 < unat t") auto
  then have "unat t \<le> 2 ^ 14" unfolding tx(2) by (rule pow2_le)
  moreover have "unat x \<le> 2 ^ 14" using tx(6) assms(2) by auto
  ultimately show ?thesis using that tx t2 by blast
qed

lemma alloc_works:
  assumes K: "kernel_works K" and t: "table_sizes n = Some (t, x)"
  shows "\<exists>k. ipa_nati_alloc_table K n s = (Some (t, x, 0), s\<lparr>ipa_fd_open := True, kern := k\<rparr>)"
proof -
  have 1: "fst (k_open_ipa K k)" "fst (k_alloc_nat_mem K m k) = Some 0" for k m
    using K by (auto simp: kernel_works_def)
  obtain k1 where k1: "k_open_ipa K (kern s) = (True, k1)" using 1(1) [of "kern s"] by (cases "k_open_ipa K (kern s)") auto
  obtain k2 where k2: "k_alloc_nat_mem K (nat_mem_size t x) k1 = (Some 0, k2)"
    using 1(2) [of "nat_mem_size t x" k1] by (cases "k_alloc_nat_mem K (nat_mem_size t x) k1") auto
  obtain k3 where k3: "k_alloc_nat_mem K (nat_mem_size t x) (kern s) = (Some 0, k3)"
    using 1(2) [of "nat_mem_size t x" "kern s"] by (cases "k_alloc_nat_mem K (nat_mem_size t x) (kern s)") auto
  show ?thesis
  proof (cases "ipa_fd_open s")
    case True
    then have "ipa_nati_alloc_table K n s = (Some (t, x, 0), s\<lparr>ipa_fd_open := True, kern := k3\<rparr>)"
      by (simp add: ipa_nati_alloc_table_def t k3)
    then show ?thesis by blast
  next
    case False
    then have "ipa_nati_alloc_table K n s = (Some (t, x, 0), s\<lparr>ipa_fd_open := True, kern := k2\<rparr>)"
      by (simp add: ipa_nati_alloc_table_def t k1 k2)
    then show ?thesis by blast
  qed
qed

lemma update_cache_works:
  assumes K: "kernel_works K" and s: "ip4_tbl s = no_tbl"
  shows "\<exists>k. ipa_nati_update_cache K m pub t x 0 s = Some (True, s\<lparr>kern := k, ip4_tbl :=
    no_tbl\<lparr>valid := True, public_addr := pub, tbl_addr_offset := 0, table_entries := t,
      expn_table_entries := x, index_expn_meta := replicate (unat x) 0,
      rule_id_array := replicate (unat t + unat x) 0, tables := m\<rparr>\<rparr>)"
proof -
  have d: "dma_works K" and 1: "fst (k_open_nat K k)" "fst (k_mmap K k)" for k
    using K by (auto simp: kernel_works_def)
  have mal: "\<exists>k'. malloc K z = (True, z\<lparr>kern := k'\<rparr>)" for z by (rule malloc_works [OF d])
  let ?t = "no_tbl\<lparr>valid := True, public_addr := pub, tbl_addr_offset := 0, table_entries := t,
    expn_table_entries := x\<rparr>"
  obtain k1 where k1: "malloc K (s\<lparr>ip4_tbl := ?t\<rparr>) = (True, s\<lparr>ip4_tbl := ?t, kern := k1\<rparr>)"
    using mal [of "s\<lparr>ip4_tbl := ?t\<rparr>"] by blast
  obtain k2 where k2: "malloc K (s\<lparr>ip4_tbl := ?t, kern := k1\<rparr>) = (True, s\<lparr>ip4_tbl := ?t, kern := k2\<rparr>)"
    using mal [of "s\<lparr>ip4_tbl := ?t, kern := k1\<rparr>"] by auto
  obtain k3 where k3: "k_open_nat K k2 = (True, k3)" using 1(1) [of k2] by (cases "k_open_nat K k2") auto
  obtain k4 where k4: "k_mmap K k3 = (True, k4)" using 1(2) [of k3] by (cases "k_mmap K k3") auto
  have e: "index_expn_meta ?t = []" "rule_id_array ?t = []" by (simp_all add: no_tbl_def)
  have "ipa_nati_update_cache K m pub t x 0 s = Some (True, s\<lparr>kern := k4, ip4_tbl :=
    ?t\<lparr>index_expn_meta := replicate (unat x) 0, rule_id_array := replicate (unat t + unat x) 0, tables := m\<rparr>\<rparr>)"
    by (simp only: ipa_nati_update_cache_def Let_def s e k1 k2 k3 k4 if_True if_False simp_thms prod.case
        nat_drv.simps nat_tbl.simps) (simp add: k3 k4)
  then show ?thesis by auto
qed

lemma add_tbl_works:
  assumes K: "kernel_works K" and s: "no_table s" and n: "n \<noteq> 0" "unat n \<le> 20480"
  shows "\<exists>s'. add_ipv4_tbl_drv K m pub n h s = Some (0, 1, s') \<and> drv_inv (ip4_tbl s') \<and>
    nat_rules (ip4_tbl s') = Map.empty \<and> table_cnt s' = 1"
proof -
  from n obtain t x where tx: "table_sizes n = Some (t, x)" "2 \<le> unat t" "unat t \<le> 2 ^ 14" "2 \<le> unat x" "unat x \<le> 2 ^ 14"
    by (rule table_sizes_small)
  obtain s1 where a: "ipa_nati_alloc_table K n s = (Some (t, x, 0), s1)" "ip4_tbl s1 = no_tbl" "table_cnt s1 = 0"
    using alloc_works [OF K tx(1), of s] s by (auto simp: no_table_def)
  define r where "r = no_tbl\<lparr>valid := True, public_addr := pub, tbl_addr_offset := 0, table_entries := t,
      expn_table_entries := x, index_expn_meta := replicate (unat x) 0,
      rule_id_array := replicate (unat t + unat x) 0, tables := m\<rparr>"
  obtain s2 where u: "ipa_nati_update_cache K m pub t x 0 s1 = Some (True, s2)" "ip4_tbl s2 = r" "table_cnt s2 = 0"
    using update_cache_works [OF K a(2), where pub = pub and t = t and x = x and m = m, folded r_def] a(3) by auto
  obtain k where i: "k_init_nat K (init_cmd (ipa_nati_reset_tbl r)) (kern s2) = (True, k)"
    using K unfolding kernel_works_def by (metis prod.collapse)
  have "add_ipv4_tbl_drv K m pub n h s =
    Some (0, 1, s2\<lparr>ip4_tbl := ipa_nati_reset_tbl r, kern := k, table_cnt := 1\<rparr>)"
    using n(1) by (simp add: add_ipv4_tbl_drv_def ipa_nati_add_ipv4_tbl_def a u i)
  moreover have "drv_inv (ipa_nati_reset_tbl r)" "nat_rules (ipa_nati_reset_tbl r) = Map.empty"
    using reset_sizes_ok [OF tx(2-5) refl, where pub = pub and m = m] unfolding r_def by simp_all
  ultimately show ?thesis by simp
qed

end
