(* ===== verification/NatDrvRun.thy ===== *)
theory NatDrvRun
  imports NatDrvProps
begin

text \<open>The calls on a table of the NAT driver, one after the other, and what the hardware finds.\<close>

section \<open>Calls\<close>

datatype nat_op = AddRule ipa_nat_ipv4_rule | DelRule u32 | QueryTime u32

fun drv_step :: "'k nat_kernel \<Rightarrow> nat_op \<Rightarrow> 'k nat_drv \<Rightarrow> (int32 \<times> u32 \<times> 'k nat_drv) option" where
  "drv_step K (AddRule c) s = add_ipv4_rule_drv K 1 c 0 s"
| "drv_step K (DelRule h) s = map_option (\<lambda>(rc, s). (rc, 0, s)) (del_ipv4_rule_drv K 1 h s)"
| "drv_step K (QueryTime h) s = query_timestamp_drv 1 h 0 s"

fun drv_run ::
  "'k nat_kernel \<Rightarrow> nat_op list \<Rightarrow> 'k nat_drv \<Rightarrow> ((int32 \<times> u32) list \<times> 'k nat_drv) option" where
  "drv_run K [] s = Some ([], s)"
| "drv_run K (op # ops) s =
    (case drv_step K op s of
       None \<Rightarrow> None
     | Some (rc, h, s) \<Rightarrow> map_option (\<lambda>(rs, s). ((rc, h) # rs, s)) (drv_run K ops s))"

text \<open>
  The contract: a map from handles to rules. A reply it does not allow is \<open>None\<close>. A rule is added
  under a handle that was free, or refused; a handle that is there is deleted, another refused. The
  query of a handle that is there succeeds; of another the contract says nothing (the code answers
  it with the time stamp of a rule that is not its own). No query changes the map.
\<close>

fun spec_step ::
  "nat_op \<Rightarrow> int32 \<times> u32 \<Rightarrow> (u32 \<Rightarrow> ipa_nat_ipv4_rule option) \<Rightarrow> (u32 \<Rightarrow> ipa_nat_ipv4_rule option) option" where
  "spec_step (AddRule c) (rc, h) M =
    (if rc = 0 \<and> h \<noteq> 0 \<and> M h = None then Some (M(h \<mapsto> c)) else if rc = - EINVAL then Some M else None)"
| "spec_step (DelRule h) (rc, _) M =
    (if M h = None then (if rc = - EINVAL then Some M else None)
     else if rc = 0 then Some (M(h := None)) else None)"
| "spec_step (QueryTime h) (rc, _) M = (if M h = None \<or> rc = 0 then Some M else None)"

fun spec_run ::
  "nat_op list \<Rightarrow> (int32 \<times> u32) list \<Rightarrow> (u32 \<Rightarrow> ipa_nat_ipv4_rule option) \<Rightarrow>
   (u32 \<Rightarrow> ipa_nat_ipv4_rule option) option" where
  "spec_run [] [] M = Some M"
| "spec_run (op # ops) (r # rs) M = Option.bind (spec_step op r M) (spec_run ops rs)"
| "spec_run _ _ M = None"

text \<open>
  The calls that are covered: protocols but 0xFF, which marks a deleted head, handles of 16 bits,
  and for queries handles other than 0. Outside them the code does not check its argument: a larger
  handle is truncated in one place and indexes past the array in another, and the handle 0 indexes
  before it.
\<close>

fun op_ok :: "nat_op \<Rightarrow> bool" where
  "op_ok (AddRule c) = (r_protocol c \<noteq> 0xFF)"
| "op_ok (DelRule h) = (unat h < 2 ^ 16)"
| "op_ok (QueryTime h) = (h \<noteq> 0 \<and> unat h < 2 ^ 16)"

lemma nat_rules_range: "nat_rules t h = Some c \<Longrightarrow> h \<noteq> 0 \<and> unat h < tblT t"
  by (auto simp: nat_rules_def split: if_splits)

text \<open>A query of a handle that is not there answers the time stamp of entry 0.\<close>

lemma query_works:
  assumes "drv_inv (ip4_tbl s)" "h \<noteq> 0" "unat h < 2 ^ 16"
  shows "\<exists>ts. query_timestamp_drv 1 h ts0 s = Some (0, ts, s)"
proof -
  let ?t = "ip4_tbl s"
  have t: "tbl_sizes_ok ?t" "ids_ok ?t" using assms(1) by (auto simp: drv_inv_def)
  note z = tbl_sizes_okD [OF t(1)]
  obtain x e where p: "ipa_nati_parse_ipv4_rule_hdl ?t (ucast h) = Some (x, e)"
    "unat e < (if x then tblX ?t else tblN ?t)"
  proof (cases "nat_rules ?t h")
    case None
    from parse_unknown [OF t(1) None assms(2,3)] z(1) show ?thesis using that [of False 0] by simp
  next
    case (Some c)
    have hu: "unat (ucast h :: u16) = unat h"
      using assms(3) by (simp add: unsigned_ucast_eq take_bit_nat_eq_self)
    then have h: "(ucast h :: u16) \<noteq> 0" using assms(2) by (metis unat_eq_zero)
    from nat_rules_cases [OF t Some] obtain n where n: "live ?t n"
      "rule_id_array ?t ! (unat h - 1) = rule_id ?t n" "unat h < tblT ?t" by blast
    then have nt: "n < tblT ?t" by (simp add: live_def)
    have k: "unat (of_nat (if n < tblN ?t then n else n - tblN ?t) :: u16) =
        (if n < tblN ?t then n else n - tblN ?t)"
      using nt z(2,4) by (simp add: unat_of_nat take_bit_nat_eq_self)
    have q: "ipa_nati_parse_ipv4_rule_hdl ?t (ucast h) =
        Some (\<not> n < tblN ?t, of_nat (if n < tblN ?t then n else n - tblN ?t))"
      by (rule parse_rule_id [OF t(1) nt h]) (use n hu in simp_all)
    show ?thesis by (rule that [OF q]) (use nt k in auto)
  qed
  have "\<exists>r. rd (if x then expn_rules (tables ?t) else base_rules (tables ?t)) (unat e) = Some r"
    using p(2) z(5,6) by (auto simp: rd_def split: if_splits)
  then obtain r where "rd (if x then expn_rules (tables ?t) else base_rules (tables ?t)) (unat e) = Some r" ..
  then show ?thesis using p(1) z(12)
    by (simp add: query_timestamp_drv_def ipa_nati_query_timestamp_def get_tbl_def)
qed

lemma EINVAL_nonzero: "- EINVAL \<noteq> 0" "EINVAL \<noteq> 0"
  by (simp_all add: EINVAL_def)

lemma drv_step_refines:
  assumes K: "dma_works K" and inv: "drv_inv (ip4_tbl s)" and op: "op_ok op"
  shows "\<exists>rc h s' . drv_step K op s = Some (rc, h, s') \<and> drv_inv (ip4_tbl s') \<and>
    spec_step op (rc, h) (nat_rules (ip4_tbl s)) = Some (nat_rules (ip4_tbl s')) \<and>
    (\<exists>t k. s' = s\<lparr>ip4_tbl := t, kern := k\<rparr>)"
proof -
  have same: "\<exists>t k. s = s\<lparr>ip4_tbl := t, kern := k\<rparr>"
    by (intro exI [of _ "ip4_tbl s"] exI [of _ "kern s"]) simp
  show ?thesis
  proof (cases op)
    case (AddRule c)
    then have "r_protocol c \<noteq> 0xFF" using op by simp
    note add = add_rule_refines [OF K inv this, of 0]
    show ?thesis
    proof (cases "nat_full (ip4_tbl s) c")
      case True
      with add show ?thesis using AddRule inv same by (simp add: add_ipv4_rule_drv_def EINVAL_nonzero)
    next
      case False
      with add obtain hdl s' where "ipa_nati_add_ipv4_rule K c 0 s = Some (0, hdl, s')" "drv_inv (ip4_tbl s')"
        "nat_rules (ip4_tbl s) hdl = None" "nat_rules (ip4_tbl s') = (nat_rules (ip4_tbl s))(hdl \<mapsto> c)"
        "hdl \<noteq> 0" "\<exists>t k. s' = s\<lparr>ip4_tbl := t, kern := k\<rparr>" by (simp only: if_False) blast
      then show ?thesis using AddRule by (simp add: add_ipv4_rule_drv_def)
    qed
  next
    case (DelRule h)
    then have h: "unat h < 2 ^ 16" using op by simp
    show ?thesis
    proof (cases "nat_rules (ip4_tbl s) h")
      case None
      then have "del_ipv4_rule_drv K 1 h s = Some (- EINVAL, s)"
        using del_rule_unknown [OF inv None _ h] by (simp add: del_ipv4_rule_drv_def)
      then show ?thesis using DelRule None inv same by simp
    next
      case (Some c)
      then have "h \<noteq> 0" using nat_rules_range by blast
      moreover obtain s' where "ipa_nati_del_ipv4_rule K 1 h s = Some (0, s')" "drv_inv (ip4_tbl s')"
        "nat_rules (ip4_tbl s') = (nat_rules (ip4_tbl s))(h := None)"
        "\<exists>t k. s' = s\<lparr>ip4_tbl := t, kern := k\<rparr>"
        using del_rule_refines [OF K inv Some] by blast
      ultimately show ?thesis using DelRule Some by (simp add: del_ipv4_rule_drv_def)
    qed
  next
    case (QueryTime h)
    then obtain ts where "query_timestamp_drv 1 h 0 s = Some (0, ts, s)"
      using op query_works [OF inv, of h 0] by auto
    then show ?thesis using QueryTime inv same by simp
  qed
qed

lemma drv_run_refines:
  assumes K: "dma_works K"
  shows "drv_inv (ip4_tbl s) \<Longrightarrow> list_all op_ok ops \<Longrightarrow>
    \<exists>rs s'. drv_run K ops s = Some (rs, s') \<and> drv_inv (ip4_tbl s') \<and>
      spec_run ops rs (nat_rules (ip4_tbl s)) = Some (nat_rules (ip4_tbl s'))"
proof (induction ops arbitrary: s)
  case (Cons op ops)
  from Cons.prems(2) have "op_ok op" "list_all op_ok ops" by simp_all
  then obtain rc h s1 where s1: "drv_step K op s = Some (rc, h, s1)" "drv_inv (ip4_tbl s1)"
    "spec_step op (rc, h) (nat_rules (ip4_tbl s)) = Some (nat_rules (ip4_tbl s1))"
    using drv_step_refines [OF K Cons.prems(1), of op] by blast
  then obtain rs s' where "drv_run K ops s1 = Some (rs, s')" "drv_inv (ip4_tbl s')"
    "spec_run ops rs (nat_rules (ip4_tbl s1)) = Some (nat_rules (ip4_tbl s'))"
    using Cons.IH [OF s1(2) \<open>list_all op_ok ops\<close>] by blast
  then show ?case using s1 by (intro exI [of _ "(rc, h) # rs"] exI [of _ s']) simp
qed simp

section \<open>What the hardware finds\<close>

text \<open>
  A packet is translated by the rule that the chain of its hash leads to: packets from outside by
  the chain of rules, packets from a client by the chain of the index.
\<close>

fun walk :: "nat \<Rightarrow> (nat \<Rightarrow> bool) \<Rightarrow> (nat \<Rightarrow> nat) \<Rightarrow> nat \<Rightarrow> nat list" where
  "walk 0 used nxt x = []"
| "walk (Suc n) used nxt x = (if x = 0 \<or> \<not> used x then [] else x # walk n used nxt (nxt x))"

definition dst_lookup :: "nat_tbl \<Rightarrow> ipa_nat_ipv4_rule \<Rightarrow> nat list" where
  "dst_lookup t c =
    filter (\<lambda>e. client_of (rule_at t e) = c) (walk (tblT t) (used_at t) (next_at t) (dst_bucket t c))"

definition src_lookup :: "nat_tbl \<Rightarrow> ipa_nat_ipv4_rule \<Rightarrow> nat list" where
  "src_lookup t c =
    filter (\<lambda>e. client_of (rule_at t e) = c)
      (map (ent_at t) (walk (tblT t) (\<lambda>i. ent_at t i \<noteq> 0) (inext_at t) (src_bucket t c)))"

lemma walk_zero [simp]: "walk n used nxt 0 = []"
  by (cases n) auto

lemma walk_chain:
  "chained nxt prv xs \<Longrightarrow> xs \<noteq> [] \<Longrightarrow> \<forall>x \<in> set xs. x \<noteq> 0 \<and> used x \<Longrightarrow> length xs \<le> n \<Longrightarrow>
   walk n used nxt (hd xs) = xs"
proof (induction nxt prv xs arbitrary: n rule: chained.induct)
  case (2 nxt prv x)
  then show ?case by (cases n) auto
next
  case (3 nxt prv x y xs)
  then show ?case by (cases n) auto
qed simp

lemma bucket_range:
  assumes B: "buckets N T used nxt prv C" and x: "x \<in> set (C b)" and T: "N < T"
  shows "x < T"
proof -
  have "C b \<noteq> []" using x by auto
  then have "0 < b \<and> b < N \<and> used b" by (rule bucketsD(7) [OF B])
  with bucketsD(6) [OF B, of b] obtain xs where "C b = b # xs" "set xs \<subseteq> {N<..<T}" by blast
  then show ?thesis using x T \<open>0 < b \<and> b < N \<and> used b\<close> by auto
qed

lemma walk_bucket:
  assumes B: "buckets N T used nxt prv C" and b: "0 < b" "b < N" "N < T"
  shows "walk T used nxt b = C b"
proof (cases "used b")
  case True
  obtain xs where xs: "C b = b # xs" "set xs \<subseteq> {N<..<T}" using bucketsD(6) [OF B b(1,2) True] by blast
  have "set (C b) \<subseteq> {0<..<T}" using xs b by auto
  then have "length (C b) \<le> T - 1"
    using card_mono [of "{0<..<T}" "set (C b)"] bucketsD(2) [OF B, of b] by (simp add: distinct_card)
  moreover have "\<forall>x \<in> set (C b). x \<noteq> 0 \<and> used x"
    using bucketsD(3) [OF B] \<open>set (C b) \<subseteq> {0<..<T}\<close> by auto
  ultimately show ?thesis using walk_chain [OF bucketsD(1) [OF B], of b used T] xs(1) by simp
next
  case False
  then have "C b = []" using bucketsD(7) [OF B] by blast
  then show ?thesis using False by (cases T) auto
qed

lemma ran_nat_rules:
  assumes "tbl_sizes_ok t" "ids_ok t" and C: "\<exists>C. rules_ok t C"
  shows "c \<in> ran (nat_rules t) \<longleftrightarrow> (\<exists>e. live t e \<and> client_of (rule_at t e) = c)"
proof
  assume "c \<in> ran (nat_rules t)"
  then obtain h where "nat_rules t h = Some c" by (auto simp: ran_def)
  from nat_rules_cases [OF assms(1,2) this] show "\<exists>e. live t e \<and> client_of (rule_at t e) = c" by blast
next
  assume "\<exists>e. live t e \<and> client_of (rule_at t e) = c"
  then obtain e where e: "live t e" "client_of (rule_at t e) = c" by blast
  note z = tbl_sizes_okD [OF assms(1)]
  obtain n where n: "n < tblT t" "rule_id_array t ! n = rule_id t e" using ids_okD(4) [OF assms(2) e(1)] by blast
  have et: "e < tblT t" using e(1) by (simp add: live_def)
  have nz: "rule_id t e \<noteq> 0 \<and> n + 1 < tblT t"
  proof -
    obtain C where "rules_ok t C" using C by blast
    then have "rule_id t e \<noteq> 0" using rule_id_nonzero [OF assms(1) et] live_entry e(1) by blast
    then show ?thesis using ids_okD(1) [OF assms(2) n(1)] n(2) by simp
  qed
  have u: "unat (of_nat (n + 1) :: u32) = n + 1"
    using nz z(2,4) by (simp only: unat_of_nat) (simp add: take_bit_nat_eq_self)
  then have "(of_nat (n + 1) :: u32) \<noteq> 0" by (metis add_is_0 one_neq_zero unat_0)
  then have "nat_rules t (of_nat (n + 1)) = Some c"
    unfolding nat_rules_def u using nz n(2) e(2) entry_of_rule_id [OF assms(1) et] by simp
  then show "c \<in> ran (nat_rules t)" by (rule ranI)
qed

lemma dst_lookup_rules:
  assumes "drv_inv t" "r_protocol c \<noteq> 0xFF"
  shows "dst_lookup t c \<noteq> [] \<longleftrightarrow> c \<in> ran (nat_rules t)"
proof -
  obtain C where C: "rules_ok t C" and t: "tbl_sizes_ok t" "ids_ok t" using assms(1) unfolding drv_inv_def by blast
  have B: "buckets (tblN t) (tblT t) (used_at t) (next_at t) (prev_at t) C" using C by (simp add: rules_ok_def)
  have b: "0 < dst_bucket t c" "dst_bucket t c < tblN t" "tblN t < tblT t"
    using tbl_sizes_okD(3) [OF t(1)] unfolding dst_bucket_def by (auto intro: hash_in_table [OF t(1)])
  have eq: "dst_lookup t c = filter (\<lambda>e. client_of (rule_at t e) = c) (C (dst_bucket t c))"
    by (simp only: dst_lookup_def walk_bucket [OF B b])
  have bk: "e \<in> set (C (dst_bucket t c))" if "live t e" "client_of (rule_at t e) = c" for e
  proof -
    have "\<exists>b. e \<in> set (C b)"
      using bucket_of [OF B, of e] that(1) live_entry [OF C that(1)] by (auto simp: live_def)
    then obtain b where "e \<in> set (C b)" ..
    moreover from this have "dst_bucket t (client_of (rule_at t e)) = b"
      using C that(1) by (simp add: rules_ok_def)
    ultimately show ?thesis using that(2) by simp
  qed
  have lv: "live t e" if "e \<in> set (C (dst_bucket t c))" "client_of (rule_at t e) = c" for e
  proof -
    have "proto_of (rule_at t e) = r_protocol c" using that(2) by (auto simp: client_of_def)
    moreover have "used_at t e" using bucketsD(3) [OF B that(1)] .
    moreover have "e < tblT t" by (rule bucket_range [OF B that(1) b(3)])
    ultimately show ?thesis using assms(2) by (simp add: live_def)
  qed
  have "dst_lookup t c \<noteq> [] \<longleftrightarrow> (\<exists>e. live t e \<and> client_of (rule_at t e) = c)"
    unfolding eq filter_empty_conv using bk lv by blast
  then show ?thesis using C by (simp add: ran_nat_rules [OF t exI [of _ C]])
qed

lemma src_lookup_rules:
  assumes "drv_inv t"
  shows "src_lookup t c \<noteq> [] \<longleftrightarrow> c \<in> ran (nat_rules t)"
proof -
  obtain C D where C: "rules_ok t C" and D: "index_ok t D" and x: "cross_ok t" and t: "tbl_sizes_ok t" "ids_ok t"
    using assms(1) unfolding drv_inv_def by blast
  have B: "buckets (tblN t) (tblT t) (\<lambda>i. ent_at t i \<noteq> 0) (inext_at t) (iprev_at t) D"
    using D by (simp add: index_ok_def)
  have b: "0 < src_bucket t c" "src_bucket t c < tblN t" "tblN t < tblT t"
    using tbl_sizes_okD(3) [OF t(1)] unfolding src_bucket_def by (auto intro: hash_in_table [OF t(1)])
  have eq: "src_lookup t c =
      filter (\<lambda>e. client_of (rule_at t e) = c) (map (ent_at t) (D (src_bucket t c)))"
    by (simp only: src_lookup_def walk_bucket [OF B b])
  have bk: "indx_at t e \<in> set (D (src_bucket t c)) \<and> ent_at t (indx_at t e) = e"
    if "live t e" "client_of (rule_at t e) = c" for e
  proof -
    have i: "indx_at t e < tblT t" "ent_at t (indx_at t e) = e" using x that(1) by (auto simp: cross_ok_def)
    moreover have "e \<noteq> 0" using live_entry [OF C that(1)] by simp
    ultimately have "indx_at t e \<noteq> 0 \<and> indx_at t e \<noteq> tblN t" "ent_at t (indx_at t e) \<noteq> 0"
      using D unfolding index_ok_def by simp_all
    then have "\<exists>b. indx_at t e \<in> set (D b)"
      by (intro bucket_of [OF B]) (use i in simp_all)
    then obtain b where "indx_at t e \<in> set (D b)" ..
    moreover from this have "src_bucket t (client_of (rule_at t (ent_at t (indx_at t e)))) = b"
      using D unfolding index_ok_def by blast
    ultimately show ?thesis using i(2) that(2) by simp
  qed
  have lv: "live t (ent_at t i)" if "i \<in> set (D (src_bucket t c))" for i
  proof -
    have "i < tblT t" by (rule bucket_range [OF B that b(3)])
    then show ?thesis using x bucketsD(3) [OF B that] by (auto simp: cross_ok_def)
  qed
  have "src_lookup t c \<noteq> [] \<longleftrightarrow> (\<exists>e. live t e \<and> client_of (rule_at t e) = c)"
  proof
    assume "src_lookup t c \<noteq> []"
    then obtain i where "i \<in> set (D (src_bucket t c))" "client_of (rule_at t (ent_at t i)) = c"
      unfolding eq filter_empty_conv set_map by blast
    then show "\<exists>e. live t e \<and> client_of (rule_at t e) = c" using lv by blast
  next
    assume "\<exists>e. live t e \<and> client_of (rule_at t e) = c"
    then obtain e where e: "live t e" "client_of (rule_at t e) = c" by blast
    have "e \<in> ent_at t ` set (D (src_bucket t c))" using bk [OF e] by (metis imageI)
    then show "src_lookup t c \<noteq> []" using e(2) unfolding eq filter_empty_conv set_map by blast
  qed
  then show ?thesis using C by (simp add: ran_nat_rules [OF t exI [of _ C]])
qed

end
