(* ===== verification/NatHw.thy ===== *)
theory NatHw
  imports NatProps NatDrvRun
begin

text \<open>
  The NAT cache over a NAT driver that keeps a contract: while there is a table, the hardware holds
  exactly the connections that the cache has marked \<open>enabled\<close>, each under the handle in its slot.
\<close>

section \<open>Agreement\<close>

text \<open>The first \<open>k\<close> slots and the rules of the driver.\<close>

definition hw_agrees ::
  "nat \<Rightarrow> (u32 \<Rightarrow> ipa_nat_ipv4_rule option) \<Rightarrow> nat_table_entry list \<Rightarrow> bool" where
  "hw_agrees k R es \<longleftrightarrow>
     (\<forall>i < k. enabled (es ! i) \<longrightarrow> R (rule_hdl (es ! i)) = Some (nat_rule_of (es ! i))) \<and>
     (\<forall>i < k. \<forall>j < k. enabled (es ! i) \<longrightarrow> enabled (es ! j) \<longrightarrow>
        rule_hdl (es ! i) = rule_hdl (es ! j) \<longrightarrow> i = j) \<and>
     (\<forall>h. R h \<noteq> None \<longrightarrow> (\<exists>i < k. enabled (es ! i) \<and> rule_hdl (es ! i) = h))"

lemma hw_agreesD:
  assumes "hw_agrees k R es"
  shows "i < k \<Longrightarrow> enabled (es ! i) \<Longrightarrow> R (rule_hdl (es ! i)) = Some (nat_rule_of (es ! i))"
    "i < k \<Longrightarrow> j < k \<Longrightarrow> enabled (es ! i) \<Longrightarrow> enabled (es ! j) \<Longrightarrow> rule_hdl (es ! i) = rule_hdl (es ! j) \<Longrightarrow> i = j"
    "R h \<noteq> None \<Longrightarrow> \<exists>i < k. enabled (es ! i) \<and> rule_hdl (es ! i) = h"
  using assms unfolding hw_agrees_def by blast+

lemma hw_agreesI:
  assumes "\<And>i. i < k \<Longrightarrow> enabled (es ! i) \<Longrightarrow> R (rule_hdl (es ! i)) = Some (nat_rule_of (es ! i))"
    and "\<And>i j. i < k \<Longrightarrow> j < k \<Longrightarrow> enabled (es ! i) \<Longrightarrow> enabled (es ! j) \<Longrightarrow>
      rule_hdl (es ! i) = rule_hdl (es ! j) \<Longrightarrow> i = j"
    and "\<And>h. R h \<noteq> None \<Longrightarrow> \<exists>i < k. enabled (es ! i) \<and> rule_hdl (es ! i) = h"
  shows "hw_agrees k R es"
  using assms unfolding hw_agrees_def by blast

lemma hw_agrees_empty:
  "(\<And>i. i < k \<Longrightarrow> \<not> enabled (es ! i)) \<Longrightarrow> hw_agrees k Map.empty es"
  by (simp add: hw_agrees_def)

text \<open>A slot that stays as it is, one that leaves the hardware, and one that enters it.\<close>

lemma hw_agrees_same:
  assumes "hw_agrees k R es" "k \<le> length es" "i < length es"
    and "enabled e = enabled (es ! i)"
    "enabled e \<Longrightarrow> rule_hdl e = rule_hdl (es ! i) \<and> nat_rule_of e = nat_rule_of (es ! i)"
  shows "hw_agrees k R (es[i := e])"
proof (rule hw_agreesI)
  have e: "enabled (es[i := e] ! j) = enabled (es ! j)" for j
    using assms(3,4) by (simp add: nth_list_update)
  have h: "rule_hdl (es[i := e] ! j) = rule_hdl (es ! j)" "nat_rule_of (es[i := e] ! j) = nat_rule_of (es ! j)"
    if "enabled (es ! j)" for j
    using assms(3-5) that by (auto simp: nth_list_update)
  note D = hw_agreesD [OF assms(1)]
  show "R (rule_hdl (es[i := e] ! j)) = Some (nat_rule_of (es[i := e] ! j))"
    if "j < k" "enabled (es[i := e] ! j)" for j
    using that D(1) h unfolding e by simp
  show "j = l" if "j < k" "l < k" "enabled (es[i := e] ! j)" "enabled (es[i := e] ! l)"
    "rule_hdl (es[i := e] ! j) = rule_hdl (es[i := e] ! l)" for j l
    using that D(2) h(1) unfolding e by simp
  show "\<exists>j < k. enabled (es[i := e] ! j) \<and> rule_hdl (es[i := e] ! j) = x" if x: "R x \<noteq> None" for x
  proof -
    obtain j where "j < k" "enabled (es ! j)" "rule_hdl (es ! j) = x" using D(3) [OF x] by blast
    then show ?thesis using e h(1) by (intro exI [of _ j]) simp
  qed
qed

lemma hw_agrees_off:
  assumes "hw_agrees k R es" "k \<le> length es" "i < k" "enabled (es ! i)" "\<not> enabled e"
  shows "hw_agrees k (R(rule_hdl (es ! i) := None)) (es[i := e])"
proof -
  note D = hw_agreesD [OF assms(1)]
  have u: "es[i := e] ! i = e" "j \<noteq> i \<Longrightarrow> es[i := e] ! j = es ! j" for j
    using assms(2,3) by simp_all
  show ?thesis unfolding hw_agrees_def
  proof (intro conjI allI impI)
    fix j assume j: "j < k" "enabled (es[i := e] ! j)"
    then have ne: "j \<noteq> i" using u(1) assms(5) by metis
    then have "rule_hdl (es ! j) \<noteq> rule_hdl (es ! i)" using D(2) [OF j(1) assms(3)] j(2) u(2) assms(4) by auto
    then show "(R(rule_hdl (es ! i) := None)) (rule_hdl (es[i := e] ! j)) = Some (nat_rule_of (es[i := e] ! j))"
      using D(1) [OF j(1)] j(2) u(2) [OF ne] by simp
  next
    fix j l assume j: "j < k" "l < k" "enabled (es[i := e] ! j)" "enabled (es[i := e] ! l)"
      "rule_hdl (es[i := e] ! j) = rule_hdl (es[i := e] ! l)"
    then have "j \<noteq> i" "l \<noteq> i" using u(1) assms(5) by metis+
    then show "j = l" using D(2) [OF j(1,2)] j u(2) by simp
  next
    fix h assume "(R(rule_hdl (es ! i) := None)) h \<noteq> None"
    then have h: "R h \<noteq> None" "h \<noteq> rule_hdl (es ! i)" by (auto split: if_splits)
    then obtain j where j: "j < k" "enabled (es ! j)" "rule_hdl (es ! j) = h" using D(3) by blast
    then have "j \<noteq> i" using h(2) by blast
    then show "\<exists>j < k. enabled (es[i := e] ! j) \<and> rule_hdl (es[i := e] ! j) = h" using j u(2) by auto
  qed
qed

lemma hw_agrees_on:
  assumes "hw_agrees k R es" "k \<le> length es" "i < k" "\<not> enabled (es ! i)" "R (rule_hdl e) = None" "enabled e"
  shows "hw_agrees k (R(rule_hdl e \<mapsto> nat_rule_of e)) (es[i := e])"
proof -
  note D = hw_agreesD [OF assms(1)]
  have u: "es[i := e] ! i = e" "j \<noteq> i \<Longrightarrow> es[i := e] ! j = es ! j" for j
    using assms(2,3) by simp_all
  have ne: "rule_hdl (es ! j) \<noteq> rule_hdl e" if "j < k" "enabled (es ! j)" for j
    using D(1) [OF that] assms(5) by auto
  show ?thesis unfolding hw_agrees_def
  proof (intro conjI allI impI)
    fix j assume j: "j < k" "enabled (es[i := e] ! j)"
    show "(R(rule_hdl e \<mapsto> nat_rule_of e)) (rule_hdl (es[i := e] ! j)) = Some (nat_rule_of (es[i := e] ! j))"
      by (cases "j = i") (use D(1) [OF j(1)] j u ne in auto)
  next
    fix j l assume j: "j < k" "l < k" "enabled (es[i := e] ! j)" "enabled (es[i := e] ! l)"
      "rule_hdl (es[i := e] ! j) = rule_hdl (es[i := e] ! l)"
    show "j = l"
    proof (rule ccontr)
      assume jl: "j \<noteq> l"
      consider "j = i" | "l = i" | "j \<noteq> i" "l \<noteq> i" by blast
      then show False
      proof cases
        case 1
        then show False using ne [of l] j u jl by simp
      next
        case 2
        then show False using ne [of j] j u jl by simp
      next
        case 3
        then show False using D(2) [OF j(1,2)] j u(2) jl by simp
      qed
    qed
  next
    fix h assume h: "(R(rule_hdl e \<mapsto> nat_rule_of e)) h \<noteq> None"
    show "\<exists>j < k. enabled (es[i := e] ! j) \<and> rule_hdl (es[i := e] ! j) = h"
    proof (cases "h = rule_hdl e")
      case True
      then show ?thesis using u(1) assms(3,6) by (intro exI [of _ i]) simp
    next
      case False
      then obtain j where "j < k" "enabled (es ! j)" "rule_hdl (es ! j) = h" using D(3) h by auto
      moreover from this have "j \<noteq> i" using assms(4) by blast
      ultimately show ?thesis using u(2) by (intro exI [of _ j]) simp
    qed
  qed
qed

text \<open>One more slot.\<close>

lemma hw_agrees_cong:
  assumes "hw_agrees k R es" "\<And>j. j < k \<Longrightarrow> es' ! j = es ! j"
  shows "hw_agrees k R es'"
  by (rule hw_agreesI) (use hw_agreesD [OF assms(1)] assms(2) in \<open>simp_all, fastforce\<close>)

lemma hw_agrees_past: "hw_agrees i R es \<Longrightarrow> hw_agrees i R (es[i := e])"
  by (erule hw_agrees_cong) simp

lemma hw_agrees_Suc:
  assumes "hw_agrees i R es" "\<not> enabled (es ! i)"
  shows "hw_agrees (Suc i) R es"
proof (rule hw_agreesI)
  note D = hw_agreesD [OF assms(1)]
  have lt: "j < i" if "j < Suc i" "enabled (es ! j)" for j
    using that assms(2) by (cases "j = i") auto
  show "R (rule_hdl (es ! j)) = Some (nat_rule_of (es ! j))" if "j < Suc i" "enabled (es ! j)" for j
    using D(1) lt that by blast
  show "j = l" if "j < Suc i" "l < Suc i" "enabled (es ! j)" "enabled (es ! l)"
    "rule_hdl (es ! j) = rule_hdl (es ! l)" for j l
    using D(2) lt that by blast
  show "\<exists>j < Suc i. enabled (es ! j) \<and> rule_hdl (es ! j) = h" if "R h \<noteq> None" for h
    using D(3) [OF that] less_SucI by blast
qed

section \<open>The contract of the driver\<close>

text \<open>
  \<open>R\<close> is the rules in the driver's table, \<open>ready\<close> and \<open>absent\<close> the states with a table and
  without, \<open>fits\<close> the sizes it can make. Handle 1 is the table's, 0 the cache's for none.
\<close>

locale nat_contract =
  fixes D :: "'d nat_driver"
    and R :: "'d \<Rightarrow> u32 \<Rightarrow> ipa_nat_ipv4_rule option"
    and ready :: "'d \<Rightarrow> bool"
    and absent :: "'d \<Rightarrow> bool"
    and fits :: "u16 \<Rightarrow> bool"
  assumes create: "absent d \<Longrightarrow> fits n \<Longrightarrow>
      \<exists>d'. ipa_nat_add_ipv4_tbl D ip n h d = (0, 1, d') \<and> ready d' \<and> R d' = Map.empty"
    and remove: "ready d \<Longrightarrow> \<exists>d'. ipa_nat_del_ipv4_tbl D 1 d = (0, d') \<and> absent d'"
    and add: "ready d \<Longrightarrow> r_protocol c \<noteq> 0xFF \<Longrightarrow>
      \<exists>rc hdl d'. ipa_nat_add_ipv4_rule D 1 c h d = (rc, hdl, d') \<and> ready d' \<and>
        (if rc <s 0 then R d' = R d else R d hdl = None \<and> R d' = (R d)(hdl \<mapsto> c))"
    and delete: "ready d \<Longrightarrow> R d h = Some c \<Longrightarrow>
      \<exists>d'. ipa_nat_del_ipv4_rule D 1 h d = (0, d') \<and> ready d' \<and> R d' = (R d)(h := None)"
    and query: "ready d \<Longrightarrow> R d h = Some c \<Longrightarrow>
      \<exists>rc ts d'. ipa_nat_query_timestamp D 1 h ts0 d = (rc, ts, d') \<and> ready d' \<and> R d' = R d"
    and tracker: "ready d \<Longrightarrow> ready (snd (nfct_open D d)) \<and> R (snd (nfct_open D d)) = R d"
      "ready d \<Longrightarrow> ready (snd (nfct_new D d)) \<and> R (snd (nfct_new D d)) = R d"
      "ready d \<Longrightarrow> ready (snd (nfct_query_update D u d)) \<and> R (snd (nfct_query_update D u d)) = R d"
    and idle: "absent d \<Longrightarrow> \<exists>rc hdl. ipa_nat_add_ipv4_rule D 0 c h d = (rc, hdl, d) \<and> rc <s 0"
      "absent d \<Longrightarrow> \<exists>rc. ipa_nat_del_ipv4_rule D 0 h d = (rc, d) \<and> rc <s 0"
      "absent d \<Longrightarrow> \<exists>rc ts. ipa_nat_query_timestamp D 0 h ts0 d = (rc, ts, d) \<and> rc <s 0"

text \<open>The slots, the pending connections, and the two states of the cache.\<close>

definition slot_fine :: "nat_table_entry \<Rightarrow> bool" where
  "slot_fine e \<longleftrightarrow> protocol e \<noteq> 0xFF \<and> (private_ip e = 0 \<longrightarrow> \<not> enabled e)"

definition slots_fine :: "'d nat_app \<Rightarrow> bool" where
  "slots_fine s \<longleftrightarrow> list_all slot_fine (cache s) \<and> (\<forall>e \<in> set (temp s). protocol e \<noteq> 0xFF)"

lemma slots_fine_set: "slots_fine s \<Longrightarrow> slot_fine e \<Longrightarrow> slots_fine (set_slot i e s)"
  by (auto simp: slots_fine_def set_slot_def list_all_iff dest: set_update_subset_insert [THEN subsetD])

lemma slots_fine_drv [simp]: "slots_fine (s\<lparr>drv := d\<rparr>) = slots_fine s"
  by (simp add: slots_fine_def)

text \<open>The events of a WAN link with the address \<open>a\<close>.\<close>

definition wan_event :: "u32 \<Rightarrow> ct_event \<Rightarrow> bool" where
  "wan_event a e \<longleftrightarrow> (case e of EvtWanUp ip sta \<Rightarrow> ip = a | EvtWanDown ip \<Rightarrow> ip = a | _ \<Rightarrow> True)"

context nat_contract
begin

definition up :: "u32 \<Rightarrow> 'd nat_app \<Rightarrow> bool" where
  "up a s \<longleftrightarrow> ready (drv s) \<and> nat_table_hdl s = 1 \<and> pub_ip_addr s = a \<and> slots_fine s \<and>
     hw_agrees (length (cache s)) (R (drv s)) (cache s)"

definition down :: "u32 \<Rightarrow> 'd nat_app \<Rightarrow> bool" where
  "down a s \<longleftrightarrow> absent (drv s) \<and> nat_table_hdl s = 0 \<and> slots_fine s \<and>
     (pub_ip_addr_pre s = a \<or> (\<forall>e \<in> set (cache s). \<not> enabled e))"

lemma up_frame [simp]:
  "up a (s\<lparr>curCnt := n\<rparr>) = up a s" "up a (s\<lparr>PwrSaveIfs := p\<rparr>) = up a s"
  "up a (s\<lparr>tcp_timeout := t\<rparr>) = up a s" "up a (s\<lparr>udp_timeout := t\<rparr>) = up a s"
  "up a (s\<lparr>ct_open_done := b\<rparr>) = up a s" "up a (s\<lparr>ct_new_done := b\<rparr>) = up a s"
  by (simp_all add: up_def slots_fine_def)

lemma down_frame [simp]:
  "down a (s\<lparr>curCnt := n\<rparr>) = down a s" "down a (s\<lparr>PwrSaveIfs := p\<rparr>) = down a s"
  "down a (s\<lparr>tcp_timeout := t\<rparr>) = down a s" "down a (s\<lparr>udp_timeout := t\<rparr>) = down a s"
  "down a (s\<lparr>ct_open_done := b\<rparr>) = down a s" "down a (s\<lparr>ct_new_done := b\<rparr>) = down a s"
  by (simp_all add: down_def slots_fine_def)

text \<open>A change of one slot.\<close>

lemma up_drv: "up a s \<Longrightarrow> ready d \<Longrightarrow> R d = R (drv s) \<Longrightarrow> up a (s\<lparr>drv := d\<rparr>)"
  by (simp add: up_def slots_fine_def)

lemma up_same:
  assumes "up a s" "i < length (cache s)" "slot_fine e" "enabled e = enabled (cache s ! i)"
    and "enabled e \<Longrightarrow> rule_hdl e = rule_hdl (cache s ! i) \<and> nat_rule_of e = nat_rule_of (cache s ! i)"
  shows "up a (set_slot i e s)"
  using assms slots_fine_set [OF _ assms(3)]
  by (auto simp: up_def set_slot_def intro: hw_agrees_same)

lemma up_off:
  assumes "up a s" "i < length (cache s)" "enabled (cache s ! i)" "slot_fine e" "\<not> enabled e"
  shows "\<exists>d. ipa_nat_del_ipv4_rule D (nat_table_hdl s) (rule_hdl (cache s ! i)) (drv s) = (0, d) \<and>
    up a (set_slot i e (s\<lparr>drv := d\<rparr>))"
proof -
  have s: "ready (drv s)" "nat_table_hdl s = 1" "slots_fine s"
    "hw_agrees (length (cache s)) (R (drv s)) (cache s)" using assms(1) by (simp_all add: up_def)
  have "R (drv s) (rule_hdl (cache s ! i)) = Some (nat_rule_of (cache s ! i))"
    by (rule hw_agreesD(1) [OF s(4) assms(2,3)])
  from delete [OF s(1) this] obtain d where
    d: "ipa_nat_del_ipv4_rule D 1 (rule_hdl (cache s ! i)) (drv s) = (0, d)" "ready d"
      "R d = (R (drv s))(rule_hdl (cache s ! i) := None)" by blast
  have "hw_agrees (length (cache s)) (R d) ((cache s)[i := e])"
    unfolding d(3) by (rule hw_agrees_off [OF s(4) _ assms(2,3,5)]) simp
  moreover have "slots_fine (set_slot i e (s\<lparr>drv := d\<rparr>))" by (rule slots_fine_set) (simp_all add: assms(4) s(3))
  ultimately show ?thesis using d(1,2) s(2) assms(1)
    by (intro exI [of _ d]) (simp add: up_def set_slot_def)
qed

lemma up_on:
  assumes "up a s" "i < length (cache s)" "\<not> enabled (cache s ! i)" "r_protocol c \<noteq> 0xFF"
    and "\<And>hdl. slot_fine (e hdl) \<and> enabled (e hdl) \<and> rule_hdl (e hdl) = hdl \<and> nat_rule_of (e hdl) = c"
  shows "\<exists>rc hdl d. ipa_nat_add_ipv4_rule D (nat_table_hdl s) c h (drv s) = (rc, hdl, d) \<and>
    (if rc <s 0 then up a (s\<lparr>drv := d\<rparr>) else up a (set_slot i (e hdl) (s\<lparr>drv := d\<rparr>)))"
proof -
  have s: "ready (drv s)" "nat_table_hdl s = 1" "slots_fine s"
    "hw_agrees (length (cache s)) (R (drv s)) (cache s)" using assms(1) by (simp_all add: up_def)
  from add [OF s(1) assms(4)] obtain rc hdl d where
    d: "ipa_nat_add_ipv4_rule D 1 c h (drv s) = (rc, hdl, d)" "ready d"
      "if rc <s 0 then R d = R (drv s) else R (drv s) hdl = None \<and> R d = (R (drv s))(hdl \<mapsto> c)" by blast
  show ?thesis
  proof (cases "rc <s 0")
    case True
    then have "R d = R (drv s)" using d(3) by simp
    then have "up a (s\<lparr>drv := d\<rparr>)" by (rule up_drv [OF assms(1) d(2)])
    then show ?thesis using True d(1) s(2) by simp
  next
    case False
    then have r: "R (drv s) hdl = None" "R d = (R (drv s))(hdl \<mapsto> c)" using d(3) by simp_all
    have e: "slot_fine (e hdl)" "enabled (e hdl)" "rule_hdl (e hdl) = hdl" "nat_rule_of (e hdl) = c"
      using assms(5) by blast+
    have "hw_agrees (length (cache s)) ((R (drv s))(rule_hdl (e hdl) \<mapsto> nat_rule_of (e hdl)))
        ((cache s)[i := e hdl])"
      by (rule hw_agrees_on [OF s(4) _ assms(2,3)]) (simp_all add: e r)
    then have "hw_agrees (length (cache s)) (R d) ((cache s)[i := e hdl])" by (simp only: e r)
    moreover have "slots_fine (set_slot i (e hdl) (s\<lparr>drv := d\<rparr>))" by (rule slots_fine_set) (simp_all add: e(1) s(3))
    ultimately have "up a (set_slot i (e hdl) (s\<lparr>drv := d\<rparr>))"
      using d(2) s(2) assms(1) by (simp add: up_def set_slot_def)
    then show ?thesis using False d(1) s(2) by simp
  qed
qed

lemma down_set:
  assumes "down a s" "i < length (cache s)" "slot_fine e" "enabled e \<Longrightarrow> enabled (cache s ! i)"
  shows "down a (set_slot i e s)"
proof -
  have "\<not> enabled x" if "x \<in> set ((cache s)[i := e])" "\<forall>e \<in> set (cache s). \<not> enabled e" for x
  proof -
    have "\<not> enabled e" using assms(2,4) that(2) by auto
    then show ?thesis using that set_update_subset_insert [of "cache s" i e] by blast
  qed
  then show ?thesis using assms(1) slots_fine_set [OF _ assms(3), of s i]
    by (auto simp: down_def set_slot_def)
qed

text \<open>\<open>b\<close>: there is a table.\<close>

definition linked :: "bool \<Rightarrow> u32 \<Rightarrow> 'd nat_app \<Rightarrow> bool" where
  "linked b a s \<longleftrightarrow> (if b then up a s else down a s)"

lemma linked_frame [simp]:
  "linked b a (s\<lparr>curCnt := n\<rparr>) = linked b a s" "linked b a (s\<lparr>PwrSaveIfs := p\<rparr>) = linked b a s"
  "linked b a (s\<lparr>tcp_timeout := t\<rparr>) = linked b a s" "linked b a (s\<lparr>udp_timeout := t\<rparr>) = linked b a s"
  "linked b a (clear_pwr ip s) = linked b a s"
  by (simp_all add: linked_def clear_pwr_def split: option.splits)

lemma linkedD:
  assumes "linked b a s"
  shows "slots_fine s" "\<not> b \<Longrightarrow> down a s" "b \<Longrightarrow> up a s"
    "\<not> b \<Longrightarrow> absent (drv s) \<and> nat_table_hdl s = 0"
  using assms by (auto simp: linked_def up_def down_def split: if_splits)

lemma linked_slot_fine: "linked b a s \<Longrightarrow> i < length (cache s) \<Longrightarrow> slot_fine (cache s ! i)"
  using linkedD(1) by (auto simp: slots_fine_def list_all_length)

text \<open>A slot keeps its part of the hardware; one is filled or emptied that is not in the hardware.\<close>

lemma linked_same:
  assumes "linked b a s" "i < length (cache s)" "slot_fine e" "enabled e = enabled (cache s ! i)"
    and "enabled e \<Longrightarrow> rule_hdl e = rule_hdl (cache s ! i) \<and> nat_rule_of e = nat_rule_of (cache s ! i)"
  shows "linked b a (set_slot i e s)"
  using assms up_same [OF _ assms(2-5)] down_set [OF _ assms(2,3)] by (auto simp: linked_def)

lemma zero_slot_fine [simp]: "slot_fine zero_entry"
  by (simp add: slot_fine_def zero_entry_def)

lemma linked_clear: "linked b a s \<Longrightarrow> i < length (cache s) \<Longrightarrow> \<not> enabled (cache s ! i) \<Longrightarrow> linked b a (clear_slot i s)"
  unfolding clear_slot_def linked_frame
  by (rule linked_same) (simp_all add: zero_entry_def slot_fine_def)

text \<open>The driver is asked to take a slot out: it does, or there is no table and it refuses.\<close>

lemma linked_off:
  assumes "linked b a s" "i < length (cache s)" "enabled (cache s ! i)" "slot_fine e" "\<not> enabled e"
  shows "\<exists>res d. ipa_nat_del_ipv4_rule D (nat_table_hdl s) (rule_hdl (cache s ! i)) (drv s) = (res, d) \<and>
    linked b a (set_slot i e (s\<lparr>drv := d\<rparr>)) \<and> (res <s 0 \<longrightarrow> d = drv s)"
proof (cases b)
  case False
  note dn = linkedD(2) [OF assms(1) False]
  have t: "absent (drv s)" "nat_table_hdl s = 0" using linkedD(4) [OF assms(1) False] by simp_all
  from idle(2) [OF t(1), of "rule_hdl (cache s ! i)"] obtain rc where
    "ipa_nat_del_ipv4_rule D (nat_table_hdl s) (rule_hdl (cache s ! i)) (drv s) = (rc, drv s)"
    using t(2) by auto
  then show ?thesis using down_set [OF dn assms(2,4)] assms(5) False by (simp add: linked_def)
next
  case True
  from up_off [OF linkedD(3) [OF assms(1) True] assms(2-5)] True show ?thesis
    by (auto simp: linked_def)
qed

text \<open>The driver is asked to put a slot in.\<close>

lemma linked_on:
  assumes "linked b a s" "i < length (cache s)" "\<not> enabled (cache s ! i)" "r_protocol c \<noteq> 0xFF"
    and "\<And>hdl. slot_fine (e hdl) \<and> enabled (e hdl) \<and> rule_hdl (e hdl) = hdl \<and> nat_rule_of (e hdl) = c"
  shows "\<exists>rc hdl d. ipa_nat_add_ipv4_rule D (nat_table_hdl s) c h (drv s) = (rc, hdl, d) \<and>
    (if rc <s 0 then linked b a (s\<lparr>drv := d\<rparr>) else linked b a (set_slot i (e hdl) (s\<lparr>drv := d\<rparr>)))"
proof (cases b)
  case False
  note dn = linkedD(2) [OF assms(1) False]
  have t: "absent (drv s)" "nat_table_hdl s = 0" using linkedD(4) [OF assms(1) False] by simp_all
  from idle(1) [OF t(1), of c h] obtain rc hdl where
    "ipa_nat_add_ipv4_rule D (nat_table_hdl s) c h (drv s) = (rc, hdl, drv s)" "rc <s 0"
    using t(2) by auto
  then show ?thesis using assms(1) by simp
next
  case True
  from up_on [OF linkedD(3) [OF assms(1) True] assms(2-5), of h] True show ?thesis
    by (auto simp: linked_def split: if_splits)
qed

lemma linked_slots:
  assumes "linked b a s" "\<And>cnt s. linked b a s \<Longrightarrow> cnt < length (cache s) \<Longrightarrow>
      linked b a (f cnt s) \<and> length (cache (f cnt s)) = length (cache s)"
  shows "linked b a (for_slots f s)"
  using for_slots_inv [of "linked b a" s f] assms by auto

section \<open>The calls of the cache\<close>

lemma linked_restore:
  assumes "linked b a s" "i < length (cache s)" "private_ip (cache s ! i) \<noteq> 0" "\<not> enabled (cache s ! i)"
  shows "linked b a (restore_slot D i s) \<and> length (cache (restore_slot D i s)) = length (cache s)"
proof -
  let ?e = "cache s ! i"
  have f: "slot_fine ?e" by (rule linked_slot_fine [OF assms(1,2)])
  have p: "r_protocol (nat_rule_of ?e) \<noteq> 0xFF" using f by (simp add: slot_fine_def nat_rule_of_def)
  have "slot_fine (?e\<lparr>rule_hdl := hdl, enabled := True\<rparr>) \<and> enabled (?e\<lparr>rule_hdl := hdl, enabled := True\<rparr>) \<and>
      rule_hdl (?e\<lparr>rule_hdl := hdl, enabled := True\<rparr>) = hdl \<and>
      nat_rule_of (?e\<lparr>rule_hdl := hdl, enabled := True\<rparr>) = nat_rule_of ?e" for hdl
    using f assms(3) by (simp add: slot_fine_def nat_rule_of_def)
  from linked_on [OF assms(1,2,4) p this, of "rule_hdl ?e"] obtain rc hdl d where
    d: "ipa_nat_add_ipv4_rule D (nat_table_hdl s) (nat_rule_of ?e) (rule_hdl ?e) (drv s) = (rc, hdl, d)"
      "if rc <s 0 then linked b a (s\<lparr>drv := d\<rparr>)
       else linked b a (set_slot i (?e\<lparr>rule_hdl := hdl, enabled := True\<rparr>) (s\<lparr>drv := d\<rparr>))" by blast
  show ?thesis using d assms(2,4) linked_clear [of b a "s\<lparr>drv := d\<rparr>" i]
    by (simp add: restore_slot_def Let_def set_slot_def split: if_splits)
qed

lemma linked_DeleteEntry: "linked b a s \<Longrightarrow> linked b a (snd (DeleteEntry D rule s))"
proof (cases "first_index (same_conn rule) (cache s)")
  case (Some i)
  assume s: "linked b a s"
  note i = first_index_Some [OF Some]
  show ?thesis
  proof (cases "enabled (cache s ! i)")
    case True
    from linked_off [OF s i [THEN conjunct1] True zero_slot_fine] obtain res d where
      "ipa_nat_del_ipv4_rule D (nat_table_hdl s) (rule_hdl (cache s ! i)) (drv s) = (res, d)"
      "linked b a (set_slot i zero_entry (s\<lparr>drv := d\<rparr>))" by (auto simp: zero_entry_def)
    then show ?thesis using Some True by (simp add: DeleteEntry_def Let_def clear_slot_def)
  next
    case False
    then show ?thesis using Some linked_clear [OF s _ False] i by (simp add: DeleteEntry_def Let_def)
  qed
qed (simp add: DeleteEntry_def)

lemma free_slot_off: "linked b a s \<Longrightarrow> i < length (cache s) \<Longrightarrow> free_slot (cache s ! i) \<Longrightarrow> \<not> enabled (cache s ! i)"
  using linked_slot_fine by (auto simp: slot_fine_def free_slot_def)

lemma fill_slot_fields [simp]:
  "enabled (fill_slot rule e) = enabled e" "rule_hdl (fill_slot rule e) = rule_hdl e"
  "protocol (fill_slot rule e) = protocol rule" "private_ip (fill_slot rule e) = private_ip rule"
  "nat_rule_of (fill_slot rule e) = nat_rule_of rule"
  by (simp_all add: fill_slot_def nat_rule_of_def)

lemma linked_AddEntry:
  assumes "linked b a s" "protocol rule \<noteq> 0xFF"
  shows "linked b a (snd (AddEntry D rule s))"
proof (cases "nat_table_hdl s = 0 \<or> isAlgPort (protocol rule) (private_port rule) s \<or>
    isAlgPort (protocol rule) (target_port rule) s \<or> invalid_conn rule \<or> ChkForDup rule s \<or>
    first_index free_slot (cache s) = None")
  case True
  then show ?thesis using assms(1) by (auto simp: AddEntry_def)
next
  case False
  then obtain i where i: "first_index free_slot (cache s) = Some i" by blast
  note slot = first_index_Some [OF i] and val = False
  then have off: "\<not> enabled (cache s ! i)" using free_slot_off [OF assms(1)] by blast
  let ?e = "cache s ! i"
  have p: "r_protocol (nat_rule_of rule) \<noteq> 0xFF" using assms(2) by (simp add: nat_rule_of_def)
  have "private_ip rule \<noteq> 0" using val by (auto simp: invalid_conn_def)
  then have "slot_fine (fill_slot rule (?e\<lparr>rule_hdl := hdl, enabled := True\<rparr>)) \<and>
      enabled (fill_slot rule (?e\<lparr>rule_hdl := hdl, enabled := True\<rparr>)) \<and>
      rule_hdl (fill_slot rule (?e\<lparr>rule_hdl := hdl, enabled := True\<rparr>)) = hdl \<and>
      nat_rule_of (fill_slot rule (?e\<lparr>rule_hdl := hdl, enabled := True\<rparr>)) = nat_rule_of rule" for hdl
    using assms(2) by (simp add: slot_fine_def)
  from linked_on [OF assms(1) slot [THEN conjunct1] off p this, of "rule_hdl ?e"] obtain rc hdl d where
    d: "ipa_nat_add_ipv4_rule D (nat_table_hdl s) (nat_rule_of rule) (rule_hdl ?e) (drv s) = (rc, hdl, d)"
      "if rc <s 0 then linked b a (s\<lparr>drv := d\<rparr>)
       else linked b a (set_slot i (fill_slot rule (?e\<lparr>rule_hdl := hdl, enabled := True\<rparr>)) (s\<lparr>drv := d\<rparr>))"
    by blast
  have "linked b a (set_slot i (fill_slot rule (?e\<lparr>enabled := False, rule_hdl := 0\<rparr>)) s)"
    using assms slot off by (intro linked_same) (simp_all add: slot_fine_def)
  moreover have "linked b a (set_slot i (?e\<lparr>rule_hdl := hdl\<rparr>) (s\<lparr>drv := d\<rparr>))" if "rc <s 0"
    using that d(2) slot off linked_slot_fine [OF assms(1), of i]
    by (intro linked_same) (simp_all add: slot_fine_def)
  ultimately show ?thesis using val i d by (simp add: AddEntry_def Let_def split: if_splits)
qed

lemma linked_CacheEntry:
  assumes "linked b a s" "protocol rule \<noteq> 0xFF" "CacheEntry cnt0 rule s = Some s'"
  shows "linked b a s'"
proof (cases "invalid_conn rule \<or> ChkForDup rule s \<or> first_index free_slot (drop (nat cnt0) (cache s)) = None")
  case True
  then show ?thesis using assms(1,3) by (auto simp: CacheEntry_def split: if_splits)
next
  case False
  then obtain i where i: "first_index free_slot (drop (nat cnt0) (cache s)) = Some i" by blast
  let ?j = "nat cnt0 + i"
  have j: "?j < length (cache s)" "free_slot (cache s ! ?j)"
    using first_index_Some [OF i] by (auto simp: add.commute)
  then have off: "\<not> enabled (cache s ! ?j)" using free_slot_off [OF assms(1)] by blast
  have "linked b a (set_slot ?j (fill_slot rule ((cache s ! ?j)\<lparr>enabled := False, rule_hdl := 0\<rparr>)) s)"
    using assms(1,2) j off by (intro linked_same) (simp_all add: slot_fine_def)
  then show ?thesis using assms(3) False i by (auto simp: CacheEntry_def Let_def split: if_splits)
qed

lemma up_UpdateCTUdpTs:
  assumes "up a s" "i < length (cache s)"
  shows "up a (UpdateCTUdpTs D i ts s) \<and> length (cache (UpdateCTUdpTs D i ts s)) = length (cache s)"
proof -
  define s1 where "s1 = (if ct_open_done s then s
    else case nfct_open D (drv s) of (ok, d) \<Rightarrow> s\<lparr>ct_open_done := ok, drv := d\<rparr>)"
  define s2 where "s2 = (if ct_new_done s1 then s1
    else case nfct_new D (drv s1) of (ok, d) \<Rightarrow> s1\<lparr>ct_new_done := ok, drv := d\<rparr>)"
  have eq: "UpdateCTUdpTs D i ts s =
    (if \<not> ct_open_done s1 then s1 else if \<not> ct_new_done s2 then s2
     else case nfct_query_update D (ct_update_of (cache s2 ! i) s2) (drv s2) of (res, d) \<Rightarrow>
       if res = - 1 then s2\<lparr>drv := d\<rparr>
       else set_slot i ((cache s2 ! i)\<lparr>timestamp := ts\<rparr>) (s2\<lparr>drv := d\<rparr>))"
    by (simp only: UpdateCTUdpTs_def Let_def s1_def s2_def)
  have dr: "up a (z\<lparr>drv := d\<rparr>)" if "up a z" "ready (drv z) \<Longrightarrow> ready d \<and> R d = R (drv z)" for z d
    using that up_drv [OF that(1), of d] by (simp add: up_def)
  have "up a (s\<lparr>ct_open_done := b, drv := snd (nfct_open D (drv s))\<rparr>)" for b
    using dr [of "s\<lparr>ct_open_done := b\<rparr>"] assms(1) tracker(1) by simp
  then have s1: "up a s1" "cache s1 = cache s" using assms(1) by (auto simp: s1_def prod.case_eq_if)
  have "up a (s1\<lparr>ct_new_done := b, drv := snd (nfct_new D (drv s1))\<rparr>)" for b
    using dr [of "s1\<lparr>ct_new_done := b\<rparr>"] s1(1) tracker(2) by simp
  then have s2: "up a s2" "cache s2 = cache s" using s1 by (auto simp: s2_def prod.case_eq_if)
  obtain res d where q: "nfct_query_update D (ct_update_of (cache s2 ! i) s2) (drv s2) = (res, d)" by fastforce
  have u: "up a (s2\<lparr>drv := d\<rparr>)" using dr [OF s2(1) tracker(3)] q by (metis snd_conv)
  have f: "slot_fine (cache s ! i)" using u assms(2) s2(2) by (simp add: up_def slots_fine_def list_all_length)
  have "up a (set_slot i ((cache s2 ! i)\<lparr>timestamp := ts\<rparr>) (s2\<lparr>drv := d\<rparr>))"
    using u assms(2) s2(2) f by (intro up_same) (simp_all add: slot_fine_def nat_rule_of_def)
  then show ?thesis using s1 s2 u q unfolding eq by (simp add: set_slot_def)
qed

lemma linked_UpdateUDPTimeStamp: "linked b a s \<Longrightarrow> linked b a (UpdateUDPTimeStamp D s)"
  unfolding UpdateUDPTimeStamp_def
proof (erule linked_slots)
  fix i s assume s: "linked b a s" "i < length (cache s)"
  let ?e = "cache s ! i"
  let ?f = "let e = cache s ! i
      in if enabled e then
           case ipa_nat_query_timestamp D (nat_table_hdl s) (rule_hdl e) 0 (drv s) of (res, ts, d) \<Rightarrow>
             let s = s\<lparr>drv := d\<rparr>
             in if res <s 0 then s
                else if timestamp e = ts then s
                else UpdateCTUdpTs D i ts s
         else s"
  show "linked b a ?f \<and> length (cache ?f) = length (cache s)"
  proof (cases "enabled ?e")
    case en: True
    show ?thesis
    proof (cases b)
      case False
      have t: "absent (drv s)" "nat_table_hdl s = 0" using linkedD(4) [OF s(1) False] by simp_all
      from idle(3) [OF t(1), of "rule_hdl ?e" 0] obtain rc ts where
        "ipa_nat_query_timestamp D (nat_table_hdl s) (rule_hdl ?e) 0 (drv s) = (rc, ts, drv s)" "rc <s 0"
        using t(2) by auto
      then show ?thesis using en s(1) by simp
    next
      case True
      note u = linkedD(3) [OF s(1) True]
      then have h: "ready (drv s)" "nat_table_hdl s = 1" "hw_agrees (length (cache s)) (R (drv s)) (cache s)"
        by (simp_all add: up_def)
      from query [OF h(1) hw_agreesD(1) [OF h(3) s(2) en], of 0] obtain rc ts d where
        d: "ipa_nat_query_timestamp D (nat_table_hdl s) (rule_hdl ?e) 0 (drv s) = (rc, ts, d)"
          "ready d" "R d = R (drv s)" using h(2) by auto
      have "up a (s\<lparr>drv := d\<rparr>)" by (rule up_drv [OF u d(2,3)])
      then show ?thesis using en d(1) up_UpdateCTUdpTs [of a "s\<lparr>drv := d\<rparr>" i ts] s(2)
        by (simp add: Let_def linked_def True)
    qed
  qed (use s in simp)
qed

text \<open>The loops that take the slots of a client out of the hardware.\<close>

lemma linked_off_loop:
  assumes "linked b a s" "\<And>e. slot_fine e \<Longrightarrow> slot_fine (g e) \<and> \<not> enabled (g e)"
  shows "linked b a (for_slots (\<lambda>cnt s.
    let e = cache s ! cnt
    in if private_ip e = ip \<and> enabled e then
         case ipa_nat_del_ipv4_rule D (nat_table_hdl s) (rule_hdl e) (drv s) of (res, d) \<Rightarrow>
           let s = s\<lparr>drv := d\<rparr>
           in if res <s 0 then s else set_slot cnt (g e) s
       else s) s)"
    (is "linked b a (for_slots ?f s)")
proof -
  have "linked b a (?f i s) \<and> length (cache (?f i s)) = length (cache s)"
    if s: "linked b a s" "i < length (cache s)" for i s
  proof (cases "private_ip (cache s ! i) = ip \<and> enabled (cache s ! i)")
    case True
    have "slot_fine (g (cache s ! i))" "\<not> enabled (g (cache s ! i))"
      using assms(2) linked_slot_fine [OF s] by blast+
    from linked_off [OF s conjunct2 [OF True] this] obtain res d where
      "ipa_nat_del_ipv4_rule D (nat_table_hdl s) (rule_hdl (cache s ! i)) (drv s) = (res, d)"
      "linked b a (set_slot i (g (cache s ! i)) (s\<lparr>drv := d\<rparr>))"
      "res <s 0 \<longrightarrow> d = drv s" by blast
    then show ?thesis using s True by (auto simp: Let_def set_slot_def)
  next
    case False
    then show ?thesis using s by (auto simp: Let_def)
  qed
  then show ?thesis using assms(1) by (rule linked_slots [rotated])
qed

lemma linked_PwrSaveIf: "linked b a s \<Longrightarrow> linked b a (snd (UpdatePwrSaveIf D ip s))"
  using linked_off_loop [of b a _ "\<lambda>e. e\<lparr>enabled := False, rule_hdl := 0\<rparr>" ip]
  by (auto simp: UpdatePwrSaveIf_def Let_def slot_fine_def split: option.splits)

lemma linked_ClntDiscon: "linked b a s \<Longrightarrow> linked b a (snd (DelEntriesOnClntDiscon D ip s))"
  using linked_off_loop [of b a _ "\<lambda>e. e\<lparr>enabled := False\<rparr>" ip]
  by (simp add: DelEntriesOnClntDiscon_def slot_fine_def)

lemma linked_ResetPwrSaveIf: "linked b a s \<Longrightarrow> linked b a (snd (ResetPwrSaveIf D ip s))"
proof -
  let ?f = "\<lambda>cnt s. if private_ip (cache s ! cnt) = ip \<and> \<not> enabled (cache s ! cnt)
    then restore_slot D cnt s else s"
  have "linked b a (?f i s) \<and> length (cache (?f i s)) = length (cache s)"
    if s: "linked b a s" "i < length (cache s)" "ip \<noteq> 0" for i s
    using linked_restore [OF s(1,2)] s by auto
  then have "linked b a (for_slots ?f z)" if "linked b a z" "ip \<noteq> 0" for z using that by (intro linked_slots) auto
  then show "linked b a s \<Longrightarrow> linked b a (snd (ResetPwrSaveIf D ip s))"
    by (auto simp: ResetPwrSaveIf_def PWR_INVALID_def)
qed

lemma linked_STAClntDiscon: "linked b a s \<Longrightarrow> linked b a (snd (DelEntriesOnSTAClntDiscon D ip s))"
proof -
  let ?f = "\<lambda>cnt s. let e = cache s ! cnt
    in if target_ip e = ip then
         if enabled e then
           case ipa_nat_del_ipv4_rule D (nat_table_hdl s) (rule_hdl e) (drv s) of (res, d) \<Rightarrow>
             let s = s\<lparr>drv := d\<rparr> in if res <s 0 then s else clear_slot cnt s
         else clear_slot cnt s
       else s"
  have "linked b a (?f i s) \<and> length (cache (?f i s)) = length (cache s)"
    if s: "linked b a s" "i < length (cache s)" for i s
  proof (cases "enabled (cache s ! i)")
    case True
    from linked_off [OF s True zero_slot_fine] obtain res d where
      "ipa_nat_del_ipv4_rule D (nat_table_hdl s) (rule_hdl (cache s ! i)) (drv s) = (res, d)"
      "linked b a (set_slot i zero_entry (s\<lparr>drv := d\<rparr>))" "res <s 0 \<longrightarrow> d = drv s"
      by (auto simp: zero_entry_def)
    then show ?thesis using s True by (auto simp: Let_def clear_slot_def set_slot_def)
  next
    case False
    then show ?thesis using s linked_clear [OF s False] by (simp add: Let_def)
  qed
  then have "linked b a (for_slots ?f z)" if "linked b a z" for z using that by (rule linked_slots [rotated])
  then show "linked b a s \<Longrightarrow> linked b a (snd (DelEntriesOnSTAClntDiscon D ip s))"
    by (auto simp: DelEntriesOnSTAClntDiscon_def)
qed

text \<open>The pending connections.\<close>

lemma linked_temp:
  assumes "linked b a s" "protocol e \<noteq> 0xFF"
  shows "linked b a (s\<lparr>temp := (temp s)[i := e]\<rparr>)"
proof -
  have "slots_fine (s\<lparr>temp := (temp s)[i := e]\<rparr>)"
    using linkedD(1) [OF assms(1)] assms(2) set_update_subset_insert [of "temp s" i e]
    by (auto simp: slots_fine_def)
  then show ?thesis using assms(1) by (auto simp: linked_def up_def down_def)
qed

lemma zero_protocol: "protocol zero_entry \<noteq> 0xFF"
  by (simp add: zero_entry_def)

lemma linked_AddTempEntry: "linked b a s \<Longrightarrow> protocol e \<noteq> 0xFF \<Longrightarrow> linked b a (AddTempEntry e s)"
  using linked_temp by (auto simp: AddTempEntry_def split: option.splits)

lemma linked_DeleteTempEntry: "linked b a s \<Longrightarrow> linked b a (DeleteTempEntry e s)"
  using linked_temp [OF _ zero_protocol] by (auto simp: DeleteTempEntry_def split: option.splits)

lemma AddEntry_temp: "temp (snd (AddEntry D rule s)) = temp s"
  by (auto simp: AddEntry_def Let_def set_slot_def split: option.splits prod.splits)

lemma linked_flush_slot:
  assumes "linked b a s" "i < length (temp s)"
  shows "linked b a (flush_slot D ip isAdd i s) \<and> length (temp (flush_slot D ip isAdd i s)) = length (temp s)"
proof -
  have "protocol (temp s ! i) \<noteq> 0xFF" using linkedD(1) [OF assms(1)] assms(2) by (simp add: slots_fine_def)
  then have add: "linked b a (snd (AddEntry D (temp s ! i) s))" by (rule linked_AddEntry [OF assms(1)])
  obtain res s' where a: "AddEntry D (temp s ! i) s = (res, s')" by fastforce
  have s': "linked b a s'" "temp s' = temp s" using add AddEntry_temp [of "temp s ! i" s] a by simp_all
  have "linked b a (s'\<lparr>temp := (temp s')[i := zero_entry]\<rparr>)" "linked b a (s\<lparr>temp := (temp s)[i := zero_entry]\<rparr>)"
    using linked_temp [OF _ zero_protocol] s'(1) assms(1) by blast+
  then show ?thesis using assms(1) s' a by (simp add: flush_slot_def Let_def)
qed

lemma linked_FlushTempEntries: "linked b a s \<Longrightarrow> linked b a (FlushTempEntries D ip isAdd s)"
proof -
  assume s: "linked b a s"
  have "linked b a (fold (flush_slot D ip isAdd) [0..<n] s) \<and>
      length (temp (fold (flush_slot D ip isAdd) [0..<n] s)) = length (temp s)" if "n \<le> length (temp s)" for n
    using that
  proof (induction n)
    case (Suc n)
    then show ?case using linked_flush_slot [of b a "fold (flush_slot D ip isAdd) [0..<n] s" n ip isAdd] by simp
  qed (simp add: s)
  then show ?thesis by (simp add: FlushTempEntries_def)
qed

section \<open>The table\<close>

text \<open>The loop of \<open>AddTable\<close>: the slots before \<open>i\<close> are back in the hardware.\<close>

definition restoring :: "nat \<Rightarrow> 'd nat_app \<Rightarrow> bool" where
  "restoring i s \<longleftrightarrow> ready (drv s) \<and> nat_table_hdl s = 1 \<and> slots_fine s \<and> hw_agrees i (R (drv s)) (cache s)"

lemma restoring_step:
  assumes "restoring i s" "i < length (cache s)"
  shows "restoring (Suc i) (if private_ip (cache s ! i) \<noteq> 0 then restore_slot D i s else s)"
proof -
  let ?e = "cache s ! i"
  have s: "ready (drv s)" "nat_table_hdl s = 1" "slots_fine s" "hw_agrees i (R (drv s)) (cache s)"
    using assms(1) by (simp_all add: restoring_def)
  have f: "slot_fine ?e" using s(3) assms(2) by (simp add: slots_fine_def list_all_length)
  show ?thesis
  proof (cases "private_ip ?e = 0")
    case True
    then have "\<not> enabled ?e" using f by (simp add: slot_fine_def)
    with hw_agrees_Suc [OF s(4)] show ?thesis using s True by (simp add: restoring_def)
  next
    case False
    have p: "r_protocol (nat_rule_of ?e) \<noteq> 0xFF" using f by (simp add: slot_fine_def nat_rule_of_def)
    from add [OF s(1) p, of "rule_hdl ?e"] obtain rc hdl d where
      d: "ipa_nat_add_ipv4_rule D 1 (nat_rule_of ?e) (rule_hdl ?e) (drv s) = (rc, hdl, d)" "ready d"
        "if rc <s 0 then R d = R (drv s)
         else R (drv s) hdl = None \<and> R d = (R (drv s))(hdl \<mapsto> nat_rule_of ?e)" by blast
    have z: "hw_agrees (Suc i) (R (drv s)) ((cache s)[i := zero_entry])"
      by (rule hw_agrees_Suc [OF hw_agrees_past [OF s(4)]]) (use assms(2) in \<open>simp add: zero_entry_def\<close>)
    show ?thesis
    proof (cases "rc <s 0")
      case True
      then have "R d = R (drv s)" using d(3) by simp
      moreover have "slots_fine (set_slot i zero_entry (s\<lparr>drv := d\<rparr>))" using s(3) by (intro slots_fine_set) simp_all
      ultimately show ?thesis using True False d(1,2) s(2) z
        by (simp add: restore_slot_def restoring_def clear_slot_def set_slot_def slots_fine_def)
    next
      case fl: False
      let ?e' = "?e\<lparr>rule_hdl := hdl, enabled := True\<rparr>"
      have r: "R (drv s) hdl = None" "R d = (R (drv s))(hdl \<mapsto> nat_rule_of ?e)" using d(3) fl by simp_all
      have n: "nat_rule_of ?e' = nat_rule_of ?e" by (simp add: nat_rule_of_def)
      have "hw_agrees (Suc i) ((R (drv s))(rule_hdl ?e' \<mapsto> nat_rule_of ?e')) (((cache s)[i := zero_entry])[i := ?e'])"
        by (rule hw_agrees_on [OF z]) (use assms(2) r(1) in \<open>simp_all add: zero_entry_def\<close>)
      then have "hw_agrees (Suc i) (R d) ((cache s)[i := ?e'])" using r(2) n by simp
      moreover have "slots_fine (set_slot i ?e' (s\<lparr>drv := d\<rparr>))"
        using s(3) f False by (intro slots_fine_set) (simp_all add: slot_fine_def)
      ultimately show ?thesis using fl False d(1,2) s(2)
        by (simp add: restore_slot_def Let_def restoring_def set_slot_def slots_fine_def)
    qed
  qed
qed

lemma restore_length: "length (cache (restore_slot D i s)) = length (cache s)"
  by (simp add: restore_slot_def Let_def clear_slot_def set_slot_def split: prod.splits)

lemma restoring_all:
  assumes "restoring 0 s"
  shows "restoring (length (cache s)) (for_slots (\<lambda>cnt s.
    if private_ip (cache s ! cnt) \<noteq> 0 then restore_slot D cnt s else s) s) \<and>
    length (cache (for_slots (\<lambda>cnt s.
      if private_ip (cache s ! cnt) \<noteq> 0 then restore_slot D cnt s else s) s)) = length (cache s)"
proof -
  let ?f = "\<lambda>cnt s. if private_ip (cache s ! cnt) \<noteq> 0 then restore_slot D cnt s else s"
  have "restoring n (fold ?f [0..<n] s) \<and> length (cache (fold ?f [0..<n] s)) = length (cache s)"
    if "n \<le> length (cache s)" for n
    using that
  proof (induction n)
    case (Suc n)
    then have IH: "restoring n (fold ?f [0..<n] s)" "length (cache (fold ?f [0..<n] s)) = length (cache s)" by simp_all
    have "restoring (Suc n) (?f n (fold ?f [0..<n] s))" using Suc.prems IH by (intro restoring_step) simp_all
    then show ?case using IH by (simp add: restore_length)
  qed (use assms in simp)
  then show ?thesis by (simp add: for_slots_def)
qed

lemma down_AddTable:
  assumes "down a s" "fits (of_nat (length (cache s)))"
  shows "up a (snd (AddTable D a s))"
proof -
  have s: "absent (drv s)" "slots_fine s" "pub_ip_addr_pre s = a \<or> (\<forall>e \<in> set (cache s). \<not> enabled e)"
    using assms(1) by (simp_all add: down_def)
  from create [OF s(1) assms(2)] obtain d where
    d: "ipa_nat_add_ipv4_tbl D a (of_nat (length (cache s))) (nat_table_hdl s) (drv s) = (0, 1, d)"
      "ready d" "R d = Map.empty" by blast
  let ?s = "s\<lparr>nat_table_hdl := 1, drv := d\<rparr>"
  have r: "restoring 0 ?s" using d s(2) by (simp add: restoring_def slots_fine_def hw_agrees_empty)
  show ?thesis
  proof (cases "pub_ip_addr_pre s = a")
    case True
    with restoring_all [OF r] d(1) show ?thesis
      by (simp add: AddTable_def Let_def up_def restoring_def slots_fine_def)
  next
    case False
    then have "hw_agrees (length (cache s)) (R d) (cache s)"
      unfolding d(3) using s(3) by (intro hw_agrees_empty) simp
    then show ?thesis using False d r by (auto simp: AddTable_def Let_def up_def restoring_def slots_fine_def)
  qed
qed

lemma up_DeleteTable:
  assumes "up a s"
  shows "down a (snd (DeleteTable D a s))"
proof -
  have s: "ready (drv s)" "nat_table_hdl s = 1" "pub_ip_addr s = a" "slots_fine s"
    using assms by (simp_all add: up_def)
  from remove [OF s(1)] obtain d where "ipa_nat_del_ipv4_tbl D 1 (drv s) = (0, d)" "absent d" by blast
  then show ?thesis using s by (simp add: DeleteTable_def NatApp_Reset_def down_def slots_fine_def)
qed

section \<open>The listener over the cache\<close>

text \<open>The cache of \<open>n\<close> slots, in the listener.\<close>

definition linked_ct :: "u32 \<Rightarrow> nat \<Rightarrow> 'd ct_listener \<Rightarrow> bool" where
  "linked_ct a n s \<longleftrightarrow>
     nat_ok (nat_inst s) \<and> length (cache (nat_inst s)) = n \<and> linked (WanUp s) a (nat_inst s)"

lemma linked_ct_add:
  assumes "linked (WanUp s) a (nat_inst s)" "protocol rule \<noteq> 0xFF" "ct_add D cnt0 rule t s = Some s'"
  shows "linked (WanUp s') a (nat_inst s')"
  using assms linked_CacheEntry linked_AddTempEntry linked_AddEntry
  by (auto simp: ct_add_def on_nat_def split: if_splits)

lemma linked_ct_delete:
  "linked (WanUp s) a (nat_inst s) \<Longrightarrow> linked (WanUp (ct_delete D rule t s)) a (nat_inst (ct_delete D rule t s))"
  using linked_DeleteTempEntry linked_DeleteEntry by (simp add: ct_delete_def on_nat_def)

lemma linked_conn:
  assumes "linked (WanUp s) a (nat_inst s)" "ProcessCTMessage D cnt0 ct type s = Some s'"
  shows "linked (WanUp s') a (nat_inst s')"
proof -
  have p: "protocol rule \<noteq> 0xFF" if "IPPROTO_TCP = protocol rule \<or> IPPROTO_UDP = protocol rule" for rule
    using that by (auto simp: IPPROTO_TCP_def IPPROTO_UDP_def dest: sym)
  show ?thesis using assms(2) linked_ct_add [OF assms(1) p] linked_ct_delete [OF assms(1)] assms(1)
    by (auto simp: ProcessCTMessage_def ProcessTCPorUDPMsg_def split: option.splits if_splits prod.splits)
qed

lemma linked_ct_step:
  assumes "linked_ct a n s" "wan_event a e" "fits (of_nat n)" "ct_step D s e = Some s'"
  shows "linked_ct a n s'"
proof -
  have s: "nat_ok (nat_inst s)" "length (cache (nat_inst s)) = n" "linked (WanUp s) a (nat_inst s)"
    using assms(1) by (simp_all add: linked_ct_def)
  have "linked (WanUp s') a (nat_inst s')"
  proof (cases e)
    case (EvtConn cnt0 ct type)
    then show ?thesis using linked_conn [OF s(3)] assms(4) by simp
  next
    case (EvtWanUp ip sta)
    show ?thesis
    proof (cases "WanUp s \<or> ip = 0")
      case True
      then show ?thesis using EvtWanUp assms(4) s(3) by (auto simp: TriggerWANUp_def)
    next
      case False
      then have "down a (nat_inst s)" using s(3) by (simp add: linked_def)
      from down_AddTable [OF this] show ?thesis using EvtWanUp assms(2-4) s(2) False
        by (auto simp: TriggerWANUp_def on_nat_def linked_def wan_event_def)
    qed
  next
    case (EvtWanDown ip)
    then show ?thesis using assms(2,4) s(3) up_DeleteTable [of a "nat_inst s"]
      by (auto simp: TriggerWANDown_def on_nat_def linked_def wan_event_def split: if_splits)
  next
    case (EvtNeighAdd ip v4 ifname)
    then show ?thesis using assms(4) s(3) linked_FlushTempEntries linked_ResetPwrSaveIf
      by (auto simp: HandleNeighIpAddrAddEvt_def Let_def on_nat_def split: option.splits)
  next
    case (EvtNeighDel ip)
    then show ?thesis using assms(4) s(3) linked_FlushTempEntries linked_ClntDiscon
      by (auto simp: HandleNeighIpAddrDelEvt_def Let_def on_nat_def)
  next
    case (EvtStaAdd ip)
    then show ?thesis using assms(4) s(3)
      by (auto simp: HandleSTAClientAddEvt_def split: option.splits)
  next
    case (EvtStaDel ip)
    then show ?thesis using assms(4) s(3) linked_STAClntDiscon
      by (auto simp: HandleSTAClientDelEvt_def on_nat_def split: option.splits)
  next
    case EvtTimeStamps
    then show ?thesis using assms(4) s(3) linked_UpdateUDPTimeStamp by (auto simp: on_nat_def)
  next
    case (EvtTimeout v proto)
    then show ?thesis using assms(4) s(3) by (auto simp: on_nat_def UpdateTcpUdpTo_def)
  next
    case (EvtPwrSave ip)
    then show ?thesis using assms(4) s(3) linked_PwrSaveIf by (auto simp: on_nat_def)
  next
    case (EvtPwrRecover ip)
    then show ?thesis using assms(4) s(3) linked_ResetPwrSaveIf by (auto simp: on_nat_def)
  qed
  moreover have "keeps (nat_inst s) (nat_inst s')" by (rule keeps_ct_step [OF s(1) assms(4)])
  ultimately show ?thesis using s(2) by (simp add: linked_ct_def keeps_def)
qed

lemma linked_ct_run:
  "linked_ct a n s \<Longrightarrow> list_all (wan_event a) es \<Longrightarrow> fits (of_nat n) \<Longrightarrow> ct_run D es s = Some s' \<Longrightarrow>
   linked_ct a n s'"
proof (induction es arbitrary: s)
  case (Cons e es)
  from Cons.prems(4) obtain s1 where s1: "ct_step D s e = Some s1" "ct_run D es s1 = Some s'"
    by (auto split: option.splits)
  have "linked_ct a n s1" using linked_ct_step [OF Cons.prems(1) _ Cons.prems(3) s1(1)] Cons.prems(2) by simp
  then show ?case using Cons.IH Cons.prems(2,3) s1(2) by simp
qed simp

lemma linked_ct_start:
  assumes "absent d" "NatApp_Init n algs pre pwr tcp udp d = Some app" "length pwr = IPA_MAX_NUM_WIFI_CLIENTS"
  shows "linked_ct a n (ConntrackListener ifaces subnets wan sta app)"
proof -
  have "down a app" using assms(1,2) zero_protocol
    by (auto simp: NatApp_Init_def down_def slots_fine_def list_all_iff slot_fine_def zero_entry_def split: if_splits)
  then show ?thesis using NatApp_Init_ok [OF assms(2,3)]
    by (simp add: linked_ct_def ConntrackListener_def linked_def)
qed

text \<open>
  What the cache marks is what the hardware holds, whatever happens on a link that comes and goes
  with one address.
\<close>

lemma hardware_follows:
  assumes "absent d" "fits (of_nat n)" "NatApp_Init n algs pre pwr tcp udp d = Some app"
    and "length pwr = IPA_MAX_NUM_WIFI_CLIENTS" "list_all (wan_event a) es"
    and "ct_run D es (ConntrackListener ifaces subnets wan sta app) = Some s"
  shows "if WanUp s then ready (drv (nat_inst s)) \<and>
      hw_agrees n (R (drv (nat_inst s))) (cache (nat_inst s)) else absent (drv (nat_inst s))"
proof -
  have "linked_ct a n s"
    using linked_ct_run [OF linked_ct_start [OF assms(1,3,4)] assms(5,2,6)] .
  then show ?thesis by (auto simp: linked_ct_def linked_def up_def down_def)
qed

end

end
