(* ===== verification/NatDrvThms.thy ===== *)
theory NatDrvThms
  imports NatDrvRun
begin

text \<open>What the NAT driver promises.\<close>

text \<open>
  C3: on a kernel that does what it is asked, creating the table succeeds for up to 20480 entries.
  From there every sequence of calls that the contract covers (additions of rules of any protocol but
  0xFF, deletions of any handle below 2 ^ 16, queries of any such handle but 0) returns and follows
  it: the table is a map from handles to rules, which starts empty; an addition puts the rule under a
  handle that was free or is refused, a deletion removes the rule of a handle that is there and is
  refused for another, and a query changes nothing and succeeds for a handle that is there.
\<close>

theorem nat_drv_refines:
  assumes "kernel_works K" "no_table s" "n \<noteq> 0" "unat n \<le> 20480" "list_all op_ok ops"
  shows "\<exists>s0 rs s'. add_ipv4_tbl_drv K m pub n h s = Some (0, 1, s0) \<and>
    drv_run K ops s0 = Some (rs, s') \<and> spec_run ops rs Map.empty = Some (nat_rules (ip4_tbl s'))"
proof -
  have K: "dma_works K" using assms(1) by (simp add: kernel_works_def)
  obtain s0 where s0: "add_ipv4_tbl_drv K m pub n h s = Some (0, 1, s0)" "drv_inv (ip4_tbl s0)"
    "nat_rules (ip4_tbl s0) = Map.empty" using add_tbl_works [OF assms(1-4)] by blast
  from drv_run_refines [OF K s0(2) assms(5)] s0 show ?thesis by auto
qed

lemma reached_inv:
  assumes "kernel_works K" "no_table s" "n \<noteq> 0" "unat n \<le> 20480" "list_all op_ok ops"
    and "add_ipv4_tbl_drv K m pub n h s = Some (0, 1, s0)" "drv_run K ops s0 = Some (rs, s')"
  shows "drv_inv (ip4_tbl s')"
proof -
  have K: "dma_works K" using assms(1) by (simp add: kernel_works_def)
  have "drv_inv (ip4_tbl s0)" using add_tbl_works [OF assms(1-4), of m pub h] assms(6) by auto
  from drv_run_refines [OF K this assms(5)] assms(7) show ?thesis by auto
qed

text \<open>
  C15: what the table holds is what the hardware finds: after every such sequence, a rule (but for
  the protocol 0xFF) is under some handle if and only if the chain of its destination hash leads to
  it, and if and only if the chain of its source hash in the index does.
\<close>

theorem nat_drv_lookup:
  assumes "kernel_works K" "no_table s" "n \<noteq> 0" "unat n \<le> 20480" "list_all op_ok ops"
    and "add_ipv4_tbl_drv K m pub n h s = Some (0, 1, s0)" "drv_run K ops s0 = Some (rs, s')"
    and "r_protocol c \<noteq> 0xFF"
  shows "(dst_lookup (ip4_tbl s') c \<noteq> []) = (c \<in> ran (nat_rules (ip4_tbl s'))) \<and>
    (src_lookup (ip4_tbl s') c \<noteq> []) = (c \<in> ran (nat_rules (ip4_tbl s')))"
  using reached_inv [OF assms(1-7)] assms(8) by (simp add: dst_lookup_rules src_lookup_rules)

text \<open>
  C21: a rule is refused only for want of room: if the entry of one of its two hashes is taken and
  no entry of the expansion table that would continue its chain is free. It is refused without a
  change of the state.
\<close>

theorem nat_drv_room:
  assumes "kernel_works K" "no_table s" "n \<noteq> 0" "unat n \<le> 20480" "list_all op_ok ops"
    and "add_ipv4_tbl_drv K m pub n h s = Some (0, 1, s0)" "drv_run K ops s0 = Some (rs, s')"
    and "r_protocol c \<noteq> 0xFF"
  shows "if nat_full (ip4_tbl s') c then add_ipv4_rule_drv K 1 c h' s' = Some (- EINVAL, h', s')
    else \<exists>hdl s''. add_ipv4_rule_drv K 1 c h' s' = Some (0, hdl, s'') \<and> dst_lookup (ip4_tbl s'') c \<noteq> []"
proof -
  have K: "dma_works K" using assms(1) by (simp add: kernel_works_def)
  note inv = reached_inv [OF assms(1-7)]
  note add = add_rule_refines [OF K inv assms(8), of h']
  show ?thesis
  proof (cases "nat_full (ip4_tbl s') c")
    case True
    with add show ?thesis by (simp add: add_ipv4_rule_drv_def EINVAL_nonzero)
  next
    case False
    with add obtain hdl s'' where "ipa_nati_add_ipv4_rule K c h' s' = Some (0, hdl, s'')" "drv_inv (ip4_tbl s'')"
      "nat_rules (ip4_tbl s'') = (nat_rules (ip4_tbl s'))(hdl \<mapsto> c)" by (simp only: if_False) blast
    moreover from this have "c \<in> ran (nat_rules (ip4_tbl s''))" by (auto intro: ranI [of _ hdl])
    ultimately show ?thesis using False dst_lookup_rules [of "ip4_tbl s''" c] assms(8)
      by (simp add: add_ipv4_rule_drv_def)
  qed
qed

text \<open>
  C39: the corrections the hardware applies to checksums are right: modulo \<open>2 ^ 16 - 1\<close>, which is
  how checksums add, they are the differences of what the translation replaces.
\<close>

theorem nat_checksums:
  "uint (ipa_nati_calc_ip_cksum pub priv) mod 65535 = (uint pub - uint priv) mod 65535 \<and>
   uint (ipa_nati_calc_tcp_udp_cksum pub pubport priv privport) mod 65535 =
     (uint pub + uint pubport - (uint priv + uint privport)) mod 65535"
  using ip_cksum_diff tcp_udp_cksum_diff by blast

text \<open>
  C40: up to 40960 entries, the base table has a power of two of entries, at least four fifths of
  what was asked and less than twice that, and the expansion table an even number, at least a fifth.
\<close>

theorem nat_table_sizes:
  assumes "n \<noteq> 0" "unat n \<le> 40960"
  shows "\<exists>t x k. table_sizes n = Some (t, x) \<and> unat t = 2 ^ k \<and>
    unat n * 4 div 5 \<le> unat t \<and> (2 < unat t \<longrightarrow> unat t < 2 * (unat n * 4 div 5)) \<and>
    unat n div 5 \<le> unat x \<and> unat x \<le> max 2 (unat n div 5 + 1) \<and> even (unat x)"
  using table_sizes_spec [OF assms] by blast

section \<open>Witnesses\<close>

text \<open>A kernel that executes what it is told.\<close>

definition test_kernel :: "unit nat_kernel" where
  "test_kernel =
    \<lparr>k_malloc = \<lambda>k. (True, k), k_open_ipa = \<lambda>k. (True, k), k_alloc_nat_mem = \<lambda>n k. (Some 0, k),
     k_open_nat = \<lambda>k. (True, k), k_mmap = \<lambda>k. (True, k), k_init_nat = \<lambda>c k. (True, k),
     k_close_nat = \<lambda>k. (True, k), k_del_nat = \<lambda>a k. (True, k),
     k_dma = \<lambda>cmds m k. (True, fold dma_write cmds m, k)\<rparr>"

definition test_drv :: "unit nat_drv" where
  "test_drv = \<lparr>ip4_tbl = no_tbl, table_cnt = 0, ipa_fd_open = False, kern = ()\<rparr>"

definition test_rule :: "u16 \<Rightarrow> ipa_nat_ipv4_rule" where
  "test_rule port =
    \<lparr>r_target_ip = 0x08080808, r_private_ip = 0xC0A80005, r_target_port = 53, r_private_port = port,
     r_public_port = port, r_protocol = 17\<rparr>"

text \<open>Two rules of one hash, the first of which goes again.\<close>

definition test_ops :: "nat_op list" where
  "test_ops = [AddRule (test_rule 4000), AddRule (test_rule 4004), DelRule 1, DelRule 1, QueryTime 2]"

lemma test_kernel_works: "kernel_works test_kernel"
  by (simp add: kernel_works_def dma_works_def test_kernel_def)

lemma test_no_table: "no_table test_drv"
  by (simp add: no_table_def test_drv_def)

lemma test_ops_ok: "list_all op_ok test_ops"
  by (simp add: test_ops_def test_rule_def)

definition test_tbl :: "(int32 \<times> u32 \<times> unit nat_drv) option" where
  "test_tbl = add_ipv4_tbl_drv test_kernel (tables no_tbl) 0x0A000001 5 0 test_drv"

definition test_result :: "((int32 \<times> u32) list \<times> unit nat_drv) option" where
  "test_result = Option.bind test_tbl (\<lambda>(rc, h, s). drv_run test_kernel test_ops s)"

lemma test_replies:
  "map_option fst test_result = Some [(0, 1), (0, 2), (0, 0), (- EINVAL, 0), (0, 0)]"
  by code_simp

lemma test_replies_run:
  obtains s0 s' where "add_ipv4_tbl_drv test_kernel (tables no_tbl) 0x0A000001 5 0 test_drv = Some (0, 1, s0)"
    "drv_run test_kernel test_ops s0 = Some ([(0, 1), (0, 2), (0, 0), (- EINVAL, 0), (0, 0)], s')"
    "test_result = Some ([(0, 1), (0, 2), (0, 0), (- EINVAL, 0), (0, 0)], s')"
proof -
  obtain s0 where s0: "add_ipv4_tbl_drv test_kernel (tables no_tbl) 0x0A000001 5 0 test_drv = Some (0, 1, s0)"
    using add_tbl_works [OF test_kernel_works test_no_table, of 5 "tables no_tbl" "0x0A000001" 0] by auto
  then have "test_result = drv_run test_kernel test_ops s0" by (simp add: test_result_def test_tbl_def)
  with test_replies obtain s' where
    "drv_run test_kernel test_ops s0 = Some ([(0, 1), (0, 2), (0, 0), (- EINVAL, 0), (0, 0)], s')"
    by (cases "drv_run test_kernel test_ops s0") auto
  with s0 \<open>test_result = _\<close> that show ?thesis by simp
qed

theorem nat_drv_refines_witness:
  "\<exists>s'. test_result = Some ([(0, 1), (0, 2), (0, 0), (- EINVAL, 0), (0, 0)], s') \<and>
    nat_rules (ip4_tbl s') = [2 \<mapsto> test_rule 4004]"
proof -
  obtain s0 s' where s: "add_ipv4_tbl_drv test_kernel (tables no_tbl) 0x0A000001 5 0 test_drv = Some (0, 1, s0)"
    "drv_run test_kernel test_ops s0 = Some ([(0, 1), (0, 2), (0, 0), (- EINVAL, 0), (0, 0)], s')"
    "test_result = Some ([(0, 1), (0, 2), (0, 0), (- EINVAL, 0), (0, 0)], s')" by (rule test_replies_run)
  obtain s1 rs s2 where r: "add_ipv4_tbl_drv test_kernel (tables no_tbl) 0x0A000001 5 0 test_drv = Some (0, 1, s1)"
    "drv_run test_kernel test_ops s1 = Some (rs, s2)"
    "spec_run test_ops rs Map.empty = Some (nat_rules (ip4_tbl s2))"
    using nat_drv_refines [OF test_kernel_works test_no_table _ _ test_ops_ok, of 5 "tables no_tbl" "0x0A000001" 0]
    by auto
  have "s1 = s0" using r(1) s(1) by simp
  with r(2) s(2) have "rs = [(0, 1), (0, 2), (0, 0), (- EINVAL, 0), (0, 0)]" "s2 = s'" by simp_all
  with r(3) have "spec_run test_ops [(0, 1), (0, 2), (0, 0), (- EINVAL, 0), (0, 0)] Map.empty =
      Some (nat_rules (ip4_tbl s'))" by simp
  then have "nat_rules (ip4_tbl s') = [2 \<mapsto> test_rule 4004]"
    by (simp add: test_ops_def EINVAL_nonzero)
  with s(3) show ?thesis by blast
qed

theorem nat_drv_lookup_witness:
  "\<exists>rs s'. test_result = Some (rs, s') \<and>
    (dst_lookup (ip4_tbl s') (test_rule 4004) \<noteq> []) = (test_rule 4004 \<in> ran (nat_rules (ip4_tbl s')))"
proof -
  obtain s0 s' where s: "add_ipv4_tbl_drv test_kernel (tables no_tbl) 0x0A000001 5 0 test_drv = Some (0, 1, s0)"
    "drv_run test_kernel test_ops s0 = Some ([(0, 1), (0, 2), (0, 0), (- EINVAL, 0), (0, 0)], s')"
    "test_result = Some ([(0, 1), (0, 2), (0, 0), (- EINVAL, 0), (0, 0)], s')" by (rule test_replies_run)
  have "r_protocol (test_rule 4004) \<noteq> 0xFF" by (simp add: test_rule_def)
  from nat_drv_lookup [OF test_kernel_works test_no_table _ _ test_ops_ok s(1,2) this] s(3)
  show ?thesis by auto
qed

lemma test_room: "map_option (\<lambda>(rc, h, s). map_option fst (add_ipv4_rule_drv test_kernel 1 (test_rule 4000) 0 s))
    test_tbl = Some (Some 0)"
  by code_simp

theorem nat_drv_room_witness:
  "\<exists>s0 hdl s''. test_tbl = Some (0, 1, s0) \<and> \<not> nat_full (ip4_tbl s0) (test_rule 4000) \<and>
    add_ipv4_rule_drv test_kernel 1 (test_rule 4000) 0 s0 = Some (0, hdl, s'') \<and>
    dst_lookup (ip4_tbl s'') (test_rule 4000) \<noteq> []"
proof -
  obtain s0 where s: "add_ipv4_tbl_drv test_kernel (tables no_tbl) 0x0A000001 5 0 test_drv = Some (0, 1, s0)"
    by (rule test_replies_run)
  then have t: "test_tbl = Some (0, 1, s0)" by (simp add: test_tbl_def)
  have p: "r_protocol (test_rule 4000) \<noteq> 0xFF" by (simp add: test_rule_def)
  have r: "drv_run test_kernel [] s0 = Some ([], s0)" by simp
  have ok: "list_all op_ok []" by simp
  note room = nat_drv_room [OF test_kernel_works test_no_table _ _ ok s r p, of 0]
  have "map_option fst (add_ipv4_rule_drv test_kernel 1 (test_rule 4000) 0 s0) = Some 0"
    using test_room [unfolded t] by simp
  then have "\<not> nat_full (ip4_tbl s0) (test_rule 4000)" using room by (auto simp: EINVAL_nonzero)
  moreover from this have "\<exists>hdl s''. add_ipv4_rule_drv test_kernel 1 (test_rule 4000) 0 s0 = Some (0, hdl, s'') \<and>
      dst_lookup (ip4_tbl s'') (test_rule 4000) \<noteq> []" using room by simp
  ultimately show ?thesis using t by blast
qed

theorem nat_table_sizes_witness: "\<exists>t x k. table_sizes 100 = Some (t, x) \<and> unat t = 2 ^ k \<and> 80 \<le> unat t \<and> unat t < 160"
  using nat_table_sizes [of 100] by auto

end
