(* ===== verification/NatStack.thy ===== *)
theory NatStack
  imports NatHw NatDrvThms
begin

text \<open>
  The connection tracker's listener over the NAT cache over the NAT driver: a connection that the
  cache has marked is the one that the hardware translates.
\<close>

section \<open>The driver as the cache calls it\<close>

text \<open>
  The state \<open>None\<close> is a driver that has accessed memory which is not its own. What the library of
  the connection tracker does is \<open>t_open\<close>, \<open>t_new\<close> and \<open>t_query\<close>.
\<close>

definition on_drv2 ::
  "('k nat_drv \<Rightarrow> (int32 \<times> 'k nat_drv) option) \<Rightarrow> 'k nat_drv option \<Rightarrow> int32 \<times> 'k nat_drv option" where
  "on_drv2 f d =
    (case Option.bind d f of None \<Rightarrow> (- 1, None) | Some (rc, s) \<Rightarrow> (rc, Some s))"

definition on_drv3 ::
  "('k nat_drv \<Rightarrow> (int32 \<times> u32 \<times> 'k nat_drv) option) \<Rightarrow> u32 \<Rightarrow> 'k nat_drv option \<Rightarrow>
   int32 \<times> u32 \<times> 'k nat_drv option" where
  "on_drv3 f x d =
    (case Option.bind d f of None \<Rightarrow> (- 1, x, None) | Some (rc, y, s) \<Rightarrow> (rc, y, Some s))"

definition on_kern :: "('k \<Rightarrow> 'r \<times> 'k) \<Rightarrow> 'r \<Rightarrow> 'k nat_drv option \<Rightarrow> 'r \<times> 'k nat_drv option" where
  "on_kern f r d =
    (case d of None \<Rightarrow> (r, None) | Some s \<Rightarrow> (case f (kern s) of (r, k) \<Rightarrow> (r, Some (s\<lparr>kern := k\<rparr>))))"

definition ipanat ::
  "'k nat_kernel \<Rightarrow> nat_mem \<Rightarrow> ('k \<Rightarrow> bool \<times> 'k) \<Rightarrow> ('k \<Rightarrow> bool \<times> 'k) \<Rightarrow> (ct_update \<Rightarrow> 'k \<Rightarrow> int32 \<times> 'k) \<Rightarrow>
   'k nat_drv option nat_driver" where
  "ipanat K m t_open t_new t_query =
    \<lparr>ipa_nat_add_ipv4_tbl = (\<lambda>ip n h. on_drv3 (add_ipv4_tbl_drv K m ip n h) h),
     ipa_nat_del_ipv4_tbl = (\<lambda>h. on_drv2 (del_ipv4_tbl_drv K h)),
     ipa_nat_add_ipv4_rule = (\<lambda>tbl c h. on_drv3 (add_ipv4_rule_drv K tbl c h) h),
     ipa_nat_del_ipv4_rule = (\<lambda>tbl h. on_drv2 (del_ipv4_rule_drv K tbl h)),
     ipa_nat_query_timestamp = (\<lambda>tbl h ts. on_drv3 (query_timestamp_drv tbl h ts) ts),
     nfct_open = on_kern t_open False, nfct_new = on_kern t_new False,
     nfct_query_update = (\<lambda>u. on_kern (t_query u) (- 1))\<rparr>"

section \<open>The contract\<close>

text \<open>The kernel also gives back what it gave.\<close>

definition kernel_closes :: "'k nat_kernel \<Rightarrow> bool" where
  "kernel_closes K \<longleftrightarrow> (\<forall>k. fst (k_close_nat K k)) \<and> (\<forall>a k. fst (k_del_nat K a k))"

definition drv_rules :: "'k nat_drv option \<Rightarrow> u32 \<Rightarrow> ipa_nat_ipv4_rule option" where
  "drv_rules d = (case d of None \<Rightarrow> Map.empty | Some s \<Rightarrow> nat_rules (ip4_tbl s))"

definition drv_ready :: "'k nat_kernel \<Rightarrow> 'k nat_drv option \<Rightarrow> bool" where
  "drv_ready K d \<longleftrightarrow> kernel_works K \<and> kernel_closes K \<and>
     (case d of None \<Rightarrow> False | Some s \<Rightarrow> drv_inv (ip4_tbl s) \<and> table_cnt s = 1)"

definition drv_absent :: "'k nat_kernel \<Rightarrow> 'k nat_drv option \<Rightarrow> bool" where
  "drv_absent K d \<longleftrightarrow> kernel_works K \<and> kernel_closes K \<and> (case d of None \<Rightarrow> False | Some s \<Rightarrow> no_table s)"

definition nat_size_ok :: "u16 \<Rightarrow> bool" where
  "nat_size_ok n \<longleftrightarrow> n \<noteq> 0 \<and> unat n \<le> 20480"

lemma drv_readyD:
  assumes "drv_ready K d"
  obtains s where "d = Some s" "drv_inv (ip4_tbl s)" "table_cnt s = 1" "dma_works K" "kernel_closes K" "kernel_works K"
  using assms by (auto simp: drv_ready_def kernel_works_def split: option.splits)

lemma drv_absentD:
  assumes "drv_absent K d"
  obtains s where "d = Some s" "no_table s" "kernel_works K" "kernel_closes K"
  using assms by (auto simp: drv_absent_def split: option.splits)

lemma remove_works:
  assumes "kernel_closes K" "drv_inv (ip4_tbl s)" "table_cnt s = 1"
  shows "\<exists>s'. del_ipv4_tbl_drv K 1 s = Some (0, s') \<and> no_table s'"
proof -
  have v: "valid (ip4_tbl s)" using assms(2) by (auto simp: drv_inv_def dest: tbl_sizes_okD(12))
  obtain k1 where k1: "k_close_nat K (kern s) = (True, k1)"
    using assms(1) unfolding kernel_closes_def by (metis prod.collapse)
  obtain k2 where k2: "k_del_nat K (public_addr (ip4_tbl s)) k1 = (True, k2)"
    using assms(1) unfolding kernel_closes_def by (metis prod.collapse)
  show ?thesis using v k1 k2 assms(3)
    by (simp add: del_ipv4_tbl_drv_def ipa_nati_del_ipv4_table_def get_tbl_def no_table_def)
qed

lemma neg_EINVAL [simp]: "- EINVAL <s 0" "\<not> (0 :: int32) <s 0"
  by (simp_all add: EINVAL_def word_sless_alt)

lemma add_contract:
  assumes "drv_ready K d" "r_protocol c \<noteq> 0xFF"
  shows "\<exists>rc hdl d'. on_drv3 (add_ipv4_rule_drv K 1 c h) h d = (rc, hdl, d') \<and> drv_ready K d' \<and>
    (if rc <s 0 then drv_rules d' = drv_rules d
     else drv_rules d hdl = None \<and> drv_rules d' = (drv_rules d)(hdl \<mapsto> c))"
proof -
  obtain s where s: "d = Some s" "drv_inv (ip4_tbl s)" "table_cnt s = 1" "dma_works K" "kernel_closes K" "kernel_works K"
    using assms(1) by (rule drv_readyD)
  note add = add_rule_refines [OF s(4,2) assms(2), of h]
  show ?thesis
  proof (cases "nat_full (ip4_tbl s) c")
    case True
    then have "add_ipv4_rule_drv K 1 c h s = Some (- EINVAL, h, s)"
      using add by (simp add: add_ipv4_rule_drv_def EINVAL_nonzero)
    then show ?thesis using assms(1) s(1) by (simp add: on_drv3_def)
  next
    case False
    with add obtain hdl s' where a: "ipa_nati_add_ipv4_rule K c h s = Some (0, hdl, s')" "drv_inv (ip4_tbl s')"
      "nat_rules (ip4_tbl s) hdl = None" "nat_rules (ip4_tbl s') = (nat_rules (ip4_tbl s))(hdl \<mapsto> c)"
      "\<exists>t k. s' = s\<lparr>ip4_tbl := t, kern := k\<rparr>" by (simp only: if_False) blast
    then have "add_ipv4_rule_drv K 1 c h s = Some (0, hdl, s')" "table_cnt s' = 1"
      using s(3) by (auto simp: add_ipv4_rule_drv_def)
    then show ?thesis using a s by (simp add: on_drv3_def drv_ready_def drv_rules_def)
  qed
qed

lemma delete_contract:
  assumes "drv_ready K d" "drv_rules d h = Some c"
  shows "\<exists>d'. on_drv2 (del_ipv4_rule_drv K 1 h) d = (0, d') \<and> drv_ready K d' \<and> drv_rules d' = (drv_rules d)(h := None)"
proof -
  obtain s where s: "d = Some s" "drv_inv (ip4_tbl s)" "table_cnt s = 1" "dma_works K" "kernel_closes K" "kernel_works K"
    using assms(1) by (rule drv_readyD)
  have c: "nat_rules (ip4_tbl s) h = Some c" using assms(2) s(1) by (simp add: drv_rules_def)
  then have h: "h \<noteq> 0" using nat_rules_range by blast
  from del_rule_refines [OF s(4,2) c] obtain s' where
    "ipa_nati_del_ipv4_rule K 1 h s = Some (0, s')" "drv_inv (ip4_tbl s')"
    "nat_rules (ip4_tbl s') = (nat_rules (ip4_tbl s))(h := None)" "\<exists>t k. s' = s\<lparr>ip4_tbl := t, kern := k\<rparr>" by blast
  then show ?thesis using s h
    by (auto simp: on_drv2_def del_ipv4_rule_drv_def drv_ready_def drv_rules_def)
qed

lemma query_contract:
  assumes "drv_ready K d" "drv_rules d h = Some c"
  shows "\<exists>rc ts d'. on_drv3 (query_timestamp_drv 1 h ts0) ts0 d = (rc, ts, d') \<and> drv_ready K d' \<and> drv_rules d' = drv_rules d"
proof -
  obtain s where s: "d = Some s" "drv_inv (ip4_tbl s)" using assms(1) by (rule drv_readyD)
  have c: "nat_rules (ip4_tbl s) h = Some c" using assms(2) s(1) by (simp add: drv_rules_def)
  have z: "tbl_sizes_ok (ip4_tbl s)" using s(2) by (simp add: drv_inv_def)
  have h: "h \<noteq> 0" "unat h < 2 ^ 16" using nat_rules_range [OF c] tbl_sizes_okD(2,4) [OF z] by simp_all
  from query_works [OF s(2) h, of ts0] obtain ts where "query_timestamp_drv 1 h ts0 s = Some (0, ts, s)" by blast
  then show ?thesis using assms(1) s(1) by (simp add: on_drv3_def)
qed

lemma on_kern_ready: "drv_ready K d \<Longrightarrow> drv_ready K (snd (on_kern f r d)) \<and> drv_rules (snd (on_kern f r d)) = drv_rules d"
  by (auto simp: on_kern_def drv_ready_def drv_rules_def split: option.splits prod.splits)

interpretation ipanat: nat_contract "ipanat K m t_open t_new t_query" drv_rules "drv_ready K" "drv_absent K" nat_size_ok
  for K :: "'k nat_kernel" and m t_open t_new t_query
proof
  fix d :: "'k nat_drv option"
  show "\<exists>d'. ipa_nat_add_ipv4_tbl (ipanat K m t_open t_new t_query) ip n h d = (0, 1, d') \<and> drv_ready K d' \<and>
      drv_rules d' = Map.empty" if a: "drv_absent K d" "nat_size_ok n" for ip n h
  proof -
    obtain s where s: "d = Some s" "no_table s" "kernel_works K" "kernel_closes K" using a(1) by (rule drv_absentD)
    have n: "n \<noteq> 0" "unat n \<le> 20480" using a(2) by (simp_all add: nat_size_ok_def)
    from add_tbl_works [OF s(3,2) n, of m ip h] obtain s' where
      "add_ipv4_tbl_drv K m ip n h s = Some (0, 1, s')" "drv_inv (ip4_tbl s')"
      "nat_rules (ip4_tbl s') = Map.empty" "table_cnt s' = 1" by blast
    then show ?thesis using s by (simp add: ipanat_def on_drv3_def drv_ready_def drv_rules_def)
  qed
  show "\<exists>d'. ipa_nat_del_ipv4_tbl (ipanat K m t_open t_new t_query) 1 d = (0, d') \<and> drv_absent K d'"
    if r: "drv_ready K d"
  proof -
    obtain s where s: "d = Some s" "drv_inv (ip4_tbl s)" "table_cnt s = 1" "kernel_closes K" "kernel_works K"
      using r by (rule drv_readyD)
    from remove_works [OF s(4,2,3)] obtain s' where "del_ipv4_tbl_drv K 1 s = Some (0, s')" "no_table s'" by blast
    then show ?thesis using s by (simp add: ipanat_def on_drv2_def drv_absent_def)
  qed
  show "\<exists>rc hdl d'. ipa_nat_add_ipv4_rule (ipanat K m t_open t_new t_query) 1 c h d = (rc, hdl, d') \<and>
      drv_ready K d' \<and> (if rc <s 0 then drv_rules d' = drv_rules d
        else drv_rules d hdl = None \<and> drv_rules d' = (drv_rules d)(hdl \<mapsto> c))"
    if "drv_ready K d" "r_protocol c \<noteq> 0xFF" for c h
    using add_contract [OF that] by (simp add: ipanat_def)
  show "\<exists>d'. ipa_nat_del_ipv4_rule (ipanat K m t_open t_new t_query) 1 h d = (0, d') \<and> drv_ready K d' \<and>
      drv_rules d' = (drv_rules d)(h := None)" if "drv_ready K d" "drv_rules d h = Some c" for h c
    using delete_contract [OF that] by (simp add: ipanat_def)
  show "\<exists>rc ts d'. ipa_nat_query_timestamp (ipanat K m t_open t_new t_query) 1 h ts0 d = (rc, ts, d') \<and>
      drv_ready K d' \<and> drv_rules d' = drv_rules d" if "drv_ready K d" "drv_rules d h = Some c" for h ts0 c
    using query_contract [OF that] by (simp add: ipanat_def)
  show "drv_ready K d \<Longrightarrow> drv_ready K (snd (nfct_open (ipanat K m t_open t_new t_query) d)) \<and>
      drv_rules (snd (nfct_open (ipanat K m t_open t_new t_query) d)) = drv_rules d"
    "drv_ready K d \<Longrightarrow> drv_ready K (snd (nfct_new (ipanat K m t_open t_new t_query) d)) \<and>
      drv_rules (snd (nfct_new (ipanat K m t_open t_new t_query) d)) = drv_rules d"
    "drv_ready K d \<Longrightarrow> drv_ready K (snd (nfct_query_update (ipanat K m t_open t_new t_query) u d)) \<and>
      drv_rules (snd (nfct_query_update (ipanat K m t_open t_new t_query) u d)) = drv_rules d" for u
    by (simp_all add: ipanat_def on_kern_ready)
  assume "drv_absent K d"
  then obtain s where s: "d = Some s" by (rule drv_absentD)
  show "\<exists>rc hdl. ipa_nat_add_ipv4_rule (ipanat K m t_open t_new t_query) 0 c h d = (rc, hdl, d) \<and> rc <s 0" for c h
    by (simp add: ipanat_def s on_drv3_def add_ipv4_rule_drv_def)
  show "\<exists>rc. ipa_nat_del_ipv4_rule (ipanat K m t_open t_new t_query) 0 h d = (rc, d) \<and> rc <s 0" for h
    by (simp add: ipanat_def s on_drv2_def del_ipv4_rule_drv_def)
  show "\<exists>rc ts. ipa_nat_query_timestamp (ipanat K m t_open t_new t_query) 0 h ts0 d = (rc, ts, d) \<and> rc <s 0" for h ts0
    by (simp add: ipanat_def s on_drv3_def query_timestamp_drv_def)
qed

section \<open>What the hardware translates\<close>

lemma distinct_filtered:
  "(\<And>i j. i < length xs \<Longrightarrow> j < length xs \<Longrightarrow> P (xs ! i) \<Longrightarrow> P (xs ! j) \<Longrightarrow> f (xs ! i) = f (xs ! j) \<Longrightarrow> i = j) \<Longrightarrow>
   distinct (map f (filter P xs))"
proof (induction xs)
  case (Cons x xs)
  have "f y \<noteq> f x" if y: "P x" "y \<in> set xs" "P y" for y
  proof -
    obtain i where "i < length xs" "xs ! i = y" using y(2) by (auto simp: in_set_conv_nth)
    then show ?thesis using Cons.prems [of "Suc i" 0] y by auto
  qed
  then have "f x \<notin> f ` {y \<in> set xs. P y}" if "P x" using that by (metis (mono_tags, lifting) imageE mem_Collect_eq)
  moreover have "distinct (map f (filter P xs))" by (rule Cons.IH) (use Cons.prems [of "Suc i" "Suc j" for i j] in simp)
  ultimately show ?case by simp
qed simp

text \<open>A cache that agrees with the rules: each rule is an \<open>enabled\<close> slot under its handle.\<close>

lemma hw_agrees_rules:
  assumes "hw_agrees (length es) R es"
  shows "R h = Some c \<longleftrightarrow> (\<exists>e \<in> set es. enabled e \<and> rule_hdl e = h \<and> nat_rule_of e = c)"
    "distinct (map rule_hdl (filter enabled es))"
proof -
  note D = hw_agreesD [OF assms]
  show "R h = Some c \<longleftrightarrow> (\<exists>e \<in> set es. enabled e \<and> rule_hdl e = h \<and> nat_rule_of e = c)"
  proof
    assume h: "R h = Some c"
    then obtain i where "i < length es" "enabled (es ! i)" "rule_hdl (es ! i) = h" using D(3) [of h] by auto
    then show "\<exists>e \<in> set es. enabled e \<and> rule_hdl e = h \<and> nat_rule_of e = c"
      using D(1) [of i] h by (intro bexI [of _ "es ! i"]) auto
  next
    assume "\<exists>e \<in> set es. enabled e \<and> rule_hdl e = h \<and> nat_rule_of e = c"
    then show "R h = Some c" using D(1) by (auto simp: in_set_conv_nth)
  qed
  show "distinct (map rule_hdl (filter enabled es))" using D(2) by (intro distinct_filtered) blast
qed

text \<open>
  C2: the whole stack, under these conditions: the calls of the kernel driver do what they are asked
  and closing it leaves no table; the cache has at most 20480 entries; every WAN link that comes or
  goes has the same address \<open>a\<close>; and the run is not one that \<open>CacheEntry\<close> takes out of its array by the
  counter it does not set. Then after any events the driver has accessed no foreign memory; while
  the link is up, the rules in its table are exactly the connections that the cache has marked
  \<open>enabled\<close>, each under the handle in its slot, and a packet (but for the protocol 0xFF) finds a
  rule, by both hashes, if and only if its connection is one of them; while the link is down, there
  is no table. With a second address it does not hold: \<open>NatApp::Reset\<close> then leaves slots \<open>enabled\<close> with
  handles of the table that is gone (\<open>nat_stale_handle\<close> in \<open>NatProps\<close>).
\<close>

theorem nat_hardware_follows_cache:
  assumes "kernel_works K" "kernel_closes K" "no_table d" "nat_size_ok (of_nat n)"
    and "NatApp_Init n algs pre pwr tcp udp (Some d) = Some app" "length pwr = IPA_MAX_NUM_WIFI_CLIENTS"
    and "list_all (wan_event a) es"
    and "ct_run (ipanat K m t_open t_new t_query) es (ConntrackListener ifaces subnets wan sta app) = Some s"
  shows "\<exists>d'. drv (nat_inst s) = Some d' \<and>
    (if WanUp s then
       (\<forall>h c. (nat_rules (ip4_tbl d') h = Some c) =
          (\<exists>e \<in> set (cache (nat_inst s)). enabled e \<and> rule_hdl e = h \<and> nat_rule_of e = c)) \<and>
       distinct (map rule_hdl (filter enabled (cache (nat_inst s)))) \<and>
       (\<forall>c. r_protocol c \<noteq> 0xFF \<longrightarrow>
          (dst_lookup (ip4_tbl d') c \<noteq> []) = (\<exists>e \<in> set (cache (nat_inst s)). enabled e \<and> nat_rule_of e = c) \<and>
          (src_lookup (ip4_tbl d') c \<noteq> []) = (\<exists>e \<in> set (cache (nat_inst s)). enabled e \<and> nat_rule_of e = c))
     else no_table d')"
proof -
  have "drv_absent K (Some d)" using assms(1-3) by (simp add: drv_absent_def)
  note follows = ipanat.hardware_follows [OF this assms(4-8)]
  let ?es = "cache (nat_inst s)"
  show ?thesis
  proof (cases "WanUp s")
    case False
    with follows show ?thesis by (auto simp: drv_absent_def split: option.splits)
  next
    case True
    with follows have f: "drv_ready K (drv (nat_inst s))" "hw_agrees n (drv_rules (drv (nat_inst s))) ?es" by simp_all
    from f(1) obtain d' where d': "drv (nat_inst s) = Some d'" "drv_inv (ip4_tbl d')" by (rule drv_readyD)
    have n: "length ?es = n"
      using keeps_ct_run [OF _ assms(8)] NatApp_Init_ok [OF assms(5,6)] by (simp add: ConntrackListener_def keeps_def)
    have "hw_agrees (length ?es) (nat_rules (ip4_tbl d')) ?es" using f(2) d'(1) n by (simp add: drv_rules_def)
    note rules = hw_agrees_rules [OF this]
    have "c \<in> ran (nat_rules (ip4_tbl d')) \<longleftrightarrow> (\<exists>e \<in> set ?es. enabled e \<and> nat_rule_of e = c)" for c
      unfolding ran_def using rules(1) by blast
    then show ?thesis using True d' rules dst_lookup_rules [OF d'(2)] src_lookup_rules [OF d'(2)] by simp
  qed
qed

text \<open>A client comes, the link goes up, its first datagram is translated, and it leaves again.\<close>

definition test_stack :: "ct_event list \<Rightarrow> unit nat_drv option ct_listener option" where
  "test_stack es =
    Option.bind (NatApp_Init 5 [(6, 21)] 0 (replicate IPA_MAX_NUM_WIFI_CLIENTS 0) 0 0 (Some test_drv))
      (\<lambda>app. ct_run (ipanat test_kernel (tables no_tbl) (\<lambda>k. (True, k)) (\<lambda>k. (True, k)) (\<lambda>u k. (0, k))) es
         (ConntrackListener [''rndis0''] [(0xC0A80000, 0xFFFF0000)] 0 False app))"

definition test_conn_rule :: ipa_nat_ipv4_rule where
  "test_conn_rule = \<lparr>r_target_ip = 0x08080808, r_private_ip = 0xC0A80005, r_target_port = 53,
     r_private_port = 5000, r_public_port = 4000, r_protocol = 17\<rparr>"

lemma test_stack_runs:
  "map_option (\<lambda>s. (WanUp s, cache (nat_inst s) \<noteq> [],
       (\<lambda>e. (enabled e, rule_hdl e, nat_rule_of e)) (hd (cache (nat_inst s))))) (test_stack test_events) =
     Some (True, True, True, 1, test_conn_rule)"
  by code_simp

lemma test_kernel_closes: "kernel_closes test_kernel"
  by (simp add: kernel_closes_def test_kernel_def)

theorem nat_hardware_follows_cache_witness:
  "\<exists>s d'. test_stack test_events = Some s \<and> drv (nat_inst s) = Some d' \<and>
    nat_rules (ip4_tbl d') 1 = Some test_conn_rule \<and> dst_lookup (ip4_tbl d') test_conn_rule \<noteq> []"
proof -
  obtain s where s: "test_stack test_events = Some s" "WanUp s" "cache (nat_inst s) \<noteq> []"
    "enabled (hd (cache (nat_inst s)))" "rule_hdl (hd (cache (nat_inst s))) = 1"
    "nat_rule_of (hd (cache (nat_inst s))) = test_conn_rule"
    using test_stack_runs by (cases "test_stack test_events") auto
  obtain app where app: "NatApp_Init 5 [(6, 21)] 0 (replicate IPA_MAX_NUM_WIFI_CLIENTS 0) 0 0 (Some test_drv) = Some app"
    "ct_run (ipanat test_kernel (tables no_tbl) (\<lambda>k. (True, k)) (\<lambda>k. (True, k)) (\<lambda>u k. (0, k))) test_events
         (ConntrackListener [''rndis0''] [(0xC0A80000, 0xFFFF0000)] 0 False app) = Some s"
    using s(1) unfolding test_stack_def by (auto split: Option.bind_splits)
  have size: "nat_size_ok (of_nat 5)" by (simp add: nat_size_ok_def)
  have ev: "list_all (wan_event 0x0A000001) test_events" by (simp add: test_events_def wan_event_def)
  have pwr: "length (replicate IPA_MAX_NUM_WIFI_CLIENTS (0 :: u32)) = IPA_MAX_NUM_WIFI_CLIENTS" by simp
  from nat_hardware_follows_cache [OF test_kernel_works test_kernel_closes test_no_table size app(1) pwr ev app(2)]
  obtain d' where d': "drv (nat_inst s) = Some d'"
    "\<And>h c. (nat_rules (ip4_tbl d') h = Some c) =
       (\<exists>e \<in> set (cache (nat_inst s)). enabled e \<and> rule_hdl e = h \<and> nat_rule_of e = c)"
    "\<And>c. r_protocol c \<noteq> 0xFF \<Longrightarrow>
       (dst_lookup (ip4_tbl d') c \<noteq> []) = (\<exists>e \<in> set (cache (nat_inst s)). enabled e \<and> nat_rule_of e = c)"
    using s(2) by auto
  have e: "hd (cache (nat_inst s)) \<in> set (cache (nat_inst s))" using s(3) by simp
  have "r_protocol test_conn_rule \<noteq> 0xFF" by (simp add: test_conn_rule_def)
  then have "nat_rules (ip4_tbl d') 1 = Some test_conn_rule" "dst_lookup (ip4_tbl d') test_conn_rule \<noteq> []"
    using d'(2,3) e s(4-6) by blast+
  then show ?thesis using s(1) d'(1) by blast
qed

end
