(* ===== verification/LinkedList.thy ===== *)
theory LinkedList
  imports Prelude
begin

text \<open>
  The doubly linked list of \<open>gps/utils/linked_list.c\<close>, on an explicit memory: one function per
  field of its two structs, from the address of the struct. Each C function is the sequence of its
  assignments; what \<open>malloc\<close> and \<open>calloc\<close> return is an argument. The walk over the list
  follows the pointers and may not end; the lemmas show that it does on a well-formed list
  (\<open>is_list\<close>), and which list of data each function leaves.
\<close>

section \<open>The memory\<close>

datatype linked_list_err =
    eLINKED_LIST_SUCCESS
  | eLINKED_LIST_FAILURE_GENERAL
  | eLINKED_LIST_INVALID_PARAMETER
  | eLINKED_LIST_INVALID_HANDLE
  | eLINKED_LIST_UNAVAILABLE_RESOURCE
  | eLINKED_LIST_INSUFFICIENT_BUFFER

text \<open>
  \<open>list_state\<close> has \<open>p_head\<close> and \<open>p_tail\<close>; \<open>list_element\<close> has the other four. \<open>deallocs\<close>
  lists the calls of deallocation functions (which function, with which data), \<open>freed\<close> the
  elements given back.
\<close>

record ll_mem =
  p_head :: "ptr \<Rightarrow> ptr"
  p_tail :: "ptr \<Rightarrow> ptr"
  le_next :: "ptr \<Rightarrow> ptr"
  le_prev :: "ptr \<Rightarrow> ptr"
  data_ptr :: "ptr \<Rightarrow> ptr"
  dealloc_func :: "ptr \<Rightarrow> ptr"
  deallocs :: "(ptr \<times> ptr) list"
  freed :: "ptr list"

definition put_head :: "ptr \<Rightarrow> ptr \<Rightarrow> ll_mem \<Rightarrow> ll_mem" where
  "put_head l v h = h\<lparr>p_head := (p_head h)(l := v)\<rparr>"

definition put_tail :: "ptr \<Rightarrow> ptr \<Rightarrow> ll_mem \<Rightarrow> ll_mem" where
  "put_tail l v h = h\<lparr>p_tail := (p_tail h)(l := v)\<rparr>"

definition put_le_next :: "ptr \<Rightarrow> ptr \<Rightarrow> ll_mem \<Rightarrow> ll_mem" where
  "put_le_next e v h = h\<lparr>le_next := (le_next h)(e := v)\<rparr>"

definition put_le_prev :: "ptr \<Rightarrow> ptr \<Rightarrow> ll_mem \<Rightarrow> ll_mem" where
  "put_le_prev e v h = h\<lparr>le_prev := (le_prev h)(e := v)\<rparr>"

definition put_data :: "ptr \<Rightarrow> ptr \<Rightarrow> ptr \<Rightarrow> ll_mem \<Rightarrow> ll_mem" where
  "put_data e d f h = h\<lparr>data_ptr := (data_ptr h)(e := d), dealloc_func := (dealloc_func h)(e := f)\<rparr>"

definition call_dealloc :: "ptr \<Rightarrow> ptr \<Rightarrow> ll_mem \<Rightarrow> ll_mem" where
  "call_dealloc f d h = h\<lparr>deallocs := deallocs h @ [(f, d)]\<rparr>"

definition free_elem :: "ptr \<Rightarrow> ll_mem \<Rightarrow> ll_mem" where
  "free_elem e h = h\<lparr>freed := freed h @ [e]\<rparr>"

lemmas ll_puts = put_head_def put_tail_def put_le_next_def put_le_prev_def put_data_def
  call_dealloc_def free_elem_def

section \<open>The functions of linked_list.c\<close>

text \<open>The first argument says whether \<open>list_data\<close> is a pointer, the second is what \<open>calloc\<close> returns.\<close>

definition linked_list_init ::
  "bool \<Rightarrow> ptr \<Rightarrow> ll_mem \<Rightarrow> linked_list_err \<times> ptr option \<times> ll_mem" where
  "linked_list_init list_data tmp_list h =
    (if \<not> list_data then (eLINKED_LIST_INVALID_PARAMETER, None, h)
     else if tmp_list = NULL then (eLINKED_LIST_FAILURE_GENERAL, None, h)
     else
       let h = put_head tmp_list NULL h;
           h = put_tail tmp_list NULL h
       in (eLINKED_LIST_SUCCESS, Some tmp_list, h))"

definition linked_list_add ::
  "ptr \<Rightarrow> ptr \<Rightarrow> ptr \<Rightarrow> ptr \<Rightarrow> ll_mem \<Rightarrow> linked_list_err \<times> ll_mem" where
  "linked_list_add elem p_list data_obj dealloc h =
    (if p_list = NULL then (eLINKED_LIST_INVALID_HANDLE, h)
     else if data_obj = NULL then (eLINKED_LIST_INVALID_PARAMETER, h)
     else if elem = NULL then (eLINKED_LIST_FAILURE_GENERAL, h)
     else
       let h = put_data elem data_obj dealloc h;
           h = put_le_next elem NULL h;
           h = put_le_prev elem NULL h;
           tmp = p_head h p_list;
           h = put_head p_list elem h;
           h = put_le_next (p_head h p_list) tmp h;
           h = (if tmp \<noteq> NULL then put_le_prev tmp (p_head h p_list) h
                else put_tail p_list (p_head h p_list) h)
       in (eLINKED_LIST_SUCCESS, h))"

text \<open>The second result is \<open>*data_obj\<close>, where it is set.\<close>

definition linked_list_remove ::
  "ptr \<Rightarrow> bool \<Rightarrow> ll_mem \<Rightarrow> linked_list_err \<times> ptr option \<times> ll_mem" where
  "linked_list_remove p_list data_obj h =
    (if p_list = NULL then (eLINKED_LIST_INVALID_HANDLE, None, h)
     else if \<not> data_obj then (eLINKED_LIST_INVALID_PARAMETER, None, h)
     else if p_tail h p_list = NULL then (eLINKED_LIST_UNAVAILABLE_RESOURCE, None, h)
     else
       let tmp = p_tail h p_list;
           h = put_tail p_list (le_prev h tmp) h;
           h = (if p_tail h p_list \<noteq> NULL then put_le_next (p_tail h p_list) NULL h
                else put_head p_list (p_tail h p_list) h);
           d = data_ptr h tmp
       in (eLINKED_LIST_SUCCESS, Some d, free_elem tmp h))"

definition linked_list_empty :: "ptr \<Rightarrow> ll_mem \<Rightarrow> int" where
  "linked_list_empty p_list h =
    (if p_list = NULL then - 3 else if p_head h p_list = NULL then 1 else 0)"

text \<open>The loop of \<open>linked_list_flush\<close>.\<close>

partial_function (option) ll_flush_loop :: "ptr \<Rightarrow> ll_mem \<Rightarrow> ll_mem option" where
  "ll_flush_loop p_list h =
    (if p_head h p_list = NULL then Some h
     else
       let e = p_head h p_list;
           tmp = le_next h e;
           h = (if dealloc_func h e \<noteq> NULL then call_dealloc (dealloc_func h e) (data_ptr h e) h else h);
           h = free_elem e h
       in ll_flush_loop p_list (put_head p_list tmp h))"

definition linked_list_flush :: "ptr \<Rightarrow> ll_mem \<Rightarrow> (linked_list_err \<times> ll_mem) option" where
  "linked_list_flush p_list h =
    (if p_list = NULL then Some (eLINKED_LIST_INVALID_HANDLE, h)
     else case ll_flush_loop p_list h of
       None \<Rightarrow> None
     | Some h \<Rightarrow> Some (eLINKED_LIST_SUCCESS, put_tail p_list NULL h))"

text \<open>
  \<open>linked_list_destroy\<close> flushes the list and frees its \<open>list_state\<close>: the caller's pointer is
  NULL afterwards.
\<close>

definition linked_list_destroy ::
  "ptr option \<Rightarrow> ll_mem \<Rightarrow> (linked_list_err \<times> ptr option \<times> ll_mem) option" where
  "linked_list_destroy list_data h =
    (case list_data of
       None \<Rightarrow> Some (eLINKED_LIST_INVALID_HANDLE, None, h)
     | Some p_list \<Rightarrow>
         (case linked_list_flush p_list h of
            None \<Rightarrow> None
          | Some (_, h) \<Rightarrow> Some (eLINKED_LIST_SUCCESS, Some NULL, h)))"

text \<open>
  The loop of \<open>linked_list_search\<close>: the callback \<open>equal\<close> may change a state of the caller's;
  the walk stops at the first element it accepts.
\<close>

partial_function (option) search_loop ::
  "(ptr \<Rightarrow> 's \<Rightarrow> bool \<times> 's) \<Rightarrow> ll_mem \<Rightarrow> ptr \<Rightarrow> 's \<Rightarrow> (ptr \<times> 's) option" where
  "search_loop equal h tmp s =
    (if tmp = NULL then Some (NULL, s)
     else
       let r = equal (data_ptr h tmp) s
       in if fst r then Some (tmp, snd r) else search_loop equal h (le_next h tmp) (snd r))"

text \<open>
  \<open>data_p\<close> is None when the caller passes NULL for it, and else what it holds: it keeps that when
  the list is empty. Taken out of the list, the data is deallocated if the caller does not get it.
\<close>

definition unlink_elem :: "ptr \<Rightarrow> ptr \<Rightarrow> ll_mem \<Rightarrow> ll_mem" where
  "unlink_elem p_list tmp h =
    (let h = (if le_prev h tmp = NULL then put_head p_list (le_next h tmp) h
              else put_le_next (le_prev h tmp) (le_next h tmp) h);
         h = (if le_next h tmp = NULL then put_tail p_list (le_prev h tmp) h
              else put_le_prev (le_next h tmp) (le_prev h tmp) h);
         h = put_le_next tmp NULL h
     in put_le_prev tmp NULL h)"

definition linked_list_search ::
  "ptr \<Rightarrow> ptr option \<Rightarrow> (ptr \<Rightarrow> 's \<Rightarrow> bool \<times> 's) option \<Rightarrow> bool \<Rightarrow> 's \<Rightarrow> ll_mem \<Rightarrow>
   (linked_list_err \<times> ptr option \<times> 's \<times> ll_mem) option" where
  "linked_list_search p_list data_p equal rm_if_found s h =
    (case equal of
       None \<Rightarrow> Some (eLINKED_LIST_INVALID_HANDLE, data_p, s, h)
     | Some equal \<Rightarrow>
         if p_list = NULL then Some (eLINKED_LIST_INVALID_HANDLE, data_p, s, h)
         else if p_tail h p_list = NULL then Some (eLINKED_LIST_UNAVAILABLE_RESOURCE, data_p, s, h)
         else case search_loop equal h (p_head h p_list) s of
                None \<Rightarrow> None
              | Some (tmp, s) \<Rightarrow>
                  if tmp = NULL then
                    Some (eLINKED_LIST_SUCCESS, if data_p = None then None else Some NULL, s, h)
                  else
                    let d = data_ptr h tmp;
                        h = (if \<not> rm_if_found then h
                             else
                               let h = unlink_elem p_list tmp h;
                                   h = (if data_p = None \<and> dealloc_func h tmp \<noteq> NULL
                                        then call_dealloc (dealloc_func h tmp) d h else h)
                               in free_elem tmp h)
                    in Some (eLINKED_LIST_SUCCESS, if data_p = None then None else Some d, s, h))"

section \<open>Well-formed lists\<close>

text \<open>
  \<open>seg h pr p xs q\<close>: from \<open>p\<close> on, the elements are \<open>xs\<close>, and then comes \<open>q\<close>; the one before the
  first is \<open>pr\<close>.
\<close>

fun seg :: "ll_mem \<Rightarrow> ptr \<Rightarrow> ptr \<Rightarrow> ptr list \<Rightarrow> ptr \<Rightarrow> bool" where
  "seg h pr p [] q \<longleftrightarrow> p = q"
| "seg h pr p (x # xs) q \<longleftrightarrow> p = x \<and> x \<noteq> NULL \<and> le_prev h x = pr \<and> seg h x (le_next h x) xs q"

definition is_list :: "ll_mem \<Rightarrow> ptr \<Rightarrow> ptr list \<Rightarrow> bool" where
  "is_list h l xs \<longleftrightarrow> l \<noteq> NULL \<and> seg h NULL (p_head h l) xs NULL \<and> distinct xs \<and>
     p_tail h l = last (NULL # xs)"

text \<open>What the elements hold: the data and the function that deallocates it.\<close>

definition held_data :: "ll_mem \<Rightarrow> ptr list \<Rightarrow> (ptr \<times> ptr) list" where
  "held_data h xs = map (\<lambda>x. (data_ptr h x, dealloc_func h x)) xs"

lemma held_simps [simp]:
  "held_data h [] = []"
  "held_data h (x # xs) = (data_ptr h x, dealloc_func h x) # held_data h xs"
  "held_data h (xs @ ys) = held_data h xs @ held_data h ys"
  by (simp_all add: held_data_def)

lemma held_cong:
  "(\<And>x. x \<in> set xs \<Longrightarrow> data_ptr h' x = data_ptr h x \<and> dealloc_func h' x = dealloc_func h x) \<Longrightarrow>
   held_data h' xs = held_data h xs"
  by (simp add: held_data_def)

lemma seg_nonnull: "seg h pr p xs q \<Longrightarrow> NULL \<notin> set xs"
  by (induction xs arbitrary: pr p) auto

lemma seg_cong:
  "(\<And>x. x \<in> set xs \<Longrightarrow> le_next h' x = le_next h x \<and> le_prev h' x = le_prev h x) \<Longrightarrow>
   seg h' pr p xs q = seg h pr p xs q"
  by (induction xs arbitrary: pr p) auto

lemma seg_append:
  "seg h pr p (xs @ ys) q \<longleftrightarrow> (\<exists>m. seg h pr p xs m \<and> seg h (last (pr # xs)) m ys q)"
  by (induction xs arbitrary: pr p) auto

text \<open>The end of a segment, or its start, is linked to something else.\<close>

lemma seg_new_end:
  assumes "seg h pr p xs q" "xs \<noteq> []" "distinct xs" "le_next h' (last xs) = q'"
    and "\<And>x. x \<in> set xs \<Longrightarrow> x \<noteq> last xs \<Longrightarrow> le_next h' x = le_next h x"
    and "\<And>x. x \<in> set xs \<Longrightarrow> le_prev h' x = le_prev h x"
  shows "seg h' pr p xs q'"
  using assms
proof (induction xs arbitrary: pr p)
  case (Cons x xs)
  show ?case
  proof (cases "xs = []")
    case False
    then have "x \<noteq> last xs" using Cons.prems(3) by auto
    then show ?thesis using Cons False by auto
  qed (use Cons.prems in auto)
qed simp

lemma seg_new_start:
  assumes "seg h pr p (x # xs) q" "le_prev h' x = pr'" "x \<notin> set xs" "le_next h' x = le_next h x"
    and "\<And>y. y \<in> set xs \<Longrightarrow> le_next h' y = le_next h y \<and> le_prev h' y = le_prev h y"
  shows "seg h' pr' p (x # xs) q"
  using assms seg_cong [of xs h' h] by auto

lemma is_list_head_empty: "is_list h l xs \<Longrightarrow> p_head h l = NULL \<longleftrightarrow> xs = []"
  by (cases xs) (auto simp: is_list_def)

lemma is_list_tail_empty: "is_list h l xs \<Longrightarrow> p_tail h l = NULL \<longleftrightarrow> xs = []"
  by (metis is_list_def last.simps last_in_set seg_nonnull)

lemma ll_put_simps [simp]:
  "p_head (put_head l v h) = (p_head h)(l := v)" "p_tail (put_head l v h) = p_tail h"
  "le_next (put_head l v h) = le_next h" "le_prev (put_head l v h) = le_prev h"
  "data_ptr (put_head l v h) = data_ptr h" "dealloc_func (put_head l v h) = dealloc_func h"
  "p_head (put_tail l v h) = p_head h" "p_tail (put_tail l v h) = (p_tail h)(l := v)"
  "le_next (put_tail l v h) = le_next h" "le_prev (put_tail l v h) = le_prev h"
  "data_ptr (put_tail l v h) = data_ptr h" "dealloc_func (put_tail l v h) = dealloc_func h"
  "p_head (put_le_next e v h) = p_head h" "p_tail (put_le_next e v h) = p_tail h"
  "le_next (put_le_next e v h) = (le_next h)(e := v)" "le_prev (put_le_next e v h) = le_prev h"
  "data_ptr (put_le_next e v h) = data_ptr h" "dealloc_func (put_le_next e v h) = dealloc_func h"
  "p_head (put_le_prev e v h) = p_head h" "p_tail (put_le_prev e v h) = p_tail h"
  "le_next (put_le_prev e v h) = le_next h" "le_prev (put_le_prev e v h) = (le_prev h)(e := v)"
  "data_ptr (put_le_prev e v h) = data_ptr h" "dealloc_func (put_le_prev e v h) = dealloc_func h"
  by (simp_all add: ll_puts)

lemma ll_data_simps [simp]:
  "p_head (put_data e d f h) = p_head h" "p_tail (put_data e d f h) = p_tail h"
  "le_next (put_data e d f h) = le_next h" "le_prev (put_data e d f h) = le_prev h"
  "data_ptr (put_data e d f h) = (data_ptr h)(e := d)"
  "dealloc_func (put_data e d f h) = (dealloc_func h)(e := f)"
  "p_head (call_dealloc f d h) = p_head h" "p_tail (call_dealloc f d h) = p_tail h"
  "le_next (call_dealloc f d h) = le_next h" "le_prev (call_dealloc f d h) = le_prev h"
  "data_ptr (call_dealloc f d h) = data_ptr h" "dealloc_func (call_dealloc f d h) = dealloc_func h"
  "p_head (free_elem e h) = p_head h" "p_tail (free_elem e h) = p_tail h"
  "le_next (free_elem e h) = le_next h" "le_prev (free_elem e h) = le_prev h"
  "data_ptr (free_elem e h) = data_ptr h" "dealloc_func (free_elem e h) = dealloc_func h"
  by (simp_all add: ll_puts)

lemma ll_log_simps [simp]:
  "deallocs (put_head l v h) = deallocs h" "deallocs (put_tail l v h) = deallocs h"
  "deallocs (put_le_next l v h) = deallocs h" "deallocs (put_le_prev l v h) = deallocs h"
  "deallocs (put_data e d f h) = deallocs h" "deallocs (free_elem e h) = deallocs h"
  "deallocs (call_dealloc f d h) = deallocs h @ [(f, d)]"
  by (simp_all add: ll_puts)

section \<open>What the functions do to well-formed lists\<close>

lemma init_list:
  "p \<noteq> NULL \<Longrightarrow> \<exists>h'. linked_list_init True p h = (eLINKED_LIST_SUCCESS, Some p, h') \<and> is_list h' p []"
  by (simp add: linked_list_init_def Let_def is_list_def)

lemma add_list:
  assumes l: "is_list h l xs" and e: "e \<noteq> NULL" "e \<notin> set xs" and d: "d \<noteq> NULL"
  shows "\<exists>h'. linked_list_add e l d f h = (eLINKED_LIST_SUCCESS, h') \<and> is_list h' l (e # xs) \<and>
    held_data h' (e # xs) = (d, f) # held_data h xs \<and> deallocs h' = deallocs h"
proof -
  obtain h' where h': "linked_list_add e l d f h = (eLINKED_LIST_SUCCESS, h')"
    using l e d by (simp add: linked_list_add_def is_list_def Let_def)
  have next': "le_next h' = (le_next h)(e := p_head h l)" "p_head h' = (p_head h)(l := e)"
    "data_ptr h' = (data_ptr h)(e := d)" "dealloc_func h' = (dealloc_func h)(e := f)"
    "deallocs h' = deallocs h"
    using h' l e d by (auto simp: linked_list_add_def is_list_def Let_def)
  have "le_prev h' = (if xs = [] then (le_prev h)(e := NULL) else (le_prev h)(e := NULL, p_head h l := e))"
    "p_tail h' = (if xs = [] then (p_tail h)(l := e) else p_tail h)"
    using h' l e d is_list_head_empty [OF l] by (auto simp: linked_list_add_def is_list_def Let_def)
  note fs = this next'
  have "is_list h' l (e # xs)"
  proof (cases xs)
    case (Cons x ys)
    have x: "p_head h l = x" "seg h NULL x (x # ys) NULL" "distinct (x # ys)" "l \<noteq> NULL"
      "p_tail h l = last (x # ys)" "e \<noteq> x" "e \<notin> set ys"
      using l e Cons by (auto simp: is_list_def)
    have pt: "le_next h' y = le_next h y" "y \<noteq> x \<Longrightarrow> le_prev h' y = le_prev h y" if "y \<noteq> e" for y
      using that fs x(1) Cons by simp_all
    have new: "p_head h' l = e" "le_next h' e = x" "le_prev h' e = NULL" "p_tail h' l = last (x # ys)"
      "le_prev h' x = e"
      using x fs Cons by simp_all
    have "seg h' e x (x # ys) NULL"
      by (rule seg_new_start [OF x(2) new(5)]) (use x(3,6,7) pt in force)+
    then show ?thesis using new e x Cons by (simp add: is_list_def)
  qed (use l e fs in \<open>simp add: is_list_def\<close>)
  moreover have "held_data h' (e # xs) = (d, f) # held_data h xs"
  proof -
    have "held_data h' xs = held_data h xs" using e next' by (intro held_cong) auto
    then show ?thesis using next' by simp
  qed
  ultimately show ?thesis using h' next' by blast
qed

lemma remove_list:
  assumes l: "is_list h l (xs @ [e])"
  shows "\<exists>h'. linked_list_remove l True h = (eLINKED_LIST_SUCCESS, Some (data_ptr h e), h') \<and>
    is_list h' l xs \<and> held_data h' xs = held_data h xs \<and> deallocs h' = deallocs h"
proof -
  have tl: "p_tail h l = e" "e \<noteq> NULL" "le_prev h e = last (NULL # xs)"
    using l by (auto simp: is_list_def seg_append)
  have nn: "last (NULL # xs) = NULL \<longleftrightarrow> xs = []"
  proof -
    have "NULL \<notin> set xs" using l seg_nonnull [of h NULL "p_head h l" "xs @ [e]" NULL] by (simp add: is_list_def)
    then show ?thesis by (cases xs rule: rev_cases) auto
  qed
  obtain h' where h': "linked_list_remove l True h = (eLINKED_LIST_SUCCESS, Some (data_ptr h e), h')"
    using l tl by (simp add: linked_list_remove_def is_list_def Let_def)
  have f: "le_prev h' = le_prev h" "p_tail h' = (p_tail h)(l := last (NULL # xs))"
    "data_ptr h' = data_ptr h" "dealloc_func h' = dealloc_func h" "deallocs h' = deallocs h"
    "le_next h' = (if xs = [] then le_next h else (le_next h)(last xs := NULL))"
    "p_head h' = (if xs = [] then (p_head h)(l := NULL) else p_head h)"
    using h' l tl nn by (auto simp: linked_list_remove_def is_list_def Let_def)
  have "is_list h' l xs"
  proof (cases "xs = []")
    case False
    have "seg h NULL (p_head h l) xs e" using l by (auto simp: is_list_def seg_append)
    then have "seg h' NULL (p_head h' l) xs NULL"
      using seg_new_end [of h NULL "p_head h l" xs e h' NULL] l f False by (auto simp: is_list_def)
    then show ?thesis using l f by (auto simp: is_list_def)
  qed (use l f in \<open>simp add: is_list_def\<close>)
  moreover have "held_data h' xs = held_data h xs" using f by (intro held_cong) simp
  ultimately show ?thesis using h' f(5) by auto
qed

lemma remove_empty:
  "is_list h l [] \<Longrightarrow> linked_list_remove l True h = (eLINKED_LIST_UNAVAILABLE_RESOURCE, None, h)"
  by (simp add: linked_list_remove_def is_list_def)

lemma empty_list: "is_list h l xs \<Longrightarrow> linked_list_empty l h = (if xs = [] then 1 else 0)"
  using is_list_head_empty [of h l xs] by (simp add: linked_list_empty_def is_list_def)

text \<open>What a flush deallocates.\<close>

definition dealloc_calls :: "(ptr \<times> ptr) list \<Rightarrow> (ptr \<times> ptr) list" where
  "dealloc_calls ds = map (\<lambda>(d, f). (f, d)) (filter (\<lambda>(d, f). f \<noteq> NULL) ds)"

lemma dealloc_calls_simps [simp]:
  "dealloc_calls [] = []"
  "dealloc_calls ((d, f) # ds) = (if f = NULL then [] else [(f, d)]) @ dealloc_calls ds"
  by (simp_all add: dealloc_calls_def)

lemma ll_flush_loop_list:
  "seg h pr (p_head h l) xs NULL \<Longrightarrow> distinct xs \<Longrightarrow>
   \<exists>h'. ll_flush_loop l h = Some h' \<and> p_head h' l = NULL \<and>
     deallocs h' = deallocs h @ dealloc_calls (held_data h xs)"
proof (induction xs arbitrary: h pr)
  case Nil
  then show ?case by (subst ll_flush_loop.simps) simp
next
  case (Cons x xs)
  define h1 where "h1 = put_head l (le_next h x) (free_elem x
    (if dealloc_func h x \<noteq> NULL then call_dealloc (dealloc_func h x) (data_ptr h x) h else h))"
  have h1: "le_next h1 = le_next h" "le_prev h1 = le_prev h" "p_head h1 l = le_next h x"
    "data_ptr h1 = data_ptr h" "dealloc_func h1 = dealloc_func h"
    "deallocs h1 = deallocs h @ dealloc_calls [(data_ptr h x, dealloc_func h x)]"
    by (simp_all add: h1_def)
  have "seg h1 x (p_head h1 l) xs NULL" using Cons.prems(1) h1 seg_cong [of xs h1 h] by simp
  then obtain h' where "ll_flush_loop l h1 = Some h'" "p_head h' l = NULL"
    "deallocs h' = deallocs h1 @ dealloc_calls (held_data h1 xs)"
    using Cons.IH [of h1 x] Cons.prems(2) by auto
  moreover have "held_data h1 xs = held_data h xs" using h1 by (intro held_cong) simp
  moreover have "ll_flush_loop l h = ll_flush_loop l h1"
    using Cons.prems(1) by (subst ll_flush_loop.simps) (simp add: h1_def Let_def)
  ultimately show ?case using h1(6) by (auto simp: Let_def)
qed

lemma flush_list:
  assumes "is_list h l xs"
  shows "\<exists>h'. linked_list_flush l h = Some (eLINKED_LIST_SUCCESS, h') \<and> is_list h' l [] \<and>
    deallocs h' = deallocs h @ dealloc_calls (held_data h xs)"
  using assms ll_flush_loop_list [of h NULL l xs] by (auto simp: linked_list_flush_def is_list_def)

text \<open>
  The search on lists: the first element that the callback accepts, and the list without it if it
  is to be removed.
\<close>

fun list_search ::
  "('a \<Rightarrow> 's \<Rightarrow> bool \<times> 's) \<Rightarrow> bool \<Rightarrow> 'a list \<Rightarrow> 's \<Rightarrow> 'a option \<times> 'a list \<times> 's" where
  "list_search equal rm [] s = (None, [], s)"
| "list_search equal rm (x # xs) s =
    (case equal x s of
       (True, s) \<Rightarrow> (Some x, if rm then xs else x # xs, s)
     | (False, s) \<Rightarrow> (case list_search equal rm xs s of (r, ys, s) \<Rightarrow> (r, x # ys, s)))"

text \<open>The callback only sees the data.\<close>

abbreviation on_data :: "(ptr \<Rightarrow> 's \<Rightarrow> bool \<times> 's) \<Rightarrow> ptr \<times> ptr \<times> ptr \<Rightarrow> 's \<Rightarrow> bool \<times> 's" where
  "on_data equal \<equiv> \<lambda>(_, d, _). equal d"

definition cells :: "ll_mem \<Rightarrow> ptr list \<Rightarrow> (ptr \<times> ptr \<times> ptr) list" where
  "cells h xs = map (\<lambda>x. (x, data_ptr h x, dealloc_func h x)) xs"

lemma cells_simps [simp]:
  "cells h [] = []"
  "cells h (x # xs) = (x, data_ptr h x, dealloc_func h x) # cells h xs"
  "cells h (xs @ ys) = cells h xs @ cells h ys"
  by (simp_all add: cells_def)

lemma search_loop_list:
  assumes "seg h pr p xs NULL"
  shows "(\<exists>s'. search_loop equal h p s = Some (NULL, s') \<and>
      list_search (on_data equal) rm (cells h xs) s = (None, cells h xs, s')) \<or>
    (\<exists>us e vs s'. xs = us @ e # vs \<and> e \<noteq> NULL \<and> search_loop equal h p s = Some (e, s') \<and>
      list_search (on_data equal) rm (cells h xs) s =
        (Some (e, data_ptr h e, dealloc_func h e), cells h (if rm then us @ vs else xs), s'))"
  using assms
proof (induction xs arbitrary: pr p s)
  case Nil
  then have "search_loop equal h p s = Some (NULL, s)" by (subst search_loop.simps) simp
  then show ?case by simp
next
  case (Cons x xs)
  obtain b s1 where eq: "equal (data_ptr h x) s = (b, s1)" by force
  have step: "search_loop equal h p s =
    (if b then Some (x, s1) else search_loop equal h (le_next h x) s1)"
    using Cons.prems eq by (subst search_loop.simps) (simp add: Let_def)
  show ?case
  proof (cases b)
    case True
    then show ?thesis using step eq Cons.prems
      by (intro disjI2 exI [of _ "[]"] exI [of _ x] exI [of _ xs] exI [of _ s1]) simp
  next
    case False
    from Cons.IH [of x "le_next h x" s1] Cons.prems
    consider s' where "search_loop equal h (le_next h x) s1 = Some (NULL, s')"
        "list_search (on_data equal) rm (cells h xs) s1 = (None, cells h xs, s')"
      | us e vs s' where "xs = us @ e # vs" "e \<noteq> NULL" "search_loop equal h (le_next h x) s1 = Some (e, s')"
        "list_search (on_data equal) rm (cells h xs) s1 =
           (Some (e, data_ptr h e, dealloc_func h e), cells h (if rm then us @ vs else xs), s')"
      by auto
    then show ?thesis
    proof cases
      case 1
      then show ?thesis using step False eq by simp
    next
      case 2
      have "x # xs = (x # us) @ e # vs" using 2(1) by simp
      moreover have "list_search (on_data equal) rm (cells h (x # xs)) s =
        (Some (e, data_ptr h e, dealloc_func h e), cells h (if rm then (x # us) @ vs else x # xs), s')"
        using False eq 2(4) by auto
      ultimately show ?thesis using step False 2(2,3)
        by (intro disjI2 exI [of _ "x # us"] exI [of _ e] exI [of _ vs] exI [of _ s']) simp
    qed
  qed
qed

lemma unlink_list:
  assumes l: "is_list h l (us @ e # vs)"
  shows "is_list (unlink_elem l e h) l (us @ vs)"
proof -
  let ?h = "unlink_elem l e h"
  define a b where "a = le_prev h e" and "b = le_next h e"
  have segs: "seg h NULL (p_head h l) us e" "seg h e b vs NULL" "a = last (NULL # us)"
    and ne: "l \<noteq> NULL" "e \<noteq> NULL" and dist: "distinct us" "distinct vs" "set us \<inter> set vs = {}"
      "e \<notin> set us" "e \<notin> set vs" and tl: "p_tail h l = (if vs = [] then e else last vs)"
    using l by (auto simp: is_list_def seg_append a_def b_def)
  have nulls: "NULL \<notin> set us" "NULL \<notin> set vs" using segs seg_nonnull by blast+
  have a: "a = NULL \<longleftrightarrow> us = []" "us \<noteq> [] \<Longrightarrow> a = last us \<and> a \<in> set us"
    using segs(3) nulls by (cases us rule: rev_cases; auto)+
  have b: "b = NULL \<longleftrightarrow> vs = []" "vs \<noteq> [] \<Longrightarrow> b = hd vs \<and> b \<in> set vs"
    using segs(2) by (cases vs; auto)+
  have ab: "us \<noteq> [] \<Longrightarrow> vs \<noteq> [] \<Longrightarrow> a \<noteq> b" "e \<noteq> a" "e \<noteq> b"
    using a b dist ne by (metis disjoint_iff)+
  have hd: "p_head ?h l = (if us = [] then b else p_head h l)"
    and last: "p_tail ?h l = (if vs = [] then a else p_tail h l)"
    and nxt: "le_next ?h x = (if x = e then NULL else if us \<noteq> [] \<and> x = a then b else le_next h x)"
    and prv: "le_prev ?h x = (if x = e then NULL else if vs \<noteq> [] \<and> x = b then a else le_prev h x)" for x
    using a b ab
    by (cases "us = []"; cases "vs = []"; auto simp: unlink_elem_def Let_def simp flip: a_def b_def)+
  have "seg ?h NULL (p_head ?h l) us b"
  proof (cases "us = []")
    case False
    show ?thesis unfolding hd using False dist a b ab
      by (simp, intro seg_new_end [OF segs(1)]) (auto simp: nxt prv)
  qed (simp add: hd)
  moreover have "seg ?h a b vs NULL"
  proof (cases vs)
    case (Cons y ys)
    then have "b = y" using b by simp
    moreover have "seg ?h a b (y # ys) NULL"
    proof (rule seg_new_start)
      show "seg h e b (y # ys) NULL" using segs Cons by simp
      show "le_next ?h x = le_next h x \<and> le_prev ?h x = le_prev h x" if "x \<in> set ys" for x
        using that Cons dist a \<open>b = y\<close> by (auto simp: nxt prv)
    qed (use Cons dist a \<open>b = y\<close> in \<open>auto simp: nxt prv\<close>)
    ultimately show ?thesis using Cons by simp
  qed (use b in simp)
  ultimately show ?thesis using ne dist last tl segs(3) b by (auto simp: is_list_def seg_append)
qed

lemma unlink_data [simp]:
  "data_ptr (unlink_elem l e h) = data_ptr h" "dealloc_func (unlink_elem l e h) = dealloc_func h"
  "deallocs (unlink_elem l e h) = deallocs h"
  by (simp_all add: unlink_elem_def Let_def)

lemma is_list_cong:
  "p_head h' l = p_head h l \<Longrightarrow> p_tail h' l = p_tail h l \<Longrightarrow> le_next h' = le_next h \<Longrightarrow>
   le_prev h' = le_prev h \<Longrightarrow> is_list h' l xs = is_list h l xs"
  using seg_cong [of xs h' h] by (simp add: is_list_def)

lemma cells_cong:
  "(\<And>x. x \<in> set xs \<Longrightarrow> data_ptr h' x = data_ptr h x \<and> dealloc_func h' x = dealloc_func h x) \<Longrightarrow>
   cells h' xs = cells h xs"
  by (simp add: cells_def)

text \<open>The search of \<open>linked_list.c\<close> is the search on lists.\<close>

lemma search_list:
  assumes l: "is_list h l xs"
    and sp: "list_search (on_data equal) rm (cells h xs) s = (r, cs, s')"
  shows "\<exists>h' ys. linked_list_search l dp (Some equal) rm s h =
      Some (if xs = [] then eLINKED_LIST_UNAVAILABLE_RESOURCE else eLINKED_LIST_SUCCESS,
            if xs = [] \<or> dp = None then dp
            else Some (case r of None \<Rightarrow> NULL | Some (_, d, _) \<Rightarrow> d), s', h') \<and>
    is_list h' l ys \<and> cells h' ys = cs \<and>
    deallocs h' = deallocs h @
      (case r of Some (_, d, f) \<Rightarrow> if rm \<and> dp = None \<and> f \<noteq> NULL then [(f, d)] else [] | None \<Rightarrow> [])"
proof (cases "xs = []")
  case True
  then show ?thesis using l sp by (auto simp: linked_list_search_def is_list_def)
next
  case False
  have ne: "l \<noteq> NULL" "p_tail h l \<noteq> NULL"
    using l False is_list_tail_empty [OF l] by (simp_all add: is_list_def)
  have "seg h NULL (p_head h l) xs NULL" using l by (simp add: is_list_def)
  from search_loop_list [OF this, where equal = equal and rm = rm and s = s]
  consider "search_loop equal h (p_head h l) s = Some (NULL, s')" "r = None" "cs = cells h xs"
    | us e vs where "xs = us @ e # vs" "e \<noteq> NULL" "search_loop equal h (p_head h l) s = Some (e, s')"
      "r = Some (e, data_ptr h e, dealloc_func h e)" "cs = cells h (if rm then us @ vs else xs)"
    using sp by auto
  then show ?thesis
  proof cases
    case 1
    then show ?thesis using ne False l by (auto simp: linked_list_search_def)
  next
    case 2
    define h' where "h' = (if \<not> rm then h else
      let h1 = unlink_elem l e h;
          h1 = (if dp = None \<and> dealloc_func h1 e \<noteq> NULL then call_dealloc (dealloc_func h1 e) (data_ptr h e) h1 else h1)
      in free_elem e h1)"
    have "linked_list_search l dp (Some equal) rm s h =
      Some (eLINKED_LIST_SUCCESS, if dp = None then None else Some (data_ptr h e), s', h')"
      using 2 ne by (simp add: linked_list_search_def h'_def Let_def)
    moreover have "is_list h' l (if rm then us @ vs else xs)"
    proof (cases rm)
      case True
      have "is_list (unlink_elem l e h) l (us @ vs)" using unlink_list l 2(1) by blast
      then show ?thesis using True is_list_cong [of h' l "unlink_elem l e h"]
        by (simp add: h'_def Let_def)
    qed (use l in \<open>simp add: h'_def\<close>)
    moreover have "cells h' (if rm then us @ vs else xs) = cs"
      unfolding 2(5) by (rule cells_cong) (simp add: h'_def Let_def)
    moreover have "deallocs h' = deallocs h @ (if rm \<and> dp = None \<and> dealloc_func h e \<noteq> NULL
        then [(dealloc_func h e, data_ptr h e)] else [])"
      by (simp add: h'_def Let_def)
    ultimately show ?thesis using 2(4) False by auto
  qed
qed

section \<open>Refinement to lists\<close>

text \<open>
  The functional list: its cells, first to last, with the address of the element, the data and the
  function that deallocates it. \<open>L_Add\<close> carries what \<open>malloc\<close> returns; by its contract that is
  NULL or an address not in use. \<open>L_Search\<close> accepts the data in a predicate and counts how often
  it was asked.
\<close>

type_synonym cell = "ptr \<times> ptr \<times> ptr"

datatype ll_op =
    L_Add ptr ptr ptr
  | L_Remove
  | L_Empty
  | L_Flush
  | L_Search "ptr \<Rightarrow> bool" bool bool

datatype ll_result =
    R_Err linked_list_err
  | R_Removed linked_list_err "ptr option"
  | R_Empty int
  | R_Found linked_list_err "ptr option" nat

definition asked :: "(ptr \<Rightarrow> bool) \<Rightarrow> ptr \<Rightarrow> nat \<Rightarrow> bool \<times> nat" where
  "asked P d n = (P d, Suc n)"

fun ll_step :: "ptr \<Rightarrow> ll_op \<Rightarrow> ll_mem \<Rightarrow> (ll_result \<times> ll_mem) option" where
  "ll_step l (L_Add e d f) h = (case linked_list_add e l d f h of (r, h) \<Rightarrow> Some (R_Err r, h))"
| "ll_step l L_Remove h =
    (case linked_list_remove l True h of (r, d, h) \<Rightarrow> Some (R_Removed r d, h))"
| "ll_step l L_Empty h = Some (R_Empty (linked_list_empty l h), h)"
| "ll_step l L_Flush h = map_option (\<lambda>(r, h). (R_Err r, h)) (linked_list_flush l h)"
| "ll_step l (L_Search P rm out) h =
    map_option (\<lambda>(r, d, n, h). (R_Found r d n, h))
      (linked_list_search l (if out then Some NULL else None) (Some (asked P)) rm 0 h)"

fun ll_run :: "ptr \<Rightarrow> ll_op list \<Rightarrow> ll_mem \<Rightarrow> (ll_result list \<times> ll_mem) option" where
  "ll_run l [] h = Some ([], h)"
| "ll_run l (x # xs) h =
    (case ll_step l x h of
       None \<Rightarrow> None
     | Some (r, h) \<Rightarrow> map_option (\<lambda>(rs, h). (r # rs, h)) (ll_run l xs h))"

text \<open>The same on the functional list, with the calls of deallocation functions.\<close>

definition dealloc_call :: "ptr \<times> ptr \<Rightarrow> (ptr \<times> ptr) list" where
  "dealloc_call c = (if snd c = NULL then [] else [(snd c, fst c)])"

fun ll_spec_step :: "ll_op \<Rightarrow> cell list \<Rightarrow> (ll_result \<times> cell list \<times> (ptr \<times> ptr) list) option" where
  "ll_spec_step (L_Add e d f) cs =
    (if e \<in> fst ` set cs then None
     else if d = NULL then Some (R_Err eLINKED_LIST_INVALID_PARAMETER, cs, [])
     else if e = NULL then Some (R_Err eLINKED_LIST_FAILURE_GENERAL, cs, [])
     else Some (R_Err eLINKED_LIST_SUCCESS, (e, d, f) # cs, []))"
| "ll_spec_step L_Remove cs =
    (if cs = [] then Some (R_Removed eLINKED_LIST_UNAVAILABLE_RESOURCE None, [], [])
     else Some (R_Removed eLINKED_LIST_SUCCESS (Some (fst (snd (last cs)))), butlast cs, []))"
| "ll_spec_step L_Empty cs = Some (R_Empty (if cs = [] then 1 else 0), cs, [])"
| "ll_spec_step L_Flush cs =
    Some (R_Err eLINKED_LIST_SUCCESS, [], concat (map (dealloc_call \<circ> snd) cs))"
| "ll_spec_step (L_Search P rm out) cs =
    (let n = length (takeWhile (\<lambda>c. \<not> P (fst (snd c))) cs)
     in if cs = [] then
          Some (R_Found eLINKED_LIST_UNAVAILABLE_RESOURCE (if out then Some NULL else None) 0, cs, [])
        else if n = length cs then
          Some (R_Found eLINKED_LIST_SUCCESS (if out then Some NULL else None) n, cs, [])
        else Some (R_Found eLINKED_LIST_SUCCESS (if out then Some (fst (snd (cs ! n))) else None) (Suc n),
                   if rm then take n cs @ drop (Suc n) cs else cs,
                   if rm \<and> \<not> out then dealloc_call (snd (cs ! n)) else []))"

fun ll_spec_run ::
  "ll_op list \<Rightarrow> cell list \<Rightarrow> (ll_result list \<times> cell list \<times> (ptr \<times> ptr) list) option" where
  "ll_spec_run [] cs = Some ([], cs, [])"
| "ll_spec_run (x # xs) cs =
    (case ll_spec_step x cs of
       None \<Rightarrow> None
     | Some (r, cs, ds) \<Rightarrow>
         map_option (\<lambda>(rs, cs, ds'). (r # rs, cs, ds @ ds')) (ll_spec_run xs cs))"

text \<open>\<open>ll_rep h l cs\<close>: in the memory \<open>h\<close> the list at \<open>l\<close> has the cells \<open>cs\<close>.\<close>

definition ll_rep :: "ll_mem \<Rightarrow> ptr \<Rightarrow> cell list \<Rightarrow> bool" where
  "ll_rep h l cs \<longleftrightarrow> is_list h l (map fst cs) \<and> cells h (map fst cs) = cs"

lemma ll_repI: "is_list h l xs \<Longrightarrow> cells h xs = cs \<Longrightarrow> ll_rep h l cs"
  by (auto simp: ll_rep_def cells_def comp_def)

lemma ll_repE:
  assumes "ll_rep h l cs"
  obtains xs where "is_list h l xs" "cells h xs = cs" "xs = map fst cs"
  using assms by (auto simp: ll_rep_def)

lemma cells_held: "cells h xs = zip xs (held_data h xs)"
  by (induction xs) auto

lemma rep_init: "p \<noteq> NULL \<Longrightarrow> \<exists>h'. linked_list_init True p h = (eLINKED_LIST_SUCCESS, Some p, h') \<and> ll_rep h' p []"
  using init_list [of p h] by (auto simp: ll_rep_def)

lemma rep_add:
  assumes "ll_rep h l cs" "e \<noteq> NULL" "e \<notin> fst ` set cs" "d \<noteq> NULL"
  shows "\<exists>h'. linked_list_add e l d f h = (eLINKED_LIST_SUCCESS, h') \<and> ll_rep h' l ((e, d, f) # cs) \<and>
    deallocs h' = deallocs h"
proof -
  from assms(1) obtain xs where xs: "is_list h l xs" "cells h xs = cs" "xs = map fst cs"
    by (rule ll_repE)
  obtain h' where h': "linked_list_add e l d f h = (eLINKED_LIST_SUCCESS, h')" "is_list h' l (e # xs)"
    "held_data h' (e # xs) = (d, f) # held_data h xs" "deallocs h' = deallocs h"
    using add_list [OF xs(1) assms(2) _ assms(4)] assms(3) xs(3) by auto
  have "cells h' (e # xs) = (e, d, f) # cs"
    using h'(3) xs(2) by (simp add: cells_held)
  then show ?thesis using h' ll_repI by blast
qed

lemma rep_remove:
  assumes "ll_rep h l (cs @ [(e, d, f)])"
  shows "\<exists>h'. linked_list_remove l True h = (eLINKED_LIST_SUCCESS, Some d, h') \<and> ll_rep h' l cs \<and>
    deallocs h' = deallocs h"
proof -
  obtain xs where xs: "is_list h l (xs @ [e])" "cells h (xs @ [e]) = cs @ [(e, d, f)]" "xs = map fst cs"
    using assms by (auto simp: ll_rep_def)
  obtain h' where "linked_list_remove l True h = (eLINKED_LIST_SUCCESS, Some (data_ptr h e), h')"
    "is_list h' l xs" "held_data h' xs = held_data h xs" "deallocs h' = deallocs h"
    using remove_list [OF xs(1)] by blast
  moreover have "cells h xs = cs" "data_ptr h e = d" using xs(2) by simp_all
  ultimately show ?thesis using ll_repI by (simp add: cells_held)
qed

lemma rep_nonempty: "ll_rep h l cs \<Longrightarrow> linked_list_empty l h = (if cs = [] then 1 else 0)"
  by (auto simp: ll_rep_def empty_list)

lemma rep_remove_empty:
  "ll_rep h l [] \<Longrightarrow> linked_list_remove l True h = (eLINKED_LIST_UNAVAILABLE_RESOURCE, None, h)"
  by (simp add: ll_rep_def remove_empty)

lemma rep_flush:
  assumes "ll_rep h l cs"
  shows "\<exists>h'. linked_list_flush l h = Some (eLINKED_LIST_SUCCESS, h') \<and> ll_rep h' l [] \<and>
    deallocs h' = deallocs h @ concat (map (dealloc_call \<circ> snd) cs)"
proof -
  have "dealloc_calls (held_data h xs) = concat (map (dealloc_call \<circ> snd) (cells h xs))" for xs
    by (induction xs) (auto simp: dealloc_call_def)
  then show ?thesis using assms flush_list [of h l "map fst cs"] by (auto simp: ll_rep_def)
qed

lemma asked_search:
  "list_search (on_data (asked P)) rm cs k =
    (let n = length (takeWhile (\<lambda>c. \<not> P (fst (snd c))) cs)
     in if n = length cs then (None, cs, k + n)
        else (Some (cs ! n), if rm then take n cs @ drop (Suc n) cs else cs, k + Suc n))"
proof (induction cs arbitrary: k)
  case (Cons c cs)
  then show ?case by (cases c) (auto simp: asked_def Let_def)
qed (simp add: Let_def)

lemma ll_step_refines:
  assumes rep: "ll_rep h l cs" and sp: "ll_spec_step x cs = Some (r, cs', ds)"
  shows "\<exists>h'. ll_step l x h = Some (r, h') \<and> ll_rep h' l cs' \<and> deallocs h' = deallocs h @ ds"
proof (cases x)
  case (L_Add e d f)
  have "l \<noteq> NULL" using rep by (simp add: ll_rep_def is_list_def)
  then show ?thesis using L_Add sp rep rep_add [OF rep, of e d f]
    by (auto simp: linked_list_add_def split: if_splits)
next
  case L_Remove
  show ?thesis
  proof (cases cs rule: rev_cases)
    case Nil
    then show ?thesis using L_Remove sp rep rep_remove_empty [of h l] by auto
  next
    case (snoc cs0 c)
    then show ?thesis using L_Remove sp rep rep_remove [of h l cs0 "fst c" "fst (snd c)" "snd (snd c)"]
      by auto
  qed
next
  case L_Empty
  then show ?thesis using sp rep rep_nonempty [OF rep] by auto
next
  case L_Flush
  then show ?thesis using sp rep_flush [OF rep] by auto
next
  case (L_Search P rm out)
  obtain xs where xs: "is_list h l xs" "cells h xs = cs" "xs = map fst cs"
    using rep by (rule ll_repE)
  obtain r1 cs1 k where ls: "list_search (on_data (asked P)) rm cs 0 = (r1, cs1, k)"
    by (metis prod_cases3)
  define dp where "dp = (if out then Some NULL else None)"
  have dp: "dp = None \<longleftrightarrow> \<not> out" by (simp add: dp_def)
  obtain h' ys where h': "linked_list_search l dp (Some (asked P)) rm 0 h =
      Some (if xs = [] then eLINKED_LIST_UNAVAILABLE_RESOURCE else eLINKED_LIST_SUCCESS,
            if xs = [] \<or> \<not> out then dp
            else Some (case r1 of None \<Rightarrow> NULL | Some (_, d, _) \<Rightarrow> d), k, h')"
    "is_list h' l ys" "cells h' ys = cs1" "deallocs h' = deallocs h @
      (case r1 of Some (_, d, f) \<Rightarrow> if rm \<and> \<not> out \<and> f \<noteq> NULL then [(f, d)] else [] | None \<Rightarrow> [])"
    using search_list [OF xs(1), of "asked P" rm 0 r1 cs1 k dp] ls xs(2) unfolding dp by blast
  have "ll_rep h' l cs1" using h'(2,3) by (rule ll_repI)
  then show ?thesis using L_Search sp h' ls xs(3)
    by (auto simp: dp_def asked_search Let_def dealloc_call_def split: if_splits prod.splits)
qed

lemma ll_run_refines:
  "ll_rep h l cs \<Longrightarrow> ll_spec_run xs cs = Some (rs, cs', ds) \<Longrightarrow>
   \<exists>h'. ll_run l xs h = Some (rs, h') \<and> ll_rep h' l cs' \<and> deallocs h' = deallocs h @ ds"
proof (induction xs arbitrary: h cs rs ds)
  case (Cons x xs)
  obtain r cs1 ds1 rs2 ds2 where s: "ll_spec_step x cs = Some (r, cs1, ds1)"
    "ll_spec_run xs cs1 = Some (rs2, cs', ds2)" "rs = r # rs2" "ds = ds1 @ ds2"
    using Cons.prems(2) by (auto split: option.splits prod.splits)
  obtain h1 where h1: "ll_step l x h = Some (r, h1)" "ll_rep h1 l cs1" "deallocs h1 = deallocs h @ ds1"
    using ll_step_refines [OF Cons.prems(1) s(1)] by blast
  obtain h2 where "ll_run l xs h1 = Some (rs2, h2)" "ll_rep h2 l cs'" "deallocs h2 = deallocs h1 @ ds2"
    using Cons.IH [OF h1(2) s(2)] by blast
  then show ?case using h1 s by simp
qed simp

section \<open>The list as a queue\<close>

text \<open>
  Added at the head and removed at the tail, the elements of the list leave in the order in which
  they came. \<open>ll_queue\<close> pairs the memory with the address of the list.
\<close>

definition q_enq :: "cell \<Rightarrow> ptr \<times> ll_mem \<Rightarrow> ptr \<times> ll_mem" where
  "q_enq c q = (fst q, snd (linked_list_add (fst c) (fst q) (fst (snd c)) (snd (snd c)) (snd q)))"

definition q_deq :: "ptr \<times> ll_mem \<Rightarrow> (ptr \<times> ptr \<times> ll_mem) option" where
  "q_deq q =
    (case linked_list_remove (fst q) True (snd q) of
       (eLINKED_LIST_SUCCESS, Some d, h) \<Rightarrow> Some (d, fst q, h)
     | _ \<Rightarrow> None)"

definition q_rep :: "ptr \<times> ll_mem \<Rightarrow> ptr list \<Rightarrow> bool" where
  "q_rep q ds \<longleftrightarrow> (\<exists>cs. ll_rep (snd q) (fst q) cs \<and> ds = rev (map (fst \<circ> snd) cs))"

definition q_fresh :: "cell \<Rightarrow> ptr \<times> ll_mem \<Rightarrow> bool" where
  "q_fresh c q \<longleftrightarrow> fst c \<noteq> NULL \<and> fst (snd c) \<noteq> NULL \<and>
     (\<forall>cs. ll_rep (snd q) (fst q) cs \<longrightarrow> fst c \<notin> fst ` set cs)"

interpretation ll_queue: work_queue q_rep q_enq q_deq "\<lambda>c. fst (snd c)" q_fresh
proof
  fix q ds c
  assume "q_rep q ds" and ok: "q_fresh c q"
  then obtain cs where cs: "ll_rep (snd q) (fst q) cs" "ds = rev (map (fst \<circ> snd) cs)"
    by (auto simp: q_rep_def)
  from rep_add [OF cs(1), of "fst c" "fst (snd c)" "snd (snd c)"] ok cs(1)
  show "q_rep (q_enq c q) (ds @ [fst (snd c)])"
    unfolding q_rep_def q_enq_def q_fresh_def
    by (intro exI [of _ "c # cs"]) (auto simp: cs(2))
next
  fix q d ds
  assume "q_rep q (d # ds)"
  then obtain cs where cs: "ll_rep (snd q) (fst q) cs" "d # ds = rev (map (fst \<circ> snd) cs)"
    by (auto simp: q_rep_def)
  then obtain cs0 c where c: "cs = cs0 @ [c]" by (cases cs rule: rev_cases) auto
  obtain h' where "linked_list_remove (fst q) True (snd q) = (eLINKED_LIST_SUCCESS, Some (fst (snd c)), h')"
    "ll_rep h' (fst q) cs0"
    using rep_remove [of "snd q" "fst q" cs0 "fst c" "fst (snd c)" "snd (snd c)"] cs(1) c by auto
  then show "\<exists>q'. q_deq q = Some (d, q') \<and> q_rep q' ds"
    using cs(2) c by (auto simp: q_deq_def q_rep_def)
next
  fix q
  assume "q_rep q []"
  then show "q_deq q = None" by (auto simp: q_rep_def q_deq_def rep_remove_empty)
qed

end
