(* ===== verification/MsgQ.thy ===== *)
theory MsgQ
  imports LinkedList
begin

text \<open>
  The message queue of \<open>gps/utils/msg_q.c\<close> over the list of \<open>LinkedList\<close>. A function that holds
  the mutex from start to end is one step; \<open>msg_q_rcv\<close> is cut at \<open>pthread_cond_wait\<close>, where it
  gives the mutex up. Any number of threads send, receive, flush and unblock in any order; a
  sleeping thread may also wake without a signal, as POSIX allows.
\<close>

section \<open>The functions of msg_q.c\<close>

datatype msq_q_err =
    eMSG_Q_SUCCESS
  | eMSG_Q_FAILURE_GENERAL
  | eMSG_Q_INVALID_PARAMETER
  | eMSG_Q_INVALID_HANDLE
  | eMSG_Q_UNAVAILABLE_RESOURCE
  | eMSG_Q_INSUFFICIENT_BUFFER

fun convert_linked_list_err_type :: "linked_list_err \<Rightarrow> msq_q_err" where
  "convert_linked_list_err_type eLINKED_LIST_SUCCESS = eMSG_Q_SUCCESS"
| "convert_linked_list_err_type eLINKED_LIST_INVALID_PARAMETER = eMSG_Q_INVALID_PARAMETER"
| "convert_linked_list_err_type eLINKED_LIST_INVALID_HANDLE = eMSG_Q_INVALID_HANDLE"
| "convert_linked_list_err_type eLINKED_LIST_UNAVAILABLE_RESOURCE = eMSG_Q_UNAVAILABLE_RESOURCE"
| "convert_linked_list_err_type eLINKED_LIST_INSUFFICIENT_BUFFER = eMSG_Q_INSUFFICIENT_BUFFER"
| "convert_linked_list_err_type eLINKED_LIST_FAILURE_GENERAL = eMSG_Q_FAILURE_GENERAL"

text \<open>The queue: the address of its list, the memory of the list, and the flag.\<close>

record msg_q =
  msg_list :: ptr
  list_mem :: ll_mem
  unblocked :: bool

datatype wake = Wake_None | Wake_One | Wake_All

text \<open>
  The arguments are whether \<open>msg_q_data\<close> is a pointer, whether \<open>calloc\<close> gives a \<open>msg_q\<close>, what
  it gives for the list, and whether the mutex and the condition are created.
\<close>

definition msg_q_init ::
  "bool \<Rightarrow> bool \<Rightarrow> ptr \<Rightarrow> bool \<Rightarrow> bool \<Rightarrow> ll_mem \<Rightarrow> msq_q_err \<times> msg_q option" where
  "msg_q_init msg_q_data mem p mutex_ok cond_ok h =
    (if \<not> msg_q_data then (eMSG_Q_INVALID_PARAMETER, None)
     else if \<not> mem then (eMSG_Q_FAILURE_GENERAL, None)
     else case linked_list_init True p h of
       (eLINKED_LIST_SUCCESS, Some l, h) \<Rightarrow>
         if \<not> mutex_ok then (eMSG_Q_FAILURE_GENERAL, None)
         else if \<not> cond_ok then (eMSG_Q_FAILURE_GENERAL, None)
         else (eMSG_Q_SUCCESS, Some \<lparr>msg_list = l, list_mem = h, unblocked = False\<rparr>)
     | _ \<Rightarrow> (eMSG_Q_FAILURE_GENERAL, None))"

definition msg_q_init2 :: "bool \<Rightarrow> ptr \<Rightarrow> bool \<Rightarrow> bool \<Rightarrow> ll_mem \<Rightarrow> msg_q option" where
  "msg_q_init2 mem p mutex_ok cond_ok h =
    (case msg_q_init True mem p mutex_ok cond_ok h of
       (r, q) \<Rightarrow> if r \<noteq> eMSG_Q_SUCCESS then None else q)"

text \<open>A queue is None for a NULL handle; the result says whom the condition wakes.\<close>

definition msg_q_snd ::
  "ptr \<Rightarrow> msg_q option \<Rightarrow> ptr \<Rightarrow> ptr \<Rightarrow> msq_q_err \<times> wake \<times> msg_q option" where
  "msg_q_snd elem msg_q_data msg_obj dealloc =
    (case msg_q_data of
       None \<Rightarrow> (eMSG_Q_INVALID_HANDLE, Wake_None, None)
     | Some q \<Rightarrow>
         if msg_obj = NULL then (eMSG_Q_INVALID_PARAMETER, Wake_None, Some q)
         else if unblocked q then (eMSG_Q_UNAVAILABLE_RESOURCE, Wake_None, Some q)
         else case linked_list_add elem (msg_list q) msg_obj dealloc (list_mem q) of
           (rv, h) \<Rightarrow> (convert_linked_list_err_type rv, Wake_One, Some (q\<lparr>list_mem := h\<rparr>)))"

datatype rcv_result = Sleeps | Returns msq_q_err "ptr option"

text \<open>\<open>msg_q_rcv\<close> from the head of its loop: it waits, or takes the message at the tail.\<close>

definition rcv_loop :: "msg_q \<Rightarrow> rcv_result \<times> msg_q" where
  "rcv_loop q =
    (if linked_list_empty (msg_list q) (list_mem q) \<noteq> 0 \<and> \<not> unblocked q then (Sleeps, q)
     else case linked_list_remove (msg_list q) True (list_mem q) of
       (rv, d, h) \<Rightarrow> (Returns (convert_linked_list_err_type rv) d, q\<lparr>list_mem := h\<rparr>))"

definition msg_q_rcv :: "msg_q option \<Rightarrow> bool \<Rightarrow> rcv_result \<times> msg_q option" where
  "msg_q_rcv msg_q_data msg_obj =
    (case msg_q_data of
       None \<Rightarrow> (Returns eMSG_Q_INVALID_HANDLE None, None)
     | Some q \<Rightarrow>
         if \<not> msg_obj then (Returns eMSG_Q_INVALID_PARAMETER None, Some q)
         else if unblocked q then (Returns eMSG_Q_UNAVAILABLE_RESOURCE None, Some q)
         else case rcv_loop q of (r, q) \<Rightarrow> (r, Some q))"

definition msg_q_flush :: "msg_q option \<Rightarrow> (msq_q_err \<times> msg_q option) option" where
  "msg_q_flush msg_q_data =
    (case msg_q_data of
       None \<Rightarrow> Some (eMSG_Q_INVALID_HANDLE, None)
     | Some q \<Rightarrow>
         map_option (\<lambda>(rv, h). (convert_linked_list_err_type rv, Some (q\<lparr>list_mem := h\<rparr>)))
           (linked_list_flush (msg_list q) (list_mem q)))"

definition msg_q_unblock :: "msg_q option \<Rightarrow> msq_q_err \<times> wake \<times> msg_q option" where
  "msg_q_unblock msg_q_data =
    (case msg_q_data of
       None \<Rightarrow> (eMSG_Q_INVALID_HANDLE, Wake_None, None)
     | Some q \<Rightarrow>
         if unblocked q then (eMSG_Q_UNAVAILABLE_RESOURCE, Wake_None, Some q)
         else (eMSG_Q_SUCCESS, Wake_All, Some (q\<lparr>unblocked := True\<rparr>)))"

text \<open>\<open>msg_q_destroy\<close> destroys the list and frees the queue; the second result is the handle left.\<close>

definition msg_q_destroy :: "msg_q option \<Rightarrow> (msq_q_err \<times> msg_q option \<times> ll_mem option) option" where
  "msg_q_destroy msg_q_data =
    (case msg_q_data of
       None \<Rightarrow> Some (eMSG_Q_INVALID_HANDLE, None, None)
     | Some q \<Rightarrow>
         map_option (\<lambda>(_, _, h). (eMSG_Q_SUCCESS, None, Some h))
           (linked_list_destroy (Some (msg_list q)) (list_mem q)))"

section \<open>Threads at the queue\<close>

text \<open>
  Who is asleep in \<open>pthread_cond_wait\<close>, and who has been woken but has not run yet. Ghost fields:
  the messages accepted, and those that left with how they did.
\<close>

datatype leaving = Received | Flushed

record mq_sys =
  mq :: msg_q
  asleep :: "nat list"
  woken :: "nat list"
  sent :: "ptr list"
  left :: "(ptr \<times> leaving) list"

definition wake_up :: "wake \<Rightarrow> nat \<Rightarrow> mq_sys \<Rightarrow> mq_sys" where
  "wake_up w t s =
    (case w of
       Wake_None \<Rightarrow> s
     | Wake_One \<Rightarrow> if t \<in> set (asleep s) then s\<lparr>asleep := remove1 t (asleep s), woken := t # woken s\<rparr> else s
     | Wake_All \<Rightarrow> s\<lparr>asleep := [], woken := asleep s @ woken s\<rparr>)"

text \<open>A receiving thread after its turn.\<close>

definition rcv_done :: "nat \<Rightarrow> rcv_result \<Rightarrow> mq_sys \<Rightarrow> mq_sys" where
  "rcv_done t r s =
    (case r of
       Sleeps \<Rightarrow> s\<lparr>asleep := t # asleep s\<rparr>
     | Returns _ (Some d) \<Rightarrow> s\<lparr>left := left s @ [(d, Received)]\<rparr>
     | Returns _ None \<Rightarrow> s)"

definition idle :: "nat \<Rightarrow> mq_sys \<Rightarrow> bool" where
  "idle t s \<longleftrightarrow> t \<notin> set (asleep s) \<and> t \<notin> set (woken s)"

definition in_use :: "msg_q \<Rightarrow> ptr set" where
  "in_use q = {e. \<exists>cs. ll_rep (list_mem q) (msg_list q) cs \<and> e \<in> fst ` set cs}"

text \<open>
  \<open>Step_Send\<close>: \<open>malloc\<close> gives NULL or an address not in use, and the signal wakes a sleeping
  thread \<open>w\<close> when there is one.
\<close>

inductive mq_step :: "mq_sys \<Rightarrow> mq_sys \<Rightarrow> bool" where
  Step_Send: "elem \<notin> in_use (mq s) \<Longrightarrow> asleep s \<noteq> [] \<longrightarrow> w \<in> set (asleep s) \<Longrightarrow>
    msg_q_snd elem (Some (mq s)) obj dealloc = (rv, wk, Some q) \<Longrightarrow>
    mq_step s (wake_up wk w (s\<lparr>mq := q, sent := sent s @ (if rv = eMSG_Q_SUCCESS then [obj] else [])\<rparr>))"
| Step_Receive: "idle t s \<Longrightarrow> msg_q_rcv (Some (mq s)) True = (r, Some q) \<Longrightarrow>
    mq_step s (rcv_done t r (s\<lparr>mq := q\<rparr>))"
| Step_Resume: "t \<in> set (woken s) \<Longrightarrow> rcv_loop (mq s) = (r, q) \<Longrightarrow>
    mq_step s (rcv_done t r (s\<lparr>woken := remove1 t (woken s), mq := q\<rparr>))"
| Step_Spurious: "t \<in> set (asleep s) \<Longrightarrow> mq_step s (wake_up Wake_One t s)"
| Step_Unblock: "msg_q_unblock (Some (mq s)) = (rv, wk, Some q) \<Longrightarrow>
    mq_step s (wake_up wk t (s\<lparr>mq := q\<rparr>))"
| Step_Flush: "ll_rep (list_mem (mq s)) (msg_list (mq s)) cs \<Longrightarrow>
    msg_q_flush (Some (mq s)) = Some (rv, Some q) \<Longrightarrow>
    mq_step s (s\<lparr>mq := q, left := left s @ map (\<lambda>d. (d, Flushed)) (rev (map (fst \<circ> snd) cs))\<rparr>)"

inductive_cases mq_stepE: "mq_step s s'"

definition mq_start :: "msg_q \<Rightarrow> mq_sys" where
  "mq_start q = \<lparr>mq = q, asleep = [], woken = [], sent = [], left = []\<rparr>"

definition mq_reachable :: "msg_q \<Rightarrow> mq_sys \<Rightarrow> bool" where
  "mq_reachable q s \<longleftrightarrow> mq_step\<^sup>*\<^sup>* (mq_start q) s"

text \<open>
  The invariant: what left and what is queued is what was sent, in order; while a thread sleeps the
  queue is not unblocked, and for each message in it a thread is about to run.
\<close>

definition mq_inv :: "mq_sys \<Rightarrow> bool" where
  "mq_inv s \<longleftrightarrow> (\<exists>cs. ll_rep (list_mem (mq s)) (msg_list (mq s)) cs \<and>
     map fst (left s) @ rev (map (fst \<circ> snd) cs) = sent s \<and>
     (asleep s \<noteq> [] \<longrightarrow> \<not> unblocked (mq s) \<and> length cs \<le> length (woken s)))"

lemma seg_unique: "seg h pr p xs NULL \<Longrightarrow> seg h pr p ys NULL \<Longrightarrow> xs = ys"
proof (induction xs arbitrary: pr p ys)
  case Nil
  then show ?case by (cases ys) auto
next
  case (Cons x xs)
  then show ?case by (cases ys) auto
qed

lemma ll_rep_unique:
  assumes "ll_rep h l cs" "ll_rep h l cs'"
  shows "cs = cs'"
proof -
  have "map fst cs = map fst cs'"
    using assms seg_unique unfolding ll_rep_def is_list_def by blast
  moreover have "cells h (map fst cs) = cs" "cells h (map fst cs') = cs'"
    using assms unfolding ll_rep_def by blast+
  ultimately show ?thesis by metis
qed

lemma in_use_rep:
  assumes "ll_rep (list_mem q) (msg_list q) cs"
  shows "in_use q = fst ` set cs"
proof -
  have "ll_rep (list_mem q) (msg_list q) cs' \<longleftrightarrow> cs' = cs" for cs'
    using assms ll_rep_unique by blast
  then show ?thesis by (auto simp: in_use_def)
qed

text \<open>One turn of a receiving thread.\<close>

lemma rcv_loop_rep:
  assumes rep: "ll_rep (list_mem q) (msg_list q) cs"
  shows "(cs = [] \<and> \<not> unblocked q \<and> rcv_loop q = (Sleeps, q)) \<or>
    (cs = [] \<and> unblocked q \<and> rcv_loop q = (Returns eMSG_Q_UNAVAILABLE_RESOURCE None, q)) \<or>
    (\<exists>cs0 c h. cs = cs0 @ [c] \<and> ll_rep h (msg_list q) cs0 \<and>
       rcv_loop q = (Returns eMSG_Q_SUCCESS (Some (fst (snd c))), q\<lparr>list_mem := h\<rparr>))"
proof (cases cs rule: rev_cases)
  case Nil
  then show ?thesis using rep rep_nonempty [OF rep] rep_remove_empty
    by (auto simp: rcv_loop_def)
next
  case (snoc cs0 c)
  obtain h where "linked_list_remove (msg_list q) True (list_mem q) =
      (eLINKED_LIST_SUCCESS, Some (fst (snd c)), h)" "ll_rep h (msg_list q) cs0"
    using rep_remove [of "list_mem q" "msg_list q" cs0 "fst c" "fst (snd c)" "snd (snd c)"] rep snoc
    by auto
  then show ?thesis using snoc rep_nonempty [OF rep] by (auto simp: rcv_loop_def)
qed

lemma mq_inv_rcv:
  assumes rep: "ll_rep (list_mem q) (msg_list q) cs"
    and ord: "map fst (left s) @ rev (map (fst \<circ> snd) cs) = sent s"
    and wk: "asleep s \<noteq> [] \<longrightarrow> \<not> unblocked q \<and> length cs \<le> Suc (length (woken s))"
    and r: "rcv_loop q = (r, q')" and "cs = [] \<longrightarrow> asleep s \<noteq> [] \<longrightarrow> \<not> unblocked q"
  shows "mq_inv (rcv_done t r (s\<lparr>mq := q'\<rparr>))"
  using rcv_loop_rep [OF rep]
proof (elim disjE exE conjE)
  fix cs0 c h
  assume c: "cs = cs0 @ [c]" "ll_rep h (msg_list q) cs0"
    "rcv_loop q = (Returns eMSG_Q_SUCCESS (Some (fst (snd c))), q\<lparr>list_mem := h\<rparr>)"
  then show ?thesis using r ord wk unfolding mq_inv_def
    by (intro exI [of _ cs0]) (auto simp: rcv_done_def)
qed (use assms in \<open>auto simp: mq_inv_def rcv_done_def\<close>)

lemma mq_inv_start: "ll_rep (list_mem q) (msg_list q) [] \<Longrightarrow> mq_inv (mq_start q)"
  unfolding mq_inv_def mq_start_def by (rule exI [of _ "[]"]) simp

lemma mq_inv_wake:
  assumes rep: "ll_rep (list_mem (mq s)) (msg_list (mq s)) cs"
    and ord: "map fst (left s) @ rev (map (fst \<circ> snd) cs) = sent s"
    and wk: "asleep s \<noteq> [] \<longrightarrow> \<not> unblocked (mq s) \<and> length cs \<le> Suc (length (woken s))"
    and w: "asleep s \<noteq> [] \<longrightarrow> t \<in> set (asleep s)"
  shows "mq_inv (wake_up Wake_One t s)"
  unfolding mq_inv_def using assms
  by (intro exI [of _ cs]) (auto simp: wake_up_def)

lemma mq_inv_step: "mq_step s s' \<Longrightarrow> mq_inv s \<Longrightarrow> mq_inv s'"
proof (induction rule: mq_step.induct)
  case (Step_Send elem s w obj dealloc rv wk q)
  from Step_Send.prems obtain cs where cs: "ll_rep (list_mem (mq s)) (msg_list (mq s)) cs"
    "map fst (left s) @ rev (map (fst \<circ> snd) cs) = sent s"
    "asleep s \<noteq> [] \<longrightarrow> \<not> unblocked (mq s) \<and> length cs \<le> length (woken s)"
    by (auto simp: mq_inv_def)
  let ?s = "s\<lparr>mq := q, sent := sent s @ (if rv = eMSG_Q_SUCCESS then [obj] else [])\<rparr>"
  show ?case
  proof (cases "obj = NULL \<or> unblocked (mq s)")
    case True
    then have "wk = Wake_None" "q = mq s" "rv \<noteq> eMSG_Q_SUCCESS"
      using Step_Send.hyps(3) by (auto simp: msg_q_snd_def split: if_splits)
    then show ?thesis using Step_Send.prems by (simp add: wake_up_def mq_inv_def)
  next
    case False
    then have one: "wk = Wake_One"
      using Step_Send.hyps(3) by (auto simp: msg_q_snd_def split: prod.splits)
    show ?thesis
    proof (cases "elem = NULL")
      case True
      then have "q = mq s" "rv \<noteq> eMSG_Q_SUCCESS"
        using False Step_Send.hyps(3) cs(1)
        by (auto simp: msg_q_snd_def linked_list_add_def ll_rep_def is_list_def)
      then show ?thesis unfolding one using cs Step_Send.hyps(2)
        by (intro mq_inv_wake [of ?s cs w]) auto
    next
      case ok: False
      obtain h where h: "linked_list_add elem (msg_list (mq s)) obj dealloc (list_mem (mq s)) =
          (eLINKED_LIST_SUCCESS, h)" "ll_rep h (msg_list (mq s)) ((elem, obj, dealloc) # cs)"
        using rep_add [OF cs(1) ok] Step_Send.hyps(1) in_use_rep [OF cs(1)] False by fastforce
      then have q: "q = (mq s)\<lparr>list_mem := h\<rparr>" "rv = eMSG_Q_SUCCESS"
        using False Step_Send.hyps(3) by (auto simp: msg_q_snd_def)
      show ?thesis unfolding one using q h(2) cs(2,3) Step_Send.hyps(2)
        by (intro mq_inv_wake [of ?s "(elem, obj, dealloc) # cs" w]) auto
    qed
  qed
next
  case (Step_Receive t s r q)
  show ?case
  proof (cases "unblocked (mq s)")
    case True
    then show ?thesis using Step_Receive by (auto simp: msg_q_rcv_def rcv_done_def mq_inv_def)
  next
    case False
    then have "rcv_loop (mq s) = (r, q)"
      using Step_Receive.hyps(2) by (auto simp: msg_q_rcv_def split: prod.splits)
    then show ?thesis using Step_Receive.prems False mq_inv_rcv [of "mq s" _ s r q]
      by (auto simp: mq_inv_def intro!: mq_inv_rcv [unfolded mq_inv_def])
  qed
next
  case (Step_Resume t s r q)
  then obtain cs where cs: "ll_rep (list_mem (mq s)) (msg_list (mq s)) cs"
    "map fst (left s) @ rev (map (fst \<circ> snd) cs) = sent s"
    "asleep s \<noteq> [] \<longrightarrow> \<not> unblocked (mq s) \<and> length cs \<le> length (woken s)"
    by (auto simp: mq_inv_def)
  have "length (woken s) = Suc (length (remove1 t (woken s)))"
    using Step_Resume.hyps(1) by (simp add: length_remove1) (metis Suc_pred length_pos_if_in_set)
  then show ?case
    using mq_inv_rcv [of "mq s" cs "s\<lparr>woken := remove1 t (woken s)\<rparr>" r q] cs Step_Resume.hyps(2) by simp
next
  case (Step_Spurious t s)
  then show ?case by (auto simp: mq_inv_def intro!: mq_inv_wake [unfolded mq_inv_def])
next
  case (Step_Unblock s rv wk q t)
  then show ?case by (auto simp: msg_q_unblock_def wake_up_def mq_inv_def split: if_splits)
next
  case (Step_Flush s cs rv q)
  from Step_Flush.prems obtain cs' where cs': "ll_rep (list_mem (mq s)) (msg_list (mq s)) cs'"
    "map fst (left s) @ rev (map (fst \<circ> snd) cs') = sent s"
    "asleep s \<noteq> [] \<longrightarrow> \<not> unblocked (mq s) \<and> length cs' \<le> length (woken s)"
    by (auto simp: mq_inv_def)
  have eq: "cs' = cs" using ll_rep_unique cs'(1) Step_Flush.hyps(1) .
  obtain h where h: "linked_list_flush (msg_list (mq s)) (list_mem (mq s)) = Some (eLINKED_LIST_SUCCESS, h)"
    "ll_rep h (msg_list (mq s)) []"
    using rep_flush [OF cs'(1)] by blast
  then have "q = (mq s)\<lparr>list_mem := h\<rparr>" using Step_Flush.hyps(2) by (simp add: msg_q_flush_def)
  then show ?case unfolding mq_inv_def using h(2) cs' eq
    by (intro exI [of _ "[]"]) (auto simp: comp_def)
qed

lemma mq_inv_reachable:
  "ll_rep (list_mem q) (msg_list q) [] \<Longrightarrow> mq_reachable q s \<Longrightarrow> mq_inv s"
  unfolding mq_reachable_def
  by (rotate_tac, induction rule: rtranclp_induct) (auto intro: mq_inv_start mq_inv_step)

section \<open>The properties\<close>

lemma msg_q_init_rep:
  assumes "msg_q_init d m p mt c h = (eMSG_Q_SUCCESS, Some q)"
  shows "ll_rep (list_mem q) (msg_list q) [] \<and> \<not> unblocked q"
proof -
  have "p \<noteq> NULL"
  proof
    assume "p = NULL"
    then show False
      using assms by (simp add: msg_q_init_def linked_list_init_def split: if_splits)
  qed
  then obtain h' where h': "linked_list_init True p h = (eLINKED_LIST_SUCCESS, Some p, h')" "ll_rep h' p []"
    using rep_init by blast
  then show ?thesis using assms by (auto simp: msg_q_init_def split: if_splits)
qed

definition blank_mem :: ll_mem where
  "blank_mem = \<lparr>p_head = (\<lambda>_. 0), p_tail = (\<lambda>_. 0), le_next = (\<lambda>_. 0), le_prev = (\<lambda>_. 0),
     data_ptr = (\<lambda>_. 0), dealloc_func = (\<lambda>_. 0), deallocs = [], freed = []\<rparr>"

definition some_ll_ops :: "ll_op list" where
  "some_ll_ops = [L_Add 10 100 7, L_Add 11 101 7, L_Add 12 102 0, L_Search (\<lambda>d. d = 101) True False,
     L_Remove, L_Empty, L_Search (\<lambda>d. d = 101) False True, L_Add 11 103 8, L_Flush, L_Remove]"

text \<open>
  C12: Any sequence of operations on a new list (add, remove, search with or without removal, flush,
  test) returns what the functional list returns, leaves the list that it describes, and calls the
  deallocation functions that it names, as long as \<open>malloc\<close> gives NULL or an address that is not
  in use.
\<close>

theorem linked_list_refines:
  assumes "p \<noteq> NULL" and "ll_spec_run xs [] = Some (rs, cs, ds)"
  shows "case linked_list_init True p h of (r, l, h0) \<Rightarrow>
    r = eLINKED_LIST_SUCCESS \<and> l = Some p \<and>
    (\<exists>h'. ll_run p xs h0 = Some (rs, h') \<and> ll_rep h' p cs \<and> deallocs h' = deallocs h0 @ ds)"
proof -
  obtain h0 where "linked_list_init True p h = (eLINKED_LIST_SUCCESS, Some p, h0)" "ll_rep h0 p []"
    using rep_init [OF assms(1)] by blast
  then show ?thesis using ll_run_refines [OF _ assms(2)] by auto
qed

theorem linked_list_refines_witness:
  "case linked_list_init True 1 blank_mem of (r, l, h0) \<Rightarrow>
    r = eLINKED_LIST_SUCCESS \<and> l = Some 1 \<and>
    (\<exists>h'. ll_run 1 some_ll_ops h0 =
        Some ([R_Err eLINKED_LIST_SUCCESS, R_Err eLINKED_LIST_SUCCESS, R_Err eLINKED_LIST_SUCCESS,
               R_Found eLINKED_LIST_SUCCESS None 2, R_Removed eLINKED_LIST_SUCCESS (Some 100),
               R_Empty 0, R_Found eLINKED_LIST_SUCCESS (Some 0) 1, R_Err eLINKED_LIST_SUCCESS,
               R_Err eLINKED_LIST_SUCCESS, R_Removed eLINKED_LIST_UNAVAILABLE_RESOURCE None], h') \<and>
      ll_rep h' 1 [] \<and> deallocs h' = deallocs h0 @ [(7, 101), (8, 103)])"
  by (rule linked_list_refines) (simp_all add: some_ll_ops_def dealloc_call_def)

text \<open>
  C5: Whatever threads send, receive, flush, unblock and wake in whatever order, the messages leave
  the queue in the order in which they were sent, none twice and none lost; those still queued come
  out in that order; and no wake-up is lost: while a thread sleeps the queue is not unblocked and
  there are at least as many threads on their way to it as messages in it.
\<close>

theorem msg_q_delivers:
  assumes "msg_q_init True True p True True h = (eMSG_Q_SUCCESS, Some q)" and "mq_reachable q s"
  shows "\<exists>queued. map fst (left s) @ queued = sent s \<and>
    fst (drain q_deq (length queued) (msg_list (mq s), list_mem (mq s))) = queued \<and>
    linked_list_empty (msg_list (mq s)) (list_mem (mq s)) = (if queued = [] then 1 else 0) \<and>
    (asleep s \<noteq> [] \<longrightarrow> \<not> unblocked (mq s) \<and> length queued \<le> length (woken s))"
proof -
  have "mq_inv s" using mq_inv_reachable msg_q_init_rep assms by blast
  then obtain cs where cs: "ll_rep (list_mem (mq s)) (msg_list (mq s)) cs"
    "map fst (left s) @ rev (map (fst \<circ> snd) cs) = sent s"
    "asleep s \<noteq> [] \<longrightarrow> \<not> unblocked (mq s) \<and> length cs \<le> length (woken s)"
    by (auto simp: mq_inv_def)
  have "q_rep (msg_list (mq s), list_mem (mq s)) (rev (map (fst \<circ> snd) cs))"
    using cs(1) by (auto simp: q_rep_def)
  from ll_queue.drain_all [OF this] show ?thesis
    using cs rep_nonempty [OF cs(1)] by (intro exI [of _ "rev (map (fst \<circ> snd) cs)"]) auto
qed

text \<open>A queue on which thread 3 sleeps until a message arrives.\<close>

definition some_msg_q :: msg_q where
  "some_msg_q = \<lparr>msg_list = 1, list_mem = blank_mem, unblocked = False\<rparr>"

lemma some_msg_q_init:
  "msg_q_init True True 1 True True blank_mem = (eMSG_Q_SUCCESS, Some some_msg_q)"
  by (auto simp: msg_q_init_def linked_list_init_def ll_puts blank_mem_def some_msg_q_def)

definition sent_msg_q :: msg_q where
  "sent_msg_q = some_msg_q\<lparr>list_mem := snd (linked_list_add 10 1 100 7 blank_mem)\<rparr>"

definition some_mq_sys :: mq_sys where
  "some_mq_sys = \<lparr>mq = sent_msg_q, asleep = [], woken = [3], sent = [100], left = []\<rparr>"

lemma some_mq_reachable: "mq_reachable some_msg_q some_mq_sys"
proof -
  have rep: "ll_rep (list_mem some_msg_q) (msg_list some_msg_q) []"
    using msg_q_init_rep [OF some_msg_q_init] by blast
  let ?s = "(mq_start some_msg_q)\<lparr>asleep := [3]\<rparr>"
  have "msg_q_rcv (Some some_msg_q) True = (Sleeps, Some some_msg_q)"
    by (simp add: msg_q_rcv_def rcv_loop_def linked_list_empty_def some_msg_q_def blank_mem_def)
  then have one: "mq_step (mq_start some_msg_q) ?s"
    using Step_Receive [of 3 "mq_start some_msg_q" Sleeps some_msg_q]
    by (simp add: mq_start_def idle_def rcv_done_def)
  have snd: "msg_q_snd 10 (Some some_msg_q) 100 7 = (eMSG_Q_SUCCESS, Wake_One, Some sent_msg_q)"
    by (simp add: msg_q_snd_def sent_msg_q_def some_msg_q_def linked_list_add_def Let_def)
  have "10 \<notin> in_use some_msg_q" using in_use_rep [OF rep] by simp
  then have "mq_step ?s some_mq_sys"
    using Step_Send [of 10 ?s 3 100 7] snd
    by (simp add: mq_start_def wake_up_def some_mq_sys_def)
  with one show ?thesis unfolding mq_reachable_def by (meson converse_rtranclp_into_rtranclp rtranclp.rtrancl_refl)
qed

theorem msg_q_delivers_witness:
  "\<exists>queued. map fst (left some_mq_sys) @ queued = sent some_mq_sys \<and>
    fst (drain q_deq (length queued) (msg_list (mq some_mq_sys), list_mem (mq some_mq_sys))) = queued \<and>
    linked_list_empty (msg_list (mq some_mq_sys)) (list_mem (mq some_mq_sys)) = (if queued = [] then 1 else 0) \<and>
    (asleep some_mq_sys \<noteq> [] \<longrightarrow> \<not> unblocked (mq some_mq_sys) \<and> length queued \<le> length (woken some_mq_sys))"
  by (rule msg_q_delivers [OF some_msg_q_init some_mq_reachable])

end
