(* ===== verification/Agps.thy ===== *)
theory Agps
  imports LinkedList
begin

text \<open>
  The data connections of assisted GPS: \<open>gps/loc_api/libloc_api_50001/loc_eng_agps.cpp\<close> and
  \<open>loc_eng_agps.h\<close>. A state machine keeps the list of the clients (subscribers) that want a
  connection, asks the connectivity service for one, and tells the clients. \<open>agps\<close> is the object
  \<open>AgpsStateMachine\<close> and, with \<open>is_ds\<close>, its subclass \<open>DSStateMachine\<close>; each virtual function
  is a function that looks at the constructor of the object.

  The list is one of \<open>linked_list.c\<close>, whose search is \<open>list_search\<close> (theory \<open>LinkedList\<close>); its
  cells are the clones of the clients with their addresses, because a notification may point to
  one that has been deleted.
\<close>

section \<open>Subscribers and notifications\<close>

datatype AgpsRsrcStatus =
    RSRC_SUBSCRIBE
  | RSRC_UNSUBSCRIBE
  | RSRC_GRANTED
  | RSRC_RELEASED
  | RSRC_DENIED
  | RSRC_STATUS_MAX

datatype agps_action = GPS_REQUEST_AGPS_DATA_CONN | GPS_RELEASE_AGPS_DATA_CONN

datatype Subscriber =
    BITSubscriber (ID: u32) (mIPv6Addr: "u8 list")
  | ATLSubscriber (ID: u32) (mBackwardCompatibleMode: bool)
  | WIFISubscriber (ID: u32) (mSSID: "string option") (mPassword: "string option") (mIsInactive: bool)
  | DSSubscriber (ID: u32) (mIsInactive: bool)

definition INADDR_NONE :: u32 where
  "INADDR_NONE = 0xFFFFFFFF"

definition SSID_BUF_SIZE :: nat where
  "SSID_BUF_SIZE = 33"

definition strlcpy :: "nat \<Rightarrow> string \<Rightarrow> string" where
  "strlcpy n s = take (n - 1) s"

text \<open>The constructors. The address of a BIT client without one starts with a zero byte.\<close>

definition new_BITSubscriber :: "u32 \<Rightarrow> u8 list option \<Rightarrow> Subscriber" where
  "new_BITSubscriber ipv4 ipv6 = BITSubscriber ipv4 (case ipv6 of None \<Rightarrow> [0] | Some a \<Rightarrow> take 16 a)"

definition new_ATLSubscriber :: "u32 \<Rightarrow> bool \<Rightarrow> Subscriber" where
  "new_ATLSubscriber i compatible = ATLSubscriber i compatible"

definition new_WIFISubscriber :: "string option \<Rightarrow> string option \<Rightarrow> u32 \<Rightarrow> Subscriber" where
  "new_WIFISubscriber ssid password sender =
    WIFISubscriber sender (map_option (strlcpy SSID_BUF_SIZE) ssid)
      (map_option (strlcpy SSID_BUF_SIZE) password) False"

definition new_DSSubscriber :: "u32 \<Rightarrow> Subscriber" where
  "new_DSSubscriber i = DSSubscriber i False"

fun clone :: "Subscriber \<Rightarrow> Subscriber" where
  "clone (BITSubscriber i a) = new_BITSubscriber i (Some a)"
| "clone (ATLSubscriber i c) = new_ATLSubscriber i c"
| "clone (WIFISubscriber i s p _) = new_WIFISubscriber s p i"
| "clone (DSSubscriber i _) = new_DSSubscriber i"

fun waitForCloseComplete :: "Subscriber \<Rightarrow> bool" where
  "waitForCloseComplete (WIFISubscriber _ _ _ _) = True"
| "waitForCloseComplete (DSSubscriber _ _) = True"
| "waitForCloseComplete _ = False"

fun isInactive :: "Subscriber \<Rightarrow> bool" where
  "isInactive (WIFISubscriber _ _ _ b) = b"
| "isInactive (DSSubscriber _ b) = b"
| "isInactive _ = False"

fun setWifiInfo :: "Subscriber \<Rightarrow> string \<times> string" where
  "setWifiInfo (WIFISubscriber _ s p _) =
    (case s of None \<Rightarrow> '''' | Some s \<Rightarrow> strlcpy SSID_BUF_SIZE s,
     case p of None \<Rightarrow> '''' | Some p \<Rightarrow> strlcpy SSID_BUF_SIZE p)"
| "setWifiInfo _ = ('''', '''')"

text \<open>
  \<open>rcver\<close> points to an object of the caller's, which outlives the call, or to one of the list. The
  three broadcast groups are \<open>groupID\<close>; a notification to one client has none.
\<close>

datatype receiver = Caller Subscriber | Listed nat

datatype broadcast = BROADCAST_ALL | BROADCAST_ACTIVE | BROADCAST_INACTIVE

record Notification =
  rcver :: "receiver option"
  groupID :: "broadcast option"
  rsrcStatus :: AgpsRsrcStatus
  postNotifyDelete :: bool

definition to_group :: "broadcast \<Rightarrow> AgpsRsrcStatus \<Rightarrow> bool \<Rightarrow> Notification" where
  "to_group g status del =
    \<lparr>rcver = None, groupID = Some g, rsrcStatus = status, postNotifyDelete = del\<rparr>"

definition to_one :: "receiver \<Rightarrow> AgpsRsrcStatus \<Rightarrow> bool \<Rightarrow> Notification" where
  "to_one r status del =
    \<lparr>rcver = Some r, groupID = None, rsrcStatus = status, postNotifyDelete = del\<rparr>"

section \<open>The machine\<close>

datatype servicerType = servicerTypeNoCbParam | servicerTypeAgps | servicerTypeExt

datatype AgpsState = AgpsReleasedState | AgpsPendingState | AgpsAcquiredState | AgpsReleasingState

datatype dmn_status =
    GPSONE_LOC_API_IF_REQUEST_SUCCESS
  | GPSONE_LOC_API_IF_RELEASE_SUCCESS
  | GPSONE_LOC_API_IF_FAILURE

datatype sockaddr = Addr_Zeroed | Addr_Family_INET6

text \<open>
  The request passed to the service. \<open>ipv4_addr\<close> is None where the code leaves the field of its
  local variable unset; of \<open>addr\<close> it sets only the family.
\<close>

record AGpsExtStatus =
  nif_type :: int
  nif_status :: agps_action
  ipv4_addr :: "u32 option"
  nif_addr :: sockaddr
  ssid :: string
  password :: string

datatype cb_data = NifRequest AGpsExtStatus | DsCbData agps_action

text \<open>
  What the machine does to the outside, in order, and each read of a subscriber that has been
  deleted.
\<close>

datatype agps_call =
    DmnConn u32 dmn_status
  | AtlOpenStatus u32 bool "string option" int int
  | AtlCloseStatus u32 bool
  | RequestNif
  | RequestAGps cb_data
  | RequestExt cb_data
  | TimerStart nat
  | CloseDataCall
  | RequestATL u32 int
  | RequestSuplES u32
  | FreedRead nat

record agps =
  mSubscribers :: "(nat \<times> Subscriber) list"
  mStatePtr :: AgpsState
  mServicer :: servicerType
  mType :: int
  mAPN :: "string option"
  mAPNLen :: nat
  mBearer :: int
  mEnforceSingleSubscriber :: bool
  is_ds :: bool
  mRetries :: u8
  calls :: "agps_call list"

text \<open>
  What the machine cannot know: the bytes of a deleted subscriber at an address, the bytes behind an
  object that has no IPv6 address, and what the callback of an external service returns when the
  calls so far are those given.
\<close>

record agps_env =
  stale :: "nat \<Rightarrow> Subscriber"
  past_end :: "Subscriber \<Rightarrow> u8 list"
  ext_ret :: "agps_call list \<Rightarrow> int"

definition AGPS_TYPE_INVALID :: int where "AGPS_TYPE_INVALID = - 1"
definition AGPS_TYPE_SUPL :: int where "AGPS_TYPE_SUPL = 1"
definition AGPS_TYPE_WWAN_ANY :: int where "AGPS_TYPE_WWAN_ANY = 3"
definition AGPS_TYPE_WIFI :: int where "AGPS_TYPE_WIFI = 4"
definition AGPS_TYPE_SUPL_ES :: int where "AGPS_TYPE_SUPL_ES = 5"
definition AGPS_APN_BEARER_INVALID :: int where "AGPS_APN_BEARER_INVALID = - 1"
definition SENDER_ID_GPSONE_DAEMON :: u32 where "SENDER_ID_GPSONE_DAEMON = 3"
definition MAX_START_DATA_CALL_RETRIES :: u8 where "MAX_START_DATA_CALL_RETRIES = 4"
definition DATA_CALL_RETRY_DELAY_MSEC :: nat where "DATA_CALL_RETRY_DELAY_MSEC = 500"
definition ERR_SUCCESS :: int where "ERR_SUCCESS = 0"
definition ERR_UNSUPPORTED :: int where "ERR_UNSUPPORTED = 2"
definition ERR_ENGINE_BUSY :: int where "ERR_ENGINE_BUSY = 6"

lemmas agps_consts = AGPS_TYPE_INVALID_def AGPS_TYPE_SUPL_def AGPS_TYPE_WWAN_ANY_def
  AGPS_TYPE_WIFI_def AGPS_TYPE_SUPL_ES_def AGPS_APN_BEARER_INVALID_def SENDER_ID_GPSONE_DAEMON_def
  MAX_START_DATA_CALL_RETRIES_def DATA_CALL_RETRY_DELAY_MSEC_def ERR_SUCCESS_def
  ERR_UNSUPPORTED_def ERR_ENGINE_BUSY_def INADDR_NONE_def SSID_BUF_SIZE_def

definition new_AgpsStateMachine :: "servicerType \<Rightarrow> int \<Rightarrow> bool \<Rightarrow> agps" where
  "new_AgpsStateMachine serv type single =
    \<lparr>mSubscribers = [], mStatePtr = AgpsReleasedState, mServicer = serv, mType = type,
     mAPN = None, mAPNLen = 0, mBearer = AGPS_APN_BEARER_INVALID,
     mEnforceSingleSubscriber = single, is_ds = False, mRetries = 0, calls = []\<rparr>"

definition new_DSStateMachine :: "servicerType \<Rightarrow> agps" where
  "new_DSStateMachine serv =
    (new_AgpsStateMachine serv AGPS_TYPE_INVALID False)\<lparr>is_ds := True, mRetries := 0\<rparr>"

definition emit :: "agps_call \<Rightarrow> agps \<Rightarrow> agps" where
  "emit c st = st\<lparr>calls := calls st @ [c]\<rparr>"

definition setAPN :: "string option \<Rightarrow> nat \<Rightarrow> agps \<Rightarrow> agps" where
  "setAPN apn len st =
    (case apn of
       Some a \<Rightarrow> st\<lparr>mAPN := Some (take len a), mAPNLen := len\<rparr>
     | None \<Rightarrow> st\<lparr>mAPN := None, mAPNLen := 0\<rparr>)"

definition setBearer :: "int \<Rightarrow> agps \<Rightarrow> agps" where
  "setBearer b st = st\<lparr>mBearer := b\<rparr>"

text \<open>The object that a receiver points to.\<close>

definition read_rcver :: "agps_env \<Rightarrow> receiver \<Rightarrow> agps \<Rightarrow> Subscriber \<times> agps" where
  "read_rcver E r st =
    (case r of
       Caller s \<Rightarrow> (s, st)
     | Listed a \<Rightarrow>
         (case map_of (mSubscribers st) a of
            Some s \<Rightarrow> (s, st)
          | None \<Rightarrow> (stale E a, emit (FreedRead a) st)))"

text \<open>\<open>strncmp\<close> of two arrays of 16 bytes: it stops at a zero byte.\<close>

definition same_cstr16 :: "u8 list \<Rightarrow> u8 list \<Rightarrow> bool" where
  "same_cstr16 a b \<longleftrightarrow> takeWhile (\<lambda>x. x \<noteq> 0) (take 16 a) = takeWhile (\<lambda>x. x \<noteq> 0) (take 16 b)"

definition ipv6_bytes :: "agps_env \<Rightarrow> Subscriber \<Rightarrow> u8 list" where
  "ipv6_bytes E s = (case s of BITSubscriber _ a \<Rightarrow> a | _ \<Rightarrow> past_end E s)"

fun equals :: "agps_env \<Rightarrow> Subscriber \<Rightarrow> Subscriber \<Rightarrow> bool" where
  "equals E (BITSubscriber i a) s \<longleftrightarrow> i = ID s \<and> (INADDR_NONE \<noteq> i \<or> same_cstr16 a (ipv6_bytes E s))"
| "equals E this s \<longleftrightarrow> ID this = ID s"

definition forMe :: "agps_env \<Rightarrow> Notification \<Rightarrow> Subscriber \<Rightarrow> agps \<Rightarrow> bool \<times> agps" where
  "forMe E n this st =
    (case rcver n of
       Some r \<Rightarrow> (case read_rcver E r st of (s, st) \<Rightarrow> (equals E this s, st))
     | None \<Rightarrow>
         (groupID n = Some BROADCAST_ALL \<or>
          (groupID n = Some BROADCAST_ACTIVE \<and> \<not> isInactive this) \<or>
          (groupID n = Some BROADCAST_INACTIVE \<and> isInactive this), st))"

definition informStatus :: "AgpsRsrcStatus \<Rightarrow> u32 \<Rightarrow> agps \<Rightarrow> agps" where
  "informStatus status i st =
    (case status of
       RSRC_UNSUBSCRIBE \<Rightarrow> emit (AtlCloseStatus i True) st
     | RSRC_RELEASED \<Rightarrow> emit CloseDataCall st
     | RSRC_DENIED \<Rightarrow> emit (RequestATL i AGPS_TYPE_SUPL) (st\<lparr>mRetries := 0\<rparr>)
     | RSRC_GRANTED \<Rightarrow>
         emit (AtlOpenStatus i True None AGPS_APN_BEARER_INVALID AGPS_TYPE_INVALID) st
     | _ \<Rightarrow> st)"

text \<open>
  What a client is told of a status: the body of \<open>notifyRsrcStatus\<close> of each class, None for the
  default case.
\<close>

fun tell :: "Subscriber \<Rightarrow> AgpsRsrcStatus \<Rightarrow> agps \<Rightarrow> agps option" where
  "tell (BITSubscriber _ _) status st =
    (case status of
       RSRC_UNSUBSCRIBE \<Rightarrow> Some (emit (DmnConn SENDER_ID_GPSONE_DAEMON GPSONE_LOC_API_IF_RELEASE_SUCCESS) st)
     | RSRC_RELEASED \<Rightarrow> Some (emit (DmnConn SENDER_ID_GPSONE_DAEMON GPSONE_LOC_API_IF_RELEASE_SUCCESS) st)
     | RSRC_DENIED \<Rightarrow> Some (emit (DmnConn SENDER_ID_GPSONE_DAEMON GPSONE_LOC_API_IF_FAILURE) st)
     | RSRC_GRANTED \<Rightarrow> Some (emit (DmnConn SENDER_ID_GPSONE_DAEMON GPSONE_LOC_API_IF_REQUEST_SUCCESS) st)
     | _ \<Rightarrow> None)"
| "tell (ATLSubscriber i compatible) status st =
    (case status of
       RSRC_UNSUBSCRIBE \<Rightarrow> Some (emit (AtlCloseStatus i True) st)
     | RSRC_RELEASED \<Rightarrow> Some (emit (AtlCloseStatus i True) st)
     | RSRC_DENIED \<Rightarrow> Some (emit (AtlOpenStatus i False (mAPN st) (mBearer st)
         (if compatible then AGPS_TYPE_INVALID else mType st)) st)
     | RSRC_GRANTED \<Rightarrow> Some (emit (AtlOpenStatus i True (mAPN st) (mBearer st)
         (if compatible then AGPS_TYPE_INVALID else mType st)) st)
     | _ \<Rightarrow> None)"
| "tell (WIFISubscriber i _ _ _) status st =
    (case status of
       RSRC_UNSUBSCRIBE \<Rightarrow> Some st
     | RSRC_RELEASED \<Rightarrow> Some (emit (DmnConn i GPSONE_LOC_API_IF_RELEASE_SUCCESS) st)
     | RSRC_DENIED \<Rightarrow> Some (emit (DmnConn i GPSONE_LOC_API_IF_FAILURE) st)
     | RSRC_GRANTED \<Rightarrow> Some (emit (DmnConn i GPSONE_LOC_API_IF_REQUEST_SUCCESS) st)
     | _ \<Rightarrow> None)"
| "tell (DSSubscriber i _) status st =
    (if status \<in> {RSRC_UNSUBSCRIBE, RSRC_RELEASED, RSRC_DENIED, RSRC_GRANTED}
     then Some (informStatus status i st) else None)"

definition notifyRsrcStatus :: "agps_env \<Rightarrow> Notification \<Rightarrow> Subscriber \<Rightarrow> agps \<Rightarrow> bool \<times> agps" where
  "notifyRsrcStatus E n this st =
    (case forMe E n this st of
       (notify, st) \<Rightarrow>
         if notify then
           (case tell this (rsrcStatus n) st of None \<Rightarrow> (False, st) | Some st \<Rightarrow> (True, st))
         else (False, st))"

section \<open>The operations on the list\<close>

text \<open>The two callbacks given to \<open>linked_list_search\<close>.\<close>

definition hasSubscriber :: "agps_env \<Rightarrow> Notification \<Rightarrow> nat \<times> Subscriber \<Rightarrow> agps \<Rightarrow> bool \<times> agps" where
  "hasSubscriber E n c st = forMe E n (snd c) st"

definition notifySubscriber :: "agps_env \<Rightarrow> Notification \<Rightarrow> nat \<times> Subscriber \<Rightarrow> agps \<Rightarrow> bool \<times> agps" where
  "notifySubscriber E n c st =
    (case notifyRsrcStatus E n (snd c) st of (b, st) \<Rightarrow> (b \<and> postNotifyDelete n, st))"

text \<open>One search of the machine's list; what is taken out is deleted.\<close>

definition search_subscribers ::
  "(nat \<times> Subscriber \<Rightarrow> agps \<Rightarrow> bool \<times> agps) \<Rightarrow> bool \<Rightarrow> agps \<Rightarrow> (nat \<times> Subscriber) option \<times> agps" where
  "search_subscribers equal rm st =
    (case list_search equal rm (mSubscribers st) st of
       (r, cs, st) \<Rightarrow> (r, st\<lparr>mSubscribers := cs\<rparr>))"

lemma list_search_length:
  "list_search eq rm xs s = (r, ys, s') \<Longrightarrow> length ys = (if rm \<and> r \<noteq> None then length xs - 1 else length xs)"
proof (induction xs arbitrary: s r ys s')
  case (Cons x xs)
  obtain b s1 where b: "eq x s = (b, s1)" by force
  obtain r1 ys1 s2 where r: "list_search eq rm xs s1 = (r1, ys1, s2)" by (metis prod_cases3)
  have ne: "xs \<noteq> []" if "r1 \<noteq> None" using r that by auto
  show ?case using Cons.IH [OF r] Cons.prems b r ne by (cases b; cases r1) auto
qed simp

lemma list_search_found: "list_search eq rm xs s = (Some x, ys, s') \<Longrightarrow> xs \<noteq> []"
  by (cases xs) auto

lemma search_shrinks:
  assumes "search_subscribers eq True st = (Some x, st')"
  shows "length (mSubscribers st') < length (mSubscribers st)"
proof -
  obtain cs st1 where l: "list_search eq True (mSubscribers st) st = (Some x, cs, st1)"
    and st': "st' = st1\<lparr>mSubscribers := cs\<rparr>"
    using assms unfolding search_subscribers_def by (auto split: prod.splits)
  have "mSubscribers st \<noteq> []" by (rule list_search_found [OF l])
  moreover have "length cs = length (mSubscribers st) - 1"
    using list_search_length [OF l] by simp
  ultimately show ?thesis unfolding st' by simp
qed

function notify_loop :: "agps_env \<Rightarrow> Notification \<Rightarrow> agps \<Rightarrow> agps" where
  "notify_loop E n st =
    (case search_subscribers (notifySubscriber E n) True st of
       (None, st) \<Rightarrow> st
     | (Some _, st) \<Rightarrow> notify_loop E n st)"
  by pat_completeness auto
termination
  by (relation "measure (\<lambda>(_, _, st). length (mSubscribers st))")
    (auto intro: search_shrinks [OF sym])

declare notify_loop.simps [simp del]

definition notifySubscribers :: "agps_env \<Rightarrow> Notification \<Rightarrow> agps \<Rightarrow> agps" where
  "notifySubscribers E n st =
    (if postNotifyDelete n then notify_loop E n st
     else snd (search_subscribers (notifySubscriber E n) False st))"

text \<open>An address that no subscriber of the list has.\<close>

definition new_addr :: "agps \<Rightarrow> nat" where
  "new_addr st = Suc (fold max (map fst (mSubscribers st)) 0)"

definition addSubscriber :: "agps_env \<Rightarrow> Subscriber \<Rightarrow> agps \<Rightarrow> agps" where
  "addSubscriber E s st =
    (case search_subscribers (hasSubscriber E (to_one (Caller s) RSRC_STATUS_MAX False)) False st of
       (None, st) \<Rightarrow> st\<lparr>mSubscribers := (new_addr st, clone s) # mSubscribers st\<rparr>
     | (Some _, st) \<Rightarrow> st)"

definition find_active :: "agps_env \<Rightarrow> agps \<Rightarrow> (nat \<times> Subscriber) option \<times> agps" where
  "find_active E st =
    search_subscribers (hasSubscriber E (to_group BROADCAST_ACTIVE RSRC_STATUS_MAX False)) False st"

definition hasSubscribers :: "agps \<Rightarrow> bool" where
  "hasSubscribers st \<longleftrightarrow> mSubscribers st \<noteq> []"

definition hasActiveSubscribers :: "agps_env \<Rightarrow> agps \<Rightarrow> bool" where
  "hasActiveSubscribers E st \<longleftrightarrow> fst (find_active E st) \<noteq> None"

definition dropAllSubscribers :: "agps \<Rightarrow> agps" where
  "dropAllSubscribers st = st\<lparr>mSubscribers := []\<rparr>"

text \<open>A listed client becomes inactive; the class of the data service also tells the modem.\<close>

fun inactivated :: "Subscriber \<Rightarrow> Subscriber" where
  "inactivated (WIFISubscriber i s p _) = WIFISubscriber i s p True"
| "inactivated (DSSubscriber i _) = DSSubscriber i True"
| "inactivated s = s"

definition setInactive :: "receiver \<Rightarrow> Subscriber \<Rightarrow> agps \<Rightarrow> agps" where
  "setInactive r s st =
    (let st = (case r of
         Listed a \<Rightarrow> st\<lparr>mSubscribers :=
           map (\<lambda>(b, x). (b, if b = a then inactivated x else x)) (mSubscribers st)\<rparr>
       | Caller _ \<Rightarrow> st)
     in case s of DSSubscriber i _ \<Rightarrow> informStatus RSRC_UNSUBSCRIBE i st | _ \<Rightarrow> st)"

end
