(* ===== verification/AgpsMachine.thy ===== *)
theory AgpsMachine
  imports Agps
begin

text \<open>
  The operations of \<open>AgpsStateMachine\<close> and \<open>DSStateMachine\<close>: the request to the service, the
  event functions of the four states, the two entries of the clients, and the retry of the data
  service. \<open>agps_run\<close> executes any sequence of them.
\<close>

section \<open>The request to the service\<close>

definition requestRsrc :: "agps_env \<Rightarrow> cb_data \<Rightarrow> agps \<Rightarrow> int \<times> agps" where
  "requestRsrc E d st =
    (case mServicer st of
       servicerTypeNoCbParam \<Rightarrow> (0, emit RequestNif st)
     | servicerTypeAgps \<Rightarrow> (0, emit (RequestAGps d) st)
     | servicerTypeExt \<Rightarrow> (ext_ret E (calls st), emit (RequestExt d) st))"

definition agps_sendRsrcRequest :: "agps_env \<Rightarrow> agps_action \<Rightarrow> agps \<Rightarrow> int \<times> agps" where
  "agps_sendRsrcRequest E action st =
    (case find_active E st of
       (s, st) \<Rightarrow>
         if (s = None) = (action = GPS_RELEASE_AGPS_DATA_CONN) then
           let nif = (case s of
               None \<Rightarrow> \<lparr>nif_type = mType st, nif_status = action, ipv4_addr = Some INADDR_NONE,
                        nif_addr = Addr_Zeroed, ssid = '''', password = ''''\<rparr>
             | Some (_, c) \<Rightarrow> \<lparr>nif_type = mType st, nif_status = action, ipv4_addr = None,
                        nif_addr = Addr_Family_INET6, ssid = fst (setWifiInfo c),
                        password = snd (setWifiInfo c)\<rparr>)
           in (0, snd (requestRsrc E (NifRequest nif) st))
         else (0, st))"

definition incRetries :: "agps \<Rightarrow> agps" where
  "incRetries st = st\<lparr>mRetries := mRetries st + 1\<rparr>"

text \<open>
  \<open>loc_timer_start\<close> returns the handle of the timer, which is not NULL, and the code takes that for
  a failure.
\<close>

definition ds_sendRsrcRequest :: "agps_env \<Rightarrow> agps_action \<Rightarrow> agps \<Rightarrow> int \<times> agps" where
  "ds_sendRsrcRequest E action st =
    (case find_active E st of
       (s, st) \<Rightarrow>
         let connHandle = (case s of Some (_, c) \<Rightarrow> ID c | None \<Rightarrow> - 1)
         in case requestRsrc E (DsCbData action) st of
           (r, st) \<Rightarrow>
             if r = ERR_ENGINE_BUSY then
               (let st = incRetries st
                in if mRetries st > MAX_START_DATA_CALL_RETRIES
                   then (r, informStatus RSRC_DENIED connHandle st)
                   else (- 1, emit (TimerStart DATA_CALL_RETRY_DELAY_MSEC) st))
             else if r = ERR_UNSUPPORTED \<or> r = - 1 then (r, informStatus RSRC_DENIED connHandle st)
             else (r, st))"

definition sendRsrcRequest :: "agps_env \<Rightarrow> agps_action \<Rightarrow> agps \<Rightarrow> int \<times> agps" where
  "sendRsrcRequest E action st =
    (if is_ds st then ds_sendRsrcRequest E action st else agps_sendRsrcRequest E action st)"

section \<open>The states\<close>

text \<open>
  The event functions return the next state and the machine. Their \<open>data\<close> is the client of the
  event; the object it points to is the one read.
\<close>

definition released_onRsrcEvent ::
  "agps_env \<Rightarrow> AgpsRsrcStatus \<Rightarrow> receiver option \<Rightarrow> agps \<Rightarrow> AgpsState \<times> agps" where
  "released_onRsrcEvent E event data st =
    (case (event, data) of
       (RSRC_SUBSCRIBE, Some r) \<Rightarrow>
         (case read_rcver E r st of (s, st) \<Rightarrow>
            (case sendRsrcRequest E GPS_REQUEST_AGPS_DATA_CONN (addSubscriber E s st) of
               (rv, st) \<Rightarrow> (if rv = 0 then AgpsPendingState else AgpsReleasedState, st)))
     | (RSRC_UNSUBSCRIBE, Some r) \<Rightarrow>
         (case read_rcver E r st of (s, st) \<Rightarrow>
            (AgpsReleasedState, snd (notifyRsrcStatus E (to_one r event False) s st)))
     | _ \<Rightarrow> (AgpsReleasedState, st))"

text \<open>What the other three states do with a client that leaves.\<close>

definition drop_client :: "agps_env \<Rightarrow> receiver \<Rightarrow> agps \<Rightarrow> agps" where
  "drop_client E r st =
    (case read_rcver E r st of (s, st) \<Rightarrow>
       if waitForCloseComplete s then setInactive r s st
       else notifySubscribers E (to_one r RSRC_UNSUBSCRIBE True) st)"

text \<open>\ldots and two of them then, when nobody needs the connection any more.\<close>

definition release_if_idle :: "agps_env \<Rightarrow> AgpsState \<Rightarrow> agps \<Rightarrow> AgpsState \<times> agps" where
  "release_if_idle E this st =
    (if \<not> hasSubscribers st then
       (AgpsReleasedState, snd (sendRsrcRequest E GPS_RELEASE_AGPS_DATA_CONN st))
     else if \<not> hasActiveSubscribers E st then
       (AgpsReleasingState, snd (sendRsrcRequest E GPS_RELEASE_AGPS_DATA_CONN st))
     else (this, st))"

definition pending_onRsrcEvent ::
  "agps_env \<Rightarrow> AgpsRsrcStatus \<Rightarrow> receiver option \<Rightarrow> agps \<Rightarrow> AgpsState \<times> agps" where
  "pending_onRsrcEvent E event data st =
    (case (event, data) of
       (RSRC_SUBSCRIBE, Some r) \<Rightarrow>
         (case read_rcver E r st of (s, st) \<Rightarrow> (AgpsPendingState, addSubscriber E s st))
     | (RSRC_UNSUBSCRIBE, Some r) \<Rightarrow> release_if_idle E AgpsPendingState (drop_client E r st)
     | (RSRC_GRANTED, _) \<Rightarrow>
         (AgpsAcquiredState, notifySubscribers E (to_group BROADCAST_ACTIVE event False) st)
     | (RSRC_DENIED, _) \<Rightarrow>
         (AgpsReleasedState, notifySubscribers E (to_group BROADCAST_ALL event True) st)
     | _ \<Rightarrow> (AgpsPendingState, st))"

definition acquired_onRsrcEvent ::
  "agps_env \<Rightarrow> AgpsRsrcStatus \<Rightarrow> receiver option \<Rightarrow> agps \<Rightarrow> AgpsState \<times> agps" where
  "acquired_onRsrcEvent E event data st =
    (case (event, data) of
       (RSRC_SUBSCRIBE, Some r) \<Rightarrow>
         (case read_rcver E r st of (s, st) \<Rightarrow>
            (case notifyRsrcStatus E (to_one r RSRC_GRANTED False) s st of
               (_, st) \<Rightarrow> (AgpsAcquiredState, addSubscriber E s st)))
     | (RSRC_UNSUBSCRIBE, Some r) \<Rightarrow> release_if_idle E AgpsAcquiredState (drop_client E r st)
     | (RSRC_RELEASED, _) \<Rightarrow>
         (AgpsReleasedState, notifySubscribers E (to_group BROADCAST_ALL event True) st)
     | _ \<Rightarrow> (AgpsAcquiredState, st))"

definition releasing_onRsrcEvent ::
  "agps_env \<Rightarrow> AgpsRsrcStatus \<Rightarrow> receiver option \<Rightarrow> agps \<Rightarrow> AgpsState \<times> agps" where
  "releasing_onRsrcEvent E event data st =
    (case (event, data) of
       (RSRC_SUBSCRIBE, Some r) \<Rightarrow>
         (case read_rcver E r st of (s, st) \<Rightarrow> (AgpsReleasingState, addSubscriber E s st))
     | (RSRC_UNSUBSCRIBE, Some r) \<Rightarrow>
         (let st = drop_client E r st
          in (if hasSubscribers st then AgpsReleasingState else AgpsReleasedState, st))
     | _ \<Rightarrow>
         if event = RSRC_DENIED \<or> event = RSRC_RELEASED then
           let st = notifySubscribers E (to_group BROADCAST_INACTIVE event True) st
           in if hasActiveSubscribers E st
              then (AgpsPendingState, snd (sendRsrcRequest E GPS_REQUEST_AGPS_DATA_CONN st))
              else (AgpsReleasedState, st)
         else (AgpsReleasingState, st))"

definition state_onRsrcEvent ::
  "agps_env \<Rightarrow> AgpsRsrcStatus \<Rightarrow> receiver option \<Rightarrow> agps \<Rightarrow> agps" where
  "state_onRsrcEvent E event data st =
    (case (case mStatePtr st of
             AgpsReleasedState \<Rightarrow> released_onRsrcEvent E event data st
           | AgpsPendingState \<Rightarrow> pending_onRsrcEvent E event data st
           | AgpsAcquiredState \<Rightarrow> acquired_onRsrcEvent E event data st
           | AgpsReleasingState \<Rightarrow> releasing_onRsrcEvent E event data st) of
       (s, st) \<Rightarrow> st\<lparr>mStatePtr := s\<rparr>)"

section \<open>The machine's entries\<close>

definition agps_onRsrcEvent :: "agps_env \<Rightarrow> AgpsRsrcStatus \<Rightarrow> agps \<Rightarrow> agps" where
  "agps_onRsrcEvent E event st =
    (if event \<in> {RSRC_GRANTED, RSRC_RELEASED, RSRC_DENIED} then state_onRsrcEvent E event None st
     else st)"

definition ds_onRsrcEvent :: "agps_env \<Rightarrow> AgpsRsrcStatus \<Rightarrow> agps \<Rightarrow> agps" where
  "ds_onRsrcEvent E event st =
    (case event of
       RSRC_GRANTED \<Rightarrow> state_onRsrcEvent E event None st
     | RSRC_RELEASED \<Rightarrow>
         (let currState = mStatePtr st;
              st = state_onRsrcEvent E event None st
          in if mStatePtr st \<noteq> currState then st
             else state_onRsrcEvent E RSRC_DENIED None st)
     | RSRC_DENIED \<Rightarrow> state_onRsrcEvent E event None st
     | _ \<Rightarrow> st)"

definition onRsrcEvent :: "agps_env \<Rightarrow> AgpsRsrcStatus \<Rightarrow> agps \<Rightarrow> agps" where
  "onRsrcEvent E event st =
    (if is_ds st then ds_onRsrcEvent E event st else agps_onRsrcEvent E event st)"

definition subscribeRsrc :: "agps_env \<Rightarrow> Subscriber \<Rightarrow> agps \<Rightarrow> agps" where
  "subscribeRsrc E s st =
    (if mEnforceSingleSubscriber st \<and> hasSubscribers st then
       snd (notifyRsrcStatus E (to_group BROADCAST_ALL RSRC_DENIED True) s st)
     else state_onRsrcEvent E RSRC_SUBSCRIBE (Some (Caller s)) st)"

definition unsubscribeRsrc :: "agps_env \<Rightarrow> Subscriber \<Rightarrow> agps \<Rightarrow> bool \<times> agps" where
  "unsubscribeRsrc E s st =
    (case search_subscribers (hasSubscriber E (to_one (Caller s) RSRC_STATUS_MAX False)) False st of
       (Some (a, _), st) \<Rightarrow> (True, state_onRsrcEvent E RSRC_UNSUBSCRIBE (Some (Listed a)) st)
     | (None, st) \<Rightarrow> (False, st))"

text \<open>The callback of the retry timer.\<close>

definition retryCallback :: "agps_env \<Rightarrow> agps \<Rightarrow> agps" where
  "retryCallback E st =
    (case find_active E st of
       (Some (_, c), st) \<Rightarrow> emit (RequestSuplES (ID c)) st
     | (None, st) \<Rightarrow> st)"

datatype agps_op =
    Subscribe Subscriber
  | Unsubscribe Subscriber
  | Event AgpsRsrcStatus
  | Opened "string option" nat int
  | Retry
  | DropAll

text \<open>\<open>Opened\<close> is \<open>LocEngAtlOpenSuccess::proc\<close>, \<open>DropAll\<close> what a restart of the engine does.\<close>

fun agps_step :: "agps_env \<Rightarrow> agps_op \<Rightarrow> agps \<Rightarrow> agps" where
  "agps_step E (Subscribe s) st = subscribeRsrc E s st"
| "agps_step E (Unsubscribe s) st = snd (unsubscribeRsrc E s st)"
| "agps_step E (Event e) st = onRsrcEvent E e st"
| "agps_step E (Opened apn len bearer) st =
    onRsrcEvent E RSRC_GRANTED (setAPN apn len (setBearer bearer st))"
| "agps_step E Retry st = retryCallback E st"
| "agps_step E DropAll st = dropAllSubscribers st"

definition agps_run :: "agps_env \<Rightarrow> agps_op list \<Rightarrow> agps \<Rightarrow> agps" where
  "agps_run E ops st = foldl (\<lambda>st x. agps_step E x st) st ops"

end
