(* ===== verification/AgpsNotify.thy ===== *)
theory AgpsNotify
  imports AgpsMachine "HOL-Library.Sublist"
begin

text \<open>
  What the operations on the list of subscribers do: the searches, the notification of a group, and
  what no notification changes.
\<close>

named_theorems agps_simps

lemma emit_simps [simp]:
  "mSubscribers (emit c st) = mSubscribers st" "mStatePtr (emit c st) = mStatePtr st"
  "mServicer (emit c st) = mServicer st" "mType (emit c st) = mType st" "mAPN (emit c st) = mAPN st"
  "mAPNLen (emit c st) = mAPNLen st" "mBearer (emit c st) = mBearer st"
  "mEnforceSingleSubscriber (emit c st) = mEnforceSingleSubscriber st" "is_ds (emit c st) = is_ds st"
  "mRetries (emit c st) = mRetries st" "calls (emit c st) = calls st @ [c]"
  by (simp_all add: emit_def)

section \<open>Telling one client\<close>

text \<open>The calls that tell a client of a status.\<close>

definition told :: "Subscriber \<Rightarrow> AgpsRsrcStatus \<Rightarrow> agps \<Rightarrow> agps_call list" where
  "told s status st = (case tell s status (st\<lparr>calls := []\<rparr>) of Some t \<Rightarrow> calls t | None \<Rightarrow> [])"

abbreviation outcome :: "AgpsRsrcStatus \<Rightarrow> bool" where
  "outcome status \<equiv> status \<in> {RSRC_UNSUBSCRIBE, RSRC_GRANTED, RSRC_RELEASED, RSRC_DENIED}"

definition retries_after :: "Subscriber \<Rightarrow> AgpsRsrcStatus \<Rightarrow> u8 \<Rightarrow> u8" where
  "retries_after s status n = (case s of DSSubscriber _ _ \<Rightarrow> if status = RSRC_DENIED then 0 else n | _ \<Rightarrow> n)"

definition tell_one :: "AgpsRsrcStatus \<Rightarrow> Subscriber \<Rightarrow> agps \<Rightarrow> agps" where
  "tell_one status s st =
    st\<lparr>mRetries := retries_after s status (mRetries st), calls := calls st @ told s status st\<rparr>"

lemma tell_outcome: "outcome status \<Longrightarrow> tell s status st = Some (tell_one status s st)"
  by (cases s; cases status)
    (auto simp: tell_one_def told_def emit_def informStatus_def retries_after_def split: option.splits)

lemma told_update [simp]:
  "told s status (st\<lparr>calls := c\<rparr>) = told s status st"
  "told s status (st\<lparr>mSubscribers := x\<rparr>) = told s status st"
  "told s status (st\<lparr>mRetries := n\<rparr>) = told s status st"
  "told s status (st\<lparr>mStatePtr := p\<rparr>) = told s status st"
  by (cases s; cases status; simp add: told_def informStatus_def emit_def)+

lemma tell_one_fields [simp]:
  "mSubscribers (tell_one status s st) = mSubscribers st" "mStatePtr (tell_one status s st) = mStatePtr st"
  "mServicer (tell_one status s st) = mServicer st" "is_ds (tell_one status s st) = is_ds st"
  "mEnforceSingleSubscriber (tell_one status s st) = mEnforceSingleSubscriber st"
  "mType (tell_one status s st) = mType st"
  "calls (tell_one status s st) = calls st @ told s status st"
  "told x status' (tell_one status s st) = told x status' st"
  by (simp_all add: tell_one_def)

text \<open>Several clients, one after the other.\<close>

definition tell_all :: "AgpsRsrcStatus \<Rightarrow> (nat \<times> Subscriber) list \<Rightarrow> agps \<Rightarrow> agps" where
  "tell_all status cs = fold (\<lambda>c. tell_one status (snd c)) cs"

lemma tell_all_simps [simp]:
  "tell_all status [] st = st"
  "tell_all status (c # cs) st = tell_all status cs (tell_one status (snd c) st)"
  by (simp_all add: tell_all_def)

lemma tell_all_fields [simp]:
  "mSubscribers (tell_all status cs st) = mSubscribers st" "mStatePtr (tell_all status cs st) = mStatePtr st"
  "mServicer (tell_all status cs st) = mServicer st" "is_ds (tell_all status cs st) = is_ds st"
  "mEnforceSingleSubscriber (tell_all status cs st) = mEnforceSingleSubscriber st"
  "mType (tell_all status cs st) = mType st"
  "calls (tell_all status cs st) = calls st @ concat (map (\<lambda>c. told (snd c) status st) cs)"
  by (induction cs arbitrary: st) simp_all

lemma tell_all_subs [simp]:
  "tell_all status cs (st\<lparr>mSubscribers := x\<rparr>) = (tell_all status cs st)\<lparr>mSubscribers := x\<rparr>"
proof (induction cs arbitrary: st)
  case (Cons c cs)
  have "tell_one status (snd c) (st\<lparr>mSubscribers := x\<rparr>) = (tell_one status (snd c) st)\<lparr>mSubscribers := x\<rparr>"
    by (simp add: tell_one_def)
  then show ?case using Cons by simp
qed simp

section \<open>Searches whose callback changes nothing\<close>

definition in_group :: "broadcast \<Rightarrow> Subscriber \<Rightarrow> bool" where
  "in_group g s \<longleftrightarrow> (case g of BROADCAST_ALL \<Rightarrow> True | BROADCAST_ACTIVE \<Rightarrow> \<not> isInactive s
     | BROADCAST_INACTIVE \<Rightarrow> isInactive s)"

lemma forMe_group: "forMe E (to_group g status del) s st = (in_group g s, st)"
  by (auto simp: forMe_def to_group_def in_group_def split: broadcast.splits)

lemma forMe_caller: "forMe E (to_one (Caller s) status del) this st = (equals E this s, st)"
  by (simp add: forMe_def to_one_def read_rcver_def)

lemma list_search_pure:
  "(\<And>x. eq x s = (P x, s)) \<Longrightarrow> list_search eq False xs s = (find P xs, xs, s)"
  by (induction xs) auto

lemma search_pure:
  "(\<And>x. eq x st = (P x, st)) \<Longrightarrow> search_subscribers eq False st = (find P (mSubscribers st), st)"
  by (simp add: search_subscribers_def list_search_pure)

lemma search_caller [agps_simps]:
  "search_subscribers (hasSubscriber E (to_one (Caller s) status del)) False st =
    (find (\<lambda>c. equals E (snd c) s) (mSubscribers st), st)"
  by (rule search_pure) (simp add: hasSubscriber_def forMe_caller)

lemma find_active_eq [agps_simps]:
  "find_active E st = (find (\<lambda>c. \<not> isInactive (snd c)) (mSubscribers st), st)"
  unfolding find_active_def
  by (rule search_pure) (simp add: hasSubscriber_def forMe_group in_group_def)

definition active_in :: "(nat \<times> Subscriber) list \<Rightarrow> bool" where
  "active_in cs \<longleftrightarrow> (\<exists>c \<in> set cs. \<not> isInactive (snd c))"

lemma hasActive_eq [agps_simps]: "hasActiveSubscribers E st \<longleftrightarrow> active_in (mSubscribers st)"
  by (metis (no_types, lifting) active_in_def find_None_iff fst_conv find_active_eq hasActiveSubscribers_def)

lemma find_active_None: "find (\<lambda>c. \<not> isInactive (snd c)) cs = None \<longleftrightarrow> \<not> active_in cs"
  by (auto simp: active_in_def find_None_iff)

section \<open>Telling a group\<close>

lemma to_group_fields [simp]:
  "rsrcStatus (to_group g status del) = status" "postNotifyDelete (to_group g status del) = del"
  by (simp_all add: to_group_def)

lemma notify_group:
  "outcome status \<Longrightarrow> notifyRsrcStatus E (to_group g status del) s st =
    (in_group g s, if in_group g s then tell_one status s st else st)"
  by (simp add: notifyRsrcStatus_def forMe_group tell_outcome)

lemma keep_search:
  assumes "outcome status"
  shows "list_search (notifySubscriber E (to_group g status False)) False xs st =
    (None, xs, tell_all status (filter (\<lambda>c. in_group g (snd c)) xs) st)"
  by (induction xs arbitrary: st) (simp_all add: notifySubscriber_def notify_group [OF assms])

lemma delete_search:
  assumes "outcome status"
  shows "list_search (notifySubscriber E (to_group g status True)) True xs st =
    (case dropWhile (\<lambda>c. \<not> in_group g (snd c)) xs of
       [] \<Rightarrow> (None, xs, st)
     | c # cs \<Rightarrow> (Some c, takeWhile (\<lambda>c. \<not> in_group g (snd c)) xs @ cs, tell_one status (snd c) st))"
  by (induction xs arbitrary: st)
    (auto simp: notifySubscriber_def notify_group [OF assms] simp del: dropWhile_eq_Nil_conv split: list.splits)

lemma notify_loop_group:
  assumes "outcome status"
  shows "mSubscribers st = xs \<Longrightarrow> notify_loop E (to_group g status True) st =
    (tell_all status (filter (\<lambda>c. in_group g (snd c)) xs) st)\<lparr>mSubscribers := filter (\<lambda>c. \<not> in_group g (snd c)) xs\<rparr>"
proof (induction "length xs" arbitrary: xs st rule: less_induct)
  case less
  let ?P = "\<lambda>c. \<not> in_group g (snd c)"
  have search: "search_subscribers (notifySubscriber E (to_group g status True)) True st =
    (case dropWhile ?P xs of
       [] \<Rightarrow> (None, st\<lparr>mSubscribers := xs\<rparr>)
     | c # cs \<Rightarrow> (Some c, (tell_one status (snd c) st)\<lparr>mSubscribers := takeWhile ?P xs @ cs\<rparr>))"
    using less.prems delete_search [OF assms, of E g xs st]
    by (auto simp: search_subscribers_def simp del: dropWhile_eq_Nil_conv split: list.splits)
  show ?case
  proof (cases "dropWhile ?P xs")
    case Nil
    then have all: "\<forall>c \<in> set xs. ?P c" by (simp add: dropWhile_eq_Nil_conv)
    then have "filter ?P xs = xs" "filter (\<lambda>c. in_group g (snd c)) xs = []"
      by (simp_all add: filter_id_conv filter_empty_conv)
    then show ?thesis using search unfolding Nil by (subst notify_loop.simps) simp
  next
    case (Cons c cs)
    let ?t = "(tell_one status (snd c) st)\<lparr>mSubscribers := takeWhile ?P xs @ cs\<rparr>"
    have xs: "xs = takeWhile ?P xs @ c # cs" using Cons takeWhile_dropWhile_id [of ?P xs] by simp
    have c: "in_group g (snd c)" using Cons dropWhile_eq_Cons_conv by metis
    have tw: "\<forall>x \<in> set (takeWhile ?P xs). ?P x" by (auto dest: set_takeWhileD)
    have nil: "filter (\<lambda>c. in_group g (snd c)) (takeWhile ?P xs) = []"
      "filter ?P (takeWhile ?P xs) = takeWhile ?P xs"
      using tw by (simp_all add: filter_id_conv filter_empty_conv)
    have "length (takeWhile ?P xs @ cs) < length xs" by (subst (2) xs) simp
    then have "notify_loop E (to_group g status True) ?t =
      (tell_all status (filter (\<lambda>c. in_group g (snd c)) (takeWhile ?P xs @ cs)) ?t)
        \<lparr>mSubscribers := filter ?P (takeWhile ?P xs @ cs)\<rparr>"
      by (rule less.hyps) simp
    moreover have "filter (\<lambda>c. in_group g (snd c)) xs = c # filter (\<lambda>c. in_group g (snd c)) cs"
      "filter ?P xs = takeWhile ?P xs @ filter ?P cs"
      using xs nil c by (metis (no_types, lifting) append_Nil filter.simps(2) filter_append)+
    moreover have "notify_loop E (to_group g status True) st = notify_loop E (to_group g status True) ?t"
      using search unfolding Cons by (subst notify_loop.simps) simp
    ultimately show ?thesis using nil by simp
  qed
qed

text \<open>The notification of a group tells each client of it once, in the order of the list.\<close>

lemma notify_all [agps_simps]:
  assumes "outcome status"
  shows "notifySubscribers E (to_group g status del) st =
    (tell_all status (filter (\<lambda>c. in_group g (snd c)) (mSubscribers st)) st)
      \<lparr>mSubscribers := if del then filter (\<lambda>c. \<not> in_group g (snd c)) (mSubscribers st) else mSubscribers st\<rparr>"
  using notify_loop_group [OF assms refl, of E g st] keep_search [OF assms, of E g "mSubscribers st" st]
  by (cases del) (simp_all add: notifySubscribers_def search_subscribers_def)

end
