(* ===== verification/AgpsInv.thy ===== *)
theory AgpsInv
  imports AgpsNotify
begin

text \<open>
  The invariant of a plain \<open>AgpsStateMachine\<close> whose service takes the request
  (\<open>servicerTypeAgps\<close>): how its state, its clients and the requests it has sent belong together,
  whatever a deleted client reads as.
\<close>

section \<open>Requests\<close>

definition nif_reqs :: "agps_call list \<Rightarrow> agps_action list" where
  "nif_reqs cs = concat (map (\<lambda>c. case c of RequestAGps (NifRequest n) \<Rightarrow> [nif_status n] | _ \<Rightarrow> []) cs)"

lemma nif_reqs_simps [simp]:
  "nif_reqs [] = []"
  "nif_reqs (c # cs) = (case c of RequestAGps (NifRequest n) \<Rightarrow> [nif_status n] | _ \<Rightarrow> []) @ nif_reqs cs"
  "nif_reqs (cs @ ds) = nif_reqs cs @ nif_reqs ds"
  by (simp_all add: nif_reqs_def)

lemma nif_reqs_told [simp]: "nif_reqs (told s status st) = []"
  by (cases s; cases status; simp add: told_def emit_def informStatus_def)

lemma nif_reqs_told_all [simp]: "nif_reqs (concat (map (\<lambda>c. told (snd c) status st) cs)) = []"
  by (induction cs) simp_all

text \<open>Each release follows a request.\<close>

fun releases_follow :: "bool \<Rightarrow> agps_action list \<Rightarrow> bool" where
  "releases_follow b [] = True"
| "releases_follow b (GPS_REQUEST_AGPS_DATA_CONN # rs) = releases_follow True rs"
| "releases_follow b (GPS_RELEASE_AGPS_DATA_CONN # rs) = (b \<and> releases_follow False rs)"

definition requested :: "agps_action list \<Rightarrow> bool" where
  "requested rs \<longleftrightarrow> rs \<noteq> [] \<and> last rs = GPS_REQUEST_AGPS_DATA_CONN"

lemma releases_follow_append:
  "releases_follow b (rs @ [r]) \<longleftrightarrow> releases_follow b rs \<and>
    (r = GPS_RELEASE_AGPS_DATA_CONN \<longrightarrow> (if rs = [] then b else requested rs))"
proof (induction b rs rule: releases_follow.induct)
  case (1 b)
  then show ?case by (cases r) auto
next
  case (2 b rs)
  then show ?case by (cases rs) (auto simp: requested_def)
next
  case (3 b rs)
  then show ?case by (cases rs) (auto simp: requested_def)
qed

section \<open>What no notification changes\<close>

definition quiet :: "agps \<Rightarrow> agps \<Rightarrow> bool" where
  "quiet st st' \<longleftrightarrow> mStatePtr st' = mStatePtr st \<and> mServicer st' = mServicer st \<and> is_ds st' = is_ds st \<and>
     mEnforceSingleSubscriber st' = mEnforceSingleSubscriber st \<and>
     nif_reqs (calls st') = nif_reqs (calls st) \<and> subseq (mSubscribers st') (mSubscribers st)"

lemma quiet_refl [simp]: "quiet st st"
  by (simp add: quiet_def)

lemma quiet_trans: "quiet s1 s2 \<Longrightarrow> quiet s2 s3 \<Longrightarrow> quiet s1 s3"
  by (auto simp: quiet_def intro: subseq_order.trans)

lemma read_quiet: "read_rcver E r st = (s, st') \<Longrightarrow> quiet st st' \<and> mSubscribers st' = mSubscribers st"
  by (auto simp: read_rcver_def quiet_def split: receiver.splits option.splits)

lemma forMe_quiet: "forMe E n s st = (b, st') \<Longrightarrow> quiet st st' \<and> mSubscribers st' = mSubscribers st"
  by (auto simp: forMe_def split: option.splits prod.splits dest: read_quiet)

lemma tell_quiet: "tell s status st = Some st' \<Longrightarrow> quiet st st' \<and> mSubscribers st' = mSubscribers st"
  by (cases s; cases status; auto simp: quiet_def informStatus_def)

lemma notify_quiet:
  assumes "notifyRsrcStatus E n s st = (b, st')"
  shows "quiet st st' \<and> mSubscribers st' = mSubscribers st"
proof -
  obtain f st1 where f: "forMe E n s st = (f, st1)" by force
  note q1 = forMe_quiet [OF f]
  show ?thesis
  proof (cases "f \<and> tell s (rsrcStatus n) st1 \<noteq> None")
    case True
    then obtain st2 where t: "tell s (rsrcStatus n) st1 = Some st2" by blast
    then have "st' = st2" using True assms f by (simp add: notifyRsrcStatus_def)
    then show ?thesis using tell_quiet [OF t] q1 quiet_trans by metis
  next
    case False
    then have "st' = st1" using assms f by (auto simp: notifyRsrcStatus_def split: if_splits)
    then show ?thesis using q1 by simp
  qed
qed

lemma notifySubscriber_quiet:
  "notifySubscriber E n c st = (b, st') \<Longrightarrow> quiet st st' \<and> mSubscribers st' = mSubscribers st"
  using notify_quiet by (auto simp: notifySubscriber_def split: prod.splits)

lemma list_search_quiet:
  assumes "\<And>x s b s'. eq x s = (b, s') \<Longrightarrow> quiet s s' \<and> mSubscribers s' = mSubscribers s"
  shows "list_search eq rm xs st = (r, ys, st') \<Longrightarrow>
    quiet st st' \<and> mSubscribers st' = mSubscribers st \<and> subseq ys xs"
proof (induction xs arbitrary: st r ys st')
  case (Cons x xs)
  obtain b s1 where b: "eq x st = (b, s1)" by force
  obtain r1 ys1 s2 where r: "list_search eq rm xs s1 = (r1, ys1, s2)" by (metis prod_cases3)
  have "quiet s1 s2 \<and> mSubscribers s2 = mSubscribers s1 \<and> subseq ys1 xs" by (rule Cons.IH [OF r])
  then show ?case using assms [OF b] Cons.prems b r quiet_trans
    by (cases b) (auto split: if_splits)
qed simp

lemma search_quiet:
  assumes "search_subscribers (notifySubscriber E n) rm st = (r, st')"
  shows "quiet st st'"
proof -
  obtain cs st1 where l: "list_search (notifySubscriber E n) rm (mSubscribers st) st = (r, cs, st1)"
    and st': "st' = st1\<lparr>mSubscribers := cs\<rparr>"
    using assms unfolding search_subscribers_def by (auto split: prod.splits)
  have "quiet st st1 \<and> mSubscribers st1 = mSubscribers st \<and> subseq cs (mSubscribers st)"
    by (rule list_search_quiet [OF _ l]) (rule notifySubscriber_quiet)
  then show ?thesis unfolding st' by (simp add: quiet_def)
qed

lemma notify_loop_quiet: "quiet st (notify_loop E n st)"
proof (induction E n st rule: notify_loop.induct)
  case (1 E n st)
  obtain r st1 where s: "search_subscribers (notifySubscriber E n) True st = (r, st1)" by force
  show ?case
  proof (cases r)
    case None
    then show ?thesis using s search_quiet [OF s] by (subst notify_loop.simps) simp
  next
    case (Some c)
    then have "quiet st1 (notify_loop E n st1)" using 1 s by metis
    then show ?thesis using s Some search_quiet [OF s] quiet_trans
      by (subst notify_loop.simps) (metis (no_types, lifting) case_prod_conv option.simps(5))
  qed
qed

lemma notifySubscribers_quiet: "quiet st (notifySubscribers E n st)"
  using notify_loop_quiet search_quiet [of E n False st] by (auto simp: notifySubscribers_def) (metis prod.collapse)

section \<open>The invariant\<close>

text \<open>
  \<open>base_inv\<close>: addresses and IDs of the clients are unique, but for the ID that stands for no IPv4
  address; a single-subscriber machine has one at most; each release follows a request.
\<close>

definition client_ids :: "(nat \<times> Subscriber) list \<Rightarrow> u32 list" where
  "client_ids cs = filter (\<lambda>i. i \<noteq> INADDR_NONE) (map (ID \<circ> snd) cs)"

definition base_inv :: "agps \<Rightarrow> bool" where
  "base_inv st \<longleftrightarrow> \<not> is_ds st \<and> mServicer st = servicerTypeAgps \<and>
     distinct (map fst (mSubscribers st)) \<and> distinct (client_ids (mSubscribers st)) \<and>
     (mEnforceSingleSubscriber st \<longrightarrow> length (mSubscribers st) \<le> 1) \<and>
     releases_follow False (nif_reqs (calls st))"

text \<open>What a state means for the clients \<open>cs\<close> and the requests \<open>rs\<close>.\<close>

fun state_means :: "AgpsState \<Rightarrow> (nat \<times> Subscriber) list \<Rightarrow> agps_action list \<Rightarrow> bool" where
  "state_means AgpsReleasedState cs rs \<longleftrightarrow> cs = []"
| "state_means AgpsPendingState cs rs \<longleftrightarrow> active_in cs \<and> requested rs"
| "state_means AgpsAcquiredState cs rs \<longleftrightarrow> active_in cs \<and> requested rs"
| "state_means AgpsReleasingState cs rs \<longleftrightarrow> cs \<noteq> [] \<and> rs \<noteq> [] \<and> \<not> requested rs"

definition agps_inv :: "agps \<Rightarrow> bool" where
  "agps_inv st \<longleftrightarrow> base_inv st \<and> state_means (mStatePtr st) (mSubscribers st) (nif_reqs (calls st))"

lemma base_inv_state [simp]: "base_inv (st\<lparr>mStatePtr := s\<rparr>) = base_inv st"
  by (simp add: base_inv_def)

lemma agps_inv_state [simp]:
  "agps_inv (st\<lparr>mStatePtr := s\<rparr>) \<longleftrightarrow> base_inv st \<and> state_means s (mSubscribers st) (nif_reqs (calls st))"
  by (simp add: agps_inv_def base_inv_def)

lemma subseq_distinct: "subseq xs ys \<Longrightarrow> distinct ys \<Longrightarrow> distinct xs"
  unfolding subseq_conv_nths by (auto intro: distinct_nthsI)

lemma quiet_base:
  assumes "quiet st st'" "base_inv st"
  shows "base_inv st'"
proof -
  have sub: "subseq (mSubscribers st') (mSubscribers st)" using assms(1) by (simp add: quiet_def)
  have "distinct (map fst (mSubscribers st'))" "distinct (client_ids (mSubscribers st'))"
    using subseq_distinct [OF subseq_map [OF sub]] subseq_distinct [OF subseq_filter [OF subseq_map [OF sub]]]
      assms(2) unfolding base_inv_def client_ids_def by blast+
  moreover have "length (mSubscribers st') \<le> length (mSubscribers st)"
    using sub by (rule list_emb_length)
  ultimately show ?thesis using assms by (auto simp: base_inv_def quiet_def)
qed

lemma new_addr_fresh: "new_addr st \<notin> fst ` set (mSubscribers st)"
proof
  assume "new_addr st \<in> fst ` set (mSubscribers st)"
  then have "new_addr st \<le> Max (set (0 # map fst (mSubscribers st)))"
    by (intro Max_ge) auto
  then show False unfolding Max.set_eq_fold by (simp add: new_addr_def)
qed

lemma addSubscriber_eq:
  "addSubscriber E s st =
    (if \<exists>c \<in> set (mSubscribers st). equals E (snd c) s then st
     else st\<lparr>mSubscribers := (new_addr st, clone s) # mSubscribers st\<rparr>)"
  using find_None_iff [of "\<lambda>c. equals E (snd c) s" "mSubscribers st"]
  by (auto simp: addSubscriber_def search_caller split: option.splits)

lemma equals_ID: "INADDR_NONE \<noteq> ID s \<Longrightarrow> equals E x s \<longleftrightarrow> ID x = ID s"
  by (cases x) auto

lemma clone_simps [simp]: "ID (clone s) = ID s" "isInactive (clone s) = False"
  by (cases s; simp add: new_BITSubscriber_def new_ATLSubscriber_def new_WIFISubscriber_def
    new_DSSubscriber_def)+

lemma add_base:
  assumes "base_inv st" "mEnforceSingleSubscriber st \<longrightarrow> mSubscribers st = []"
  shows "base_inv (addSubscriber E s st)"
proof (cases "\<exists>c \<in> set (mSubscribers st). equals E (snd c) s")
  case False
  have "ID s \<notin> set (client_ids (mSubscribers st))"
  proof
    assume "ID s \<in> set (client_ids (mSubscribers st))"
    then obtain c where "c \<in> set (mSubscribers st)" "ID (snd c) = ID s" "INADDR_NONE \<noteq> ID s"
      by (auto simp: client_ids_def)
    then show False using False equals_ID by blast
  qed
  then have "distinct (client_ids ((new_addr st, clone s) # mSubscribers st))"
    using assms(1) by (auto simp: base_inv_def client_ids_def)
  then show ?thesis using assms False new_addr_fresh [of st]
    by (auto simp: addSubscriber_eq base_inv_def)
qed (use assms in \<open>simp add: addSubscriber_eq\<close>)

lemma add_active: "active_in (mSubscribers st) \<Longrightarrow> active_in (mSubscribers (addSubscriber E s st))"
  by (auto simp: addSubscriber_eq active_in_def)

lemma add_fields [simp]:
  "mStatePtr (addSubscriber E s st) = mStatePtr st" "calls (addSubscriber E s st) = calls st"
  "is_ds (addSubscriber E s st) = is_ds st" "mServicer (addSubscriber E s st) = mServicer st"
  "mEnforceSingleSubscriber (addSubscriber E s st) = mEnforceSingleSubscriber st"
  "mSubscribers st = [] \<Longrightarrow> mSubscribers (addSubscriber E s st) = [(new_addr st, clone s)]"
  "mSubscribers (addSubscriber E s st) = [] \<longleftrightarrow> False"
proof -
  show "mSubscribers (addSubscriber E s st) = [] \<longleftrightarrow> False"
    by (cases "mSubscribers st = []") (auto simp: addSubscriber_eq)
qed (simp_all add: addSubscriber_eq)

text \<open>What is sent to the service.\<close>

definition nif_request :: "agps_action \<Rightarrow> agps \<Rightarrow> AGpsExtStatus" where
  "nif_request action st =
    (case find (\<lambda>c. \<not> isInactive (snd c)) (mSubscribers st) of
       None \<Rightarrow> \<lparr>nif_type = mType st, nif_status = action, ipv4_addr = Some INADDR_NONE,
                nif_addr = Addr_Zeroed, ssid = '''', password = ''''\<rparr>
     | Some (_, c) \<Rightarrow> \<lparr>nif_type = mType st, nif_status = action, ipv4_addr = None,
                nif_addr = Addr_Family_INET6, ssid = fst (setWifiInfo c), password = snd (setWifiInfo c)\<rparr>)"

lemma nif_request_status [simp]: "nif_status (nif_request action st) = action"
  by (simp add: nif_request_def split: option.splits)

lemma send_eq:
  assumes "base_inv st"
  shows "sendRsrcRequest E action st =
    (0, if active_in (mSubscribers st) \<longleftrightarrow> action = GPS_REQUEST_AGPS_DATA_CONN
        then emit (RequestAGps (NifRequest (nif_request action st))) st else st)"
proof -
  have "sendRsrcRequest E action st =
    (0, if (find (\<lambda>c. \<not> isInactive (snd c)) (mSubscribers st) = None) =
           (action = GPS_RELEASE_AGPS_DATA_CONN)
        then emit (RequestAGps (NifRequest (nif_request action st))) st else st)"
    using assms
    by (simp add: sendRsrcRequest_def agps_sendRsrcRequest_def find_active_eq requestRsrc_def
        nif_request_def base_inv_def Let_def)
  then show ?thesis unfolding find_active_None by (cases action) auto
qed

lemma emit_base:
  assumes "base_inv st" "action = GPS_RELEASE_AGPS_DATA_CONN \<longrightarrow> requested (nif_reqs (calls st))"
  shows "base_inv (emit (RequestAGps (NifRequest (nif_request action st'))) st)"
  using assms by (auto simp: base_inv_def releases_follow_append requested_def)

section \<open>The invariant is kept\<close>

lemma release_if_idle_inv:
  assumes base: "base_inv st" and req: "requested (nif_reqs (calls st))"
    and this: "this = AgpsPendingState \<or> this = AgpsAcquiredState"
  shows "case release_if_idle E this st of (s, st') \<Rightarrow> agps_inv (st'\<lparr>mStatePtr := s\<rparr>)"
proof (cases "active_in (mSubscribers st)")
  case True
  then have "hasSubscribers st" by (auto simp: hasSubscribers_def active_in_def)
  then show ?thesis using True assms by (auto simp: release_if_idle_def hasActive_eq)
next
  case False
  have "base_inv (emit (RequestAGps (NifRequest (nif_request GPS_RELEASE_AGPS_DATA_CONN st))) st)"
    using base req by (intro emit_base) simp_all
  then show ?thesis using False
    by (auto simp: release_if_idle_def hasActive_eq hasSubscribers_def send_eq [OF base] requested_def)
qed

lemma drop_client_base:
  assumes "base_inv st"
  shows "base_inv (drop_client E r st) \<and> nif_reqs (calls (drop_client E r st)) = nif_reqs (calls st)"
proof -
  obtain s st1 where r: "read_rcver E r st = (s, st1)" by force
  have q: "quiet st st1" using read_quiet [OF r] by blast
  then have st1: "base_inv st1" "nif_reqs (calls st1) = nif_reqs (calls st)"
    using assms quiet_base by (auto simp: quiet_def)
  show ?thesis
  proof (cases "waitForCloseComplete s")
    case False
    have "quiet st1 (notifySubscribers E (to_one r RSRC_UNSUBSCRIBE True) st1)"
      by (rule notifySubscribers_quiet)
    then have "base_inv (notifySubscribers E (to_one r RSRC_UNSUBSCRIBE True) st1)"
      "nif_reqs (calls (notifySubscribers E (to_one r RSRC_UNSUBSCRIBE True) st1)) = nif_reqs (calls st1)"
      using st1(1) quiet_base by (blast, simp add: quiet_def)
    then show ?thesis using False r st1(2) by (simp add: drop_client_def)
  next
    case True
    have "map fst (map (\<lambda>(b, x). (b, if b = a then inactivated x else x)) cs) = map fst cs"
      "client_ids (map (\<lambda>(b, x). (b, if b = a then inactivated x else x)) cs) = client_ids cs" for a cs
    proof -
      have "ID (inactivated x) = ID x" for x by (cases x) auto
      then have "map (ID \<circ> snd) (map (\<lambda>(b, x). (b, if b = a then inactivated x else x)) cs) = map (ID \<circ> snd) cs"
        by (auto simp: comp_def split: prod.splits)
      then show "client_ids (map (\<lambda>(b, x). (b, if b = a then inactivated x else x)) cs) = client_ids cs"
        by (simp only: client_ids_def)
    qed (auto simp: comp_def split_beta)
    then show ?thesis using True r st1
      by (auto simp: drop_client_def setInactive_def base_inv_def informStatus_def Let_def
          simp del: map_map split: receiver.splits Subscriber.splits)
  qed
qed

lemma state_subscribe_inv:
  assumes inv: "agps_inv st" and one: "mEnforceSingleSubscriber st \<longrightarrow> mSubscribers st = []"
  shows "agps_inv (state_onRsrcEvent E RSRC_SUBSCRIBE (Some (Caller s)) st)"
proof -
  have base: "base_inv st" using inv by (simp add: agps_inv_def)
  note add = add_base [OF base one, of E s]
  show ?thesis
  proof (cases "mStatePtr st")
    case AgpsReleasedState
    then have empty: "mSubscribers st = []" using inv by (simp add: agps_inv_def)
    have active: "active_in (mSubscribers (addSubscriber E s st))"
      using empty by (simp add: active_in_def)
    have "base_inv (emit (RequestAGps (NifRequest (nif_request GPS_REQUEST_AGPS_DATA_CONN (addSubscriber E s st))))
        (addSubscriber E s st))"
      using add by (intro emit_base) simp_all
    then show ?thesis using AgpsReleasedState active
      by (auto simp: state_onRsrcEvent_def released_onRsrcEvent_def read_rcver_def send_eq [OF add] requested_def)
  next
    case AgpsPendingState
    then show ?thesis using inv add add_active
      by (auto simp: state_onRsrcEvent_def pending_onRsrcEvent_def read_rcver_def agps_inv_def)
  next
    case AgpsReleasingState
    then show ?thesis using inv add
      by (auto simp: state_onRsrcEvent_def releasing_onRsrcEvent_def read_rcver_def agps_inv_def)
  next
    case AgpsAcquiredState
    obtain b st1 where n: "notifyRsrcStatus E (to_one (Caller s) RSRC_GRANTED False) s st = (b, st1)" by force
    have q: "quiet st st1" "mSubscribers st1 = mSubscribers st" using notify_quiet [OF n] by auto
    have "base_inv (addSubscriber E s st1)"
      using q one quiet_base [OF q(1) base] by (intro add_base) (auto simp: quiet_def)
    then show ?thesis using AgpsAcquiredState n inv q add_active [of st1]
      by (auto simp: state_onRsrcEvent_def acquired_onRsrcEvent_def read_rcver_def agps_inv_def quiet_def)
  qed
qed

lemma state_unsubscribe_inv:
  assumes inv: "agps_inv st" and ne: "mSubscribers st \<noteq> []"
  shows "agps_inv (state_onRsrcEvent E RSRC_UNSUBSCRIBE (Some r) st)"
proof -
  have base: "base_inv st" using inv by (simp add: agps_inv_def)
  note drop = drop_client_base [OF base, of E r]
  show ?thesis
  proof (cases "mStatePtr st")
    case AgpsReleasedState
    then show ?thesis using inv ne by (simp add: agps_inv_def)
  next
    case AgpsPendingState
    then show ?thesis using inv drop release_if_idle_inv [of "drop_client E r st" AgpsPendingState E]
      by (auto simp: state_onRsrcEvent_def pending_onRsrcEvent_def agps_inv_def split: prod.splits)
  next
    case AgpsAcquiredState
    then show ?thesis using inv drop release_if_idle_inv [of "drop_client E r st" AgpsAcquiredState E]
      by (auto simp: state_onRsrcEvent_def acquired_onRsrcEvent_def agps_inv_def split: prod.splits)
  next
    case AgpsReleasingState
    then show ?thesis using inv drop
      by (auto simp: state_onRsrcEvent_def releasing_onRsrcEvent_def agps_inv_def Let_def hasSubscribers_def)
  qed
qed

lemma state_event_inv:
  assumes inv: "agps_inv st" and ev: "e \<in> {RSRC_GRANTED, RSRC_RELEASED, RSRC_DENIED}"
  shows "agps_inv (state_onRsrcEvent E e None st)"
proof -
  have base: "base_inv st" using inv by (simp add: agps_inv_def)
  have oc: "outcome e" using ev by auto
  have nsubs: "mSubscribers (notifySubscribers E (to_group g e del) st) =
      (if del then filter (\<lambda>c. \<not> in_group g (snd c)) (mSubscribers st) else mSubscribers st)" for g del
    using notify_all [OF oc] by simp
  have nbase: "base_inv (notifySubscribers E n st)" for n
    using base notifySubscribers_quiet quiet_base by blast
  have nreqs: "nif_reqs (calls (notifySubscribers E n st)) = nif_reqs (calls st)" for n
    using notifySubscribers_quiet by (simp add: quiet_def)
  show ?thesis
  proof (cases "mStatePtr st")
    case AgpsReleasedState
    then show ?thesis using inv ev
      by (auto simp: state_onRsrcEvent_def released_onRsrcEvent_def agps_inv_def)
  next
    case AgpsPendingState
    then show ?thesis using inv ev nbase nreqs nsubs
      by (auto simp: state_onRsrcEvent_def pending_onRsrcEvent_def agps_inv_def in_group_def)
  next
    case AgpsAcquiredState
    then show ?thesis using inv ev nbase nreqs nsubs
      by (auto simp: state_onRsrcEvent_def acquired_onRsrcEvent_def agps_inv_def in_group_def)
  next
    case AgpsReleasingState
    let ?st = "notifySubscribers E (to_group BROADCAST_INACTIVE e True) st"
    have subs: "mSubscribers ?st = filter (\<lambda>c. \<not> isInactive (snd c)) (mSubscribers st)"
      using notify_all [OF oc] by (simp add: in_group_def)
    have none: "\<not> active_in (mSubscribers ?st) \<Longrightarrow> mSubscribers ?st = []"
      unfolding subs by (auto simp: active_in_def filter_empty_conv)
    have "base_inv (emit (RequestAGps (NifRequest (nif_request GPS_REQUEST_AGPS_DATA_CONN ?st))) ?st)"
      using nbase by (intro emit_base) simp_all
    then show ?thesis using AgpsReleasingState ev nbase inv none
      by (auto simp: state_onRsrcEvent_def releasing_onRsrcEvent_def agps_inv_def Let_def hasActive_eq
          send_eq [OF nbase] requested_def)
  qed
qed

text \<open>The machine keeps the invariant unless its clients are dropped, as when the modem restarts.\<close>

definition keeps_clients :: "agps_op \<Rightarrow> bool" where
  "keeps_clients x \<longleftrightarrow> x \<noteq> DropAll"

lemma agps_step_inv:
  assumes inv: "agps_inv st" and x: "keeps_clients x"
  shows "agps_inv (agps_step E x st)"
proof (cases x)
  case (Subscribe s)
  show ?thesis
  proof (cases "mEnforceSingleSubscriber st \<and> hasSubscribers st")
    case True
    obtain b st1 where n: "notifyRsrcStatus E (to_group BROADCAST_ALL RSRC_DENIED True) s st = (b, st1)"
      by force
    have q: "quiet st st1" "mSubscribers st1 = mSubscribers st" using notify_quiet [OF n] by auto
    then have "base_inv st1" "state_means (mStatePtr st1) (mSubscribers st1) (nif_reqs (calls st1))"
      using inv quiet_base unfolding agps_inv_def by (blast, simp add: quiet_def)
    then show ?thesis using True Subscribe n by (simp add: subscribeRsrc_def agps_inv_def)
  next
    case False
    then show ?thesis using Subscribe inv state_subscribe_inv [OF inv]
      by (auto simp: subscribeRsrc_def hasSubscribers_def)
  qed
next
  case (Unsubscribe s)
  show ?thesis
  proof (cases "find (\<lambda>c. equals E (snd c) s) (mSubscribers st)")
    case (Some c)
    then have "mSubscribers st \<noteq> []" by auto
    then show ?thesis using Unsubscribe Some state_unsubscribe_inv [OF inv]
      by (cases c) (simp add: unsubscribeRsrc_def search_caller)
  qed (use Unsubscribe inv in \<open>simp add: unsubscribeRsrc_def search_caller\<close>)
next
  case (Event e)
  then show ?thesis using inv state_event_inv [OF inv]
    by (auto simp: onRsrcEvent_def agps_onRsrcEvent_def agps_inv_def base_inv_def)
next
  case (Opened apn len bearer)
  have "agps_inv (setAPN apn len (setBearer bearer st))"
    using inv by (auto simp: agps_inv_def base_inv_def setAPN_def setBearer_def split: option.splits)
  then show ?thesis using Opened state_event_inv
    by (auto simp: onRsrcEvent_def agps_onRsrcEvent_def agps_inv_def base_inv_def)
next
  case Retry
  then show ?thesis using inv
    by (auto simp: retryCallback_def find_active_eq agps_inv_def base_inv_def split: option.splits)
qed (use x in \<open>simp add: keeps_clients_def\<close>)

interpretation agps_machine: event_machine
  "\<lambda>st (E, x). if keeps_clients x then agps_step E x st else st" agps_inv
  by unfold_locales (auto intro: agps_step_inv)

lemma agps_inv_new: "agps_inv (new_AgpsStateMachine servicerTypeAgps type single)"
  by (simp add: new_AgpsStateMachine_def agps_inv_def base_inv_def client_ids_def)

lemma agps_run_inv:
  assumes "list_all keeps_clients ops"
  shows "agps_inv (agps_run E ops (new_AgpsStateMachine servicerTypeAgps type single))"
proof -
  have "list_all keeps_clients ops \<Longrightarrow> agps_run E ops st =
      foldl (\<lambda>st (E, x). if keeps_clients x then agps_step E x st else st) st (map (Pair E) ops)" for st
    unfolding agps_run_def by (induction ops arbitrary: st) auto
  then show ?thesis using assms agps_machine.run_inv [OF agps_inv_new] by simp
qed

end
