(* ===== verification/AgpsProps.thy ===== *)
theory AgpsProps
  imports AgpsInv
begin

text \<open>
  The properties of the connection machines: the invariant of every run, whom a change of the
  resource is told, what happens when a client leaves, the read of a deleted client, and the bound on
  the retries of the data service.
\<close>

section \<open>A client leaves\<close>

lemma find_unique: "x \<in> set xs \<Longrightarrow> P x \<Longrightarrow> (\<And>y. y \<in> set xs \<Longrightarrow> P y \<Longrightarrow> y = x) \<Longrightarrow> find P xs = Some x"
proof (induction xs)
  case (Cons z xs)
  show ?case
  proof (cases "P z")
    case True
    then have "z = x" by (intro Cons.prems(3)) simp
    then show ?thesis using True by simp
  next
    case False
    then have "x \<in> set xs" using Cons.prems(1,2) by auto
    then have "find P xs = Some x" by (rule Cons.IH) (use Cons.prems(2,3) in \<open>simp, meson list.set_intros(2)\<close>)
    then show ?thesis using False by simp
  qed
qed simp

lemma unique_client:
  assumes "distinct (client_ids cs)" "(a, c) \<in> set cs" "x \<in> set cs" "ID (snd x) = ID c" "ID c \<noteq> INADDR_NONE"
  shows "x = (a, c)"
  using assms
proof (induction cs)
  case (Cons y cs)
  have "ID c \<in> set (client_ids cs)" if "(b, z) \<in> set cs" "ID z = ID c" for b z
    using that assms(5) by (force simp: client_ids_def)
  then show ?case using Cons by (cases x) (auto simp: client_ids_def split: if_splits)
qed simp

lemma to_one_fields [simp]:
  "rcver (to_one r status del) = Some r" "rsrcStatus (to_one r status del) = status"
  "postNotifyDelete (to_one r status del) = del"
  by (simp_all add: to_one_def)

text \<open>The search that deletes the client at address \<open>a\<close>, and the one after it.\<close>

lemma delete_client_search:
  assumes "mSubscribers st = us @ xs" "distinct (map fst (us @ xs))" "(a, c) \<in> set xs"
    and "\<forall>x \<in> set xs. equals E (snd x) c \<longleftrightarrow> x = (a, c)" and "outcome status"
  shows "list_search (notifySubscriber E (to_one (Listed a) status True)) True xs st =
    (Some (a, c), filter (\<lambda>x. fst x \<noteq> a) xs, tell_one status c st)"
  using assms
proof (induction xs arbitrary: us)
  case (Cons x xs)
  have "map_of (us @ x # xs) a = Some c"
    using Cons.prems(2,3) by (intro map_of_is_SomeI) auto
  then have rd: "read_rcver E (Listed a) st = (c, st)"
    using Cons.prems(1) by (simp add: read_rcver_def)
  show ?case
  proof (cases "x = (a, c)")
    case True
    then have "filter (\<lambda>x. fst x \<noteq> a) xs = xs"
      using Cons.prems(2) by (auto simp: filter_id_conv)
    then show ?thesis using True rd Cons.prems(4,5)
      by (simp add: notifySubscriber_def notifyRsrcStatus_def forMe_def tell_outcome)
  next
    case False
    then have "(a, c) \<in> set xs" using Cons.prems(3) by auto
    then have "fst x \<noteq> a" using Cons.prems(2) by (auto simp: rev_image_eqI)
    moreover have "\<not> equals E (snd x) c" using Cons.prems(4) False by auto
    moreover have "list_search (notifySubscriber E (to_one (Listed a) status True)) True xs st =
      (Some (a, c), filter (\<lambda>x. fst x \<noteq> a) xs, tell_one status c st)"
      using Cons.prems \<open>(a, c) \<in> set xs\<close> by (intro Cons.IH [of "us @ [x]"]) auto
    moreover have "notifySubscriber E (to_one (Listed a) status True) x st = (False, st)"
      using rd calculation(2) by (simp add: notifySubscriber_def notifyRsrcStatus_def forMe_def)
    ultimately show ?thesis by simp
  qed
qed simp

definition freed_reads :: "nat \<Rightarrow> nat \<Rightarrow> agps \<Rightarrow> agps" where
  "freed_reads a n st = st\<lparr>calls := calls st @ replicate n (FreedRead a)\<rparr>"

lemma freed_reads_fields [simp]:
  "mSubscribers (freed_reads a n st) = mSubscribers st" "mStatePtr (freed_reads a n st) = mStatePtr st"
  "is_ds (freed_reads a n st) = is_ds st" "mServicer (freed_reads a n st) = mServicer st"
  "mEnforceSingleSubscriber (freed_reads a n st) = mEnforceSingleSubscriber st"
  "mType (freed_reads a n st) = mType st"
  "calls (freed_reads a n st) = calls st @ replicate n (FreedRead a)"
  by (simp_all add: freed_reads_def)

lemma freed_search:
  assumes "a \<notin> fst ` set (mSubscribers st)" "\<forall>x \<in> set xs. \<not> equals E (snd x) (stale E a)"
  shows "list_search (notifySubscriber E (to_one (Listed a) status True)) True xs st =
    (None, xs, freed_reads a (length xs) st)"
  using assms
proof (induction xs arbitrary: st)
  case (Cons x xs)
  have none: "map_of (mSubscribers st) a = None" using Cons.prems(1) by (simp add: map_of_eq_None_iff)
  have "list_search (notifySubscriber E (to_one (Listed a) status True)) True xs (emit (FreedRead a) st) =
    (None, xs, freed_reads a (length xs) (emit (FreedRead a) st))"
    using Cons.prems by (intro Cons.IH) auto
  moreover have "freed_reads a (length xs) (emit (FreedRead a) st) = freed_reads a (Suc (length xs)) st"
    by (simp add: freed_reads_def emit_def)
  moreover have "notifySubscriber E (to_one (Listed a) status True) x st = (False, emit (FreedRead a) st)"
    using none Cons.prems(2)
    by (simp add: notifySubscriber_def notifyRsrcStatus_def forMe_def read_rcver_def)
  ultimately show ?case by simp
qed (simp add: freed_reads_def)

lemma notify_leaving:
  assumes dist: "distinct (map fst (mSubscribers st))" and a: "(a, c) \<in> set (mSubscribers st)"
    and eq: "\<forall>x \<in> set (mSubscribers st). equals E (snd x) c \<longleftrightarrow> x = (a, c)"
    and stale: "\<forall>x \<in> set (mSubscribers st). fst x \<noteq> a \<longrightarrow> \<not> equals E (snd x) (stale E a)"
  defines "rest \<equiv> filter (\<lambda>x. fst x \<noteq> a) (mSubscribers st)"
  shows "notifySubscribers E (to_one (Listed a) RSRC_UNSUBSCRIBE True) st =
    freed_reads a (length rest) ((tell_one RSRC_UNSUBSCRIBE c st)\<lparr>mSubscribers := rest\<rparr>)"
proof -
  let ?n = "to_one (Listed a) RSRC_UNSUBSCRIBE True"
  let ?st = "(tell_one RSRC_UNSUBSCRIBE c st)\<lparr>mSubscribers := rest\<rparr>"
  have one: "search_subscribers (notifySubscriber E ?n) True st = (Some (a, c), ?st)"
    using delete_client_search [of st "[]" "mSubscribers st" a c E RSRC_UNSUBSCRIBE] dist a eq
    by (simp add: search_subscribers_def rest_def)
  have "list_search (notifySubscriber E ?n) True rest ?st = (None, rest, freed_reads a (length rest) ?st)"
    using stale by (intro freed_search) (auto simp: rest_def)
  then have "search_subscribers (notifySubscriber E ?n) True ?st = (None, freed_reads a (length rest) ?st)"
    by (simp add: search_subscribers_def freed_reads_def)
  then have "notify_loop E ?n ?st = freed_reads a (length rest) ?st" by (subst notify_loop.simps) simp
  moreover have "notify_loop E ?n st = notify_loop E ?n ?st" using one by (subst notify_loop.simps) simp
  ultimately show ?thesis by (simp add: notifySubscribers_def)
qed

section \<open>The properties\<close>

definition plain_env :: agps_env where
  "plain_env = \<lparr>stale = (\<lambda>_. ATLSubscriber 0 False), past_end = (\<lambda>_. []), ext_ret = (\<lambda>_. 0)\<rparr>"

definition two_clients :: "agps_op list" where
  "two_clients = [Subscribe (ATLSubscriber 1 False), Subscribe (BITSubscriber 2 [0]), Opened (Some ''ims'') 3 0]"

text \<open>
  C4: A machine of the framework's service, whatever its clients, the service and freed memory do
  (the modem not restarting): it is released exactly without clients; while it is pending or has
  acquired the connection a client is active and the last request sent asks for the connection; while
  it is releasing, the last one gives it up; no connection is given up that was not asked for; no
  client is listed twice; and a single-subscriber machine has one client at most.
\<close>

theorem agps_invariant:
  assumes "list_all keeps_clients ops"
  shows "let st = agps_run E ops (new_AgpsStateMachine servicerTypeAgps type single) in
    state_means (mStatePtr st) (mSubscribers st) (nif_reqs (calls st)) \<and>
    releases_follow False (nif_reqs (calls st)) \<and> distinct (map fst (mSubscribers st)) \<and>
    distinct (client_ids (mSubscribers st)) \<and>
    (mEnforceSingleSubscriber st \<longrightarrow> length (mSubscribers st) \<le> 1)"
  using agps_run_inv [OF assms, of E type single] by (simp add: agps_inv_def base_inv_def Let_def)

theorem agps_invariant_witness:
  "let st = agps_run plain_env two_clients (new_AgpsStateMachine servicerTypeAgps 1 False) in
    state_means (mStatePtr st) (mSubscribers st) (nif_reqs (calls st)) \<and>
    releases_follow False (nif_reqs (calls st)) \<and> distinct (map fst (mSubscribers st)) \<and>
    distinct (client_ids (mSubscribers st)) \<and>
    (mEnforceSingleSubscriber st \<longrightarrow> length (mSubscribers st) \<le> 1)"
  by (rule agps_invariant) (simp add: two_clients_def keeps_clients_def)

text \<open>
  C26: When the connection is granted, each active client is told once, in the order of the list, and
  stays; when it is denied, or taken away, each client is told once and is removed. This holds of both
  kinds of machine.
\<close>

theorem agps_notifies:
  assumes "(s, event, s', grp, del) \<in>
      {(AgpsPendingState, RSRC_GRANTED, AgpsAcquiredState, BROADCAST_ACTIVE, False),
       (AgpsPendingState, RSRC_DENIED, AgpsReleasedState, BROADCAST_ALL, True),
       (AgpsAcquiredState, RSRC_RELEASED, AgpsReleasedState, BROADCAST_ALL, True)}"
    and "mStatePtr st = s"
  shows "let st' = onRsrcEvent E event st in
    mStatePtr st' = s' \<and> mSubscribers st' = (if del then [] else mSubscribers st) \<and>
    calls st' = calls st @
      concat (map (\<lambda>c. told (snd c) event st) (filter (\<lambda>c. in_group grp (snd c)) (mSubscribers st)))"
  using assms
  by (auto simp: onRsrcEvent_def agps_onRsrcEvent_def ds_onRsrcEvent_def state_onRsrcEvent_def
      pending_onRsrcEvent_def acquired_onRsrcEvent_def notify_all in_group_def Let_def)

definition pending_machine :: agps where
  "pending_machine = (new_AgpsStateMachine servicerTypeAgps 1 False)
    \<lparr>mStatePtr := AgpsPendingState,
     mSubscribers := [(2, BITSubscriber 2 [0]), (1, ATLSubscriber 1 False)]\<rparr>"

theorem agps_notifies_witness:
  "let st' = onRsrcEvent plain_env RSRC_GRANTED pending_machine in
    mStatePtr st' = AgpsAcquiredState \<and> mSubscribers st' = (if False then [] else mSubscribers pending_machine) \<and>
    calls st' = calls pending_machine @
      concat (map (\<lambda>c. told (snd c) RSRC_GRANTED pending_machine)
        (filter (\<lambda>c. in_group BROADCAST_ACTIVE (snd c)) (mSubscribers pending_machine)))"
  by (rule agps_notifies [of AgpsPendingState]) (simp_all add: pending_machine_def)

text \<open>
  C25: A client that does not wait for the end of the connection leaves: it is told, it alone is
  removed, the connection is given up if no active client is left, and the next state depends on who
  is left. But after the client has been deleted its object is read once for each client that
  remains, to compare it with them; the rest holds only if those freed bytes are not taken for one of
  them.
\<close>

theorem agps_unsubscribe:
  assumes "agps_inv st" and "mStatePtr st \<in> {AgpsPendingState, AgpsAcquiredState}"
    and "(a, c) \<in> set (mSubscribers st)" and "ID c = ID s" and "ID s \<noteq> INADDR_NONE"
    and "\<not> waitForCloseComplete c"
    and "\<forall>x \<in> set (mSubscribers st). fst x \<noteq> a \<longrightarrow> \<not> equals E (snd x) (stale E a)"
  shows "let rest = filter (\<lambda>x. fst x \<noteq> a) (mSubscribers st); st' = snd (unsubscribeRsrc E s st) in
    fst (unsubscribeRsrc E s st) \<and> mSubscribers st' = rest \<and>
    mStatePtr st' = (if rest = [] then AgpsReleasedState else if active_in rest then mStatePtr st
                     else AgpsReleasingState) \<and>
    (\<exists>n. calls st' = calls st @ told c RSRC_UNSUBSCRIBE st @ replicate (length rest) (FreedRead a) @
      (if active_in rest then [] else [RequestAGps (NifRequest n)]) \<and>
      nif_status n = GPS_RELEASE_AGPS_DATA_CONN)"
proof -
  define rest where "rest = filter (\<lambda>x. fst x \<noteq> a) (mSubscribers st)"
  define st1 where "st1 = freed_reads a (length rest) ((tell_one RSRC_UNSUBSCRIBE c st)\<lparr>mSubscribers := rest\<rparr>)"
  have base: "base_inv st" using assms(1) by (simp add: agps_inv_def)
  have uniq: "x = (a, c)" if "x \<in> set (mSubscribers st)" "ID (snd x) = ID c" for x
    using unique_client [of "mSubscribers st" a c x] base assms(3-5) that by (simp add: base_inv_def)
  have eq: "equals E (snd x) c \<longleftrightarrow> x = (a, c)" "equals E (snd x) s \<longleftrightarrow> x = (a, c)"
    if "x \<in> set (mSubscribers st)" for x
    using uniq [OF that] assms(4,5) equals_ID [of c E "snd x"] equals_ID [of s E "snd x"] by auto
  have found: "find (\<lambda>x. equals E (snd x) s) (mSubscribers st) = Some (a, c)"
    using assms(3) eq(2) by (intro find_unique) auto
  have "map_of (mSubscribers st) a = Some c"
    using base assms(3) by (intro map_of_is_SomeI) (simp_all add: base_inv_def)
  then have "drop_client E (Listed a) st = notifySubscribers E (to_one (Listed a) RSRC_UNSUBSCRIBE True) st"
    using assms(6) by (simp add: drop_client_def read_rcver_def)
  also have "\<dots> = st1" unfolding st1_def rest_def
    using base eq(1) assms(3,7) by (intro notify_leaving) (auto simp: base_inv_def)
  finally have drop: "drop_client E (Listed a) st = st1" .
  have st1: "base_inv st1" "mSubscribers st1 = rest"
    "calls st1 = calls st @ told c RSRC_UNSUBSCRIBE st @ replicate (length rest) (FreedRead a)"
    using drop_client_base [OF base, of E "Listed a"] unfolding drop by (auto simp: st1_def)
  have step: "unsubscribeRsrc E s st =
    (True, case release_if_idle E (mStatePtr st) st1 of (s, t) \<Rightarrow> t\<lparr>mStatePtr := s\<rparr>)"
    using found assms(2) drop
    by (auto simp: unsubscribeRsrc_def search_caller state_onRsrcEvent_def pending_onRsrcEvent_def
        acquired_onRsrcEvent_def)
  have act: "active_in rest \<Longrightarrow> rest \<noteq> []" by (auto simp: active_in_def)
  have "\<exists>n :: AGpsExtStatus. nif_status n = GPS_RELEASE_AGPS_DATA_CONN" by (rule exI, rule nif_request_status)
  then show ?thesis unfolding step rest_def [symmetric]
    using act by (auto simp: release_if_idle_def hasSubscribers_def hasActive_eq send_eq [OF st1(1)] st1(2,3) Let_def)
qed

text \<open>A machine with the connection and two clients, one of which leaves.\<close>

definition open_machine :: agps where
  "open_machine = agps_run plain_env two_clients (new_AgpsStateMachine servicerTypeAgps 1 False)"

lemma open_machine_eq:
  "mSubscribers open_machine = [(2, BITSubscriber 2 [0]), (1, ATLSubscriber 1 False)]"
  "mStatePtr open_machine = AgpsAcquiredState"
  unfolding open_machine_def two_clients_def by code_simp+

theorem agps_unsubscribe_witness:
  "let rest = filter (\<lambda>x. fst x \<noteq> 1) (mSubscribers open_machine);
       st' = snd (unsubscribeRsrc plain_env (ATLSubscriber 1 True) open_machine) in
    fst (unsubscribeRsrc plain_env (ATLSubscriber 1 True) open_machine) \<and> mSubscribers st' = rest \<and>
    mStatePtr st' = (if rest = [] then AgpsReleasedState else if active_in rest then mStatePtr open_machine
                     else AgpsReleasingState) \<and>
    (\<exists>n. calls st' = calls open_machine @ told (ATLSubscriber 1 False) RSRC_UNSUBSCRIBE open_machine @
        replicate (length rest) (FreedRead 1) @
      (if active_in rest then [] else [RequestAGps (NifRequest n)]) \<and>
      nif_status n = GPS_RELEASE_AGPS_DATA_CONN)"
proof (rule agps_unsubscribe)
  show "agps_inv open_machine"
    unfolding open_machine_def by (rule agps_run_inv) (simp add: two_clients_def keeps_clients_def)
qed (simp_all add: open_machine_eq INADDR_NONE_def plain_env_def)

text \<open>
  C29: Of two clients \<open>i\<close> and \<open>j\<close>, \<open>i\<close> leaves. If the freed memory of its object happens to read as
  a client with the ID of \<open>j\<close>, the connection of \<open>j\<close> is closed too, and the machine gives up the
  connection that \<open>j\<close> is using.
\<close>

theorem agps_freed_receiver:
  assumes "i \<noteq> j" and "stale E 1 = ATLSubscriber j False"
  shows "let st = agps_run E [Subscribe (ATLSubscriber i False), Subscribe (ATLSubscriber j False),
        Event RSRC_GRANTED, Unsubscribe (ATLSubscriber i False)] (new_AgpsStateMachine servicerTypeAgps type False) in
    FreedRead 1 \<in> set (calls st) \<and> AtlCloseStatus j True \<in> set (calls st) \<and>
    mSubscribers st = [] \<and> mStatePtr st = AgpsReleasedState"
proof -
  define st0 where "st0 = agps_run E [Subscribe (ATLSubscriber i False), Subscribe (ATLSubscriber j False),
      Event RSRC_GRANTED] (new_AgpsStateMachine servicerTypeAgps type False)"
  have st0: "mSubscribers st0 = [(2, ATLSubscriber j False), (1, ATLSubscriber i False)]"
    "mStatePtr st0 = AgpsAcquiredState" "mServicer st0 = servicerTypeAgps" "\<not> is_ds st0"
    using assms(1)
    by (simp_all add: st0_def agps_run_def subscribeRsrc_def state_onRsrcEvent_def released_onRsrcEvent_def
        pending_onRsrcEvent_def new_AgpsStateMachine_def read_rcver_def addSubscriber_eq new_addr_def
        sendRsrcRequest_def agps_sendRsrcRequest_def find_active_eq requestRsrc_def hasSubscribers_def Let_def
        new_ATLSubscriber_def onRsrcEvent_def agps_onRsrcEvent_def notify_all in_group_def numeral_2_eq_2)
  let ?n = "to_one (Listed 1) RSRC_UNSUBSCRIBE True"
  let ?s1 = "(tell_one RSRC_UNSUBSCRIBE (ATLSubscriber i False) st0)\<lparr>mSubscribers := [(2, ATLSubscriber j False)]\<rparr>"
  let ?s2 = "(tell_one RSRC_UNSUBSCRIBE (ATLSubscriber j False) (emit (FreedRead 1) ?s1))\<lparr>mSubscribers := []\<rparr>"
  have one: "search_subscribers (notifySubscriber E ?n) True st0 = (Some (1, ATLSubscriber i False), ?s1)"
    using st0 assms(1)
    by (simp add: search_subscribers_def notifySubscriber_def notifyRsrcStatus_def forMe_def read_rcver_def
        tell_outcome del: tell.simps)
  have two: "search_subscribers (notifySubscriber E ?n) True ?s1 = (Some (2, ATLSubscriber j False), ?s2)"
    using st0 assms
    by (simp add: search_subscribers_def notifySubscriber_def notifyRsrcStatus_def forMe_def read_rcver_def
        tell_outcome del: tell.simps)
  have three: "search_subscribers (notifySubscriber E ?n) True ?s2 = (None, ?s2)"
    by (simp add: search_subscribers_def)
  have "notify_loop E ?n st0 = notify_loop E ?n ?s1" "notify_loop E ?n ?s1 = notify_loop E ?n ?s2"
    "notify_loop E ?n ?s2 = ?s2"
    using one two three by (subst notify_loop.simps, simp)+
  then have drop: "drop_client E (Listed 1) st0 = ?s2"
    using st0 by (simp add: drop_client_def read_rcver_def notifySubscribers_def)
  have "agps_run E [Subscribe (ATLSubscriber i False), Subscribe (ATLSubscriber j False),
      Event RSRC_GRANTED, Unsubscribe (ATLSubscriber i False)] (new_AgpsStateMachine servicerTypeAgps type False) =
    snd (unsubscribeRsrc E (ATLSubscriber i False) st0)"
    by (simp add: st0_def agps_run_def)
  moreover define s2 where "s2 = ?s2"
  have "FreedRead 1 \<in> set (calls s2)" "AtlCloseStatus j True \<in> set (calls s2)" "mSubscribers s2 = []"
    "\<not> is_ds s2" "mServicer s2 = servicerTypeAgps"
    using st0 by (simp_all add: s2_def told_def)
  moreover have "drop_client E (Listed 1) st0 = s2" unfolding s2_def by (rule drop)
  ultimately show ?thesis using st0(1,2) assms(1)
    by (auto simp: unsubscribeRsrc_def search_caller state_onRsrcEvent_def acquired_onRsrcEvent_def
        release_if_idle_def hasSubscribers_def sendRsrcRequest_def agps_sendRsrcRequest_def find_active_eq
        requestRsrc_def Let_def)
qed

theorem agps_freed_receiver_witness:
  "let st = agps_run (plain_env\<lparr>stale := \<lambda>_. ATLSubscriber 2 False\<rparr>)
      [Subscribe (ATLSubscriber 1 False), Subscribe (ATLSubscriber 2 False),
        Event RSRC_GRANTED, Unsubscribe (ATLSubscriber 1 False)] (new_AgpsStateMachine servicerTypeAgps 1 False) in
    FreedRead 1 \<in> set (calls st) \<and> AtlCloseStatus 2 True \<in> set (calls st) \<and>
    mSubscribers st = [] \<and> mStatePtr st = AgpsReleasedState"
  by (rule agps_freed_receiver) simp_all

section \<open>The retries of the data service\<close>

text \<open>
  The retry timer fires: \<open>delay_callback\<close> runs \<open>retryCallback\<close>, which posts a message
  \<open>LocEngRequestSuplEs\<close>, whose \<open>proc\<close> subscribes a client with the ID in it.
\<close>

definition ds_fire :: "agps_env \<Rightarrow> agps \<Rightarrow> agps" where
  "ds_fire E st =
    (if calls st \<noteq> [] \<and> last (calls st) = TimerStart DATA_CALL_RETRY_DELAY_MSEC then
       let st = retryCallback E st
       in case last (calls st) of RequestSuplES i \<Rightarrow> subscribeRsrc E (new_DSSubscriber i) st | _ \<Rightarrow> st
     else st)"

definition ext_requests :: "agps_call list \<Rightarrow> nat" where
  "ext_requests cs = length (filter (\<lambda>c. case c of RequestExt _ \<Rightarrow> True | _ \<Rightarrow> False) cs)"

lemma ext_requests_simps [simp]:
  "ext_requests [] = 0" "ext_requests (cs @ ds) = ext_requests cs + ext_requests ds"
  "ext_requests (RequestExt d # cs) = Suc (ext_requests cs)"
  "ext_requests (RequestSuplES i # cs) = ext_requests cs" "ext_requests (TimerStart n # cs) = ext_requests cs"
  "ext_requests (RequestATL i t # cs) = ext_requests cs"
  by (simp_all add: ext_requests_def)

text \<open>The service is busy for the first \<open>k\<close> requests.\<close>

definition busy_for :: "nat \<Rightarrow> agps_env \<Rightarrow> bool" where
  "busy_for k E \<longleftrightarrow> (\<forall>cs. ext_ret E cs = (if ext_requests cs < k then ERR_ENGINE_BUSY else ERR_SUCCESS))"

text \<open>After \<open>m\<close> failures, waiting for the timer.\<close>

definition ds_waiting :: "u32 \<Rightarrow> nat \<Rightarrow> agps \<Rightarrow> bool" where
  "ds_waiting i m st \<longleftrightarrow> is_ds st \<and> mServicer st = servicerTypeExt \<and> \<not> mEnforceSingleSubscriber st \<and>
     mSubscribers st = [(1, DSSubscriber i False)] \<and> mStatePtr st = AgpsReleasedState \<and>
     mRetries st = of_nat m \<and> ext_requests (calls st) = m \<and> calls st \<noteq> [] \<and>
     last (calls st) = TimerStart DATA_CALL_RETRY_DELAY_MSEC \<and> RequestATL i AGPS_TYPE_SUPL \<notin> set (calls st)"

definition ds_connecting :: "u32 \<Rightarrow> nat \<Rightarrow> agps \<Rightarrow> bool" where
  "ds_connecting i k st \<longleftrightarrow> mStatePtr st = AgpsPendingState \<and> ext_requests (calls st) = Suc k \<and>
     RequestATL i AGPS_TYPE_SUPL \<notin> set (calls st) \<and> calls st \<noteq> [] \<and>
     last (calls st) = RequestExt (DsCbData GPS_REQUEST_AGPS_DATA_CONN)"

definition ds_fallen_back :: "u32 \<Rightarrow> agps \<Rightarrow> bool" where
  "ds_fallen_back i st \<longleftrightarrow> mStatePtr st = AgpsReleasedState \<and> ext_requests (calls st) = 5 \<and>
     mRetries st = 0 \<and> calls st \<noteq> [] \<and> last (calls st) = RequestATL i AGPS_TYPE_SUPL"

definition ds_outcome :: "u32 \<Rightarrow> nat \<Rightarrow> nat \<Rightarrow> agps \<Rightarrow> bool" where
  "ds_outcome i k m st \<longleftrightarrow>
    (if k < m \<and> k \<le> 4 then ds_connecting i k st else if 5 \<le> m then ds_fallen_back i st else ds_waiting i m st)"

text \<open>One request of a machine that has failed \<open>m\<close> times.\<close>

lemma ds_request:
  assumes "busy_for k E" "m \<le> k" "m < 5"
    and "is_ds st" "mServicer st = servicerTypeExt" "\<not> mEnforceSingleSubscriber st"
    and "mSubscribers st = [] \<or> mSubscribers st = [(1, DSSubscriber i False)]"
    and "mStatePtr st = AgpsReleasedState" "mRetries st = of_nat m" "ext_requests (calls st) = m"
    and "RequestATL i AGPS_TYPE_SUPL \<notin> set (calls st)"
  shows "ds_outcome i k (Suc m) (subscribeRsrc E (new_DSSubscriber i) st)"
proof -
  define st1 where "st1 = addSubscriber E (new_DSSubscriber i) st"
  have st1: "mSubscribers st1 = [(1, DSSubscriber i False)]" "calls st1 = calls st" "is_ds st1"
    "mServicer st1 = servicerTypeExt" "mRetries st1 = of_nat m" "mStatePtr st1 = AgpsReleasedState"
    "\<not> mEnforceSingleSubscriber st1"
    using assms(4-9) by (auto simp: st1_def addSubscriber_eq new_DSSubscriber_def new_addr_def)
  have sub: "subscribeRsrc E (new_DSSubscriber i) st =
    (case ds_sendRsrcRequest E GPS_REQUEST_AGPS_DATA_CONN st1 of
       (rv, t) \<Rightarrow> t\<lparr>mStatePtr := if rv = 0 then AgpsPendingState else AgpsReleasedState\<rparr>)"
    using assms(4,6,8)
    by (simp add: subscribeRsrc_def state_onRsrcEvent_def released_onRsrcEvent_def read_rcver_def
        sendRsrcRequest_def flip: st1_def split: prod.splits)
  have m: "m = 0 \<or> m = 1 \<or> m = 2 \<or> m = 3 \<or> m = 4" using assms(3) by auto
  show ?thesis
  proof (cases "m < k")
    case True
    then have busy: "ext_ret E (calls st1) = 6"
      using assms(1,10) st1(2) by (simp add: busy_for_def ERR_ENGINE_BUSY_def)
    show ?thesis using m True busy st1 assms(10,11) unfolding sub
      by (auto simp: ds_sendRsrcRequest_def find_active_eq requestRsrc_def incRetries_def Let_def
          informStatus_def agps_consts ds_outcome_def ds_waiting_def ds_fallen_back_def)
  next
    case False
    then have ok: "m = k" "ext_ret E (calls st1) = 0"
      using assms(1,2,10) st1(2) by (simp_all add: busy_for_def ERR_SUCCESS_def)
    show ?thesis using ok st1 assms(3,10,11) unfolding sub
      by (auto simp: ds_sendRsrcRequest_def find_active_eq requestRsrc_def Let_def agps_consts
          ds_outcome_def ds_connecting_def)
  qed
qed

lemma ds_fire_outcome:
  assumes "busy_for k E" "ds_outcome i k m st" "0 < m"
  shows "ds_outcome i k (Suc m) (ds_fire E st)"
proof (cases "m \<le> k \<and> m < 5")
  case True
  then have w: "ds_waiting i m st" using assms(2) by (simp add: ds_outcome_def)
  have r: "retryCallback E st = emit (RequestSuplES i) st"
    using w by (simp add: retryCallback_def find_active_eq ds_waiting_def)
  have "ds_outcome i k (Suc m) (subscribeRsrc E (new_DSSubscriber i) (emit (RequestSuplES i) st))"
    using w True by (intro ds_request [OF assms(1)]) (auto simp: ds_waiting_def)
  then show ?thesis using w r by (simp add: ds_fire_def ds_waiting_def)
next
  case False
  then have "ds_connecting i k st \<or> ds_fallen_back i st" "k < Suc m \<or> 5 \<le> Suc m"
    using assms(2) by (auto simp: ds_outcome_def split: if_splits)
  then have "ds_fire E st = st"
    by (auto simp: ds_fire_def ds_connecting_def ds_fallen_back_def agps_consts)
  then show ?thesis using False assms(2) by (auto simp: ds_outcome_def split: if_splits)
qed

text \<open>
  C27: A client asks for the emergency data call, and the service is busy for the first \<open>k\<close> requests.
  After each the timer is started and the request repeated; with \<open>k \<le> 4\<close> the request then gets
  through and the machine waits for the connection; else the client falls back to the normal
  connection after the fifth request, and the count starts anew. Nothing happens after that.
\<close>

theorem ds_retry_bound:
  assumes "busy_for k E" and "4 \<le> n"
  shows "let st = (ds_fire E ^^ n) (subscribeRsrc E (new_DSSubscriber i) (new_DSStateMachine servicerTypeExt)) in
    (if k \<le> 4 then ds_connecting i k st else ds_fallen_back i st)"
proof -
  let ?st0 = "subscribeRsrc E (new_DSSubscriber i) (new_DSStateMachine servicerTypeExt)"
  have start: "ds_outcome i k (Suc 0) ?st0"
    by (rule ds_request [OF assms(1)]) (simp_all add: new_DSStateMachine_def new_AgpsStateMachine_def)
  have "ds_outcome i k (Suc n) ((ds_fire E ^^ n) ?st0)" for n
    by (induction n) (use start ds_fire_outcome [OF assms(1)] in simp_all)
  from this [of n] show ?thesis using assms(2) by (auto simp: ds_outcome_def Let_def split: if_splits)
qed

definition busy_env :: "nat \<Rightarrow> agps_env" where
  "busy_env k = plain_env\<lparr>ext_ret := \<lambda>cs. if ext_requests cs < k then ERR_ENGINE_BUSY else ERR_SUCCESS\<rparr>"

theorem ds_retry_bound_witness:
  "let st = (ds_fire (busy_env 7) ^^ 6) (subscribeRsrc (busy_env 7) (new_DSSubscriber 9) (new_DSStateMachine servicerTypeExt)) in
    (if (7::nat) \<le> 4 then ds_connecting 9 7 st else ds_fallen_back 9 st)"
  by (rule ds_retry_bound) (simp_all add: busy_for_def busy_env_def)

end
