(* ===== verification/LocEng.thy ===== *)
theory LocEng
  imports AgpsProps
begin

text \<open>
  The GPS engine around the connection machines (\<open>loc_eng.cpp\<close>, \<open>LocEngAdapter.cpp\<close>,
  \<open>loc_eng_dmn_conn_handler.cpp\<close>): which machine a message of the modem, of the daemons or of the
  framework goes to, and the messages that the machines post themselves. The messages are handled one
  at a time, in order, by the engine's thread. A handler gives None when it follows a NULL pointer.
\<close>

section \<open>The engine\<close>

datatype nif = NIF_AGNSS | NIF_INTERNET | NIF_WIFI | NIF_DS

record loc_eng =
  nif_of :: "nif \<Rightarrow> agps option"
  mSupportsAgpsRequests :: bool
  agps_status_cb :: bool
  adapter_calls :: "agps_call list"

text \<open>
  The messages. The machine that the last three carry is a pointer, NULL where the engine has no such
  machine.
\<close>

datatype LocMsg =
    LocEngReqRelBIT int u32 "u8 list option" bool
  | LocEngSuplEsOpened
  | LocEngSuplEsClosed
  | LocEngRequestSuplEs u32
  | LocEngRequestATL u32 int
  | LocEngReleaseATL u32
  | LocEngReqRelWifi int u32 "string option" "string option" bool
  | LocEngDataClientInit bool
  | LocEngAtlOpenSuccess "nif option" string nat int
  | LocEngAtlClosed "nif option"
  | LocEngAtlOpenFailed "nif option"
  | RetryTimer
  | EngineUp

definition getAgpsStateMachine :: "loc_eng \<Rightarrow> int \<Rightarrow> nif option" where
  "getAgpsStateMachine eng type =
    (let ptr = (\<lambda>n. if nif_of eng n = None then None else Some n)
     in if type = AGPS_TYPE_WIFI then ptr NIF_WIFI
        else if type = AGPS_TYPE_INVALID \<or> type = AGPS_TYPE_SUPL then ptr NIF_AGNSS
        else if type = AGPS_TYPE_SUPL_ES then
          (if nif_of eng NIF_DS \<noteq> None then ptr NIF_DS else ptr NIF_AGNSS)
        else ptr NIF_INTERNET)"

text \<open>
  \<open>loc_eng_agps_init\<close>: the arguments say whether it was called before, whether callbacks are given,
  which capabilities the configuration has (MSA or MSB), and whether the data service is used for
  emergencies; the last result is the message it sends.
\<close>

definition loc_eng_agps_init :: "bool \<Rightarrow> bool \<Rightarrow> bool \<Rightarrow> loc_eng \<Rightarrow> loc_eng \<times> bool" where
  "loc_eng_agps_init callbacks msa_msb emergency_pdn eng =
    (if agps_status_cb eng \<or> \<not> callbacks then (eng, False)
     else
       let eng = eng\<lparr>agps_status_cb := True, nif_of := (nif_of eng)
           (NIF_INTERNET \<mapsto> new_AgpsStateMachine servicerTypeAgps AGPS_TYPE_WWAN_ANY False,
            NIF_WIFI \<mapsto> new_AgpsStateMachine servicerTypeAgps AGPS_TYPE_WIFI True)\<rparr>
       in if msa_msb then
            (eng\<lparr>nif_of := (nif_of eng)
               (NIF_AGNSS \<mapsto> new_AgpsStateMachine servicerTypeAgps AGPS_TYPE_SUPL False)\<rparr>,
             mSupportsAgpsRequests eng \<and> emergency_pdn)
          else (eng, False))"

definition eng_call :: "agps_call \<Rightarrow> loc_eng \<Rightarrow> loc_eng" where
  "eng_call c eng = eng\<lparr>adapter_calls := adapter_calls eng @ [c]\<rparr>"

text \<open>
  What \<open>requestATL\<close> and \<open>requestSuplES\<close> of the adapter make of the calls of a machine: messages to
  the engine.
\<close>

fun posted :: "agps_call \<Rightarrow> LocMsg list" where
  "posted (RequestATL i t) = [LocEngRequestATL i t]"
| "posted (RequestSuplES i) = [LocEngRequestSuplEs i]"
| "posted _ = []"

definition on_nif :: "nif \<Rightarrow> (agps \<Rightarrow> agps) \<Rightarrow> loc_eng \<Rightarrow> (loc_eng \<times> LocMsg list) option" where
  "on_nif n f eng =
    (case nif_of eng n of
       None \<Rightarrow> None
     | Some st \<Rightarrow>
         Some (eng\<lparr>nif_of := (nif_of eng)(n \<mapsto> f st)\<rparr>,
           if mSupportsAgpsRequests eng
           then concat (map posted (drop (length (calls st)) (calls (f st)))) else []))"

text \<open>A machine of the engine is asked to let a client go; the first result is whether it had it.\<close>

definition try_release ::
  "agps_env \<Rightarrow> nif \<Rightarrow> Subscriber \<Rightarrow> loc_eng \<Rightarrow> (loc_eng \<times> LocMsg list) option" where
  "try_release E n s eng =
    (case nif_of eng n of
       None \<Rightarrow> None
     | Some st \<Rightarrow>
         if fst (unsubscribeRsrc E s st) then on_nif n (\<lambda>st. snd (unsubscribeRsrc E s st)) eng else None)"

section \<open>The messages\<close>

definition ReleaseATL_proc :: "agps_env \<Rightarrow> u32 \<Rightarrow> loc_eng \<Rightarrow> loc_eng \<times> LocMsg list" where
  "ReleaseATL_proc E i eng =
    (case try_release E NIF_AGNSS (new_ATLSubscriber i False) eng of
       Some r \<Rightarrow> r
     | None \<Rightarrow>
         (case try_release E NIF_INTERNET (new_ATLSubscriber i False) eng of
            Some r \<Rightarrow> r
          | None \<Rightarrow>
              (case try_release E NIF_DS (new_DSSubscriber i) eng of
                 Some r \<Rightarrow> r
               | None \<Rightarrow> (eng_call (AtlCloseStatus i False) eng, []))))"

definition ReqRelBIT_proc ::
  "agps_env \<Rightarrow> int \<Rightarrow> u32 \<Rightarrow> u8 list option \<Rightarrow> bool \<Rightarrow> loc_eng \<Rightarrow> (loc_eng \<times> LocMsg list) option" where
  "ReqRelBIT_proc E type ipv4 ipv6 isReq eng =
    (case getAgpsStateMachine eng type of
       None \<Rightarrow> None
     | Some n \<Rightarrow>
         on_nif n (\<lambda>st. if isReq then subscribeRsrc E (new_BITSubscriber ipv4 ipv6) st
                        else snd (unsubscribeRsrc E (new_BITSubscriber ipv4 ipv6) st)) eng)"

definition SuplEsOpened_proc :: "agps_env \<Rightarrow> loc_eng \<Rightarrow> (loc_eng \<times> LocMsg list) option" where
  "SuplEsOpened_proc E eng =
    (if nif_of eng NIF_DS \<noteq> None then on_nif NIF_DS (onRsrcEvent E RSRC_GRANTED) eng else Some (eng, []))"

definition SuplEsClosed_proc :: "agps_env \<Rightarrow> loc_eng \<Rightarrow> (loc_eng \<times> LocMsg list) option" where
  "SuplEsClosed_proc E eng =
    (if nif_of eng NIF_DS \<noteq> None then on_nif NIF_DS (onRsrcEvent E RSRC_RELEASED) eng else Some (eng, []))"

definition RequestSuplEs_proc :: "agps_env \<Rightarrow> u32 \<Rightarrow> loc_eng \<Rightarrow> (loc_eng \<times> LocMsg list) option" where
  "RequestSuplEs_proc E i eng =
    (if nif_of eng NIF_DS \<noteq> None then on_nif NIF_DS (subscribeRsrc E (new_DSSubscriber i)) eng
     else if nif_of eng NIF_AGNSS \<noteq> None then
       on_nif NIF_AGNSS (subscribeRsrc E (new_ATLSubscriber i False)) eng
     else Some (eng_call (AtlOpenStatus i False None (- 1) (- 1)) eng, []))"

definition RequestATL_proc :: "agps_env \<Rightarrow> u32 \<Rightarrow> int \<Rightarrow> loc_eng \<Rightarrow> (loc_eng \<times> LocMsg list) option" where
  "RequestATL_proc E i type eng =
    (case getAgpsStateMachine eng type of
       Some n \<Rightarrow> on_nif n (subscribeRsrc E (new_ATLSubscriber i (AGPS_TYPE_INVALID = type))) eng
     | None \<Rightarrow> Some (eng_call (AtlOpenStatus i False None (- 1) type) eng, []))"

definition ReqRelWifi_proc ::
  "agps_env \<Rightarrow> int \<Rightarrow> u32 \<Rightarrow> string option \<Rightarrow> string option \<Rightarrow> bool \<Rightarrow> loc_eng \<Rightarrow>
   (loc_eng \<times> LocMsg list) option" where
  "ReqRelWifi_proc E type sender s p isReq eng =
    (if nif_of eng NIF_WIFI \<noteq> None then
       on_nif NIF_WIFI (\<lambda>st.
         if isReq then subscribeRsrc E (new_WIFISubscriber s p sender) st
         else snd (unsubscribeRsrc E (new_WIFISubscriber s p sender) st)) eng
     else Some (eng_call (AtlOpenStatus sender False None (- 1) type) eng, []))"

definition DataClientInit_proc :: "bool \<Rightarrow> loc_eng \<Rightarrow> loc_eng" where
  "DataClientInit_proc failed eng =
    (if failed then eng
     else eng\<lparr>nif_of := (nif_of eng)(NIF_DS \<mapsto> new_DSStateMachine servicerTypeExt)\<rparr>)"

definition AtlOpenSuccess_proc ::
  "agps_env \<Rightarrow> nif option \<Rightarrow> string \<Rightarrow> nat \<Rightarrow> int \<Rightarrow> loc_eng \<Rightarrow> (loc_eng \<times> LocMsg list) option" where
  "AtlOpenSuccess_proc E sm apn len bearer eng =
    (case sm of
       None \<Rightarrow> None
     | Some n \<Rightarrow> on_nif n (\<lambda>st. onRsrcEvent E RSRC_GRANTED (setAPN (Some apn) len (setBearer bearer st))) eng)"

definition AtlClosed_proc :: "agps_env \<Rightarrow> nif option \<Rightarrow> loc_eng \<Rightarrow> (loc_eng \<times> LocMsg list) option" where
  "AtlClosed_proc E sm eng =
    (case sm of None \<Rightarrow> None | Some n \<Rightarrow> on_nif n (onRsrcEvent E RSRC_RELEASED) eng)"

definition AtlOpenFailed_proc :: "agps_env \<Rightarrow> nif option \<Rightarrow> loc_eng \<Rightarrow> (loc_eng \<times> LocMsg list) option" where
  "AtlOpenFailed_proc E sm eng =
    (case sm of None \<Rightarrow> None | Some n \<Rightarrow> on_nif n (onRsrcEvent E RSRC_DENIED) eng)"

text \<open>The part of \<open>loc_eng_handle_engine_up\<close> that concerns the connections.\<close>

definition engine_up :: "loc_eng \<Rightarrow> loc_eng" where
  "engine_up eng =
    (if agps_status_cb eng then
       eng\<lparr>nif_of := (nif_of eng)
         (NIF_AGNSS := map_option dropAllSubscribers (nif_of eng NIF_AGNSS),
          NIF_INTERNET := map_option dropAllSubscribers (nif_of eng NIF_INTERNET))\<rparr>
     else eng)"

fun eng_proc :: "agps_env \<Rightarrow> LocMsg \<Rightarrow> loc_eng \<Rightarrow> (loc_eng \<times> LocMsg list) option" where
  "eng_proc E (LocEngReqRelBIT type ipv4 ipv6 isReq) eng = ReqRelBIT_proc E type ipv4 ipv6 isReq eng"
| "eng_proc E LocEngSuplEsOpened eng = SuplEsOpened_proc E eng"
| "eng_proc E LocEngSuplEsClosed eng = SuplEsClosed_proc E eng"
| "eng_proc E (LocEngRequestSuplEs i) eng = RequestSuplEs_proc E i eng"
| "eng_proc E (LocEngRequestATL i type) eng = RequestATL_proc E i type eng"
| "eng_proc E (LocEngReleaseATL i) eng = Some (ReleaseATL_proc E i eng)"
| "eng_proc E (LocEngReqRelWifi type sender s p isReq) eng = ReqRelWifi_proc E type sender s p isReq eng"
| "eng_proc E (LocEngDataClientInit failed) eng = Some (DataClientInit_proc failed eng, [])"
| "eng_proc E (LocEngAtlOpenSuccess sm apn len bearer) eng = AtlOpenSuccess_proc E sm apn len bearer eng"
| "eng_proc E (LocEngAtlClosed sm) eng = AtlClosed_proc E sm eng"
| "eng_proc E (LocEngAtlOpenFailed sm) eng = AtlOpenFailed_proc E sm eng"
| "eng_proc E RetryTimer eng =
    (if nif_of eng NIF_DS \<noteq> None then on_nif NIF_DS (retryCallback E) eng else Some (eng, []))"
| "eng_proc E EngineUp eng = Some (engine_up eng, [])"

lemmas eng_procs = ReqRelBIT_proc_def SuplEsOpened_proc_def SuplEsClosed_proc_def RequestSuplEs_proc_def
  RequestATL_proc_def ReqRelWifi_proc_def AtlOpenSuccess_proc_def AtlClosed_proc_def AtlOpenFailed_proc_def

text \<open>The framework's answers: each posts a message with the machine of its type.\<close>

definition MAX_APN_LEN :: nat where
  "MAX_APN_LEN = 100"

definition loc_eng_agps_open :: "loc_eng \<Rightarrow> int \<Rightarrow> string option \<Rightarrow> int \<Rightarrow> LocMsg list" where
  "loc_eng_agps_open eng type apn bearer =
    (if \<not> agps_status_cb eng then []
     else case apn of
       None \<Rightarrow> []
     | Some a \<Rightarrow>
         let apn_len = min (length a) MAX_APN_LEN
         in [LocEngAtlOpenSuccess (getAgpsStateMachine eng type) (take apn_len a) apn_len bearer])"

definition loc_eng_agps_closed :: "loc_eng \<Rightarrow> int \<Rightarrow> LocMsg list" where
  "loc_eng_agps_closed eng type =
    (if \<not> agps_status_cb eng then [] else [LocEngAtlClosed (getAgpsStateMachine eng type)])"

definition loc_eng_agps_open_failed :: "loc_eng \<Rightarrow> int \<Rightarrow> LocMsg list" where
  "loc_eng_agps_open_failed eng type =
    (if \<not> agps_status_cb eng then [] else [LocEngAtlOpenFailed (getAgpsStateMachine eng type)])"

text \<open>
  The daemons' requests for an interface: the type and the sender of the message, both checked; the
  result is the return value and the message.
\<close>

datatype if_type = IF_REQUEST_TYPE_SUPL | IF_REQUEST_TYPE_WIFI | IF_REQUEST_TYPE_ANY | IF_TYPE_OTHER

datatype if_sender =
    IF_REQUEST_SENDER_ID_QUIPC
  | IF_REQUEST_SENDER_ID_MSAPM
  | IF_REQUEST_SENDER_ID_MSAPU
  | IF_REQUEST_SENDER_ID_GPSONE_DAEMON
  | IF_SENDER_OTHER

fun if_agps_type :: "if_type \<Rightarrow> int option" where
  "if_agps_type IF_REQUEST_TYPE_SUPL = Some AGPS_TYPE_SUPL"
| "if_agps_type IF_REQUEST_TYPE_WIFI = Some AGPS_TYPE_WIFI"
| "if_agps_type IF_REQUEST_TYPE_ANY = Some 0"
| "if_agps_type IF_TYPE_OTHER = None"

definition if_handler ::
  "if_type \<Rightarrow> if_sender \<Rightarrow> u32 \<Rightarrow> u8 list \<Rightarrow> string \<Rightarrow> string \<Rightarrow> bool \<Rightarrow> int \<times> LocMsg list" where
  "if_handler t sender ipv4 ipv6 s p isReq =
    (case if_agps_type t of
       None \<Rightarrow> (- 1, [])
     | Some type \<Rightarrow>
         (case sender of
            IF_REQUEST_SENDER_ID_QUIPC \<Rightarrow> (0, [LocEngReqRelWifi type 0 (Some s) (Some p) isReq])
          | IF_REQUEST_SENDER_ID_MSAPM \<Rightarrow> (0, [LocEngReqRelWifi type 1 (Some s) (Some p) isReq])
          | IF_REQUEST_SENDER_ID_MSAPU \<Rightarrow> (0, [LocEngReqRelWifi type 2 (Some s) (Some p) isReq])
          | IF_REQUEST_SENDER_ID_GPSONE_DAEMON \<Rightarrow> (0, [LocEngReqRelBIT type ipv4 (Some ipv6) isReq])
          | IF_SENDER_OTHER \<Rightarrow> (- 1, [])))"

text \<open>
  The handlers of the two messages; \<open>handle\<close> says whether the engine has set \<open>loc_api_handle\<close>. Only
  the first checks it; sending a message follows it.
\<close>

definition if_request_handler ::
  "bool \<Rightarrow> if_type \<Rightarrow> if_sender \<Rightarrow> u32 \<Rightarrow> u8 list \<Rightarrow> string \<Rightarrow> string \<Rightarrow> int \<times> LocMsg list" where
  "if_request_handler handle t sender ipv4 ipv6 s p =
    (if \<not> handle then (1, []) else if_handler t sender ipv4 ipv6 s p True)"

definition if_release_handler ::
  "bool \<Rightarrow> if_type \<Rightarrow> if_sender \<Rightarrow> u32 \<Rightarrow> u8 list \<Rightarrow> string \<Rightarrow> string \<Rightarrow> (int \<times> LocMsg list) option" where
  "if_release_handler handle t sender ipv4 ipv6 s p =
    (case if_handler t sender ipv4 ipv6 s p False of
       (r, ms) \<Rightarrow> if ms \<noteq> [] \<and> \<not> handle then None else Some (r, ms))"

text \<open>
  The engine's thread: \<open>n\<close> messages of the queue, each followed by what it posts; and a run in which
  the outside sends one message after the other, each handled with what it causes.
\<close>

fun eng_loop :: "agps_env \<Rightarrow> nat \<Rightarrow> LocMsg list \<Rightarrow> loc_eng \<Rightarrow> (loc_eng \<times> LocMsg list) option" where
  "eng_loop E (Suc n) (m # ms) eng =
    (case eng_proc E m eng of None \<Rightarrow> None | Some (eng, new) \<Rightarrow> eng_loop E n (ms @ new) eng)"
| "eng_loop E _ ms eng = Some (eng, ms)"

fun eng_run :: "agps_env \<Rightarrow> LocMsg list \<Rightarrow> loc_eng \<Rightarrow> (loc_eng \<times> LocMsg list) option" where
  "eng_run E [] eng = Some (eng, [])"
| "eng_run E (m # ms) eng =
    (case eng_loop E 3 [m] eng of
       None \<Rightarrow> None
     | Some (eng, []) \<Rightarrow> eng_run E ms eng
     | Some (eng, left) \<Rightarrow> Some (eng, left))"

section \<open>The properties\<close>

text \<open>The messages for which the engine follows a NULL pointer.\<close>

definition follows_null :: "loc_eng \<Rightarrow> LocMsg \<Rightarrow> bool" where
  "follows_null eng m \<longleftrightarrow>
    (case m of
       LocEngReqRelBIT type _ _ _ \<Rightarrow> getAgpsStateMachine eng type = None
     | LocEngAtlOpenSuccess sm _ _ _ \<Rightarrow> sm = None
     | LocEngAtlClosed sm \<Rightarrow> sm = None
     | LocEngAtlOpenFailed sm \<Rightarrow> sm = None
     | _ \<Rightarrow> False)"

text \<open>A machine that a message carries is one of the engine's.\<close>

definition carries_known :: "loc_eng \<Rightarrow> LocMsg \<Rightarrow> bool" where
  "carries_known eng m \<longleftrightarrow>
    (case m of
       LocEngAtlOpenSuccess (Some n) _ _ _ \<Rightarrow> nif_of eng n \<noteq> None
     | LocEngAtlClosed (Some n) \<Rightarrow> nif_of eng n \<noteq> None
     | LocEngAtlOpenFailed (Some n) \<Rightarrow> nif_of eng n \<noteq> None
     | _ \<Rightarrow> True)"

lemma getAgps_known: "getAgpsStateMachine eng type = Some n \<Longrightarrow> nif_of eng n \<noteq> None"
  by (auto simp: getAgpsStateMachine_def Let_def split: if_splits)

lemma on_nif_None [simp]: "on_nif n f eng = None \<longleftrightarrow> nif_of eng n = None"
  by (simp add: on_nif_def split: option.splits)

text \<open>
  The engine follows a NULL pointer exactly for a request of the BIT daemon, or an answer of the
  framework, whose type has no machine. With the MSA and MSB capabilities off, that is each such
  message of the type SUPL; the requests of the modem and of the WiFi daemons are answered with a
  failure instead.
\<close>

lemma eng_null_pointers:
  assumes "carries_known eng m"
  shows "(eng_proc E m eng = None) = follows_null eng m \<and>
    (let eng1 = fst (loc_eng_agps_init True False pdn
           \<lparr>nif_of = (\<lambda>_. None), mSupportsAgpsRequests = True, agps_status_cb = False, adapter_calls = []\<rparr>)
     in map (\<lambda>m. eng_proc E m eng1) (loc_eng_agps_open eng1 AGPS_TYPE_SUPL (Some apn) bearer) = [None] \<and>
        eng_proc E (LocEngReqRelBIT AGPS_TYPE_SUPL ipv4 ipv6 req) eng1 = None \<and>
        eng_proc E (LocEngRequestATL i AGPS_TYPE_SUPL) eng1 =
          Some (eng_call (AtlOpenStatus i False None (- 1) AGPS_TYPE_SUPL) eng1, []))"
proof
  show "(eng_proc E m eng = None) = follows_null eng m"
    using assms
    by (cases m) (auto simp: eng_procs follows_null_def carries_known_def on_nif_def split: option.splits
        dest: getAgps_known)
  show "let eng1 = fst (loc_eng_agps_init True False pdn
           \<lparr>nif_of = (\<lambda>_. None), mSupportsAgpsRequests = True, agps_status_cb = False, adapter_calls = []\<rparr>)
     in map (\<lambda>m. eng_proc E m eng1) (loc_eng_agps_open eng1 AGPS_TYPE_SUPL (Some apn) bearer) = [None] \<and>
        eng_proc E (LocEngReqRelBIT AGPS_TYPE_SUPL ipv4 ipv6 req) eng1 = None \<and>
        eng_proc E (LocEngRequestATL i AGPS_TYPE_SUPL) eng1 =
          Some (eng_call (AtlOpenStatus i False None (- 1) AGPS_TYPE_SUPL) eng1, [])"
    by (simp add: eng_procs loc_eng_agps_init_def loc_eng_agps_open_def getAgpsStateMachine_def agps_consts Let_def)
qed

definition no_eng :: loc_eng where
  "no_eng = \<lparr>nif_of = (\<lambda>_. None), mSupportsAgpsRequests = True, agps_status_cb = False, adapter_calls = []\<rparr>"

lemma eng_null_pointers_example:
  "(eng_proc plain_env (LocEngReqRelBIT 4 7 None True) no_eng = None) =
      follows_null no_eng (LocEngReqRelBIT 4 7 None True) \<and>
    (let eng1 = fst (loc_eng_agps_init True False True
           \<lparr>nif_of = (\<lambda>_. None), mSupportsAgpsRequests = True, agps_status_cb = False, adapter_calls = []\<rparr>)
     in map (\<lambda>m. eng_proc plain_env m eng1) (loc_eng_agps_open eng1 AGPS_TYPE_SUPL (Some ''ims'') 0) = [None] \<and>
        eng_proc plain_env (LocEngReqRelBIT AGPS_TYPE_SUPL 7 None False) eng1 = None \<and>
        eng_proc plain_env (LocEngRequestATL 5 AGPS_TYPE_SUPL) eng1 =
          Some (eng_call (AtlOpenStatus 5 False None (- 1) AGPS_TYPE_SUPL) eng1, []))"
  by (rule eng_null_pointers) (simp add: carries_known_def)

text \<open>The three steps of a session of the modem with a machine.\<close>

lemma session_subscribe:
  "\<exists>n. subscribeRsrc E (ATLSubscriber i False) (new_AgpsStateMachine servicerTypeAgps type False) =
    (new_AgpsStateMachine servicerTypeAgps type False)\<lparr>mSubscribers := [(1, ATLSubscriber i False)],
      mStatePtr := AgpsPendingState, calls := [RequestAGps (NifRequest n)]\<rparr> \<and>
    nif_status n = GPS_REQUEST_AGPS_DATA_CONN"
proof -
  let ?m = "new_AgpsStateMachine servicerTypeAgps type False"
  have base: "base_inv ?m" using agps_inv_new by (simp add: agps_inv_def)
  have add: "addSubscriber E (ATLSubscriber i False) ?m = ?m\<lparr>mSubscribers := [(1, ATLSubscriber i False)]\<rparr>"
    by (simp add: addSubscriber_eq new_AgpsStateMachine_def new_addr_def new_ATLSubscriber_def)
  have "base_inv (?m\<lparr>mSubscribers := [(1, ATLSubscriber i False)]\<rparr>)"
    using add_base [OF base, of E "ATLSubscriber i False"] add by (simp add: new_AgpsStateMachine_def)
  note send = send_eq [OF this, of E GPS_REQUEST_AGPS_DATA_CONN]
  have new: "mStatePtr ?m = AgpsReleasedState" "\<not> mEnforceSingleSubscriber ?m" "calls ?m = []"
    by (simp_all add: new_AgpsStateMachine_def)
  show ?thesis
    by (intro exI [of _ "nif_request GPS_REQUEST_AGPS_DATA_CONN (?m\<lparr>mSubscribers := [(1, ATLSubscriber i False)]\<rparr>)"])
      (simp add: subscribeRsrc_def state_onRsrcEvent_def released_onRsrcEvent_def read_rcver_def add send [unfolded One_nat_def]
        new active_in_def emit_def)
qed

lemma session_open:
  assumes "mStatePtr st = AgpsPendingState" "mSubscribers st = [(1, ATLSubscriber i False)]" "\<not> is_ds st"
    and "calls st = cs" "mType st = type"
  shows "let st' = onRsrcEvent E RSRC_GRANTED (setAPN (Some apn) len (setBearer b st)) in
    mStatePtr st' = AgpsAcquiredState \<and> mSubscribers st' = [(1, ATLSubscriber i False)] \<and> \<not> is_ds st' \<and>
    calls st' = cs @ [AtlOpenStatus i True (Some (take len apn)) b type]"
  using assms
  by (simp add: onRsrcEvent_def agps_onRsrcEvent_def state_onRsrcEvent_def pending_onRsrcEvent_def notify_all
      in_group_def setAPN_def setBearer_def told_def emit_def Let_def)

lemma session_release:
  assumes "agps_inv st" "mStatePtr st = AgpsAcquiredState" "mSubscribers st = [(1, ATLSubscriber i False)]"
    and "calls st = cs"
  shows "\<exists>n st'. unsubscribeRsrc E (ATLSubscriber i False) st = (True, st') \<and>
    mStatePtr st' = AgpsReleasedState \<and> mSubscribers st' = [] \<and>
    calls st' = cs @ [AtlCloseStatus i True, RequestAGps (NifRequest n)] \<and>
    nif_status n = GPS_RELEASE_AGPS_DATA_CONN"
proof -
  let ?st1 = "(tell_one RSRC_UNSUBSCRIBE (ATLSubscriber i False) st)\<lparr>mSubscribers := []\<rparr>"
  have base: "base_inv st" using assms(1) by (simp add: agps_inv_def)
  have "notifySubscribers E (to_one (Listed 1) RSRC_UNSUBSCRIBE True) st = ?st1"
    using notify_leaving [of st 1 "ATLSubscriber i False" E] assms(3) by (simp add: freed_reads_def)
  then have drop: "drop_client E (Listed 1) st = ?st1"
    using assms(3) by (simp add: drop_client_def read_rcver_def)
  have "base_inv ?st1" using drop_client_base [OF base, of E "Listed 1"] drop by simp
  note send = send_eq [OF this, of E GPS_RELEASE_AGPS_DATA_CONN]
  show ?thesis using assms(2-4)
    by (intro exI [of _ "nif_request GPS_RELEASE_AGPS_DATA_CONN ?st1"])
      (simp add: unsubscribeRsrc_def search_caller state_onRsrcEvent_def acquired_onRsrcEvent_def
        release_if_idle_def hasSubscribers_def drop [unfolded One_nat_def] send active_in_def told_def emit_def)
qed

text \<open>
  C13: A session of the modem: it asks for a connection, the framework opens one, the modem releases
  it. The framework is asked for the connection, the modem is told that its handle is open, with the
  access point and bearer of the answer, then that it is closed, and the framework is asked to give
  the connection up; no message is left and the machine is as before.
\<close>

theorem eng_atl_session:
  assumes "nif_of eng NIF_AGNSS = Some (new_AgpsStateMachine servicerTypeAgps AGPS_TYPE_SUPL False)"
    and "agps_status_cb eng"
  shows "\<exists>eng' st' n1 n2.
    eng_run E (LocEngRequestATL i AGPS_TYPE_SUPL # loc_eng_agps_open eng AGPS_TYPE_SUPL (Some apn) bearer @
      [LocEngReleaseATL i]) eng = Some (eng', []) \<and>
    nif_of eng' NIF_AGNSS = Some st' \<and> mStatePtr st' = AgpsReleasedState \<and> mSubscribers st' = [] \<and>
    calls st' = [RequestAGps (NifRequest n1), AtlOpenStatus i True (Some (take MAX_APN_LEN apn)) bearer AGPS_TYPE_SUPL,
      AtlCloseStatus i True, RequestAGps (NifRequest n2)] \<and>
    nif_status n1 = GPS_REQUEST_AGPS_DATA_CONN \<and> nif_status n2 = GPS_RELEASE_AGPS_DATA_CONN"
proof -
  let ?m0 = "new_AgpsStateMachine servicerTypeAgps AGPS_TYPE_SUPL False"
  let ?s = "ATLSubscriber i False"
  have types: "AGPS_TYPE_SUPL \<noteq> AGPS_TYPE_WIFI" "AGPS_TYPE_INVALID \<noteq> AGPS_TYPE_SUPL"
    by (simp_all add: agps_consts)
  obtain n1 st1 where st1: "subscribeRsrc E ?s ?m0 = st1" "mStatePtr st1 = AgpsPendingState"
    "mSubscribers st1 = [(1, ?s)]" "\<not> is_ds st1" "calls st1 = [RequestAGps (NifRequest n1)]"
    "mType st1 = AGPS_TYPE_SUPL" and n1: "nif_status n1 = GPS_REQUEST_AGPS_DATA_CONN"
    using session_subscribe [of E i AGPS_TYPE_SUPL] by (auto simp: new_AgpsStateMachine_def)
  define len where "len = min (length apn) MAX_APN_LEN"
  have apn: "take len (take len apn) = take MAX_APN_LEN apn" by (simp add: len_def min_def)
  define st2 where "st2 = onRsrcEvent E RSRC_GRANTED (setAPN (Some (take len apn)) len (setBearer bearer st1))"
  have st2: "mStatePtr st2 = AgpsAcquiredState" "mSubscribers st2 = [(1, ?s)]"
    "calls st2 = [RequestAGps (NifRequest n1), AtlOpenStatus i True (Some (take MAX_APN_LEN apn)) bearer AGPS_TYPE_SUPL]"
    using session_open [OF st1(2-6), of E "take len apn" len bearer] unfolding Let_def st2_def [symmetric] apn by auto
  have "st2 = agps_run E [Subscribe ?s, Opened (Some (take len apn)) len bearer] ?m0"
    by (simp add: agps_run_def st1(1) st2_def)
  then have "agps_inv st2" by (simp add: agps_run_inv keeps_clients_def)
  then obtain n2 st3 where st3: "unsubscribeRsrc E ?s st2 = (True, st3)" "mStatePtr st3 = AgpsReleasedState"
    "mSubscribers st3 = []" "calls st3 = calls st2 @ [AtlCloseStatus i True, RequestAGps (NifRequest n2)]"
    and n2: "nif_status n2 = GPS_RELEASE_AGPS_DATA_CONN"
    using session_release [OF _ st2(1,2) refl, of E] by blast
  let ?on = "\<lambda>st. eng\<lparr>nif_of := (nif_of eng)(NIF_AGNSS \<mapsto> st)\<rparr>"
  have "getAgpsStateMachine eng AGPS_TYPE_SUPL = Some NIF_AGNSS"
    using assms(1) types by (simp add: getAgpsStateMachine_def)
  then have opened: "loc_eng_agps_open eng AGPS_TYPE_SUPL (Some apn) bearer =
      [LocEngAtlOpenSuccess (Some NIF_AGNSS) (take len apn) len bearer]"
    and "eng_proc E (LocEngRequestATL i AGPS_TYPE_SUPL) eng = Some (?on st1, [])"
    using assms types st1(1,5)
    by (simp_all add: eng_procs loc_eng_agps_open_def len_def Let_def on_nif_def new_ATLSubscriber_def,
        simp add: new_AgpsStateMachine_def)
  moreover have "eng_proc E (LocEngAtlOpenSuccess (Some NIF_AGNSS) (take len apn) len bearer) (?on st1) =
      Some (?on st2, [])"
    using st1(5) st2(3) by (simp add: eng_procs on_nif_def st2_def [symmetric])
  moreover have "eng_proc E (LocEngReleaseATL i) (?on st2) = Some (?on st3, [])"
    using st3(1,4) by (simp add: on_nif_def ReleaseATL_proc_def try_release_def new_ATLSubscriber_def)
  ultimately have proc: "eng_proc E (LocEngRequestATL i AGPS_TYPE_SUPL) eng = Some (?on st1, [])"
    "eng_proc E (LocEngAtlOpenSuccess (Some NIF_AGNSS) (take len apn) len bearer) (?on st1) = Some (?on st2, [])"
    "eng_proc E (LocEngReleaseATL i) (?on st2) = Some (?on st3, [])"
    by blast+
  have "eng_run E (LocEngRequestATL i AGPS_TYPE_SUPL # loc_eng_agps_open eng AGPS_TYPE_SUPL (Some apn) bearer @
      [LocEngReleaseATL i]) eng = Some (?on st3, [])"
    unfolding opened by (simp add: numeral_3_eq_3 proc(1-3) del: eng_proc.simps)
  then show ?thesis using st3 st2(3) n1 n2
    by (intro exI [of _ "?on st3"] exI [of _ st3] exI [of _ n1] exI [of _ n2]) simp
qed

definition some_eng :: loc_eng where
  "some_eng = fst (loc_eng_agps_init True True False no_eng)"

theorem eng_atl_session_witness:
  "\<exists>eng' st' n1 n2.
    eng_run plain_env (LocEngRequestATL 7 AGPS_TYPE_SUPL #
      loc_eng_agps_open some_eng AGPS_TYPE_SUPL (Some ''ims'') 1 @ [LocEngReleaseATL 7]) some_eng = Some (eng', []) \<and>
    nif_of eng' NIF_AGNSS = Some st' \<and> mStatePtr st' = AgpsReleasedState \<and> mSubscribers st' = [] \<and>
    calls st' = [RequestAGps (NifRequest n1), AtlOpenStatus 7 True (Some (take MAX_APN_LEN ''ims'')) 1 AGPS_TYPE_SUPL,
      AtlCloseStatus 7 True, RequestAGps (NifRequest n2)] \<and>
    nif_status n1 = GPS_REQUEST_AGPS_DATA_CONN \<and> nif_status n2 = GPS_RELEASE_AGPS_DATA_CONN"
  by (rule eng_atl_session) (simp_all add: some_eng_def loc_eng_agps_init_def no_eng_def Let_def)

text \<open>
  The emergency connections: the data service does not know the first call, which falls back to the
  normal connection; a second call gets through.
\<close>

definition fallback_env :: agps_env where
  "fallback_env = plain_env\<lparr>ext_ret := \<lambda>cs. if ext_requests cs = 0 then ERR_UNSUPPORTED else ERR_SUCCESS\<rparr>"

definition two_emergency_calls :: "LocMsg list" where
  "two_emergency_calls =
    [LocEngDataClientInit False,
     LocEngRequestSuplEs 1, LocEngAtlOpenSuccess (Some NIF_AGNSS) ''ims'' 3 0, LocEngReleaseATL 1,
     LocEngRequestSuplEs 2, LocEngSuplEsOpened, LocEngReleaseATL 2]"

text \<open>
  A call that has fallen back to the normal connection stays among the clients of the data
  service, even when the modem releases it, because the release finds the client of the normal
  connection first. When the next emergency call is connected, the modem is told that the first
  call's handle is open as well; and when that next call ends, the data call is not stopped: the
  machine keeps the connection for a call that ended before.
\<close>

lemma eng_fallback_stale:
  "case eng_run fallback_env two_emergency_calls some_eng of
     Some (eng, []) \<Rightarrow>
       (case nif_of eng NIF_DS of
          Some st \<Rightarrow> mStatePtr st = AgpsAcquiredState \<and>
            map snd (mSubscribers st) = [DSSubscriber 2 True, DSSubscriber 1 False] \<and>
            calls st = [RequestExt (DsCbData GPS_REQUEST_AGPS_DATA_CONN), RequestATL 1 AGPS_TYPE_SUPL,
              RequestExt (DsCbData GPS_REQUEST_AGPS_DATA_CONN),
              AtlOpenStatus 2 True None (- 1) (- 1), AtlOpenStatus 1 True None (- 1) (- 1),
              AtlCloseStatus 2 True]
        | None \<Rightarrow> False) \<and>
       (case nif_of eng NIF_AGNSS of Some st \<Rightarrow> mStatePtr st = AgpsReleasedState | None \<Rightarrow> False)
   | _ \<Rightarrow> False"
  unfolding two_emergency_calls_def some_eng_def no_eng_def by code_simp

section \<open>Further cases\<close>

text \<open>Two BIT clients with different IPv6 addresses that agree up to a zero byte count as one.\<close>

lemma ipv6_clients_merged:
  "mSubscribers (agps_run plain_env
      [Subscribe (BITSubscriber INADDR_NONE [32, 1, 13, 184, 0, 0, 0, 0, 0, 0, 0, 0, 0, 0, 0, 1]),
       Subscribe (BITSubscriber INADDR_NONE [32, 1, 13, 184, 0, 0, 0, 0, 0, 0, 0, 0, 0, 0, 0, 2])]
      (new_AgpsStateMachine servicerTypeAgps 1 False)) =
    [(1, BITSubscriber INADDR_NONE [32, 1, 13, 184, 0, 0, 0, 0, 0, 0, 0, 0, 0, 0, 0, 1])]"
  by code_simp

text \<open>A client of the data service that comes back while it is being released is forgotten.\<close>

lemma ds_resubscribe_lost:
  "let st = agps_run plain_env
      [Subscribe (DSSubscriber 1 False), Event RSRC_GRANTED, Unsubscribe (DSSubscriber 1 False),
       Subscribe (DSSubscriber 1 False), Event RSRC_RELEASED] (new_DSStateMachine servicerTypeExt)
   in mSubscribers st = [] \<and> mStatePtr st = AgpsReleasedState \<and> ext_requests (calls st) = 2"
  by code_simp

text \<open>
  A request that is refused as busy when the machine leaves \<open>AgpsReleasingState\<close> is not repeated: the
  machine is pending, and the retry of a pending machine does not ask again.
\<close>

definition busy_at_third :: agps_env where
  "busy_at_third = plain_env\<lparr>ext_ret := \<lambda>cs. if ext_requests cs = 2 then ERR_ENGINE_BUSY else ERR_SUCCESS\<rparr>"

lemma ds_pending_stuck:
  "let st = agps_run busy_at_third
      [Subscribe (DSSubscriber 1 False), Event RSRC_GRANTED, Unsubscribe (DSSubscriber 1 False),
       Subscribe (DSSubscriber 2 False), Event RSRC_RELEASED] (new_DSStateMachine servicerTypeExt)
   in last (calls st) = TimerStart DATA_CALL_RETRY_DELAY_MSEC \<and> mStatePtr st = AgpsPendingState \<and>
      ext_requests (calls (ds_fire busy_at_third st)) = ext_requests (calls st) \<and>
      mStatePtr (ds_fire busy_at_third st) = AgpsPendingState"
  by code_simp

text \<open>After a restart of the modem a machine may have the connection and no client.\<close>

lemma restart_keeps_connection:
  "let st = agps_run plain_env (two_clients @ [DropAll]) (new_AgpsStateMachine servicerTypeAgps 1 False)
   in mSubscribers st = [] \<and> mStatePtr st = AgpsAcquiredState \<and>
      nif_reqs (calls st) = [GPS_REQUEST_AGPS_DATA_CONN]"
  by code_simp

end
