(* ===== verification/Spec2Isabelle.thy ===== *)
theory Spec2Isabelle
  imports CamProps CamQueue SmThread CamApiProps SuperBufProps CamLayoutProps LocTimerProps NatStack MsgQ LocEng
begin

text \<open>
  A verification library for the device tree of the OnePlus 2
  (\<open>android_device_oneplus_oneplus2\<close>): the parts of it that take decisions of their own, modelled
  as the code has them and proved to keep their promises, or shown not to.

  \<^bold>\<open>The parts\<close>

  The repository holds bodies of native code that do not depend on each other.

  \<^item> The camera HAL (\<open>camera/QCamera2\<close>). An application calls the operations of the camera
    device (\<open>HAL/QCamera2HWI.cpp\<close>); each hands an API event to the state machine
    (\<open>HAL/QCameraStateMachine.cpp\<close>) and waits for the result of that event. The state machine
    has a thread of its own, which takes API events and internal events (the backend's and the
    JPEG encoder's reports) from two work queues (\<open>util/QCameraQueue.cpp\<close>, over the rings of
    \<open>stack/common/cam_list.h\<close>), drives the rest of the interface object and signals results.
  \<^item> The super buffers of the camera backend
    (\<open>camera/QCamera2/stack/mm-camera-interface/src/mm_camera_channel.c\<close>). Each channel of streams
    has a thread that receives the frames of the streams and the requests of the HAL as commands,
    collects the frames of one number, one of each stream, in a queue, and sends complete sets on.
    Beside it, \<open>mm_camera_stream.c\<close> lays the planes of a stream's frames out in their buffers.
  \<^item> The timers of the GPS utilities (\<open>gps/utils/LocTimer.cpp\<close>). Clients start and stop timers;
    each running timer is a delegate in one of two containers, which are heaps
    (\<open>gps/utils/LocHeap.cpp\<close>) with a timer descriptor each. A message thread
    (\<open>gps/utils/MsgTask.cpp\<close>) changes the heaps and calls the clients back, a poll thread waits
    for the descriptors.
  \<^item> The data connections of assisted GPS (\<open>gps/loc_api/libloc_api_50001\<close>). The modem and daemons
    ask the engine (\<open>loc_eng.cpp\<close>, \<open>loc_eng_dmn_conn_handler.cpp\<close>) for connections; it hands each
    request to one of four state machines (\<open>loc_eng_agps.cpp\<close>), which keep lists of clients
    (\<open>gps/utils/linked_list.c\<close>), ask the framework or the data service, and tell the clients. The
    engine's thread receives its messages from a queue (\<open>gps/utils/msg_q.c\<close>), a list with a lock.
  \<^item> The IPA configuration manager (\<open>data-ipa-cfg-mgr/ipacm\<close>). The listener of the connection
    tracker (\<open>IPACM_ConntrackListener.cpp\<close>) turns the kernel's connection messages and the
    interface events into calls on the NAT cache (\<open>IPACM_Conntrack_NATApp.cpp\<close>), which keeps the
    connections and puts them into the hardware through the NAT driver
    (\<open>data-ipa-cfg-mgr/ipanat/src/ipa_nat_drv.c\<close> and \<open>ipa_nat_drvi.c\<close>), which builds the tables
    that the hardware reads.

  \<^bold>\<open>The theories\<close>

  \<^item> \<open>Prelude\<close>: the machine types (\<open>int\<close> and pointers of 32 bits, as the makefiles build), the
    state monad the handlers are written in with its evaluation rules \<open>run_simps\<close>, and two
    interfaces as locales: \<open>event_machine\<close>, a machine whose step keeps an invariant, whose runs
    keep it too; and \<open>work_queue\<close>, what a queue must do for a drain to give its items in order.
  \<^item> \<open>SmTypes\<close>, \<open>SmCommon\<close>: the data of \<open>QCameraStateMachine.h\<close> and the case bodies that several
    states share. The parent object is the environment \<open>E\<close>, a reply function over a state of its
    own: any parent, daemon and hardware. A trace of calls and signals records what the machine
    does to it. \<open>SmStopped\<close>, \<open>SmReady\<close>, \<open>SmPreviewing\<close>, \<open>SmPrepare\<close>, \<open>SmPicTaking\<close>, \<open>SmRecording\<close>,
    \<open>SmVideoPic\<close>, \<open>SmPreviewPic\<close>: one \<open>procEvt...State\<close> each, every case of its switch in the
    order of the source, cut in two or three functions only to keep the pattern matches small.
    \<open>SmSpec\<close>: the automaton, the postponed answers and the invariants of the machine, without its
    code. \<open>CamStateMachine\<close>: the dispatcher and the runs. \<open>CamProtocol\<close>: the protocols over several
    events. \<open>CamProps\<close>: the properties.
  \<^item> \<open>CamList\<close>, \<open>CamQueue\<close>: the ring on an explicit heap of next and previous pointers, and the
    queue on it, refined to a list. \<open>SmThread\<close>: the two queues, the semaphore and the loop
    \<open>smEvtProcRoutine\<close>, in any interleaving with its callers.
  \<^item> \<open>CamApi\<close>, \<open>CamApiProps\<close>: the operations of the device, with \<open>procAPI\<close> up to its queue and
    \<open>waitAPIResult\<close> on the list of results; each of their allocations may fail.
  \<^item> \<open>SuperBuf\<close>: the queue of a channel, the metadata that steers it, and the matching of a frame
    (\<open>mm_channel_superbuf_...\<close>, \<open>mm_channel_handle_metadata\<close>); \<open>SuperBufCmd\<close>: the commands of
    \<open>mm_channel_process_stream_buf\<close>. \<open>SuperBufScan\<close>: what the walk over the queue finds.
    \<open>SuperBufKeep\<close>: every step conserves the buffers. \<open>SuperBufInv\<close>: the invariant.
    \<open>SuperBufBurst\<close>: the count of requested super buffers. \<open>SuperBufProps\<close>: the properties.
  \<^item> \<open>CamLayout\<close>: the functions \<open>mm_stream_calc_offset...\<close>, one for each type of stream.
    \<open>CamLayoutProps\<close>: that what they lay out fits, format by format, and the property of them all.
  \<^item> \<open>LocHeap\<close>: the heap as a tree of nodes, with the locale \<open>loc_rankable\<close> for the contract of
    \<open>ranks\<close>. \<open>LocTimer\<close>: clients, delegates, containers, messages and descriptors in one record,
    and the turns of the threads. \<open>LocTimerInv\<close>: its invariant. \<open>LocTimerProps\<close>: the properties.
  \<^item> \<open>LinkedList\<close>: the functions of \<open>linked_list.c\<close> on explicit memory and their refinement to
    sequences. \<open>MsgQ\<close>: \<open>msg_q.c\<close> on that list, threads that send, wait and are woken, and the
    properties of both.
  \<^item> \<open>Agps\<close>: clients, notifications and the operations on the list of a connection machine;
    \<open>AgpsMachine\<close>: its states, the requests to the service, its subclass for emergency calls.
    \<open>AgpsNotify\<close>: what the searches and notifications do. \<open>AgpsInv\<close>: the invariant. \<open>AgpsProps\<close>:
    the properties. \<open>LocEng\<close>: the messages of the engine, one \<open>..._proc\<close> each, on the four machines.
  \<^item> \<open>NatApp\<close>: the cache, with the NAT driver and the connection tracker as a parameter \<open>D\<close>.
    \<open>NatInv\<close>: its invariant. \<open>CtListener\<close>: the listener. \<open>NatProps\<close>: the properties.
  \<^item> \<open>NatArith\<close>: the sizes, hashes and checksums of the NAT driver. \<open>NatDrv\<close>: its operations, on
    the four tables as arrays of 32-byte and 4-byte entries; the kernel is the parameter \<open>K\<close>.
    \<open>NatDrvMem\<close>: what a DMA command writes. \<open>NatChain\<close>: hash tables with chaining, as such.
    \<open>NatDrvOps\<close>, \<open>NatDrvAdd\<close>, \<open>NatDrvDel\<close>: each operation as writes of entries. \<open>NatDrvInv\<close>,
    \<open>NatDrvDelInv\<close>, \<open>NatDrvGone\<close>, \<open>NatDrvKeep\<close>, \<open>NatDrvClear\<close>: the invariant, and that adding and
    deleting keep it and change the map from handles to rules at one place. \<open>NatDrvProps\<close>,
    \<open>NatDrvRun\<close>, \<open>NatDrvThms\<close>: new tables, sequences of calls, what the hardware finds, the
    properties.
  \<^item> \<open>NatHw\<close>: the contract of the driver as the locale \<open>nat_contract\<close>, and in it the cache and the
    listener over any driver that keeps it. \<open>NatStack\<close>: the driver as the cache calls it, its
    interpretation of the contract, and the property of the three together.

  \<^bold>\<open>What is shown\<close>

  \<^item> Camera state machine: it moves exactly along its automaton; an API event that the state does
    not postpone is answered once, with the status returned, and the events left unanswered are
    four; recordings are started and stopped in balance; no preview is started unprepared; the
    requests that a state refuses unconditionally and without other effect are exactly those of a
    table, and releasing a recording frame before a recording closes a handle before it is refused;
    the critical calls are made only in listed states; preview messages are delayed and enabled as
    meant.
  \<^item> Queue and thread: every sequence of calls on the pointer structure gives the results of a
    list, leaks and double-frees nothing and drains in order; the semaphore counts the commands
    that wait, commands are executed once and in the order of their queue, and a woken thread
    returns to its wait, or ends, in a number of turns that is given.
  \<^item> Device operations: an operation whose event is answered at once returns its own result
    without waiting for further events, or an error when its command cannot be handed over; when
    there is no memory for the result it waits on; registering a face during a preparation never
    returns.
  \<^item> Super buffers: with a priority other than LOW no sequence of commands hangs the thread or makes
    it follow a pointer out of a freed node (it does read one, which is an event of the model), and the
    queue keeps its order and counts; what is sent is complete and of one frame, and in burst mode not
    more than was asked for. For every priority the buffers that came in are in the queue, given back,
    sent, or lost for want of memory. One defect is a theorem: a channel started again keeps an old
    count and hangs at the next request.
  \<^item> Layouts: for every type of stream and format, images of up to 16384 by 16384 fit into the planes
    laid out for them and the planes into the frame; unsupported formats change nothing.
  \<^item> Timers: the heap is a bag ranked by time; in every interleaving a running timer is on its way
    to, or in, a heap whose descriptor is set in time, and no deleted delegate is used; each start
    is matched by one stop or one call; an expiry calls the first timer, due or not, and of the
    others those that are due.
  \<^item> GPS list and message queue: the pointers behave as a sequence; in every interleaving of the
    threads, messages leave in the order sent and no receiver sleeps for ever beside one.
  \<^item> GPS connections: a machine's state says whether it has clients and whether the connection is
    requested, whatever happens outside; grants and denials reach the clients they should, once;
    a busy data service is asked a bounded number of times; a session of the modem runs through
    engine and machine as meant. One defect is a theorem: a deleted client that is still compared
    with; others are shown by examples, as a client that has fallen back but stays listed, and NULL
    machines.
  \<^item> NAT cache: whatever the driver answers, the slots, the counter and the absence of duplicates
    are kept, as long as a counter that the code does not set stays in the cache; the cache is a set of connections; adding and deleting restore it. Three defects
    are shown: handles that outlive their table, the 16-bit public address, and an index that is
    never set.
  \<^item> NAT driver: from a new table, every sequence of additions, deletions and queries with arguments
    that the code can take (no protocol 0xFF, handles of 16 bits, no query of the handle 0) returns
    and is one on a map from handles to rules; of the query of an absent handle only that it changes
    nothing is said; a rule is in it if and only if the hardware finds it,
    by both hashes; it is refused only without room; sizes and checksum corrections are right.
  \<^item> The three together: while the link is up, the tables of the hardware hold exactly the
    connections that the cache has marked, and while it is down there is no table, as long as the
    link keeps its address, the kernel does what it is asked, the cache has at most 20480 entries and
    the counter that the code does not set stays in the cache.

  \<^bold>\<open>Bounds and fuel\<close>

  Machine integers keep their width where their value matters: 32-bit words for \<open>int\<close> and for
  sizes and time-outs, the fields of a connection at their C types. Times are unbounded integers
  with a stated range, in which the 32-bit arithmetic of \<open>ranks\<close> is exact. The loops of the code
  are structural recursions, folds over the slots, or \<open>function\<close>s with a measure; the two flushing
  loops of the queue are partial functions, and \<open>queue_runs_refine\<close> shows that they return.
  \<open>thread_run\<close> takes a number of turns; \<open>thread_drains\<close> and \<open>thread_exits\<close> show how many suffice.
  The loops of \<open>linked_list.c\<close> are partial functions that \<open>linked_list_refines\<close> shows to return;
  the loop that notifies and deletes clients has the length of the list as measure; \<open>eng_loop\<close>
  handles a number of messages, and \<open>eng_run\<close> three for each one from outside, of which the
  results say that none is left.
  The loops of \<open>mm_channel_superbuf_skip\<close> and \<open>mm_channel_superbuf_bufdone_overflow\<close> are one partial
  function, which \<open>superbuf_queue_runs\<close> shows to return for a \<open>max_unmatched_frames\<close> below 255 (the
  code counts them in 8 bits) and the priorities that match by number.
  The loop of the NAT driver to the end of a chain is a partial function; that it returns is part
  of \<open>nat_drv_refines\<close>. Its tables are taken up to 20480 entries (of which the code makes a base
  table of 16384): beyond, offsets are truncated to 16 bits. The layouts of frames are computed in
  32 bits for sizes up to 16384 and paddings up to 4096, where nothing wraps. Reads and writes outside an array,
  where the code can make them, are the result \<open>None\<close>.

  \<^bold>\<open>Not modelled\<close>

  Allocation failures inside the streams and channels of the camera parent and of descriptors; time itself, which only grows
  as the steps say; the memory model (each critical section is one step). Of the NAT driver: the
  hardware's own writes (time stamps) and the dumps. Of
  the camera backend, the automata of channels and streams and what the driver does with a buffer
  that is given back. HAL3, JPEG, the parameters, the rest of the GPS engine and the interface
  managers of IPA are listed as components without definitions: their core is the vendor's
  interface on the other side. Of the GPS engine, only the messages that concern connections are
  modelled.
\<close>

end
